(* ===== verification/Mega_Prelude.thy ===== *)
theory Mega_Prelude
  imports Main "HOL-Library.Word"
begin

text \<open>
  Shared vocabulary of the development: the machine types of \<open>include/mega/types.h\<close>, byte
  strings, the little-endian image that \<open>append((char*)&x, sizeof x)\<close> writes and
  \<open>MemAccess::get\<close> reads, reads of NUL-terminated strings, and the generic lemmas and
  interfaces (codecs) that the component theories build on.

  Conventions. A \<open>std::string\<close>, a \<open>byte*\<close> buffer and a NUL-terminated \<open>char*\<close> are
  \<open>byte list\<close>s (the terminator is not stored). \<open>char\<close> is signed, integers are two's
  complement and little-endian, \<open>int\<close> has 32 bits and \<open>long\<close>, \<open>time_t\<close> and pointers
  have 64 bits, as on the x86-64 Linux target the sources are built for.
\<close>

unbundle bit_operations_syntax

type_synonym byte = "8 word"
type_synonym bytes = "byte list"
type_synonym u16 = "16 word"
type_synonym u32 = "32 word"
type_synonym u64 = "64 word"

text \<open>\<open>types.h\<close>: \<open>handle\<close> and \<open>nameid\<close> are \<open>uint64_t\<close>, \<open>dstime\<close> is \<open>uint32_t\<close>.\<close>

type_synonym handle = u64
type_synonym nameid = u64
type_synonym dstime = u32

definition UNDEF :: handle where
  "UNDEF = NOT 0"

definition ISUNDEF :: "handle \<Rightarrow> bool" where
  "ISUNDEF h \<longleftrightarrow> h + 1 = 0"

lemma ISUNDEF_iff: "ISUNDEF h \<longleftrightarrow> h = UNDEF"
  by (auto simp: ISUNDEF_def UNDEF_def eq_neg_iff_add_eq_0)

text \<open>ASCII literals of the sources as byte strings.\<close>

definition str :: "string \<Rightarrow> bytes" where
  "str s = map of_char s"

text \<open>The characters the parsers and printers test for.\<close>

abbreviation (input) ch_quote :: byte where "ch_quote \<equiv> 34"
abbreviation (input) ch_comma :: byte where "ch_comma \<equiv> 44"
abbreviation (input) ch_minus :: byte where "ch_minus \<equiv> 45"
abbreviation (input) ch_dot :: byte where "ch_dot \<equiv> 46"
abbreviation (input) ch_slash :: byte where "ch_slash \<equiv> 47"
abbreviation (input) ch_colon :: byte where "ch_colon \<equiv> 58"
abbreviation (input) ch_lbrack :: byte where "ch_lbrack \<equiv> 91"
abbreviation (input) ch_bslash :: byte where "ch_bslash \<equiv> 92"
abbreviation (input) ch_rbrack :: byte where "ch_rbrack \<equiv> 93"
abbreviation (input) ch_lbrace :: byte where "ch_lbrace \<equiv> 123"
abbreviation (input) ch_rbrace :: byte where "ch_rbrace \<equiv> 125"

definition is_digit :: "byte \<Rightarrow> bool" where
  "is_digit c \<longleftrightarrow> 48 \<le> c \<and> c \<le> 57"

text \<open>Little-endian image of the low \<open>n\<close> bytes of a word, and the word read back.\<close>

fun le_bytes :: "nat \<Rightarrow> 'a::len word \<Rightarrow> bytes" where
  "le_bytes 0 w = []"
| "le_bytes (Suc n) w = ucast w # le_bytes n (drop_bit 8 w)"

fun le_word :: "bytes \<Rightarrow> 'a::len word" where
  "le_word [] = 0"
| "le_word (b # bs) = ucast b OR push_bit 8 (le_word bs)"

text \<open>\<open>*p\<close> for a pointer into a NUL-terminated string: the byte at an offset, and the
  terminator at the end.\<close>

definition at :: "bytes \<Rightarrow> nat \<Rightarrow> byte" where
  "at s i = (if i < length s then s ! i else 0)"

definition cur :: "bytes \<Rightarrow> byte" where
  "cur s = (case s of [] \<Rightarrow> 0 | c # _ \<Rightarrow> c)"

text \<open>\<open>if (*pos == c) pos++\<close>.\<close>

definition skip_char :: "byte \<Rightarrow> bytes \<Rightarrow> bytes" where
  "skip_char c s = (if cur s = c then tl s else s)"

text \<open>\<open>char\<close> read as a signed value.\<close>

definition schar :: "byte \<Rightarrow> int" where
  "schar c = sint c"

section \<open>Generic lemmas\<close>

named_theorems codec_simps
  \<open>sizes and round trips of the serializers, for the proofs of the records built from them\<close>

lemma cur_simps [simp]: "cur [] = 0" "cur (c # s) = c"
  by (simp_all add: cur_def)

lemma cur_append: "cur (s @ t) = (if s = [] then cur t else cur s)"
  by (cases s) auto

lemma cur_hd: "s \<noteq> [] \<Longrightarrow> cur s = hd s"
  by (cases s) auto

lemma at_0: "at s 0 = cur s"
  by (cases s) (auto simp: at_def)

lemma at_simps [simp]:
  "at [] i = 0" "at (c # s) 0 = c" "at (c # s) (Suc i) = at s i"
  by (simp_all add: at_def)

lemma at_drop: "cur (drop i s) = at s i"
  by (simp add: at_def cur_def hd_drop_conv_nth split: list.split)
     (metis Cons_nth_drop_Suc leI drop_all list.distinct(1) list.inject)

lemma length_le_bytes [simp, codec_simps]: "length (le_bytes n w) = n"
  by (induction n arbitrary: w) auto

lemma le_word_le_bytes_take_bit: "le_word (le_bytes n w) = take_bit (8 * n) w"
proof (induction n arbitrary: w)
  case 0
  then show ?case by simp
next
  case (Suc n)
  have "ucast (ucast w :: byte) OR push_bit 8 (take_bit (8 * n) (drop_bit 8 w))
        = take_bit (8 + 8 * n) w"
    by (rule bit_word_eqI) (auto simp: bit_simps)
  with Suc show ?case by simp
qed

lemma take_bit_word_full: "LENGTH('a) \<le> n \<Longrightarrow> take_bit n w = (w :: 'a::len word)"
  by (rule bit_word_eqI) (auto simp: bit_simps)

lemma le_word_le_bytes [codec_simps]:
  "LENGTH('a) \<le> 8 * n \<Longrightarrow> le_word (le_bytes n w) = (w :: 'a::len word)"
  by (simp add: le_word_le_bytes_take_bit take_bit_word_full)

lemma le_word_zeros [simp]: "le_word (replicate k 0) = 0"
  by (induction k) simp_all

lemma unat_drop_bit_8: "unat (drop_bit 8 w) = unat w div 256" for w :: "'a::len word"
  by (subst unat_drop_bit_eq) (simp add: drop_bit_eq_div)

lemma le_word_Cons_add: "le_word (b # bs) = ucast b + 256 * (le_word bs :: u64)"
proof -
  have "ucast b OR push_bit 8 (le_word bs) = ucast b + push_bit 8 (le_word bs :: u64)"
    by (subst disjunctive_add) (auto simp: bit_simps dest: bit_imp_le_length)
  then show ?thesis by (simp add: push_bit_eq_mult mult.commute)
qed

lemma le_word_append: "le_word (bs @ cs) = le_word bs + 256 ^ length bs * (le_word cs :: u64)"
proof (induction bs)
  case Nil
  then show ?case by simp
next
  case (Cons b bs)
  then show ?case
    by (simp only: append_Cons le_word_Cons_add) (simp add: algebra_simps)
qed

lemma byte_less: "uint (c :: byte) < 256" "unat (c :: byte) < 256"
  using uint_lt2p [of c] unsigned_less [where ?'a = nat, of c] by simp_all

lemma schar_uint: "schar c = (if c < 128 then uint c else uint c - 256)"
proof -
  have "schar c = (uint c + 128) mod 256 - 128"
    by (simp add: schar_def sint_uint signed_take_bit_eq_take_bit_shift take_bit_eq_mod)
  moreover have "(uint c + 128) mod 256 = (if uint c < 128 then uint c + 128 else uint c - 128)"
  proof (cases "uint c < 128")
    case False
    then have "(uint c - 128 + 256) mod 256 = uint c - 128"
      unfolding mod_add_self2 using byte_less(1) [of c] by simp
    with False show ?thesis by (simp add: add.commute)
  qed (simp add: mod_pos_pos_trivial)
  ultimately show ?thesis by (simp add: word_less_def)
qed

lemma byte_eqI:
  assumes "\<And>i. i \<in> {0,1,2,3,4,5,6,7} \<Longrightarrow> bit x i = bit y i"
  shows "x = (y :: byte)"
proof (rule bit_word_eqI)
  fix n assume "n < LENGTH(8)"
  then have "n \<in> {0,1,2,3,4,5,6,7}" by auto
  then show "bit x n = bit y n" by (rule assms)
qed

lemma unat_and_mask: "unat (w AND mask n) = unat w mod 2 ^ n" for w :: "'a::len word"
  by (metis take_bit_eq_mask unsigned_take_bit_eq take_bit_eq_mod)

text \<open>Rounding up to full blocks of 16.\<close>

lemma round_up_ge: "n \<le> (n + 15) div 16 * 16" for n :: nat
proof -
  have "(n + 15) div 16 * 16 = n + 15 - (n + 15) mod 16" by (rule minus_mod_eq_div_mult [symmetric])
  moreover have "(n + 15) mod 16 < 16" by simp
  ultimately show ?thesis by linarith
qed

lemma round_up_int: "x + (- x) mod 16 = (x + 15) div 16 * 16" for x :: int
proof -
  define k where "k = (x + 15) div 16"
  have "16 * k \<le> x + 15" "x + 15 < 16 * k + 16"
    using div_mult_mod_eq [of "x + 15" 16] pos_mod_bound [of 16 "x + 15"] pos_mod_sign [of 16 "x + 15"]
    by (simp_all add: k_def)
  then have "(16 * k - x) mod 16 = 16 * k - x" by simp
  moreover have "(16 * k - x) mod 16 = (- x) mod 16" using mod_mult_self2 [of "- x" 16 k] by (simp add: algebra_simps)
  ultimately show ?thesis by (simp add: k_def)
qed

end
