(* ===== verification/Base64.thy ===== *)
theory Base64
  imports Mega_Prelude
begin

text \<open>
  \<open>src/base64.cpp\<close>: the modified base64 of the API (no padding, \<open>-_\<close> instead of
  \<open>+/\<close>). The encoder and decoder are translated loop by loop; the theorems are the round
  trip through a string that goes on with a foreign character, and the buffer sizes the
  callers rely on.
\<close>

definition to64 :: "byte \<Rightarrow> byte" where
  "to64 c0 =
     (let c = c0 AND 63 in
      if c < 26 then c + 65
      else if c < 52 then c - 26 + 97
      else if c < 62 then c - 52 + 48
      else if c = 62 then 45
      else 95)"

definition from64 :: "byte \<Rightarrow> byte" where
  "from64 c =
     (if 65 \<le> c \<and> c \<le> 90 then c - 65
      else if 97 \<le> c \<and> c \<le> 122 then c - 97 + 26
      else if 48 \<le> c \<and> c \<le> 57 then c - 48 + 52
      else if c = 45 then 62
      else if c = 95 then 63
      else 255)"

text \<open>The inner \<open>for\<close> of \<open>atob\<close>: up to \<open>n\<close> sextets are stored, the one that ends the
  loop (255) included; the second component is the advanced pointer.\<close>

fun atob_quad :: "nat \<Rightarrow> bytes \<Rightarrow> bytes \<times> bytes" where
  "atob_quad 0 a = ([], a)"
| "atob_quad (Suc n) a =
     (let v = from64 (cur a) in
      if v = 255 then ([v], tl a)
      else (let (c, a') = atob_quad n (tl a) in (v # c, a')))"

text \<open>The value of \<open>i\<close> after the inner loop.\<close>

definition quad_len :: "bytes \<Rightarrow> nat" where
  "quad_len c = length (takeWhile (\<lambda>v. v \<noteq> 255) c)"

text \<open>The outer loop: \<open>b\<close> is what has been written so far, \<open>p = length b\<close>.\<close>

function atob_loop :: "bytes \<Rightarrow> bytes \<Rightarrow> nat \<Rightarrow> bytes" where
  "atob_loop b a blen =
     (let (c, a') = atob_quad 4 a; i = quad_len c in
      if length b \<ge> blen \<or> i = 0 then b
      else let b1 = b @ [push_bit 2 (c ! 0) OR drop_bit 4 (c ! 1 AND 0x30)] in
      if length b1 \<ge> blen \<or> i < 3 then b1
      else let b2 = b1 @ [push_bit 4 (c ! 1) OR drop_bit 2 (c ! 2 AND 0x3c)] in
      if length b2 \<ge> blen \<or> i < 4 then b2
      else atob_loop (b2 @ [push_bit 6 (c ! 2) OR c ! 3]) a' blen)"
  by pat_completeness auto
termination
  by (relation "measure (\<lambda>(b, a, blen). blen - length b)") auto

text \<open>\<open>atob\<close> returns the number of bytes written; the model returns the bytes.\<close>

definition atob :: "bytes \<Rightarrow> nat \<Rightarrow> bytes" where
  "atob a blen = atob_loop [] a blen"

text \<open>\<open>btoa\<close> over the \<open>blen\<close> bytes at \<open>b\<close>, one iteration per equation.\<close>

fun btoa :: "bytes \<Rightarrow> bytes" where
  "btoa [] = []"
| "btoa [x] = [to64 (drop_bit 2 x), to64 (push_bit 4 x OR drop_bit 4 0)]"
| "btoa [x, y] = [to64 (drop_bit 2 x), to64 (push_bit 4 x OR drop_bit 4 y),
     to64 (push_bit 2 y OR drop_bit 6 0)]"
| "btoa (x # y # z # bs) = [to64 (drop_bit 2 x), to64 (push_bit 4 x OR drop_bit 4 y),
     to64 (push_bit 2 y OR drop_bit 6 z), to64 z] @ btoa bs"

declare atob_loop.simps [simp del]

text \<open>
  Reference decoder: the sextets up to the first foreign character, four at a time. A single
  trailing sextet still yields a byte (its two low bits come from the 255 that ended the
  inner loop).
\<close>

fun sextets :: "bytes \<Rightarrow> bytes" where
  "sextets [] = []"
| "sextets (c # a) = (if from64 c = 255 then [] else from64 c # sextets a)"

fun decode64 :: "bytes \<Rightarrow> bytes" where
  "decode64 [] = []"
| "decode64 [u] = [push_bit 2 u OR 3]"
| "decode64 [u, v] = [push_bit 2 u OR drop_bit 4 (v AND 0x30)]"
| "decode64 [u, v, w] = [push_bit 2 u OR drop_bit 4 (v AND 0x30),
     push_bit 4 v OR drop_bit 2 (w AND 0x3c)]"
| "decode64 (u # v # w # x # cs) = [push_bit 2 u OR drop_bit 4 (v AND 0x30),
     push_bit 4 v OR drop_bit 2 (w AND 0x3c), push_bit 6 w OR x] @ decode64 cs"

section \<open>The alphabet\<close>

lemma and_63_less: "c AND 63 < (64 :: byte)"
proof -
  have "unat (c AND mask 6) = unat c mod 64" by (simp add: unat_and_mask)
  then show ?thesis by (simp add: mask_numeral word_less_nat_alt)
qed

lemma from64_to64 [simp]: "from64 (to64 c) = c AND 63"
proof -
  define v where "v = c AND 63"
  have "v < 64" unfolding v_def by (rule and_63_less)
  then show ?thesis
    unfolding to64_def from64_def Let_def v_def [symmetric]
    by (auto simp: word_less_nat_alt word_le_nat_alt unat_word_ariths unat_sub_if' word_unat_eq_iff
        split: if_splits)
qed

lemma from64_range: "from64 c < 64 \<or> from64 c = 255"
  by (auto simp: from64_def word_less_nat_alt word_le_nat_alt unat_word_ariths unat_sub_if'
      word_unat_eq_iff)

lemma to64_from64: "from64 c \<noteq> 255 \<Longrightarrow> to64 (from64 c) = c"
proof -
  assume ne: "from64 c \<noteq> 255"
  have small: "from64 c AND 63 = from64 c" if "from64 c < 64"
  proof -
    have "unat (from64 c AND mask 6) = unat (from64 c) mod 64" by (simp add: unat_and_mask)
    moreover have "unat (from64 c) < 64" using that by (simp add: word_less_nat_alt)
    ultimately show ?thesis by (simp add: mask_numeral word_unat_eq_iff)
  qed
  have "from64 c < 64" using ne from64_range by blast
  then have "from64 c AND 63 = from64 c" by (rule small)
  with ne show ?thesis
    unfolding to64_def Let_def
    by (auto simp: from64_def word_less_nat_alt word_le_nat_alt unat_word_ariths unat_sub_if'
        word_unat_eq_iff split: if_splits)
qed

lemma and_63_neq_255 [simp]: "c AND 63 \<noteq> (255 :: byte)"
  using and_63_less [of c] by (auto simp: word_less_nat_alt)

section \<open>Reassembling the bytes\<close>

lemma sextets_byte0: "push_bit 2 (drop_bit 2 x AND 63) OR
    drop_bit 4 ((push_bit 4 x OR drop_bit 4 y) AND 63 AND 0x30) = (x :: byte)"
  by (rule byte_eqI) (auto simp: bit_simps, simp_all add: numeral_2_eq_2 numeral_3_eq_3)

lemma sextets_byte1: "push_bit 4 ((push_bit 4 x OR drop_bit 4 y) AND 63) OR
    drop_bit 2 ((push_bit 2 y OR drop_bit 6 z) AND 63 AND 0x3c) = (y :: byte)"
  by (rule byte_eqI) (auto simp: bit_simps)

lemma sextets_byte2: "push_bit 6 ((push_bit 2 y OR drop_bit 6 z) AND 63) OR (z AND 63) = (z :: byte)"
  by (rule byte_eqI) (auto simp: bit_simps)

text \<open>A foreign character ends the decoder's inner loop.\<close>

lemma quad_stop: "from64 (cur rest) = 255 \<Longrightarrow> atob_quad (Suc n) rest = ([255], tl rest)"
  by simp

lemma atob_quad_full: "atob_quad 4 (to64 u # to64 v # to64 w # to64 x # rest) =
    ([u AND 63, v AND 63, w AND 63, x AND 63], rest)"
  by (simp add: numeral_eq_Suc)

lemma atob_quad_three: "from64 (cur rest) = 255 \<Longrightarrow>
    atob_quad 4 (to64 u # to64 v # to64 w # rest) =
    ([u AND 63, v AND 63, w AND 63, 255], tl rest)"
  by (simp add: numeral_eq_Suc)

lemma atob_quad_two: "from64 (cur rest) = 255 \<Longrightarrow>
    atob_quad 4 (to64 u # to64 v # rest) = ([u AND 63, v AND 63, 255], tl rest)"
  by (simp add: numeral_eq_Suc)

lemma atob_quad_none: "from64 (cur rest) = 255 \<Longrightarrow> atob_quad 4 rest = ([255], tl rest)"
  by (simp add: numeral_eq_Suc)

lemma quad_len_simps [simp]:
  "quad_len [] = 0" "quad_len (v # c) = (if v = 255 then 0 else Suc (quad_len c))"
  by (simp_all add: quad_len_def)

lemmas atob_quads = atob_quad_full atob_quad_three atob_quad_two atob_quad_none

lemma atob_loop_btoa:
  assumes "from64 (cur rest) = 255" and "length b \<le> blen"
  shows "atob_loop b (btoa bs @ rest) blen = take blen (b @ bs)"
  using assms(2)
proof (induction bs arbitrary: b rule: btoa.induct)
  case 1
  then show ?case
    by (subst atob_loop.simps) (simp add: atob_quads assms(1))
next
  case (2 x)
  show ?case
    using 2 sextets_byte0 [of x 0]
    by (subst atob_loop.simps) (simp add: atob_quads assms(1) del: push_bit_of_0 drop_bit_of_0)
next
  case (3 x y)
  show ?case
    using 3 sextets_byte0 [of x y] sextets_byte1 [of x y 0]
    by (subst atob_loop.simps) (simp add: atob_quads assms(1) Let_def take_Cons')
next
  case (4 x y z bs)
  show ?case
    using 4 sextets_byte0 [of x y] sextets_byte1 [of x y z] sextets_byte2 [of y z]
    by (subst atob_loop.simps) (simp add: atob_quads Let_def take_Cons')
qed

section \<open>The decoder against the reference\<close>

lemma from64_0 [simp]: "from64 0 = 255"
  by (simp add: from64_def)

lemma sextets_Nil_iff: "sextets a = [] \<longleftrightarrow> from64 (cur a) = 255"
  by (cases a) auto

lemma sextets_ConsD:
  "sextets a = v # vs \<Longrightarrow> from64 (cur a) = v \<and> v \<noteq> 255 \<and> sextets (tl a) = vs"
  by (cases a) (auto split: if_splits)

lemma atob_quad_Nil: "sextets a = [] \<Longrightarrow> atob_quad (Suc n) a = ([255], tl a)"
  by (simp add: sextets_Nil_iff)

lemma atob_quad_Cons: "sextets a = v # vs \<Longrightarrow> atob_quad (Suc n) a =
    (let (c, a') = atob_quad n (tl a) in (v # c, a'))"
  by (drule sextets_ConsD) (simp add: Let_def)

lemma atob_loop_decode64:
  assumes "sextets a = cs" and "length b \<le> blen"
  shows "atob_loop b a blen = take blen (b @ decode64 cs)"
  using assms
proof (induction cs arbitrary: a b rule: decode64.induct)
  case 1
  then show ?case
    by (subst atob_loop.simps) (simp add: numeral_eq_Suc sextets_Nil_iff)
next
  case (2 u)
  note t = sextets_ConsD [OF 2(1)]
  have q: "atob_quad 4 a = ([u, 255], tl (tl a))"
    using t by (simp add: numeral_eq_Suc sextets_Nil_iff)
  show ?case using t 2
    by (subst atob_loop.simps) (simp add: q Let_def take_Cons')
next
  case (3 u v)
  note t1 = sextets_ConsD [OF 3(1)]
  note t2 = sextets_ConsD [OF conjunct2 [OF conjunct2 [OF t1]]]
  have q: "atob_quad 4 a = ([u, v, 255], tl (tl (tl a)))"
    using t1 t2 by (simp add: numeral_eq_Suc sextets_Nil_iff)
  show ?case using t1 t2 3
    by (subst atob_loop.simps) (simp add: q Let_def take_Cons')
next
  case (4 u v w)
  note t1 = sextets_ConsD [OF 4(1)]
  note t2 = sextets_ConsD [OF conjunct2 [OF conjunct2 [OF t1]]]
  note t3 = sextets_ConsD [OF conjunct2 [OF conjunct2 [OF t2]]]
  have q: "atob_quad 4 a = ([u, v, w, 255], tl (tl (tl (tl a))))"
    using t1 t2 t3 by (simp add: numeral_eq_Suc sextets_Nil_iff)
  show ?case using t1 t2 t3 4
    by (subst atob_loop.simps) (simp add: q Let_def take_Cons')
next
  case (5 u v w x cs)
  note t1 = sextets_ConsD [OF 5(2)]
  note t2 = sextets_ConsD [OF conjunct2 [OF conjunct2 [OF t1]]]
  note t3 = sextets_ConsD [OF conjunct2 [OF conjunct2 [OF t2]]]
  note t4 = sextets_ConsD [OF conjunct2 [OF conjunct2 [OF t3]]]
  have q: "atob_quad 4 a = ([u, v, w, x], tl (tl (tl (tl a))))"
    using t1 t2 t3 t4 by (simp add: numeral_eq_Suc)
  show ?case using t1 t2 t3 t4 5
    by (subst atob_loop.simps) (simp add: q Let_def take_Cons')
qed

lemma atob_decode64: "atob a blen = take blen (decode64 (sextets a))"
  by (simp add: atob_def atob_loop_decode64)

lemma length_decode64: "length (decode64 cs) = length cs div 4 * 3 + (length cs mod 4 + 1) div 2"
  by (induction cs rule: decode64.induct) (auto simp: div_add_self1)

lemma length_sextets: "length (sextets a) = length (takeWhile (\<lambda>c. from64 c \<noteq> 255) a)"
  by (induction a) auto

lemma length_atob_le: "length (atob a blen) \<le> blen"
  by (simp add: atob_decode64)

lemma atob_enough:
  assumes "length (takeWhile (\<lambda>c. from64 c \<noteq> 255) a) div 4 * 3 + 2 \<le> blen"
  shows "atob a blen = decode64 (sextets a)"
proof -
  have "length (decode64 (sextets a)) \<le> blen"
    using assms by (simp add: length_decode64 length_sextets)
  then show ?thesis by (simp add: atob_decode64)
qed

lemma length_btoa: "length (btoa bs) = (4 * length bs + 2) div 3"
  by (induction bs rule: btoa.induct) auto

lemma btoa_alphabet: "c \<in> set (btoa bs) \<Longrightarrow> from64 c \<noteq> 255"
  by (induction bs rule: btoa.induct) auto

lemma from64_quote [simp]: "from64 34 = 255"
  by (simp add: from64_def)

lemma btoa_no_quote: "34 \<notin> set (btoa bs)" "0 \<notin> set (btoa bs)" "92 \<notin> set (btoa bs)"
  using btoa_alphabet by (force simp: from64_def)+

end
