(* ===== verification/Json.thy ===== *)
theory Json
  imports Base64
begin

text \<open>
  \<open>src/json.cpp\<close>: the non-strict pull parser of the API responses. \<open>JSON::pos\<close> is the
  remaining input; a read at its end gives the NUL terminator. Every method is a function from
  the remaining input to its result and the new remaining input. \<open>getfloat\<close> is left out
  (\<open>atof\<close> and \<open>double\<close>).
\<close>

section \<open>storeobject\<close>

fun skip_ws :: "bytes \<Rightarrow> bytes" where
  "skip_ws [] = []"
| "skip_ws (c # s) = (if 0 < schar c \<and> schar c \<le> 32 then skip_ws s else c # s)"

text \<open>The scan of a string literal: from behind the opening quote to the closing one.\<close>

fun so_string :: "bool \<Rightarrow> bytes \<Rightarrow> bytes option" where
  "so_string escaped [] = None"
| "so_string escaped (c # s) =
     (if c = 0 then None
      else if escaped \<or> c \<noteq> ch_quote then so_string (c = ch_bslash \<and> \<not> escaped) s
      else Some (c # s))"

definition is_num_tail :: "byte \<Rightarrow> bool" where
  "is_num_tail c \<longleftrightarrow> is_digit c \<or> c = ch_dot \<or> c = 101 \<or> c = 69"

fun so_number :: "bytes \<Rightarrow> bytes" where
  "so_number [] = []"
| "so_number (c # s) = (if is_num_tail c then so_number s else c # s)"

text \<open>One round of the \<open>for (;;)\<close>: the two counters of \<open>openobject\<close> (objects, arrays) and
  \<open>ptr\<close> behind what was scanned; \<open>None\<close> is \<open>return false\<close>.\<close>

definition so_step :: "int \<Rightarrow> int \<Rightarrow> bytes \<Rightarrow> (int \<times> int \<times> bytes) option" where
  "so_step o0 o1 s =
     (let c = cur s in
      if c = ch_lbrack then Some (o0, o1 + 1, tl s)
      else if c = ch_lbrace then Some (o0 + 1, o1, tl s)
      else if c = ch_rbrack then Some (o0, o1 - 1, tl s)
      else if c = ch_rbrace then Some (o0 - 1, o1, tl s)
      else if c = ch_quote then
        (case so_string False (tl s) of None \<Rightarrow> None | Some s' \<Rightarrow> Some (o0, o1, tl s'))
      else if is_digit c \<or> c = ch_minus \<or> c = ch_dot then Some (o0, o1, so_number (tl s))
      else if c \<noteq> ch_colon \<and> c \<noteq> ch_comma then None
      else Some (o0, o1, tl s))"

lemma length_so_string: "so_string e s = Some s' \<Longrightarrow> length s' \<le> length s"
  by (induction e s rule: so_string.induct) (auto split: if_splits)

lemma length_so_number: "length (so_number s) \<le> length s"
  by (induction s) auto

lemma so_step_shorter: "so_step o0 o1 s = Some (p0, p1, s') \<Longrightarrow> length s' < length s"
proof (cases s)
  case (Cons c t)
  assume "so_step o0 o1 s = Some (p0, p1, s')"
  moreover have "length u \<le> length t \<Longrightarrow> length (tl u) < length s" for u :: bytes
    using Cons by simp
  ultimately show ?thesis
    using Cons length_so_number [of t]
    by (auto simp: so_step_def Let_def split: if_splits option.splits dest: length_so_string)
qed (simp add: so_step_def is_digit_def)

function so_loop :: "int \<Rightarrow> int \<Rightarrow> bytes \<Rightarrow> bytes option" where
  "so_loop o0 o1 s =
     (case so_step o0 o1 s of
        None \<Rightarrow> None
      | Some (p0, p1, s') \<Rightarrow> if p0 = 0 \<and> p1 = 0 then Some s' else so_loop p0 p1 s')"
  by pat_completeness auto
termination
  by (relation "measure (\<lambda>(o0, o1, s). length s)") (auto dest: so_step_shorter)

declare so_loop.simps [simp del]

text \<open>The object stored (\<open>None\<close>: returned false) and the new position.\<close>

definition storeobject :: "bytes \<Rightarrow> bytes option \<times> bytes" where
  "storeobject s =
     (let pos = skip_char ch_comma (skip_ws s) in
      case so_loop 0 0 pos of
        None \<Rightarrow> (None, pos)
      | Some ptr \<Rightarrow>
          (let n = length pos - length ptr in
           (Some (if cur pos = ch_quote then take (n - 2) (tl pos) else take n pos), ptr)))"

section \<open>Names, numbers, binaries\<close>

definition isnumeric :: "bytes \<Rightarrow> bool \<times> bytes" where
  "isnumeric s =
     (let pos = skip_char ch_comma s; ptr = skip_char ch_minus pos in (is_digit (cur ptr), pos))"

text \<open>\<open>id = (id << 8) + *ptr++\<close> up to a quote or the end; \<open>*ptr\<close> is a signed \<open>char\<close>.\<close>

fun nameid_loop :: "nameid \<Rightarrow> bytes \<Rightarrow> nameid \<times> bytes" where
  "nameid_loop i [] = (i, [])"
| "nameid_loop i (c # s) =
     (if c = 0 \<or> c = ch_quote then (i, c # s) else nameid_loop (push_bit 8 i + scast c) s)"

definition getnameid_at :: "bytes \<Rightarrow> nameid" where
  "getnameid_at ptr = fst (nameid_loop 0 ptr)"

text \<open>In a text that ends inside a name, \<open>ptr + 2\<close> points behind the final NUL; here the rest is then empty.\<close>

definition getnameid :: "bytes \<Rightarrow> nameid \<times> bytes" where
  "getnameid pos =
     (let ptr = (if cur pos = ch_comma \<or> cur pos = ch_colon then tl pos else pos) in
      if cur ptr = ch_quote then
        (let (i, ptr') = nameid_loop 0 (tl ptr) in (i, drop 2 ptr'))
      else (0, pos))"

text \<open>\<open>is(value)\<close>: \<open>memcmp\<close> of \<open>strlen(value)\<close> bytes and the closing quote.\<close>

definition json_is :: "bytes \<Rightarrow> bytes \<Rightarrow> bool \<times> bytes" where
  "json_is v s =
     (let pos = skip_char ch_comma s; t = length v in
      if cur pos \<noteq> ch_quote then (False, pos)
      else if take t (tl pos) \<noteq> v \<or> at pos (t + 1) \<noteq> ch_quote then (False, pos)
      else (True, drop (t + 2) pos))"

definition storebinary_buf :: "nat \<Rightarrow> bytes \<Rightarrow> bytes \<times> bytes" where
  "storebinary_buf dstlen s =
     (let pos = skip_char ch_comma s in
      if cur pos = ch_quote then (atob (tl pos) dstlen, snd (storeobject pos))
      else ([], pos))"

text \<open>\<open>storebinary(string*)\<close>: the return value, the new \<open>*dst\<close> and the new position.\<close>

definition storebinary_str :: "bytes \<Rightarrow> bytes \<Rightarrow> bool \<times> bytes \<times> bytes" where
  "storebinary_str dst s =
     (let pos = skip_char ch_comma s in
      if cur pos = ch_quote then
        (let n = length (takeWhile (\<lambda>c. c \<noteq> ch_quote \<and> c \<noteq> 0) (tl pos)) in
         if at (tl pos) n \<noteq> ch_quote then (False, dst, pos)
         else (True, atob (tl pos) (n div 4 * 3 + 3), snd (storeobject pos)))
      else (True, dst, pos))"

definition ishandle :: "int \<Rightarrow> bytes \<Rightarrow> bool \<times> bytes" where
  "ishandle sz0 s =
     (let sz = (if sz0 = 6 then 8 else 11 :: nat); pos = skip_char ch_comma s in
      if cur pos = ch_quote then
        if (\<exists>i \<in> set [0..<Suc sz]. at pos i = 0) then (False, pos)
        else (at pos (Suc sz) = ch_quote, pos)
      else (False, pos))"

text \<open>\<open>byte buf[9] = { 0 }\<close>; the handle is its first eight bytes.\<close>

definition gethandle :: "nat \<Rightarrow> bytes \<Rightarrow> handle \<times> bytes" where
  "gethandle sz s =
     (let (b, pos) = storebinary_buf 9 s in
      if length b = sz then (le_word (take 8 (b @ replicate 9 0)), pos) else (UNDEF, pos))"

text \<open>\<open>atoll\<close> at a digit or a minus sign, saturating as \<open>strtoll\<close> does.\<close>

definition digits_val :: "bytes \<Rightarrow> int" where
  "digits_val ds = fold (\<lambda>c v. 10 * v + (uint c - 48)) ds 0"

definition atoll :: "bytes \<Rightarrow> int" where
  "atoll s =
     (let neg = (cur s = ch_minus);
          v = digits_val (takeWhile is_digit (if neg then tl s else s))
      in max (- (2 ^ 63)) (min (2 ^ 63 - 1) (if neg then - v else v)))"

definition getint :: "bytes \<Rightarrow> int \<times> bytes" where
  "getint s =
     (let pos = (if cur s = ch_colon \<or> cur s = ch_comma then tl s else s);
          ptr = skip_char ch_quote pos in
      if \<not> is_digit (cur ptr) \<and> cur ptr \<noteq> ch_minus then (-1, pos)
      else (atoll ptr, snd (storeobject pos)))"

text \<open>\<open>getvalue\<close> returns a pointer into the buffer: the input from there on.\<close>

definition getvalue :: "bytes \<Rightarrow> bytes \<times> bytes" where
  "getvalue s =
     (let pos = (if cur s = ch_colon \<or> cur s = ch_comma then tl s else s) in
      (if cur pos = ch_quote then tl pos else pos, snd (storeobject pos)))"

section \<open>Arrays and objects\<close>

definition enterarray :: "bytes \<Rightarrow> bool \<times> bytes" where
  "enterarray s =
     (let pos = skip_char ch_comma s in
      if cur pos = ch_lbrack then (True, tl pos) else (False, pos))"

definition leavearray :: "bytes \<Rightarrow> bool \<times> bytes" where
  "leavearray pos = (if cur pos = ch_rbrack then (True, tl pos) else (False, pos))"

definition enterobject :: "bytes \<Rightarrow> bool \<times> bytes" where
  "enterobject s =
     (let pos = skip_char ch_comma (skip_char ch_rbrace s) in
      if cur pos = ch_lbrace then (True, tl pos) else (False, pos))"

text \<open>The loop of \<open>leaveobject\<close> ignores the result of \<open>storeobject\<close>, so it need not end:
  \<open>None\<close> is "does not return".\<close>

definition starts_value :: "byte \<Rightarrow> bool" where
  "starts_value c \<longleftrightarrow>
     c = ch_quote \<or> is_digit c \<or> c = ch_minus \<or> c = ch_lbrack \<or> c = ch_lbrace"

partial_function (option) leaveobject :: "bytes \<Rightarrow> (bool \<times> bytes) option" where
  "leaveobject pos =
     (if cur pos = ch_colon \<or> cur pos = ch_comma then leaveobject (tl pos)
      else if starts_value (cur pos) then leaveobject (snd (storeobject pos))
      else Some (if cur pos = ch_rbrace then (True, tl pos) else (False, pos)))"

section \<open>Unescaping\<close>

text \<open>\<open>MegaClient::hexval\<close>.\<close>

definition hexval :: "byte \<Rightarrow> int" where
  "hexval c = (if schar c > 57 then schar c - 97 + 10 else schar c - 48)"

text \<open>The loop at index \<open>i\<close> sees the suffix from \<open>i\<close>; \<open>replace(i, l, &c, 1)\<close> cuts \<open>l\<close>
  characters or what is left.\<close>

function unescape :: "bytes \<Rightarrow> bytes" where
  "unescape s =
     (if Suc 0 < length s then
        if s ! 0 = ch_bslash then
          (let c1 = s ! 1 in
           if c1 = 110 then 10 # unescape (drop 2 s)
           else if c1 = 114 then 13 # unescape (drop 2 s)
           else if c1 = 98 then 8 # unescape (drop 2 s)
           else if c1 = 102 then 12 # unescape (drop 2 s)
           else if c1 = 116 then 9 # unescape (drop 2 s)
           else if c1 = ch_bslash then ch_bslash # unescape (drop 2 s)
           else if c1 = 117 then
             (push_bit 4 (of_int (hexval (at s 4))) OR of_int (hexval (at s 5))) # unescape (drop 6 s)
           else c1 # unescape (drop 2 s))
        else s ! 0 # unescape (tl s)
      else s)"
  by pat_completeness auto
termination
  by (relation "measure length") auto

declare unescape.simps [simp del]

end
