(* ===== verification/Json_Values.thy ===== *)
theory Json_Values
  imports Json
begin

text \<open>
  A specification of the texts the parser of \<^verbatim>\<open>json.cpp\<close> is given: JSON values without
  white space and their printed form. The lemmas show that \<open>storeobject\<close> cuts exactly one
  printed value off the input, at any nesting depth, and that \<open>leaveobject\<close> skips exactly the
  members that are left.
\<close>

datatype json_value =
    JNum bytes
  | JStr bytes
  | JArr "json_value list"
  | JObj "(bytes \<times> json_value) list"

text \<open>\<open>sep\<close> joins with commas.\<close>

fun sep :: "bytes list \<Rightarrow> bytes" where
  "sep [] = []"
| "sep [x] = x"
| "sep (x # y # ys) = x @ ch_comma # sep (y # ys)"

definition pr_str :: "bytes \<Rightarrow> bytes" where
  "pr_str s = ch_quote # s @ [ch_quote]"

fun pr :: "json_value \<Rightarrow> bytes" where
  "pr (JNum n) = n"
| "pr (JStr s) = pr_str s"
| "pr (JArr vs) = ch_lbrack # sep (map pr vs) @ [ch_rbrack]"
| "pr (JObj ms) = ch_lbrace # sep (map (\<lambda>(k, v). pr_str k @ ch_colon # pr v) ms) @ [ch_rbrace]"

text \<open>A string literal's text: no NUL, every quote escaped, no open escape at the end.\<close>

fun str_ok :: "bool \<Rightarrow> bytes \<Rightarrow> bool" where
  "str_ok escaped [] \<longleftrightarrow> \<not> escaped"
| "str_ok escaped (c # s) \<longleftrightarrow>
     c \<noteq> 0 \<and> (escaped \<or> c \<noteq> ch_quote) \<and> str_ok (c = ch_bslash \<and> \<not> escaped) s"

definition num_ok :: "bytes \<Rightarrow> bool" where
  "num_ok n \<longleftrightarrow> n \<noteq> [] \<and> (is_digit (hd n) \<or> hd n = ch_minus) \<and> list_all is_num_tail (tl n)"

fun wf_json :: "json_value \<Rightarrow> bool" where
  "wf_json (JNum n) \<longleftrightarrow> num_ok n"
| "wf_json (JStr s) \<longleftrightarrow> str_ok False s"
| "wf_json (JArr vs) \<longleftrightarrow> list_all wf_json vs"
| "wf_json (JObj ms) \<longleftrightarrow> list_all (\<lambda>(k, v). str_ok False k \<and> wf_json v) ms"

text \<open>What \<open>storeobject\<close> stores: strings lose their quotes.\<close>

fun stored :: "json_value \<Rightarrow> bytes" where
  "stored (JStr s) = s"
| "stored v = pr v"

definition pr_member :: "bytes \<times> json_value \<Rightarrow> bytes" where
  "pr_member kv = pr_str (fst kv) @ ch_colon # pr (snd kv)"

section \<open>One round of the scanner\<close>

lemma so_string_ok: "str_ok e s \<Longrightarrow> so_string e (s @ ch_quote # rest) = Some (ch_quote # rest)"
  by (induction e s rule: str_ok.induct) auto

lemma so_number_ok:
  "list_all is_num_tail n \<Longrightarrow> \<not> is_num_tail (cur rest) \<Longrightarrow> so_number (n @ rest) = rest"
  by (induction n) (cases rest; auto)+

lemma is_num_tail_simps [simp]:
  "\<not> is_num_tail 0" "\<not> is_num_tail 44" "\<not> is_num_tail 93" "\<not> is_num_tail 125" "\<not> is_num_tail 34"
  by (simp_all add: is_num_tail_def is_digit_def)

lemma is_digit_simps [simp]:
  "\<not> is_digit 0" "\<not> is_digit 34" "\<not> is_digit 44" "\<not> is_digit 58" "\<not> is_digit 91" "\<not> is_digit 93"
  "\<not> is_digit 123" "\<not> is_digit 125" "\<not> is_digit 45"
  by (simp_all add: is_digit_def)

lemma is_digit_not_punct:
  "is_digit c \<Longrightarrow> c \<noteq> 34 \<and> c \<noteq> 44 \<and> c \<noteq> 58 \<and> c \<noteq> 91 \<and> c \<noteq> 93 \<and> c \<noteq> 123 \<and> c \<noteq> 125 \<and> c \<noteq> 0"
  by (auto simp: is_digit_def)

lemma so_step_punct:
  "so_step o0 o1 (ch_lbrack # s) = Some (o0, o1 + 1, s)"
  "so_step o0 o1 (ch_rbrack # s) = Some (o0, o1 - 1, s)"
  "so_step o0 o1 (ch_lbrace # s) = Some (o0 + 1, o1, s)"
  "so_step o0 o1 (ch_rbrace # s) = Some (o0 - 1, o1, s)"
  "so_step o0 o1 (ch_colon # s) = Some (o0, o1, s)"
  "so_step o0 o1 (ch_comma # s) = Some (o0, o1, s)"
  by (simp_all add: so_step_def)

lemma so_step_str: "str_ok False s \<Longrightarrow> so_step o0 o1 (pr_str s @ rest) = Some (o0, o1, rest)"
  by (simp add: so_step_def pr_str_def so_string_ok)

lemma so_step_num:
  "num_ok n \<Longrightarrow> \<not> is_num_tail (cur rest) \<Longrightarrow> so_step o0 o1 (n @ rest) = Some (o0, o1, rest)"
  by (cases n) (auto simp: so_step_def num_ok_def so_number_ok dest: is_digit_not_punct)

text \<open>What the loop does once the counters are \<open>o0\<close>, \<open>o1\<close>.\<close>

definition so_cont :: "int \<Rightarrow> int \<Rightarrow> bytes \<Rightarrow> bytes option" where
  "so_cont o0 o1 s = (if o0 = 0 \<and> o1 = 0 then Some s else so_loop o0 o1 s)"

lemma so_loop_cont: "so_step o0 o1 s = Some (p0, p1, s') \<Longrightarrow> so_loop o0 o1 s = so_cont p0 p1 s'"
  by (simp add: so_loop.simps [of o0 o1 s] so_cont_def)

lemma so_cont_open: "o0 \<noteq> 0 \<or> o1 \<noteq> 0 \<Longrightarrow> so_cont o0 o1 s = so_loop o0 o1 s"
  by (auto simp: so_cont_def)

section \<open>Whole values\<close>

text \<open>A list of texts that the open scanner passes over, with its commas.\<close>

lemma so_loop_sep:
  assumes item: "\<And>x r. x \<in> set xs \<Longrightarrow> \<not> is_num_tail (cur r) \<Longrightarrow>
      so_loop o0 o1 (x @ r) = so_loop o0 o1 r"
    and op: "o0 \<noteq> 0 \<or> o1 \<noteq> 0" and r: "\<not> is_num_tail (cur rest)"
  shows "so_loop o0 o1 (sep xs @ rest) = so_loop o0 o1 rest"
  using item
proof (induction xs rule: sep.induct)
  case (3 x y ys)
  have "so_loop o0 o1 (sep (x # y # ys) @ rest) = so_loop o0 o1 (ch_comma # sep (y # ys) @ rest)"
    using 3(2) [of x "ch_comma # sep (y # ys) @ rest"] by simp
  also have "\<dots> = so_loop o0 o1 (sep (y # ys) @ rest)"
    by (simp add: so_loop_cont [OF so_step_punct(6)] so_cont_open [OF op])
  also have "\<dots> = so_loop o0 o1 rest"
    using 3 by auto
  finally show ?case .
qed (use r in auto)

lemma so_loop_value:
  assumes "wf_json v" "0 \<le> o0" "0 \<le> o1" "\<not> is_num_tail (cur rest)"
  shows "so_loop o0 o1 (pr v @ rest) = so_cont o0 o1 rest"
  using assms
proof (induction v arbitrary: o0 o1 rest)
  case (JNum n)
  then show ?case by (simp add: so_loop_cont [OF so_step_num])
next
  case (JStr s)
  then show ?case by (simp add: so_loop_cont [OF so_step_str])
next
  case (JArr vs)
  have items: "so_loop o0 (o1 + 1) (x @ r) = so_loop o0 (o1 + 1) r"
    if "x \<in> set (map pr vs)" "\<not> is_num_tail (cur r)" for x r
    using that JArr by (auto simp: list_all_iff so_cont_open)
  have "so_loop o0 o1 (pr (JArr vs) @ rest) =
      so_cont o0 (o1 + 1) (sep (map pr vs) @ ch_rbrack # rest)"
    by (simp add: so_loop_cont [OF so_step_punct(1)])
  also have "\<dots> = so_loop o0 (o1 + 1) (ch_rbrack # rest)"
    using JArr.prems so_loop_sep [OF items, of "map pr vs" "ch_rbrack # rest"]
    by (simp add: so_cont_open)
  also have "\<dots> = so_cont o0 o1 rest"
    by (simp add: so_loop_cont [OF so_step_punct(2)])
  finally show ?case .
next
  case (JObj ms)
  let ?f = "\<lambda>(k, v). pr_str k @ ch_colon # pr v"
  have items: "so_loop (o0 + 1) o1 (x @ r) = so_loop (o0 + 1) o1 r"
    if x: "x \<in> set (map ?f ms)" and r: "\<not> is_num_tail (cur r)" for x r
  proof -
    obtain k v where kv: "(k, v) \<in> set ms" "x = pr_str k @ ch_colon # pr v" using x by auto
    then have ok: "str_ok False k" "wf_json v" using JObj.prems by (auto simp: list_all_iff)
    have "so_loop (o0 + 1) o1 (x @ r) = so_loop (o0 + 1) o1 (ch_colon # pr v @ r)"
      using JObj.prems by (simp add: kv so_loop_cont [OF so_step_str [OF ok(1)]] so_cont_open)
    also have "\<dots> = so_loop (o0 + 1) o1 (pr v @ r)"
      using JObj.prems by (simp add: so_loop_cont [OF so_step_punct(5)] so_cont_open)
    also have "\<dots> = so_loop (o0 + 1) o1 r"
      using JObj.IH [OF kv(1), of v "o0 + 1" o1 r] ok(2) JObj.prems r by (simp add: so_cont_open)
    finally show ?thesis .
  qed
  have "so_loop o0 o1 (pr (JObj ms) @ rest) = so_cont (o0 + 1) o1 (sep (map ?f ms) @ ch_rbrace # rest)"
    by (simp add: so_loop_cont [OF so_step_punct(3)])
  also have "\<dots> = so_loop (o0 + 1) o1 (ch_rbrace # rest)"
    using JObj.prems so_loop_sep [OF items, of "map ?f ms" "ch_rbrace # rest"]
    by (simp add: so_cont_open)
  also have "\<dots> = so_cont o0 o1 rest"
    by (simp add: so_loop_cont [OF so_step_punct(4)])
  finally show ?case .
qed

section \<open>storeobject, leaveobject\<close>

lemma starts_value_simps [simp]:
  "\<not> starts_value 0" "\<not> starts_value 44" "\<not> starts_value 58" "\<not> starts_value 125"
  "\<not> starts_value 93" "starts_value 34"
  by (simp_all add: starts_value_def)

text \<open>At the start of a value there is nothing to skip.\<close>

lemma skip_at_value: "starts_value (cur s) \<Longrightarrow> skip_char ch_comma (skip_ws s) = s"
proof (cases s)
  case (Cons c t)
  assume "starts_value (cur s)"
  with Cons have "c \<noteq> ch_comma" "schar c > 32"
    using byte_less [of c]
    by (auto simp: starts_value_def is_digit_def schar_uint word_less_def word_le_def)
  with Cons show ?thesis by (simp add: skip_char_def)
qed (simp add: skip_char_def)

lemma pr_nonempty: "wf_json v \<Longrightarrow> pr v \<noteq> []"
  by (cases v) (auto simp: num_ok_def pr_str_def)

lemma starts_value_pr: "wf_json v \<Longrightarrow> starts_value (cur (pr v @ rest))"
  by (cases v) (auto simp: num_ok_def pr_str_def starts_value_def cur_append cur_hd)

lemma storeobject_value:
  assumes "wf_json v" "\<not> is_num_tail (cur rest)"
  shows "storeobject (pr v @ rest) = (Some (stored v), rest)"
proof -
  have "so_loop 0 0 (pr v @ rest) = Some rest"
    using so_loop_value [OF assms(1), of 0 0 rest] assms(2) by (simp add: so_cont_def)
  then have st: "storeobject (pr v @ rest) =
      (Some (if cur (pr v @ rest) = ch_quote then take (length (pr v) - 2) (tl (pr v @ rest))
             else pr v), rest)"
    by (simp add: storeobject_def skip_at_value starts_value_pr assms(1))
  show ?thesis
  proof (cases v)
    case (JNum n)
    then have "cur (pr v @ rest) \<noteq> ch_quote"
      using assms(1) by (auto simp: num_ok_def cur_append cur_hd dest: is_digit_not_punct)
    with st JNum show ?thesis by simp
  qed (use st in \<open>simp_all add: pr_str_def\<close>)
qed

lemma storeobject_pr_str: "str_ok False s \<Longrightarrow> storeobject (pr_str s @ rest) = (Some s, rest)"
proof -
  assume ok: "str_ok False s"
  have "so_loop 0 0 (pr_str s @ rest) = Some rest"
    using so_loop_cont [OF so_step_str [OF ok, of 0 0 rest]] by (simp add: so_cont_def)
  moreover have "skip_char ch_comma (skip_ws (pr_str s @ rest)) = pr_str s @ rest"
    by (rule skip_at_value) (simp add: pr_str_def)
  ultimately show ?thesis by (simp add: storeobject_def pr_str_def)
qed

text \<open>A failed \<open>storeobject\<close> at the start of a value does not move.\<close>

lemma storeobject_stays:
  "starts_value (cur s) \<Longrightarrow> fst (storeobject s) = None \<Longrightarrow> snd (storeobject s) = s"
  by (simp add: storeobject_def skip_at_value Let_def split: option.splits)

lemma length_so_loop: "so_loop o0 o1 s = Some r \<Longrightarrow> length r < length s"
proof (induction o0 o1 s rule: so_loop.induct)
  case (1 o0 o1 s)
  obtain p0 p1 s' where st: "so_step o0 o1 s = Some (p0, p1, s')"
    using 1(2) by (subst (asm) so_loop.simps) (auto split: option.splits)
  have "length r \<le> length s'"
    using 1(2) 1(1) [OF st refl refl]
    by (subst (asm) so_loop.simps) (auto simp: st split: if_splits)
  with so_step_shorter [OF st] show ?case by simp
qed

lemma length_skip_ws: "length (skip_ws s) \<le> length s"
  by (induction s) auto

lemma length_skip_char: "length (skip_char c s) \<le> length s"
  by (simp add: skip_char_def)

lemma length_storeobject: "length (snd (storeobject s)) \<le> length s"
proof -
  have "length (skip_char ch_comma (skip_ws s)) \<le> length s"
    using length_skip_char length_skip_ws le_trans by blast
  then show ?thesis
    by (auto simp: storeobject_def Let_def split: option.split dest!: length_so_loop)
qed

text \<open>Where \<open>storeobject\<close> fails at the start of a value, the loop of \<open>leaveobject\<close> never ends.\<close>

lemma leaveobject_stuck:
  assumes "leaveobject s = Some r"
  shows "\<not> (starts_value (cur s) \<and> fst (storeobject s) = None)"
proof (rule leaveobject.raw_induct [where P = "\<lambda>s r. \<not> (starts_value (cur s) \<and> fst (storeobject s) = None)", OF _ assms])
  fix f s r
  assume IH: "\<And>s r. f s = Some r \<Longrightarrow> \<not> (starts_value (cur s) \<and> fst (storeobject s) = None)"
    and eq: "(if cur s = ch_colon \<or> cur s = ch_comma then f (tl s)
      else if starts_value (cur s) then f (snd (storeobject s))
      else Some (if cur s = ch_rbrace then (True, tl s) else (False, s))) = Some r"
  show "\<not> (starts_value (cur s) \<and> fst (storeobject s) = None)"
  proof
    assume st: "starts_value (cur s) \<and> fst (storeobject s) = None"
    then have "cur s \<noteq> ch_colon" "cur s \<noteq> ch_comma" by auto
    with eq st storeobject_stays [of s] have "f s = Some r" by simp
    from IH [OF this] st show False by blast
  qed
qed

text \<open>The members that are left, each with its comma.\<close>

definition pr_rest :: "(bytes \<times> json_value) list \<Rightarrow> bytes" where
  "pr_rest ms = concat (map (\<lambda>kv. ch_comma # pr_member kv) ms)"

lemma leaveobject_end: "leaveobject (ch_rbrace # rest) = Some (True, rest)"
  by (simp add: leaveobject.simps)

lemma leaveobject_value:
  "wf_json v \<Longrightarrow> \<not> is_num_tail (cur rest) \<Longrightarrow> leaveobject (pr v @ rest) = leaveobject rest"
  using starts_value_pr [of v rest]
  by (subst leaveobject.simps) (auto simp: storeobject_value)

lemma leaveobject_skip: "cur s = ch_colon \<or> cur s = ch_comma \<Longrightarrow> leaveobject s = leaveobject (tl s)"
  by (subst leaveobject.simps) simp

lemma leaveobject_str: "str_ok False k \<Longrightarrow> leaveobject (pr_str k @ rest) = leaveobject rest"
  by (subst leaveobject.simps) (simp add: storeobject_pr_str, simp add: pr_str_def)

lemma leaveobject_members:
  assumes "list_all (\<lambda>(k, v). str_ok False k \<and> wf_json v) ms" "\<not> is_num_tail (cur rest)"
  shows "leaveobject (pr_rest ms @ rest) = leaveobject rest"
  using assms
proof (induction ms)
  case (Cons kv ms)
  obtain k v where kv: "kv = (k, v)" by (cases kv)
  have nt: "\<not> is_num_tail (cur (pr_rest ms @ rest))"
    using Cons.prems(2) by (cases ms) (auto simp: pr_rest_def)
  have "leaveobject (pr_rest (kv # ms) @ rest) =
      leaveobject (pr_str k @ ch_colon # pr v @ pr_rest ms @ rest)"
    by (subst leaveobject_skip) (simp_all add: pr_rest_def pr_member_def kv)
  also have "\<dots> = leaveobject (pr v @ pr_rest ms @ rest)"
    using Cons.prems by (simp add: kv leaveobject_str) (simp add: leaveobject_skip)
  also have "\<dots> = leaveobject rest"
    using Cons nt by (simp add: kv leaveobject_value)
  finally show ?case .
qed (simp add: pr_rest_def)

lemma leaveobject_rest:
  assumes "list_all (\<lambda>(k, v). str_ok False k \<and> wf_json v) ms"
  shows "leaveobject (pr_rest ms @ ch_rbrace # rest) = Some (True, rest)"
  using leaveobject_members [OF assms, of "ch_rbrace # rest"] by (simp add: leaveobject_end)

end
