(* ===== verification/Cmd.thy ===== *)
theory Cmd
  imports Json_Values
begin

text \<open>
  \<open>src/command.cpp\<close> and \<open>src/request.cpp\<close>: the JSON text of an API command is assembled by
  appending to a string, and a request is the array of its commands; the response is handed
  to the commands in order. A virtual \<open>procresult\<close> is a function from the parser's position
  to the new one (\<open>None\<close>: does not return); the default one is \<open>Command::procresult\<close>.
\<close>

section \<open>Command\<close>

record command =
  cmd_json :: bytes
  cmd_levels :: "int list"
  cmd_level :: int
  cmd_persistent :: bool
  cmd_canceled :: bool
  cmd_tag :: int

text \<open>The constructor; \<open>levels\<close> (\<open>MAXDEPTH\<close> entries) and \<open>tag\<close> are set later.\<close>

definition new_command :: command where
  "new_command = \<lparr>cmd_json = [], cmd_levels = replicate 8 0, cmd_level = -1,
     cmd_persistent = False, cmd_canceled = False, cmd_tag = 0\<rparr>"

definition cmd_cancel :: "command \<Rightarrow> command" where
  "cmd_cancel c = c\<lparr>cmd_canceled := True\<rparr>"

definition getstring :: "command \<Rightarrow> bytes" where
  "getstring c = takeWhile (\<lambda>x. x \<noteq> 0) (cmd_json c)"

definition append_json :: "bytes \<Rightarrow> command \<Rightarrow> command" where
  "append_json s c = c\<lparr>cmd_json := cmd_json c @ s\<rparr>"

definition cmd_cmd :: "bytes \<Rightarrow> command \<Rightarrow> command" where
  "cmd_cmd name c = append_json [ch_quote] (append_json name (append_json (str [CHR 0x22, CHR ''a'', CHR 0x22, CHR '':'', CHR 0x22]) c))"

text \<open>\<open>sessionid\<close> is the ten-character array of the client.\<close>

definition cmd_notself :: "bytes \<Rightarrow> command \<Rightarrow> command" where
  "cmd_notself sessionid c = append_json [ch_quote] (append_json sessionid (append_json (str [CHR '','', CHR 0x22, CHR ''i'', CHR 0x22, CHR '':'', CHR 0x22]) c))"

text \<open>\<open>strchr\<close> also finds the terminating NUL of its first argument.\<close>

definition addcomma :: "command \<Rightarrow> command" where
  "addcomma c =
     (if cmd_json c \<noteq> [] \<and> last (cmd_json c) \<notin> {ch_lbrack, ch_lbrace, 0}
      then append_json [ch_comma] c else c)"

definition arg_str :: "bytes \<Rightarrow> bytes \<Rightarrow> bool \<Rightarrow> command \<Rightarrow> command" where
  "arg_str name v quotes c =
     (let c1 = append_json v (append_json (if quotes then [ch_quote, ch_colon, ch_quote] else [ch_quote, ch_colon])
            (append_json name (append_json [ch_quote] (addcomma c)))) in
      if quotes then append_json [ch_quote] c1 else c1)"

definition arg_bin :: "bytes \<Rightarrow> bytes \<Rightarrow> command \<Rightarrow> command" where
  "arg_bin name v c = arg_str name (btoa v) True c"

text \<open>\<open>sprintf\<close> with \<open>%d\<close> and \<open>PRId64\<close>.\<close>

fun dec_nat :: "nat \<Rightarrow> bytes" where
  "dec_nat n = (if n < 10 then [of_nat n + 48] else dec_nat (n div 10) @ [of_nat (n mod 10) + 48])"

definition dec_int :: "int \<Rightarrow> bytes" where
  "dec_int i = (if i < 0 then ch_minus # dec_nat (nat (- i)) else dec_nat (nat i))"

definition arg_int :: "bytes \<Rightarrow> int \<Rightarrow> command \<Rightarrow> command" where
  "arg_int name n c = arg_str name (dec_int n) False c"

definition appendraw :: "bytes \<Rightarrow> command \<Rightarrow> command" where
  "appendraw s c = append_json (takeWhile (\<lambda>x. x \<noteq> 0) s) c"

definition appendraw_len :: "bytes \<Rightarrow> nat \<Rightarrow> command \<Rightarrow> command" where
  "appendraw_len s n c = append_json (take n s) c"

definition openobject :: "command \<Rightarrow> command" where
  "openobject c =
     c\<lparr>cmd_level := cmd_level c + 1, cmd_levels := (cmd_levels c)[nat (cmd_level c + 1) := 0]\<rparr>"

definition closeobject :: "command \<Rightarrow> command" where
  "closeobject c = c\<lparr>cmd_level := cmd_level c - 1\<rparr>"

definition beginarray :: "command \<Rightarrow> command" where
  "beginarray c = openobject (append_json [ch_lbrack] (addcomma c))"

definition beginarray_named :: "bytes \<Rightarrow> command \<Rightarrow> command" where
  "beginarray_named name c =
     openobject (append_json [ch_quote, ch_colon, ch_lbrack] (append_json name (append_json [ch_quote] (addcomma c))))"

definition endarray :: "command \<Rightarrow> command" where
  "endarray c = closeobject (append_json [ch_rbrack] c)"

definition beginobject :: "command \<Rightarrow> command" where
  "beginobject c = append_json [ch_lbrace] (addcomma c)"

definition endobject :: "command \<Rightarrow> command" where
  "endobject c = append_json [ch_rbrace] c"

text \<open>\<open>elements\<close>: false on the first call at a level, and marks the level.\<close>

definition elements :: "command \<Rightarrow> bool \<times> command" where
  "elements c =
     (if cmd_levels c ! nat (cmd_level c) = 0
      then (False, c\<lparr>cmd_levels := (cmd_levels c)[nat (cmd_level c) := 1]\<rparr>)
      else (True, c))"

definition element_int :: "int \<Rightarrow> command \<Rightarrow> command" where
  "element_int n c =
     (let (e, c1) = elements c in
      append_json (dec_int n) (if e then append_json [ch_comma] c1 else c1))"

definition element_handle :: "handle \<Rightarrow> nat \<Rightarrow> command \<Rightarrow> command" where
  "element_handle h len c =
     (let (e, c1) = elements c in
      append_json [ch_quote] (append_json (btoa (le_bytes len h))
        (append_json (if e then [ch_comma, ch_quote] else [ch_quote]) c1)))"

definition element_bin :: "bytes \<Rightarrow> command \<Rightarrow> command" where
  "element_bin data c =
     (let (e, c1) = elements c in
      append_json [ch_quote] (append_json (btoa data)
        (append_json (if e then [ch_comma, ch_quote] else [ch_quote]) c1)))"

section \<open>The default result handler\<close>

lemma length_nameid_loop: "length (snd (nameid_loop i s)) \<le> length s"
  by (induction i s rule: nameid_loop.induct) auto

lemma getnameid_shorter: "fst (getnameid p) \<noteq> 0 \<Longrightarrow> length (snd (getnameid p)) < length p"
proof -
  assume n: "fst (getnameid p) \<noteq> 0"
  define q where "q = (if cur p = ch_comma \<or> cur p = ch_colon then tl p else p)"
  have q: "cur q = ch_quote" "length q \<le> length p"
    using n by (auto simp: getnameid_def Let_def q_def split: if_splits)
  then have "q \<noteq> []" by auto
  then have "length (drop 2 (snd (nameid_loop 0 (tl q)))) < length q"
    using length_nameid_loop [of 0 "tl q"] by (cases q) auto
  moreover have "snd (getnameid p) = drop 2 (snd (nameid_loop 0 (tl q)))"
    using q(1) by (simp add: getnameid_def Let_def case_prod_beta flip: q_def)
  ultimately show ?thesis using q(2) by simp
qed

function procresult_loop :: "bytes \<Rightarrow> bytes" where
  "procresult_loop p =
     (let (i, p1) = getnameid p in
      if i = 0 then p1
      else (case storeobject p1 of (None, p2) \<Rightarrow> p2 | (Some _, p2) \<Rightarrow> procresult_loop p2))"
  by pat_completeness auto
termination
proof (relation "measure length", goal_cases)
  case (2 p x i p1 y p2 t)
  have "length p1 < length p"
    using getnameid_shorter [of p] 2 by (metis fst_conv snd_conv)
  moreover have "length p2 \<le> length p1"
    using length_storeobject [of p1] 2 by (metis snd_conv)
  ultimately show ?case by simp
qed simp

declare procresult_loop.simps [simp del]

definition procresult :: "bytes \<Rightarrow> bytes" where
  "procresult p =
     (let (n, p1) = isnumeric p in
      if n then snd (getint p1) else procresult_loop p1)"

section \<open>Request\<close>

text \<open>A queued command with its virtual \<open>procresult\<close>.\<close>

type_synonym qcmd = "command \<times> (bytes \<Rightarrow> bytes option)"

record request =
  req_cmds :: "qcmd list"

definition req_add :: "qcmd \<Rightarrow> request \<Rightarrow> request" where
  "req_add c r = r\<lparr>req_cmds := req_cmds r @ [c]\<rparr>"

definition cmdspending :: "request \<Rightarrow> nat" where
  "cmdspending r = length (req_cmds r)"

fun req_get_loop :: "nat \<Rightarrow> bytes \<Rightarrow> qcmd list \<Rightarrow> bytes" where
  "req_get_loop i req [] = req"
| "req_get_loop i req (c # cs) =
     req_get_loop (Suc i) (req @ (if i \<noteq> 0 then [ch_comma, ch_lbrace] else [ch_lbrace]) @
       getstring (fst c) @ [ch_rbrace]) cs"

definition req_get :: "request \<Rightarrow> bytes" where
  "req_get r = req_get_loop 0 [ch_lbrack] (req_cmds r) @ [ch_rbrack]"

text \<open>What one command does with the response at \<open>p\<close>: the position its handler was given and
  the position after it.\<close>

definition proc_one :: "(bytes \<Rightarrow> bytes option) \<Rightarrow> bytes \<Rightarrow> (bytes \<times> bytes) option" where
  "proc_one h p =
     (let (ob, p1) = enterobject p in
      if ob then
        (case h p1 of
           None \<Rightarrow> None
         | Some p2 \<Rightarrow> (case leaveobject p2 of None \<Rightarrow> None | Some (b, p3) \<Rightarrow> Some (p1, p3)))
      else
        (let (ar, p2) = enterarray p1 in
         if ar then
           (case h p2 of None \<Rightarrow> None | Some p3 \<Rightarrow> Some (p2, snd (leavearray p3)))
         else (case h p2 of None \<Rightarrow> None | Some p3 \<Rightarrow> Some (p2, p3))))"

text \<open>The loop over the commands: the tags and positions handed out (\<open>restag\<close>), the commands
  that are deleted, the final position.\<close>

fun proc_all :: "qcmd list \<Rightarrow> bytes \<Rightarrow> ((int \<times> bytes) list \<times> qcmd list \<times> bytes) option" where
  "proc_all [] p = Some ([], [], p)"
| "proc_all (c # cs) p =
     (case proc_one (snd c) p of
        None \<Rightarrow> None
      | Some (q, p') \<Rightarrow>
          (case proc_all cs p' of
             None \<Rightarrow> None
           | Some (log, dels, p'') \<Rightarrow>
               Some ((cmd_tag (fst c), q) # log, (if cmd_persistent (fst c) then dels else c # dels), p'')))"

definition req_procresult :: "request \<Rightarrow> bytes \<Rightarrow> (request \<times> (int \<times> bytes) list \<times> qcmd list \<times> bytes) option" where
  "req_procresult r p =
     (case proc_all (req_cmds r) (snd (enterarray p)) of
        None \<Rightarrow> None
      | Some (log, dels, p') \<Rightarrow> Some (r\<lparr>req_cmds := []\<rparr>, log, dels, p'))"

definition req_clear :: "request \<Rightarrow> request" where
  "req_clear r = r\<lparr>req_cmds := []\<rparr>"

section \<open>Numbers\<close>

declare dec_nat.simps [simp del]

lemma digits_val_simps [simp]:
  "digits_val [] = 0" "digits_val (ds @ [d]) = 10 * digits_val ds + (uint d - 48)"
  by (simp_all add: digits_val_def)

lemma uint_digit: "n < 10 \<Longrightarrow> uint (of_nat n + 48 :: byte) = int n + 48"
  by (simp add: uint_word_ariths unsigned_of_nat take_bit_eq_mod)

lemma is_digit_of_nat: "n < 10 \<Longrightarrow> is_digit (of_nat n + 48)"
  using uint_digit [of n] by (simp add: is_digit_def word_le_def)

lemma dec_nat_digits: "dec_nat n \<noteq> [] \<and> list_all is_digit (dec_nat n)"
proof (induction n rule: dec_nat.induct)
  case (1 n)
  then show ?case
    using is_digit_of_nat [of n] is_digit_of_nat [of "n mod 10"] by (subst (1 2) dec_nat.simps) auto
qed

lemma digits_val_dec_nat: "digits_val (dec_nat n) = int n"
proof (induction n rule: dec_nat.induct)
  case (1 n)
  show ?case
  proof (cases "n < 10")
    case True
    then show ?thesis
      using digits_val_simps(2) [of "[]" "of_nat n + 48"] uint_digit [of n]
      by (simp add: dec_nat.simps [of n])
  next
    case False
    with 1 have "digits_val (dec_nat n) = 10 * int (n div 10) + int (n mod 10)"
      using uint_digit [of "n mod 10"] by (simp add: dec_nat.simps [of n])
    also have "\<dots> = int (n div 10 * 10 + n mod 10)" by (simp only: of_nat_add of_nat_mult of_nat_numeral mult.commute)
    finally show ?thesis by (simp only: div_mult_mod_eq)
  qed
qed

lemma is_digit_num_tail: "is_digit c \<Longrightarrow> is_num_tail c"
  by (simp add: is_num_tail_def)

lemma num_ok_dec_int: "num_ok (dec_int n)"
proof -
  have "num_ok (dec_nat k)" for k
    using dec_nat_digits [of k] is_digit_num_tail
    by (cases "dec_nat k") (auto simp: num_ok_def list_all_iff)
  moreover have "list_all is_num_tail (dec_nat k)" for k
    using dec_nat_digits [of k] is_digit_num_tail by (auto simp: list_all_iff)
  ultimately show ?thesis by (auto simp: dec_int_def num_ok_def)
qed

lemma takeWhile_dec_nat:
  "\<not> is_digit (cur rest) \<Longrightarrow> takeWhile is_digit (dec_nat n @ rest) = dec_nat n"
  using dec_nat_digits [of n]
  by (cases rest) (auto simp: list_all_iff takeWhile_append)

lemma cur_dec_nat: "is_digit (cur (dec_nat n @ rest))"
  using dec_nat_digits [of n] by (cases "dec_nat n") auto

lemma atoll_dec_int:
  assumes "\<not> is_digit (cur rest)" "- (2 ^ 63) \<le> n" "n < 2 ^ 63"
  shows "atoll (dec_int n @ rest) = n"
proof (cases "n < 0")
  case True
  then show ?thesis
    using assms
    by (simp add: atoll_def dec_int_def takeWhile_dec_nat digits_val_dec_nat)
next
  case False
  have "cur (dec_nat (nat n) @ rest) \<noteq> ch_minus"
    using cur_dec_nat [of "nat n" rest] by auto
  then show ?thesis
    using False assms
    by (simp add: atoll_def dec_int_def takeWhile_dec_nat digits_val_dec_nat)
qed

text \<open>The integers a command prints are the integers \<open>getint\<close> reads.\<close>

lemma getint_dec_int:
  assumes "\<not> is_num_tail (cur rest)" "- (2 ^ 63) \<le> n" "n < 2 ^ 63"
  shows "getint (dec_int n @ rest) = (n, rest)"
proof -
  define c where "c = cur (dec_int n @ rest)"
  have c: "is_digit c \<or> c = ch_minus"
    unfolding c_def using cur_dec_nat by (auto simp: dec_int_def)
  then have c': "c \<noteq> ch_colon" "c \<noteq> ch_comma" "c \<noteq> ch_quote" by (auto dest: is_digit_not_punct)
  have "\<not> is_digit (cur rest)" using assms(1) is_digit_num_tail by blast
  moreover have "storeobject (dec_int n @ rest) = (Some (dec_int n), rest)"
    using storeobject_value [of "JNum (dec_int n)" rest] assms(1) by (simp add: num_ok_dec_int)
  ultimately show ?thesis
    using c c' assms
    by (auto simp: getint_def Let_def skip_char_def atoll_dec_int simp flip: c_def)
qed

section \<open>What a sequence of calls writes\<close>

text \<open>
  A command's arguments as a document: named strings, numbers and binaries, named arrays of
  elements, named arrays of objects. \<open>build_member\<close> is the call sequence the command
  constructors make for it.
\<close>

datatype citem = EInt int | EHandle handle nat | EBin bytes

datatype cmember =
    MStr bytes bytes
  | MInt bytes int
  | MBin bytes bytes
  | MElems bytes "citem list"
  | MObjs bytes "cmember list list"

fun build_item :: "citem \<Rightarrow> command \<Rightarrow> command" where
  "build_item (EInt n) c = element_int n c"
| "build_item (EHandle h len) c = element_handle h len c"
| "build_item (EBin d) c = element_bin d c"

fun item_json :: "citem \<Rightarrow> json_value" where
  "item_json (EInt n) = JNum (dec_int n)"
| "item_json (EHandle h len) = JStr (btoa (le_bytes len h))"
| "item_json (EBin d) = JStr (btoa d)"

fun build_member :: "cmember \<Rightarrow> command \<Rightarrow> command" where
  "build_member (MStr k v) c = arg_str k v True c"
| "build_member (MInt k n) c = arg_int k n c"
| "build_member (MBin k d) c = arg_bin k d c"
| "build_member (MElems k es) c = endarray (fold build_item es (beginarray_named k c))"
| "build_member (MObjs k objs) c =
     endarray (fold (\<lambda>ms c. endobject (fold build_member ms (beginobject c))) objs (beginarray_named k c))"

fun member_json :: "cmember \<Rightarrow> bytes \<times> json_value" where
  "member_json (MStr k v) = (k, JStr v)"
| "member_json (MInt k n) = (k, JNum (dec_int n))"
| "member_json (MBin k d) = (k, JStr (btoa d))"
| "member_json (MElems k es) = (k, JArr (map item_json es))"
| "member_json (MObjs k objs) = (k, JArr (map (\<lambda>ms. JObj (map member_json ms)) objs))"

text \<open>Array nesting; \<open>levels\<close> has \<open>MAXDEPTH\<close> = 8 entries.\<close>

fun depth :: "cmember \<Rightarrow> nat" where
  "depth (MElems k es) = 1"
| "depth (MObjs k objs) = Suc (fold max (map (\<lambda>ms. fold max (map depth ms) 0) objs) 0)"
| "depth _ = 0"

text \<open>The comma that \<open>addcomma\<close> puts in front.\<close>

definition comma :: "bytes \<Rightarrow> bytes" where
  "comma j = (if j \<noteq> [] \<and> last j \<notin> {ch_lbrack, ch_lbrace, 0} then [ch_comma] else [])"

definition flat :: "command \<Rightarrow> nat \<Rightarrow> bool" where
  "flat c d \<longleftrightarrow> length (cmd_levels c) = 8 \<and> -1 \<le> cmd_level c \<and> cmd_level c + int d \<le> 7"

lemma append_json_simps [simp]:
  "cmd_json (append_json s c) = cmd_json c @ s"
  "cmd_levels (append_json s c) = cmd_levels c"
  "cmd_level (append_json s c) = cmd_level c"
  by (simp_all add: append_json_def)

lemma addcomma_simps [simp]:
  "cmd_json (addcomma c) = cmd_json c @ comma (cmd_json c)"
  "cmd_levels (addcomma c) = cmd_levels c"
  "cmd_level (addcomma c) = cmd_level c"
  by (simp_all add: addcomma_def comma_def)

text \<open>An open array level and whether it already holds an element.\<close>

definition opened :: "command \<Rightarrow> bool \<Rightarrow> bool" where
  "opened c e \<longleftrightarrow> length (cmd_levels c) = 8 \<and> 0 \<le> cmd_level c \<and> cmd_level c \<le> 7 \<and>
     (cmd_levels c ! nat (cmd_level c) = 0 \<longleftrightarrow> \<not> e)"

lemma build_item_step:
  assumes "opened c e"
  shows "cmd_json (build_item it c) = cmd_json c @ (if e then [ch_comma] else []) @ pr (item_json it)"
    and "opened (build_item it c) True" and "cmd_level (build_item it c) = cmd_level c"
  using assms
  by (cases it; auto simp: element_int_def element_handle_def element_bin_def elements_def
      opened_def pr_str_def)+

lemma sep_Cons: "sep (x # xs) = x @ concat (map (\<lambda>y. ch_comma # y) xs)"
  by (induction xs arbitrary: x) auto

lemma build_items_more:
  assumes "opened c True"
  shows "cmd_json (fold build_item es c) = cmd_json c @ concat (map (\<lambda>it. ch_comma # pr (item_json it)) es) \<and>
         opened (fold build_item es c) True \<and> cmd_level (fold build_item es c) = cmd_level c"
  using assms
proof (induction es arbitrary: c)
  case (Cons e es)
  show ?case
    using Cons.IH [OF build_item_step(2) [OF Cons.prems]] build_item_step [OF Cons.prems, of e]
    by simp
qed simp

lemma build_items:
  assumes "opened c False"
  shows "cmd_json (fold build_item es c) = cmd_json c @ sep (map (pr \<circ> item_json) es)"
    and "length (cmd_levels (fold build_item es c)) = 8"
    and "cmd_level (fold build_item es c) = cmd_level c"
  using build_item_step [OF assms] build_items_more [of "build_item (hd es) c" "tl es"] assms
  by (cases es; simp add: sep_Cons opened_def comp_def)+

lemma last_pr: "wf_json v \<Longrightarrow> last (pr v) \<notin> {ch_lbrack, ch_lbrace, 0}"
proof (cases v)
  case (JNum n)
  assume "wf_json v"
  then have "is_num_tail (last n) \<or> last n = ch_minus"
    using JNum by (cases n rule: rev_cases) (auto simp: num_ok_def list_all_iff is_num_tail_def hd_append split: if_splits)
  then show ?thesis using JNum by (auto simp: is_num_tail_def is_digit_def)
qed (auto simp: pr_str_def)

lemma last_member: "last (pr (snd (member_json m))) \<notin> {ch_lbrack, ch_lbrace, 0}"
proof (cases m)
  case (MInt k n)
  then show ?thesis using last_pr [of "JNum (dec_int n)"] by (simp add: num_ok_dec_int)
qed (auto simp: pr_str_def)

lemma pr_nonempty_member: "pr (snd (member_json m)) \<noteq> []"
  by (cases m) (use num_ok_dec_int in \<open>auto simp: pr_str_def num_ok_def\<close>)

lemma comma_simps [simp]:
  "comma [] = []" "comma (j @ [ch_lbrack]) = []" "comma (j @ [ch_lbrace]) = []"
  "comma (j @ [ch_rbrace]) = [ch_comma]" "comma (j @ [ch_lbrack, ch_lbrace]) = []"
  by (simp_all add: comma_def)

lemma comma_member: "comma (j @ pr_member (member_json m)) = [ch_comma]"
  using last_member [of m] pr_nonempty_member [of m]
  by (simp add: comma_def pr_member_def)

lemma fold_max_ge: "x \<in> set xs \<Longrightarrow> x \<le> fold max xs a" "a \<le> fold max xs a" for a :: nat
proof (induction xs arbitrary: a)
  case (Cons y ys)
  { case 1
    then show ?case using Cons(1) [of "max y a"] Cons(2) [of "max y a"] by auto
  next
    case 2
    then show ?case using Cons(2) [of "max y a"] by simp }
qed auto

text \<open>Joining texts in front of which \<open>addcomma\<close> is called.\<close>

fun joined :: "bytes \<Rightarrow> bytes list \<Rightarrow> bytes" where
  "joined pre [] = []"
| "joined pre (x # xs) = pre @ x @ concat (map (\<lambda>y. ch_comma # y) xs)"

lemma joined_sep: "joined [] xs = sep xs"
  by (cases xs) (simp_all add: sep_Cons)

lemma joined_comma: "joined [ch_comma] xs = concat (map (\<lambda>y. ch_comma # y) xs)"
  by (cases xs) simp_all

lemma fold_joined:
  assumes "\<And>x c. x \<in> set xs \<Longrightarrow> P c \<Longrightarrow>
      cmd_json (f x c) = cmd_json c @ comma (cmd_json c) @ g x \<and> P (f x c)"
    and "\<And>x j. x \<in> set xs \<Longrightarrow> comma (j @ g x) = [ch_comma]" and "P c"
  shows "cmd_json (fold f xs c) = cmd_json c @ joined (comma (cmd_json c)) (map g xs) \<and> P (fold f xs c)"
  using assms
proof (induction xs arbitrary: c)
  case (Cons x xs)
  have x: "cmd_json (f x c) = cmd_json c @ comma (cmd_json c) @ g x" "P (f x c)"
    using Cons.prems(1) [of x c] Cons.prems(3) by auto
  have "comma (cmd_json (f x c)) = [ch_comma]"
    using Cons.prems(2) [of x "cmd_json c @ comma (cmd_json c)"] by (simp add: x(1))
  moreover have "cmd_json (fold f xs (f x c)) =
      cmd_json (f x c) @ joined (comma (cmd_json (f x c))) (map g xs) \<and> P (fold f xs (f x c))"
    by (rule Cons.IH) (use Cons.prems x in auto)
  ultimately show ?case by (simp add: x(1) joined_comma)
qed simp

lemma beginarray_named_opened:
  assumes "flat c 1"
  shows "opened (beginarray_named k c) False"
    and "cmd_level (beginarray_named k c) = cmd_level c + 1"
    and "cmd_json (beginarray_named k c) = cmd_json c @ comma (cmd_json c) @ pr_str k @ [ch_colon, ch_lbrack]"
  using assms by (auto simp: beginarray_named_def openobject_def opened_def flat_def pr_str_def)

lemma build_member_json:
  "flat c (depth m) \<Longrightarrow>
   cmd_json (build_member m c) = cmd_json c @ comma (cmd_json c) @ pr_member (member_json m) \<and>
   length (cmd_levels (build_member m c)) = 8 \<and> cmd_level (build_member m c) = cmd_level c"
proof (induction m arbitrary: c)
  case (MElems k es)
  let ?b = "beginarray_named k c"
  have b: "opened ?b False" using MElems by (simp add: beginarray_named_opened(1))
  show ?case
    using MElems build_items [OF b, of es]
    by (simp add: endarray_def closeobject_def beginarray_named_opened(2,3) pr_member_def comp_def)
next
  case (MObjs k objs)
  let ?b = "beginarray_named k c"
  define d where "d = fold max (map (\<lambda>ms. fold max (map depth ms) 0) objs) 0"
  define P :: "command \<Rightarrow> bool" where "P = (\<lambda>c'. length (cmd_levels c') = 8 \<and> cmd_level c' = cmd_level c + 1)"
  have fl: "flat c (Suc d)" using MObjs.prems by (simp add: d_def)
  then have "flat c 1" by (simp add: flat_def)
  note b = beginarray_named_opened [OF this, of k]
  have dm: "depth m \<le> d" if "ms \<in> set objs" "m \<in> set ms" for ms m
  proof -
    have "depth m \<le> fold max (map depth ms) 0" using that(2) by (intro fold_max_ge(1)) simp
    also have "\<dots> \<le> d" unfolding d_def using that(1) by (intro fold_max_ge(1)) auto
    finally show ?thesis .
  qed
  have mem: "cmd_json (fold build_member ms c') =
      cmd_json c' @ joined (comma (cmd_json c')) (map (pr_member \<circ> member_json) ms) \<and> P (fold build_member ms c')"
    if ms: "ms \<in> set objs" and P: "P c'" for ms and c' :: command
  proof (rule fold_joined [where P = P])
    fix m c'' assume m: "m \<in> set ms" and "P c''"
    then have "flat c'' (depth m)" using fl dm [OF ms m] by (simp add: P_def flat_def)
    from MObjs.IH [OF ms m this] \<open>P c''\<close>
    show "cmd_json (build_member m c'') = cmd_json c'' @ comma (cmd_json c'') @ (pr_member \<circ> member_json) m \<and>
        P (build_member m c'')" by (simp add: P_def)
  qed (use P in \<open>simp_all add: comma_member\<close>)
  have obj: "cmd_json (fold (\<lambda>ms c. endobject (fold build_member ms (beginobject c))) objs ?b) =
      cmd_json ?b @ joined (comma (cmd_json ?b)) (map (\<lambda>ms. pr (JObj (map member_json ms))) objs) \<and>
      P (fold (\<lambda>ms c. endobject (fold build_member ms (beginobject c))) objs ?b)"
  proof (rule fold_joined [where P = P])
    fix ms c' assume ms: "ms \<in> set objs" and P: "P c'"
    have "P (beginobject c')" using P by (simp add: P_def beginobject_def)
    from mem [OF ms this]
    show "cmd_json (endobject (fold build_member ms (beginobject c'))) =
        cmd_json c' @ comma (cmd_json c') @ pr (JObj (map member_json ms)) \<and>
        P (endobject (fold build_member ms (beginobject c')))"
      by (simp add: endobject_def beginobject_def joined_sep P_def comp_def pr_member_def
          case_prod_beta flip: append_assoc)
  qed (use b in \<open>simp_all add: P_def opened_def flip: append_Cons append_assoc\<close>)
  have "comma (cmd_json ?b) = []"
    using comma_simps(2) [of "cmd_json c @ comma (cmd_json c) @ pr_str k @ [ch_colon]"] b(3) by simp
  with obj b show ?case
    by (simp add: endarray_def closeobject_def P_def joined_sep pr_member_def comp_def)
qed (auto simp: arg_str_def arg_int_def arg_bin_def pr_member_def pr_str_def flat_def Let_def)

section \<open>A whole request\<close>

text \<open>A command as its constructor builds it: the opcode, then the arguments.\<close>

definition build_cmd :: "bytes \<times> cmember list \<Rightarrow> command" where
  "build_cmd d = fold build_member (snd d) (cmd_cmd (fst d) new_command)"

definition cmd_doc :: "bytes \<times> cmember list \<Rightarrow> json_value" where
  "cmd_doc d = JObj ((str ''a'', JStr (fst d)) # map member_json (snd d))"

fun member_ok :: "cmember \<Rightarrow> bool" where
  "member_ok (MStr k v) \<longleftrightarrow> str_ok False k \<and> str_ok False v"
| "member_ok (MInt k n) \<longleftrightarrow> str_ok False k"
| "member_ok (MBin k d) \<longleftrightarrow> str_ok False k"
| "member_ok (MElems k es) \<longleftrightarrow> str_ok False k"
| "member_ok (MObjs k objs) \<longleftrightarrow> str_ok False k \<and> list_all (list_all member_ok) objs"

definition doc_ok :: "bytes \<times> cmember list \<Rightarrow> bool" where
  "doc_ok d \<longleftrightarrow> str_ok False (fst d) \<and> list_all (\<lambda>m. member_ok m \<and> depth m \<le> 8) (snd d)"

lemma str_ok_plain: "0 \<notin> set s \<Longrightarrow> ch_quote \<notin> set s \<Longrightarrow> ch_bslash \<notin> set s \<Longrightarrow> str_ok False s"
  by (induction s) auto

lemma str_ok_no_nul: "str_ok e s \<Longrightarrow> 0 \<notin> set s"
  by (induction e s rule: str_ok.induct) auto

lemma str_ok_btoa: "str_ok False (btoa d)"
  using btoa_no_quote [of d] by (intro str_ok_plain) auto

lemma wf_member: "member_ok m \<Longrightarrow> str_ok False (fst (member_json m)) \<and> wf_json (snd (member_json m))"
proof (induction m)
  case (MElems k es)
  have "wf_json (item_json it)" for it by (cases it) (simp_all add: num_ok_dec_int str_ok_btoa)
  with MElems show ?case by (simp add: list_all_iff)
next
  case (MObjs k objs)
  then show ?case by (auto simp: list_all_iff case_prod_beta)
qed (simp_all add: num_ok_dec_int str_ok_btoa)

lemma sep_no_nul: "(\<forall>x \<in> set xs. 0 \<notin> set x) \<Longrightarrow> 0 \<notin> set (sep xs)"
  by (induction xs rule: sep.induct) auto

lemma pr_no_nul: "wf_json v \<Longrightarrow> 0 \<notin> set (pr v)"
proof (induction v)
  case (JNum n)
  then show ?case by (cases n) (auto simp: num_ok_def list_all_iff is_num_tail_def is_digit_def)
next
  case (JStr s)
  then show ?case by (simp add: pr_str_def str_ok_no_nul)
next
  case (JArr vs)
  then show ?case by (auto simp: list_all_iff dest!: sep_no_nul [THEN notE, rotated])
next
  case (JObj ms)
  have "0 \<notin> set (pr_str k @ ch_colon # pr v)" if "(k, v) \<in> set ms" for k v
    using that JObj by (force simp: list_all_iff pr_str_def dest: str_ok_no_nul)
  then have "0 \<notin> set (sep (map (\<lambda>(k, v). pr_str k @ ch_colon # pr v) ms))"
    by (intro sep_no_nul) auto
  then show ?case by simp
qed

lemma build_cmd_json:
  assumes "doc_ok d"
  shows "ch_lbrace # getstring (build_cmd d) @ [ch_rbrace] = pr (cmd_doc d)"
    and "wf_json (cmd_doc d)"
proof -
  let ?c = "cmd_cmd (fst d) new_command"
  let ?P = "\<lambda>c :: command. length (cmd_levels c) = 8 \<and> cmd_level c = -1"
  have c0: "cmd_json ?c = pr_member (str ''a'', JStr (fst d))" "?P ?c"
    by (simp_all add: cmd_cmd_def new_command_def pr_member_def pr_str_def str_def)
  have "cmd_json (fold build_member (snd d) ?c) =
      cmd_json ?c @ joined (comma (cmd_json ?c)) (map (pr_member \<circ> member_json) (snd d)) \<and>
      ?P (fold build_member (snd d) ?c)"
  proof (rule fold_joined [where P = ?P])
    fix m and c :: command assume m: "m \<in> set (snd d)" and "?P c"
    then have "flat c (depth m)" using assms by (auto simp: flat_def doc_ok_def list_all_iff)
    from build_member_json [OF this] \<open>?P c\<close>
    show "cmd_json (build_member m c) = cmd_json c @ comma (cmd_json c) @ (pr_member \<circ> member_json) m \<and>
        ?P (build_member m c)" by simp
  qed (use c0 in \<open>simp_all add: comma_member\<close>)
  moreover have "comma (cmd_json ?c) = [ch_comma]"
    by (simp add: c0(1) comma_def pr_member_def pr_str_def)
  ultimately have json: "ch_lbrace # cmd_json (build_cmd d) @ [ch_rbrace] = pr (cmd_doc d)"
    by (simp add: build_cmd_def cmd_doc_def c0(1) sep_Cons joined_comma pr_member_def comp_def case_prod_beta)
  show wf: "wf_json (cmd_doc d)"
    using assms wf_member by (auto simp: cmd_doc_def doc_ok_def list_all_iff str_def case_prod_beta)
  have "0 \<notin> set (cmd_json (build_cmd d))"
    using pr_no_nul [OF wf] by (simp flip: json)
  then have "getstring (build_cmd d) = cmd_json (build_cmd d)"
    by (auto simp: getstring_def takeWhile_eq_all_conv)
  with json show "ch_lbrace # getstring (build_cmd d) @ [ch_rbrace] = pr (cmd_doc d)" by simp
qed

lemma req_get_loop_sep:
  "req_get_loop i req cs = req @ (if i = 0 then sep else (\<lambda>xs. concat (map (\<lambda>y. ch_comma # y) xs)))
     (map (\<lambda>c. ch_lbrace # getstring (fst c) @ [ch_rbrace]) cs)"
  by (induction i req cs rule: req_get_loop.induct) (auto simp: sep_Cons)

lemma req_add_fold: "req_cmds (fold req_add cs r) = req_cmds r @ cs"
  by (induction cs arbitrary: r) (simp_all add: req_add_def)

lemma req_get_docs:
  assumes "list_all doc_ok ds"
  shows "req_get \<lparr>req_cmds = map2 (\<lambda>d h. (build_cmd d, h)) ds hs\<rparr> =
    pr (JArr (map cmd_doc (take (length hs) ds)))"
proof -
  have "map (\<lambda>c. ch_lbrace # getstring (fst c) @ [ch_rbrace]) (map2 (\<lambda>d h. (build_cmd d, h)) ds hs) =
      map pr (map cmd_doc (take (length hs) ds))"
    using assms build_cmd_json(1)
    by (auto simp: list_eq_iff_nth_eq list_all_length)
  then show ?thesis by (simp add: req_get_def req_get_loop_sep)
qed

section \<open>The response\<close>

text \<open>The text behind the bracket of a response, which the handler is given, and the positions at
  which a handler may stop: at any member boundary of an object, at the end of anything else.\<close>

fun body :: "json_value \<Rightarrow> bytes" where
  "body (JObj ms) = sep (map pr_member ms) @ [ch_rbrace]"
| "body (JArr vs) = sep (map pr vs) @ [ch_rbrack]"
| "body v = pr v"

fun may_stop :: "json_value \<Rightarrow> bytes \<Rightarrow> bool" where
  "may_stop (JObj ms) l \<longleftrightarrow>
     l = body (JObj ms) \<or> (\<exists>k \<in> set [0..<Suc (length ms)]. l = pr_rest (drop k ms) @ [ch_rbrace])"
| "may_stop (JArr vs) l \<longleftrightarrow> l = [ch_rbrack]"
| "may_stop v l \<longleftrightarrow> l = []"

definition handler_ok :: "(bytes \<Rightarrow> bytes option) \<Rightarrow> json_value \<Rightarrow> bool" where
  "handler_ok h v \<longleftrightarrow>
     (\<forall>rest. cur rest \<in> {ch_comma, ch_rbrack} \<longrightarrow>
        (\<exists>l. may_stop v l \<and> h (body v @ rest) = Some (l @ rest)))"

definition commas :: "json_value list \<Rightarrow> bytes" where
  "commas vs = concat (map (\<lambda>v. ch_comma # pr v) vs)"

fun handed :: "json_value list \<Rightarrow> bytes \<Rightarrow> bytes list" where
  "handed [] rest = []"
| "handed (v # vs) rest = (body v @ commas vs @ rest) # handed vs rest"

lemma pr_JObj: "pr (JObj ms) = ch_lbrace # sep (map pr_member ms) @ [ch_rbrace]"
proof -
  have "(\<lambda>(k, v). pr_str k @ ch_colon # pr v) = pr_member"
    by (simp add: fun_eq_iff pr_member_def)
  then show ?thesis by simp
qed

lemma leaveobject_all:
  assumes "list_all (\<lambda>(k, v). str_ok False k \<and> wf_json v) ms"
  shows "leaveobject (sep (map pr_member ms) @ ch_rbrace # rest) = Some (True, rest)"
proof (cases ms)
  case (Cons m ms')
  have "leaveobject (sep (map pr_member ms) @ ch_rbrace # rest) = leaveobject (pr_rest ms @ ch_rbrace # rest)"
    by (subst (2) leaveobject_skip) (simp_all add: pr_rest_def Cons sep_Cons comp_def)
  then show ?thesis by (simp add: leaveobject_rest assms)
qed (simp add: leaveobject_end)

lemma may_stop_leave:
  assumes "may_stop (JObj ms) l" "wf_json (JObj ms)"
  shows "leaveobject (l @ rest) = Some (True, rest)"
proof -
  have "list_all (\<lambda>(k, v). str_ok False k \<and> wf_json v) (drop k ms)" for k
    using assms(2) by (auto simp: list_all_iff dest!: in_set_dropD)
  with leaveobject_rest have "leaveobject (pr_rest (drop k ms) @ ch_rbrace # rest) = Some (True, rest)" for k
    by blast
  moreover have "leaveobject (pr_rest [] @ ch_rbrace # rest) = Some (True, rest)"
    by (simp add: pr_rest_def leaveobject_end)
  ultimately show ?thesis using assms leaveobject_all [of ms rest] by auto
qed

lemma skip_char_other: "cur s \<noteq> c \<Longrightarrow> skip_char c s = s"
  by (simp add: skip_char_def)

lemma cur_pr:
  assumes "wf_json v"
  shows "cur (pr v @ rest) \<notin> {ch_comma, ch_rbrace, ch_rbrack, ch_colon, 0}"
    and "cur (pr v @ rest) = ch_lbrace \<longleftrightarrow> (\<exists>ms. v = JObj ms)"
    and "cur (pr v @ rest) = ch_lbrack \<longleftrightarrow> (\<exists>vs. v = JArr vs)"
  using assms
  by (cases v; auto simp: num_ok_def pr_str_def cur_append cur_hd dest: is_digit_not_punct)+

lemma proc_one_response:
  assumes h: "handler_ok h v" and wf: "wf_json v" and r: "cur rest \<in> {ch_comma, ch_rbrack}"
    and p: "p = pr v @ rest \<or> p = ch_comma # pr v @ rest"
  shows "proc_one h p = Some (body v @ rest, rest)"
proof -
  obtain l where l: "may_stop v l" "h (body v @ rest) = Some (l @ rest)"
    using h r by (auto simp: handler_ok_def)
  have eo: "enterobject p = (if \<exists>ms. v = JObj ms then (True, body v @ rest) else (False, pr v @ rest))"
    using p cur_pr [OF wf, of rest]
    by (auto simp: enterobject_def Let_def skip_char_def pr_JObj simp del: pr.simps(4))
  have ea: "enterarray (pr v @ rest) = (if \<exists>vs. v = JArr vs then (True, body v @ rest) else (False, pr v @ rest))"
    using cur_pr [OF wf, of rest] by (auto simp: enterarray_def Let_def skip_char_def)
  show ?thesis
  proof (cases v)
    case (JObj ms)
    then show ?thesis using l wf may_stop_leave [of ms l rest] by (simp add: proc_one_def eo del: body.simps may_stop.simps)
  qed (use l eo ea in \<open>auto simp: proc_one_def leavearray_def\<close>)
qed

lemma proc_all_responses:
  assumes "list_all2 (\<lambda>c v. handler_ok (snd c) v \<and> wf_json v) cs vs" "p = commas vs @ ch_rbrack # rest \<or>
    (vs \<noteq> [] \<and> p = tl (commas vs @ ch_rbrack # rest))"
  shows "proc_all cs p = Some (zip (map (cmd_tag \<circ> fst) cs) (handed vs (ch_rbrack # rest)),
      filter (\<lambda>c. \<not> cmd_persistent (fst c)) cs, ch_rbrack # rest)"
  using assms
proof (induction cs vs arbitrary: p rule: list_all2_induct)
  case (Cons c cs v vs)
  have "cur (commas vs @ ch_rbrack # rest) \<in> {ch_comma, ch_rbrack}"
    by (cases vs) (auto simp: commas_def)
  with Cons have "proc_one (snd c) p = Some (body v @ commas vs @ ch_rbrack # rest, commas vs @ ch_rbrack # rest)"
    by (intro proc_one_response) (auto simp: commas_def)
  with Cons.IH [of "commas vs @ ch_rbrack # rest"] show ?case by simp
qed (simp add: commas_def)

lemma req_procresult_responses:
  assumes "list_all2 (\<lambda>c v. handler_ok (snd c) v \<and> wf_json v) (req_cmds r) vs"
  shows "req_procresult r (pr (JArr vs) @ rest) =
    Some (r\<lparr>req_cmds := []\<rparr>, zip (map (cmd_tag \<circ> fst) (req_cmds r)) (handed vs (ch_rbrack # rest)),
      filter (\<lambda>c. \<not> cmd_persistent (fst c)) (req_cmds r), ch_rbrack # rest)"
proof -
  have "sep (map pr vs) @ ch_rbrack # rest = (if vs = [] then id else tl) (commas vs @ ch_rbrack # rest)"
    by (cases vs) (simp_all add: sep_Cons commas_def comp_def)
  then show ?thesis
    using proc_all_responses [OF assms, of "sep (map pr vs) @ ch_rbrack # rest" rest]
    by (simp add: req_procresult_def enterarray_def skip_char_def split: if_splits)
qed

text \<open>The default handler: names whose id is not 0 (an id of 0 ends its loop), and numbers.\<close>

definition key_ok :: "bytes \<Rightarrow> bool" where
  "key_ok k \<longleftrightarrow> str_ok False k \<and> ch_bslash \<notin> set k \<and> getnameid_at k \<noteq> 0"

fun default_ok :: "json_value \<Rightarrow> bool" where
  "default_ok (JObj ms) \<longleftrightarrow> list_all (\<lambda>(k, v). key_ok k \<and> wf_json v) ms"
| "default_ok (JNum n) \<longleftrightarrow> num_ok n \<and> is_digit (cur (skip_char ch_minus n))"
| "default_ok _ \<longleftrightarrow> False"

lemma str_ok_no_quote: "str_ok False k \<Longrightarrow> ch_bslash \<notin> set k \<Longrightarrow> ch_quote \<notin> set k"
  by (induction k) auto

lemma nameid_loop_quote:
  "0 \<notin> set k \<Longrightarrow> ch_quote \<notin> set k \<Longrightarrow>
   nameid_loop i (k @ ch_quote # rest) = (fst (nameid_loop i k), ch_quote # rest)"
  by (induction k arbitrary: i) auto

lemma getnameid_key:
  assumes "key_ok k" "p = pr_str k @ ch_colon # rest \<or> p = ch_comma # pr_str k @ ch_colon # rest"
  shows "getnameid p = (getnameid_at k, rest)"
  using assms nameid_loop_quote [of k 0 "ch_colon # rest"] str_ok_no_quote [of k] str_ok_no_nul [of False k]
  by (auto simp: getnameid_def Let_def pr_str_def key_ok_def getnameid_at_def)

lemma procresult_loop_members:
  assumes "list_all (\<lambda>(k, v). key_ok k \<and> wf_json v) ms"
    and "p = pr_rest ms @ ch_rbrace # rest \<or> (ms \<noteq> [] \<and> p = tl (pr_rest ms @ ch_rbrace # rest))"
  shows "procresult_loop p = ch_rbrace # rest"
  using assms
proof (induction ms arbitrary: p)
  case Nil
  then show ?case by (simp add: procresult_loop.simps pr_rest_def getnameid_def)
next
  case (Cons kv ms)
  obtain k v where kv: "kv = (k, v)" by (cases kv)
  have g: "getnameid p = (getnameid_at k, pr v @ pr_rest ms @ ch_rbrace # rest)"
    by (rule getnameid_key) (use Cons.prems in \<open>auto simp: kv pr_rest_def pr_member_def\<close>)
  have "\<not> is_num_tail (cur (pr_rest ms @ ch_rbrace # rest))" by (cases ms) (auto simp: pr_rest_def)
  then have "storeobject (pr v @ pr_rest ms @ ch_rbrace # rest) = (Some (stored v), pr_rest ms @ ch_rbrace # rest)"
    using Cons.prems by (intro storeobject_value) (auto simp: kv)
  with g Cons show ?case
    by (subst procresult_loop.simps) (auto simp: kv key_ok_def)
qed

lemma default_handler_ok:
  assumes "default_ok v"
  shows "handler_ok (\<lambda>p. Some (procresult p)) v"
  unfolding handler_ok_def
proof (intro allI impI)
  fix rest assume r: "cur rest \<in> {ch_comma, ch_rbrack}"
  show "\<exists>l. may_stop v l \<and> Some (procresult (body v @ rest)) = Some (l @ rest)"
  proof (cases v)
    case (JObj ms)
    have "cur (body v @ rest) = ch_quote \<or> cur (body v @ rest) = ch_rbrace"
      using JObj by (cases ms) (auto simp: sep_Cons pr_member_def pr_str_def)
    then have "isnumeric (body v @ rest) = (False, body v @ rest)"
      by (auto simp: isnumeric_def skip_char_def)
    moreover have "procresult_loop (body v @ rest) = ch_rbrace # rest"
      by (rule procresult_loop_members [of ms])
        (use assms JObj in \<open>cases ms; auto simp: pr_rest_def sep_Cons comp_def\<close>)+
    moreover have "may_stop v [ch_rbrace]"
      using JObj by (auto intro!: bexI [of _ "length ms"] simp: pr_rest_def)
    ultimately show ?thesis by (auto simp: procresult_def)
  next
    case (JNum n)
    have n: "num_ok n" "is_digit (cur (skip_char ch_minus n))" "n \<noteq> []" using assms JNum by (auto simp: num_ok_def)
    have c: "cur (n @ rest) \<notin> {ch_comma, ch_colon, ch_quote}" "cur (n @ rest) \<in> {ch_minus} \<union> {c. is_digit c}"
      using n by (auto simp: cur_append cur_hd num_ok_def dest: is_digit_not_punct)
    have "isnumeric (n @ rest) = (True, n @ rest)"
      using n c by (auto simp: isnumeric_def Let_def skip_char_def cur_append tl_append split: list.splits if_splits)
    moreover have "storeobject (n @ rest) = (Some n, rest)"
      using storeobject_value [of "JNum n" rest] n(1) r by auto
    then have "snd (getint (n @ rest)) = rest"
      using c by (auto simp: getint_def Let_def skip_char_def)
    ultimately show ?thesis using JNum by (simp add: procresult_def)
  qed (use assms in auto)
qed

end
