(* ===== verification/Scan.thy ===== *)
theory Scan
  imports Cmd
begin

text \<open>
  The loop that the result handlers of \<open>src/commands.cpp\<close> have: a \<open>switch\<close> on \<open>getnameid()\<close> inside
  \<open>for (;;)\<close>. \<open>rd\<close> gives, for the name ids with a \<open>case\<close> of their own, what that case does with the
  handler's local state \<open>'s\<close> and the position: go on with the loop (\<open>True\<close>), return (\<open>False\<close>), or hang
  (\<open>None\<close>). All other members are skipped with \<open>storeobject\<close>. The loop ends at the end of the object
  (\<open>EOO\<close>), when \<open>storeobject\<close> fails, or when a case returns.
\<close>

datatype scan_end = AtEOO | BadMember | Returned

type_synonym 's reader = "'s \<Rightarrow> bytes \<Rightarrow> (bool \<times> 's \<times> bytes) option"

partial_function (option) scan :: "(nameid \<Rightarrow> 's reader option) \<Rightarrow> 's \<Rightarrow> bytes \<Rightarrow> (scan_end \<times> 's \<times> bytes) option" where
  "scan rd s p =
     (let (i, p1) = getnameid p in
      if i = 0 then Some (AtEOO, s, p1)
      else (case rd i of
              Some f \<Rightarrow> Option.bind (f s p1) (\<lambda>(go, s', p2). if go then scan rd s' p2 else Some (Returned, s', p2))
            | None \<Rightarrow> (case storeobject p1 of
                (None, p2) \<Rightarrow> Some (BadMember, s, p2)
              | (Some v, p2) \<Rightarrow> scan rd s p2)))"

text \<open>The \<open>MAKENAMEID\<close> macros, and tables of cases.\<close>

definition MAKENAMEID :: "string \<Rightarrow> nameid" where
  "MAKENAMEID s = fold (\<lambda>c i. push_bit 8 i + ucast (of_char c :: byte)) s 0"

definition switch :: "(string \<times> 's reader) list \<Rightarrow> nameid \<Rightarrow> 's reader option" where
  "switch cs i = map_of (map (apfst MAKENAMEID) cs) i"

text \<open>Cases that store one value and break: an integer, a string, a binary, a handle, a pointer.\<close>

definition rd_int :: "(int \<Rightarrow> 's \<Rightarrow> 's) \<Rightarrow> 's reader" where
  "rd_int f s p = (let (i, q) = getint p in Some (True, f i s, q))"

definition rd_object :: "(bytes option \<Rightarrow> 's \<Rightarrow> 's) \<Rightarrow> 's reader" where
  "rd_object f s p = (let (t, q) = storeobject p in Some (True, f t s, q))"

definition rd_binary :: "nat \<Rightarrow> (bytes \<Rightarrow> 's \<Rightarrow> 's) \<Rightarrow> 's reader" where
  "rd_binary n f s p = (let (b, q) = storebinary_buf n p in Some (True, f b s, q))"

definition rd_handle :: "nat \<Rightarrow> (handle \<Rightarrow> 's \<Rightarrow> 's) \<Rightarrow> 's reader" where
  "rd_handle n f s p = (let (h, q) = gethandle n p in Some (True, f h s, q))"

definition rd_value :: "(bytes \<Rightarrow> 's \<Rightarrow> 's) \<Rightarrow> 's reader" where
  "rd_value f s p = (let (v, q) = getvalue p in Some (True, f v s, q))"

section \<open>Reading one member\<close>

text \<open>The reader \<open>f\<close> consumes exactly the text of the value \<open>v\<close> and changes the state by \<open>g\<close>. States are
  compared through \<open>\<alpha>\<close>: a pointer into the text is observed only up to the end of its value.\<close>

definition reads :: "('s \<Rightarrow> 't) \<Rightarrow> 's reader \<Rightarrow> json_value \<Rightarrow> ('t \<Rightarrow> 't) \<Rightarrow> bool" where
  "reads \<alpha> f v g \<longleftrightarrow>
     (\<forall>s rest. cur rest \<in> {ch_comma, ch_rbrace, ch_rbrack} \<longrightarrow>
        (\<exists>s'. f s (pr v @ rest) = Some (True, s', rest) \<and> \<alpha> s' = g (\<alpha> s)))"

lemma readsI:
  assumes "\<And>s rest. cur rest \<in> {ch_comma, ch_rbrace, ch_rbrack} \<Longrightarrow>
    \<exists>s'. f s (pr v @ rest) = Some (True, s', rest) \<and> \<alpha> s' = g (\<alpha> s)"
  shows "reads \<alpha> f v g"
  using assms by (simp add: reads_def)

lemma delim_not_num: "cur rest \<in> {ch_comma, ch_rbrace, ch_rbrack} \<Longrightarrow> \<not> is_num_tail (cur rest)"
  by auto

text \<open>The effect of a member on the state: through its reader, or none.\<close>

definition member_effect :: "('s \<Rightarrow> 't) \<Rightarrow> (nameid \<Rightarrow> 's reader option) \<Rightarrow> bytes \<times> json_value \<Rightarrow> ('t \<Rightarrow> 't) \<Rightarrow> bool" where
  "member_effect \<alpha> rd m g \<longleftrightarrow>
     key_ok (fst m) \<and> wf_json (snd m) \<and>
     (case rd (getnameid_at (fst m)) of Some f \<Rightarrow> reads \<alpha> f (snd m) g | None \<Rightarrow> g = id)"

lemma scan_member:
  assumes m: "member_effect \<alpha> rd (k, v) g" and r: "cur rest \<in> {ch_comma, ch_rbrace}"
    and p: "p = pr_member (k, v) @ rest \<or> p = ch_comma # pr_member (k, v) @ rest"
  shows "\<exists>s'. scan rd s p = scan rd s' rest \<and> \<alpha> s' = g (\<alpha> s)"
proof -
  have g: "getnameid p = (getnameid_at k, pr v @ rest)" and i: "getnameid_at k \<noteq> 0"
    using m p getnameid_key [of k p "pr v @ rest"] by (auto simp: member_effect_def pr_member_def key_ok_def)
  show ?thesis
  proof (cases "rd (getnameid_at k)")
    case None
    have "storeobject (pr v @ rest) = (Some (stored v), rest)"
      using m r by (intro storeobject_value) (auto simp: member_effect_def)
    then have "scan rd s p = scan rd s rest" using None i g by (subst scan.simps) simp
    then show ?thesis using None m by (auto simp: member_effect_def)
  next
    case (Some f)
    obtain s' where "f s (pr v @ rest) = Some (True, s', rest)" "\<alpha> s' = g (\<alpha> s)"
      using m r Some by (fastforce simp: member_effect_def reads_def)
    moreover from this have "scan rd s p = scan rd s' rest" using Some i g by (subst scan.simps) simp
    ultimately show ?thesis by blast
  qed
qed

lemma scan_end: "scan rd s (ch_rbrace # rest) = Some (AtEOO, s, ch_rbrace # rest)"
  by (subst scan.simps) (simp add: getnameid_def)

text \<open>The loop over a whole object: the effects of its members in their order.\<close>

lemma scan_rest:
  assumes "list_all2 (member_effect \<alpha> rd) ms gs"
  shows "\<exists>s'. scan rd s (pr_rest ms @ ch_rbrace # rest) = Some (AtEOO, s', ch_rbrace # rest) \<and> \<alpha> s' = fold (\<lambda>g. g) gs (\<alpha> s)"
  using assms
proof (induction ms gs arbitrary: s rule: list_all2_induct)
  case (Cons m ms g gs)
  have "\<exists>s'. scan rd s (pr_rest (m # ms) @ ch_rbrace # rest) = scan rd s' (pr_rest ms @ ch_rbrace # rest) \<and> \<alpha> s' = g (\<alpha> s)"
    by (rule scan_member [of \<alpha> rd "fst m" "snd m"])
      (use Cons in \<open>cases ms; auto simp: pr_rest_def\<close>)+
  then obtain s1 where "scan rd s (pr_rest (m # ms) @ ch_rbrace # rest) = scan rd s1 (pr_rest ms @ ch_rbrace # rest)" "\<alpha> s1 = g (\<alpha> s)"
    by blast
  with Cons.IH [of s1] show ?case by simp
qed (simp add: pr_rest_def scan_end)

lemma scan_object:
  assumes "list_all2 (member_effect \<alpha> rd) ms gs"
  shows "\<exists>s'. scan rd s (body (JObj ms) @ rest) = Some (AtEOO, s', ch_rbrace # rest) \<and> \<alpha> s' = fold (\<lambda>g. g) gs (\<alpha> s)"
proof (cases ms)
  case (Cons m ms')
  then obtain g gs' where gs: "gs = g # gs'" "member_effect \<alpha> rd m g" "list_all2 (member_effect \<alpha> rd) ms' gs'"
    using assms by (auto simp: list_all2_Cons1)
  have "\<exists>s'. scan rd s (body (JObj ms) @ rest) = scan rd s' (pr_rest ms' @ ch_rbrace # rest) \<and> \<alpha> s' = g (\<alpha> s)"
    by (rule scan_member [of \<alpha> rd "fst m" "snd m"])
      (use gs Cons in \<open>cases ms'; auto simp: pr_rest_def sep_Cons comp_def\<close>)+
  then obtain s1 where "scan rd s (body (JObj ms) @ rest) = scan rd s1 (pr_rest ms' @ ch_rbrace # rest)" "\<alpha> s1 = g (\<alpha> s)"
    by blast
  with scan_rest [OF gs(3), of s1] show ?thesis by (simp add: gs(1))
qed (use assms in \<open>simp add: scan_end\<close>)

lemma isnumeric_object: "isnumeric (body (JObj ms) @ rest) = (False, body (JObj ms) @ rest)"
proof -
  have "cur (body (JObj ms) @ rest) = ch_quote \<or> cur (body (JObj ms) @ rest) = ch_rbrace"
    by (cases ms) (auto simp: sep_Cons pr_member_def pr_str_def)
  then show ?thesis by (auto simp: isnumeric_def skip_char_def)
qed

lemma may_stop_end: "may_stop (JObj ms) [ch_rbrace]"
  by (auto intro!: bexI [of _ "length ms"] simp: pr_rest_def)

section \<open>The readers of json.cpp\<close>

named_theorems reads_intros \<open>what the cases of a handler read\<close>

lemma reads_int [reads_intros]:
  "- (2 ^ 63) \<le> n \<Longrightarrow> n < 2 ^ 63 \<Longrightarrow> (\<And>s. \<alpha> (f n s) = g (\<alpha> s)) \<Longrightarrow> reads \<alpha> (rd_int f) (JNum (dec_int n)) g"
  by (rule readsI) (simp add: rd_int_def getint_dec_int [OF delim_not_num])

lemma reads_object [reads_intros]: "wf_json v \<Longrightarrow> (\<And>s. \<alpha> (f (Some (stored v)) s) = g (\<alpha> s)) \<Longrightarrow> reads \<alpha> (rd_object f) v g"
  by (rule readsI) (simp add: rd_object_def storeobject_value delim_not_num)

lemma storebinary_btoa:
  "storebinary_buf n (pr (JStr (btoa d)) @ rest) = (take n d, rest)"
proof -
  have so: "storeobject (pr (JStr (btoa d)) @ rest) = (Some (btoa d), rest)"
    using storeobject_pr_str [OF str_ok_btoa, of d rest] by simp
  have "atob (btoa d @ ch_quote # rest) n = take n d"
    unfolding atob_def using atob_loop_btoa [of "ch_quote # rest" "[]" n d] by (simp add: from64_def)
  then show ?thesis using so by (simp add: storebinary_buf_def skip_char_def pr_str_def Let_def)
qed

lemma reads_binary [reads_intros]: "(\<And>s. \<alpha> (f (take n d) s) = g (\<alpha> s)) \<Longrightarrow> reads \<alpha> (rd_binary n f) (JStr (btoa d)) g"
  by (rule readsI) (simp add: rd_binary_def storebinary_btoa del: pr.simps)

lemma gethandle_btoa:
  assumes "k \<le> 8" "take_bit (8 * k) h = h"
  shows "gethandle k (pr (JStr (btoa (le_bytes k h))) @ rest) = (h, rest)"
proof -
  have "le_word (take 8 (le_bytes k h @ replicate 9 0)) = h"
    using assms by (simp add: le_word_append le_word_le_bytes_take_bit)
  then show ?thesis using assms by (simp add: gethandle_def storebinary_btoa del: pr.simps)
qed

lemma reads_handle [reads_intros]:
  "k \<le> 8 \<Longrightarrow> take_bit (8 * k) h = h \<Longrightarrow> (\<And>s. \<alpha> (f h s) = g (\<alpha> s)) \<Longrightarrow> reads \<alpha> (rd_handle k f) (JStr (btoa (le_bytes k h))) g"
  by (rule readsI) (simp add: rd_handle_def gethandle_btoa del: pr.simps)

lemma reads_value [reads_intros]:
  assumes "str_ok False t" "\<And>s r. \<alpha> (f (t @ ch_quote # r) s) = g (\<alpha> s)"
  shows "reads \<alpha> (rd_value f) (JStr t) g"
  by (rule readsI)
    (use assms(2) storeobject_pr_str [OF assms(1)] in \<open>simp add: rd_value_def getvalue_def pr_str_def\<close>)

text \<open>The name id of a literal name.\<close>

lemma getnameid_at_str:
  assumes "list_all (\<lambda>c. of_char c \<notin> {0, ch_quote} \<and> of_char c < (128 :: byte)) s"
  shows "getnameid_at (str s) = MAKENAMEID s"
proof -
  have sc: "scast c = (ucast c :: nameid)" if "c < 128" for c :: byte
  proof -
    have "sint c = uint c" using that schar_uint [of c] by (simp only: schar_def if_True)
    then show ?thesis by (simp only: scast_eq ucast_eq)
  qed
  have "nameid_loop i (map of_char s) = (fold (\<lambda>c i. push_bit 8 i + ucast (of_char c :: byte)) s i, [])" for i
    using assms
  proof (induction s arbitrary: i)
    case (Cons c s)
    then have "of_char c < (128 :: byte)" "of_char c \<noteq> (0 :: byte)" "of_char c \<noteq> ch_quote" by simp_all
    then show ?case using Cons sc [of "of_char c"] by simp
  qed simp
  then show ?thesis by (simp add: getnameid_at_def MAKENAMEID_def str_def)
qed

section \<open>Arrays of objects\<close>

text \<open>\<open>while (j->enterobject())\<close>: \<open>elem\<close> goes on (\<open>True\<close>) or returns.\<close>

partial_function (option) obj_loop :: "('s \<Rightarrow> bytes \<Rightarrow> (bool \<times> 's \<times> bytes) option) \<Rightarrow> 's \<Rightarrow> bytes \<Rightarrow> (bool \<times> 's \<times> bytes) option" where
  "obj_loop elem s p =
     (let (b, p1) = enterobject p in
      if b then Option.bind (elem s p1) (\<lambda>(go, s1, p2). if go then obj_loop elem s1 p2 else Some (False, s1, p2))
      else Some (True, s, p1))"

text \<open>An array of objects: each is read by the body of the loop.\<close>

lemma obj_loop_elems:
  assumes "\<And>ys x zs s rest. xs = ys @ x # zs \<Longrightarrow> I ys s \<Longrightarrow>
      \<exists>s' q. elem s (body (JObj (f x)) @ rest) = Some (True, s', q) \<and> (q = rest \<or> q = ch_rbrace # rest) \<and> I (ys @ [x]) s'"
    and "xs = ys @ zs" "I ys s"
    and "p = commas (map (\<lambda>x. JObj (f x)) zs) @ ch_rbrack # rest \<or> p = ch_rbrace # commas (map (\<lambda>x. JObj (f x)) zs) @ ch_rbrack # rest \<or>
      (zs \<noteq> [] \<and> p = tl (commas (map (\<lambda>x. JObj (f x)) zs) @ ch_rbrack # rest))"
  shows "\<exists>s'. obj_loop elem s p = Some (True, s', ch_rbrack # rest) \<and> I xs s'"
  using assms(2-)
proof (induction zs arbitrary: ys s p)
  case Nil
  then have "enterobject p = (False, ch_rbrack # rest)" by (auto simp: enterobject_def skip_char_def commas_def)
  then show ?case using Nil.prems by (subst obj_loop.simps) simp
next
  case (Cons z zs)
  define q where "q = commas (map (\<lambda>x. JObj (f x)) zs) @ ch_rbrack # rest"
  have "enterobject p = (True, body (JObj (f z)) @ q)"
    using Cons.prems(3) by (auto simp: enterobject_def skip_char_def commas_def q_def pr_member_def [abs_def] case_prod_beta')
  moreover obtain s1 q1 where s1: "elem s (body (JObj (f z)) @ q) = Some (True, s1, q1)" "q1 = q \<or> q1 = ch_rbrace # q" "I (ys @ [z]) s1"
    using assms(1) [OF Cons.prems(1,2), of q] by blast
  moreover have "\<exists>s'. obj_loop elem s1 q1 = Some (True, s', ch_rbrack # rest) \<and> I xs s'"
    by (rule Cons.IH [OF _ s1(3)]) (use Cons.prems(1) s1(2) in \<open>auto simp: q_def\<close>)
  ultimately show ?case by (subst obj_loop.simps) (simp del: body.simps)
qed

lemma obj_loop_items:
  assumes "\<And>ys x zs s rest. xs = ys @ x # zs \<Longrightarrow> I ys s \<Longrightarrow> \<exists>s'. elem s (body (JObj (f x)) @ rest) = Some (True, s', ch_rbrace # rest) \<and> I (ys @ [x]) s'"
    and "xs = ys @ zs" "I ys s"
    and "p = commas (map (\<lambda>x. JObj (f x)) zs) @ ch_rbrack # rest \<or> p = ch_rbrace # commas (map (\<lambda>x. JObj (f x)) zs) @ ch_rbrack # rest \<or>
      (zs \<noteq> [] \<and> p = tl (commas (map (\<lambda>x. JObj (f x)) zs) @ ch_rbrack # rest))"
  shows "\<exists>s'. obj_loop elem s p = Some (True, s', ch_rbrack # rest) \<and> I xs s'"
  by (rule obj_loop_elems [where I = I and f = f, OF _ assms(2-4)]) (use assms(1) in blast)

text \<open>The text of an array in front of such a loop.\<close>

lemma array_text:
  "sep (map pr vs) @ ch_rbrack # rest = commas vs @ ch_rbrack # rest \<or> sep (map pr vs) @ ch_rbrack # rest = ch_rbrace # commas vs @ ch_rbrack # rest \<or>
    (vs \<noteq> [] \<and> sep (map pr vs) @ ch_rbrack # rest = tl (commas vs @ ch_rbrack # rest))"
  by (cases vs) (simp_all add: commas_def sep_Cons comp_def del: pr.simps)

end
