(* ===== verification/Ordered_Map.thy ===== *)
theory Ordered_Map
  imports Main
begin

text \<open>
  \<open>std::map\<close> as the sources use it: a finite map iterated in key order. It is a list of
  key-value pairs with strictly ascending keys. The locale \<open>std_map\<close> is the contract the
  clients rely on (what \<open>find\<close> returns after \<open>operator[]\<close> and \<open>erase\<close>, which keys an
  iteration visits); the list implementation is its interpretation.
\<close>

type_synonym ('k, 'v) omap = "('k \<times> 'v) list"

definition om_invar :: "('k::linorder, 'v) omap \<Rightarrow> bool" where
  "om_invar m \<longleftrightarrow> sorted_wrt (<) (map fst m)"

fun om_lookup :: "('k::linorder, 'v) omap \<Rightarrow> 'k \<Rightarrow> 'v option" where
  "om_lookup [] k = None"
| "om_lookup ((k', v) # m) k = (if k = k' then Some v else om_lookup m k)"

text \<open>\<open>map[k] = v\<close>.\<close>

fun om_update :: "'k::linorder \<Rightarrow> 'v \<Rightarrow> ('k, 'v) omap \<Rightarrow> ('k, 'v) omap" where
  "om_update k v [] = [(k, v)]"
| "om_update k v ((k', v') # m) =
     (if k < k' then (k, v) # (k', v') # m
      else if k = k' then (k, v) # m
      else (k', v') # om_update k v m)"

text \<open>\<open>map.erase(k)\<close>.\<close>

fun om_delete :: "'k::linorder \<Rightarrow> ('k, 'v) omap \<Rightarrow> ('k, 'v) omap" where
  "om_delete k [] = []"
| "om_delete k ((k', v') # m) = (if k = k' then m else (k', v') # om_delete k m)"

lemma map_of_rev_distinct: "distinct (map fst xs) \<Longrightarrow> map_of (rev xs) = map_of xs"
proof (induction xs)
  case (Cons x xs)
  then have "map_of xs (fst x) = None" by (simp add: map_of_eq_None_iff)
  with Cons show ?case by (auto simp: fun_eq_iff map_add_def split: option.split)
qed simp

section \<open>The contract\<close>

locale std_map =
  fixes lookup :: "'m \<Rightarrow> 'k \<Rightarrow> 'v option"
    and update :: "'k \<Rightarrow> 'v \<Rightarrow> 'm \<Rightarrow> 'm"
    and delete :: "'k \<Rightarrow> 'm \<Rightarrow> 'm"
    and entries :: "'m \<Rightarrow> ('k \<times> 'v) list"
    and invar :: "'m \<Rightarrow> bool"
  assumes lookup_update: "invar m \<Longrightarrow> lookup (update k v m) = (lookup m)(k \<mapsto> v)"
    and lookup_delete: "invar m \<Longrightarrow> lookup (delete k m) = (lookup m)(k := None)"
    and lookup_entries: "invar m \<Longrightarrow> lookup m = map_of (entries m)"
    and invar_update: "invar m \<Longrightarrow> invar (update k v m)"
    and invar_delete: "invar m \<Longrightarrow> invar (delete k m)"
    and entries_inj: "invar m \<Longrightarrow> invar m' \<Longrightarrow> lookup m = lookup m' \<Longrightarrow> m = m'"
begin

lemma invar_fold_update: "invar m \<Longrightarrow> invar (fold (\<lambda>(k, v). update k v) kvs m)"
  by (induction kvs arbitrary: m) (auto simp: invar_update)

lemma lookup_fold_update:
  "invar m \<Longrightarrow> lookup (fold (\<lambda>(k, v). update k v) kvs m) = lookup m ++ map_of (rev kvs)"
proof (induction kvs arbitrary: m)
  case Nil
  then show ?case by simp
next
  case (Cons kv kvs)
  then show ?case
    by (cases kv) (auto simp: invar_update lookup_update fun_eq_iff map_add_def split: option.split)
qed

lemma update_idem: "invar m \<Longrightarrow> lookup m k = Some v \<Longrightarrow> update k v m = m"
  by (rule entries_inj) (auto simp: invar_update lookup_update)

lemma update_delete: "invar m \<Longrightarrow> lookup m k = None \<Longrightarrow> delete k (update k v m) = m"
  by (rule entries_inj) (auto simp: invar_update invar_delete lookup_update lookup_delete)

lemma update_commute:
  "invar m \<Longrightarrow> k \<noteq> k' \<Longrightarrow> update k v (update k' v' m) = update k' v' (update k v m)"
  by (rule entries_inj) (auto simp: invar_update lookup_update)

text \<open>Storing all entries of one map in another that holds none of them.\<close>

lemma rebuild:
  assumes "invar m" "invar m'" "lookup m' = Map.empty" "distinct (map fst (entries m))"
  shows "fold (\<lambda>(k, v). update k v) (entries m) m' = m"
proof (rule entries_inj)
  show "lookup (fold (\<lambda>(k, v). update k v) (entries m) m') = lookup m"
    using assms
    by (simp add: lookup_fold_update map_of_rev_distinct lookup_entries [OF assms(1)])
next
  show "invar (fold (\<lambda>(k, v). update k v) (entries m) m')"
    by (rule invar_fold_update) (rule assms(2))
qed (rule assms(1))

end

section \<open>The list implementation meets it\<close>

lemma om_invar_Cons:
  "om_invar ((k, v) # m) \<longleftrightarrow> om_invar m \<and> (\<forall>k' \<in> fst ` set m. k < k')"
  by (auto simp: om_invar_def)

lemma om_lookup_map_of: "om_lookup m = map_of m"
proof
  fix k
  show "om_lookup m k = map_of m k" by (induction m k rule: om_lookup.induct) auto
qed

lemma keys_om_update: "fst ` set (om_update k v m) = insert k (fst ` set m)"
  by (induction k v m rule: om_update.induct) auto

lemma keys_om_delete: "fst ` set (om_delete k m) \<subseteq> fst ` set m"
  by (induction k m rule: om_delete.induct) auto

lemma om_invar_update: "om_invar m \<Longrightarrow> om_invar (om_update k v m)"
  by (induction k v m rule: om_update.induct) (auto simp: om_invar_Cons keys_om_update)

lemma om_invar_delete: "om_invar m \<Longrightarrow> om_invar (om_delete k m)"
  using keys_om_delete
  by (induction k m rule: om_delete.induct) (fastforce simp: om_invar_Cons)+

lemma map_of_om_update: "map_of (om_update k v m) = (map_of m)(k \<mapsto> v)"
  by (induction k v m rule: om_update.induct) (auto simp: fun_eq_iff)

lemma map_of_om_delete: "om_invar m \<Longrightarrow> map_of (om_delete k m) = (map_of m)(k := None)"
proof (induction k m rule: om_delete.induct)
  case (2 k k' v' m)
  have "map_of m k = None" if "k = k'"
    using 2(2) that by (auto simp: om_invar_Cons map_of_eq_None_iff)
  with 2 show ?case by (auto simp: fun_eq_iff om_invar_Cons)
qed (simp add: fun_eq_iff)

lemma om_invar_distinct: "om_invar m \<Longrightarrow> distinct (map fst m)"
  by (simp add: om_invar_def strict_sorted_iff)

lemma om_invar_eqI: "om_invar m \<Longrightarrow> om_invar m' \<Longrightarrow> map_of m = map_of m' \<Longrightarrow> m = m'"
proof -
  assume inv: "om_invar m" "om_invar m'" and eq: "map_of m = map_of m'"
  have "set m = set m'"
    using eq om_invar_distinct [OF inv(1)] om_invar_distinct [OF inv(2)]
    by (metis map_of_inject_set)
  moreover have "sorted (map fst m)" "sorted (map fst m')"
    using inv by (simp_all add: om_invar_def strict_sorted_iff)
  ultimately show "m = m'"
    using om_invar_distinct [OF inv(1)] om_invar_distinct [OF inv(2)]
    by (intro map_sorted_distinct_set_unique [where f = fst]) (auto simp: distinct_map)
qed

interpretation om: std_map om_lookup om_update om_delete "\<lambda>m. m" om_invar
  by unfold_locales
     (auto simp: om_lookup_map_of map_of_om_update map_of_om_delete om_invar_update
        om_invar_delete intro: om_invar_eqI)

lemma om_rebuild: "om_invar m \<Longrightarrow> fold (\<lambda>(k, v). om_update k v) m [] = m"
  by (rule om.rebuild) (auto simp: om_invar_distinct, simp add: om_invar_def)

end
