(* ===== verification/AttrMap.thy ===== *)
theory AttrMap
  imports Json Ordered_Map
begin

text \<open>
  \<open>src/attrmap.cpp\<close>: the attribute map of nodes and users, its binary serialization and its
  JSON form. \<open>attr_map\<close> is \<open>map<nameid, string>\<close>; the binary reader has no end pointer, so a
  read behind the buffer is the error value \<open>None\<close> here.
\<close>

type_synonym attr_map = "(nameid, bytes) omap"

definition storagesize :: "int \<Rightarrow> attr_map \<Rightarrow> u32" where
  "storagesize perrecord m = fold (\<lambda>(k, v) t. t + (of_int perrecord + of_nat (length v))) m 0"

text \<open>The bytes of the name from the most significant one, zero bytes left out.\<close>

definition nameid2string :: "nameid \<Rightarrow> bytes" where
  "nameid2string i =
     concat (map (\<lambda>sh. let c = ucast (drop_bit sh i AND 0xff) in if c \<noteq> 0 then [c] else [])
       [56, 48, 40, 32, 24, 16, 8, 0])"

text \<open>\<open>l\<close> is an \<open>unsigned char\<close>, \<open>ll\<close> an \<open>unsigned short\<close>.\<close>

definition serialize_attr :: "nameid \<times> bytes \<Rightarrow> bytes" where
  "serialize_attr kv =
     (let buf = nameid2string (fst kv); l = of_nat (length buf) :: byte in
      if l \<noteq> 0 then
        (let ll = of_nat (length (snd kv)) :: u16 in
         l # take (unat l) buf @ le_bytes 2 ll @ take (unat ll) (snd kv))
      else [])"

definition attrs_serialize :: "attr_map \<Rightarrow> bytes" where
  "attrs_serialize m = concat (map serialize_attr m) @ [0]"

text \<open>\<open>id = (id << 8) + (unsigned char)*ptr++\<close>.\<close>

definition nameid_of :: "bytes \<Rightarrow> nameid" where
  "nameid_of s = fold (\<lambda>c i. push_bit 8 i + ucast c) s 0"

function attrs_unserialize :: "bytes \<Rightarrow> attr_map \<Rightarrow> (attr_map \<times> bytes) option" where
  "attrs_unserialize ptr m =
     (case ptr of
        [] \<Rightarrow> None
      | l # p1 \<Rightarrow>
          if l = 0 then Some (m, p1)
          else if length p1 < unat l + 2 then None
          else (let i = nameid_of (take (unat l) p1);
                    ll = le_word (take 2 (drop (unat l) p1)) :: u16;
                    p2 = drop (unat l + 2) p1 in
                if length p2 < unat ll then None
                else attrs_unserialize (drop (unat ll) p2) (om_update i (take (unat ll) p2) m)))"
  by pat_completeness auto
termination
  by (relation "measure (\<lambda>(ptr, m). length ptr)") auto

declare attrs_unserialize.simps [simp del]

section \<open>JSON form\<close>

text \<open>\<open>sprintf(buf, "%02x", (unsigned char)*ptr)\<close>.\<close>

definition hexdigit :: "byte \<Rightarrow> byte" where
  "hexdigit n = (if n < 10 then n + 48 else n + 87)"

definition hex02 :: "byte \<Rightarrow> bytes" where
  "hex02 c = [hexdigit (drop_bit 4 c), hexdigit (c AND 15)]"

definition needs_escape :: "byte \<Rightarrow> bool" where
  "needs_escape c \<longleftrightarrow> (0 \<le> schar c \<and> schar c < 32) \<or> c = ch_quote \<or> c = ch_bslash"

definition escape_tail :: "byte \<Rightarrow> bytes" where
  "escape_tail c =
     (if c = ch_quote then [ch_quote]
      else if c = ch_bslash then [ch_bslash]
      else if c = 10 then [110]
      else if c = 13 then [114]
      else if c = 8 then [98]
      else if c = 12 then [102]
      else if c = 9 then [116]
      else str ''u00'' @ hex02 c)"

text \<open>The scan over the value: \<open>run\<close> is the text between \<open>pptr\<close> and \<open>ptr\<close>.\<close>

fun escape_loop :: "bytes \<Rightarrow> bytes \<Rightarrow> bytes" where
  "escape_loop run [] = run"
| "escape_loop run (c # cs) =
     (if needs_escape c then run @ [ch_bslash] @ escape_tail c @ escape_loop [] cs
      else escape_loop (run @ [c]) cs)"

fun getjson_loop :: "bytes \<Rightarrow> attr_map \<Rightarrow> bytes" where
  "getjson_loop s [] = s"
| "getjson_loop s ((i, v) # m) =
     (let s1 = s @ (if s \<noteq> [] then [ch_comma, ch_quote] else [ch_quote]) in
      if i \<noteq> 0 then
        getjson_loop (s1 @ nameid2string i @ [ch_quote, ch_colon, ch_quote] @
          escape_loop [] v @ [ch_quote]) m
      else getjson_loop s1 m)"

definition getjson :: "attr_map \<Rightarrow> bytes" where
  "getjson m = getjson_loop [] m"

section \<open>Names\<close>

lemma le_bytes_8: "le_bytes 8 i = map (\<lambda>sh. ucast (drop_bit sh i)) [0, 8, 16, 24, 32, 40, 48, 56]"
proof -
  have e: "(8 :: nat) = Suc (Suc (Suc (Suc (Suc (Suc (Suc (Suc 0)))))))" by simp
  show ?thesis by (subst e) (simp only: le_bytes.simps drop_bit_drop_bit list.map, simp)
qed

lemma nameid2string_le_bytes: "nameid2string i = filter (\<lambda>c. c \<noteq> 0) (rev (le_bytes 8 i))"
proof -
  have "ucast (w AND 255) = (ucast w :: byte)" for w :: u64
    by (rule byte_eqI) (auto simp: bit_simps)
  then show ?thesis
    by (simp only: nameid2string_def le_bytes_8 list.map rev.simps append.simps concat.simps
        filter.simps Let_def if_distrib [of "\<lambda>xs. xs @ _"] append_Nil2)
qed

lemma le_bytes_0 [simp]: "le_bytes n 0 = replicate n 0"
  by (induction n) auto

lemma le_bytes_take_bit: "8 * n \<le> m \<Longrightarrow> le_bytes n (take_bit m w) = le_bytes n w"
proof (induction n arbitrary: m w)
  case (Suc n)
  have "ucast (take_bit m w) = (ucast w :: byte)"
    using Suc.prems by (intro bit_word_eqI) (auto simp: bit_simps)
  moreover have "drop_bit 8 (take_bit m w) = take_bit (m - 8) (drop_bit 8 w)"
    using Suc.prems by (simp add: drop_bit_take_bit)
  ultimately show ?case
    using Suc.prems Suc.IH [of "m - 8"] by simp
qed simp

lemma push_8_add: "push_bit 8 w + ucast (c :: byte) = (push_bit 8 w OR ucast c :: u64)"
  by (subst disjunctive_add) (auto simp: bit_simps dest: bit_imp_le_length)

lemma le_bytes_push_8:
  "n \<le> 7 \<Longrightarrow> le_bytes (Suc n) (push_bit 8 w + ucast (c :: byte) :: u64) = c # le_bytes n w"
proof -
  assume n: "n \<le> 7"
  have "ucast (push_bit 8 w + ucast c :: u64) = c"
    unfolding push_8_add by (rule bit_word_eqI) (auto simp: bit_simps)
  moreover have "drop_bit 8 (push_bit 8 w + ucast c :: u64) = take_bit 56 w"
    unfolding push_8_add
    by (rule bit_word_eqI) (auto simp: bit_simps dest: bit_imp_le_length)
  ultimately show ?thesis using n by (simp add: le_bytes_take_bit)
qed

lemma nameid_of_simps [simp]:
  "nameid_of [] = 0" "nameid_of (s @ [c]) = push_bit 8 (nameid_of s) + ucast c"
  by (simp_all add: nameid_of_def)

lemma le_bytes_nameid_of:
  "length s \<le> n \<Longrightarrow> n \<le> 8 \<Longrightarrow> le_bytes n (nameid_of s) = rev s @ replicate (n - length s) 0"
proof (induction s arbitrary: n rule: rev_induct)
  case (snoc c s)
  then obtain m where "n = Suc m" "m \<le> 7" by (cases n) auto
  with snoc show ?case by (simp del: le_bytes.simps add: le_bytes_push_8)
qed simp

text \<open>A name of up to eight nonzero characters survives the trip through \<open>nameid\<close>.\<close>

lemma nameid2string_nameid_of: "length s \<le> 8 \<Longrightarrow> 0 \<notin> set s \<Longrightarrow> nameid2string (nameid_of s) = s"
proof -
  assume s: "length s \<le> 8" "0 \<notin> set s"
  have "filter (\<lambda>c. c \<noteq> 0) s = s" using s(2) by (intro filter_True) auto
  with s show ?thesis by (simp add: nameid2string_le_bytes le_bytes_nameid_of)
qed

definition name_ok :: "nameid \<Rightarrow> bool" where
  "name_ok i \<longleftrightarrow> nameid2string i \<noteq> [] \<and> nameid_of (nameid2string i) = i"

lemma name_ok_nameid_of: "s \<noteq> [] \<Longrightarrow> length s \<le> 8 \<Longrightarrow> 0 \<notin> set s \<Longrightarrow> name_ok (nameid_of s)"
  by (simp add: name_ok_def nameid2string_nameid_of)

lemma length_nameid2string: "length (nameid2string i) \<le> 8"
  using length_filter_le [of "\<lambda>c. c \<noteq> 0" "rev (le_bytes 8 i)"] by (simp add: nameid2string_le_bytes)

lemma nameid2string_nonzero: "0 \<notin> set (nameid2string i)"
  by (simp add: nameid2string_le_bytes)

section \<open>Binary round trip\<close>

definition attr_ok :: "nameid \<times> bytes \<Rightarrow> bool" where
  "attr_ok kv \<longleftrightarrow> name_ok (fst kv) \<and> length (snd kv) < 65536"

lemma attrs_unserialize_Nil: "attrs_unserialize (0 # rest) m = Some (m, rest)"
  by (simp add: attrs_unserialize.simps)

lemma attrs_unserialize_attr:
  assumes "attr_ok kv"
  shows "attrs_unserialize (serialize_attr kv @ rest) m =
         attrs_unserialize rest (om_update (fst kv) (snd kv) m)"
proof -
  obtain i v where kv: "kv = (i, v)" by (cases kv)
  define n where "n = nameid2string i"
  have n: "n \<noteq> []" "length n \<le> 8" "nameid_of n = i"
    using assms length_nameid2string [of i] by (auto simp: kv n_def attr_ok_def name_ok_def)
  have l: "unat (of_nat (length n) :: byte) = length n" using n by (simp add: unat_of_nat)
  have l0: "(of_nat (length n) :: byte) \<noteq> 0"
    using l n by (metis length_0_conv unat_0)
  have ll: "unat (of_nat (length v) :: u16) = length v"
    using assms by (simp add: kv attr_ok_def unat_of_nat)
  have "(le_word (le_bytes 2 (of_nat (length v) :: u16)) :: u16) = of_nat (length v)"
    by (rule le_word_le_bytes) simp
  then show ?thesis
    using n l0 by (subst attrs_unserialize.simps)
      (simp add: kv serialize_attr_def Let_def l ll flip: n_def)
qed

lemma attrs_unserialize_attrs:
  "list_all attr_ok kvs \<Longrightarrow>
   attrs_unserialize (concat (map serialize_attr kvs) @ rest) m =
   attrs_unserialize rest (fold (\<lambda>(k, v). om_update k v) kvs m)"
  by (induction kvs arbitrary: m) (auto simp: attrs_unserialize_attr split: prod.split)

lemma attrs_roundtrip_into:
  "list_all attr_ok kvs \<Longrightarrow>
   attrs_unserialize (attrs_serialize kvs @ rest) m = Some (fold (\<lambda>(k, v). om_update k v) kvs m, rest)"
  by (simp add: attrs_serialize_def attrs_unserialize_attrs attrs_unserialize_Nil)

lemma attrs_roundtrip:
  "om_invar m \<Longrightarrow> list_all attr_ok m \<Longrightarrow>
   attrs_unserialize (attrs_serialize m @ rest) [] = Some (m, rest)"
  by (simp add: attrs_roundtrip_into om_rebuild)

section \<open>Escaping\<close>

definition escape1 :: "byte \<Rightarrow> bytes" where
  "escape1 c = (if needs_escape c then ch_bslash # escape_tail c else [c])"

lemma escape_loop_eq: "escape_loop run v = run @ concat (map escape1 v)"
  by (induction run v rule: escape_loop.induct) (auto simp: escape1_def)

lemma needs_escape_iff: "needs_escape c \<longleftrightarrow> c < 32 \<or> c = ch_quote \<or> c = ch_bslash"
proof -
  show ?thesis using byte_less [of c] by (auto simp: needs_escape_def schar_uint word_less_def)
qed

lemma str_u00: "str ''u00'' = [117, 48, 48]"
  by (simp add: str_def)

lemma hexval_hexdigit: "n < 16 \<Longrightarrow> of_int (hexval (hexdigit n)) = n"
proof -
  assume n: "n < 16"
  then have "hexval (hexdigit n) = uint n"
    by (auto simp: hexval_def hexdigit_def schar_uint word_less_def uint_word_ariths)
  then show ?thesis by simp
qed

lemma hexdigit_plain: "n < 16 \<Longrightarrow> hexdigit n \<noteq> 0 \<and> hexdigit n \<noteq> ch_quote \<and> hexdigit n \<noteq> ch_bslash"
  by (auto simp: hexdigit_def word_less_nat_alt word_unat_eq_iff unat_word_ariths)

lemma drop_bit_4_less: "drop_bit 4 c < (16 :: byte)"
proof -
  have "unat (drop_bit 4 c) = unat c div 16"
    by (subst unat_drop_bit_eq) (simp add: drop_bit_eq_div)
  moreover note byte_less(2) [of c]
  ultimately show ?thesis by (simp add: word_less_nat_alt)
qed

lemma and_15_less: "c AND 15 < (16 :: byte)"
proof -
  have "unat (c AND mask 4) = unat c mod 16" by (simp add: unat_and_mask)
  then show ?thesis by (simp add: mask_numeral word_less_nat_alt)
qed

lemma nibbles: "push_bit 4 (drop_bit 4 c) OR (c AND 15) = (c :: byte)"
  by (rule byte_eqI) (auto simp: bit_simps)

lemma unescape_plain: "c \<noteq> ch_bslash \<Longrightarrow> unescape (c # s) = c # unescape s"
  by (subst unescape.simps) (simp add: unescape.simps [of "[]"])

lemma unescape_u: "unescape (ch_bslash # 117 # a # b # x # y # s) =
    (push_bit 4 (of_int (hexval x)) OR of_int (hexval y)) # unescape s"
  by (subst unescape.simps) (simp add: at_def)

lemma unescape_char: "d \<noteq> 117 \<Longrightarrow> unescape (ch_bslash # d # s) =
    (if d = 110 then 10 else if d = 114 then 13 else if d = 98 then 8 else if d = 102 then 12
     else if d = 116 then 9 else d) # unescape s"
  by (subst unescape.simps) (simp add: Let_def)

lemma unescape_escape1: "unescape (escape1 c @ s) = c # unescape s"
proof (cases "needs_escape c")
  case True
  have nib: "push_bit 4 (of_int (hexval (hexdigit (drop_bit 4 c)))) OR
      of_int (hexval (hexdigit (c AND 15))) = c"
    by (simp only: hexval_hexdigit drop_bit_4_less and_15_less nibbles)
  show ?thesis
    using True nib
    by (simp add: escape1_def escape_tail_def str_u00 hex02_def unescape_char unescape_u)
next
  case False
  then show ?thesis
    by (simp add: escape1_def unescape_plain needs_escape_iff)
qed

text \<open>\<open>JSON::unescape\<close> undoes the escaping of \<open>getjson\<close>.\<close>

lemma unescape_escape: "unescape (escape_loop [] v) = v"
proof -
  have "unescape (concat (map escape1 v)) = v"
  proof (induction v)
    case Nil
    then show ?case by (simp add: unescape.simps)
  qed (simp add: unescape_escape1)
  then show ?thesis by (simp add: escape_loop_eq)
qed

lemma so_string_escape1: "so_string False (escape1 c @ s) = so_string False s"
proof -
  note h = hexdigit_plain [OF drop_bit_4_less, of c] hexdigit_plain [OF and_15_less, of c]
  show ?thesis
    by (use h in \<open>auto simp: escape1_def escape_tail_def str_u00 hex02_def needs_escape_iff\<close>)
qed

text \<open>The parser sees an escaped value as one string and stores it as it is.\<close>

lemma so_string_escape: "so_string False (escape_loop [] v @ ch_quote # rest) = Some (ch_quote # rest)"
proof -
  have "so_string False (concat (map escape1 v) @ ch_quote # rest) = Some (ch_quote # rest)"
    by (induction v) (simp_all add: so_string_escape1)
  then show ?thesis by (simp add: escape_loop_eq)
qed

lemma storeobject_string:
  assumes "so_string False (v @ ch_quote # rest) = Some (ch_quote # rest)"
  shows "storeobject (ch_quote # v @ ch_quote # rest) = (Some v, rest)"
    and "storeobject (ch_comma # ch_quote # v @ ch_quote # rest) = (Some v, rest)"
  using assms
  by (simp_all add: storeobject_def Let_def skip_char_def schar_uint so_loop.simps so_step_def)

end
