(* ===== verification/Serialize64.thy ===== *)
theory Serialize64
  imports Mega_Prelude
begin

text \<open>
  \<open>src/serialize64.cpp\<close>: variable-length integers, a count byte followed by that many
  little-endian digits.
\<close>

text \<open>The \<open>while (v)\<close> loop: the digits stored at \<open>b[1]\<close>, \<open>b[2]\<close>, \<dots>\<close>

function serialize_digits :: "u64 \<Rightarrow> bytes" where
  "serialize_digits v = (if v = 0 then [] else ucast v # serialize_digits (drop_bit 8 v))"
  by pat_completeness auto
termination
  by (relation "measure unat") (auto simp: unat_drop_bit_8 unat_gt_0)

definition serialize64 :: "u64 \<Rightarrow> bytes" where
  "serialize64 v = (let ds = serialize_digits v in of_nat (length ds) # ds)"

text \<open>The \<open>while (p)\<close> loop of \<open>unserialize\<close>, from the last digit to the first.\<close>

fun unserialize_digits :: "bytes \<Rightarrow> nat \<Rightarrow> u64 \<Rightarrow> u64" where
  "unserialize_digits b 0 v = v"
| "unserialize_digits b (Suc p) v = unserialize_digits b p (push_bit 8 v + ucast (at b (Suc p)))"

text \<open>\<open>unserialize(b, blen, &v)\<close>: the return value and the final \<open>*v\<close> (untouched on -1).\<close>

definition unserialize64 :: "bytes \<Rightarrow> int \<Rightarrow> u64 \<Rightarrow> int \<times> u64" where
  "unserialize64 b blen v =
     (let p = unat (at b 0) in
      if p > 8 \<or> int p \<ge> blen then (-1, v)
      else (int p + 1, unserialize_digits b p 0))"

declare serialize_digits.simps [simp del]

section \<open>Lemmas\<close>

lemma serialize_digits_0 [simp]: "serialize_digits 0 = []"
  by (simp add: serialize_digits.simps)

lemma serialize_digits_le_bytes:
  "\<exists>n. serialize_digits v = le_bytes n v \<and> take_bit (8 * n) v = v"
proof (induction v rule: serialize_digits.induct)
  case (1 v)
  show ?case
  proof (cases "v = 0")
    case True
    then show ?thesis by (intro exI [of _ 0]) simp
  next
    case False
    then obtain n where n: "serialize_digits (drop_bit 8 v) = le_bytes n (drop_bit 8 v)"
      "take_bit (8 * n) (drop_bit 8 v) = drop_bit 8 v"
      using 1 by blast
    have "take_bit (8 * Suc n) v = v"
    proof (rule bit_word_eqI)
      fix k
      have "bit (take_bit (8 * n) (drop_bit 8 v)) (k - 8) = bit (drop_bit 8 v) (k - 8)"
        using n(2) by simp
      then show "bit (take_bit (8 * Suc n) v) k = bit v k"
        by (cases "k < 8") (auto simp: bit_simps)
    qed
    with False n(1) show ?thesis
      by (intro exI [of _ "Suc n"]) (simp add: serialize_digits.simps [of v])
  qed
qed

lemma le_word_serialize_digits: "le_word (serialize_digits v) = v"
proof -
  obtain n where "serialize_digits v = le_bytes n v" "take_bit (8 * n) v = v"
    using serialize_digits_le_bytes by blast
  then show ?thesis by (simp add: le_word_le_bytes_take_bit)
qed

text \<open>Only as many digits as the value needs.\<close>

lemma length_serialize_digits: "unat v < 256 ^ n \<Longrightarrow> length (serialize_digits v) \<le> n"
proof (induction n arbitrary: v)
  case 0
  then show ?case by (simp add: unat_eq_zero)
next
  case (Suc n)
  then have "unat (drop_bit 8 v) < 256 ^ n" by (auto simp: unat_drop_bit_8)
  then have "length (serialize_digits (drop_bit 8 v)) \<le> n" by (rule Suc.IH)
  then show ?case by (simp add: serialize_digits.simps [of v])
qed

lemma length_serialize_digits_8: "length (serialize_digits v) \<le> 8"
proof -
  have "unat v < 2 ^ 64" using unsigned_less [where ?'a = nat, of v] by simp
  then show ?thesis by (intro length_serialize_digits) simp
qed

lemma unserialize_digits_append:
  "unserialize_digits (h # ds @ rest) (length ds) v = v * 256 ^ length ds + le_word ds"
proof (induction ds arbitrary: rest v rule: rev_induct)
  case Nil
  then show ?case by simp
next
  case (snoc d ds)
  have d: "at (ds @ d # rest) (length ds) = d" by (simp add: at_def nth_append)
  have "unserialize_digits (h # (ds @ [d]) @ rest) (length (ds @ [d])) v =
        (push_bit 8 v + ucast d) * 256 ^ length ds + le_word ds"
    using snoc [of "d # rest"] by (simp add: d)
  also have "\<dots> = v * 256 ^ length (ds @ [d]) + le_word (ds @ [d])"
    by (simp add: le_word_append push_bit_eq_mult algebra_simps)
  finally show ?case .
qed

lemma at_serialize64: "unat (at (serialize64 v @ rest) 0) = length (serialize_digits v)"
  using length_serialize_digits_8 [of v]
  by (simp add: serialize64_def Let_def unat_of_nat)

lemma length_serialize64: "length (serialize64 v) = Suc (length (serialize_digits v))"
  by (simp add: serialize64_def Let_def)

lemma length_serialize64_le: "length (serialize64 v) \<le> 9"
  using length_serialize_digits_8 [of v] by (simp add: length_serialize64)

text \<open>What was written is read back, from a buffer that may go on behind it.\<close>

lemma unserialize64_serialize64:
  assumes "int (length (serialize64 v)) \<le> blen"
  shows "unserialize64 (serialize64 v @ rest) blen v0 = (int (length (serialize64 v)), v)"
  using assms length_serialize_digits_8 [of v] at_serialize64 [of v rest]
    unserialize_digits_append [of "of_nat (length (serialize_digits v))" "serialize_digits v" rest 0]
  by (simp add: unserialize64_def length_serialize64 le_word_serialize_digits)
     (simp add: serialize64_def Let_def)

lemma serialize64_nonempty [simp]: "serialize64 v \<noteq> []"
  by (simp add: serialize64_def Let_def)

lemma unserialize64_nonzero: "fst (unserialize64 b blen v) \<noteq> 0"
  by (auto simp: unserialize64_def Let_def add_nonneg_eq_0_iff)

end
