(* ===== verification/Codec.thy ===== *)
theory Codec
  imports AttrMap Serialize64
begin

text \<open>
  The contract of the record serializers: \<open>enc\<close> appends a self-delimiting image, \<open>dec\<close> reads it
  from the front of the input and returns what it shows of the value (\<open>view\<close>) and the
  remaining input. What follows for sequences of records is proved once, in the locale.
\<close>

fun dec_n :: "(bytes \<Rightarrow> ('b \<times> bytes) option) \<Rightarrow> nat \<Rightarrow> bytes \<Rightarrow> ('b list \<times> bytes) option" where
  "dec_n dec 0 s = Some ([], s)"
| "dec_n dec (Suc n) s =
     (case dec s of
        None \<Rightarrow> None
      | Some (x, s') \<Rightarrow> (case dec_n dec n s' of None \<Rightarrow> None | Some (xs, r) \<Rightarrow> Some (x # xs, r)))"

locale codec =
  fixes enc :: "'a \<Rightarrow> bytes"
    and dec :: "bytes \<Rightarrow> ('b \<times> bytes) option"
    and view :: "'a \<Rightarrow> 'b"
    and ok :: "'a \<Rightarrow> bool"
  assumes dec_enc: "ok x \<Longrightarrow> dec (enc x @ r) = Some (view x, r)"
begin

text \<open>No image is the start of another one: the reader cannot be misled.\<close>

lemma prefix_free: "ok x \<Longrightarrow> ok y \<Longrightarrow> enc x @ r = enc y @ s \<Longrightarrow> view x = view y \<and> r = s"
  using dec_enc [of x r] dec_enc [of y s] by simp

lemma dec_n_enc: "list_all ok xs \<Longrightarrow> dec_n dec (length xs) (concat (map enc xs) @ r) = Some (map view xs, r)"
  by (induction xs) (simp_all add: dec_enc)

lemma enc_concat_inj:
  "list_all ok xs \<Longrightarrow> list_all ok ys \<Longrightarrow> length xs = length ys \<Longrightarrow>
   concat (map enc xs) = concat (map enc ys) \<Longrightarrow> map view xs = map view ys"
  using dec_n_enc [of xs "[]"] dec_n_enc [of ys "[]"] by simp

end

section \<open>Words, variable-length integers, attribute maps\<close>

text \<open>\<open>MemAccess::get<uint64_t>\<close> at the front of the input.\<close>

definition get_u64 :: "bytes \<Rightarrow> (u64 \<times> bytes) option" where
  "get_u64 s = (if length s < 8 then None else Some (le_word (take 8 s), drop 8 s))"

definition get_serialized64 :: "bytes \<Rightarrow> (u64 \<times> bytes) option" where
  "get_serialized64 s =
     (case unserialize64 s (int (length s)) 0 of
        (n, v) \<Rightarrow> if n < 0 then None else Some (v, drop (nat n) s))"

interpretation u64c: codec "le_bytes 8" get_u64 "\<lambda>w. w" "\<lambda>w. True"
  by unfold_locales (simp add: get_u64_def le_word_le_bytes)

interpretation s64c: codec serialize64 get_serialized64 "\<lambda>w. w" "\<lambda>w. True"
  by unfold_locales (simp add: get_serialized64_def unserialize64_serialize64)

interpretation attrc: codec attrs_serialize "\<lambda>s. attrs_unserialize s []" "\<lambda>m. m" "\<lambda>m. om_invar m \<and> list_all attr_ok m"
  by unfold_locales (simp add: attrs_roundtrip)

end
