(* ===== verification/Share.thy ===== *)
theory Share
  imports Codec
begin

text \<open>
  \<open>src/share.cpp\<close>: share credentials and their serialization inside a node record. A
  \<open>User*\<close> is the user's handle (\<open>None\<close>: NULL). Enumerations are their integer values.
\<close>

record share =
  sh_access :: int
  sh_user :: "handle option"
  sh_ts :: int

record newshare =
  ns_h :: handle
  ns_outgoing :: int
  ns_peer :: handle
  ns_access :: int
  ns_ts :: int
  ns_key :: "bytes option"
  ns_auth :: "bytes option"

definition Share :: "handle option \<Rightarrow> int \<Rightarrow> int \<Rightarrow> share" where
  "Share u a t = \<lparr>sh_access = a, sh_user = u, sh_ts = t\<rparr>"

definition share_update :: "int \<Rightarrow> int \<Rightarrow> share \<Rightarrow> share" where
  "share_update a t sh = sh\<lparr>sh_access := a, sh_ts := t\<rparr>"

definition NewShare :: "handle \<Rightarrow> int \<Rightarrow> handle \<Rightarrow> int \<Rightarrow> int \<Rightarrow> bytes option \<Rightarrow> bytes option \<Rightarrow> newshare" where
  "NewShare ch coutgoing cpeer caccess cts ckey cauth =
     \<lparr>ns_h = ch, ns_outgoing = coutgoing, ns_peer = cpeer, ns_access = caccess, ns_ts = cts,
      ns_key = map_option (take 16) ckey,
      ns_auth = (if coutgoing > 0 then map_option (take 16) cauth else None)\<rparr>"

definition share_serialize :: "share \<Rightarrow> bytes" where
  "share_serialize sh =
     (let uh = (case sh_user sh of Some h \<Rightarrow> h | None \<Rightarrow> 0) in
      le_bytes 8 uh @ le_bytes 8 (word_of_int (sh_ts sh) :: u64) @ [word_of_int (sh_access sh)] @ [0])"

text \<open>The new share that is queued at the client, and the input behind it.\<close>

definition share_unserialize :: "int \<Rightarrow> handle \<Rightarrow> bytes option \<Rightarrow> bytes \<Rightarrow> (newshare \<times> bytes) option" where
  "share_unserialize direction h key ptr =
     (if length ptr < 18 then None
      else Some (NewShare h direction (le_word (take 8 ptr)) (schar (ptr ! 16))
                   (sint (le_word (take 8 (drop 8 ptr)) :: u64)) key None, drop 18 ptr))"

definition share_ok :: "share \<Rightarrow> bool" where
  "share_ok sh \<longleftrightarrow> -128 \<le> sh_access sh \<and> sh_access sh < 128 \<and> - (2 ^ 63) \<le> sh_ts sh \<and> sh_ts sh < 2 ^ 63"

definition share_view :: "int \<Rightarrow> handle \<Rightarrow> bytes option \<Rightarrow> share \<Rightarrow> newshare" where
  "share_view direction h key sh =
     NewShare h direction (case sh_user sh of Some u \<Rightarrow> u | None \<Rightarrow> 0) (sh_access sh) (sh_ts sh) key None"

lemma length_share_serialize [simp, codec_simps]: "length (share_serialize sh) = 18"
  by (simp add: share_serialize_def Let_def)

lemma share_roundtrip:
  assumes "share_ok sh"
  shows "share_unserialize d h key (share_serialize sh @ r) = Some (share_view d h key sh, r)"
proof -
  have "sint (word_of_int (sh_ts sh) :: u64) = sh_ts sh" "schar (word_of_int (sh_access sh)) = sh_access sh"
    using assms by (simp_all add: share_ok_def schar_def signed_of_int signed_take_bit_int_eq_self_iff)
  then show ?thesis
    by (simp add: share_unserialize_def share_serialize_def share_view_def Let_def le_word_le_bytes nth_append)
qed

interpretation sharec: codec share_serialize "share_unserialize d h key" "share_view d h key" share_ok for d h key
  by unfold_locales (rule share_roundtrip)

end
