(* ===== verification/Symm_Cipher.thy ===== *)
theory Symm_Cipher
  imports Mega_Prelude
begin

text \<open>
  The symmetric half of \<open>src/crypto/cryptopp.cpp\<close> (\<open>SymmCipher\<close>): key set-up, ECB and CBC,
  the block helpers and the CTR mode with its chunk MAC. AES and its ECB and CBC modes are
  Crypto++; they are the functions of a record \<open>aes\<close> that every operation takes, and
  \<open>aes_ok\<close> is what the code relies on: a mode keeps the length and its two directions are
  inverse. CTR mode and the MAC are written in the source and are modelled.
\<close>

record aes =
  ecbE :: "bytes \<Rightarrow> bytes \<Rightarrow> bytes"
  ecbD :: "bytes \<Rightarrow> bytes \<Rightarrow> bytes"
  cbcE :: "bytes \<Rightarrow> bytes \<Rightarrow> bytes"
  cbcD :: "bytes \<Rightarrow> bytes \<Rightarrow> bytes"

definition aes_ok :: "aes \<Rightarrow> bool" where
  "aes_ok L \<longleftrightarrow>
     (\<forall>k d. 16 dvd length d \<longrightarrow>
        length (ecbE L k d) = length d \<and> length (ecbD L k d) = length d \<and>
        length (cbcE L k d) = length d \<and> length (cbcD L k d) = length d \<and>
        ecbD L k (ecbE L k d) = d \<and> ecbE L k (ecbD L k d) = d \<and>
        cbcD L k (cbcE L k d) = d \<and> cbcE L k (cbcD L k d) = d)"

section \<open>SymmCipher\<close>

record symm =
  sk_key :: bytes
  sk_valid :: bool

text \<open>\<open>BLOCKSIZE\<close> and \<open>KEYLENGTH\<close> are 16. The block is read and written as two \<open>long\<close>s.\<close>

definition xorblock :: "bytes \<Rightarrow> bytes \<Rightarrow> bytes" where
  "xorblock src dst =
     le_bytes 8 ((le_word (take 8 dst) :: u64) XOR le_word (take 8 src)) @
     le_bytes 8 ((le_word (take 8 (drop 8 dst)) :: u64) XOR le_word (take 8 (drop 8 src))) @
     drop 16 dst"

text \<open>\<open>while (len--) dst[len] ^= src[len]\<close>.\<close>

fun xorblock_len :: "bytes \<Rightarrow> bytes \<Rightarrow> nat \<Rightarrow> bytes" where
  "xorblock_len src dst 0 = dst"
| "xorblock_len src dst (Suc n) = xorblock_len src (dst[n := dst ! n XOR src ! n]) n"

definition symm_new :: symm where
  "symm_new = \<lparr>sk_key = replicate 16 0, sk_valid = False\<rparr>"

definition symm_setkey :: "bytes \<Rightarrow> int \<Rightarrow> symm \<Rightarrow> symm" where
  "symm_setkey newkey type c =
     (let key = take 16 newkey;
          key' = (if type = 0 then xorblock (drop 16 newkey) key else key)
      in c\<lparr>sk_key := key', sk_valid := True\<rparr>)"

definition cbc_encrypt :: "aes \<Rightarrow> symm \<Rightarrow> bytes \<Rightarrow> bytes" where
  "cbc_encrypt L c d = cbcE L (sk_key c) d"

definition cbc_decrypt :: "aes \<Rightarrow> symm \<Rightarrow> bytes \<Rightarrow> bytes" where
  "cbc_decrypt L c d = cbcD L (sk_key c) d"

definition ecb_encrypt :: "aes \<Rightarrow> symm \<Rightarrow> bytes \<Rightarrow> bytes" where
  "ecb_encrypt L c d = ecbE L (sk_key c) d"

definition ecb_decrypt :: "aes \<Rightarrow> symm \<Rightarrow> bytes \<Rightarrow> bytes" where
  "ecb_decrypt L c d = ecbD L (sk_key c) d"

text \<open>The big-endian image of the value.\<close>

definition setint64 :: "u64 \<Rightarrow> bytes" where
  "setint64 v = rev (le_bytes 8 v)"

fun incblock :: "nat \<Rightarrow> bytes \<Rightarrow> bytes" where
  "incblock 0 dst = dst"
| "incblock (Suc n) dst =
     (let dst' = dst[n := dst ! n + 1] in if dst' ! n \<noteq> 0 then dst' else incblock n dst')"

text \<open>
  The loop of \<open>ctr_crypt\<close> over \<open>(int)len\<close>: it returns the buffer from the current block on and
  the MAC. \<open>data\<close> is padded to full blocks.
\<close>

function ctr_loop :: "aes \<Rightarrow> symm \<Rightarrow> bool \<Rightarrow> int \<Rightarrow> bytes \<Rightarrow> bytes \<Rightarrow> bytes \<Rightarrow> bytes \<times> bytes" where
  "ctr_loop L c enc len data ctr mac =
     (if len > 0 then
        (let blk = take 16 data;
             tmp = ecb_encrypt L c ctr;
             out = xorblock tmp blk;
             mac' = (if enc then ecb_encrypt L c (xorblock blk mac)
                     else if len \<ge> 16 then ecb_encrypt L c (xorblock out mac)
                     else ecb_encrypt L c (xorblock_len out mac (nat len)));
             (rest, mac'') = ctr_loop L c enc (len - 16) (drop 16 data) (incblock 16 ctr) mac'
         in (out @ rest, mac''))
      else (data, mac))"
  by pat_completeness auto
termination
  by (relation "measure (\<lambda>(L, c, enc, len, data, ctr, mac). nat len)") auto

declare ctr_loop.simps [simp del]

text \<open>
  \<open>len\<close> is an \<open>unsigned\<close>, and the loop tests \<open>(int)len > 0\<close>: from \<open>2 ^ 31\<close> on, which the comment in the source rules out, it does nothing. The position
  is a multiple of 16, as the \<open>assert\<close> demands.
\<close>

definition ctr_start :: "int \<Rightarrow> u64 \<Rightarrow> bytes" where
  "ctr_start pos ctriv = le_bytes 8 ctriv @ setint64 (word_of_int (pos div 16))"

definition ctr_crypt :: "aes \<Rightarrow> symm \<Rightarrow> bytes \<Rightarrow> int \<Rightarrow> int \<Rightarrow> u64 \<Rightarrow> bool \<Rightarrow> bytes \<times> bytes" where
  "ctr_crypt L c data len pos ctriv enc =
     (let ctr = ctr_start pos ctriv in
      ctr_loop L c enc (if len < 2 ^ 31 then len else 0) data ctr (take 8 ctr @ take 8 ctr))"

lemma ctr_crypt_short:
  "len < 2 ^ 31 \<Longrightarrow> ctr_crypt L c data len pos ctriv enc =
     ctr_loop L c enc len data (ctr_start pos ctriv) (take 8 (ctr_start pos ctriv) @ take 8 (ctr_start pos ctriv))"
  by (simp add: ctr_crypt_def Let_def)

section \<open>Block helpers\<close>

lemma le_bytes_eqI: "(\<And>i. i < 8 * n \<Longrightarrow> bit v i = bit w i) \<Longrightarrow> le_bytes n v = le_bytes n w"
proof (induction n arbitrary: v w)
  case (Suc n)
  have "bit v i = bit w i" if "i < 8" for i using Suc.prems [of i] that by simp
  then have "ucast v = (ucast w :: byte)" by (intro byte_eqI) (auto simp: bit_simps)
  moreover have "le_bytes n (drop_bit 8 v) = le_bytes n (drop_bit 8 w)"
    using Suc.prems by (intro Suc.IH) (simp add: bit_simps)
  ultimately show ?case by simp
qed simp

lemma le_bytes_le_word: "length bs = n \<Longrightarrow> 8 * n \<le> LENGTH('a) \<Longrightarrow> le_bytes n (le_word bs :: 'a::len word) = bs"
proof (induction n arbitrary: bs)
  case (Suc n)
  obtain b bs' where bs: "bs = b # bs'" using Suc.prems by (cases bs) auto
  have "ucast (ucast b OR push_bit 8 (le_word bs' :: 'a word)) = b"
    using Suc.prems(2) by (intro byte_eqI) (auto simp: bit_simps)
  moreover have "le_bytes n (drop_bit 8 (ucast b OR push_bit 8 (le_word bs' :: 'a word))) = le_bytes n (le_word bs' :: 'a word)"
    using Suc.prems(2) by (intro le_bytes_eqI) (auto simp: bit_simps dest: bit_imp_le_length)
  ultimately show ?case using Suc bs by simp
qed simp

lemma le_bytes_xor: "le_bytes n (v XOR w) = map2 (XOR) (le_bytes n v) (le_bytes n w)"
  by (induction n arbitrary: v w) (auto simp: unsigned_xor_eq drop_bit_xor)

text \<open>The two-word \<open>xorblock\<close> is the bytewise one.\<close>

lemma xorblock_bytes:
  assumes "length dst = 16" "16 \<le> length src"
  shows "xorblock src dst = map2 (XOR) dst (take 16 src)"
proof -
  have "map2 (XOR) dst (take 16 src) = map2 (XOR) (take 8 dst @ drop 8 dst) (take 8 src @ take 8 (drop 8 src))"
    by (simp flip: take_add)
  also have "\<dots> = map2 (XOR) (take 8 dst) (take 8 src) @ map2 (XOR) (drop 8 dst) (take 8 (drop 8 src))"
    using assms by (subst zip_append) auto
  finally show ?thesis
    using assms by (simp add: xorblock_def le_bytes_xor le_bytes_le_word)
qed

lemma xorblock_len_bytes:
  assumes "n \<le> length dst" "n \<le> length src"
  shows "xorblock_len src dst n = map2 (XOR) (take n dst) (take n src) @ drop n dst"
  using assms
proof (induction src dst n rule: xorblock_len.induct)
  case (2 src dst n)
  then have "xorblock_len src dst (Suc n) =
      map2 (XOR) (take n dst) (take n src) @ drop n (dst[n := dst ! n XOR src ! n])"
    by simp
  also have "\<dots> = map2 (XOR) (take (Suc n) dst) (take (Suc n) src) @ drop (Suc n) dst"
    using 2(2,3) by (simp add: take_Suc_conv_app_nth drop_update_swap) (metis Cons_nth_drop_Suc Suc_le_lessD list_update_code(2))
  finally show ?case .
qed simp

lemma length_xorblock [simp]: "length dst = 16 \<Longrightarrow> length (xorblock src dst) = 16"
  by (simp add: xorblock_def)

lemma map2_xor_self: "length a = length b \<Longrightarrow> map2 (XOR) (map2 (XOR) a b) b = (a :: bytes)"
  by (induction a b rule: list_induct2) (simp_all add: xor.assoc)

lemma xorblock_twice: "length dst = 16 \<Longrightarrow> length src = 16 \<Longrightarrow> xorblock src (xorblock src dst) = dst"
  by (simp add: xorblock_bytes map2_xor_self)

section \<open>The counter\<close>

definition be_nat :: "bytes \<Rightarrow> nat" where
  "be_nat bs = foldl (\<lambda>v b. 256 * v + unat b) 0 bs"

lemma be_nat_simps [simp]: "be_nat [] = 0" "be_nat (bs @ [b]) = 256 * be_nat bs + unat b"
  by (simp_all add: be_nat_def)

lemma be_nat_less: "be_nat bs < 256 ^ length bs"
proof (induction bs rule: rev_induct)
  case (snoc b bs)
  have "256 * be_nat bs + unat b < 256 * (be_nat bs + 1)" using byte_less(2) [of b] by simp
  also have "\<dots> \<le> 256 * 256 ^ length bs" using snoc by (intro mult_le_mono2) simp
  finally show ?case by simp
qed simp

lemma be_nat_inj: "length as = length bs \<Longrightarrow> be_nat as = be_nat bs \<Longrightarrow> as = bs"
proof (induction as arbitrary: bs rule: rev_induct)
  case (snoc a as)
  obtain b bs' where bs: "bs = bs' @ [b]" using snoc.prems(1) by (cases bs rule: rev_cases) auto
  have eq: "256 * be_nat as + unat a = 256 * be_nat bs' + unat b" using snoc.prems(2) bs by simp
  have "unat a = (256 * be_nat as + unat a) mod 256" "unat b = (256 * be_nat bs' + unat b) mod 256"
    using byte_less(2) by simp_all
  with eq have "unat a = unat b" by simp
  then have "a = b" by (simp add: word_unat_eq_iff)
  with eq snoc bs show ?case by simp
qed simp

lemma incblock_prefix: "length xs = n \<Longrightarrow> incblock n (xs @ ys) = incblock n xs @ ys"
proof (induction xs arbitrary: n ys rule: rev_induct)
  case (snoc x xs)
  then show ?case by (simp add: list_update_append nth_append Let_def flip: snoc.prems)
qed simp

lemma incblock_snoc:
  "incblock (Suc (length xs)) (xs @ [b]) = (if b + 1 \<noteq> 0 then xs @ [b + 1] else incblock (length xs) xs @ [0])"
  by (simp add: nth_append incblock_prefix Let_def)

lemma length_incblock [simp]: "length (incblock n d) = length d"
  by (induction n d rule: incblock.induct) (auto simp: Let_def)

declare incblock.simps(2) [simp del]

lemma unat_byte_max: "unat (- 1 :: byte) = 255"
  by (simp add: unsigned_minus_1_eq_mask mask_eq_exp_minus_1)

lemma byte_wrap: "b + 1 = 0 \<longleftrightarrow> unat b = 255" for b :: byte
proof -
  have "b + 1 = 0 \<longleftrightarrow> b = - 1" by (simp add: eq_neg_iff_add_eq_0)
  also have "\<dots> \<longleftrightarrow> unat b = unat (-1 :: byte)" by (simp only: word_unat_eq_iff)
  finally show ?thesis by (simp add: unat_byte_max)
qed

text \<open>\<open>incblock\<close> adds one to the big-endian number, with wrap-around.\<close>

lemma be_nat_incblock: "be_nat (incblock (length d) d) = (be_nat d + 1) mod 256 ^ length d"
proof (induction d rule: rev_induct)
  case (snoc b d)
  show ?case
  proof (cases "b + 1 = 0")
    case True
    then have "(be_nat (d @ [b]) + 1) mod 256 ^ length (d @ [b]) = 256 * ((be_nat d + 1) mod 256 ^ length d)"
      by (simp add: byte_wrap mult_mod_right)
    with True snoc show ?thesis by (simp add: incblock_snoc)
  next
    case False
    then have "unat (b + 1) = unat b + 1" by (metis unat_word_ariths(1) add.commute unatSuc Suc_eq_plus1)
    with False be_nat_less [of "d @ [b + 1]"] show ?thesis by (simp add: incblock_snoc)
  qed
qed simp

lemma incblock_append:
  "\<exists>x \<in> set b. x + 1 \<noteq> 0 \<Longrightarrow> incblock (length a + length b) (a @ b) = a @ incblock (length b) b"
proof (induction b rule: rev_induct)
  case (snoc x b)
  then show ?case
    using incblock_snoc [of "a @ b" x] by (auto simp: incblock_snoc)
qed simp

lemma be_nat_rev: "be_nat (rev (le_bytes n w)) = unat w mod 256 ^ n"
proof (induction n arbitrary: w)
  case (Suc n)
  have "unat w mod 256 ^ Suc n = 256 * (unat w div 256 mod 256 ^ n) + unat w mod 256"
    by (simp add: mod_mult2_eq)
  with Suc show ?case
    by (simp add: unat_drop_bit_8 unsigned_ucast_eq take_bit_eq_mod)
qed simp

lemma be_nat_max: "be_nat (replicate n (- 1)) + 1 = 256 ^ n"
proof (induction n)
  case (Suc n)
  have "be_nat (replicate (Suc n) (- 1)) + 1 = 256 * (be_nat (replicate n (- 1)) + 1)"
    by (simp add: replicate_append_same [symmetric] unat_byte_max del: replicate_append_same)
  then show ?case using Suc by simp
qed simp

lemma incblock_ctr:
  assumes "v + 1 \<noteq> (0 :: u64)" "length a = 8"
  shows "incblock 16 (a @ setint64 v) = a @ setint64 (v + 1)"
proof -
  have len: "length (setint64 w) = 8" for w by (simp add: setint64_def)
  have val: "be_nat (setint64 w) = unat w" for w :: u64
    using unsigned_less [where ?'a = nat, of w] by (simp add: setint64_def be_nat_rev)
  have v1: "unat (v + 1) = unat v + 1" using assms(1) by (metis unatSuc add.commute Suc_eq_plus1)
  have ex: "\<exists>x \<in> set (setint64 v). x + 1 \<noteq> 0"
  proof (rule ccontr)
    assume "\<not> ?thesis"
    then have "setint64 v = replicate 8 (-1)"
      by (intro nth_equalityI) (auto simp: len eq_neg_iff_add_eq_0)
    then have "unat v + 1 = 256 ^ 8" using val [of v] be_nat_max [of 8] by simp
    with v1 unsigned_less [where ?'a = nat, of "v + 1"] show False by simp
  qed
  have "incblock 8 (setint64 v) = setint64 (v + 1)"
  proof (rule be_nat_inj)
    have "unat v + 1 < 256 ^ 8" using v1 unsigned_less [where ?'a = nat, of "v + 1"] by simp
    then show "be_nat (incblock 8 (setint64 v)) = be_nat (setint64 (v + 1))"
      using be_nat_incblock [of "setint64 v"] by (simp add: len val v1)
  qed (simp add: len)
  then show ?thesis using incblock_append [OF ex, of a] assms(2) by (simp add: len)
qed

section \<open>CTR mode\<close>

lemma aes_ok_ecb: "aes_ok L \<Longrightarrow> length d = 16 \<Longrightarrow> length (ecb_encrypt L c d) = 16"
  by (simp add: aes_ok_def ecb_encrypt_def)

text \<open>One round, with the MAC input named.\<close>

definition mac_in :: "bool \<Rightarrow> int \<Rightarrow> bytes \<Rightarrow> bytes \<Rightarrow> bytes \<Rightarrow> bytes" where
  "mac_in enc len blk out mac =
     (if enc then xorblock blk mac
      else if len \<ge> 16 then xorblock out mac else xorblock_len out mac (nat len))"

definition ctr_out :: "aes \<Rightarrow> symm \<Rightarrow> bytes \<Rightarrow> bytes \<Rightarrow> bytes" where
  "ctr_out L c data ctr = xorblock (ecb_encrypt L c ctr) (take 16 data)"

definition ctr_next :: "aes \<Rightarrow> symm \<Rightarrow> bool \<Rightarrow> int \<Rightarrow> bytes \<Rightarrow> bytes \<Rightarrow> bytes \<Rightarrow> bytes \<times> bytes" where
  "ctr_next L c enc len data ctr mac =
     ctr_loop L c enc (len - 16) (drop 16 data) (incblock 16 ctr)
       (ecb_encrypt L c (mac_in enc len (take 16 data) (ctr_out L c data ctr) mac))"

lemma ctr_loop_step:
  "len > 0 \<Longrightarrow> ctr_loop L c enc len data ctr mac =
     (ctr_out L c data ctr @ fst (ctr_next L c enc len data ctr mac), snd (ctr_next L c enc len data ctr mac))"
  by (subst ctr_loop.simps) (simp add: Let_def case_prod_beta mac_in_def ctr_out_def ctr_next_def)

lemma ctr_loop_done: "len \<le> 0 \<Longrightarrow> ctr_loop L c enc len data ctr mac = (data, mac)"
  by (subst ctr_loop.simps) simp

text \<open>A buffer of \<open>len\<close> bytes padded to full blocks.\<close>

definition padded :: "int \<Rightarrow> bytes \<Rightarrow> bool" where
  "padded len data \<longleftrightarrow> length data = nat ((len + 15) div 16 * 16)"

lemma padded_step:
  assumes "padded len data" "len > 0"
  shows "length (take 16 data) = 16" "padded (len - 16) (drop 16 data)" "16 \<le> length data"
proof -
  have "(len - 16 + 15) div 16 = (len + 15) div 16 - 1" "1 \<le> (len + 15) div 16"
    using assms(2) by simp_all
  then show "padded (len - 16) (drop 16 data)" "length (take 16 data) = 16" "16 \<le> length data"
    using assms by (auto simp: padded_def nat_le_iff le_nat_iff nat_diff_distrib')
qed

lemma length_ctr_out [simp]: "16 \<le> length data \<Longrightarrow> length (ctr_out L c data ctr) = 16"
  by (simp add: ctr_out_def)

lemma length_ctr_loop:
  "padded len data \<Longrightarrow> length (fst (ctr_loop L c enc len data ctr mac)) = length data"
proof (induction "nat len" arbitrary: len data ctr mac rule: less_induct)
  case less
  show ?case
  proof (cases "len > 0")
    case True
    note p = padded_step [OF less(2) True]
    then show ?thesis
      using less(1) [of "len - 16"] True by (simp add: ctr_loop_step ctr_next_def)
  qed (simp add: ctr_loop_done)
qed

text \<open>Decrypting what encrypting made restores the data and arrives at the same MAC; the bytes
  behind \<open>len\<close> may have been lost on the way.\<close>

lemma mac_in_eq:
  assumes "length blk = 16" "length mac = 16" "length out = 16" "len > 0"
    and "take (nat len) out = take (nat len) blk" "\<forall>b \<in> set (drop (nat len) blk). b = 0"
  shows "mac_in False len b out mac = mac_in True len blk o' mac"
proof (cases "len \<ge> 16")
  case True
  then show ?thesis using assms by (simp add: mac_in_def)
next
  case False
  define n where "n = nat len"
  have n: "n < 16" using False by (simp add: n_def)
  have z: "drop n blk = replicate (16 - n) 0"
    using assms by (intro replicate_eqI) (auto simp: n_def)
  have "map2 (XOR) mac blk = map2 (XOR) (take n mac @ drop n mac) (take n blk @ drop n blk)" by simp
  also have "\<dots> = map2 (XOR) (take n mac) (take n out) @ map2 (XOR) (drop n mac) (drop n blk)"
    using assms n by (subst zip_append) (simp_all add: n_def)
  also have "map2 (XOR) (drop n mac) (drop n blk) = drop n mac"
    using assms n unfolding z by (intro nth_equalityI) auto
  finally show ?thesis
    using False assms n by (simp add: mac_in_def xorblock_bytes xorblock_len_bytes flip: n_def)
qed

lemma take_block: "take n d = take n (take 16 d) @ take (n - 16) (drop 16 d)"
proof (cases "n \<le> 16")
  case False
  then have "take n d = take (16 + (n - 16)) d" by simp
  also have "\<dots> = take 16 d @ take (n - 16) (drop 16 d)" by (rule take_add)
  finally show ?thesis using False by (simp add: min_def)
qed (simp add: min_def)

lemma length_mac_in: "length mac = 16 \<Longrightarrow> length (mac_in enc len blk out mac) = 16"
proof -
  have "length (xorblock_len src dst n) = length dst" for src dst n
    by (induction src dst n rule: xorblock_len.induct) auto
  then show "length mac = 16 \<Longrightarrow> length (mac_in enc len blk out mac) = 16" by (simp add: mac_in_def)
qed

lemma ctr_loop_roundtrip:
  assumes "aes_ok L" "padded len data" "\<forall>b \<in> set (drop (nat len) data). b = 0"
    and "length ctr = 16" "length mac = 16"
    and "length c' = length data"
    and "take (nat len) c' = take (nat len) (fst (ctr_loop L k True len data ctr mac))"
  shows "take (nat len) (fst (ctr_loop L k False len c' ctr mac)) = take (nat len) data \<and>
    snd (ctr_loop L k False len c' ctr mac) = snd (ctr_loop L k True len data ctr mac)"
  using assms(2-)
proof (induction "nat len" arbitrary: len data ctr mac c' rule: less_induct)
  case less
  show ?case
  proof (cases "len > 0")
    case True
    note p = padded_step [OF less(2) True]
    let ?n = "nat len" let ?blk = "take 16 data" let ?K = "ecb_encrypt L k ctr"
    let ?E = "ctr_next L k True len data ctr mac" let ?D = "ctr_next L k False len c' ctr mac"
    have n16: "nat (len - 16) = ?n - 16" by arith
    have K: "length ?K = 16" using assms(1) less.prems by (simp add: aes_ok_ecb)
    have c': "length (take 16 c') = 16" using p less.prems by simp
    have tk: "take ?n c' = take ?n (ctr_out L k data ctr @ fst ?E)"
      using less.prems True by (simp add: ctr_loop_step)
    have t16: "take ?n (take 16 c') = take ?n (ctr_out L k data ctr)"
    proof -
      have "take ?n (take 16 c') = take 16 (take ?n c')" by (simp add: min.commute)
      also have "\<dots> = take ?n (take 16 (ctr_out L k data ctr @ fst ?E))" unfolding tk by (simp only: take_take min.commute)
      finally show ?thesis using p by simp
    qed
    have d16: "take (nat (len - 16)) (drop 16 c') = take (nat (len - 16)) (fst ?E)"
    proof -
      have "drop 16 (take ?n c') = drop 16 (take ?n (ctr_out L k data ctr @ fst ?E))" by (simp only: tk)
      then show ?thesis using p True by (cases "len \<ge> 16") (simp_all add: drop_take nat_diff_distrib)
    qed
    have out: "take ?n (ctr_out L k c' ctr) = take ?n ?blk"
    proof -
      have "take ?n (ctr_out L k c' ctr) = map2 (XOR) (take ?n (take 16 c')) (take ?n ?K)"
        using K c' by (simp add: ctr_out_def xorblock_bytes take_map take_zip)
      also have "\<dots> = take ?n (xorblock ?K (xorblock ?K ?blk))"
        unfolding t16 using K p by (simp add: ctr_out_def xorblock_bytes take_map take_zip)
      finally show ?thesis using K p by (simp add: xorblock_twice)
    qed
    have m: "mac_in False len (take 16 c') (ctr_out L k c' ctr) mac = mac_in True len ?blk (ctr_out L k data ctr) mac"
      using less.prems p c' True out set_take_subset [of "16 - ?n" "drop ?n data"]
      by (intro mac_in_eq) (auto simp: drop_take)
    have IH: "take (nat (len - 16)) (fst ?D) = take (nat (len - 16)) (drop 16 data) \<and> snd ?D = snd ?E"
      unfolding ctr_next_def m
    proof (rule less.hyps)
      show "\<forall>b \<in> set (drop (nat (len - 16)) (drop 16 data)). b = 0"
        using less.prems(2) set_drop_subset_set_drop [of ?n "nat (len - 16) + 16" data]
        by (simp add: n16) (meson le_add_diff subsetD le_diff_conv nle_le)
      show "take (nat (len - 16)) (drop 16 c') = take (nat (len - 16))
         (fst (ctr_loop L k True (len - 16) (drop 16 data) (incblock 16 ctr)
            (ecb_encrypt L k (mac_in True len ?blk (ctr_out L k data ctr) mac))))"
        using d16 by (simp add: ctr_next_def)
    qed (use p less.prems True in \<open>simp_all add: aes_ok_ecb [OF assms(1)] length_mac_in\<close>)
    have "take ?n data = take ?n ?blk @ take (nat (len - 16)) (drop 16 data)"
      unfolding n16 by (rule take_block)
    moreover have "take ?n (ctr_out L k c' ctr @ fst ?D) = take ?n (ctr_out L k c' ctr) @ take (nat (len - 16)) (fst ?D)"
      using p less.prems(5) by (simp add: n16)
    ultimately show ?thesis using True out IH by (simp only: ctr_loop_step fst_conv snd_conv)
  qed (simp add: ctr_loop_done)
qed

text \<open>The key stream depends on the position only: a chunk crypted on its own is the part of the
  whole that it covers.\<close>

lemma ctr_loop_stream: "fst (ctr_loop L k enc len data ctr mac) = fst (ctr_loop L k enc' len data ctr mac')"
proof (induction "nat len" arbitrary: len data ctr mac mac' rule: less_induct)
  case less
  show ?case
  proof (cases "len > 0")
    case True
    then show ?thesis by (simp add: ctr_loop_step) (simp add: ctr_next_def less)
  qed (simp add: ctr_loop_done)
qed

lemma ctr_loop_drop:
  "padded len data \<Longrightarrow> 16 * int n \<le> len \<Longrightarrow>
   drop (16 * n) (fst (ctr_loop L k enc len data ctr mac)) =
   fst (ctr_loop L k enc (len - 16 * int n) (drop (16 * n) data) ((incblock 16 ^^ n) ctr) mac)"
proof (induction n arbitrary: len data ctr mac)
  case (Suc n)
  then have pos: "len > 0" by simp
  note p = padded_step [OF Suc.prems(1) pos]
  have "drop (16 * Suc n) (fst (ctr_loop L k enc len data ctr mac)) =
      drop (16 * n) (fst (ctr_next L k enc len data ctr mac))"
    using pos p by (simp add: ctr_loop_step)
  also have "\<dots> = drop (16 * n) (fst (ctr_loop L k enc (len - 16) (drop 16 data) (incblock 16 ctr) mac))"
    unfolding ctr_next_def by (subst ctr_loop_stream) (rule refl)
  also have "\<dots> = fst (ctr_loop L k enc (len - 16 * int (Suc n)) (drop (16 * Suc n) data) ((incblock 16 ^^ Suc n) ctr) mac)"
    using Suc.IH [OF p(2)] Suc.prems(2) by (simp add: funpow_Suc_right algebra_simps del: funpow.simps)
  finally show ?case .
qed simp

lemma ctr_start_add:
  "0 \<le> pos \<Longrightarrow> pos + 16 * int n < 2 ^ 63 \<Longrightarrow> (incblock 16 ^^ n) (ctr_start pos iv) = ctr_start (pos + 16 * int n) iv"
proof (induction n)
  case (Suc n)
  define v where "v = (pos + 16 * int n) div 16"
  have v: "0 \<le> v" "v + 1 < 2 ^ 64" and v1: "(pos + 16 * int (Suc n)) div 16 = v + 1"
    using Suc.prems by (auto simp: v_def)
  have "uint (word_of_int v + 1 :: u64) = v + 1"
    using v by (simp add: uint_word_ariths take_bit_eq_mod uint_word_of_int mod_simps)
  then have "word_of_int v + 1 \<noteq> (0 :: u64)" using v(1) by auto
  then have "incblock 16 (ctr_start (pos + 16 * int n) iv) = ctr_start (pos + 16 * int (Suc n)) iv"
    unfolding ctr_start_def v1 v_def [symmetric] by (simp add: incblock_ctr)
  then show ?case using Suc by simp
qed simp

lemma ctr_crypt_drop:
  assumes "padded len data" "16 * int n \<le> len" "len < 2 ^ 31" "0 \<le> pos" "pos + len < 2 ^ 63"
  shows "drop (16 * n) (fst (ctr_crypt L k data len pos iv enc)) =
    fst (ctr_crypt L k (drop (16 * n) data) (len - 16 * int n) (pos + 16 * int n) iv enc')"
proof -
  have "drop (16 * n) (fst (ctr_crypt L k data len pos iv enc)) =
      fst (ctr_loop L k enc (len - 16 * int n) (drop (16 * n) data) (ctr_start (pos + 16 * int n) iv)
        (take 8 (ctr_start pos iv) @ take 8 (ctr_start pos iv)))"
    using assms ctr_start_add [of pos n iv] by (simp add: ctr_crypt_short ctr_loop_drop)
  also have "\<dots> = fst (ctr_crypt L k (drop (16 * n) data) (len - 16 * int n) (pos + 16 * int n) iv enc')"
    using assms(3) by (simp add: ctr_crypt_short ctr_loop_stream [of L k enc _ _ _ _ enc'])
  finally show ?thesis .
qed

lemma ctr_crypt_roundtrip:
  assumes "aes_ok L" "padded len data" "\<forall>b \<in> set (drop (nat len) data). b = 0"
    and "length c' = length data" "take (nat len) c' = take (nat len) (fst (ctr_crypt L k data len pos iv True))"
  shows "take (nat len) (fst (ctr_crypt L k c' len pos iv False)) = take (nat len) data \<and>
    snd (ctr_crypt L k c' len pos iv False) = snd (ctr_crypt L k data len pos iv True)"
proof (cases "len < 2 ^ 31")
  case True
  have "length (ctr_start pos iv) = 16" by (simp add: ctr_start_def setint64_def)
  then show ?thesis
    using ctr_loop_roundtrip [of L len data "ctr_start pos iv" "take 8 (ctr_start pos iv) @ take 8 (ctr_start pos iv)" c' k] assms True
    by (simp add: ctr_crypt_short)
next
  case False
  then show ?thesis using assms(5) by (simp add: ctr_crypt_def Let_def ctr_loop_done)
qed

lemma length_ctr_start [simp]: "length (ctr_start pos iv) = 16"
  by (simp add: ctr_start_def setint64_def)

text \<open>A concrete instance of the library functions.\<close>

definition not_aes :: aes where
  "not_aes = \<lparr>ecbE = \<lambda>k. map NOT, ecbD = \<lambda>k. map NOT, cbcE = \<lambda>k. map NOT, cbcD = \<lambda>k. map NOT\<rparr>"

lemma not_aes_ok: "aes_ok not_aes"
  by (simp add: aes_ok_def not_aes_def comp_def)

end
