(* ===== verification/Asymm_Cipher.thy ===== *)
theory Asymm_Cipher
  imports Symm_Cipher "HOL-Library.Log_Nat"
begin

text \<open>
  \<open>AsymmCipher\<close> of \<open>src/crypto/cryptopp.cpp\<close>. \<open>CryptoPP::Integer\<close> is a natural number; its
  conversions and \<open>a_exp_b_mod_c\<close> are library functions, given as a record \<open>bigint\<close> with
  their documented behaviour \<open>bigint_ok\<close>. A modulus of 0 makes Crypto++ throw
  \<open>DivideByZero\<close>: \<open>None\<close>.
\<close>

record bigint =
  bitCount :: "nat \<Rightarrow> nat"
  byteCount :: "nat \<Rightarrow> nat"
  getByte :: "nat \<Rightarrow> nat \<Rightarrow> byte"
  fromBytes :: "bytes \<Rightarrow> nat"
  expMod :: "nat \<Rightarrow> nat \<Rightarrow> nat \<Rightarrow> nat"
  inverseMod :: "nat \<Rightarrow> nat \<Rightarrow> nat"
  intLCM :: "nat \<Rightarrow> nat \<Rightarrow> nat"

definition bigint_ok :: "bigint \<Rightarrow> bool" where
  "bigint_ok B \<longleftrightarrow>
     (\<forall>n. byteCount B n = (bitCount B n + 7) div 8 \<and> n < 256 ^ byteCount B n \<and>
          (0 < byteCount B n \<longrightarrow> 256 ^ (byteCount B n - 1) \<le> n)) \<and>
     (\<forall>n i. getByte B n i = of_nat (n div 256 ^ i)) \<and>
     (\<forall>bs. fromBytes B bs = be_nat bs) \<and>
     (\<forall>x e m. 0 < m \<longrightarrow> expMod B x e m = x ^ e mod m) \<and>
     (\<forall>x m. 1 < m \<longrightarrow> coprime x m \<longrightarrow> x * inverseMod B x m mod m = 1 \<and> inverseMod B x m < m) \<and>
     (\<forall>x y. intLCM B x y = lcm x y)"

section \<open>Integer arrays\<close>

text \<open>The two length bytes and the big-endian bytes of one number.\<close>

definition int_bytes :: "bigint \<Rightarrow> nat \<Rightarrow> bytes" where
  "int_bytes B t = map (getByte B t) (rev [0..<byteCount B t])"

definition ser_int :: "bigint \<Rightarrow> nat \<Rightarrow> bytes" where
  "ser_int B t = of_nat (bitCount B t div 256) # of_nat (bitCount B t) # int_bytes B t"

fun serializeintarray :: "bigint \<Rightarrow> nat list \<Rightarrow> bytes \<Rightarrow> bytes" where
  "serializeintarray B [] d = d"
| "serializeintarray B (t # ts) d = serializeintarray B ts (d @ ser_int B t)"

text \<open>The loop: the numbers stored, whether it ran to the end, what is left of the data.\<close>

fun decode_ints :: "bigint \<Rightarrow> nat \<Rightarrow> bytes \<Rightarrow> nat list \<times> bool \<times> bytes" where
  "decode_ints B 0 data = ([], True, data)"
| "decode_ints B (Suc i) data =
     (if length data < 2 then ([], False, data)
      else let n = (256 * unat (data ! 0) + unat (data ! 1) + 7) div 8; d = drop 2 data in
        if length d < n then ([], False, d)
        else let (ts, ok, rest) = decode_ints B i (drop n d) in
          (fromBytes B (take n d) # ts, ok, rest))"

text \<open>The new array and the return value.\<close>

definition decodeintarray :: "bigint \<Rightarrow> nat list \<Rightarrow> nat \<Rightarrow> bytes \<Rightarrow> nat list \<times> bool" where
  "decodeintarray B t numints data =
     (let (ts, ok, rest) = decode_ints B numints data in
      (ts @ drop (length ts) t, ok \<and> length rest < 16))"

section \<open>AsymmCipher\<close>

text \<open>\<open>key\<close>: four numbers, \<open>PUB_PQ\<close>, \<open>PUB_E\<close> or \<open>PRIV_P\<close>, \<open>PRIV_Q\<close>, \<open>PRIV_D\<close>, \<open>PRIV_U\<close>.\<close>

definition asymm_setkey :: "bigint \<Rightarrow> nat \<Rightarrow> bytes \<Rightarrow> nat list \<Rightarrow> nat list \<times> bool" where
  "asymm_setkey B numints data key = decodeintarray B key numints data"

definition serializekey :: "bigint \<Rightarrow> nat list \<Rightarrow> nat \<Rightarrow> bytes \<Rightarrow> bytes" where
  "serializekey B key keytype d = serializeintarray B (take keytype key) d"

definition asymm_isvalid :: "bigint \<Rightarrow> nat list \<Rightarrow> bool" where
  "asymm_isvalid B key \<longleftrightarrow> bitCount B (key ! 0) \<noteq> 0 \<and> bitCount B (key ! 1) \<noteq> 0"

definition rsaencrypt :: "bigint \<Rightarrow> nat list \<Rightarrow> nat \<Rightarrow> nat option" where
  "rsaencrypt B key m = (if key ! 0 = 0 then None else Some (expMod B m (key ! 1) (key ! 0)))"

definition rsadecrypt :: "bigint \<Rightarrow> nat list \<Rightarrow> nat \<Rightarrow> nat option" where
  "rsadecrypt B key m =
     (let p = key ! 0; q = key ! 1; d = key ! 2; u = key ! 3 in
      if p \<le> 1 \<or> q \<le> 1 then None
      else
        (let xp = expMod B (m mod p) (d mod (p - 1)) p;
             xq = expMod B (m mod q) (d mod (q - 1)) q;
             h = (if xp > xq then q - ((xp - xq) * u) mod q else ((xq - xp) * u) mod q)
         in Some (h * p + xp)))"

text \<open>The bytes written to \<open>buf\<close>; the return value is their number.\<close>

definition rawencrypt :: "bigint \<Rightarrow> nat list \<Rightarrow> bytes \<Rightarrow> nat \<Rightarrow> bytes option" where
  "rawencrypt B key plain buflen =
     map_option (\<lambda>t. if byteCount B t > buflen then [] else int_bytes B t) (rsaencrypt B key (fromBytes B plain))"

definition rawdecrypt :: "bigint \<Rightarrow> nat list \<Rightarrow> bytes \<Rightarrow> nat \<Rightarrow> bytes option" where
  "rawdecrypt B key c buflen =
     map_option (\<lambda>m. if byteCount B m > buflen then [] else int_bytes B m) (rsadecrypt B key (fromBytes B c))"

text \<open>\<open>pad\<close> is the random padding that \<open>PrnGen::genblock\<close> delivers. A text too long for the key asks
  for a negative number of padding bytes: \<open>None\<close>.\<close>

definition asymm_encrypt :: "bigint \<Rightarrow> nat list \<Rightarrow> bytes \<Rightarrow> bytes \<Rightarrow> nat \<Rightarrow> bytes option" where
  "asymm_encrypt B key plain pad buflen =
     (if byteCount B (key ! 0) + 2 > buflen then Some []
      else if byteCount B (key ! 0) < length plain + 2 then None
      else
        (let buf = plain @ take (byteCount B (key ! 0) - length plain - 2) pad in
         map_option (ser_int B) (rsaencrypt B key (fromBytes B buf))))"

text \<open>The \<open>numbytes\<close> bytes of \<open>out\<close>, or the return value 0 (\<open>Some None\<close>). The index \<open>l\<close> is an
  \<open>unsigned\<close>, and \<open>GetByte\<close> is 0 beyond the number.\<close>

definition asymm_decrypt :: "bigint \<Rightarrow> nat list \<Rightarrow> bytes \<Rightarrow> nat \<Rightarrow> bytes option option" where
  "asymm_decrypt B key c numbytes =
     (let (ms, ok) = decodeintarray B [0] 1 c in
      if \<not> ok then Some None
      else map_option (\<lambda>m.
        (let l0 = of_nat (byteCount B (key ! 2)) - 2 :: u32;
             l1 = (if of_nat (byteCount B m) > l0 then of_nat (byteCount B m) else l0);
             l = l1 - of_nat numbytes
         in Some (rev (map (\<lambda>i. getByte B m (unat (l + of_nat i))) [0..<numbytes])))) (rsadecrypt B key (hd ms)))"

section \<open>Hash signatures\<close>

text \<open>\<open>HashSignature\<close> of \<open>src/utils.cpp\<close>: \<open>h\<close> is the SHA-512 digest of the data added.\<close>

definition sig_get :: "bigint \<Rightarrow> nat list \<Rightarrow> bytes \<Rightarrow> nat \<Rightarrow> bytes option" where
  "sig_get B privk h sigbuflen = rawdecrypt B privk h sigbuflen"

definition sig_check :: "bigint \<Rightarrow> nat list \<Rightarrow> bytes \<Rightarrow> bytes \<Rightarrow> bool option" where
  "sig_check B pubk h sig =
     map_option (\<lambda>w. if length w \<noteq> length h then False else w = h)
       (rawencrypt B pubk sig (length h))"

section \<open>Round trips\<close>

lemma bigint_facts:
  assumes "bigint_ok B"
  shows "byteCount B n = (bitCount B n + 7) div 8" "n < 256 ^ byteCount B n"
    "0 < byteCount B n \<Longrightarrow> 256 ^ (byteCount B n - 1) \<le> n" "getByte B n i = of_nat (n div 256 ^ i)"
    "fromBytes B bs = be_nat bs" "0 < m \<Longrightarrow> expMod B x e m = x ^ e mod m"
    "1 < m \<Longrightarrow> coprime x m \<Longrightarrow> x * inverseMod B x m mod m = 1" "intLCM B x m = lcm x m"
  using assms unfolding bigint_ok_def by blast+

lemma int_bytes_be_nat:
  assumes "bigint_ok B"
  shows "be_nat (int_bytes B t) = t"
proof -
  have "be_nat (map (getByte B t) (rev [0..<k])) = t mod 256 ^ k" for k
  proof (induction k arbitrary: t)
    case (Suc k)
    have "map (getByte B t) (rev [0..<Suc k]) = map (getByte B (t div 256)) (rev [0..<k]) @ [getByte B t 0]"
      by (simp add: bigint_facts(4) [OF assms] upt_conv_Cons map_Suc_upt [symmetric] rev_map comp_def
          div_mult2_eq del: upt_Suc)
    also have "be_nat \<dots> = 256 * (t div 256 mod 256 ^ k) + t mod 256"
    proof -
      have "getByte B t 0 = of_nat t" by (simp add: bigint_facts(4) [OF assms])
      then show ?thesis by (simp add: Suc unsigned_of_nat take_bit_eq_mod)
    qed
    finally show ?case by (simp add: mod_mult2_eq)
  qed simp
  then show ?thesis using bigint_facts(2) [OF assms, of t] by (simp add: int_bytes_def)
qed

lemma length_int_bytes [simp]: "length (int_bytes B t) = byteCount B t"
  by (simp add: int_bytes_def)

lemma serializeintarray_concat: "serializeintarray B ts d = d @ concat (map (ser_int B) ts)"
  by (induction B ts d rule: serializeintarray.induct) auto

lemma decode_ints_serialize:
  assumes B: "bigint_ok B" and "\<forall>t \<in> set ts. bitCount B t < 65536"
  shows "decode_ints B (length ts) (concat (map (ser_int B) ts) @ rest) = (ts, True, rest)"
  using assms(2)
proof (induction ts)
  case (Cons t ts)
  let ?b = "bitCount B t"
  have "?b div 256 < 256" using Cons.prems by auto
  then have "256 * (?b div 256 mod 256) + ?b mod 256 = ?b" by simp
  then have n: "(256 * unat (of_nat (?b div 256) :: byte) + unat (of_nat ?b :: byte) + 7) div 8 = byteCount B t"
    by (simp add: bigint_facts(1) [OF B] unsigned_of_nat take_bit_eq_mod)
  have "fromBytes B (int_bytes B t) = t"
    by (simp add: bigint_facts(5) [OF B] int_bytes_be_nat [OF B])
  with Cons show ?case by (simp add: ser_int_def n Let_def)
qed simp

lemma mod_affine: "(a * (b mod n) + c) mod n = (a * b + c) mod (n :: int)"
proof -
  have "(a * (b mod n) + c) mod n = ((a * (b mod n)) mod n + c) mod n" by (rule mod_add_left_eq [symmetric])
  also have "(a * (b mod n)) mod n = a * b mod n" by (rule mod_mult_right_eq)
  finally show ?thesis by (simp only: mod_add_left_eq)
qed

text \<open>Garner's recombination: the result has the two residues.\<close>

lemma rsadecrypt_residues:
  assumes B: "bigint_ok B" and pq: "1 < p" "1 < q" and u: "u * p mod q = 1"
    and r: "rsadecrypt B [p, q, d, u] m = Some r"
  shows "r mod p = (m mod p) ^ (d mod (p - 1)) mod p" "r mod q = (m mod q) ^ (d mod (q - 1)) mod q"
proof -
  define xp where "xp = (m mod p) ^ (d mod (p - 1)) mod p"
  define xq where "xq = (m mod q) ^ (d mod (q - 1)) mod q"
  define h where "h = (if xp > xq then q - ((xp - xq) * u) mod q else ((xq - xp) * u) mod q)"
  have lt: "xp < p" "xq < q" using pq by (simp_all add: xp_def xq_def)
  have xs: "expMod B (m mod p) (d mod (p - 1)) p = xp" "expMod B (m mod q) (d mod (q - 1)) q = xq"
    unfolding xp_def xq_def using pq by (auto intro!: bigint_facts(6) [OF B])
  have keys: "[p, q, d, u] ! 0 = p" "[p, q, d, u] ! 1 = q" "[p, q, d, u] ! 2 = d" "[p, q, d, u] ! 3 = u"
    by simp_all
  have "\<not> (p \<le> 1 \<or> q \<le> 1)" using pq by simp
  then have r': "r = h * p + xp"
    using r unfolding rsadecrypt_def Let_def keys xs h_def [symmetric] by simp
  have h: "int h mod int q = (int xq - int xp) * int u mod int q"
  proof (cases "xp > xq")
    case True
    define y where "y = (xp - xq) * u"
    have "int h = int q - int y mod int q"
      using True pq by (simp add: h_def y_def of_nat_diff less_imp_le zmod_int)
    then have "int h mod int q = - int y mod int q" by (simp add: mod_simps)
    moreover have "- int y = (int xq - int xp) * int u"
      using True by (simp add: y_def of_nat_diff algebra_simps)
    ultimately show ?thesis by simp
  qed (simp add: h_def of_nat_diff zmod_int)
  have "int r mod int q = ((int xq - int xp) * int u * int p + int xp) mod int q"
  proof -
    have "int r mod int q = (int p * (int h mod int q) + int xp) mod int q"
      by (simp add: r' mod_affine mult.commute)
    also have "\<dots> = (int p * ((int xq - int xp) * int u) + int xp) mod int q"
      unfolding h by (rule mod_affine)
    finally show ?thesis by (simp only: mult_ac)
  qed
  also have "\<dots> = ((int xq - int xp) * (int (u * p) mod int q) + int xp) mod int q"
    unfolding mod_affine by (simp only: mult_ac of_nat_mult)
  also have "int (u * p) mod int q = 1" using u by (metis of_nat_1 zmod_int)
  finally have "int r mod int q = int xq" using lt by simp
  then show "r mod q = (m mod q) ^ (d mod (q - 1)) mod q"
    unfolding xq_def [symmetric] by (metis of_nat_eq_iff zmod_int)
  show "r mod p = (m mod p) ^ (d mod (p - 1)) mod p"
    unfolding xp_def [symmetric] using lt(1) by (simp add: r')
qed

text \<open>Decrypting with a matching key pair, as a premise of the protocols built on it.\<close>

definition key_pair :: "bigint \<Rightarrow> nat list \<Rightarrow> nat list \<Rightarrow> bool" where
  "key_pair B pubk privk \<longleftrightarrow>
     (\<forall>m < pubk ! 0. \<exists>c < pubk ! 0. rsaencrypt B pubk m = Some c \<and> rsadecrypt B privk c = Some m) \<and>
     (\<forall>c < pubk ! 0. \<exists>m < pubk ! 0. rsadecrypt B privk c = Some m \<and> rsaencrypt B pubk m = Some c)"

lemma be_nat_bytes: "length bs = n \<Longrightarrow> be_nat bs div 256 ^ i mod 256 = (if i < n then unat (bs ! (n - 1 - i)) else 0)"
proof (induction bs arbitrary: i n rule: rev_induct)
  case (snoc b bs)
  show ?case
  proof (cases i)
    case 0
    have "n - 1 = length bs" using snoc.prems by simp
    then show ?thesis using 0 snoc.prems byte_less(2) [of b] by simp
  next
    case (Suc j)
    have "be_nat (bs @ [b]) div 256 ^ i = be_nat bs div 256 ^ j"
      using byte_less(2) [of b] by (simp add: Suc div_mult2_eq)
    with snoc show ?thesis by (auto simp: Suc nth_append)
  qed
qed simp

lemma int_bytes_be_nat_hd:
  assumes B: "bigint_ok B" and "bs \<noteq> []" "hd bs \<noteq> 0"
  shows "byteCount B (be_nat bs) = length bs" "int_bytes B (be_nat bs) = bs"
proof -
  let ?n = "be_nat bs"
  have "?n div 256 ^ (length bs - 1) mod 256 = unat (hd bs)"
    using be_nat_bytes [of bs "length bs" "length bs - 1"] assms(2) by (simp add: hd_conv_nth)
  then have "256 ^ (length bs - 1) \<le> ?n"
    using assms(3) by (metis div_less mod_0 not_le unat_eq_zero)
  then have "256 ^ (length bs - 1) < (256 :: nat) ^ byteCount B ?n"
    using bigint_facts(2) [OF B, of ?n] by linarith
  then have lo: "length bs - 1 < byteCount B ?n" by simp
  then have "256 ^ (byteCount B ?n - 1) < (256 :: nat) ^ length bs"
    using bigint_facts(3) [OF B, of ?n] be_nat_less [of bs] by linarith
  then have "byteCount B ?n - 1 < length bs" by simp
  with lo show l: "byteCount B ?n = length bs" using assms(2) by simp
  then show "int_bytes B ?n = bs"
    using int_bytes_be_nat [OF B, of ?n] by (intro be_nat_inj) simp_all
qed

text \<open>A signature made with the private key is accepted exactly when the digest does not start
  with a zero byte, which \<open>ByteCount\<close> does not count.\<close>

lemma sig_check_get:
  assumes B: "bigint_ok B" and kp: "key_pair B pubk privk" and h: "h \<noteq> []" "be_nat h < pubk ! 0"
    and buf: "\<forall>m < pubk ! 0. byteCount B m \<le> n" and g: "sig_get B privk h n = Some sig"
  shows "sig_check B pubk h sig = Some (hd h \<noteq> 0)"
proof -
  obtain m where m: "m < pubk ! 0" "rsadecrypt B privk (be_nat h) = Some m" "rsaencrypt B pubk m = Some (be_nat h)"
    using kp h(2) by (auto simp: key_pair_def)
  have "sig = int_bytes B m"
    using g m(1,2) buf by (auto simp: sig_get_def rawdecrypt_def bigint_facts(5) [OF B])
  then have fs: "fromBytes B sig = m" by (simp add: bigint_facts(5) [OF B] int_bytes_be_nat [OF B])
  have "sig_check B pubk h sig = Some (int_bytes B (be_nat h) = h)"
    using h(1) length_int_bytes [of B "be_nat h"]
    by (auto simp: sig_check_def rawencrypt_def fs m(3) simp del: length_int_bytes)
  also have "int_bytes B (be_nat h) = h \<longleftrightarrow> hd h \<noteq> 0"
  proof
    assume eq: "int_bytes B (be_nat h) = h"
    then have len: "byteCount B (be_nat h) = length h" by (metis length_int_bytes)
    show "hd h \<noteq> 0"
    proof
      assume z: "hd h = 0"
      have "be_nat h = be_nat (tl h)"
        using h(1) z by (cases h) (simp_all add: be_nat_def)
      also have "\<dots> < 256 ^ (length h - 1)" using be_nat_less [of "tl h"] by simp
      finally show False using bigint_facts(3) [OF B, of "be_nat h"] len h(1) by simp
    qed
  qed (simp add: int_bytes_be_nat_hd(2) [OF B h(1)])
  finally show ?thesis .
qed

lemma byteCount_bound:
  assumes B: "bigint_ok B" and "\<forall>c < n. bitCount B c < 65536"
  shows "byteCount B n < 2 ^ 32"
proof (cases "n = 0 \<or> byteCount B n = 0")
  case True
  then have "byteCount B n = 0 \<or> byteCount B n = 1"
    using bigint_facts(3) [OF B, of n] by (cases "byteCount B n") auto
  then show ?thesis by auto
next
  case False
  have "bitCount B (n - 1) < 65536" using assms(2) False by simp
  then obtain K where K: "byteCount B (n - 1) \<le> K" "K < 65536"
    using bigint_facts(1) [OF B, of "n - 1"] by (intro that [of 8193]) simp_all
  from K(1) have "(256 :: nat) ^ byteCount B (n - 1) \<le> 256 ^ K" by (intro power_increasing) auto
  then have "n \<le> 256 ^ K" using bigint_facts(2) [OF B, of "n - 1"] False by linarith
  then have "(256 :: nat) ^ (byteCount B n - 1) \<le> 256 ^ K" using bigint_facts(3) [OF B, of n] False by (meson le_trans not_gr_zero)
  then have "byteCount B n - 1 \<le> K" by (rule power_le_imp_le_exp [rotated]) simp
  then show ?thesis using K(2) by simp
qed

text \<open>The envelope: padded, encrypted, printed with its length, and read back.\<close>

lemma asymm_decrypt_encrypt:
  assumes B: "bigint_ok B" and kp: "key_pair B pubk privk" and bits: "\<forall>c < pubk ! 0. bitCount B c < 65536"
    and N: "byteCount B (pubk ! 0) = N" "length (plain @ pad) = N - 2" "2 < N" "N + 2 \<le> buflen"
    and al: "plain \<noteq> []" "hd plain \<noteq> 0 \<or> byteCount B (privk ! 2) = N" "byteCount B (privk ! 2) \<le> N"
      "2 \<le> byteCount B (privk ! 2)"
  shows "\<exists>c. asymm_encrypt B pubk plain pad buflen = Some c \<and>
    asymm_decrypt B privk c (length plain) = Some (Some plain)"
proof -
  let ?t = "be_nat (plain @ pad)"
  have "?t < 256 ^ (N - 2)" using be_nat_less [of "plain @ pad"] N(2) by simp
  also have "\<dots> \<le> 256 ^ (N - 1)" by (rule power_increasing) auto
  also have "\<dots> \<le> pubk ! 0" using bigint_facts(3) [OF B, of "pubk ! 0"] N(1,3) by simp
  finally obtain c where c: "c < pubk ! 0" "rsaencrypt B pubk ?t = Some c" "rsadecrypt B privk c = Some ?t"
    using kp by (auto simp: key_pair_def)
  have enc: "asymm_encrypt B pubk plain pad buflen = Some (ser_int B c)"
    using N c(2) by (simp add: asymm_encrypt_def bigint_facts(5) [OF B])
  have dec: "decodeintarray B [0] 1 (ser_int B c) = ([c], True)"
    using decode_ints_serialize [OF B, of "[c]" "[]"] bits c(1) by (simp add: decodeintarray_def)
  have "byteCount B ?t \<le> N - 2"
  proof (rule ccontr)
    assume gt: "\<not> byteCount B ?t \<le> N - 2"
    then have "256 ^ (N - 2) \<le> (256 :: nat) ^ (byteCount B ?t - 1)" by (intro power_increasing) auto
    then show False using bigint_facts(3) [OF B, of ?t] \<open>?t < 256 ^ (N - 2)\<close> gt by linarith
  qed
  moreover have "byteCount B ?t = N - 2" if "hd plain \<noteq> 0"
    using int_bytes_be_nat_hd(1) [OF B, of "plain @ pad"] that al(1) N(2) by simp
  ultimately have l: "max (byteCount B (privk ! 2) - 2) (byteCount B ?t) = N - 2"
    using al by (auto simp: max_def)
  have "asymm_decrypt B privk (ser_int B c) (length plain) = Some (Some plain)"
  proof -
    have bytes: "getByte B ?t (N - 3 - i) = plain ! i" if i: "i < length plain" for i
    proof -
      have "N - 3 - i < N - 2" "N - 2 - 1 - (N - 3 - i) = i" using i N(2) by auto
      then have "?t div 256 ^ (N - 3 - i) mod 256 = unat (plain ! i)"
        using be_nat_bytes [OF N(2), of "N - 3 - i"] i by (simp only: if_True nth_append)
      then have "unat (getByte B ?t (N - 3 - i)) = unat (plain ! i)"
        by (simp add: bigint_facts(4) [OF B] unsigned_of_nat take_bit_eq_mod)
      then show ?thesis by (simp add: word_unat_eq_iff)
    qed
    define l1 :: u32 where "l1 = (if of_nat (byteCount B ?t) > (of_nat (byteCount B (privk ! 2)) - 2 :: u32)
      then of_nat (byteCount B ?t) else of_nat (byteCount B (privk ! 2)) - 2)"
    have N32: "N < 2 ^ 32" using byteCount_bound [OF B bits] N(1) by simp
    have d2: "of_nat (byteCount B (privk ! 2)) - 2 = (of_nat (byteCount B (privk ! 2) - 2) :: u32)"
      using al(4) by (simp add: of_nat_diff)
    have l1: "l1 = of_nat (N - 2)"
      using l al(3) N32 N(3) unfolding l1_def d2
      by (auto simp: max_def word_less_nat_alt unsigned_of_nat take_bit_nat_eq_self split: if_splits)
    have "rev (map (\<lambda>i. getByte B ?t (unat (l1 - of_nat (length plain) + of_nat i))) [0..<length plain]) = plain"
    proof (rule nth_equalityI)
      fix i assume "i < length (rev (map (\<lambda>i. getByte B ?t (unat (l1 - of_nat (length plain) + of_nat i))) [0..<length plain]))"
      then have i: "i < length plain" by simp
      have "length plain \<le> N - 2" using N(2) by simp
      then have "l1 - of_nat (length plain) + of_nat (length plain - Suc i) = (of_nat (N - 3 - i) :: u32)"
        using i l1 by (simp flip: of_nat_diff of_nat_add) (simp add: of_nat_diff)
      moreover have "unat (of_nat (N - 3 - i) :: u32) = N - 3 - i"
        using N32 by (simp add: unsigned_of_nat take_bit_nat_eq_self)
      moreover have "[0..<length plain] ! (length plain - Suc i) = length plain - Suc i" using i by (subst nth_upt) auto
      ultimately show "rev (map (\<lambda>i. getByte B ?t (unat (l1 - of_nat (length plain) + of_nat i))) [0..<length plain]) ! i = plain ! i"
        using i bytes [OF i] by (simp add: rev_nth del: of_nat_diff)
    qed simp
    then show ?thesis unfolding asymm_decrypt_def dec Let_def l1_def
      by (simp only: prod.case c(3) list.sel option.map) simp
  qed
  with enc show ?thesis by blast
qed

text \<open>A concrete instance of the library functions.\<close>

definition nat_bigint :: bigint where
  "nat_bigint = \<lparr>bitCount = floorlog 2, byteCount = \<lambda>n. (floorlog 2 n + 7) div 8,
     getByte = \<lambda>n i. of_nat (n div 256 ^ i), fromBytes = be_nat, expMod = \<lambda>x e m. x ^ e mod m,
     inverseMod = (\<lambda>x m. case find (\<lambda>y. x * y mod m = 1) [0..<m] of Some y \<Rightarrow> y | None \<Rightarrow> 0), intLCM = lcm\<rparr>"

lemma nat_bigint_ok: "bigint_ok nat_bigint"
proof -
  have p: "(256 :: nat) ^ k = 2 ^ (8 * k)" for k by (simp add: power_mult)
  have "n < 256 ^ ((floorlog 2 n + 7) div 8)" for n
    unfolding p by (rule floorlog_leD) auto
  moreover have "256 ^ ((floorlog 2 n + 7) div 8 - 1) \<le> n" if "0 < (floorlog 2 n + 7) div 8" for n
  proof -
    have "Suc (8 * ((floorlog 2 n + 7) div 8 - 1)) \<le> floorlog 2 n" using that div_times_less_eq_dividend [of "floorlog 2 n + 7" 8] by linarith
    from floorlog_geD [OF this] show ?thesis unfolding p by simp
  qed
  moreover have "x * inverseMod nat_bigint x m mod m = 1 \<and> inverseMod nat_bigint x m < m" if m: "1 < m" "coprime x m" for x m
  proof -
    have "x \<noteq> 0" using m by (cases "x = 0") auto
    then obtain y z where "x * y = m * z + gcd x m" using bezout_nat by blast
    then have "x * (y mod m) mod m = (m * z + 1) mod m" using m by (simp add: mod_mult_right_eq)
    also have "\<dots> = 1" using m by (metis mod_less mod_mult_self2 add.commute)
    finally have "x * (y mod m) mod m = 1" .
    moreover have "y mod m < m" using m by simp
    ultimately have "find (\<lambda>y. x * y mod m = 1) [0..<m] \<noteq> None" by (auto simp: find_None_iff)
    then obtain i where i: "find (\<lambda>y. x * y mod m = 1) [0..<m] = Some i" by blast
    then have "i < m" "x * i mod m = 1" by (auto simp: find_Some_iff)
    with i show ?thesis by (simp add: nat_bigint_def)
  qed
  ultimately show ?thesis by (auto simp: bigint_ok_def nat_bigint_def)
qed

end
