(* ===== verification/Utils.thy ===== *)
theory Utils
  imports Symm_Cipher
begin

text \<open>
  \<open>src/utils.cpp\<close>: the chunk grid of transfers (\<open>ChunkedHash\<close>), padded CBC, the \<open>Cachable\<close>
  state; and \<open>PrnGen::genuint32\<close> of \<open>src/crypto/cryptopp.cpp\<close>. File offsets are \<open>m_off_t\<close>,
  64-bit; positions of existing files stay far from its limit and are modelled as \<open>int\<close>.
\<close>

section \<open>Random numbers\<close>

text \<open>\<open>t\<close> is the random word; \<open>None\<close> is the division by zero.\<close>

definition genuint32 :: "u32 \<Rightarrow> u64 \<Rightarrow> u32 option" where
  "genuint32 t m =
     (if m = 0 then None
      else let d = (ucast (NOT 0 :: u32) + 1) div m in
        if d = 0 then None else Some (ucast ((ucast t :: u64) div d)))"

section \<open>Cachable\<close>

record cachable =
  dbid :: u32
  notified :: bool

definition new_cachable :: cachable where
  "new_cachable = \<lparr>dbid = 0, notified = False\<rparr>"

section \<open>ChunkedHash\<close>

definition SEGSIZE :: int where
  "SEGSIZE = 131072"

text \<open>
  The loop at \<open>i\<close> with \<open>cp\<close>: the chunk \<open>(cp, np)\<close> that holds \<open>p\<close>, or the final \<open>cp\<close>. Positions are unbounded; they stand for
  the \<open>m_off_t\<close> of the source below \<open>2 ^ 63 - 2 ^ 20\<close>, where nothing overflows.
\<close>

function chunk_loop :: "int \<Rightarrow> int \<Rightarrow> int \<Rightarrow> (int \<times> int) + int" where
  "chunk_loop p i cp =
     (if i \<le> 8 then
        (let np = cp + i * SEGSIZE in
         if p \<ge> cp \<and> p < np then Inl (cp, np) else chunk_loop p (i + 1) np)
      else Inr cp)"
  by pat_completeness auto
termination
  by (relation "measure (\<lambda>(p, i, cp). nat (9 - i))") auto

declare chunk_loop.simps [simp del]

definition chunkfloor :: "int \<Rightarrow> int" where
  "chunkfloor p =
     (case chunk_loop p 1 0 of
        Inl (cp, np) \<Rightarrow> cp
      | Inr cp \<Rightarrow> ((p - cp) AND - (8 * SEGSIZE)) + cp)"

definition chunkceil :: "int \<Rightarrow> int" where
  "chunkceil p =
     (case chunk_loop p 1 0 of
        Inl (cp, np) \<Rightarrow> np
      | Inr cp \<Rightarrow> ((p - cp) AND - (8 * SEGSIZE)) + cp + 8 * SEGSIZE)"

section \<open>PaddedCBC\<close>

definition padded_encrypt :: "aes \<Rightarrow> symm \<Rightarrow> bytes \<Rightarrow> bytes" where
  "padded_encrypt L key data =
     (let d = data @ str ''E'';
          n = (length d + 15) div 16 * 16
      in cbc_encrypt L key (d @ replicate (n - length d) (of_char CHR ''P'')))"

text \<open>\<open>find_last_of('E')\<close>.\<close>

fun find_last :: "'a \<Rightarrow> 'a list \<Rightarrow> nat option" where
  "find_last c [] = None"
| "find_last c (x # xs) =
     (case find_last c xs of Some i \<Rightarrow> Some (Suc i) | None \<Rightarrow> if x = c then Some 0 else None)"

text \<open>The new string and the return value.\<close>

definition padded_decrypt :: "aes \<Rightarrow> symm \<Rightarrow> bytes \<Rightarrow> bytes \<times> bool" where
  "padded_decrypt L key data =
     (if length data mod 16 \<noteq> 0 then (data, False)
      else let d = cbc_decrypt L key data in
        case find_last (of_char CHR ''E'') d of
          None \<Rightarrow> (d, False)
        | Some p \<Rightarrow> (take p d, True))"

section \<open>Proofs\<close>

text \<open>The chunk grid: chunk \<open>k\<close> has size \<open>min (k + 1) 8\<close> segments.\<close>

definition chunk_start :: "nat \<Rightarrow> int" where
  "chunk_start k = SEGSIZE * (if k \<le> 8 then int k * (int k + 1) div 2 else 36 + 8 * (int k - 8))"

lemma and_minus_20: "x AND - (8 * SEGSIZE) = x - x mod (8 * SEGSIZE)" for x :: int
proof -
  have "- (8 * SEGSIZE) = NOT (mask 20 :: int)"
    by (simp add: SEGSIZE_def mask_eq_exp_minus_1 not_int_def)
  moreover have "x AND NOT (mask 20) = push_bit 20 (drop_bit 20 x)"
    by (rule bit_eqI) (auto simp: bit_simps)
  moreover have "push_bit 20 (drop_bit 20 x) = x - x mod (8 * SEGSIZE)"
    by (simp add: push_bit_eq_mult drop_bit_eq_div SEGSIZE_def minus_mod_eq_div_mult)
  ultimately show ?thesis by simp
qed

lemma chunk_start_Suc: "chunk_start (Suc k) = chunk_start k + SEGSIZE * min (int k + 1) 8"
proof -
  have "(int k + 1) * (int k + 2) div 2 = int k * (int k + 1) div 2 + (int k + 1)"
    by (simp add: algebra_simps)
  moreover have "k = 8 \<or> k \<le> 7 \<or> 8 < k" by auto
  ultimately show ?thesis by (auto simp: chunk_start_def SEGSIZE_def min_def algebra_simps)
qed

lemma chunk_start_0 [simp]: "chunk_start 0 = 0"
  by (simp add: chunk_start_def)

lemma chunk_start_8: "8 \<le> k \<Longrightarrow> chunk_start k = chunk_start 8 + 8 * SEGSIZE * (int k - 8)"
  by (auto simp: chunk_start_def SEGSIZE_def)

text \<open>What the loop finds.\<close>

lemma chunk_loop_grid:
  assumes "i = int k + 1" "k \<le> 8" "cp = chunk_start k" "cp \<le> p"
  shows "(\<exists>j. chunk_loop p i cp = Inl (chunk_start j, chunk_start (Suc j)) \<and>
            chunk_start j \<le> p \<and> p < chunk_start (Suc j)) \<or>
         (chunk_loop p i cp = Inr (chunk_start 8) \<and> chunk_start 8 \<le> p)"
  using assms
proof (induction p i cp arbitrary: k rule: chunk_loop.induct)
  case (1 p i cp)
  show ?case
  proof (cases "i \<le> 8")
    case True
    have np: "cp + i * SEGSIZE = chunk_start (Suc k)"
      using 1(2,4) True by (simp add: chunk_start_Suc min_def)
    show ?thesis
    proof (cases "p < cp + i * SEGSIZE")
      case True
      with \<open>i \<le> 8\<close> 1 np show ?thesis by (subst (1 2) chunk_loop.simps) auto
    next
      case False
      have "chunk_loop p i cp = chunk_loop p (i + 1) (cp + i * SEGSIZE)"
        using True False by (subst chunk_loop.simps) simp
      moreover note 1(1) [OF True refl _, of "Suc k"]
      ultimately show ?thesis using 1(2,3) True False np by auto
    qed
  next
    case False
    then have "k = 8" using 1(2,3) by simp
    with False 1 show ?thesis by (subst (1 2) chunk_loop.simps) auto
  qed
qed

lemma chunk_bounds:
  assumes "0 \<le> p"
  shows "\<exists>k. chunkfloor p = chunk_start k \<and> chunkceil p = chunk_start (Suc k) \<and>
    chunk_start k \<le> p \<and> p < chunk_start (Suc k)"
proof -
  have "(\<exists>j. chunk_loop p 1 0 = Inl (chunk_start j, chunk_start (Suc j)) \<and>
            chunk_start j \<le> p \<and> p < chunk_start (Suc j)) \<or>
        (chunk_loop p 1 0 = Inr (chunk_start 8) \<and> chunk_start 8 \<le> p)"
    using chunk_loop_grid [of 1 0 0 p] assms by simp
  then show ?thesis
  proof
    assume l: "chunk_loop p 1 0 = Inr (chunk_start 8) \<and> chunk_start 8 \<le> p"
    define x where "x = p - chunk_start 8"
    define k where "k = nat (x div (8 * SEGSIZE)) + 8"
    have x: "0 \<le> x" using l by (simp add: x_def)
    have k: "chunk_start k = chunk_start 8 + (x - x mod (8 * SEGSIZE))"
      using x chunk_start_8 [of k] by (simp add: k_def SEGSIZE_def minus_mod_eq_mult_div pos_imp_zdiv_nonneg_iff)
    have Sk: "chunk_start (Suc k) = chunk_start k + 8 * SEGSIZE"
      unfolding chunk_start_Suc by (simp add: k_def)
    have "chunkfloor p = chunk_start k" "chunkceil p = chunk_start (Suc k)"
      using l by (simp_all add: chunkfloor_def chunkceil_def and_minus_20 Sk k flip: x_def)
    moreover have "chunk_start k \<le> p" "p < chunk_start (Suc k)"
      using pos_mod_bound [of "8 * SEGSIZE" x] pos_mod_sign [of "8 * SEGSIZE" x]
      unfolding Sk k by (simp_all add: x_def SEGSIZE_def)
    ultimately show ?thesis by blast
  qed (auto simp: chunkfloor_def chunkceil_def)
qed

lemma chunk_start_mono: "j < k \<Longrightarrow> chunk_start j < chunk_start k"
proof (induction k)
  case (Suc k)
  have "chunk_start k < chunk_start (Suc k)" by (simp add: chunk_start_Suc SEGSIZE_def)
  with Suc show ?case by (cases "j = k") auto
qed simp

lemma chunk_floor_unique:
  assumes "chunk_start k \<le> p" "p < chunk_start (Suc k)"
  shows "chunkfloor p = chunk_start k" "chunkceil p = chunk_start (Suc k)"
proof -
  have "0 \<le> p" using assms(1) chunk_start_mono [of 0 k] by (cases k) auto
  then obtain j where j: "chunkfloor p = chunk_start j" "chunkceil p = chunk_start (Suc j)"
    "chunk_start j \<le> p" "p < chunk_start (Suc j)" using chunk_bounds by blast
  have "j = k"
    using assms j(3,4) chunk_start_mono [of "Suc j" k] chunk_start_mono [of "Suc k" j]
    by (metis linorder_neqE_nat not_less_eq less_antisym order.strict_trans1 order.strict_trans not_less)
  with j show "chunkfloor p = chunk_start k" "chunkceil p = chunk_start (Suc k)" by simp_all
qed

lemma find_last_none: "find_last c xs = None \<longleftrightarrow> c \<notin> set xs"
  by (induction xs) (auto split: option.splits)

lemma find_last_append: "c \<notin> set ys \<Longrightarrow> find_last c (xs @ c # ys) = Some (length xs)"
  by (induction xs) (auto simp: find_last_none split: option.splits)

lemma padded_roundtrip:
  assumes "aes_ok L"
  shows "padded_decrypt L key (padded_encrypt L key data) = (data, True)"
proof -
  define n where "n = (length data + 16) div 16 * 16"
  define d where "d = data @ str ''E'' @ replicate (n - (length data + 1)) (of_char CHR ''P'')"
  have "length data + 1 \<le> n" using round_up_ge [of "length data + 1"] by (simp add: n_def)
  then have "length d = n" by (simp add: d_def str_def)
  then have d: "16 dvd length d" by (simp add: n_def)
  have "padded_encrypt L key data = cbc_encrypt L key d"
    by (simp add: padded_encrypt_def d_def n_def str_def add.commute)
  moreover have "cbc_decrypt L key (cbc_encrypt L key d) = d" "16 dvd length (cbc_encrypt L key d)"
    using assms d by (simp_all add: aes_ok_def cbc_decrypt_def cbc_encrypt_def)
  moreover have "find_last (of_char CHR ''E'') d = Some (length data)"
    unfolding d_def str_def by (simp add: find_last_append)
  ultimately show ?thesis by (simp add: padded_decrypt_def d_def)
qed

section \<open>Random numbers out of range\<close>

lemma genuint32_out_of_range: "genuint32 (NOT 0) 3 = Some 3" "genuint32 t (2 ^ 33) = None"
proof -
  have "ucast (NOT 0 :: u32) + 1 = (4294967296 :: u64)" "ucast (NOT 0 :: u32) = (4294967295 :: u64)" by code_simp+
  then show "genuint32 (NOT 0) 3 = Some 3" "genuint32 t (2 ^ 33) = None" unfolding genuint32_def Let_def by simp_all
qed

end
