(* ===== verification/User.thy ===== *)
theory User
  imports Codec Asymm_Cipher Utils "HOL-Library.List_Lexorder"
begin

text \<open>
  \<open>src/user.cpp\<close> and the user tables of \<open>src/megaclient.cpp\<close> (\<open>finduser\<close>, \<open>mapuser\<close>):
  contacts, their two indexes and their cache record. \<open>visibility_t\<close> is a 32-bit enumeration
  (\<open>VISIBILITY_UNKNOWN\<close> -1, \<open>HIDDEN\<close> 0, \<open>VISIBLE\<close> 1, \<open>ME\<close> 2). A \<open>User*\<close> is the user's
  key in \<open>users\<close> (\<open>None\<close>: NULL). Reads behind the end of a record give 0.
\<close>

section \<open>User\<close>

record user = cachable +
  u_userhandle :: handle
  u_uid :: bytes
  u_email :: bytes
  u_attrs :: attr_map
  u_show :: int
  u_ctime :: int
  u_pubk :: "nat list"
  u_pubkrequested :: bool
  u_sharing :: "handle list"

definition User :: "bytes option \<Rightarrow> user" where
  "User cemail =
     \<lparr>dbid = 0, notified = False, u_userhandle = UNDEF, u_uid = [],
      u_email = (case cemail of Some e \<Rightarrow> e | None \<Rightarrow> []), u_attrs = [], u_show = -1, u_ctime = 0,
      u_pubk = [0, 0, 0, 0], u_pubkrequested = False, u_sharing = []\<rparr>"

definition user_set :: "int \<Rightarrow> int \<Rightarrow> user \<Rightarrow> user" where
  "user_set v ct u = u\<lparr>u_show := v, u_ctime := ct\<rparr>"

definition user_serialize :: "bigint \<Rightarrow> user \<Rightarrow> bytes" where
  "user_serialize B u =
     (let l = of_nat (length (u_email u)) :: byte in
      le_bytes 8 (u_userhandle u) @ le_bytes 8 (word_of_int (u_ctime u) :: u64) @
      le_bytes 4 (word_of_int (u_show u) :: u32) @ [l] @ take (unat l) (u_email u) @ replicate 8 0 @
      attrs_serialize (u_attrs u) @
      (if asymm_isvalid B (u_pubk u) then serializekey B (u_pubk u) 2 [] else []))"

section \<open>The user tables\<close>

record usertab =
  ut_users :: "(int, user) omap"
  ut_userid :: int
  ut_uhindex :: "(handle, int) omap"
  ut_umindex :: "(bytes, int) omap"

text \<open>\<open>Node::copystring\<close> of a non-null pointer: up to a quote or the end.\<close>

definition copystring :: "bytes \<Rightarrow> bytes" where
  "copystring p = takeWhile (\<lambda>c. c \<noteq> ch_quote) (takeWhile (\<lambda>c. c \<noteq> 0) p)"

definition tolower :: "byte \<Rightarrow> byte" where
  "tolower c = (if 65 \<le> c \<and> c \<le> 90 then c + 32 else c)"

definition users_at :: "usertab \<Rightarrow> int \<Rightarrow> user" where
  "users_at t i = (case om_lookup (ut_users t) i of Some u \<Rightarrow> u | None \<Rightarrow> User None)"

definition put_user :: "int \<Rightarrow> user \<Rightarrow> usertab \<Rightarrow> usertab" where
  "put_user i u t = t\<lparr>ut_users := om_update i u (ut_users t)\<rparr>"

text \<open>\<open>finduser(handle, add)\<close>.\<close>

definition finduser_handle :: "handle \<Rightarrow> bool \<Rightarrow> usertab \<Rightarrow> int option \<times> usertab" where
  "finduser_handle uh add t =
     (if uh = 0 then (None, t)
      else case om_lookup (ut_uhindex t) uh of
        None \<Rightarrow>
          if \<not> add then (None, t)
          else
            (let i = ut_userid t + 1;
                 u = (users_at t i)\<lparr>u_uid := take 11 (btoa (le_bytes 8 uh)), u_userhandle := uh\<rparr>
             in (Some i, (put_user i u t)\<lparr>ut_userid := i, ut_uhindex := om_update uh i (ut_uhindex t)\<rparr>))
      | Some i \<Rightarrow> (Some i, t))"

text \<open>\<open>finduser(const char*, add)\<close>; a handle buffer that is filled only partly is not used.\<close>

definition finduser_uid :: "bytes option \<Rightarrow> bool \<Rightarrow> usertab \<Rightarrow> int option \<times> usertab" where
  "finduser_uid uid add t =
     (case uid of
        None \<Rightarrow> (None, t)
      | Some s \<Rightarrow>
          if cur s = 0 then (None, t)
          else if 64 \<notin> set s then
            (let b = atob s 8 in
             if length b = 8 then finduser_handle (le_word b) add t else (None, t))
          else
            (let nuid = map tolower (copystring s) in
             case om_lookup (ut_umindex t) nuid of
               None \<Rightarrow>
                 if \<not> add then (None, t)
                 else
                   (let i = ut_userid t + 1;
                        u = (users_at t i)\<lparr>u_uid := nuid, u_email := copystring s\<rparr>
                    in (Some i, (put_user i u t)\<lparr>ut_userid := i, ut_umindex := om_update nuid i (ut_umindex t)\<rparr>))
             | Some i \<Rightarrow> (Some i, t)))"

definition mapuser :: "handle \<Rightarrow> bytes \<Rightarrow> usertab \<Rightarrow> usertab" where
  "mapuser uh email t =
     (if cur email = 0 then t
      else
        (let nuid = map tolower (copystring email) in
         case om_lookup (ut_uhindex t) uh of
           Some i \<Rightarrow>
             if u_email (users_at t i) = []
             then (put_user i ((users_at t i)\<lparr>u_email := copystring email\<rparr>) t)
                    \<lparr>ut_umindex := om_update nuid i (ut_umindex t)\<rparr>
             else t
         | None \<Rightarrow>
             (case om_lookup (ut_umindex t) nuid of
                Some i \<Rightarrow>
                  (put_user i ((users_at t i)\<lparr>u_userhandle := uh, u_uid := take 11 (btoa (le_bytes 8 uh))\<rparr>) t)
                    \<lparr>ut_uhindex := om_update uh i (ut_uhindex t)\<rparr>
              | None \<Rightarrow> t)))"

section \<open>Reading a cache record\<close>

text \<open>\<open>for (i = 8; i--;) if (ptr + *ptr < end) ptr += *ptr + 1\<close>: the eight extension fields.\<close>

fun skip_ext :: "nat \<Rightarrow> bytes \<Rightarrow> bytes" where
  "skip_ext 0 p = p"
| "skip_ext (Suc i) p =
     skip_ext i (if unat (cur p) < length p then drop (unat (cur p) + 1) p else p)"

text \<open>The attributes and the public key at the end of the record: the user returned and the tables.\<close>

definition user_read_rest :: "bigint \<Rightarrow> bytes \<Rightarrow> int \<Rightarrow> usertab \<Rightarrow> int option \<times> usertab" where
  "user_read_rest B p i t =
     (if p = [] then (Some i, t)
      else case attrs_unserialize p (u_attrs (users_at t i)) of
        None \<Rightarrow> (None, t)
      | Some (as, p2) \<Rightarrow>
          (let t1 = put_user i ((users_at t i)\<lparr>u_attrs := as\<rparr>) t in
           if p2 = [] then (Some i, t1)
           else (case asymm_setkey B 2 p2 (u_pubk (users_at t1 i)) of
                   (k, ok) \<Rightarrow> (if ok then Some i else None, put_user i ((users_at t1 i)\<lparr>u_pubk := k\<rparr>) t1))))"

text \<open>The user returned, \<open>client->me\<close> and the tables.\<close>

definition user_unserialize :: "bigint \<Rightarrow> bytes \<Rightarrow> handle \<Rightarrow> usertab \<Rightarrow> int option \<times> handle \<times> usertab" where
  "user_unserialize B d me t =
     (if length d < 22 then (None, me, t)
      else
        (let uh = le_word (take 8 d) :: handle;
             ts = sint (le_word (take 8 (drop 8 d)) :: u64);
             v = sint (le_word (take 4 (drop 16 d)) :: u32);
             l = unat (d ! 20);
             m = take l (drop 21 d);
             p = skip_ext 8 (drop (21 + l) d)
         in case finduser_handle uh True t of
              (None, t1) \<Rightarrow> (None, me, t1)
            | (Some i, t1) \<Rightarrow>
                (let me1 = (if v = 2 then uh else me);
                     t2 = mapuser uh m t1;
                     t3 = put_user i (user_set v ts (users_at t2 i)) t2;
                     (r, t4) = user_read_rest B p i t3
                 in (r, me1, t4))))"

section \<open>Invariant\<close>

text \<open>The indexes point to existing users; keys run up to \<open>userid\<close>.\<close>

definition ut_ok :: "usertab \<Rightarrow> bool" where
  "ut_ok t \<longleftrightarrow>
     om_invar (ut_users t) \<and> om_invar (ut_uhindex t) \<and> om_invar (ut_umindex t) \<and>
     (\<forall>i. om_lookup (ut_users t) i \<noteq> None \<longrightarrow> i \<le> ut_userid t) \<and>
     (\<forall>h i. om_lookup (ut_uhindex t) h = Some i \<longrightarrow> om_lookup (ut_users t) i \<noteq> None) \<and>
     (\<forall>e i. om_lookup (ut_umindex t) e = Some i \<longrightarrow> om_lookup (ut_users t) i \<noteq> None)"

lemmas ut_simps = om.lookup_update om.invar_update put_user_def users_at_def

lemma put_user_ok: "ut_ok t \<Longrightarrow> om_lookup (ut_users t) i \<noteq> None \<Longrightarrow> ut_ok (put_user i u t)"
  by (auto simp: ut_ok_def ut_simps)

lemma finduser_handle_ok:
  assumes "ut_ok t"
  shows "ut_ok (snd (finduser_handle uh add t))"
    and "fst (finduser_handle uh add t) = Some i \<Longrightarrow> om_lookup (ut_users (snd (finduser_handle uh add t))) i \<noteq> None"
  using assms by (auto simp: ut_ok_def finduser_handle_def Let_def ut_simps split: option.splits if_splits)

lemma finduser_uid_ok:
  assumes "ut_ok t"
  shows "ut_ok (snd (finduser_uid uid add t))"
    and "fst (finduser_uid uid add t) = Some i \<Longrightarrow> om_lookup (ut_users (snd (finduser_uid uid add t))) i \<noteq> None"
proof -
  note f = finduser_handle_ok [OF assms, of "le_word (atob s 8)" add for s]
  show "ut_ok (snd (finduser_uid uid add t))"
    using assms f(1) by (auto simp: finduser_uid_def Let_def ut_ok_def ut_simps split: option.splits if_splits)
  show "fst (finduser_uid uid add t) = Some i \<Longrightarrow> om_lookup (ut_users (snd (finduser_uid uid add t))) i \<noteq> None"
    using assms f(2) by (auto simp: finduser_uid_def Let_def ut_ok_def ut_simps split: option.splits if_splits)
qed

lemma mapuser_ok:
  assumes "ut_ok t"
  shows "ut_ok (mapuser uh email t)"
    and "om_lookup (ut_users t) i \<noteq> None \<Longrightarrow> om_lookup (ut_users (mapuser uh email t)) i \<noteq> None"
  using assms by (auto simp: mapuser_def Let_def ut_ok_def ut_simps split: option.splits)

lemma put_user_keeps: "ut_ok t \<Longrightarrow> om_lookup (ut_users t) i \<noteq> None \<Longrightarrow> om_lookup (ut_users (put_user j u t)) i \<noteq> None"
  by (auto simp: ut_ok_def ut_simps)

lemma user_read_rest_ok:
  assumes "ut_ok t" "om_lookup (ut_users t) i \<noteq> None"
  shows "ut_ok (snd (user_read_rest B p i t))"
  using assms unfolding user_read_rest_def Let_def
  by (simp add: put_user_ok put_user_keeps split: option.split prod.split)

lemma user_unserialize_ok:
  assumes "ut_ok t"
  shows "ut_ok (snd (snd (user_unserialize B d me t)))"
proof -
  obtain r t1 where f: "finduser_handle (le_word (take 8 d)) True t = (r, t1)" by fastforce
  have t1: "ut_ok t1" "\<And>i. r = Some i \<Longrightarrow> om_lookup (ut_users t1) i \<noteq> None"
    using finduser_handle_ok [OF assms, of "le_word (take 8 d)" True] f by auto
  have "ut_ok (snd (user_read_rest B p i (put_user i u (mapuser uh m t1))))" if "r = Some i" for p i u uh m
    using t1(1) t1(2) [OF that] by (intro user_read_rest_ok put_user_ok put_user_keeps mapuser_ok)
  then show ?thesis
    using assms t1 by (cases r) (simp_all add: user_unserialize_def Let_def f case_prod_beta)
qed

text \<open>A handle that was looked up with \<open>add\<close> stays mapped to that user.\<close>

lemma finduser_handle_again:
  assumes "ut_ok t" "finduser_handle uh True t = (Some i, t')"
  shows "finduser_handle uh add t' = (Some i, t')"
  using assms by (auto simp: finduser_handle_def Let_def ut_ok_def ut_simps split: option.splits if_splits)

lemma finduser_uid_again:
  assumes "ut_ok t" "finduser_uid (Some s) True t = (Some i, t')"
  shows "finduser_uid (Some s) add t' = (Some i, t')"
  using assms finduser_handle_again [OF assms(1), of "le_word (atob s 8)" i t' add]
  by (auto simp: finduser_uid_def Let_def ut_ok_def ut_simps split: option.splits if_splits)

section \<open>Round trip\<close>

definition user_ok :: "bigint \<Rightarrow> user \<Rightarrow> bool" where
  "user_ok B u \<longleftrightarrow>
     u_userhandle u \<noteq> 0 \<and> length (u_email u) < 256 \<and> copystring (u_email u) = u_email u \<and>
     - (2 ^ 63) \<le> u_ctime u \<and> u_ctime u < 2 ^ 63 \<and> - (2 ^ 31) \<le> u_show u \<and> u_show u < 2 ^ 31 \<and>
     om_invar (u_attrs u) \<and> list_all attr_ok (u_attrs u) \<and>
     (if asymm_isvalid B (u_pubk u)
      then length (u_pubk u) = 4 \<and> drop 2 (u_pubk u) = [0, 0] \<and> (\<forall>k \<in> set (take 2 (u_pubk u)). bitCount B k < 65536)
      else u_pubk u = [0, 0, 0, 0])"

lemma skip_ext_zeros: "skip_ext 8 (replicate 8 0 @ r) = r"
  by (simp add: numeral_eq_Suc)

lemma setkey_serializekey:
  assumes B: "bigint_ok B" and k: "length k = 4" "drop 2 k = [0, 0]" "\<forall>x \<in> set (take 2 k). bitCount B x < 65536"
  shows "asymm_setkey B 2 (serializekey B k 2 []) [0, 0, 0, 0] = (k, True)"
proof -
  have "length (take 2 k) = 2" using k(1) by simp
  then have "decode_ints B 2 (concat (map (ser_int B) (take 2 k)) @ []) = (take 2 k, True, [])"
    using decode_ints_serialize [OF B, of "take 2 k" "[]"] k(3) by simp
  moreover have "take 2 k @ drop 2 [0, 0, 0, 0] = k" using k(2) append_take_drop_id [of 2 k] by (simp add: numeral_2_eq_2)
  ultimately show ?thesis
    using k(1) by (simp add: asymm_setkey_def decodeintarray_def serializekey_def serializeintarray_concat)
qed

definition user_tail :: "bigint \<Rightarrow> user \<Rightarrow> bytes" where
  "user_tail B u = attrs_serialize (u_attrs u) @
     (if asymm_isvalid B (u_pubk u) then serializekey B (u_pubk u) 2 [] else [])"

lemma user_read_rest_tail:
  assumes B: "bigint_ok B" and u: "user_ok B u" and t: "ut_ok t"
    and l: "om_lookup (ut_users t) i = Some v" "u_attrs v = []" "u_pubk v = [0, 0, 0, 0]"
  shows "\<exists>t'. user_read_rest B (user_tail B u) i t = (Some i, t') \<and> ut_ok t' \<and> ut_uhindex t' = ut_uhindex t \<and>
    om_lookup (ut_users t') i = Some (v\<lparr>u_attrs := u_attrs u, u_pubk := u_pubk u\<rparr>)"
proof -
  have inv: "om_invar (ut_users t)" using t by (simp add: ut_ok_def)
  have at: "attrs_unserialize (user_tail B u) [] =
      Some (u_attrs u, if asymm_isvalid B (u_pubk u) then serializekey B (u_pubk u) 2 [] else [])"
    using u attrs_roundtrip [of "u_attrs u"] by (simp add: user_tail_def user_ok_def)
  have ne: "user_tail B u \<noteq> []" by (simp add: user_tail_def attrs_serialize_def)
  define t1 where "t1 = put_user i (v\<lparr>u_attrs := u_attrs u\<rparr>) t"
  have t1: "ut_ok t1" "users_at t1 i = v\<lparr>u_attrs := u_attrs u\<rparr>" "om_lookup (ut_users t1) i \<noteq> None"
    using t l(1) inv by (simp_all add: t1_def put_user_ok) (simp_all add: ut_simps)
  show ?thesis
  proof (cases "asymm_isvalid B (u_pubk u)")
    case True
    have "serializekey B (u_pubk u) 2 [] \<noteq> []"
      using u True by (cases "u_pubk u") (auto simp: user_ok_def serializekey_def serializeintarray_concat ser_int_def)
    moreover have "asymm_setkey B 2 (serializekey B (u_pubk u) 2 []) [0, 0, 0, 0] = (u_pubk u, True)"
      using u True setkey_serializekey [OF B, of "u_pubk u"] by (simp add: user_ok_def)
    ultimately have "user_read_rest B (user_tail B u) i t =
        (Some i, put_user i (v\<lparr>u_attrs := u_attrs u, u_pubk := u_pubk u\<rparr>) t1)"
      using ne l True t1(2) at
      by (simp add: user_read_rest_def users_at_def [of t i] Let_def flip: t1_def)
    moreover have "om_invar (ut_users t1)" using t1(1) by (simp add: ut_ok_def)
    ultimately show ?thesis
      using t1 put_user_ok [OF t1(1,3)] by (simp add: ut_simps t1_def)
  next
    case False
    then have "user_read_rest B (user_tail B u) i t = (Some i, t1)"
      using ne l at by (simp add: user_read_rest_def users_at_def [of t i] Let_def flip: t1_def)
    moreover have "u_pubk u = u_pubk v" using u False l(3) by (simp add: user_ok_def)
    then have "v\<lparr>u_attrs := u_attrs u, u_pubk := u_pubk u\<rparr> = v\<lparr>u_attrs := u_attrs u\<rparr>" by simp
    ultimately show ?thesis using t1(1) inv by (simp add: t1_def ut_simps)
  qed
qed

text \<open>Reading the record of a user into tables that do not know it.\<close>

lemma user_roundtrip:
  assumes B: "bigint_ok B" and u: "user_ok B u" and t: "ut_ok t"
    and new: "om_lookup (ut_uhindex t) (u_userhandle u) = None"
  shows "\<exists>i t'. user_unserialize B (user_serialize B u) me t =
      (Some i, if u_show u = 2 then u_userhandle u else me, t') \<and> ut_ok t' \<and>
    om_lookup (ut_uhindex t') (u_userhandle u) = Some i \<and>
    om_lookup (ut_users t') i = Some (u\<lparr>dbid := 0, notified := False, u_uid := take 11 (btoa (le_bytes 8 (u_userhandle u))),
      u_pubkrequested := False, u_sharing := []\<rparr>)"
proof -
  define uh where "uh = u_userhandle u"
  define i where "i = ut_userid t + 1"
  define u0 where "u0 = (User None)\<lparr>u_uid := take 11 (btoa (le_bytes 8 uh)), u_userhandle := uh\<rparr>"
  define t1 where "t1 = (put_user i u0 t)\<lparr>ut_userid := i, ut_uhindex := om_update uh i (ut_uhindex t)\<rparr>"
  have none: "om_lookup (ut_users t) i = None" using t by (force simp: ut_ok_def i_def)
  have f: "finduser_handle uh True t = (Some i, t1)"
    using u new none by (simp add: finduser_handle_def uh_def user_ok_def Let_def i_def t1_def u0_def users_at_def)
  have t1: "ut_ok t1" using finduser_handle_ok(1) [OF t, of uh True] f by simp
  have l: "unat (of_nat (length (u_email u)) :: byte) = length (u_email u)"
    using u by (simp add: user_ok_def unat_of_nat)
  have ser: "user_serialize B u = le_bytes 8 uh @ le_bytes 8 (word_of_int (u_ctime u) :: u64) @
      le_bytes 4 (word_of_int (u_show u) :: u32) @ [of_nat (length (u_email u))] @ u_email u @ replicate 8 0 @ user_tail B u"
    by (simp add: user_serialize_def Let_def l uh_def user_tail_def)
  have rng: "sint (word_of_int (u_ctime u) :: u64) = u_ctime u" "sint (word_of_int (u_show u) :: u32) = u_show u"
    using u by (simp_all add: user_ok_def signed_of_int signed_take_bit_int_eq_self_iff)
  define t2 where "t2 = mapuser uh (u_email u) t1"
  define t3 where "t3 = put_user i (user_set (u_show u) (u_ctime u) (users_at t2 i)) t2"
  have un: "user_unserialize B (user_serialize B u) me t =
      (let (r, t4) = user_read_rest B (user_tail B u) i t3 in (r, if u_show u = 2 then uh else me, t4))"
    unfolding ser user_unserialize_def
    by (simp add: Let_def le_word_le_bytes l rng f skip_ext_zeros nth_append t2_def t3_def)
  have li: "om_lookup (ut_users t1) i = Some u0" "om_lookup (ut_uhindex t1) uh = Some i"
    using t by (simp_all add: t1_def ut_ok_def ut_simps)
  have e: "copystring (u_email u) = u_email u" using u by (simp add: user_ok_def)
  have "om_lookup (ut_users t2) i = Some (u0\<lparr>u_email := u_email u\<rparr>) \<and> ut_uhindex t2 = ut_uhindex t1"
  proof (cases "u_email u")
    case Nil
    then show ?thesis using li by (simp add: t2_def mapuser_def u0_def User_def)
  next
    case (Cons c cs)
    then have "c \<noteq> 0" using e by (auto simp: copystring_def)
    with Cons li t1 e show ?thesis
      by (simp add: t2_def mapuser_def ut_simps u0_def User_def ut_ok_def)
  qed
  note l2 = this
  have t2: "ut_ok t2" using t1 by (simp add: t2_def mapuser_ok)
  define u3 where "u3 = u0\<lparr>u_email := u_email u, u_show := u_show u, u_ctime := u_ctime u\<rparr>"
  have l3: "users_at t3 i = u3" "ut_uhindex t3 = ut_uhindex t1"
    using t2 l2 by (simp_all add: t3_def ut_ok_def ut_simps user_set_def u3_def)
  have t3: "ut_ok t3" unfolding t3_def using t2 l2 by (intro put_user_ok) auto
  have l3': "om_lookup (ut_users t3) i \<noteq> None" using t2 l2 by (simp add: t3_def put_user_keeps)
  have "u_attrs u3 = []" "u_pubk u3 = [0, 0, 0, 0]" by (simp_all add: u3_def u0_def User_def)
  moreover have "om_lookup (ut_users t3) i = Some u3" using l3 l3' by (auto simp: users_at_def)
  ultimately obtain t4 where "user_read_rest B (user_tail B u) i t3 = (Some i, t4)" "ut_ok t4" "ut_uhindex t4 = ut_uhindex t3"
      "om_lookup (ut_users t4) i = Some (u3\<lparr>u_attrs := u_attrs u, u_pubk := u_pubk u\<rparr>)"
    using user_read_rest_tail [OF B u t3] by blast
  with un li(2) l3(2) show ?thesis by (auto simp: u3_def u0_def User_def uh_def)
qed

end
