(* ===== verification/File_System.thy ===== *)
theory File_System
  imports AttrMap
begin

text \<open>
  \<open>src/filesystem.cpp\<close>: names on the local file system, time stamps, the notification queues
  and the by-name file access, whose system calls (\<open>sysstat\<close>, \<open>sysopen\<close>, \<open>sysread\<close>) are
  virtual functions and given as a record. UTF-8 normalization (\<open>utf8proc_NFC\<close>) is a
  parameter \<open>nfc\<close> (\<open>None\<close>: it returned NULL); the two path conversions are those of
  \<open>src/posix/fs.cpp\<close>.
\<close>

section \<open>Time stamps\<close>

definition captimestamp :: "int \<Rightarrow> int" where
  "captimestamp t = (if t > 4294967295 then 4294967295 else if t < 0 then 0 else t)"

section \<open>Local names\<close>

definition islchex :: "byte \<Rightarrow> bool" where
  "islchex c \<longleftrightarrow> (48 \<le> schar c \<and> schar c \<le> 57) \<or> (97 \<le> schar c \<and> schar c \<le> 102)"

definition islocalfscompatible :: "byte \<Rightarrow> bool" where
  "islocalfscompatible c \<longleftrightarrow> c \<ge> 32 \<and> c \<notin> set (str [CHR 0x5C, CHR ''/'', CHR '':'', CHR ''?'', CHR 0x22, CHR ''<'', CHR ''>'', CHR ''|'', CHR ''*''])"

text \<open>The loop at \<open>i\<close>, from the end to the start.\<close>

fun escape_fs_loop :: "nat \<Rightarrow> bytes \<Rightarrow> bytes" where
  "escape_fs_loop 0 name = name"
| "escape_fs_loop (Suc i) name =
     escape_fs_loop i
       (if \<not> islocalfscompatible (name ! i) then take i name @ (37 # hex02 (name ! i)) @ drop (Suc i) name
        else name)"

definition escapefsincompatible :: "bytes \<Rightarrow> bytes" where
  "escapefsincompatible name = escape_fs_loop (length name) name"

text \<open>\<open>(*name)[size()]\<close> is the terminator.\<close>

definition unescape_fs_at :: "nat \<Rightarrow> bytes \<Rightarrow> bytes" where
  "unescape_fs_at i name =
     (if at name i = 37 \<and> islchex (at name (i + 1)) \<and> islchex (at name (i + 2)) then
        (let c = of_int (hexval (at name (i + 1)) * 16 + hexval (at name (i + 2))) in
         if \<not> islocalfscompatible c then take i name @ c # drop (i + 3) name else name)
      else name)"

fun unescape_fs_loop :: "nat \<Rightarrow> bytes \<Rightarrow> bytes" where
  "unescape_fs_loop 0 name = name"
| "unescape_fs_loop (Suc i) name = unescape_fs_loop i (unescape_fs_at i name)"

definition unescapefsincompatible :: "bytes \<Rightarrow> bytes" where
  "unescapefsincompatible name = unescape_fs_loop (length name - 2) name"

definition normalize :: "(bytes \<Rightarrow> bytes option) \<Rightarrow> bytes \<Rightarrow> bytes" where
  "normalize nfc name =
     (case nfc (takeWhile (\<lambda>c. c \<noteq> 0) name) of Some r \<Rightarrow> r | None \<Rightarrow> name)"

definition path2local :: "bytes \<Rightarrow> bytes" where
  "path2local p = p"

definition local2path :: "(bytes \<Rightarrow> bytes option) \<Rightarrow> bytes \<Rightarrow> bytes" where
  "local2path nfc p = normalize nfc p"

definition name2local :: "bytes \<Rightarrow> bytes" where
  "name2local name = path2local (escapefsincompatible name)"

definition local2name :: "(bytes \<Rightarrow> bytes option) \<Rightarrow> bytes \<Rightarrow> bytes" where
  "local2name nfc name = unescapefsincompatible (local2path nfc name)"

section \<open>Notifications\<close>

record 'l notification =
  nt_timestamp :: dstime
  nt_localnode :: 'l
  nt_path :: bytes

datatype notifyqueue = DIREVENTS | RETRY

record 'l dirnotify =
  notifyq :: "notifyqueue \<Rightarrow> 'l notification list"
  dn_failed :: bool
  dn_error :: bool
  dn_localbasepath :: bytes
  dn_ignore :: bytes

definition DirNotify :: "bytes \<Rightarrow> bytes \<Rightarrow> 'l dirnotify" where
  "DirNotify base ign =
     \<lparr>notifyq = (\<lambda>_. []), dn_failed = True, dn_error = False, dn_localbasepath = base, dn_ignore = ign\<rparr>"

definition notify :: "dstime \<Rightarrow> notifyqueue \<Rightarrow> 'l \<Rightarrow> bytes \<Rightarrow> nat \<Rightarrow> bool \<Rightarrow> 'l dirnotify \<Rightarrow> 'l dirnotify" where
  "notify ds q l localpath len immediate d =
     d\<lparr>notifyq := (notifyq d)(q := notifyq d q @
         [\<lparr>nt_timestamp = (if immediate then 0 else ds), nt_localnode = l, nt_path = take len localpath\<rparr>])\<rparr>"

section \<open>File access by name\<close>

text \<open>\<open>sys_stat\<close>: the file's time and size, or failure; \<open>fa_handles\<close> counts what \<open>sysopen\<close>
  opened and \<open>sysclose\<close> closed.\<close>

record syscalls =
  sys_stat :: "(int \<times> int) option"
  sys_open :: bool
  sys_read :: "nat \<Rightarrow> int \<Rightarrow> bytes option"

record fileaccess =
  fa_localname :: bytes
  fa_mtime :: int
  fa_size :: int
  fa_handles :: int

text \<open>\<open>updatelocalname\<close> is virtual: on POSIX it replaces \<open>localname\<close> when that is not empty.\<close>

definition fa_fopen :: "syscalls \<Rightarrow> bytes \<Rightarrow> fileaccess \<Rightarrow> bool \<times> fileaccess" where
  "fa_fopen S name f =
     (case sys_stat S of
        None \<Rightarrow> (False, f\<lparr>fa_localname := name\<rparr>)
      | Some (t, n) \<Rightarrow> (True, f\<lparr>fa_localname := name, fa_mtime := t, fa_size := n\<rparr>))"

definition openf :: "syscalls \<Rightarrow> fileaccess \<Rightarrow> bool \<times> fileaccess" where
  "openf S f =
     (if fa_localname f = [] then (True, f)
      else case sys_stat S of
        None \<Rightarrow> (False, f)
      | Some (t, n) \<Rightarrow>
          if t \<noteq> fa_mtime f \<or> n \<noteq> fa_size f then (False, f)
          else if sys_open S then (True, f\<lparr>fa_handles := fa_handles f + 1\<rparr>)
          else (False, f))"

definition closef :: "fileaccess \<Rightarrow> fileaccess" where
  "closef f = (if fa_localname f \<noteq> [] then f\<lparr>fa_handles := fa_handles f - 1\<rparr> else f)"

text \<open>The data read (\<open>None\<close>: returned false).\<close>

definition fa_fread :: "syscalls \<Rightarrow> nat \<Rightarrow> nat \<Rightarrow> int \<Rightarrow> fileaccess \<Rightarrow> bytes option \<times> fileaccess" where
  "fa_fread S len pad pos f =
     (case openf S f of
        (False, f1) \<Rightarrow> (None, f1)
      | (True, f1) \<Rightarrow>
          (map_option (\<lambda>d. d @ replicate pad 0) (sys_read S len pos), closef f1))"

definition frawread :: "syscalls \<Rightarrow> nat \<Rightarrow> int \<Rightarrow> fileaccess \<Rightarrow> bytes option \<times> fileaccess" where
  "frawread S len pos f =
     (case openf S f of
        (False, f1) \<Rightarrow> (None, f1)
      | (True, f1) \<Rightarrow> (sys_read S len pos, closef f1))"

section \<open>Proofs\<close>

lemma frawread_state: "snd (frawread S len pos f) = f" "snd (fa_fread S len pad pos f) = f"
  by (auto simp: frawread_def fa_fread_def openf_def closef_def split: bool.splits option.splits)

text \<open>The reference: one character at a time.\<close>

definition esc_fs :: "byte \<Rightarrow> bytes" where
  "esc_fs c = (if islocalfscompatible c then [c] else 37 # hex02 c)"

definition unesc_step :: "byte \<Rightarrow> bytes \<Rightarrow> bytes" where
  "unesc_step c s =
     (let x = of_int (hexval (at s 0) * 16 + hexval (at s 1)) in
      if c = 37 \<and> islchex (at s 0) \<and> islchex (at s 1) \<and> \<not> islocalfscompatible x then x # drop 2 s
      else c # s)"

lemma escape_fs_loop_map:
  "i \<le> length name \<Longrightarrow> escape_fs_loop i name = concat (map esc_fs (take i name)) @ drop i name"
proof (induction i name rule: escape_fs_loop.induct)
  case (2 i name)
  let ?name = "if \<not> islocalfscompatible (name ! i)
    then take i name @ (37 # hex02 (name ! i)) @ drop (Suc i) name else name"
  have "?name = take i name @ esc_fs (name ! i) @ drop (Suc i) name"
    using 2(2) by (auto simp: esc_fs_def id_take_nth_drop [symmetric] Suc_le_eq)
  with 2 show ?case by (simp add: take_Suc_conv_app_nth Suc_le_eq min_def)
qed simp

lemma escape_fs_map: "escapefsincompatible name = concat (map esc_fs name)"
  by (simp add: escapefsincompatible_def escape_fs_loop_map)

lemma unescape_fs_at_step:
  assumes "i < length name"
  shows "unescape_fs_at i name = take i name @ unesc_step (name ! i) (drop (Suc i) name)"
proof -
  have at: "at (drop (Suc i) name) k = at name (i + Suc k)" for k by (auto simp: at_def)
  have "name = take i name @ name ! i # drop (Suc i) name" using assms by (simp add: id_take_nth_drop)
  with assms show ?thesis
    by (auto simp: unescape_fs_at_def unesc_step_def at Let_def at_def [of name i] numeral_3_eq_3)
qed

lemma unescape_fs_loop_foldr:
  "i \<le> length name \<Longrightarrow> unescape_fs_loop i name = foldr unesc_step (take i name) (drop i name)"
proof (induction i name rule: unescape_fs_loop.induct)
  case (2 i name)
  then show ?case
    by (simp add: unescape_fs_at_step take_Suc_conv_app_nth Suc_le_eq)
qed simp

lemma not_islchex [simp]: "\<not> islchex 0" "\<not> islchex 37"
  by (simp_all add: islchex_def schar_def)

text \<open>The last two characters cannot start an escape sequence.\<close>

lemma unesc_step_short: "length s < 2 \<Longrightarrow> unesc_step c s = c # s"
  by (auto simp: unesc_step_def at_def)

lemma unescape_fs_foldr: "unescapefsincompatible name = foldr unesc_step name []"
proof -
  have short: "foldr unesc_step s [] = s" if "length s \<le> 2" for s
    using that by (cases s rule: remdups_adj.cases) (auto simp: unesc_step_short)
  have "foldr unesc_step name [] =
      foldr unesc_step (take (length name - 2) name) (foldr unesc_step (drop (length name - 2) name) [])"
    by (metis append_take_drop_id foldr_append)
  also have "foldr unesc_step (drop (length name - 2) name) [] = drop (length name - 2) name"
    by (rule short) simp
  finally show ?thesis by (simp add: unescapefsincompatible_def unescape_fs_loop_foldr)
qed

lemma hexdigit_islchex: "n < 16 \<Longrightarrow> islchex (hexdigit n) \<and> hexdigit n \<noteq> 37"
proof -
  assume "n < 16"
  then have "48 \<le> uint (hexdigit n) \<and> uint (hexdigit n) \<le> 57 \<or> 97 \<le> uint (hexdigit n) \<and> uint (hexdigit n) \<le> 102"
    by (auto simp: hexdigit_def word_less_def uint_word_ariths)
  then show ?thesis by (auto simp: islchex_def schar_uint word_less_def)
qed

lemma hex02_value: "of_int (hexval (hexdigit (drop_bit 4 c)) * 16 + hexval (hexdigit (c AND 15))) = c"
proof -
  have "push_bit 4 (of_int (hexval (hexdigit (drop_bit 4 c)))) + of_int (hexval (hexdigit (c AND 15))) =
      push_bit 4 (drop_bit 4 c) + (c AND 15)"
    by (simp add: hexval_hexdigit drop_bit_4_less and_15_less)
  also have "\<dots> = push_bit 4 (drop_bit 4 c) OR (c AND 15)"
  proof (rule disjunctive_add)
    fix n
    have "c AND 15 = take_bit 4 c" by (simp add: take_bit_eq_mask mask_eq_exp_minus_1)
    then show "\<not> bit (push_bit 4 (drop_bit 4 c)) n \<or> \<not> bit (c AND 15) n" by (auto simp: bit_simps)
  qed
  finally show ?thesis by (simp only: nibbles of_int_add of_int_mult) (simp add: push_bit_eq_mult)
qed

text \<open>Unescaping an escaped prefix gives the prefix, if it meets no foreign escape sequence.\<close>

lemma unesc_esc_incompatible:
  "\<not> islocalfscompatible c \<Longrightarrow> foldr unesc_step (esc_fs c) s = c # s"
proof -
  assume c: "\<not> islocalfscompatible c"
  note h = hexdigit_islchex [OF drop_bit_4_less, of c] hexdigit_islchex [OF and_15_less, of c]
  then have "foldr unesc_step (hex02 c) s = hex02 c @ s"
    by (simp add: hex02_def unesc_step_def)
  then have "foldr unesc_step (esc_fs c) s = unesc_step 37 (hex02 c @ s)" using c by (simp add: esc_fs_def)
  also have "\<dots> = c # s" using h c by (simp add: unesc_step_def hex02_def hex02_value del: of_int_add of_int_mult)
  finally show ?thesis .
qed

lemma length_unesc: "length (foldr unesc_step s []) \<le> length s"
  by (induction s) (auto simp: unesc_step_def Let_def)

lemma unesc_step_keep:
  assumes "islocalfscompatible c"
  shows "unesc_step c t = c # s \<longleftrightarrow> t = s \<and> unesc_step c s = c # s"
proof -
  have "unesc_step c u = c # u \<or> hd (unesc_step c u) \<noteq> c" for u
    using assms by (auto simp: unesc_step_def Let_def)
  then show ?thesis by (metis list.sel(1) list.inject)
qed

text \<open>A name survives the way to the local file system and back exactly if it holds no
  escape sequence of its own.\<close>

lemma unescape_escape_fs:
  "unescapefsincompatible (escapefsincompatible name) = name \<longleftrightarrow> unescapefsincompatible name = name"
proof -
  have "foldr unesc_step (concat (map esc_fs name)) [] = name \<longleftrightarrow> foldr unesc_step name [] = name"
  proof (induction name)
    case (Cons c s)
    let ?e = "foldr unesc_step (concat (map esc_fs s)) []"
    show ?case
    proof (cases "islocalfscompatible c")
      case True
      then have "foldr unesc_step (concat (map esc_fs (c # s))) [] = unesc_step c ?e" by (simp add: esc_fs_def)
      then show ?thesis
        using unesc_step_keep [OF True, of ?e s] unesc_step_keep [OF True, of "foldr unesc_step s []" s] Cons
        by (simp only: foldr_Cons comp_apply)
    next
      case False
      then have "c \<noteq> 37" by (auto simp: islocalfscompatible_def str_def)
      then have "unesc_step c t = c # t" for t by (simp add: unesc_step_def Let_def)
      with False Cons show ?thesis by (simp add: unesc_esc_incompatible)
    qed
  qed simp
  then show ?thesis by (simp add: unescape_fs_foldr escape_fs_map)
qed

lemma esc_fs_compatible: "c' \<in> set (esc_fs c) \<Longrightarrow> islocalfscompatible c'"
proof -
  assume c': "c' \<in> set (esc_fs c)"
  have "islocalfscompatible (hexdigit n)" if "n < 16" for n
  proof -
    have "48 \<le> uint (hexdigit n) \<and> uint (hexdigit n) \<le> 57 \<or> 97 \<le> uint (hexdigit n) \<and> uint (hexdigit n) \<le> 102"
      using that by (auto simp: hexdigit_def word_less_def uint_word_ariths)
    then show ?thesis by (auto simp: islocalfscompatible_def str_def word_le_def)
  qed
  note h = this [OF drop_bit_4_less, of c] this [OF and_15_less, of c]
  have "islocalfscompatible 37" by (simp add: islocalfscompatible_def str_def)
  with c' h show ?thesis by (auto simp: esc_fs_def hex02_def split: if_splits)
qed

lemma escape_fs_compatible: "c \<in> set (escapefsincompatible name) \<Longrightarrow> islocalfscompatible c"
  by (auto simp: escape_fs_map dest: esc_fs_compatible)

lemma escape_fs_idem: "escapefsincompatible (escapefsincompatible name) = escapefsincompatible name"
proof -
  have "concat (map esc_fs s) = s" if "\<forall>c \<in> set s. islocalfscompatible c" for s
    using that by (induction s) (auto simp: esc_fs_def)
  then show ?thesis using escape_fs_compatible by (metis escape_fs_map)
qed

end
