(* ===== verification/Fingerprint.thy ===== *)
theory Fingerprint
  imports File_System Serialize64
begin

text \<open>
  \<open>src/filefingerprint.cpp\<close>: size, time and sparse CRC of a file. \<open>crc\<close> is the memory image
  of its four words (16 bytes). CRC-32 is Crypto++: a parameter that maps the bytes added to
  the four bytes of \<open>HashCRC32::get\<close>. Files are read with \<open>frawread\<close>; the content of the
  uninitialized \<open>newcrc\<close> is a parameter \<open>junk\<close>.
\<close>

record fingerprint =
  fp_size :: int
  fp_mtime :: int
  fp_crc :: bytes
  fp_isvalid :: bool

definition fp_new :: "bytes \<Rightarrow> fingerprint" where
  "fp_new junk = \<lparr>fp_size = -1, fp_mtime = 0, fp_crc = junk, fp_isvalid = False\<rparr>"

definition fp_eq :: "fingerprint \<Rightarrow> fingerprint \<Rightarrow> bool" where
  "fp_eq a b \<longleftrightarrow>
     fp_size a = fp_size b \<and> \<not> \<bar>fp_mtime a - fp_mtime b\<bar> > 2 \<and>
     (\<not> fp_isvalid a \<or> \<not> fp_isvalid b \<or> fp_crc a = fp_crc b)"

definition fp_assign :: "fingerprint \<Rightarrow> fingerprint \<Rightarrow> fingerprint" where
  "fp_assign lhs rhs =
     lhs\<lparr>fp_isvalid := fp_isvalid rhs, fp_size := fp_size rhs, fp_mtime := fp_mtime rhs, fp_crc := fp_crc rhs\<rparr>"

section \<open>Generation\<close>

text \<open>\<open>newcrc[i] = htonl(crcval)\<close> swaps the four bytes.\<close>

definition crc_word :: "(bytes \<Rightarrow> bytes) \<Rightarrow> bytes \<Rightarrow> bytes" where
  "crc_word crc32 d = rev (crc32 d)"

definition small_crc :: "(bytes \<Rightarrow> bytes) \<Rightarrow> bytes \<Rightarrow> nat \<Rightarrow> bytes" where
  "small_crc crc32 buf sz =
     concat (map (\<lambda>i. let b0 = i * sz div 4; e0 = (i + 1) * sz div 4 in
       crc_word crc32 (take (e0 - b0) (drop b0 buf))) [0..<4])"

text \<open>The offset of block \<open>k\<close> of \<open>128\<close>: \<open>(size - sizeof block) * k / 127\<close> in 64-bit unsigned
  arithmetic.\<close>

definition block_pos :: "int \<Rightarrow> nat \<Rightarrow> int" where
  "block_pos sz k = (sz - 64) * int k mod 2 ^ 64 div 127"

text \<open>The 32 blocks of one CRC; \<open>None\<close> when a read fails.\<close>

fun read_blocks :: "syscalls \<Rightarrow> fileaccess \<Rightarrow> int \<Rightarrow> nat list \<Rightarrow> bytes \<Rightarrow> bytes option" where
  "read_blocks S fa sz [] d = Some d"
| "read_blocks S fa sz (k # ks) d =
     (case fst (frawread S 64 (block_pos sz k) fa) of
        None \<Rightarrow> None
      | Some b \<Rightarrow> read_blocks S fa sz ks (d @ b))"

fun large_crc :: "syscalls \<Rightarrow> (bytes \<Rightarrow> bytes) \<Rightarrow> fileaccess \<Rightarrow> int \<Rightarrow> nat list \<Rightarrow> bytes option" where
  "large_crc S crc32 fa sz [] = Some []"
| "large_crc S crc32 fa sz (i # is) =
     (case read_blocks S fa sz [i * 32..<(i + 1) * 32] [] of
        None \<Rightarrow> None
      | Some d \<Rightarrow> map_option (\<lambda>r. crc_word crc32 d @ r) (large_crc S crc32 fa sz is))"

text \<open>The new CRC words of a file of the given size; \<open>None\<close> is the early \<open>return true\<close>.\<close>

definition new_crc :: "syscalls \<Rightarrow> (bytes \<Rightarrow> bytes) \<Rightarrow> bytes \<Rightarrow> fileaccess \<Rightarrow> int \<Rightarrow> bytes option" where
  "new_crc S crc32 junk fa sz =
     (if sz \<le> 16 then
        (let d = (case fst (frawread S (nat sz) 0 fa) of Some d \<Rightarrow> d | None \<Rightarrow> take (nat sz) junk) in
         Some (d @ replicate (16 - nat sz) 0))
      else if sz \<le> 8192 then
        map_option (\<lambda>buf. small_crc crc32 buf (nat sz)) (fst (frawread S (nat sz) 0 fa))
      else large_crc S crc32 fa sz [0..<4])"

definition genfingerprint :: "syscalls \<Rightarrow> (bytes \<Rightarrow> bytes) \<Rightarrow> bytes \<Rightarrow> fileaccess \<Rightarrow> bool \<Rightarrow> fingerprint \<Rightarrow> bool \<times> fingerprint" where
  "genfingerprint S crc32 junk fa ignoremtime fp =
     (let changed1 = (fp_mtime fp \<noteq> fa_mtime fa \<and> \<not> ignoremtime);
          changed2 = (changed1 \<or> fp_size fp \<noteq> fa_size fa);
          fp1 = fp\<lparr>fp_mtime := fa_mtime fa, fp_size := fa_size fa\<rparr> in
      case new_crc S crc32 junk fa (fa_size fa) of
        None \<Rightarrow> (True, fp1\<lparr>fp_size := -1\<rparr>)
      | Some newcrc \<Rightarrow>
          (changed2 \<or> fp_crc fp \<noteq> newcrc \<or> \<not> fp_isvalid fp,
           fp1\<lparr>fp_crc := newcrc, fp_isvalid := True\<rparr>))"

section \<open>Text form\<close>

definition serializefingerprint :: "fingerprint \<Rightarrow> bytes" where
  "serializefingerprint fp = btoa (fp_crc fp @ serialize64 (word_of_int (fp_mtime fp)))"

definition unserializefingerprint :: "bytes \<Rightarrow> fingerprint \<Rightarrow> bool \<times> fingerprint" where
  "unserializefingerprint d fp =
     (let buf = atob (takeWhile (\<lambda>c. c \<noteq> 0) d) 25; l = length buf in
      if l < 17 then (False, fp)
      else (case unserialize64 (drop 16 buf) (int l - 16) 0 of
              (r, t) \<Rightarrow>
                if r < 0 then (False, fp)
                else (True, fp\<lparr>fp_crc := take 16 buf, fp_mtime := sint t, fp_isvalid := True\<rparr>)))"

section \<open>Order\<close>

text \<open>\<open>memcmp(a, b, n) < 0\<close> on buffers of the same length, and on the sixteen bytes of \<open>crc\<close>.\<close>

fun memcmp_less :: "bytes \<Rightarrow> bytes \<Rightarrow> bool" where
  "memcmp_less (x # xs) (y # ys) \<longleftrightarrow> x < y \<or> (x = y \<and> memcmp_less xs ys)"
| "memcmp_less _ _ \<longleftrightarrow> False"

definition crc_image :: "bytes \<Rightarrow> bytes" where
  "crc_image c = map (at c) [0..<16]"

definition fp_less :: "fingerprint \<Rightarrow> fingerprint \<Rightarrow> bool" where
  "fp_less a b =
     (if fp_size a < fp_size b then True
      else if fp_size a > fp_size b then False
      else if fp_mtime a < fp_mtime b then True
      else if fp_mtime a > fp_mtime b then False
      else memcmp_less (crc_image (fp_crc a)) (crc_image (fp_crc b)))"

text \<open>What \<open>std::map\<close> and \<open>std::multiset\<close> require of a comparator.\<close>

locale strict_weak_order =
  fixes less :: "'a \<Rightarrow> 'a \<Rightarrow> bool"
  assumes irrefl: "\<not> less x x"
    and trans: "less x y \<Longrightarrow> less y z \<Longrightarrow> less x z"
    and incomp_trans: "\<not> less x y \<Longrightarrow> \<not> less y x \<Longrightarrow> \<not> less y z \<Longrightarrow> \<not> less z y \<Longrightarrow>
      \<not> less x z \<and> \<not> less z x"
begin

lemma asym: "less x y \<Longrightarrow> \<not> less y x"
  using irrefl trans by blast

text \<open>Equivalent keys compare alike with every other key.\<close>

lemma less_cong: "\<not> less x y \<Longrightarrow> \<not> less y x \<Longrightarrow> less x z \<longleftrightarrow> less y z"
  using incomp_trans trans by blast

end

lemma memcmp_less_irrefl: "\<not> memcmp_less a a"
  by (induction a) auto

lemma memcmp_less_trans: "memcmp_less a b \<Longrightarrow> memcmp_less b c \<Longrightarrow> memcmp_less a c"
proof (induction a b arbitrary: c rule: memcmp_less.induct)
  case (1 x xs y ys)
  then show ?case by (cases c) auto
qed auto

lemma memcmp_less_total: "length a = length b \<Longrightarrow> \<not> memcmp_less a b \<Longrightarrow> \<not> memcmp_less b a \<Longrightarrow> a = b"
  by (induction a b rule: list_induct2) auto

lemma fp_less_cases:
  "fp_less a b \<or> fp_less b a \<or>
   (fp_size a = fp_size b \<and> fp_mtime a = fp_mtime b \<and> crc_image (fp_crc a) = crc_image (fp_crc b))"
  using memcmp_less_total [of "crc_image (fp_crc a)" "crc_image (fp_crc b)"]
  by (auto simp: fp_less_def crc_image_def)

interpretation fpc: strict_weak_order fp_less
proof
  fix x y z
  show "\<not> fp_less x x" by (simp add: fp_less_def memcmp_less_irrefl)
  show "fp_less x y \<Longrightarrow> fp_less y z \<Longrightarrow> fp_less x z"
    by (auto simp: fp_less_def split: if_splits dest: memcmp_less_trans)
  show "\<not> fp_less x y \<Longrightarrow> \<not> fp_less y x \<Longrightarrow> \<not> fp_less y z \<Longrightarrow> \<not> fp_less z y \<Longrightarrow>
      \<not> fp_less x z \<and> \<not> fp_less z x"
    using fp_less_cases [of x y] fp_less_cases [of y z] by (auto simp: fp_less_def)
qed

section \<open>Round trip\<close>

lemma atob_btoa: "length bs \<le> n \<Longrightarrow> atob (btoa bs) n = bs"
  using atob_loop_btoa [of "[]" "[]" n bs] by (simp add: atob_def)

lemma fingerprint_roundtrip:
  assumes "length (fp_crc fp) = 16" "- (2 ^ 63) \<le> fp_mtime fp" "fp_mtime fp < 2 ^ 63"
  shows "unserializefingerprint (serializefingerprint fp) fp0 =
    (True, fp0\<lparr>fp_crc := fp_crc fp, fp_mtime := fp_mtime fp, fp_isvalid := True\<rparr>)"
proof -
  let ?t = "word_of_int (fp_mtime fp) :: u64"
  let ?b = "fp_crc fp @ serialize64 ?t"
  have "takeWhile (\<lambda>c. c \<noteq> 0) (btoa ?b) = btoa ?b"
    using btoa_no_quote(2) [of ?b] by (auto simp: takeWhile_eq_all_conv)
  moreover have "atob (btoa ?b) 25 = ?b"
    using assms(1) length_serialize64_le [of ?t] by (intro atob_btoa) simp
  ultimately have a: "atob (takeWhile (\<lambda>c. c \<noteq> 0) (serializefingerprint fp)) 25 = ?b"
    by (simp only: serializefingerprint_def)
  have "sint ?t = fp_mtime fp"
    using assms(2,3) by (simp add: signed_of_int signed_take_bit_int_eq_self_iff)
  moreover have "unserialize64 (serialize64 ?t) (int (length (serialize64 ?t))) 0 = (int (length (serialize64 ?t)), ?t)"
    using unserialize64_serialize64 [of ?t "int (length (serialize64 ?t))" "[]" 0] by simp
  moreover have "serialize64 ?t \<noteq> []" by simp
  then have "0 < length (serialize64 ?t)" by blast
  ultimately show ?thesis
    using assms(1) by (simp add: unserializefingerprint_def a)
qed

section \<open>Bounds and results\<close>

text \<open>Every block that is read lies in the file.\<close>

lemma block_pos_bounds:
  assumes "64 \<le> sz" "sz < 2 ^ 57" "k < 128"
  shows "0 \<le> block_pos sz k" "block_pos sz k + 64 \<le> sz"
proof -
  have "(sz - 64) * int k \<le> (sz - 64) * 127" using assms by (intro mult_left_mono) auto
  moreover have "0 \<le> (sz - 64) * int k" using assms by simp
  ultimately have "block_pos sz k = (sz - 64) * int k div 127"
    using assms by (simp add: block_pos_def)
  moreover have "(sz - 64) * int k div 127 \<le> (sz - 64) * 127 div 127"
    by (rule zdiv_mono1) (fact, simp)
  ultimately show "0 \<le> block_pos sz k" "block_pos sz k + 64 \<le> sz"
    using \<open>0 \<le> (sz - 64) * int k\<close> by (simp_all add: pos_imp_zdiv_nonneg_iff)
qed

text \<open>A second run over the same file finds nothing new.\<close>

lemma genfingerprint_again:
  assumes "genfingerprint S crc32 junk fa ign fp = (c, fp')" "fp_size fp' \<noteq> -1 \<or> fa_size fa = -1"
    and "16 < fa_size fa \<or> fst (frawread S (nat (fa_size fa)) 0 fa) \<noteq> None"
  shows "genfingerprint S crc32 junk' fa ign' fp' = (False, fp')"
proof -
  have eq: "new_crc S crc32 junk fa (fa_size fa) = new_crc S crc32 junk' fa (fa_size fa)"
    using assms(3) by (auto simp: new_crc_def split: option.splits)
  show ?thesis
  proof (cases "new_crc S crc32 junk fa (fa_size fa)")
    case None
    then have "fa_size fa \<noteq> -1" by (auto simp: new_crc_def Let_def)
    moreover have "fp_size fp' = -1" using assms(1) None by (auto simp: genfingerprint_def Let_def)
    ultimately show ?thesis using assms(2) by simp
  next
    case (Some crc)
    then have fp': "fp' = fp\<lparr>fp_mtime := fa_mtime fa, fp_size := fa_size fa, fp_crc := crc, fp_isvalid := True\<rparr>"
      using assms(1) by (simp add: genfingerprint_def Let_def)
    show ?thesis using Some eq by (simp add: genfingerprint_def Let_def fp')
  qed
qed

end
