(* ===== verification/Node.thy ===== *)
theory Node
  imports Cmd Share User Fingerprint
begin

text \<open>
  \<open>Node\<close> of \<open>src/node.cpp\<close> and the client state it works on: keys, attributes, fingerprint,
  the tree of nodes and the calls of \<open>src/megaclient.cpp\<close> it makes (\<open>decryptkey\<close>,
  \<open>makeattr\<close>, \<open>nodebyhandle\<close>, \<open>loggedin\<close>, \<open>proctree\<close>). A \<open>Node*\<close> is the node's handle,
  its key in \<open>client->nodes\<close>. The library functions (AES, big integers, NFC) are a record.
\<close>

record libs =
  lib_aes :: aes
  lib_big :: bigint
  lib_nfc :: "bytes \<Rightarrow> bytes option"

section \<open>Node and client\<close>

text \<open>The fields of a \<open>LocalNode\<close> (the synced item of a node) that the operations on nodes use; a
  \<open>LocalNode*\<close> is a number, its key in \<open>mc_localnodes\<close>.\<close>

record localnode =
  ln_parent :: "nat option"
  ln_node :: "handle option"
  ln_deleted :: bool

text \<open>The bits \<open>changed\<close> of a node.\<close>

record node_changed =
  ch_attrs :: bool
  ch_owner :: bool
  ch_ctime :: bool
  ch_clienttimestamp :: bool
  ch_fileattrstring :: bool
  ch_inshare :: bool
  ch_outshares :: bool
  ch_parent :: bool

text \<open>\<open>n_infps\<close>: \<open>fingerprint_it\<close> is in the set; \<open>n_local\<close>: \<open>localnode\<close>; \<open>n_syncget\<close>: \<open>syncget\<close> is set.\<close>

record node =
  n_handle :: handle
  n_parenthandle :: handle
  n_type :: int
  n_nodekey :: bytes
  n_clienttimestamp :: int
  n_attrstring :: bytes
  n_keystring :: bytes
  n_key :: symm
  n_attrs :: attr_map
  n_owner :: handle
  n_ctime :: int
  n_fileattrstring :: bytes
  n_inshare :: "share option"
  n_outshares :: "(handle, share) omap"
  n_sharekey :: "symm option"
  n_removed :: bool
  n_fp :: fingerprint
  n_infps :: bool
  n_parent :: "handle option"
  n_children :: "handle list"
  n_local :: "nat option"
  n_syncget :: bool
  n_tag :: int
  n_changed :: node_changed
  n_notified :: bool
  n_syncdeleted :: int

record megaclient =
  mc_nodes :: "(handle, node) omap"
  mc_rootnodes :: "handle list"
  mc_fingerprints :: "(fingerprint \<times> handle) list"
  mc_newshares :: "newshare list"
  mc_me :: handle
  mc_key :: symm
  mc_asymkey :: "nat list"
  mc_users :: usertab
  mc_nodekeyrewrite :: "handle list"
  mc_sharekeyrewrite :: "handle list"
  mc_localnodes :: "(nat, localnode) omap"
  mc_nodenotify :: "handle list"
  mc_todebris :: "handle list"
  mc_sessionid :: bytes
  mc_auth :: bytes
  mc_sid :: bytes
  mc_cachedscsn :: handle
  mc_reqtag :: int
  mc_restag :: int
  mc_purchase_basket :: "handle list"
  mc_usernotify :: "int list"

abbreviation (input) FILENODE :: int where "FILENODE \<equiv> 0"
abbreviation (input) FOLDERNODE :: int where "FOLDERNODE \<equiv> 1"
abbreviation (input) ROOTNODE :: int where "ROOTNODE \<equiv> 2"
abbreviation (input) MAILNODE :: int where "MAILNODE \<equiv> 5"

definition nodebyhandle :: "megaclient \<Rightarrow> handle \<Rightarrow> node option" where
  "nodebyhandle mc h = om_lookup (mc_nodes mc) h"

definition upd_node :: "handle \<Rightarrow> (node \<Rightarrow> node) \<Rightarrow> megaclient \<Rightarrow> megaclient" where
  "upd_node h f mc =
     (case om_lookup (mc_nodes mc) h of
        None \<Rightarrow> mc
      | Some n \<Rightarrow> mc\<lparr>mc_nodes := om_update h (f n) (mc_nodes mc)\<rparr>)"

section \<open>Attributes\<close>

text \<open>\<open>MegaClient::makeattr\<close>: \<open>json\<close> is given with its length.\<close>

definition makeattr :: "aes \<Rightarrow> symm \<Rightarrow> bytes \<Rightarrow> bytes" where
  "makeattr L key json =
     (let l = length json; ll = (l + 6 + 15) div 16 * 16 in
      cbc_encrypt L key (str ''MEGA{'' @ json @ [ch_rbrace] @ replicate (ll - l - 6) 0))"

text \<open>\<open>None\<close>: NULL. An empty result of \<open>atob\<close> leaves the buffer unset; it has no magic prefix.\<close>

definition magic :: bytes where
  "magic = str ''MEGA{'' @ [ch_quote]"

definition decryptattr :: "aes \<Rightarrow> symm \<Rightarrow> bytes \<Rightarrow> bytes option" where
  "decryptattr L key attrstring =
     (if attrstring = [] then None
      else
        (let buf = atob attrstring (length attrstring * 3 div 4 + 3) in
         if length buf mod 16 = 0 then
           (let d = cbc_decrypt L key buf in if take 6 d = magic then Some d else None)
         else None))"

text \<open>The loop over the members; \<open>attrs.map[name]\<close> makes an entry even when \<open>storeobject\<close> fails.\<close>

function attr_loop :: "(bytes \<Rightarrow> bytes option) \<Rightarrow> bytes \<Rightarrow> attr_map \<Rightarrow> attr_map" where
  "attr_loop nfc p m =
     (let (i, p1) = getnameid p in
      if i = 0 then m
      else (case storeobject p1 of
              (None, p2) \<Rightarrow> (if om_lookup m i = None then om_update i [] m else m)
            | (Some t, p2) \<Rightarrow>
                attr_loop nfc p2 (om_update i (if i = 110 then normalize nfc (unescape t) else unescape t) m)))"
  by pat_completeness auto
termination
proof (relation "measure (\<lambda>(nfc, p, m). length p)", goal_cases)
  case (2 nfc p m x i p1 y p2 t)
  have "length p1 < length p" using getnameid_shorter [of p] 2 by (metis fst_conv snd_conv)
  moreover have "length p2 \<le> length p1" using length_storeobject [of p1] 2 by (metis snd_conv)
  ultimately show ?case by simp
qed simp

declare attr_loop.simps [simp del]

section \<open>Fingerprint\<close>

text \<open>\<open>multiset::insert\<close>: behind the elements that are not greater.\<close>

fun fps_insert :: "fingerprint \<times> handle \<Rightarrow> (fingerprint \<times> handle) list \<Rightarrow> (fingerprint \<times> handle) list" where
  "fps_insert x [] = [x]"
| "fps_insert x (y # ys) = (if fp_less (fst x) (fst y) then x # y # ys else y # fps_insert x ys)"

definition node_fp :: "node \<Rightarrow> fingerprint" where
  "node_fp n =
     (let fp1 = (case om_lookup (n_attrs n) 99 of
                   Some s \<Rightarrow> snd (unserializefingerprint s (n_fp n))
                 | None \<Rightarrow> n_fp n)
      in if \<not> fp_isvalid fp1
         then fp1\<lparr>fp_crc := take 16 (n_nodekey n), fp_mtime := n_clienttimestamp n\<rparr> else fp1)"

definition setfingerprint :: "handle \<Rightarrow> megaclient \<Rightarrow> megaclient" where
  "setfingerprint h mc =
     (case nodebyhandle mc h of
        None \<Rightarrow> mc
      | Some n \<Rightarrow>
          if n_type n = FILENODE \<and> length (n_nodekey n) \<ge> 16 then
            (let fps = (if n_infps n then filter (\<lambda>x. snd x \<noteq> h) (mc_fingerprints mc) else mc_fingerprints mc);
                 fp = node_fp n
             in (upd_node h (\<lambda>n. n\<lparr>n_fp := fp, n_infps := True\<rparr>) mc)\<lparr>mc_fingerprints := fps_insert (fp, h) fps\<rparr>)
          else mc)"

section \<open>Keys\<close>

definition node_setattr :: "libs \<Rightarrow> handle \<Rightarrow> megaclient \<Rightarrow> megaclient" where
  "node_setattr K h mc =
     (case nodebyhandle mc h of
        None \<Rightarrow> mc
      | Some n \<Rightarrow>
          (case decryptattr (lib_aes K) (n_key n) (n_attrstring n) of
             None \<Rightarrow> mc
           | Some buf \<Rightarrow>
               (let mc1 = upd_node h (\<lambda>n. n\<lparr>n_attrs := attr_loop (lib_nfc K) (drop 5 buf) (n_attrs n)\<rparr>) mc in
                upd_node h (\<lambda>n. n\<lparr>n_attrstring := []\<rparr>) (setfingerprint h mc1))))"

definition keylength :: "int \<Rightarrow> nat" where
  "keylength t = (if t = FILENODE then 32 else 16)"

definition node_setkey :: "libs \<Rightarrow> bytes option \<Rightarrow> handle \<Rightarrow> megaclient \<Rightarrow> megaclient" where
  "node_setkey K newkey h mc =
     (let mc1 = upd_node h (\<lambda>n.
            (let nk = (case newkey of Some k \<Rightarrow> take (keylength (n_type n)) k | None \<Rightarrow> n_nodekey n) in
             n\<lparr>n_nodekey := nk, n_key := symm_setkey nk (n_type n) (n_key n)\<rparr>)) mc
      in node_setattr K h mc1)"

datatype sessiontype = NOTLOGGEDIN | EPHEMERALACCOUNT | CONFIRMEDACCOUNT | FULLACCOUNT

definition loggedin :: "libs \<Rightarrow> megaclient \<Rightarrow> sessiontype" where
  "loggedin K mc =
     (if ISUNDEF (mc_me mc) then NOTLOGGEDIN
      else case fst (finduser_handle (mc_me mc) False (mc_users mc)) of
        Some i \<Rightarrow> if u_email (users_at (mc_users mc) i) = [] then EPHEMERALACCOUNT
                  else if \<not> asymm_isvalid (lib_big K) (mc_asymkey mc) then CONFIRMEDACCOUNT else FULLACCOUNT
      | None \<Rightarrow> if \<not> asymm_isvalid (lib_big K) (mc_asymkey mc) then CONFIRMEDACCOUNT else FULLACCOUNT)"

text \<open>\<open>MegaClient::decryptkey\<close>: the key of \<open>klen\<close> bytes (\<open>None\<close>: returned false) and the client.\<close>

definition decryptkey :: "libs \<Rightarrow> bytes \<Rightarrow> nat \<Rightarrow> symm \<Rightarrow> bool \<Rightarrow> handle \<Rightarrow> megaclient \<Rightarrow> bytes option \<times> megaclient" where
  "decryptkey K sk klen sc type nd mc =
     (let sl = length (takeWhile (\<lambda>c. c \<noteq> 0 \<and> c \<noteq> ch_quote \<and> c \<noteq> ch_slash) sk) in
      if sl > 4 * 32 div 3 + 1 then
        (let sl1 = sl div 4 * 3 + 3 in
         if sl1 > 4096 then (None, mc)
         else (case asymm_decrypt (lib_big K) (mc_asymkey mc) (atob sk sl1) klen of
                 Some (Some k) \<Rightarrow>
                   (Some k,
                    if \<not> ISUNDEF nd then
                      (if type then mc\<lparr>mc_sharekeyrewrite := mc_sharekeyrewrite mc @ [nd]\<rparr>
                       else mc\<lparr>mc_nodekeyrewrite := mc_nodekeyrewrite mc @ [nd]\<rparr>)
                    else mc)
               | _ \<Rightarrow> (None, mc)))
      else
        (let k = atob sk klen in
         if length k \<noteq> klen then (None, mc) else (Some (ecb_decrypt (lib_aes K) sc k), mc)))"

text \<open>
  The search of \<open>applykey\<close> through a compound key, from offset \<open>t\<close>: the suffix to use and its
  cipher, or the last length read (-1: no colon found). \<open>find_last_of('/', t)\<close> is the
  last slash at or before \<open>t\<close>.
\<close>

definition subkey_start :: "bytes \<Rightarrow> nat \<Rightarrow> nat" where
  "subkey_start s t =
     (case find_last ch_slash (take (Suc t) s) of Some i \<Rightarrow> Suc i | None \<Rightarrow> 0)"

function find_key :: "megaclient \<Rightarrow> handle \<Rightarrow> bytes \<Rightarrow> nat \<Rightarrow> symm \<Rightarrow> int \<Rightarrow> (bytes \<times> symm) option \<times> int" where
  "find_key mc me s t sc l =
     (if ch_colon \<in> set (drop t s) then
        (let t1 = t + length (takeWhile (\<lambda>c. c \<noteq> ch_colon) (drop t s));
             b = atob (drop (subkey_start s t1) s) 8;
             h = le_word (b @ replicate (8 - length b) 0) :: handle;
             t2 = Suc t1
         in if length b = 8 then
              (if h \<noteq> me then find_key mc me s t2 sc (int (length b))
               else (Some (drop t2 s, sc), int (length b)))
            else if h \<noteq> me then
              (case nodebyhandle mc h of
                 None \<Rightarrow> find_key mc me s t2 sc (int (length b))
               | Some n \<Rightarrow>
                   (case n_sharekey n of
                      None \<Rightarrow> find_key mc me s t2 sc (int (length b))
                    | Some k \<Rightarrow> (Some (drop t2 s, k), int (length b))))
            else (Some (drop t2 s, sc), int (length b)))
      else (None, l))"
  by pat_completeness auto
termination
proof -
  have less: "length s - Suc (t + length (takeWhile (\<lambda>c. c \<noteq> ch_colon) (drop t s))) < length s - t"
    if "ch_colon \<in> set (drop t s)" for s :: bytes and t
  proof -
    have "t < length s" using that by (metis drop_all in_set_conv_nth leI list.size(3) not_less_zero)
    then show ?thesis by simp
  qed
  show ?thesis
    by (relation "measure (\<lambda>(mc, me, s, t, sc, l). length s - t)") (auto simp: less)
qed

declare find_key.simps [simp del]

definition applykey :: "libs \<Rightarrow> handle \<Rightarrow> megaclient \<Rightarrow> bool \<times> megaclient" where
  "applykey K h mc =
     (case nodebyhandle mc h of
        None \<Rightarrow> (False, mc)
      | Some n \<Rightarrow>
          if n_keystring n = [] then (False, mc)
          else
            (let me = (if loggedin K mc \<noteq> NOTLOGGEDIN then mc_me mc else hd (mc_rootnodes mc));
                 (r, l) = find_key mc me (n_keystring n) 0 (mc_key mc) (-1);
                 ks = (case r of Some k \<Rightarrow> Some k
                       | None \<Rightarrow> if l < 0 then Some (n_keystring n, mc_key mc) else None)
             in case ks of
                  None \<Rightarrow> (False, mc)
                | Some (k, sc) \<Rightarrow>
                    (case decryptkey K k (keylength (n_type n)) sc False (n_handle n) mc of
                       (Some key, mc1) \<Rightarrow>
                         (True, node_setkey K (Some key) h (upd_node h (\<lambda>n. n\<lparr>n_keystring := []\<rparr>) mc1))
                     | (None, mc1) \<Rightarrow> (True, mc1))))"

section \<open>Small queries\<close>

fun find_sub :: "bytes \<Rightarrow> bytes \<Rightarrow> nat option" where
  "find_sub pat [] = (if pat = [] then Some 0 else None)"
| "find_sub pat (c # s) =
     (if take (length pat) (c # s) = pat then Some 0 else map_option Suc (find_sub pat s))"

definition hasfileattribute :: "nat \<Rightarrow> node \<Rightarrow> nat" where
  "hasfileattribute t n =
     (case find_sub ([ch_colon] @ dec_nat t @ [42]) (n_fileattrstring n) of Some i \<Rightarrow> i + 1 | None \<Rightarrow> 0)"

definition displayname :: "node \<Rightarrow> bytes" where
  "displayname n =
     (if n_attrstring n \<noteq> [] then str ''NO_KEY''
      else case om_lookup (n_attrs n) 110 of
        None \<Rightarrow> str ''CRYPTO_ERROR''
      | Some s \<Rightarrow> if s = [] then str ''BLANK'' else takeWhile (\<lambda>c. c \<noteq> 0) s)"

end
