(* ===== verification/Responses.thy ===== *)
theory Responses
  imports Scan Node Utils
begin

text \<open>
  The result handlers (\<open>procresult\<close>) of \<open>src/commands.cpp\<close> that report to the application: from the
  position of the parser to the callbacks made and the new position (\<open>None\<close>: does not return). The
  members of the command object that a handler reads are its arguments. \<open>atof\<close> is the C function, with
  values in a type \<open>'f\<close>.
\<close>

text \<open>Conversions to \<open>error\<close>, \<open>int\<close> and \<open>short\<close> keep the low bits; \<open>c_str()\<close> ends at a NUL.\<close>

definition to_int :: "int \<Rightarrow> int" where
  "to_int i = sint (word_of_int i :: u32)"

definition to_short :: "int \<Rightarrow> int" where
  "to_short i = sint (word_of_int i :: u16)"

definition cstr :: "bytes \<Rightarrow> bytes" where
  "cstr s = takeWhile (\<lambda>c. c \<noteq> 0) s"

abbreviation (input) API_OK :: int where "API_OK \<equiv> 0"
abbreviation (input) API_EINTERNAL :: int where "API_EINTERNAL \<equiv> -1"
abbreviation (input) API_EARGS :: int where "API_EARGS \<equiv> -2"
abbreviation (input) API_EACCESS :: int where "API_EACCESS \<equiv> -11"
abbreviation (input) API_ECIRCULAR :: int where "API_ECIRCULAR \<equiv> -10"
abbreviation (input) API_EKEY :: int where "API_EKEY \<equiv> -14"
abbreviation (input) API_EBLOCKED :: int where "API_EBLOCKED \<equiv> -16"

section \<open>Account details\<close>

record 'f balance =
  ab_amount :: 'f
  ab_currency :: bytes

record session =
  as_timestamp :: int
  as_mru :: int
  as_useragent :: bytes
  as_ip :: bytes
  as_country :: bytes
  as_current :: int

record 'f purchase =
  ap_handle :: bytes
  ap_timestamp :: int
  ap_amount :: 'f
  ap_currency :: bytes
  ap_method :: int

record 'f transaction =
  at_handle :: bytes
  at_timestamp :: int
  at_delta :: 'f
  at_currency :: bytes

record 'f account =
  ad_pro_level :: int
  ad_subscription_type :: byte
  ad_pro_until :: int
  ad_storage_used :: int
  ad_storage_max :: int
  ad_transfer_own_used :: int
  ad_transfer_srv_used :: int
  ad_transfer_max :: int
  ad_transfer_own_reserved :: int
  ad_transfer_srv_reserved :: int
  ad_srv_ratio :: 'f
  ad_transfer_hist_starttime :: int
  ad_transfer_hist_interval :: int
  ad_transfer_hist :: "int list"
  ad_transfer_reserved :: int
  ad_transfer_limit :: int
  ad_balances :: "'f balance list"
  ad_sessions :: "session list"
  ad_purchases :: "'f purchase list"
  ad_transactions :: "'f transaction list"

section \<open>Callbacks\<close>

text \<open>The calls of \<open>client->app\<close>; overloads on an error code have the suffix \<open>_error\<close>.\<close>

datatype 'f app_event =
    putfa_result_error handle nat int
  | putfa_result handle nat bytes
  | setattr_result handle int
  | unlink_result handle int
  | rename_result handle int
  | enumeratequotaitems_error int
  | enumeratequotaitems_item handle int int int int u32 bytes
  | checkout_error int
  | checkout_result bytes
  | invite_result int
  | putua_result int
  | getua_error int
  | getua_result bytes
  | account_error int
  | account_details "'f account" bool bool bool bool bool bool
  | exportnode_error int
  | exportnode_result handle handle
  | openfilelink_error int
  | openfilelink_result handle bytes int bytes bytes int int int
  | changepw_result int
  | sendsignuplink_result int
  | querysignuplink_error int
  | querysignuplink_result handle bytes bytes bytes bytes bytes
  | confirmsignuplink_result int
  | setkeypair_result int

type_synonym 'f reply = "('f app_event list \<times> bytes) option"

text \<open>\<open>(error)client->json.getint()\<close> behind \<open>isnumeric()\<close>.\<close>

definition numeric_error :: "bytes \<Rightarrow> (int \<times> bytes) option" where
  "numeric_error p =
     (let (b, p1) = isnumeric p in if b then (let (e, p2) = getint p1 in Some (to_int e, p2)) else None)"

section \<open>Handlers of numeric results\<close>

text \<open>A result that is not a number is skipped with \<open>storeobject\<close>.\<close>

definition skipped :: "bytes \<Rightarrow> bytes" where
  "skipped p = snd (storeobject (snd (isnumeric p)))"

definition CommandSetAttr_procresult :: "handle \<Rightarrow> bytes \<Rightarrow> 'f reply" where
  "CommandSetAttr_procresult h p =
     (case numeric_error p of
        Some (e, p1) \<Rightarrow> Some ([setattr_result h e], p1)
      | None \<Rightarrow> Some ([setattr_result h API_EINTERNAL], skipped p))"

definition CommandDelNode_procresult :: "handle \<Rightarrow> bytes \<Rightarrow> 'f reply" where
  "CommandDelNode_procresult h p =
     (case numeric_error p of
        Some (e, p1) \<Rightarrow> Some ([unlink_result h e], p1)
      | None \<Rightarrow> Some ([unlink_result h API_EINTERNAL], skipped p))"

definition CommandUserRequest_procresult :: "bytes \<Rightarrow> 'f reply" where
  "CommandUserRequest_procresult p =
     (case numeric_error p of
        Some (e, p1) \<Rightarrow> Some ([invite_result e], p1)
      | None \<Rightarrow> Some ([invite_result API_OK], skipped p))"

definition CommandPutUA_procresult :: "bytes \<Rightarrow> 'f reply" where
  "CommandPutUA_procresult p =
     (case numeric_error p of
        Some (e, p1) \<Rightarrow> Some ([putua_result e], p1)
      | None \<Rightarrow> Some ([putua_result API_OK], skipped p))"

definition CommandSendSignupLink_procresult :: "bytes \<Rightarrow> 'f reply" where
  "CommandSendSignupLink_procresult p =
     (case numeric_error p of
        Some (e, p1) \<Rightarrow> Some ([sendsignuplink_result e], p1)
      | None \<Rightarrow> Some ([sendsignuplink_result API_EINTERNAL], skipped p))"

definition CommandConfirmSignupLink_procresult :: "bytes \<Rightarrow> 'f reply" where
  "CommandConfirmSignupLink_procresult p =
     (case numeric_error p of
        Some (e, p1) \<Rightarrow> Some ([confirmsignuplink_result e], p1)
      | None \<Rightarrow> Some ([confirmsignuplink_result API_OK], skipped p))"

definition CommandSetKeyPair_procresult :: "bytes \<Rightarrow> 'f reply" where
  "CommandSetKeyPair_procresult p =
     (case numeric_error p of
        Some (e, p1) \<Rightarrow> Some ([setkeypair_result e], p1)
      | None \<Rightarrow> Some ([setkeypair_result API_OK], skipped p))"

text \<open>Nothing is skipped here.\<close>

definition CommandSetMasterKey_procresult :: "bytes \<Rightarrow> 'f reply" where
  "CommandSetMasterKey_procresult p =
     (case numeric_error p of
        Some (e, p1) \<Rightarrow> Some ([changepw_result e], p1)
      | None \<Rightarrow> Some ([changepw_result API_OK], snd (isnumeric p)))"

definition CommandPurchaseAddItem_procresult :: "bytes \<Rightarrow> 'f reply" where
  "CommandPurchaseAddItem_procresult p = Some ([], p)"

section \<open>Handlers of strings\<close>

definition CommandAttachFA_procresult :: "handle \<Rightarrow> nat \<Rightarrow> bytes \<Rightarrow> 'f reply" where
  "CommandAttachFA_procresult h type p =
     (case numeric_error p of
        Some (e, p1) \<Rightarrow> Some ([putfa_result_error h type e], p1)
      | None \<Rightarrow>
          (case storeobject (snd (isnumeric p)) of
             (Some fa, p1) \<Rightarrow> Some ([putfa_result h type (cstr fa)], p1)
           | (None, p1) \<Rightarrow> Some ([putfa_result_error h type API_EINTERNAL], p1)))"

definition CommandPurchaseCheckout_procresult :: "bytes \<Rightarrow> 'f reply" where
  "CommandPurchaseCheckout_procresult p =
     (case numeric_error p of
        Some (e, p1) \<Rightarrow> Some ([checkout_error e], p1)
      | None \<Rightarrow>
          (case storeobject (snd (isnumeric p)) of
             (r, p1) \<Rightarrow> Some ([checkout_result (cstr (case r of Some s \<Rightarrow> s | None \<Rightarrow> []))], p1)))"

definition CommandSetPH_procresult :: "handle \<Rightarrow> bytes \<Rightarrow> 'f reply" where
  "CommandSetPH_procresult h p =
     (case numeric_error p of
        Some (e, p1) \<Rightarrow> Some ([exportnode_error e], p1)
      | None \<Rightarrow>
          (let (ph, p1) = gethandle 6 (snd (isnumeric p)) in
           if ISUNDEF ph then Some ([exportnode_error API_EINTERNAL], p1)
           else Some ([exportnode_result h ph], p1)))"

text \<open>\<open>priv\<close>: the attribute is encrypted with the master key.\<close>

definition CommandGetUA_procresult :: "aes \<Rightarrow> symm \<Rightarrow> bool \<Rightarrow> bytes \<Rightarrow> 'f reply" where
  "CommandGetUA_procresult L key priv p =
     (case numeric_error p of
        Some (e, p1) \<Rightarrow> Some ([getua_error e], p1)
      | None \<Rightarrow>
          (let (ptr, p1) = getvalue (snd (isnumeric p)) in
           if ch_quote \<notin> set (cstr ptr) then Some ([getua_error API_EINTERNAL], p1)
           else
             (let n = length (takeWhile (\<lambda>c. c \<noteq> ch_quote) ptr);
                  data = atob ptr (n div 4 * 3 + 3)
              in if priv then
                   (case padded_decrypt L key data of
                      (d, ok) \<Rightarrow> if ok then Some ([getua_result d], p1) else Some ([getua_error API_EINTERNAL], p1))
                 else Some ([getua_result data], p1))))"

section \<open>Handlers of arrays\<close>

text \<open>\<open>while (client->json.enterarray()) ...\<close>: the body continues the loop or (\<open>False\<close>) returns.\<close>

partial_function (option) array_loop :: "('s \<Rightarrow> bytes \<Rightarrow> bool \<times> 's \<times> bytes) \<Rightarrow> 's \<Rightarrow> bytes \<Rightarrow> (bool \<times> 's \<times> bytes) option" where
  "array_loop f s p =
     (let (b, p1) = enterarray p in
      if b then
        (let (go, s1, p2) = f s p1 in if go then array_loop f s1 p2 else Some (False, s1, p2))
      else Some (True, s, p1))"

text \<open>\<open>atoi(a) * 100\<close> and up to two digits behind the first point of the rest of the text.\<close>

definition cents :: "bytes \<Rightarrow> u32" where
  "cents a =
     (let whole = (word_of_int (to_int (atoll a)) :: u32) * 100;
          c = dropWhile (\<lambda>x. x \<noteq> ch_dot) (cstr a)
      in if c = [] then whole
         else
           (let c1 = cur (drop 1 c); c2 = cur (drop 2 c);
                a1 = (if is_digit c1 then whole + (ucast c1 - 48) * 10 else whole)
            in if is_digit c2 then a1 + (ucast c2 - 48) else a1))"

definition quota_item :: "'f app_event list \<Rightarrow> bytes \<Rightarrow> bool \<times> 'f app_event list \<times> bytes" where
  "quota_item evs p =
     (let err = (\<lambda>q. (False, evs @ [enumeratequotaitems_error API_EINTERNAL], q));
          (product, p1) = gethandle 6 p in
      if ISUNDEF product then err p1
      else let (prolevel, p2) = getint p1 in
      if to_int prolevel < 0 then err p2
      else let (gbstorage, p3) = getint p2 in
      if to_int gbstorage < 0 then err p3
      else let (gbtransfer, p4) = getint p3 in
      if to_int gbtransfer < 0 then err p4
      else let (months, p5) = getint p4 in
      if to_int months < 0 then err p5
      else let (a, p6) = getvalue p5; (c, p7) = getvalue p6 in
        (True, evs @ [enumeratequotaitems_item product (to_int prolevel) (to_int gbstorage) (to_int gbtransfer)
            (to_int months) (cents a) (copystring c)], snd (leavearray p7)))"

definition CommandEnumerateQuotaItems_procresult :: "bytes \<Rightarrow> 'f reply" where
  "CommandEnumerateQuotaItems_procresult p =
     (case numeric_error p of
        Some (e, p1) \<Rightarrow> Some ([enumeratequotaitems_error e], p1)
      | None \<Rightarrow>
          map_option (\<lambda>(b, evs, p1). (if b then evs @ [enumeratequotaitems_error API_OK] else evs, p1))
            (array_loop quota_item [] (snd (isnumeric p))))"

definition transaction_item :: "(bytes \<Rightarrow> 'f) \<Rightarrow> 'f transaction list \<Rightarrow> bytes \<Rightarrow> bool \<times> 'f transaction list \<times> bytes" where
  "transaction_item atof ts p =
     (let (hdl, p1) = getvalue p; (t, p2) = getint p1; (delta, p3) = getvalue p2; (curr, p4) = getvalue p3 in
      (True,
       (if t > 0 then ts @ [\<lparr>at_handle = take 11 hdl, at_timestamp = t, at_delta = atof delta, at_currency = take 3 curr\<rparr>] else ts),
       snd (leavearray p4)))"

definition CommandGetUserTransactions_procresult :: "(bytes \<Rightarrow> 'f) \<Rightarrow> 'f account \<Rightarrow> bytes \<Rightarrow> 'f reply" where
  "CommandGetUserTransactions_procresult atof details p =
     map_option (\<lambda>(b, ts, p1). ([account_details (details\<lparr>ad_transactions := ts\<rparr>) False False False False True False], p1))
       (array_loop (transaction_item atof) [] p)"

definition purchase_item :: "(bytes \<Rightarrow> 'f) \<Rightarrow> 'f purchase list \<Rightarrow> bytes \<Rightarrow> bool \<times> 'f purchase list \<times> bytes" where
  "purchase_item atof ps p =
     (let (hdl, p1) = getvalue p; (t, p2) = getint p1; (amount, p3) = getvalue p2; (curr, p4) = getvalue p3;
          (method, p5) = getint p4 in
      (True,
       (if t > 0 \<and> to_int method \<ge> 0
        then ps @ [\<lparr>ap_handle = take 11 hdl, ap_timestamp = t, ap_amount = atof amount, ap_currency = take 3 curr, ap_method = to_int method\<rparr>]
        else ps),
       snd (leavearray p5)))"

definition CommandGetUserPurchases_procresult :: "(bytes \<Rightarrow> 'f) \<Rightarrow> 'f account \<Rightarrow> bytes \<Rightarrow> 'f reply" where
  "CommandGetUserPurchases_procresult atof details p =
     map_option (\<lambda>(b, ps, p1). ([account_details (details\<lparr>ad_purchases := ps\<rparr>) False False False True False False], p1))
       (array_loop (purchase_item atof) [] p)"

definition session_item :: "session list \<Rightarrow> bytes \<Rightarrow> bool \<times> session list \<times> bytes" where
  "session_item ss p =
     (let (ts, p1) = getint p; (mru, p2) = getint p1; (ua, p3) = storeobject p2; (ip, p4) = storeobject p3;
          (country, p5) = getvalue p4; (current, p6) = getint p5 in
      (True,
       ss @ [\<lparr>as_timestamp = ts, as_mru = mru, as_useragent = (case ua of Some s \<Rightarrow> s | None \<Rightarrow> []),
              as_ip = (case ip of Some s \<Rightarrow> s | None \<Rightarrow> []), as_country = take 2 country, as_current = to_int current\<rparr>],
       snd (leavearray p6)))"

definition CommandGetUserSessions_procresult :: "'f account \<Rightarrow> bytes \<Rightarrow> 'f reply" where
  "CommandGetUserSessions_procresult details p =
     map_option (\<lambda>(b, ss, p1). ([account_details (details\<lparr>ad_sessions := ss\<rparr>) False False False False False True], p1))
       (array_loop session_item [] p)"

text \<open>On success the handler itself leaves the array.\<close>

definition CommandQuerySignupLink_procresult :: "bytes \<Rightarrow> bytes \<Rightarrow> 'f reply" where
  "CommandQuerySignupLink_procresult confirmcode p =
     (case numeric_error p of
        Some (e, p1) \<Rightarrow> Some ([querysignuplink_error e], p1)
      | None \<Rightarrow>
          (let err = (\<lambda>q. Some ([querysignuplink_error API_EINTERNAL], q));
               (b1, name, p1) = storebinary_str [] (snd (isnumeric p)) in
           if \<not> b1 then err p1
           else let (b2, email, p2) = storebinary_str [] p1 in
           if \<not> b2 then err p2
           else let (uh, p3) = gethandle 8 p2 in
           if uh = 0 then err p3
           else let (kc, p4) = getvalue p3; (pwcheck, p5) = getvalue p4 in
           if \<not> ISUNDEF uh \<and> length (atob pwcheck 16) = 16 \<and> length (atob kc 16) = 16
           then Some ([querysignuplink_result uh (cstr name) (cstr email) (atob pwcheck 16) (atob kc 16) confirmcode],
                      snd (leavearray p5))
           else err p5))"

end
