(* ===== verification/Object_Replies.thy ===== *)
theory Object_Replies
  imports Responses
begin

text \<open>
  The result handlers of \<open>src/commands.cpp\<close> that read the members of an object: file attribute
  servers, upload and download targets, public links, quota.
\<close>

section \<open>File attributes\<close>

text \<open>What the handler of a file attribute request does next: its status is \<open>REQ_FAILURE\<close>, it posts or
  dispatches to the URL, or it reports \<open>API_EINTERNAL\<close>.\<close>

datatype fa_outcome = FaFailure | FaUrl bytes | FaInternal

definition fa_url :: "bytes option reader" where
  "fa_url = rd_value (\<lambda>v _. Some v)"

definition HttpReqCommandPutFA_procresult :: "bytes \<Rightarrow> (fa_outcome \<times> bytes) option" where
  "HttpReqCommandPutFA_procresult p =
     (let (num, p1) = isnumeric p in
      if num then Some (FaFailure, p1)
      else map_option (\<lambda>(e, v, q).
             ((case e of
                 AtEOO \<Rightarrow> (case v of None \<Rightarrow> FaFailure | Some t \<Rightarrow> FaUrl (copystring t))
               | _ \<Rightarrow> FaInternal), q))
           (scan (switch [(''p'', fa_url)]) None p1))"

text \<open>\<open>found\<close>: the channel of the part is in \<open>fafcs\<close>.\<close>

definition CommandGetFA_procresult :: "bool \<Rightarrow> bytes \<Rightarrow> (fa_outcome option \<times> bytes) option" where
  "CommandGetFA_procresult found p =
     (if \<not> found then Some (None, p)
      else
        (let (num, p1) = isnumeric p in
         if num then Some (Some FaFailure, p1)
         else map_option (\<lambda>(e, v, q).
                (Some (case e of
                   AtEOO \<Rightarrow> (case v of Some t \<Rightarrow> FaUrl (cstr (copystring t)) | None \<Rightarrow> FaFailure)
                 | _ \<Rightarrow> FaFailure), q))
              (scan (switch [(''p'', fa_url)]) None p1)))"

section \<open>Transfer slots\<close>

text \<open>The fields of a transfer slot that the handlers set, and what they do with it: \<open>transfer->failed(e)\<close>
  or \<open>progress()\<close>.\<close>

record tslot =
  ts_pendingcmd :: bool
  ts_tempurl :: bytes
  ts_fileattrstring :: bytes
  ts_fileattrsmutable :: int
  ts_starttime :: dstime
  ts_lastdata :: dstime

datatype slot_event =
    transfer_failed int
  | slot_progress
  | checkfile_error handle int
  | checkfile_result handle int bytes int int int bytes bytes bytes

definition stored_or :: "bytes \<Rightarrow> bytes option \<Rightarrow> bytes" where
  "stored_or old r = (case r of Some s \<Rightarrow> s | None \<Rightarrow> old)"

text \<open>\<open>slot = None\<close>: the command was canceled. Its \<open>case 'p'\<close> then leaves the value unread.\<close>

definition putfile_p :: "tslot option reader" where
  "putfile_p sl p =
     (case sl of
        None \<Rightarrow> Some (True, None, p)
      | Some t \<Rightarrow> rd_object (\<lambda>r. map_option (\<lambda>t. t\<lparr>ts_tempurl := stored_or (ts_tempurl t) r\<rparr>)) sl p)"

definition CommandPutFile_procresult :: "dstime \<Rightarrow> tslot option \<Rightarrow> bytes \<Rightarrow> (slot_event list \<times> tslot option \<times> bytes) option" where
  "CommandPutFile_procresult ds slot p =
     (let sl = map_option (\<lambda>t. t\<lparr>ts_pendingcmd := False\<rparr>) slot;
          (num, p1) = isnumeric p in
      if num then
        (case sl of
           None \<Rightarrow> Some ([], sl, p1)
         | Some t \<Rightarrow> (let (e, p2) = getint p1 in Some ([transfer_failed (to_int e)], sl, p2)))
      else
        map_option (\<lambda>(e, sl1, q).
            (case sl1 of
               None \<Rightarrow> ([], None, q)
             | Some t \<Rightarrow>
                 if e = AtEOO \<and> ts_tempurl t \<noteq> []
                 then ([slot_progress], Some (t\<lparr>ts_starttime := ds, ts_lastdata := ds\<rparr>), q)
                 else ([transfer_failed API_EINTERNAL], sl1, q)))
          (scan (switch [(''p'', putfile_p)]) sl p1))"

record getfile =
  gf_slot :: "tslot option"
  gf_at :: "bytes option"
  gf_e :: int
  gf_s :: int
  gf_d :: bool
  gf_ts :: int
  gf_tm :: int
  gf_fileattrstring :: bytes

definition upd_slot :: "(tslot \<Rightarrow> tslot) \<Rightarrow> getfile \<Rightarrow> getfile" where
  "upd_slot f g = g\<lparr>gf_slot := map_option f (gf_slot g)\<rparr>"

definition getfile_cases :: "(string \<times> getfile reader) list" where
  "getfile_cases =
     [(''g'', rd_object (\<lambda>r g. (upd_slot (\<lambda>t. t\<lparr>ts_tempurl := stored_or (ts_tempurl t) r\<rparr>) g)\<lparr>gf_e := API_OK\<rparr>)),
      (''s'', rd_int (\<lambda>i g. g\<lparr>gf_s := i\<rparr>)),
      (''d'', \<lambda>g p. Some (True, g\<lparr>gf_d := True\<rparr>, p)),
      (''ts'', rd_int (\<lambda>i g. g\<lparr>gf_ts := i\<rparr>)),
      (''tmd'', rd_int (\<lambda>i g. g\<lparr>gf_tm := gf_ts g + i\<rparr>)),
      (''at'', rd_value (\<lambda>v g. g\<lparr>gf_at := Some v\<rparr>)),
      (''fa'', rd_object (\<lambda>r g.
         if gf_slot g \<noteq> None then upd_slot (\<lambda>t. t\<lparr>ts_fileattrstring := stored_or (ts_fileattrstring t) r\<rparr>) g
         else g\<lparr>gf_fileattrstring := stored_or (gf_fileattrstring g) r\<rparr>)),
      (''pfa'', \<lambda>g p. if gf_slot g \<noteq> None then rd_int (\<lambda>i. upd_slot (\<lambda>t. t\<lparr>ts_fileattrsmutable := to_int i\<rparr>)) g p
                     else Some (True, g, p)),
      (''e'', rd_int (\<lambda>i g. g\<lparr>gf_e := to_int i\<rparr>))]"

text \<open>The decrypted attributes: fingerprint and name.\<close>

definition rd_or_return :: "(bytes \<Rightarrow> 's \<Rightarrow> 's) \<Rightarrow> 's reader" where
  "rd_or_return f s p =
     (case storeobject p of (Some v, q) \<Rightarrow> Some (True, f v s, q) | (None, q) \<Rightarrow> Some (False, s, q))"

definition getfile_attrs :: "bytes \<Rightarrow> (scan_end \<times> (bytes \<times> bytes) \<times> bytes) option" where
  "getfile_attrs buf =
     scan (switch [(''c'', rd_or_return (\<lambda>v (c, n). (v, n))), (''n'', rd_or_return (\<lambda>v (c, n). (c, v)))]) ([], []) (drop 5 buf)"

text \<open>The end of the object: \<open>filekey\<close> is used without a slot, \<open>tkey\<close> is the transfer's key. After
  \<open>cancel()\<close> there is neither a slot nor an error report.\<close>

definition getfile_end :: "libs \<Rightarrow> dstime \<Rightarrow> handle \<Rightarrow> bytes \<Rightarrow> symm \<Rightarrow> bool \<Rightarrow> getfile \<Rightarrow> (slot_event list \<times> tslot option) option" where
  "getfile_end L ds ph filekey tkey canceled g =
     (let fail = (\<lambda>e. if gf_slot g \<noteq> None then [transfer_failed e] else [checkfile_error ph e]) in
      case gf_at g of
        None \<Rightarrow> Some (if canceled then [] else fail API_EINTERNAL, gf_slot g)
      | Some a \<Rightarrow>
          if gf_d g then Some (if canceled then [] else fail API_EBLOCKED, gf_slot g)
          else
            (let key = (if gf_slot g \<noteq> None then tkey else symm_setkey filekey 0 symm_new);
                 text = takeWhile (\<lambda>c. c \<noteq> ch_quote) (cstr a)
             in case decryptattr (lib_aes L) key text of
                  None \<Rightarrow> Some (if canceled then [] else fail API_EKEY, gf_slot g)
                | Some buf \<Rightarrow>
                    map_option (\<lambda>(e, (c, n), q).
                        if e \<noteq> AtEOO then (fail API_EINTERNAL, gf_slot g)
                        else (case gf_slot g of
                            Some t \<Rightarrow>
                              ([if ts_tempurl t \<noteq> [] \<and> gf_s g \<ge> 0 then slot_progress else transfer_failed (gf_e g)],
                               Some (t\<lparr>ts_starttime := ds, ts_lastdata := ds\<rparr>))
                          | None \<Rightarrow>
                              ([checkfile_result ph (gf_e g) filekey (gf_s g) (gf_ts g) (gf_tm g) n c (gf_fileattrstring g)], None)))
                      (getfile_attrs buf)))"

definition CommandGetFile_procresult :: "libs \<Rightarrow> dstime \<Rightarrow> handle \<Rightarrow> bytes \<Rightarrow> symm \<Rightarrow> bool \<Rightarrow> tslot option \<Rightarrow> bytes
    \<Rightarrow> (slot_event list \<times> tslot option \<times> bytes) option" where
  "CommandGetFile_procresult L ds ph filekey tkey canceled slot p =
     (let sl = map_option (\<lambda>t. t\<lparr>ts_pendingcmd := False\<rparr>) slot;
          fail = (\<lambda>e. if sl \<noteq> None then [transfer_failed e] else [checkfile_error ph e]);
          (num, p1) = isnumeric p in
      if num then (let (e, p2) = getint p1 in Some (if canceled then [] else fail (to_int e), sl, p2))
      else
        Option.bind (scan (switch getfile_cases)
            \<lparr>gf_slot = sl, gf_at = None, gf_e = API_EINTERNAL, gf_s = -1, gf_d = False, gf_ts = 0, gf_tm = 0, gf_fileattrstring = []\<rparr> p1)
          (\<lambda>(e, g, q).
            if e = AtEOO then map_option (\<lambda>(evs, sl'). (evs, sl', q)) (getfile_end L ds ph filekey tkey canceled g)
            else Some (fail API_EINTERNAL, gf_slot g, q)))"

section \<open>Public links\<close>

record getph =
  gp_s :: int
  gp_ts :: int
  gp_tm :: int
  gp_a :: bytes
  gp_fa :: bytes

definition getph_cases :: "(string \<times> getph reader) list" where
  "getph_cases =
     [(''s'', rd_int (\<lambda>i g. g\<lparr>gp_s := i\<rparr>)),
      (''at'', rd_object (\<lambda>r g. g\<lparr>gp_a := stored_or (gp_a g) r\<rparr>)),
      (''fa'', rd_object (\<lambda>r g. g\<lparr>gp_fa := stored_or (gp_fa g) r\<rparr>)),
      (''ts'', rd_int (\<lambda>i g. g\<lparr>gp_ts := i\<rparr>)),
      (''tmd'', rd_int (\<lambda>i g. g\<lparr>gp_tm := gp_ts g + i\<rparr>))]"

text \<open>A member that cannot be skipped is reported and the loop goes on.\<close>

partial_function (option) getph_loop :: "(nameid \<Rightarrow> getph reader option) \<Rightarrow> 'f app_event list \<Rightarrow> getph \<Rightarrow> bytes \<Rightarrow> ('f app_event list \<times> getph \<times> bytes) option" where
  "getph_loop rd evs s p =
     Option.bind (scan rd s p) (\<lambda>(e, s1, q).
       if e = AtEOO then Some (evs, s1, q)
       else getph_loop rd (evs @ [openfilelink_error API_EINTERNAL]) s1 q)"

definition CommandGetPH_procresult :: "handle \<Rightarrow> bytes \<Rightarrow> int \<Rightarrow> bytes \<Rightarrow> 'f reply" where
  "CommandGetPH_procresult ph key op p =
     (case numeric_error p of
        Some (e, p1) \<Rightarrow> Some ([openfilelink_error e], p1)
      | None \<Rightarrow>
          map_option (\<lambda>(evs, g, q).
              (evs @ [if gp_s g \<ge> 0
                      then openfilelink_result ph key (gp_s g) (atob (cstr (gp_a g)) (length (gp_a g))) (cstr (gp_fa g)) (gp_ts g) (gp_tm g) op
                      else openfilelink_error API_EINTERNAL], q))
            (getph_loop (switch getph_cases) [] \<lparr>gp_s = -1, gp_ts = 0, gp_tm = 0, gp_a = [], gp_fa = []\<rparr> (snd (isnumeric p))))"

section \<open>Quota\<close>

record 'f quota =
  q_details :: "'f account"
  q_storage :: bool
  q_transfer :: bool
  q_pro :: bool

definition upd_details :: "('f account \<Rightarrow> 'f account) \<Rightarrow> 'f quota \<Rightarrow> 'f quota" where
  "upd_details f q = q\<lparr>q_details := f (q_details q)\<rparr>"

definition getfloat :: "(bytes \<Rightarrow> 'f) \<Rightarrow> 'f \<Rightarrow> bytes \<Rightarrow> 'f \<times> bytes" where
  "getfloat atof minus1 s =
     (let pos = (if cur s = ch_colon \<or> cur s = ch_comma then tl s else s) in
      if \<not> is_digit (cur pos) \<and> cur pos \<noteq> ch_minus \<and> cur pos \<noteq> ch_dot then (minus1, pos)
      else (atof pos, snd (storeobject pos)))"

text \<open>\<open>while ((t = getint()) >= 0) push_back(t)\<close>.\<close>

partial_function (option) hist_loop :: "int list \<Rightarrow> bytes \<Rightarrow> (int list \<times> bytes) option" where
  "hist_loop h p = (let (t, q) = getint p in if t \<ge> 0 then hist_loop (h @ [t]) q else Some (h, q))"

definition rd_tah :: "'f quota reader" where
  "rd_tah s p =
     (let (b, p1) = enterarray p in
      if b then
        map_option (\<lambda>(h, q). (True, upd_details (\<lambda>d. d\<lparr>ad_transfer_hist := h\<rparr>) s, snd (leavearray q)))
          (hist_loop (ad_transfer_hist (q_details s)) p1)
      else Some (True, s, p1))"

definition balance_item :: "(bytes \<Rightarrow> 'f) \<Rightarrow> 'f balance list \<Rightarrow> bytes \<Rightarrow> bool \<times> 'f balance list \<times> bytes" where
  "balance_item atof bs p =
     (let (amount, p1) = getvalue p; (curr, p2) = getvalue p1 in
      (True, bs @ [\<lparr>ab_amount = atof amount, ab_currency = take 3 curr\<rparr>], snd (leavearray p2)))"

definition rd_balance :: "(bytes \<Rightarrow> 'f) \<Rightarrow> 'f quota reader" where
  "rd_balance atof s p =
     (let (b, p1) = enterarray p in
      if b then
        map_option (\<lambda>(go, bs, q). (True, upd_details (\<lambda>d. d\<lparr>ad_balances := bs\<rparr>) s, snd (leavearray q)))
          (array_loop (balance_item atof) (ad_balances (q_details s)) p1)
      else Some (True, s, p1))"

text \<open>\<open>now\<close> is \<open>time(NULL)\<close>; the sums are of \<open>int64_t\<close>, without overflow.\<close>

definition quota_cases :: "(bytes \<Rightarrow> 'f) \<Rightarrow> 'f \<Rightarrow> int \<Rightarrow> (string \<times> 'f quota reader) list" where
  "quota_cases atof minus1 now =
     [(''bt'', rd_int (\<lambda>i s. if to_short i \<noteq> -1
         then upd_details (\<lambda>d. d\<lparr>ad_transfer_hist_starttime := now - uint (word_of_int i :: u16)\<rparr>) s else s)),
      (''bti'', rd_int (\<lambda>i. upd_details (\<lambda>d. d\<lparr>ad_transfer_hist_interval := i\<rparr>))),
      (''tah'', rd_tah),
      (''tar'', rd_int (\<lambda>i. upd_details (\<lambda>d. d\<lparr>ad_transfer_reserved := i\<rparr>))),
      (''tal'', rd_int (\<lambda>i s. (upd_details (\<lambda>d. d\<lparr>ad_transfer_limit := i\<rparr>) s)\<lparr>q_transfer := True\<rparr>)),
      (''tua'', rd_int (\<lambda>i. upd_details (\<lambda>d. d\<lparr>ad_transfer_own_used := ad_transfer_own_used d + i\<rparr>))),
      (''tuo'', rd_int (\<lambda>i. upd_details (\<lambda>d. d\<lparr>ad_transfer_srv_used := ad_transfer_srv_used d + i\<rparr>))),
      (''rua'', rd_int (\<lambda>i. upd_details (\<lambda>d. d\<lparr>ad_transfer_own_reserved := ad_transfer_own_reserved d + i\<rparr>))),
      (''ruo'', rd_int (\<lambda>i. upd_details (\<lambda>d. d\<lparr>ad_transfer_srv_reserved := ad_transfer_srv_reserved d + i\<rparr>))),
      (''cstrg'', rd_int (\<lambda>i. upd_details (\<lambda>d. d\<lparr>ad_storage_used := i\<rparr>))),
      (''mstrg'', rd_int (\<lambda>i s. (upd_details (\<lambda>d. d\<lparr>ad_storage_max := i\<rparr>) s)\<lparr>q_storage := True\<rparr>)),
      (''caxfer'', rd_int (\<lambda>i. upd_details (\<lambda>d. d\<lparr>ad_transfer_own_used := ad_transfer_own_used d + i\<rparr>))),
      (''csxfer'', rd_int (\<lambda>i. upd_details (\<lambda>d. d\<lparr>ad_transfer_srv_used := ad_transfer_srv_used d + i\<rparr>))),
      (''mxfer'', rd_int (\<lambda>i s. (upd_details (\<lambda>d. d\<lparr>ad_transfer_max := i\<rparr>) s)\<lparr>q_transfer := True\<rparr>)),
      (''srvratio'', \<lambda>s p. let (f, q) = getfloat atof minus1 p in Some (True, upd_details (\<lambda>d. d\<lparr>ad_srv_ratio := f\<rparr>) s, q)),
      (''utype'', rd_int (\<lambda>i s. (upd_details (\<lambda>d. d\<lparr>ad_pro_level := to_int i\<rparr>) s)\<lparr>q_pro := True\<rparr>)),
      (''stype'', rd_value (\<lambda>v. upd_details (\<lambda>d. d\<lparr>ad_subscription_type := cur v\<rparr>))),
      (''suntil'', rd_int (\<lambda>i. upd_details (\<lambda>d. d\<lparr>ad_pro_until := i\<rparr>))),
      (''balance'', rd_balance atof)]"

definition reset_quota :: "'f \<Rightarrow> 'f account \<Rightarrow> 'f account" where
  "reset_quota zero d = d\<lparr>ad_pro_level := 0, ad_subscription_type := 0, ad_pro_until := 0, ad_storage_used := 0, ad_storage_max := 0,
     ad_transfer_own_used := 0, ad_transfer_srv_used := 0, ad_transfer_max := 0, ad_transfer_own_reserved := 0,
     ad_transfer_srv_reserved := 0, ad_srv_ratio := zero, ad_transfer_hist_starttime := 0, ad_transfer_hist_interval := 3600,
     ad_transfer_hist := [], ad_transfer_reserved := 0, ad_transfer_limit := 0\<rparr>"

definition CommandGetUserQuota_procresult :: "(bytes \<Rightarrow> 'f) \<Rightarrow> 'f \<Rightarrow> 'f \<Rightarrow> int \<Rightarrow> 'f account \<Rightarrow> bytes \<Rightarrow> 'f reply" where
  "CommandGetUserQuota_procresult atof zero minus1 now details p =
     (case numeric_error p of
        Some (e, p1) \<Rightarrow> Some ([account_error e], p1)
      | None \<Rightarrow>
          map_option (\<lambda>(e, s, q).
              ([if e = AtEOO then account_details (q_details s) (q_storage s) (q_transfer s) (q_pro s) False False False
                else account_error API_EINTERNAL], q))
            (scan (switch (quota_cases atof minus1 now))
              \<lparr>q_details = reset_quota zero details, q_storage = False, q_transfer = False, q_pro = False\<rparr> (snd (isnumeric p))))"

end
