(* ===== verification/Replies.thy ===== *)
theory Replies
  imports Object_Replies
begin

text \<open>
  What the result handlers report for the responses they are made for, and where they stop. A handler
  that \<open>answers\<close> a response keeps the batch in step: the next command is given its own response.
\<close>

section \<open>Answers\<close>

definition answers :: "(bytes \<Rightarrow> ('e \<times> bytes) option) \<Rightarrow> json_value \<Rightarrow> 'e \<Rightarrow> bool" where
  "answers h v evs \<longleftrightarrow>
     (\<forall>rest. cur rest \<in> {ch_comma, ch_rbrack} \<longrightarrow>
        (\<exists>l. may_stop v l \<and> h (body v @ rest) = Some (evs, l @ rest)))"

lemma answers_handler_ok: "answers h v evs \<Longrightarrow> handler_ok (\<lambda>p. map_option snd (h p)) v"
  unfolding answers_def handler_ok_def by fastforce

lemma answersI:
  assumes "\<And>rest. cur rest \<in> {ch_comma, ch_rbrack} \<Longrightarrow> h (body v @ rest) = Some (evs, l @ rest)" "may_stop v l"
  shows "answers h v evs"
  using assms by (auto simp: answers_def)

section \<open>A batch\<close>

text \<open>Commands with their handlers, their responses and what they report.\<close>

definition queue :: "(command \<times> (bytes \<Rightarrow> ('e \<times> bytes) option)) list \<Rightarrow> request" where
  "queue cs = \<lparr>req_cmds = map (\<lambda>(c, h). (c, \<lambda>p. map_option snd (h p))) cs\<rparr>"

lemma handed_answers:
  assumes "list_all2 (\<lambda>ch ve. answers (snd ch) (fst ve) (snd ve)) cs ves" "cur rest \<in> {ch_comma, ch_rbrack}"
  shows "list_all2 (\<lambda>(ch, ve) p. \<exists>q. snd ch p = Some (snd ve, q)) (zip cs ves) (handed (map fst ves) rest)"
  using assms(1)
proof (induction cs ves rule: list_all2_induct)
  case (Cons ch cs ve ves)
  have "cur (commas (map fst ves) @ rest) \<in> {ch_comma, ch_rbrack}" using assms(2) by (cases ves) (auto simp: commas_def)
  then show ?case using Cons unfolding answers_def by fastforce
qed simp

lemma batch_answers:
  assumes a: "list_all2 (\<lambda>ch ve. answers (snd ch) (fst ve) (snd ve) \<and> wf_json (fst ve)) cs ves"
  shows "\<exists>ps. req_procresult (queue cs) (pr (JArr (map fst ves)) @ rest) =
      Some (\<lparr>req_cmds = []\<rparr>, zip (map (cmd_tag \<circ> fst) cs) ps,
        filter (\<lambda>c. \<not> cmd_persistent (fst c)) (req_cmds (queue cs)), ch_rbrack # rest) \<and>
    list_all2 (\<lambda>(ch, ve) p. \<exists>q. snd ch p = Some (snd ve, q)) (zip cs ves) ps"
proof -
  have "list_all2 (\<lambda>c v. handler_ok (snd c) v \<and> wf_json v) (req_cmds (queue cs)) (map fst ves)"
    using a by (auto simp: queue_def list_all2_conv_all_nth case_prod_beta intro: answers_handler_ok)
  moreover have "list_all2 (\<lambda>ch ve. answers (snd ch) (fst ve) (snd ve)) cs ves" using a by (rule list_all2_mono) simp
  ultimately show ?thesis
    using req_procresult_responses [of "queue cs" "map fst ves" rest] handed_answers [of cs ves "ch_rbrack # rest"]
    by (intro exI [of _ "handed (map fst ves) (ch_rbrack # rest)"]) (auto simp: queue_def comp_def case_prod_beta)
qed

section \<open>Numbers\<close>

lemma isnumeric_dec_int:
  assumes "\<not> is_num_tail (cur rest)"
  shows "isnumeric (dec_int n @ rest) = (True, dec_int n @ rest)"
proof -
  have "is_digit (cur (dec_nat m @ rest))" for m by (rule cur_dec_nat)
  moreover from this have "cur (dec_nat m @ rest) \<notin> {ch_comma, ch_minus}" for m
    by (metis is_digit_simps empty_iff insert_iff)
  ultimately show ?thesis by (auto simp: isnumeric_def dec_int_def Let_def skip_char_def)
qed

lemma numeric_error_dec_int:
  assumes "\<not> is_num_tail (cur rest)" "- (2 ^ 63) \<le> n" "n < 2 ^ 63"
  shows "numeric_error (dec_int n @ rest) = Some (to_int n, rest)"
  using assms getint_dec_int [of rest n] by (simp add: numeric_error_def isnumeric_dec_int)

lemma numeric_error_none:
  "cur p \<noteq> ch_comma \<Longrightarrow> cur p \<noteq> ch_minus \<Longrightarrow> \<not> is_digit (cur p) \<Longrightarrow> numeric_error p = None"
  "cur p \<noteq> ch_comma \<Longrightarrow> snd (isnumeric p) = p"
  by (simp_all add: numeric_error_def isnumeric_def skip_char_def)

text \<open>A handler that looks for a number first reports it and consumes it.\<close>

lemma answers_number:
  assumes "- (2 ^ 63) \<le> n" "n < 2 ^ 63" "\<And>p q. numeric_error p = Some (to_int n, q) \<Longrightarrow> h p = Some (evs, q)"
  shows "answers h (JNum (dec_int n)) evs"
  by (rule answersI [where l = "[]"]) (use assms numeric_error_dec_int [of _ n] in auto)

lemma numeric_error_str: "numeric_error (pr_str s @ rest) = None" "snd (isnumeric (pr_str s @ rest)) = pr_str s @ rest"
  by (simp_all add: numeric_error_none pr_str_def)

lemma numeric_error_object: "numeric_error (body (JObj ms) @ rest) = None" "snd (isnumeric (body (JObj ms) @ rest)) = body (JObj ms) @ rest"
  by (simp_all add: numeric_error_def isnumeric_object del: body.simps)

text \<open>The handlers that check for a number, with the callback for an error.\<close>

definition error_reporters :: "libs \<Rightarrow> symm \<Rightarrow> (bytes \<Rightarrow> 'f) \<Rightarrow> 'f \<Rightarrow> int \<Rightarrow> handle \<Rightarrow> nat \<Rightarrow> bytes \<Rightarrow> 'f account
    \<Rightarrow> ((bytes \<Rightarrow> 'f reply) \<times> (int \<Rightarrow> 'f app_event)) list" where
  "error_reporters L key atof x i h t b d =
     [(CommandSetAttr_procresult h, setattr_result h), (CommandDelNode_procresult h, unlink_result h),
      (CommandUserRequest_procresult, invite_result), (CommandPutUA_procresult, putua_result),
      (CommandSendSignupLink_procresult, sendsignuplink_result), (CommandConfirmSignupLink_procresult, confirmsignuplink_result),
      (CommandSetKeyPair_procresult, setkeypair_result), (CommandSetMasterKey_procresult, changepw_result),
      (CommandAttachFA_procresult h t, putfa_result_error h t), (CommandPurchaseCheckout_procresult, checkout_error),
      (CommandSetPH_procresult h, exportnode_error), (CommandGetUA_procresult (lib_aes L) key True, getua_error),
      (CommandGetUA_procresult (lib_aes L) key False, getua_error), (CommandEnumerateQuotaItems_procresult, enumeratequotaitems_error),
      (CommandQuerySignupLink_procresult b, querysignuplink_error), (CommandGetPH_procresult h b i, openfilelink_error),
      (CommandGetUserQuota_procresult atof x x i d, account_error)]"

lemmas handler_defs =
  CommandSetAttr_procresult_def CommandDelNode_procresult_def CommandUserRequest_procresult_def CommandPutUA_procresult_def
  CommandSendSignupLink_procresult_def CommandConfirmSignupLink_procresult_def CommandSetKeyPair_procresult_def
  CommandSetMasterKey_procresult_def CommandAttachFA_procresult_def CommandPurchaseCheckout_procresult_def
  CommandSetPH_procresult_def CommandGetUA_procresult_def CommandEnumerateQuotaItems_procresult_def
  CommandQuerySignupLink_procresult_def CommandGetPH_procresult_def CommandGetUserQuota_procresult_def

lemma error_reporters_answer:
  assumes "(hdl, er) \<in> set (error_reporters L key atof x i h t b d)" "- (2 ^ 63) \<le> n" "n < 2 ^ 63"
  shows "answers hdl (JNum (dec_int n)) [er (to_int n)]"
  by (rule answers_number [OF assms(2,3)]) (use assms(1) in \<open>auto simp: error_reporters_def handler_defs\<close>)

section \<open>Strings\<close>

lemma answers_string:
  assumes "str_ok False s" "\<And>rest. h (pr_str s @ rest) = Some (evs, rest)"
  shows "answers h (JStr s) evs"
  by (rule answersI [where l = "[]"]) (use assms in simp_all)

lemma cstr_str_ok: "str_ok e s \<Longrightarrow> cstr s = s"
  using str_ok_no_nul [of e s] by (auto simp: cstr_def takeWhile_eq_all_conv)

lemma attachfa_answers: "str_ok False fa \<Longrightarrow> answers (CommandAttachFA_procresult h t) (JStr fa) [putfa_result h t fa]"
  by (rule answers_string)
    (simp_all add: CommandAttachFA_procresult_def numeric_error_str storeobject_pr_str cstr_str_ok)

lemma checkout_answers: "str_ok False s \<Longrightarrow> answers CommandPurchaseCheckout_procresult (JStr s) [checkout_result s]"
  by (rule answers_string)
    (simp_all add: CommandPurchaseCheckout_procresult_def numeric_error_str storeobject_pr_str cstr_str_ok)

lemma setph_answers:
  assumes "take_bit 48 ph = ph" "\<not> ISUNDEF ph"
  shows "answers (CommandSetPH_procresult h) (JStr (btoa (le_bytes 6 ph))) [exportnode_result h ph]"
  by (rule answers_string [OF str_ok_btoa])
    (use assms gethandle_btoa [of 6 ph] in \<open>simp add: CommandSetPH_procresult_def numeric_error_str\<close>)

lemma atob_quoted: "n \<ge> length d \<Longrightarrow> atob (btoa d @ ch_quote # rest) n = d"
  unfolding atob_def using atob_loop_btoa [of "ch_quote # rest" "[]" n d] by (simp add: from64_def)

lemma atob_size: "m \<le> (4 * m + 2) div 3 div 4 * 3 + 3" for m :: nat
proof -
  have "m div 3 * 3 \<le> m" by (rule div_times_less_eq_dividend)
  then have "m div 3 * 12 \<le> 4 * m + 2" by linarith
  then have "m div 3 \<le> (4 * m + 2) div 3 div 4" by (simp add: less_eq_div_iff_mult_less_eq div_mult2_eq [symmetric])
  moreover have "m < (m div 3 + 1) * 3" by (rule div_less_iff_less_mult [THEN iffD1]) simp_all
  ultimately show ?thesis by linarith
qed

lemma getua_data:
  "getvalue (pr_str (btoa d) @ rest) = (btoa d @ ch_quote # rest, rest)"
  "ch_quote \<in> set (cstr (btoa d @ ch_quote # rest))"
  "takeWhile (\<lambda>c. c \<noteq> ch_quote) (btoa d @ ch_quote # rest) = btoa d"
  using storeobject_pr_str [OF str_ok_btoa, of d rest] btoa_no_quote [of d]
  by (auto simp: getvalue_def pr_str_def cstr_def takeWhile_append takeWhile_eq_all_conv)

text \<open>A user attribute written by \<open>CommandPutUA\<close> in the encrypted form comes back decrypted.\<close>

lemma getua_answers:
  "answers (CommandGetUA_procresult L key False) (JStr (btoa d)) [getua_result d]"
  "aes_ok L \<Longrightarrow> answers (CommandGetUA_procresult L key True) (JStr (btoa (padded_encrypt L key d))) [getua_result d]"
proof -
  have a: "atob (btoa x @ ch_quote # rest) (length (btoa x) div 4 * 3 + 3) = x" for x rest
    by (rule atob_quoted) (simp add: length_btoa atob_size)
  show "answers (CommandGetUA_procresult L key False) (JStr (btoa d)) [getua_result d]"
    by (rule answers_string [OF str_ok_btoa])
      (simp add: CommandGetUA_procresult_def numeric_error_str getua_data a Let_def)
  show "answers (CommandGetUA_procresult L key True) (JStr (btoa (padded_encrypt L key d))) [getua_result d]" if "aes_ok L"
    by (rule answers_string [OF str_ok_btoa])
      (simp add: CommandGetUA_procresult_def numeric_error_str getua_data a Let_def padded_roundtrip [OF that])
qed

section \<open>Objects\<close>

text \<open>A handler that scans an object stops at its end.\<close>

lemma answers_object:
  assumes "list_all2 (member_effect \<alpha> rd) ms gs"
    and "\<And>rest s'. scan rd s (body (JObj ms) @ rest) = Some (AtEOO, s', ch_rbrace # rest) \<Longrightarrow>
      \<alpha> s' = fold (\<lambda>g. g) gs (\<alpha> s) \<Longrightarrow> h (body (JObj ms) @ rest) = Some (evs, ch_rbrace # rest)"
  shows "answers h (JObj ms) evs"
proof (rule answersI [where l = "[ch_rbrace]"])
  fix rest :: bytes
  obtain s' where "scan rd s (body (JObj ms) @ rest) = Some (AtEOO, s', ch_rbrace # rest)" "\<alpha> s' = fold (\<lambda>g. g) gs (\<alpha> s)"
    using scan_object [OF assms(1), of s rest] by blast
  then show "h (body (JObj ms) @ rest) = Some (evs, [ch_rbrace] @ rest)" using assms(2) by simp
qed (rule may_stop_end)

definition getph_event :: "handle \<Rightarrow> bytes \<Rightarrow> int \<Rightarrow> getph \<Rightarrow> 'f app_event" where
  "getph_event ph key op g =
     (if gp_s g \<ge> 0
      then openfilelink_result ph key (gp_s g) (atob (cstr (gp_a g)) (length (gp_a g))) (cstr (gp_fa g)) (gp_ts g) (gp_tm g) op
      else openfilelink_error API_EINTERNAL)"

lemma getph_answers:
  assumes "list_all2 (member_effect id (switch getph_cases)) ms gs"
  shows "answers (CommandGetPH_procresult ph key op) (JObj ms)
    [getph_event ph key op (fold (\<lambda>g. g) gs \<lparr>gp_s = -1, gp_ts = 0, gp_tm = 0, gp_a = [], gp_fa = []\<rparr>)]"
  by (rule answers_object [OF assms, where s = "\<lparr>gp_s = -1, gp_ts = 0, gp_tm = 0, gp_a = [], gp_fa = []\<rparr>"])
    (simp add: CommandGetPH_procresult_def numeric_error_object getph_event_def getph_loop.simps del: body.simps)

lemma quota_answers:
  assumes "list_all2 (member_effect id (switch (quota_cases atof minus1 now))) ms gs"
  shows "answers (CommandGetUserQuota_procresult atof zero minus1 now d) (JObj ms)
    (let s = fold (\<lambda>g. g) gs \<lparr>q_details = reset_quota zero d, q_storage = False, q_transfer = False, q_pro = False\<rparr> in
     [account_details (q_details s) (q_storage s) (q_transfer s) (q_pro s) False False False])"
  by (rule answers_object [OF assms, where s = "\<lparr>q_details = reset_quota zero d, q_storage = False, q_transfer = False, q_pro = False\<rparr>"])
    (simp add: CommandGetUserQuota_procresult_def numeric_error_object Let_def del: body.simps)

text \<open>Upload and file attribute targets: the URL under \<open>p\<close>.\<close>

lemma putfile_answers:
  assumes "list_all2 (member_effect id (switch [(''p'', putfile_p)])) ms gs"
    and "fold (\<lambda>g. g) gs (Some (t\<lparr>ts_pendingcmd := False\<rparr>)) = Some t'" "ts_tempurl t' \<noteq> []"
  shows "answers (\<lambda>p. map_option (\<lambda>(evs, sl, q). ((evs, sl), q)) (CommandPutFile_procresult ds (Some t) p)) (JObj ms)
    ([slot_progress], Some (t'\<lparr>ts_starttime := ds, ts_lastdata := ds\<rparr>))"
  by (rule answers_object [OF assms(1), where s = "Some (t\<lparr>ts_pendingcmd := False\<rparr>)"])
    (use assms(2,3) in \<open>simp add: CommandPutFile_procresult_def isnumeric_object del: body.simps\<close>)

definition url_of :: "bytes option \<Rightarrow> bytes option" where
  "url_of = map_option copystring"

lemma copystring_quote: "str_ok False s \<Longrightarrow> ch_bslash \<notin> set s \<Longrightarrow> copystring (s @ ch_quote # r) = s"
proof -
  assume s: "str_ok False s" "ch_bslash \<notin> set s"
  have "\<forall>c \<in> set s. c \<noteq> 0" "\<forall>c \<in> set s. c \<noteq> ch_quote"
    using s str_ok_no_nul [OF s(1)] str_ok_no_quote [OF s] by auto
  then show ?thesis by (simp add: copystring_def takeWhile_append2)
qed

lemma putfa_answers:
  assumes "list_all2 (member_effect url_of (switch [(''p'', fa_url)])) ms gs" "fold (\<lambda>g. g) gs None = Some url"
  shows "answers HttpReqCommandPutFA_procresult (JObj ms) (FaUrl url)"
  by (rule answers_object [OF assms(1), where s = None])
    (use assms(2) in \<open>auto simp: HttpReqCommandPutFA_procresult_def isnumeric_object url_of_def simp del: body.simps\<close>)

section \<open>Arrays\<close>

lemma array_loop_items:
  assumes "list_all2 (\<lambda>xs g. \<forall>s rest. f s (body (JArr xs) @ rest) = (True, g s, rest)) xss gs"
    and "p = commas (map JArr xss) @ ch_rbrack # rest \<or> (xss \<noteq> [] \<and> p = tl (commas (map JArr xss) @ ch_rbrack # rest))"
  shows "array_loop f s p = Some (True, fold (\<lambda>g. g) gs s, ch_rbrack # rest)"
  using assms
proof (induction xss gs arbitrary: s p rule: list_all2_induct)
  case Nil
  then show ?case by (subst array_loop.simps) (simp add: commas_def enterarray_def skip_char_def)
next
  case (Cons xs xss g gs)
  have "enterarray p = (True, body (JArr xs) @ commas (map JArr xss) @ ch_rbrack # rest)"
    using Cons.prems by (auto simp: commas_def enterarray_def skip_char_def)
  then show ?case
    using Cons.IH [of "commas (map JArr xss) @ ch_rbrack # rest" "g s"] Cons.hyps(1)
    by (subst array_loop.simps) (simp del: body.simps)
qed

lemma getint_skip: "cur s \<noteq> ch_colon \<Longrightarrow> cur s \<noteq> ch_comma \<Longrightarrow> getint (ch_comma # s) = getint s"
  by (simp add: getint_def)

lemma cur_dec_int: "cur (dec_int n @ rest) \<noteq> ch_colon" "cur (dec_int n @ rest) \<noteq> ch_comma"
  using cur_dec_nat [of "nat n" rest] by (auto simp: dec_int_def dest: is_digit_not_punct)

lemma getint_comma: "\<not> is_num_tail (cur rest) \<Longrightarrow> - (2 ^ 63) \<le> n \<Longrightarrow> n < 2 ^ 63 \<Longrightarrow> getint (ch_comma # dec_int n @ rest) = (n, rest)"
  by (simp only: getint_skip cur_dec_int not_False_eq_True getint_dec_int)

lemma getvalue_comma: "str_ok False t \<Longrightarrow> getvalue (ch_comma # pr_str t @ rest) = (t @ ch_quote # rest, rest)"
  using storeobject_pr_str [of t rest] by (simp add: getvalue_def pr_str_def)

text \<open>An offer of the price list: product, plan, sizes, months, price and currency.\<close>

record offer =
  of_product :: handle
  of_level :: nat
  of_storage :: nat
  of_transfer :: nat
  of_months :: nat
  of_price :: bytes
  of_currency :: bytes

definition offer_ok :: "offer \<Rightarrow> bool" where
  "offer_ok x \<longleftrightarrow>
     take_bit 48 (of_product x) = of_product x \<and> \<not> ISUNDEF (of_product x) \<and>
     list_all (\<lambda>n. n < 2 ^ 31) [of_level x, of_storage x, of_transfer x, of_months x] \<and>
     str_ok False (of_price x) \<and> str_ok False (of_currency x) \<and> ch_bslash \<notin> set (of_currency x)"

definition offer_json :: "offer \<Rightarrow> json_value list" where
  "offer_json x =
     [JStr (btoa (le_bytes 6 (of_product x))), JNum (dec_int (int (of_level x))), JNum (dec_int (int (of_storage x))),
      JNum (dec_int (int (of_transfer x))), JNum (dec_int (int (of_months x))), JStr (of_price x), JStr (of_currency x)]"

definition offer_event :: "offer \<Rightarrow> u32 \<Rightarrow> 'f app_event" where
  "offer_event x amount = enumeratequotaitems_item (of_product x) (int (of_level x)) (int (of_storage x)) (int (of_transfer x))
     (int (of_months x)) amount (of_currency x)"

lemma to_int_small: "- (2 ^ 31) \<le> n \<Longrightarrow> n < 2 ^ 31 \<Longrightarrow> to_int n = n"
  by (simp add: to_int_def signed_of_int signed_take_bit_int_eq_self_iff)

text \<open>The price is read from the rest of the whole response: \<open>strchr\<close> does not stop at the end of the value.\<close>

lemma quota_item_offer:
  assumes "offer_ok x"
  shows "quota_item evs (body (JArr (offer_json x)) @ rest) =
    (True, evs @ [offer_event x (cents (of_price x @ ch_quote # ch_comma # pr_str (of_currency x) @ ch_rbrack # rest))], rest)"
proof -
  have x: "take_bit 48 (of_product x) = of_product x" "\<not> ISUNDEF (of_product x)" "str_ok False (of_price x)" "str_ok False (of_currency x)"
    "ch_bslash \<notin> set (of_currency x)"
    and n: "of_level x < 2 ^ 31" "of_storage x < 2 ^ 31" "of_transfer x < 2 ^ 31" "of_months x < 2 ^ 31"
    using assms by (simp_all add: offer_ok_def)
  have i: "to_int (int m) = int m" "getint (ch_comma # dec_int (int m) @ ch_comma # q) = (int m, ch_comma # q)" if "m < 2 ^ 31" for m q
    using that to_int_small [of "int m"] getint_comma [of "ch_comma # q" "int m"] by auto
  have g: "gethandle 6 (pr_str (btoa (le_bytes 6 (of_product x))) @ q) = (of_product x, q)" for q
    using gethandle_btoa [of 6 "of_product x" q] x(1) by simp
  show ?thesis
    using x(2) n
    by (simp add: quota_item_def offer_json_def sep_Cons g i getvalue_comma x(3,4) copystring_quote [OF x(4,5)] leavearray_def offer_event_def Let_def)
qed

definition price :: "nat \<Rightarrow> nat \<Rightarrow> nat \<Rightarrow> bytes" where
  "price w a b = dec_nat w @ [ch_dot, of_nat a + 48, of_nat b + 48]"

lemma atoll_dec_nat: "w < 2 ^ 31 \<Longrightarrow> \<not> is_digit (cur r) \<Longrightarrow> atoll (dec_nat w @ r) = int w"
  using atoll_dec_int [of r "int w"] by (simp add: dec_int_def)

lemma ucast_digit: "n < 10 \<Longrightarrow> ucast (of_nat n + 48 :: byte) - 48 = (of_nat n :: u32)"
  by (simp only: ucast_eq uint_digit of_int_add) simp

lemma dropWhile_cstr: "\<forall>c \<in> set u. c \<noteq> 0 \<and> c \<noteq> ch_dot \<Longrightarrow> dropWhile (\<lambda>x. x \<noteq> ch_dot) (cstr (u @ ch_dot # r)) = ch_dot # cstr r"
  by (induction u) (simp_all add: cstr_def)

lemma dec_nat_no: "c \<in> set (dec_nat n) \<Longrightarrow> c \<noteq> 0 \<and> c \<noteq> ch_dot"
  using dec_nat_digits [of n] by (auto simp: list_all_iff is_digit_def)

text \<open>The cents are those behind the first point of the text, wherever it is.\<close>

lemma cents_point:
  assumes "w < 2 ^ 31" "a < 10" "b < 10" "0 \<notin> set t" "ch_dot \<notin> set t" "\<not> is_digit (cur (t @ [ch_dot]))"
  shows "cents (dec_nat w @ t @ ch_dot # (of_nat a + 48) # (of_nat b + 48) # r) = of_nat (100 * w + 10 * a + b)"
proof -
  let ?r = "ch_dot # (of_nat a + 48) # (of_nat b + 48) # r"
  have "\<not> is_digit (cur (t @ ?r))" using assms(6) by (cases t) simp_all
  then have at: "atoll (dec_nat w @ t @ ?r) = int w" using atoll_dec_nat [OF assms(1)] by blast
  have d: "of_nat a + 48 \<noteq> (0 :: byte)" "of_nat b + 48 \<noteq> (0 :: byte)" using is_digit_of_nat [OF assms(2)] is_digit_of_nat [OF assms(3)] by auto
  have "\<forall>c \<in> set (dec_nat w @ t). c \<noteq> 0 \<and> c \<noteq> ch_dot" using assms(4,5) dec_nat_no [of _ w] by auto
  then have "dropWhile (\<lambda>x. x \<noteq> ch_dot) (cstr ((dec_nat w @ t) @ ?r)) = ch_dot # (of_nat a + 48) # (of_nat b + 48) # cstr r"
    using d dropWhile_cstr [of "dec_nat w @ t"] by (simp add: cstr_def del: append_assoc)
  moreover have "to_int (int w) = int w" using assms(1) by (simp add: to_int_small)
  ultimately show ?thesis
    using at assms(2,3) is_digit_of_nat [OF assms(2)] is_digit_of_nat [OF assms(3)] ucast_digit [OF assms(2)] ucast_digit [OF assms(3)]
    by (simp add: cents_def Let_def algebra_simps)
qed

lemma cents_price: "w < 2 ^ 31 \<Longrightarrow> a < 10 \<Longrightarrow> b < 10 \<Longrightarrow> cents (price w a b @ r) = of_nat (100 * w + 10 * a + b)"
  using cents_point [of w a b "[]" r] by (simp add: price_def is_digit_def)

lemma fold_events: "fold (\<lambda>g. g) (map (\<lambda>x evs. evs @ [e x]) xs) evs = evs @ map e xs"
  by (induction xs arbitrary: evs) simp_all

lemma quota_items_answers:
  assumes "list_all (\<lambda>(x, w, a, b). offer_ok x \<and> of_price x = price w a b \<and> w < 2 ^ 31 \<and> a < 10 \<and> b < 10) xs"
  shows "answers (CommandEnumerateQuotaItems_procresult :: bytes \<Rightarrow> 'f reply) (JArr (map (\<lambda>(x, w, a, b). JArr (offer_json x)) xs))
    (map (\<lambda>(x, w, a, b). offer_event x (of_nat (100 * w + 10 * a + b))) xs @ [enumeratequotaitems_error API_OK])"
proof (rule answersI [where l = "[ch_rbrack]"])
  fix rest
  define e :: "offer \<times> nat \<times> nat \<times> nat \<Rightarrow> 'f app_event" where "e = (\<lambda>(x, w, a, b). offer_event x (of_nat (100 * w + 10 * a + b)))"
  let ?xss = "map (\<lambda>(x, w, a, b). offer_json x) xs"
  let ?p = "body (JArr (map JArr ?xss)) @ rest"
  have "list_all2 (\<lambda>xs g. \<forall>s rest. quota_item s (body (JArr xs) @ rest) = (True, g s, rest)) ?xss (map (\<lambda>x evs. evs @ [e x]) xs)"
    using assms
    by (auto simp: list_all2_conv_all_nth list_all_length quota_item_offer cents_price e_def case_prod_beta simp del: body.simps)
  then have "array_loop quota_item [] ?p = Some (True, fold (\<lambda>g. g) (map (\<lambda>x evs. evs @ [e x]) xs) [], ch_rbrack # rest)"
    by (rule array_loop_items) (cases xs; simp add: commas_def sep_Cons comp_def)
  moreover have "numeric_error ?p = None" "snd (isnumeric ?p) = ?p"
    by (cases xs; simp add: numeric_error_none sep_Cons)+
  ultimately have "CommandEnumerateQuotaItems_procresult ?p = Some (map e xs @ [enumeratequotaitems_error API_OK], ch_rbrack # rest)"
    by (simp add: CommandEnumerateQuotaItems_procresult_def fold_events del: body.simps)
  then show "(CommandEnumerateQuotaItems_procresult :: bytes \<Rightarrow> 'f reply) (body (JArr (map (\<lambda>(x, w, a, b). JArr (offer_json x)) xs)) @ rest) =
      Some (map (\<lambda>(x, w, a, b). offer_event x (of_nat (100 * w + 10 * a + b))) xs @ [enumeratequotaitems_error API_OK], [ch_rbrack] @ rest)"
    by (simp add: e_def case_prod_beta comp_def)
qed simp

section \<open>Out of step\<close>

text \<open>The rest of a batch after the handler of the first command.\<close>

lemma transactions_number:
  "array_loop f s (dec_int n @ rest) = Some (True, s, dec_int n @ rest)"
  using cur_dec_int [of n rest] cur_dec_nat [of "nat n" rest]
  by (subst array_loop.simps) (auto simp: enterarray_def skip_char_def Let_def dec_int_def dest: is_digit_not_punct)

text \<open>Three handlers have no case for an error number: they report success and leave the number to the
  next command.\<close>

lemma histories_ignore_errors:
  "CommandGetUserTransactions_procresult atof d (dec_int n @ rest) =
    Some ([account_details (d\<lparr>ad_transactions := []\<rparr>) False False False False True False], dec_int n @ rest)"
  "CommandGetUserPurchases_procresult atof d (dec_int n @ rest) =
    Some ([account_details (d\<lparr>ad_purchases := []\<rparr>) False False False True False False], dec_int n @ rest)"
  "CommandGetUserSessions_procresult d (dec_int n @ rest) =
    Some ([account_details (d\<lparr>ad_sessions := []\<rparr>) False False False False False True], dec_int n @ rest)"
  by (simp_all add: CommandGetUserTransactions_procresult_def CommandGetUserPurchases_procresult_def
      CommandGetUserSessions_procresult_def transactions_number)

text \<open>The handler of a canceled upload does not read the URL; it takes the URL for a name, and the response
  of the next command for its value.\<close>

lemma storeobject_comma: "starts_value (cur s) \<Longrightarrow> storeobject (ch_comma # s) = storeobject s"
  by (simp add: storeobject_def skip_at_value) (simp add: skip_char_def schar_uint)

lemma getnameid_value:
  "key_ok t \<Longrightarrow> getnameid (pr_str t @ c # rest) = (getnameid_at t, rest)"
  using nameid_loop_quote [of t 0 "c # rest"] str_ok_no_quote [of t] str_ok_no_nul [of False t]
  by (simp add: getnameid_def pr_str_def key_ok_def getnameid_at_def)

lemma canceled_putfile:
  assumes t: "key_ok t" "getnameid_at t \<noteq> MAKENAMEID ''p''" and v: "wf_json v"
  shows "CommandPutFile_procresult ds None (body (JObj [(str ''p'', JStr t)]) @ ch_comma # pr v @ ch_rbrack # rest) =
    Some ([], None, ch_rbrack # rest)"
proof -
  let ?sw = "switch [(''p'', putfile_p)]"
  let ?next = "ch_comma # pr v @ ch_rbrack # rest"
  have p: "getnameid_at (str ''p'') = MAKENAMEID ''p''" "MAKENAMEID ''p'' \<noteq> 0" "key_ok (str ''p'')"
    by (simp_all add: getnameid_at_str MAKENAMEID_def key_ok_def str_def getnameid_at_def)
  have b: "body (JObj [(str ''p'', JStr t)]) @ ?next = pr_str (str ''p'') @ ch_colon # pr_str t @ ch_rbrace # ?next"
    by (simp add: pr_member_def)
  have "scan ?sw None (ch_rbrack # rest) = Some (AtEOO, None, ch_rbrack # rest)"
    by (subst scan.simps) (simp add: getnameid_def)
  moreover have "storeobject ?next = (Some (stored v), ch_rbrack # rest)"
    using storeobject_value [OF v, of "ch_rbrack # rest"] starts_value_pr [OF v] by (simp add: storeobject_comma)
  ultimately have "scan ?sw None (pr_str t @ ch_rbrace # ?next) = Some (AtEOO, None, ch_rbrack # rest)"
    using t by (subst scan.simps) (simp add: getnameid_value switch_def key_ok_def)
  then have "scan ?sw None (pr_str (str ''p'') @ ch_colon # pr_str t @ ch_rbrace # ?next) = Some (AtEOO, None, ch_rbrack # rest)"
    using p by (subst scan.simps) (simp add: getnameid_value switch_def putfile_p_def)
  moreover have "isnumeric (pr_str (str ''p'') @ ch_colon # pr_str t @ ch_rbrace # ?next) = (False, pr_str (str ''p'') @ ch_colon # pr_str t @ ch_rbrace # ?next)"
    by (simp add: isnumeric_def pr_str_def skip_char_def)
  ultimately show ?thesis unfolding b by (simp add: CommandPutFile_procresult_def)
qed

end
