(* ===== verification/Node_Attrs.thy ===== *)
theory Node_Attrs
  imports Node
begin

text \<open>
  The attributes of a node on their way: \<open>AttrMap::getjson\<close> prints them, \<open>makeattr\<close> pads and
  encrypts the text, the API transports it in base64, and \<open>Node::setattr\<close> decrypts, checks the
  magic prefix and parses it back into the map.
\<close>

text \<open>Names a parser of signed \<open>char\<close>s reads back, values that NFC leaves alone.\<close>

definition attr_plain :: "(bytes \<Rightarrow> bytes option) \<Rightarrow> nameid \<times> bytes \<Rightarrow> bool" where
  "attr_plain nfc kv \<longleftrightarrow>
     fst kv \<noteq> 0 \<and> name_ok (fst kv) \<and>
     list_all (\<lambda>c. c < 128 \<and> c \<noteq> ch_quote \<and> c \<noteq> ch_bslash \<and> c \<noteq> 0) (nameid2string (fst kv)) \<and>
     (fst kv = 110 \<longrightarrow> normalize nfc (snd kv) = snd kv)"

definition pr_attr :: "nameid \<times> bytes \<Rightarrow> bytes" where
  "pr_attr kv = pr_str (nameid2string (fst kv)) @ ch_colon # pr_str (escape_loop [] (snd kv))"

lemma getjson_loop_pr:
  "list_all (\<lambda>kv. fst kv \<noteq> 0) m \<Longrightarrow>
   getjson_loop s m = s @ (if s = [] then sep else (\<lambda>xs. concat (map (\<lambda>y. ch_comma # y) xs))) (map pr_attr m)"
proof (induction s m rule: getjson_loop.induct)
  case (2 s i v m)
  then show ?case by (auto simp: pr_attr_def pr_str_def sep_Cons Let_def)
qed simp

lemma getjson_pr: "list_all (\<lambda>kv. fst kv \<noteq> 0) m \<Longrightarrow> getjson m = sep (map pr_attr m)"
  by (simp add: getjson_def getjson_loop_pr)

lemma nameid_loop_ascii:
  "list_all (\<lambda>c. c < 128 \<and> c \<noteq> ch_quote \<and> c \<noteq> 0) s \<Longrightarrow>
   fst (nameid_loop i s) = fold (\<lambda>c i. push_bit 8 i + ucast c) s i"
proof (induction s arbitrary: i)
  case (Cons c s)
  have "(scast c :: nameid) = ucast c"
  proof -
    have "sint c = uint c" using Cons.prems schar_uint [of c] by (simp add: schar_def)
    then show ?thesis by (simp only: scast_eq ucast_eq)
  qed
  with Cons show ?case by simp
qed simp

lemma getnameid_attr:
  assumes "attr_plain nfc (i, v)"
  shows "key_ok (nameid2string i)" "getnameid_at (nameid2string i) = i"
proof -
  let ?s = "nameid2string i"
  have s: "list_all (\<lambda>c. c < 128 \<and> c \<noteq> ch_quote \<and> c \<noteq> ch_bslash \<and> c \<noteq> 0) ?s"
    and i: "i \<noteq> 0" "nameid_of ?s = i"
    using assms by (auto simp: attr_plain_def name_ok_def)
  have "fst (nameid_loop 0 ?s) = nameid_of ?s"
    unfolding nameid_of_def using s by (intro nameid_loop_ascii) (auto simp: list_all_iff)
  then show g: "getnameid_at ?s = i" using i by (simp add: getnameid_at_def)
  have "str_ok False ?s" using s by (intro str_ok_plain) (auto simp: list_all_iff)
  then show "key_ok ?s" using g i s by (auto simp: key_ok_def list_all_iff)
qed

lemma attr_loop_member:
  assumes "attr_plain nfc (i, v)" "p = pr_attr (i, v) @ rest \<or> p = ch_comma # pr_attr (i, v) @ rest"
  shows "attr_loop nfc p m = attr_loop nfc rest (om_update i v m)"
proof -
  have "getnameid p = (i, pr_str (escape_loop [] v) @ rest)"
    using getnameid_key [OF getnameid_attr(1) [OF assms(1)], of p "pr_str (escape_loop [] v) @ rest"]
      getnameid_attr(2) [OF assms(1)] assms(2) by (auto simp: pr_attr_def)
  moreover have "storeobject (pr_str (escape_loop [] v) @ rest) = (Some (escape_loop [] v), rest)"
    using storeobject_string(1) [OF so_string_escape, of v rest] by (simp add: pr_str_def)
  moreover have "i \<noteq> 0" "i = 110 \<longrightarrow> normalize nfc v = v" using assms(1) by (simp_all add: attr_plain_def)
  ultimately show ?thesis by (subst attr_loop.simps) (simp add: unescape_escape)
qed

lemmas attr_loop_members = attr_loop_member [OF _ disjI1 [OF refl]] attr_loop_member [OF _ disjI2 [OF refl]]

lemma attr_loop_end: "cur p = ch_rbrace \<Longrightarrow> attr_loop nfc p m = m"
  by (subst attr_loop.simps) (simp add: getnameid_def)

lemma attr_loop_rest:
  "list_all (attr_plain nfc) kvs \<Longrightarrow>
   attr_loop nfc (concat (map (\<lambda>kv. ch_comma # pr_attr kv) kvs) @ ch_rbrace # z) m = fold (\<lambda>(k, v). om_update k v) kvs m"
  by (induction kvs arbitrary: m) (auto simp: attr_loop_end attr_loop_members)

lemma attr_loop_getjson:
  assumes "list_all (attr_plain nfc) kvs"
  shows "attr_loop nfc (getjson kvs @ ch_rbrace # z) m = fold (\<lambda>(k, v). om_update k v) kvs m"
proof -
  have "list_all (\<lambda>kv. fst kv \<noteq> 0) kvs" using assms by (auto simp: attr_plain_def list_all_iff)
  note g = getjson_pr [OF this]
  show ?thesis
  proof (cases kvs)
    case Nil
    then show ?thesis by (simp add: getjson_def attr_loop_end)
  next
    case (Cons kv kvs')
    obtain k v where "kv = (k, v)" by (cases kv)
    with Cons assms show ?thesis unfolding g by (simp add: sep_Cons attr_loop_members attr_loop_rest comp_def)
  qed
qed

lemma decryptattr_makeattr:
  assumes "aes_ok L" "cur json = ch_quote"
  shows "\<exists>z. decryptattr L key (btoa (makeattr L key json)) = Some (str ''MEGA{'' @ json @ ch_rbrace # z)"
proof -
  define n where "n = (length json + 6 + 15) div 16 * 16"
  define d where "d = str ''MEGA{'' @ json @ [ch_rbrace] @ replicate (n - length json - 6) 0"
  have "length json + 6 \<le> n" unfolding n_def by (rule round_up_ge)
  then have ld: "length d = n" by (simp add: d_def str_def)
  then have d16: "16 dvd length d" by (simp add: n_def)
  define e where "e = cbc_encrypt L key d"
  have e: "length e = length d" "cbc_decrypt L key e = d"
    using assms(1) d16 by (simp_all add: e_def aes_ok_def cbc_encrypt_def cbc_decrypt_def)
  have "length e \<le> length (btoa e) * 3 div 4 + 3"
    by (simp add: length_btoa)
  then have "atob (btoa e) (length (btoa e) * 3 div 4 + 3) = e" by (rule atob_btoa)
  moreover have "btoa e \<noteq> []"
    using ld e(1) \<open>length json + 6 \<le> n\<close> by (cases e rule: btoa.cases) auto
  moreover have "take 6 d = magic"
    using assms(2) by (cases json) (auto simp: d_def magic_def str_def)
  moreover have "makeattr L key json = e" by (simp add: makeattr_def e_def d_def n_def Let_def)
  ultimately have "decryptattr L key (btoa (makeattr L key json)) = Some d"
    using e d16 by (simp add: decryptattr_def Let_def)
  then show ?thesis by (auto simp: d_def)
qed

section \<open>setattr\<close>

lemma upd_node_lookup:
  "nodebyhandle (upd_node h f mc) k = (if k = h then map_option f (nodebyhandle mc h) else nodebyhandle mc k)"
  by (auto simp: nodebyhandle_def upd_node_def om_lookup_map_of map_of_om_update split: option.splits)

lemma upd_node_invar: "om_invar (mc_nodes mc) \<Longrightarrow> om_invar (mc_nodes (upd_node h f mc))"
  by (auto simp: upd_node_def om.invar_update split: option.splits)

lemma upd_node_fps: "mc_fingerprints (upd_node h f mc) = mc_fingerprints mc"
  by (simp add: upd_node_def split: option.split)

lemma fps_insert_in: "x \<in> set (fps_insert x fps)"
  by (induction fps) auto

lemma setfingerprint_lookup:
  assumes "om_invar (mc_nodes mc)" "nodebyhandle mc h = Some n"
  shows "nodebyhandle (setfingerprint h mc) h =
      Some (if n_type n = FILENODE \<and> length (n_nodekey n) \<ge> 16 then n\<lparr>n_fp := node_fp n, n_infps := True\<rparr> else n)"
    and "om_invar (mc_nodes (setfingerprint h mc))"
    and "n_type n = FILENODE \<Longrightarrow> length (n_nodekey n) \<ge> 16 \<Longrightarrow> (node_fp n, h) \<in> set (mc_fingerprints (setfingerprint h mc))"
proof -
  have [simp]: "nodebyhandle (mc'\<lparr>mc_fingerprints := x\<rparr>) = nodebyhandle mc'" for mc' x
    by (simp add: nodebyhandle_def fun_eq_iff)
  show "nodebyhandle (setfingerprint h mc) h =
      Some (if n_type n = FILENODE \<and> length (n_nodekey n) \<ge> 16 then n\<lparr>n_fp := node_fp n, n_infps := True\<rparr> else n)"
    using assms by (simp add: setfingerprint_def Let_def upd_node_lookup)
  show "om_invar (mc_nodes (setfingerprint h mc))"
    using assms by (simp add: setfingerprint_def Let_def upd_node_invar)
  show "(node_fp n, h) \<in> set (mc_fingerprints (setfingerprint h mc))" if "n_type n = FILENODE" "length (n_nodekey n) \<ge> 16"
    using assms that by (simp add: setfingerprint_def Let_def fps_insert_in)
qed

lemma node_setattr_makeattr:
  assumes "aes_ok (lib_aes K)" "om_invar (mc_nodes mc)" "nodebyhandle mc h = Some n"
    and "n_attrstring n = btoa (makeattr (lib_aes K) (n_key n) (getjson m))"
    and m: "m \<noteq> []" "list_all (attr_plain (lib_nfc K)) m" "om_invar m" and "n_attrs n = []"
  shows "\<exists>n'. nodebyhandle (node_setattr K h mc) h = Some n' \<and> n_attrs n' = m \<and> n_attrstring n' = [] \<and>
    (n_type n = FILENODE \<and> length (n_nodekey n) \<ge> 16 \<longrightarrow> n_fp n' = node_fp (n\<lparr>n_attrs := m\<rparr>) \<and> n_infps n' \<and>
       (n_fp n', h) \<in> set (mc_fingerprints (node_setattr K h mc)))"
proof -
  have "list_all (\<lambda>kv. fst kv \<noteq> 0) m" using m(2) by (auto simp: attr_plain_def list_all_iff)
  then have "cur (getjson m) = ch_quote"
    using m(1) by (cases m) (auto simp: getjson_pr sep_Cons pr_attr_def pr_str_def)
  then obtain z where d: "decryptattr (lib_aes K) (n_key n) (n_attrstring n) =
      Some (str ''MEGA{'' @ getjson m @ ch_rbrace # z)"
    using decryptattr_makeattr [OF assms(1)] assms(4) by metis
  have "attr_loop (lib_nfc K) (drop 5 (str ''MEGA{'' @ getjson m @ ch_rbrace # z)) (n_attrs n) = m"
    using attr_loop_getjson [OF m(2)] om_rebuild [OF m(3)] assms(8) by (simp add: str_def)
  then have "node_setattr K h mc = upd_node h (\<lambda>n. n\<lparr>n_attrstring := []\<rparr>)
      (setfingerprint h (upd_node h (\<lambda>n. n\<lparr>n_attrs := attr_loop (lib_nfc K) (drop 5 (str ''MEGA{'' @ getjson m @ ch_rbrace # z)) (n_attrs n)\<rparr>) mc))"
    using assms(3) d by (simp add: node_setattr_def)
  moreover define mc1 where "mc1 = upd_node h (\<lambda>n. n\<lparr>n_attrs := attr_loop (lib_nfc K) (drop 5 (str ''MEGA{'' @ getjson m @ ch_rbrace # z)) (n_attrs n)\<rparr>) mc"
  moreover have "nodebyhandle mc1 h = Some (n\<lparr>n_attrs := m\<rparr>)" "om_invar (mc_nodes mc1)"
    using assms(2,3) \<open>attr_loop _ _ _ = m\<close> by (simp_all add: mc1_def upd_node_lookup upd_node_invar)
  ultimately show ?thesis
    using setfingerprint_lookup(3) [of mc1 h "n\<lparr>n_attrs := m\<rparr>"] by (simp add: upd_node_lookup setfingerprint_lookup upd_node_fps)
qed

end
