(* ===== verification/Node_Tree.thy ===== *)
theory Node_Tree
  imports Node_Attrs
begin

text \<open>
  The tree of nodes: \<open>setparent\<close>, \<open>isbelow\<close> and the constructor of \<open>src/node.cpp\<close>,
  \<open>proctree\<close> of \<open>src/megaclient.cpp\<close> and the tree processors of \<open>src/treeproc.cpp\<close>. A walk
  up the parents need not end in a damaged tree (\<open>None\<close>); the recursion of \<open>proctree\<close> has
  fuel, and a depth-bounded tree has enough of it.
\<close>

partial_function (option) isbelow :: "megaclient \<Rightarrow> handle option \<Rightarrow> handle \<Rightarrow> bool option" where
  "isbelow mc n p =
     (case n of
        None \<Rightarrow> Some False
      | Some h \<Rightarrow>
          if h = p then Some True
          else (case nodebyhandle mc h of None \<Rightarrow> None | Some nd \<Rightarrow> isbelow mc (n_parent nd) p))"

text \<open>\<open>while (p) { if (p->localnode) break; p = p->parent; }\<close>: whether it stopped at a node.\<close>

partial_function (option) synced_above :: "megaclient \<Rightarrow> handle option \<Rightarrow> bool option" where
  "synced_above mc p =
     (case p of
        None \<Rightarrow> Some False
      | Some h \<Rightarrow>
          (case nodebyhandle mc h of
             None \<Rightarrow> None
           | Some nd \<Rightarrow> if n_local nd \<noteq> None then Some True else synced_above mc (n_parent nd)))"

section \<open>Tree processors\<close>

text \<open>\<open>proctree\<close> with a processor that works on a state \<open>'s\<close> holding the client.\<close>

fun proctree :: "nat \<Rightarrow> ('s \<Rightarrow> megaclient) \<Rightarrow> (handle \<Rightarrow> 's \<Rightarrow> 's) \<Rightarrow> handle \<Rightarrow> 's \<Rightarrow> 's option" where
  "proctree 0 cl tp h s = None"
| "proctree (Suc k) cl tp h s =
     (case nodebyhandle (cl s) h of
        None \<Rightarrow> None
      | Some n \<Rightarrow>
          map_option (tp h)
            (if n_type n \<noteq> FILENODE
             then fold (\<lambda>c r. Option.bind r (proctree k cl tp c)) (n_children n) (Some s)
             else Some s))"

definition delsyncget :: "handle \<Rightarrow> megaclient \<Rightarrow> megaclient" where
  "delsyncget h mc = upd_node h (\<lambda>n. if n_syncget n then n\<lparr>n_syncget := False\<rparr> else n) mc"

record dustate =
  du_client :: megaclient
  du_numbytes :: int
  du_numfiles :: int
  du_numfolders :: int

definition treedu :: "handle \<Rightarrow> dustate \<Rightarrow> dustate" where
  "treedu h s =
     (case nodebyhandle (du_client s) h of
        None \<Rightarrow> s
      | Some n \<Rightarrow>
          if n_type n = FILENODE
          then s\<lparr>du_numbytes := du_numbytes s + fp_size (n_fp n), du_numfiles := du_numfiles s + 1\<rparr>
          else s\<lparr>du_numfolders := du_numfolders s + 1\<rparr>)"

section \<open>setparent, the constructor\<close>

definition detach :: "handle \<Rightarrow> node \<Rightarrow> megaclient \<Rightarrow> megaclient" where
  "detach h n mc =
     (case n_parent n of
        Some q \<Rightarrow> upd_node q (\<lambda>m. m\<lparr>n_children := remove1 h (n_children m)\<rparr>) mc
      | None \<Rightarrow> mc)"

definition relink :: "handle \<Rightarrow> handle \<Rightarrow> node \<Rightarrow> megaclient \<Rightarrow> megaclient" where
  "relink p h n mc =
     upd_node p (\<lambda>m. m\<lparr>n_children := n_children m @ [h]\<rparr>)
       (upd_node h (\<lambda>m. m\<lparr>n_parent := Some p\<rparr>) (detach h n mc))"

text \<open>\<open>!localnode || localnode->parent\<close>.\<close>

definition moves_freely :: "megaclient \<Rightarrow> node \<Rightarrow> bool" where
  "moves_freely mc n \<longleftrightarrow>
     (case n_local n of
        None \<Rightarrow> True
      | Some l \<Rightarrow> (case om_lookup (mc_localnodes mc) l of None \<Rightarrow> False | Some x \<Rightarrow> ln_parent x \<noteq> None))"

definition setparent :: "nat \<Rightarrow> handle \<Rightarrow> handle \<Rightarrow> megaclient \<Rightarrow> (bool \<times> megaclient) option" where
  "setparent k p h mc =
     (case nodebyhandle mc h of
        None \<Rightarrow> None
      | Some n \<Rightarrow>
          if n_parent n = Some p then Some (False, mc)
          else
            (let mc1 = relink p h n mc in
             if moves_freely mc n then
               (case synced_above mc1 (Some p) of
                  None \<Rightarrow> None
                | Some True \<Rightarrow> Some (True, mc1)
                | Some False \<Rightarrow> map_option (Pair True) (proctree k id delsyncget h mc1))
             else Some (True, mc1)))"

text \<open>The node constructor: the fields, the registration at the client, the link to the parent;
  \<open>dp\<close> collects the nodes whose parent is not known yet.\<close>

definition all_changed :: node_changed where
  "all_changed = \<lparr>ch_attrs = True, ch_owner = True, ch_ctime = True, ch_clienttimestamp = True, ch_fileattrstring = True,
     ch_inshare = True, ch_outshares = True, ch_parent = True\<rparr>"

definition fresh_node :: "handle \<Rightarrow> handle \<Rightarrow> int \<Rightarrow> int \<Rightarrow> handle \<Rightarrow> bytes option \<Rightarrow> int \<Rightarrow> int \<Rightarrow> bytes \<Rightarrow> node" where
  "fresh_node h ph t s u fa ts tm junk =
     \<lparr>n_handle = h, n_parenthandle = ph, n_type = t, n_nodekey = [], n_clienttimestamp = tm,
      n_attrstring = [], n_keystring = [], n_key = symm_new, n_attrs = [], n_owner = u, n_ctime = ts,
      n_fileattrstring = (case fa of Some a \<Rightarrow> copystring a | None \<Rightarrow> []), n_inshare = None, n_outshares = [],
      n_sharekey = None, n_removed = False, n_fp = (fp_new junk)\<lparr>fp_size := s\<rparr>, n_infps = False,
      n_parent = None, n_children = [], n_local = None, n_syncget = False, n_tag = 0,
      n_changed = all_changed, n_notified = False, n_syncdeleted = 0\<rparr>"

definition register_node :: "handle \<Rightarrow> node \<Rightarrow> megaclient \<Rightarrow> megaclient" where
  "register_node h n mc =
     (let roots1 = (if ISUNDEF (hd (mc_rootnodes mc)) then (mc_rootnodes mc)[0 := h] else mc_rootnodes mc);
          roots2 = (if n_type n \<ge> ROOTNODE \<and> n_type n \<le> MAILNODE then roots1[nat (n_type n - ROOTNODE) := h] else roots1)
      in mc\<lparr>mc_nodes := om_update h n (mc_nodes mc), mc_rootnodes := roots2\<rparr>)"

definition Node :: "nat \<Rightarrow> handle list \<Rightarrow> handle \<Rightarrow> handle \<Rightarrow> int \<Rightarrow> int \<Rightarrow> handle \<Rightarrow> bytes option \<Rightarrow> int \<Rightarrow> int \<Rightarrow> bytes \<Rightarrow> megaclient
    \<Rightarrow> (handle list \<times> megaclient) option" where
  "Node k dp h ph t s u fa ts tm junk mc =
     (let mc1 = register_node h (fresh_node h ph t s u fa ts tm junk) mc
      in case nodebyhandle mc1 ph of
           Some p \<Rightarrow> map_option (\<lambda>(b, m). (dp, m)) (setparent k ph h mc1)
         | None \<Rightarrow> Some (dp @ [h], mc1))"

section \<open>Links\<close>

text \<open>Parent pointers and child lists mirror each other; files have no children.\<close>

definition links_ok :: "megaclient \<Rightarrow> bool" where
  "links_ok mc \<longleftrightarrow>
     om_invar (mc_nodes mc) \<and>
     (\<forall>h n. nodebyhandle mc h = Some n \<longrightarrow>
        distinct (n_children n) \<and> (n_type n = FILENODE \<longrightarrow> n_children n = []) \<and>
        (\<forall>p. n_parent n = Some p \<longrightarrow> (\<exists>m. nodebyhandle mc p = Some m \<and> h \<in> set (n_children m))) \<and>
        (\<forall>c \<in> set (n_children n). \<exists>m. nodebyhandle mc c = Some m \<and> n_parent m = Some h))"

text \<open>No node above itself: depths grow from parent to child and are bounded.\<close>

definition ranked :: "(handle \<Rightarrow> nat) \<Rightarrow> nat \<Rightarrow> megaclient \<Rightarrow> bool" where
  "ranked rk d mc \<longleftrightarrow>
     (\<forall>h n. nodebyhandle mc h = Some n \<longrightarrow> rk h < d \<and> (\<forall>p. n_parent n = Some p \<longrightarrow> rk p < rk h))"

definition tree_ok :: "megaclient \<Rightarrow> bool" where
  "tree_ok mc \<longleftrightarrow> links_ok mc \<and> (\<exists>rk d. ranked rk d mc)"

inductive under :: "megaclient \<Rightarrow> handle \<Rightarrow> handle \<Rightarrow> bool" for mc :: megaclient and p :: handle where
  here: "under mc p p"
| up: "nodebyhandle mc h = Some n \<Longrightarrow> n_parent n = Some q \<Longrightarrow> under mc p q \<Longrightarrow> under mc p h"

inductive_simps under_iff: "under mc p h"

lemma links_okD:
  assumes "links_ok mc" "nodebyhandle mc h = Some n"
  shows "distinct (n_children n)" "n_type n = FILENODE \<Longrightarrow> n_children n = []"
    "n_parent n = Some p \<Longrightarrow> \<exists>m. nodebyhandle mc p = Some m \<and> h \<in> set (n_children m)"
    "c \<in> set (n_children n) \<Longrightarrow> \<exists>m. nodebyhandle mc c = Some m \<and> n_parent m = Some h"
  using assms unfolding links_ok_def by blast+

text \<open>\<open>isbelow\<close> ends in a tree and decides the relation.\<close>

lemma isbelow_under:
  assumes l: "links_ok mc" and r: "ranked rk d mc" and "nodebyhandle mc h \<noteq> None"
  shows "isbelow mc (Some h) p = Some (under mc p h)"
  using assms(3)
proof (induction "rk h" arbitrary: h rule: less_induct)
  case less
  obtain n where n: "nodebyhandle mc h = Some n" using less.prems by blast
  have "isbelow mc (n_parent n) p = Some (\<exists>q. n_parent n = Some q \<and> under mc p q)"
  proof (cases "n_parent n")
    case None
    then show ?thesis by (subst isbelow.simps) simp
  next
    case (Some q)
    have "rk q < rk h" using r n Some by (auto simp: ranked_def)
    moreover have "nodebyhandle mc q \<noteq> None" using links_okD(3) [OF l n Some] by auto
    ultimately show ?thesis using less.hyps Some by simp
  qed
  then show ?case using n by (subst isbelow.simps) (auto simp: under_iff [of mc p h])
qed

lemma synced_above_total:
  assumes l: "links_ok mc" and r: "ranked rk d mc" and "nodebyhandle mc h \<noteq> None"
  shows "synced_above mc (Some h) \<noteq> None"
  using assms(3)
proof (induction "rk h" arbitrary: h rule: less_induct)
  case less
  obtain n where n: "nodebyhandle mc h = Some n" using less.prems by blast
  have "synced_above mc (n_parent n) \<noteq> None"
  proof (cases "n_parent n")
    case None
    then show ?thesis by (subst synced_above.simps) simp
  next
    case (Some q)
    have "rk q < rk h" using r n Some by (auto simp: ranked_def)
    moreover have "nodebyhandle mc q \<noteq> None" using links_okD(3) [OF l n Some] by auto
    ultimately show ?thesis using less.hyps Some by simp
  qed
  then show ?case using n by (subst synced_above.simps) auto
qed

section \<open>proctree\<close>

lemma proctree_keeps:
  assumes "\<And>c s. P s \<Longrightarrow> P (tp c s)" "P s" "proctree k cl tp h s = Some s'"
  shows "P s'"
  using assms(2,3)
proof (induction k arbitrary: h s s')
  case (Suc k)
  have f: "P t'" if "P t" "fold (\<lambda>c r. Option.bind r (proctree k cl tp c)) cs (Some t) = Some t'" for cs t t'
    using that
  proof (induction cs arbitrary: t)
    case (Cons c cs)
    obtain t1 where t1: "proctree k cl tp c t = Some t1"
    proof (cases "proctree k cl tp c t")
      case None
      have "fold (\<lambda>c r. Option.bind r (proctree k cl tp c)) cs None = None" by (induction cs) auto
      with None Cons.prems(2) show ?thesis by simp
    qed
    then show ?case using Cons Suc.IH [OF Cons.prems(1) t1] by simp
  qed simp
  from Suc.prems show ?case
    by (auto split: option.splits if_splits intro!: assms(1) dest: f)
qed simp

text \<open>The nodes of a subtree, children before parents.\<close>

fun postorder :: "nat \<Rightarrow> megaclient \<Rightarrow> handle \<Rightarrow> handle list" where
  "postorder 0 mc h = []"
| "postorder (Suc k) mc h =
     (case nodebyhandle mc h of
        None \<Rightarrow> []
      | Some n \<Rightarrow> concat (map (postorder k mc) (n_children n)) @ [h])"

text \<open>Two clients with the same tree.\<close>

definition same_tree :: "megaclient \<Rightarrow> megaclient \<Rightarrow> bool" where
  "same_tree mc mc' \<longleftrightarrow>
     (\<forall>h. map_option (\<lambda>n. (n_type n, n_parent n, n_children n)) (nodebyhandle mc h) =
          map_option (\<lambda>n. (n_type n, n_parent n, n_children n)) (nodebyhandle mc' h))"

lemma same_tree_trans: "same_tree a b \<Longrightarrow> same_tree b c \<Longrightarrow> same_tree a c"
  by (simp add: same_tree_def)

lemma same_treeD: "same_tree mc mc' \<Longrightarrow> nodebyhandle mc h = Some n \<Longrightarrow>
    \<exists>n'. nodebyhandle mc' h = Some n' \<and> n_type n' = n_type n \<and> n_parent n' = n_parent n \<and> n_children n' = n_children n"
  unfolding same_tree_def by (drule spec [of _ h]) (auto simp: map_option_case split: option.splits)

text \<open>With enough fuel, \<open>proctree\<close> runs the processor over the postorder of the tree it starts
  with, if the processor leaves the links alone.\<close>

lemma proctree_postorder:
  assumes l: "links_ok mc" and r: "ranked rk d mc"
    and tp: "\<And>c s. same_tree mc (cl s) \<Longrightarrow> same_tree mc (cl (tp c s))"
    and "nodebyhandle mc h \<noteq> None" "same_tree mc (cl s)" "d \<le> k + rk h"
  shows "proctree k cl tp h s = Some (fold tp (postorder k mc h) s)"
  using assms(4-)
proof (induction k arbitrary: h s)
  case 0
  then show ?case using r by (force simp: ranked_def)
next
  case (Suc k)
  obtain n where n: "nodebyhandle mc h = Some n" using Suc.prems by blast
  then obtain n' where n': "nodebyhandle (cl s) h = Some n'" "n_type n' = n_type n" "n_children n' = n_children n"
    using same_treeD Suc.prems(2) by blast
  have st: "same_tree mc (cl (fold tp xs t))" if "same_tree mc (cl t)" for xs t
    using that by (induction xs arbitrary: t) (auto simp: tp)
  have cs: "fold (\<lambda>c r. Option.bind r (proctree k cl tp c)) cs (Some t) =
      Some (fold tp (concat (map (postorder k mc) cs)) t)"
    if "set cs \<subseteq> set (n_children n)" "same_tree mc (cl t)" for cs t
    using that
  proof (induction cs arbitrary: t)
    case (Cons c cs)
    obtain m where "nodebyhandle mc c = Some m" "n_parent m = Some h"
      using links_okD(4) [OF l n] Cons.prems(1) by auto
    then have "rk h < rk c" "nodebyhandle mc c \<noteq> None" using r by (auto simp: ranked_def)
    then have "proctree k cl tp c t = Some (fold tp (postorder k mc c) t)"
      using Suc.prems(3) Cons.prems(2) by (intro Suc.IH) auto
    then show ?case using Cons st by simp
  qed simp
  show ?case
    using n' n cs [of "n_children n" s] Suc.prems(2) links_okD(2) [OF l n] by simp
qed

lemma under_trans: "under mc q x \<Longrightarrow> under mc p q \<Longrightarrow> under mc p x"
  by (induction rule: under.induct) (auto intro: under.intros)

lemma under_rank: "under mc p x \<Longrightarrow> ranked rk d mc \<Longrightarrow> rk p \<le> rk x"
  by (induction rule: under.induct) (force simp: ranked_def)+

lemma under_linear: "under mc p x \<Longrightarrow> under mc q x \<Longrightarrow> under mc p q \<or> under mc q p"
proof (induction rule: under.induct)
  case (up h n r)
  from up.prems show ?case
  proof (cases rule: under.cases)
    case here
    then show ?thesis using up.hyps under.up by blast
  next
    case (up n' r')
    then show ?thesis using up.hyps up.IH by simp
  qed
qed blast

lemma child_rank:
  assumes "links_ok mc" "ranked rk d mc" "nodebyhandle mc h = Some n" "c \<in> set (n_children n)"
  shows "rk h < rk c" "nodebyhandle mc c \<noteq> None" "under mc h c"
  using links_okD(4) [OF assms(1,3,4)] assms(2) by (auto simp: ranked_def intro: under.intros)

text \<open>The postorder lists exactly the nodes below, each once.\<close>

lemma postorder_under_sub:
  assumes "links_ok mc" "ranked rk d mc" "x \<in> set (postorder k mc h)"
  shows "under mc h x \<and> nodebyhandle mc x \<noteq> None"
  using assms(3)
proof (induction k arbitrary: h)
  case (Suc k)
  obtain n where n: "nodebyhandle mc h = Some n" using Suc.prems by (cases "nodebyhandle mc h") auto
  show ?case
  proof (cases "x = h")
    case False
    then obtain c where c: "c \<in> set (n_children n)" "x \<in> set (postorder k mc c)" using Suc.prems n by auto
    show ?thesis using Suc.IH [OF c(2)] child_rank(3) [OF assms(1,2) n c(1)] under_trans by blast
  qed (use n in \<open>auto intro: under.here\<close>)
qed simp

lemma postorder_here: "nodebyhandle mc h \<noteq> None \<Longrightarrow> 0 < k \<Longrightarrow> h \<in> set (postorder k mc h)"
  by (cases k) auto

lemma postorder_children:
  assumes l: "links_ok mc" and r: "ranked rk d mc" and "q \<in> set (postorder k mc h)" "d \<le> k + rk h"
    and x: "nodebyhandle mc x = Some nx" "n_parent nx = Some q"
  shows "x \<in> set (postorder k mc h)"
  using assms(3,4)
proof (induction k arbitrary: h)
  case (Suc k)
  obtain n where n: "nodebyhandle mc h = Some n" using Suc.prems by (cases "nodebyhandle mc h") auto
  show ?case
  proof (cases "q = h")
    case True
    then have xc: "x \<in> set (n_children n)" using links_okD(3) [OF l x] n by auto
    have "rk h < rk x" "rk x < d" using x True r by (auto simp: ranked_def)
    then have "0 < k" using Suc.prems(2) by simp
    then show ?thesis using postorder_here [of mc x k] x n xc by auto
  next
    case False
    then obtain c where c: "c \<in> set (n_children n)" "q \<in> set (postorder k mc c)" using Suc.prems n by auto
    have "d \<le> k + rk c" using child_rank(1) [OF l r n c(1)] Suc.prems(2) by simp
    from Suc.IH [OF c(2) this] show ?thesis using n c(1) by auto
  qed
qed simp

lemma postorder_under:
  assumes l: "links_ok mc" and r: "ranked rk d mc" and h: "nodebyhandle mc h \<noteq> None" and k: "d \<le> k + rk h"
  shows "set (postorder k mc h) = {x. under mc h x \<and> nodebyhandle mc x \<noteq> None}"
proof -
  have "x \<in> set (postorder k mc h)" if "under mc h x" for x
    using that
  proof (induction rule: under.induct)
    case here
    have "rk h < d" using h r by (auto simp: ranked_def)
    then show ?case using postorder_here [OF h, of k] k by simp
  next
    case (up x n q)
    then show ?case using postorder_children [OF l r _ k] by blast
  qed
  then show ?thesis using postorder_under_sub [OF l r] by blast
qed

lemma siblings_disjoint:
  assumes l: "links_ok mc" and r: "ranked rk d mc" and n: "nodebyhandle mc h = Some n"
    and c: "c \<in> set (n_children n)" "c' \<in> set (n_children n)" "c \<noteq> c'"
  shows "\<not> (under mc c x \<and> under mc c' x)"
proof
  have False if ab: "under mc a b" "a \<noteq> b" "a \<in> set (n_children n)" "b \<in> set (n_children n)" for a b
  proof -
    obtain m where "nodebyhandle mc b = Some m" "n_parent m = Some h" using links_okD(4) [OF l n ab(4)] by blast
    then have "under mc a h" using ab(1,2) by (auto simp: under_iff [of mc a b])
    then show False using under_rank [OF _ r] child_rank(1) [OF l r n ab(3)] by fastforce
  qed
  moreover assume "under mc c x \<and> under mc c' x"
  then have "under mc c c' \<or> under mc c' c" using under_linear by blast
  ultimately show False using c by blast
qed

lemma postorder_distinct:
  assumes l: "links_ok mc" and r: "ranked rk d mc"
  shows "distinct (postorder k mc h)"
proof (induction k arbitrary: h)
  case (Suc k)
  show ?case
  proof (cases "nodebyhandle mc h")
    case (Some n)
    have "distinct (concat (map (postorder k mc) cs))" if "distinct cs" "set cs \<subseteq> set (n_children n)" for cs
      using that
    proof (induction cs)
      case (Cons c cs)
      have "x \<notin> set (postorder k mc c')" if "x \<in> set (postorder k mc c)" "c' \<in> set cs" for x c'
        using siblings_disjoint [OF l r Some, of c c' x] Cons.prems that postorder_under_sub [OF l r] by auto
      then show ?case using Cons Suc.IH by auto
    qed simp
    moreover have "h \<notin> set (postorder k mc c)" if "c \<in> set (n_children n)" for c
      using postorder_under_sub [OF l r, of h k c] under_rank [OF _ r] child_rank(1) [OF l r Some that] by fastforce
    ultimately show ?thesis using Some links_okD(1) [OF l Some] by auto
  qed simp
qed simp

section \<open>Moving a node\<close>

definition moved :: "handle \<Rightarrow> handle \<Rightarrow> handle option \<Rightarrow> handle \<Rightarrow> node \<Rightarrow> node" where
  "moved p h q x m =
     m\<lparr>n_children := (if q = Some x then remove1 h (n_children m) else n_children m) @ (if x = p then [h] else []),
       n_parent := (if x = h then Some p else n_parent m)\<rparr>"

lemma relink_lookup:
  assumes "om_invar (mc_nodes mc)"
  shows "nodebyhandle (relink p h n mc) x = map_option (moved p h (n_parent n) x) (nodebyhandle mc x)"
    and "om_invar (mc_nodes (relink p h n mc))"
proof -
  have u: "om_invar (mc_nodes (detach h n mc))"
    "nodebyhandle (detach h n mc) x = map_option (\<lambda>m. if n_parent n = Some x
       then m\<lparr>n_children := remove1 h (n_children m)\<rparr> else m) (nodebyhandle mc x)" for x
    using assms by (auto simp: detach_def upd_node_lookup upd_node_invar option.map_ident split: option.splits)
  then show "nodebyhandle (relink p h n mc) x = map_option (moved p h (n_parent n) x) (nodebyhandle mc x)"
    by (cases "nodebyhandle mc x") (auto simp: relink_def upd_node_lookup upd_node_invar moved_def)
  show "om_invar (mc_nodes (relink p h n mc))" using u(1) by (simp add: relink_def upd_node_invar)
qed

lemma relink_links:
  assumes l: "links_ok mc" and h: "nodebyhandle mc h = Some n" and np: "n_parent n \<noteq> Some p"
    and p: "nodebyhandle mc p = Some mp" "n_type mp \<noteq> FILENODE"
  shows "links_ok (relink p h n mc)"
proof -
  have inv: "om_invar (mc_nodes mc)" using l by (simp add: links_ok_def)
  note lk = relink_lookup [OF inv, of p h n]
  have hc: "n_parent n = Some x" if "nodebyhandle mc x = Some m" "h \<in> set (n_children m)" for x m
    using links_okD(4) [OF l that] h by auto
  show ?thesis
    unfolding links_ok_def
  proof (intro conjI allI impI ballI)
    fix x m'
    assume "nodebyhandle (relink p h n mc) x = Some m'"
    then obtain m where m: "nodebyhandle mc x = Some m" "m' = moved p h (n_parent n) x m"
      by (auto simp: lk(1))
    note d = links_okD [OF l m(1)]
    show "distinct (n_children m')"
      using d(1) hc [OF m(1)] np by (auto simp: m(2) moved_def)
    show "n_children m' = []" if "n_type m' = FILENODE"
      using that d(2) m p by (auto simp: moved_def)
    show "\<exists>m. nodebyhandle (relink p h n mc) q = Some m \<and> x \<in> set (n_children m)" if "n_parent m' = Some q" for q
    proof (cases "x = h")
      case True
      then have "q = p" using that m(2) by (simp add: moved_def)
      moreover have "nodebyhandle (relink p h n mc) p = Some (moved p h (n_parent n) p mp)" using p(1) by (simp add: lk(1))
      ultimately show ?thesis using True by (simp add: moved_def)
    next
      case False
      then have "n_parent m = Some q" using that m(2) by (simp add: moved_def)
      then obtain mq where "nodebyhandle mc q = Some mq" "x \<in> set (n_children mq)" using d(3) by blast
      then show ?thesis using False by (auto simp: lk(1) moved_def)
    qed
    show "\<exists>m. nodebyhandle (relink p h n mc) c = Some m \<and> n_parent m = Some x" if "c \<in> set (n_children m')" for c
    proof (cases "c = h")
      case True
      have "x = p" using that True hc [OF m(1)] d(1) by (auto simp: m(2) moved_def split: if_splits)
      then show ?thesis using True h by (auto simp: lk(1) moved_def)
    next
      case False
      then have "c \<in> set (n_children m)" using that by (auto simp: m(2) moved_def split: if_splits)
      from d(4) [OF this] obtain mm where "nodebyhandle mc c = Some mm" "n_parent mm = Some x" by blast
      then show ?thesis using False by (simp add: lk(1)) (simp add: moved_def)
    qed
  qed (rule lk(2))
qed

text \<open>A subtree that is hung below a node outside of it moves down as a whole.\<close>

lemma relink_ranked:
  assumes l: "links_ok mc" and r: "ranked rk d mc" and h: "nodebyhandle mc h = Some n"
    and p: "nodebyhandle mc p \<noteq> None" "\<not> under mc h p"
  shows "ranked (\<lambda>x. if under mc h x then rk x + rk p + 1 else rk x) (d + d + 1) (relink p h n mc)"
    (is "ranked ?rk _ _")
proof -
  have inv: "om_invar (mc_nodes mc)" using l by (simp add: links_ok_def)
  have rp: "rk p < d" using p(1) r by (auto simp: ranked_def)
  have "?rk x < d + d + 1 \<and> (\<forall>q. n_parent m' = Some q \<longrightarrow> ?rk q < ?rk x)"
    if x: "nodebyhandle (relink p h n mc) x = Some m'" for x m'
  proof -
    obtain m where m: "nodebyhandle mc x = Some m" "n_parent m' = (if x = h then Some p else n_parent m)"
      using x by (auto simp: relink_lookup(1) [OF inv] moved_def)
    have rx: "rk x < d" "\<And>q. n_parent m = Some q \<Longrightarrow> rk q < rk x" using r m(1) by (auto simp: ranked_def)
    have "?rk q < ?rk x" if q: "n_parent m' = Some q" for q
    proof (cases "x = h")
      case True
      then show ?thesis using q m(2) p(2) by (auto intro: under.here)
    next
      case False
      then have pq: "n_parent m = Some q" using q m(2) by simp
      then have "under mc h x \<longleftrightarrow> under mc h q" using m(1) False by (auto simp: under_iff [of mc h x])
      then show ?thesis using rx(2) [OF pq] by simp
    qed
    then show ?thesis using rx(1) rp by auto
  qed
  then show ?thesis unfolding ranked_def by blast
qed

lemma delsyncget_same: "same_tree mc (delsyncget h mc)"
  by (cases "nodebyhandle mc h") (auto simp: same_tree_def delsyncget_def upd_node_lookup)

lemma delsyncget_fold:
  "same_tree mc (fold delsyncget xs mc) \<and> (om_invar (mc_nodes mc) \<longrightarrow> om_invar (mc_nodes (fold delsyncget xs mc)))"
proof (induction xs arbitrary: mc)
  case (Cons x xs)
  have "om_invar (mc_nodes mc) \<longrightarrow> om_invar (mc_nodes (delsyncget x mc))" by (simp add: delsyncget_def upd_node_invar)
  then show ?case using Cons [of "delsyncget x mc"] delsyncget_same [of mc x] same_tree_trans by auto
qed (simp add: same_tree_def)

lemma same_tree_ok:
  assumes "same_tree mc mc'" "om_invar (mc_nodes mc')"
  shows "links_ok mc \<Longrightarrow> links_ok mc'" "ranked rk d mc \<Longrightarrow> ranked rk d mc'"
proof -
  have sym: "same_tree mc' mc" using assms(1) by (simp add: same_tree_def)
  show "links_ok mc'" if "links_ok mc"
    unfolding links_ok_def
  proof (intro conjI allI impI)
    fix h n' assume n': "nodebyhandle mc' h = Some n'"
    obtain n where n: "nodebyhandle mc h = Some n" "n_type n = n_type n'" "n_parent n = n_parent n'" "n_children n = n_children n'"
      using same_treeD [OF sym n'] by blast
    note d = links_okD [OF that n(1)]
    show "distinct (n_children n')" using d(1) n(4) by simp
    show "n_type n' = FILENODE \<Longrightarrow> n_children n' = []" using d(2) n by simp
    show "\<exists>m. nodebyhandle mc' p = Some m \<and> h \<in> set (n_children m)" if "n_parent n' = Some p" for p
      using d(3) [of p] that n(3) same_treeD [OF assms(1), of p] by force
    show "\<forall>c \<in> set (n_children n'). \<exists>m. nodebyhandle mc' c = Some m \<and> n_parent m = Some h"
      using d(4) n(4) same_treeD [OF assms(1)] by (metis (full_types))
  qed (rule assms(2))
  show "ranked rk d mc \<Longrightarrow> ranked rk d mc'"
    unfolding ranked_def using same_treeD [OF sym] by metis
qed

lemma setparent_tree:
  assumes t: "links_ok mc" "ranked rk d mc" and h: "nodebyhandle mc h = Some n"
    and p: "nodebyhandle mc p = Some mp" "n_type mp \<noteq> FILENODE" "\<not> under mc h p"
    and k: "2 * d + 1 \<le> k"
  shows "\<exists>b mc'. setparent k p h mc = Some (b, mc') \<and> tree_ok mc' \<and>
    map_option n_parent (nodebyhandle mc' h) = Some (Some p) \<and> (b \<longleftrightarrow> n_parent n \<noteq> Some p)"
proof (cases "n_parent n = Some p")
  case True
  then show ?thesis using t h by (auto simp: setparent_def tree_ok_def)
next
  case False
  define mc1 where "mc1 = relink p h n mc"
  define rk' where "rk' = (\<lambda>x. if under mc h x then rk x + rk p + 1 else rk x)"
  have l1: "links_ok mc1" unfolding mc1_def by (rule relink_links [OF t(1) h False p(1,2)])
  have r1: "ranked rk' (d + d + 1) mc1"
    unfolding mc1_def rk'_def by (rule relink_ranked [OF t h]) (use p in auto)
  have inv: "om_invar (mc_nodes mc)" "om_invar (mc_nodes mc1)" using t(1) l1 by (simp_all add: links_ok_def)
  have h1: "nodebyhandle mc1 h = Some (moved p h (n_parent n) h n)" "nodebyhandle mc1 p \<noteq> None"
    using h p(1) by (simp_all add: mc1_def relink_lookup(1) [OF inv(1)])
  have ok1: "tree_ok mc1" "map_option n_parent (nodebyhandle mc1 h) = Some (Some p)"
    using l1 r1 h1 by (auto simp: tree_ok_def moved_def)
  define mc2 where "mc2 = fold delsyncget (postorder k mc1 h) mc1"
  have pt: "proctree k id delsyncget h mc1 = Some mc2"
    unfolding mc2_def
    by (rule proctree_postorder [OF l1 r1]) (use h1 k in \<open>auto simp: same_tree_def [of mc1 mc1] intro: same_tree_trans delsyncget_same\<close>)
  have st: "same_tree mc1 mc2" "om_invar (mc_nodes mc2)" using delsyncget_fold inv(2) by (simp_all add: mc2_def)
  have ok2: "tree_ok mc2" "map_option n_parent (nodebyhandle mc2 h) = Some (Some p)"
    using same_tree_ok [OF st] l1 r1 same_treeD [OF st(1) h1(1)] by (auto simp: tree_ok_def moved_def)
  have "synced_above mc1 (Some p) \<noteq> None" by (rule synced_above_total [OF l1 r1 h1(2)])
  then show ?thesis
    using h False pt ok1 ok2 unfolding setparent_def
    by (auto simp flip: mc1_def split: bool.split)
qed

section \<open>Disk usage\<close>

definition file_size :: "megaclient \<Rightarrow> handle \<Rightarrow> int" where
  "file_size mc x =
     (case nodebyhandle mc x of Some n \<Rightarrow> if n_type n = FILENODE then fp_size (n_fp n) else 0 | None \<Rightarrow> 0)"

definition is_file :: "megaclient \<Rightarrow> handle \<Rightarrow> bool" where
  "is_file mc x \<longleftrightarrow> (case nodebyhandle mc x of Some n \<Rightarrow> n_type n = FILENODE | None \<Rightarrow> False)"

lemma treedu_fold:
  "set xs \<subseteq> {x. nodebyhandle (du_client s) x \<noteq> None} \<Longrightarrow>
   du_client (fold treedu xs s) = du_client s \<and>
   du_numbytes (fold treedu xs s) = du_numbytes s + sum_list (map (file_size (du_client s)) xs) \<and>
   du_numfiles (fold treedu xs s) = du_numfiles s + int (length (filter (is_file (du_client s)) xs)) \<and>
   du_numfolders (fold treedu xs s) = du_numfolders s + int (length (filter (Not \<circ> is_file (du_client s)) xs))"
proof (induction xs arbitrary: s)
  case (Cons x xs)
  obtain n where n: "nodebyhandle (du_client s) x = Some n" using Cons.prems by auto
  have c: "du_client (treedu x s) = du_client s" by (simp add: treedu_def n)
  show ?case
    using Cons.IH [of "treedu x s"] Cons.prems n
    by (simp add: c) (simp add: treedu_def n file_size_def is_file_def comp_def)
qed simp

lemma treedu_under:
  assumes l: "links_ok (du_client s)" and r: "ranked rk d (du_client s)"
    and h: "nodebyhandle (du_client s) h \<noteq> None" and k: "d \<le> k"
  defines "below \<equiv> {x. under (du_client s) h x \<and> nodebyhandle (du_client s) x \<noteq> None}"
  shows "\<exists>s'. proctree k du_client treedu h s = Some s' \<and> du_client s' = du_client s \<and>
    du_numbytes s' = du_numbytes s + (\<Sum>x \<in> below. file_size (du_client s) x) \<and>
    du_numfiles s' = du_numfiles s + int (card {x \<in> below. is_file (du_client s) x}) \<and>
    du_numfolders s' = du_numfolders s + int (card {x \<in> below. \<not> is_file (du_client s) x})"
proof -
  let ?mc = "du_client s" let ?po = "postorder k (du_client s) h"
  have st: "same_tree ?mc ?mc" by (simp add: same_tree_def)
  have keep: "same_tree ?mc (du_client (treedu c t))" if "same_tree ?mc (du_client t)" for c t
    using that by (simp add: treedu_def split: option.split)
  have "proctree k du_client treedu h s = Some (fold treedu ?po s)"
    by (rule proctree_postorder [OF l r]) (use keep h st k in simp_all)
  moreover have po: "set ?po = below" unfolding below_def by (rule postorder_under [OF l r h]) (use k in simp)
  then have "set ?po \<subseteq> {x. nodebyhandle ?mc x \<noteq> None}" by (auto simp: below_def)
  note f = treedu_fold [OF this]
  moreover have dist: "distinct ?po" by (rule postorder_distinct [OF l r])
  have "sum_list (map (file_size ?mc) ?po) = (\<Sum>x \<in> below. file_size ?mc x)"
    using dist po by (metis sum_list_distinct_conv_sum_set)
  moreover have "length (filter P ?po) = card {x \<in> below. P x}" for P
    using dist po by (metis distinct_card distinct_filter set_filter)
  ultimately show ?thesis by (simp add: comp_def)
qed

section \<open>New nodes\<close>

lemma add_node_tree:
  assumes l: "links_ok mc" and r: "ranked rk d mc" and new: "nodebyhandle mc h = None"
    and n: "n_parent n = None" "n_children n = []"
    and mc': "mc_nodes mc' = om_update h n (mc_nodes mc)"
  shows "links_ok mc' \<and> ranked rk (d + rk h + 1) mc'"
proof -
  have lk: "nodebyhandle mc' x = (if x = h then Some n else nodebyhandle mc x)" for x
    using mc' by (simp add: nodebyhandle_def om_lookup_map_of map_of_om_update)
  have inv: "om_invar (mc_nodes mc')" using l mc' by (simp add: links_ok_def om.invar_update)
  have "\<exists>m. nodebyhandle mc' q = Some m \<and> x \<in> set (n_children m)"
    if "nodebyhandle mc x = Some m" "n_parent m = Some q" for x m q
    using links_okD(3) [OF l that] new by (auto simp: lk)
  moreover have "\<exists>m'. nodebyhandle mc' c = Some m' \<and> n_parent m' = Some x"
    if "nodebyhandle mc x = Some m" "c \<in> set (n_children m)" for x m c
    using links_okD(4) [OF l that] new by (auto simp: lk)
  moreover have "distinct (n_children m)" "n_type m = FILENODE \<Longrightarrow> n_children m = []" if "nodebyhandle mc x = Some m" for x m
    using links_okD [OF l that] by auto
  ultimately have "links_ok mc'" unfolding links_ok_def using inv n by (auto simp: lk split: if_splits)
  moreover have "ranked rk (d + rk h + 1) mc'" using r n by (auto simp: ranked_def lk split: if_splits) force+
  ultimately show ?thesis by blast
qed

lemma under_leaf:
  assumes "links_ok mc" "nodebyhandle mc h = Some n" "n_children n = []" "under mc h x"
  shows "x = h"
  using assms(4)
proof (induction rule: under.induct)
  case (up x m q)
  then show ?case using links_okD(3) [OF assms(1) up.hyps(1,2)] assms(2,3) by auto
qed simp

lemma Node_tree:
  assumes l: "links_ok mc" and r: "ranked rk d mc" and new: "nodebyhandle mc h = None" "ph \<noteq> h"
    and ph: "\<And>m. nodebyhandle mc ph = Some m \<Longrightarrow> n_type m \<noteq> FILENODE"
    and k: "2 * (d + rk h + 1) + 1 \<le> k"
  shows "\<exists>dp' mc'. Node k dp h ph t s u fa ts tm junk mc = Some (dp', mc') \<and> tree_ok mc' \<and>
    nodebyhandle mc' h \<noteq> None \<and>
    (if nodebyhandle mc ph = None then dp' = dp @ [h]
     else dp' = dp \<and> map_option n_parent (nodebyhandle mc' h) = Some (Some ph))"
proof -
  define n where "n = fresh_node h ph t s u fa ts tm junk"
  define mc1 where "mc1 = register_node h n mc"
  have nd: "Node k dp h ph t s u fa ts tm junk mc =
      (case nodebyhandle mc1 ph of
         Some p \<Rightarrow> map_option (\<lambda>(b, m). (dp, m)) (setparent k ph h mc1)
       | None \<Rightarrow> Some (dp @ [h], mc1))"
    unfolding Node_def mc1_def n_def Let_def by (rule refl)
  have n: "mc_nodes mc1 = om_update h n (mc_nodes mc)" "n_parent n = None" "n_children n = []"
    by (simp_all add: mc1_def register_node_def n_def fresh_node_def Let_def)
  have lk: "nodebyhandle mc1 x = (if x = h then Some n else nodebyhandle mc x)" for x
    using n(1) by (simp add: nodebyhandle_def om_lookup_map_of map_of_om_update)
  have t1: "links_ok mc1" "ranked rk (d + rk h + 1) mc1"
    using add_node_tree [OF l r new(1) n(2,3,1)] by simp_all
  show ?thesis
  proof (cases "nodebyhandle mc ph")
    case None
    then show ?thesis using nd lk t1 new(2) by (auto simp: tree_ok_def)
  next
    case (Some mp)
    have nu: "\<not> under mc1 h ph" using under_leaf [OF t1(1), of h n ph] lk n(3) new(2) by auto
    have "\<exists>b mc'. setparent k ph h mc1 = Some (b, mc') \<and> tree_ok mc' \<and>
        map_option n_parent (nodebyhandle mc' h) = Some (Some ph) \<and> (b \<longleftrightarrow> n_parent n \<noteq> Some ph)"
      by (rule setparent_tree [OF t1 _ _ _ nu k]) (use lk Some new(2) ph in auto)
    then show ?thesis using nd lk Some new(2) by auto
  qed
qed

end
