(* ===== verification/Share_Node_Keys.thy ===== *)
theory Share_Node_Keys
  imports Node_Tree
begin

text \<open>
  \<open>src/sharenodekeys.cpp\<close>: the keys of nodes for all shares they are in, collected for the
  \<open>cr\<close> argument of a command. The walk from a share node to the root is over parent pointers
  and need not end in a damaged tree (\<open>None\<close>). The buffers of the source, \<open>byte key[32]\<close> and \<open>char buf[96]\<close>, hold the keys of
  nodes (16 or 32 bytes) with the two indices; the model has no buffers and speaks of such keys only.
\<close>

record snk =
  snk_keys :: bytes
  snk_shares :: "handle list"
  snk_items :: "bytes list"

definition snk_empty :: snk where
  "snk_empty = \<lparr>snk_keys = [], snk_shares = [], snk_items = []\<rparr>"

definition addshare :: "handle \<Rightarrow> snk \<Rightarrow> nat \<times> snk" where
  "addshare sn s =
     (case find_last sn (snk_shares s) of
        Some i \<Rightarrow> (i, s)
      | None \<Rightarrow> (length (snk_shares s), s\<lparr>snk_shares := snk_shares s @ [sn]\<rparr>))"

text \<open>The text of one key: \<open>,share,item,"key"\<close>.\<close>

definition snk_emit :: "aes \<Rightarrow> bytes \<Rightarrow> handle \<Rightarrow> symm \<Rightarrow> snk \<Rightarrow> snk" where
  "snk_emit L nodekey sn k s =
     (let (i, s1) = addshare sn s in
      s1\<lparr>snk_keys := snk_keys s1 @ [ch_comma] @ dec_nat i @ [ch_comma] @ dec_nat (length (snk_items s1)) @
        [ch_comma, ch_quote] @ btoa (ecb_encrypt L k nodekey) @ [ch_quote]\<rparr>)"

partial_function (option) snk_loop :: "aes \<Rightarrow> megaclient \<Rightarrow> bytes \<Rightarrow> bool \<Rightarrow> handle option \<Rightarrow> snk \<times> bool \<Rightarrow> (snk \<times> bool) option" where
  "snk_loop L mc nodekey specific sn st =
     (case sn of
        None \<Rightarrow> Some st
      | Some h \<Rightarrow>
          (case nodebyhandle mc h of
             None \<Rightarrow> None
           | Some n \<Rightarrow>
               (let st1 = (case n_sharekey n of
                      Some k \<Rightarrow> (snk_emit L nodekey h k (fst st), True)
                    | None \<Rightarrow> st)
                in if specific then Some st1 else snk_loop L mc nodekey specific (n_parent n) st1)))"

text \<open>\<open>item\<close> is the upload token, or none for an existing node.\<close>

definition snk_add_core :: "aes \<Rightarrow> megaclient \<Rightarrow> bytes \<Rightarrow> handle \<Rightarrow> handle \<Rightarrow> bool \<Rightarrow> bytes option \<Rightarrow> snk \<Rightarrow> snk option" where
  "snk_add_core L mc nodekey nodehandle sn specific item s =
     map_option (\<lambda>(s1, addnode).
       if addnode then
         s1\<lparr>snk_items := snk_items s1 @ [case item of Some t \<Rightarrow> t | None \<Rightarrow> le_bytes 6 nodehandle]\<rparr>
       else s1) (snk_loop L mc nodekey specific (Some sn) (s, False))"

definition snk_add :: "aes \<Rightarrow> megaclient \<Rightarrow> handle \<Rightarrow> handle option \<Rightarrow> bool \<Rightarrow> snk \<Rightarrow> snk option" where
  "snk_add L mc h sn specific s =
     (case nodebyhandle mc h of
        None \<Rightarrow> None
      | Some n \<Rightarrow>
          snk_add_core L mc (n_nodekey n) (n_handle n) (case sn of Some x \<Rightarrow> x | None \<Rightarrow> h) specific None s)"

definition snk_get :: "snk \<Rightarrow> command \<Rightarrow> command" where
  "snk_get s c =
     (if snk_keys s \<noteq> [] then
        (let c1 = beginarray (beginarray_named (str ''cr'') c);
             c2 = endarray (fold (\<lambda>h c. element_bin (le_bytes 6 h) c) (snk_shares s) c1);
             c3 = endarray (fold (\<lambda>i c. element_bin i c) (snk_items s) (beginarray c2));
             c4 = endarray (appendraw_len (tl (snk_keys s)) (length (snk_keys s) - 1) (beginarray c3))
         in endarray c4)
      else c)"

section \<open>What is collected\<close>

text \<open>The keys as data: share index, item index, encrypted key.\<close>

type_synonym snk_link = "nat \<times> nat \<times> bytes"

definition pr_link :: "snk_link \<Rightarrow> bytes" where
  "pr_link l = (case l of (i, j, k) \<Rightarrow> [ch_comma] @ dec_nat i @ [ch_comma] @ dec_nat j @ [ch_comma, ch_quote] @ btoa k @ [ch_quote])"

definition snk_ok :: "snk_link list \<Rightarrow> nat \<Rightarrow> snk \<Rightarrow> bool" where
  "snk_ok ls m s \<longleftrightarrow>
     snk_keys s = concat (map pr_link ls) \<and> distinct (snk_shares s) \<and>
     list_all (\<lambda>(i, j, k). i < length (snk_shares s) \<and> j < m) ls"

lemma find_last_nth: "find_last x xs = Some i \<Longrightarrow> i < length xs \<and> xs ! i = x"
  by (induction xs arbitrary: i) (auto split: option.splits if_splits)

lemma addshare_spec:
  assumes "addshare sn s = (i, s')"
  shows "i < length (snk_shares s')" "snk_shares s' ! i = sn" "snk_keys s' = snk_keys s" "snk_items s' = snk_items s"
    "distinct (snk_shares s) \<Longrightarrow> distinct (snk_shares s')" "length (snk_shares s) \<le> length (snk_shares s')"
  using assms find_last_nth [of sn "snk_shares s"]
  by (auto simp: addshare_def find_last_none split: option.splits)

text \<open>The same links as JSON values, three per key.\<close>

definition link_json :: "snk_link \<Rightarrow> json_value list" where
  "link_json l = (case l of (i, j, k) \<Rightarrow> [JNum (dec_nat i), JNum (dec_nat j), JStr (btoa k)])"

definition snk_json :: "snk_link list \<Rightarrow> snk \<Rightarrow> json_value" where
  "snk_json ls s =
     JArr [JArr (map (\<lambda>h. JStr (btoa (le_bytes 6 h))) (snk_shares s)),
           JArr (map (\<lambda>i. JStr (btoa i)) (snk_items s)),
           JArr (concat (map link_json ls))]"

text \<open>A link stands for a share node and its key.\<close>

definition link_for :: "aes \<Rightarrow> bytes \<Rightarrow> snk \<Rightarrow> handle \<times> symm \<Rightarrow> snk_link \<Rightarrow> bool" where
  "link_for L nodekey s hk l \<longleftrightarrow>
     (case hk of (h, k) \<Rightarrow> case l of (i, j, e) \<Rightarrow>
       i < length (snk_shares s) \<and> snk_shares s ! i = h \<and> e = ecb_encrypt L k nodekey)"

lemma addshare_prefix:
  assumes "addshare sn s = (i, s')" "j < length (snk_shares s)"
  shows "snk_shares s' ! j = snk_shares s ! j"
  using assms by (auto simp: addshare_def nth_append split: option.splits)

lemma link_for_emit: "link_for L key s hk l \<Longrightarrow> link_for L key (snk_emit L key' h k s) hk l"
  using addshare_spec(6) [of h s] addshare_prefix [of h s]
  by (fastforce simp: link_for_def snk_emit_def split: prod.splits)

lemma link_for_emits: "link_for L key s hk l \<Longrightarrow> link_for L key (fold (\<lambda>(h, k). snk_emit L key' h k) hks s) hk l"
  by (induction hks arbitrary: s) (auto simp: link_for_emit)

lemma snk_emit_ok:
  assumes "snk_ok ls m s" "length (snk_items s) < m"
  obtains i where "snk_ok (ls @ [(i, length (snk_items s), ecb_encrypt L k key)]) m (snk_emit L key h k s)"
    "link_for L key (snk_emit L key h k s) (h, k) (i, length (snk_items s), ecb_encrypt L k key)"
    "snk_items (snk_emit L key h k s) = snk_items s"
proof -
  obtain i s1 where a: "addshare h s = (i, s1)" by fastforce
  note as = addshare_spec [OF a]
  have "list_all (\<lambda>(i, j, k). i < length (snk_shares s1) \<and> j < m) ls"
    using assms(1) as(6) by (auto simp: snk_ok_def list_all_iff)
  then show ?thesis
    using assms as that [of i] by (auto simp: snk_ok_def snk_emit_def a pr_link_def link_for_def)
qed

lemma snk_emits_ok:
  assumes "snk_ok ls m s" "length (snk_items s) < m"
  shows "\<exists>new. let s' = fold (\<lambda>(h, k). snk_emit L key h k) hks s in
    snk_ok (ls @ new) m s' \<and> snk_items s' = snk_items s \<and> list_all2 (link_for L key s') hks new \<and>
    (\<forall>(i, j, e) \<in> set new. j = length (snk_items s))"
  using assms
proof (induction hks arbitrary: s ls)
  case (Cons hk hks)
  obtain h k where hk: "hk = (h, k)" by fastforce
  obtain i where i: "snk_ok (ls @ [(i, length (snk_items s), ecb_encrypt L k key)]) m (snk_emit L key h k s)"
    "link_for L key (snk_emit L key h k s) (h, k) (i, length (snk_items s), ecb_encrypt L k key)"
    "snk_items (snk_emit L key h k s) = snk_items s"
    using snk_emit_ok [OF Cons.prems] by metis
  show ?case
    using Cons.IH [OF i(1)] Cons.prems(2) i(3) link_for_emits [OF i(2)]
    by (force simp: hk Let_def intro: exI [of _ "(i, length (snk_items s), ecb_encrypt L k key) # x" for x])
qed (use assms in \<open>simp add: Let_def\<close>)

section \<open>The walk to the root\<close>

inductive path_up :: "megaclient \<Rightarrow> handle \<Rightarrow> handle list \<Rightarrow> bool" for mc :: megaclient where
  root: "nodebyhandle mc h = Some n \<Longrightarrow> n_parent n = None \<Longrightarrow> path_up mc h [h]"
| step: "nodebyhandle mc h = Some n \<Longrightarrow> n_parent n = Some q \<Longrightarrow> path_up mc q hs \<Longrightarrow> path_up mc h (h # hs)"

definition keyed :: "megaclient \<Rightarrow> handle \<Rightarrow> (handle \<times> symm) list" where
  "keyed mc h =
     (case nodebyhandle mc h of
        Some n \<Rightarrow> (case n_sharekey n of Some k \<Rightarrow> [(h, k)] | None \<Rightarrow> [])
      | None \<Rightarrow> [])"

lemma path_up_exists:
  assumes l: "links_ok mc" and r: "ranked rk d mc" and "nodebyhandle mc h \<noteq> None"
  shows "\<exists>hs. path_up mc h hs"
  using assms(3)
proof (induction "rk h" arbitrary: h rule: less_induct)
  case less
  obtain n where n: "nodebyhandle mc h = Some n" using less.prems by blast
  show ?case
  proof (cases "n_parent n")
    case None
    then show ?thesis using n path_up.root by blast
  next
    case (Some q)
    have "rk q < rk h" using r n Some by (auto simp: ranked_def)
    moreover have "nodebyhandle mc q \<noteq> None" using links_okD(3) [OF l n Some] by auto
    ultimately show ?thesis using less.hyps n Some path_up.step by blast
  qed
qed

lemma path_up_set:
  assumes "path_up mc h hs"
  shows "set hs = {p. under mc p h}"
  using assms
proof (induction rule: path_up.induct)
  case (root h n)
  then have "under mc p h \<longleftrightarrow> p = h" for p by (auto simp: under_iff [of mc p h])
  then show ?case by auto
next
  case (step h n q hs)
  then have "under mc p h \<longleftrightarrow> p = h \<or> under mc p q" for p by (auto simp: under_iff [of mc p h])
  with step.IH show ?case by auto
qed

lemma keyed_simps:
  "nodebyhandle mc h = Some n \<Longrightarrow> n_sharekey n = None \<Longrightarrow> keyed mc h = []"
  "nodebyhandle mc h = Some n \<Longrightarrow> n_sharekey n = Some k \<Longrightarrow> keyed mc h = [(h, k)]"
  by (simp_all add: keyed_def)

lemma snk_loop_path:
  assumes "path_up mc h hs"
  shows "snk_loop L mc key False (Some h) st =
    Some (fold (\<lambda>(h, k). snk_emit L key h k) (concat (map (keyed mc) hs)) (fst st),
          snd st \<or> concat (map (keyed mc) hs) \<noteq> [])"
  using assms
proof (induction arbitrary: st rule: path_up.induct)
  case (root h n)
  then show ?case
    by (cases "n_sharekey n"; subst snk_loop.simps; subst snk_loop.simps) (simp_all add: keyed_simps)
next
  case (step h n q hs)
  then show ?case
    by (cases "n_sharekey n"; subst snk_loop.simps) (simp_all add: keyed_simps)
qed

lemma in_keyed: "(p, k) \<in> set (keyed mc q) \<longleftrightarrow> p = q \<and> (\<exists>n. nodebyhandle mc q = Some n \<and> n_sharekey n = Some k)"
proof (cases "nodebyhandle mc q")
  case (Some n)
  then show ?thesis by (cases "n_sharekey n") (auto simp: keyed_def)
qed (simp add: keyed_def)

lemma in_keyed_path:
  assumes "path_up mc h hs"
  shows "(p, k) \<in> set (concat (map (keyed mc) hs)) \<longleftrightarrow>
    under mc p h \<and> (\<exists>n. nodebyhandle mc p = Some n \<and> n_sharekey n = Some k)"
  using path_up_set [OF assms] in_keyed [of p k mc] by auto

lemma path_up_distinct:
  assumes "path_up mc h hs" "ranked rk d mc"
  shows "distinct hs"
  using assms(1)
proof (induction rule: path_up.induct)
  case (step h n q hs)
  have "rk q < rk h" using assms(2) step.hyps(1,2) by (auto simp: ranked_def)
  then have "\<not> under mc h q" using under_rank [OF _ assms(2), of h q] by auto
  then show ?case using step.IH path_up_set [OF step.hyps(3)] by simp
qed simp

lemma keyed_distinct: "distinct hs \<Longrightarrow> distinct (map fst (concat (map (keyed mc) hs)))"
proof (induction hs)
  case (Cons h hs)
  have k: "keyed mc h = [] \<or> (\<exists>k. keyed mc h = [(h, k)])" by (auto simp: keyed_def split: option.split)
  have "h \<notin> set (map fst (concat (map (keyed mc) hs)))" using Cons.prems by (auto simp: in_keyed)
  then show ?case using k Cons by (auto simp del: set_map set_concat)
qed simp

lemma snk_ok_mono: "snk_ok ls m s \<Longrightarrow> m \<le> m' \<Longrightarrow> snk_ok ls m' s"
  by (auto simp: snk_ok_def list_all_iff)

lemma snk_ok_items: "snk_ok ls m (s\<lparr>snk_items := x\<rparr>) = snk_ok ls m s"
  by (simp add: snk_ok_def)

lemma link_for_items: "link_for L key (s\<lparr>snk_items := x\<rparr>) = link_for L key s"
  by (simp add: link_for_def fun_eq_iff)

text \<open>
  After \<open>add\<close> of a node: one more link for each share at or above it whose key is known, all with the
  index of the node's handle among the items.
\<close>

lemma snk_add_shares:
  assumes t: "tree_ok mc" and n: "nodebyhandle mc h = Some n" and ok: "snk_ok ls (length (snk_items s)) s"
  obtains s' new hks where "snk_add L mc h None False s = Some s'"
    "snk_ok (ls @ new) (length (snk_items s')) s'" "list_all2 (link_for L (n_nodekey n) s') hks new"
    "distinct (map fst hks)" "\<And>p k. (p, k) \<in> set hks \<longleftrightarrow> under mc p h \<and> (\<exists>m. nodebyhandle mc p = Some m \<and> n_sharekey m = Some k)"
    "snk_items s' = snk_items s @ (if new = [] then [] else [le_bytes 6 (n_handle n)])"
    "\<forall>(i, j, e) \<in> set new. j = length (snk_items s)"
proof -
  obtain hs where p: "path_up mc h hs" using t n path_up_exists [of mc _ _ h] by (auto simp: tree_ok_def)
  let ?m = "Suc (length (snk_items s))"
  define hks where "hks = concat (map (keyed mc) hs)"
  define s1 where "s1 = fold (\<lambda>(h, k). snk_emit L (n_nodekey n) h k) hks s"
  obtain new where new: "snk_ok (ls @ new) ?m s1" "snk_items s1 = snk_items s"
    "list_all2 (link_for L (n_nodekey n) s1) hks new" "\<forall>(i, j, e) \<in> set new. j = length (snk_items s)"
    using snk_emits_ok [of ls ?m s L "n_nodekey n" hks] snk_ok_mono [OF ok, of ?m]
    by (auto simp: s1_def Let_def)
  define s2 where "s2 = (if hks \<noteq> [] then s1\<lparr>snk_items := snk_items s1 @ [le_bytes 6 (n_handle n)]\<rparr> else s1)"
  have e: "hks = [] \<longleftrightarrow> new = []" using new(3) by auto
  show ?thesis
  proof (rule that [of s2 new hks])
    show "snk_add L mc h None False s = Some s2"
      using n snk_loop_path [OF p, of L "n_nodekey n" "(s, False)"]
      by (simp add: snk_add_def snk_add_core_def s2_def s1_def hks_def)
    show "snk_ok (ls @ new) (length (snk_items s2)) s2"
    proof (cases "new = []")
      case True
      then show ?thesis using ok e by (simp add: s2_def s1_def)
    qed (use new e in \<open>simp add: s2_def snk_ok_items\<close>)
    show "list_all2 (link_for L (n_nodekey n) s2) hks new"
      using new(3) by (cases "hks = []") (simp_all add: s2_def link_for_items)
    have "distinct hs" using t path_up_distinct [OF p] by (auto simp: tree_ok_def)
    then show "distinct (map fst hks)" unfolding hks_def by (rule keyed_distinct)
  qed (use new e in_keyed_path [OF p] in \<open>simp_all add: s2_def hks_def\<close>)
qed

section \<open>The text of the cr argument\<close>

lemma pr_link_tail: "pr_link l = concat (map (\<lambda>y. ch_comma # y) (map pr (link_json l)))"
  by (cases l) (simp add: pr_link_def link_json_def pr_str_def)

lemma tl_commas: "tl (concat (map (\<lambda>y. ch_comma # y) xs)) = sep xs"
  by (cases xs) (simp_all add: sep_Cons)

lemma tl_pr_links: "tl (concat (map pr_link ls)) = sep (map pr (concat (map link_json ls)))"
proof -
  have "concat (map pr_link ls) = concat (map (\<lambda>y. ch_comma # y) (map pr (concat (map link_json ls))))"
    by (induction ls) (simp_all add: pr_link_tail)
  then show ?thesis by (simp only: tl_commas)
qed

lemma beginarray_opened:
  assumes "flat c 1"
  shows "opened (beginarray c) False" "cmd_level (beginarray c) = cmd_level c + 1"
    "cmd_json (beginarray c) = cmd_json c @ comma (cmd_json c) @ [ch_lbrack]"
  using assms by (auto simp: beginarray_def openobject_def opened_def flat_def)

lemma snk_array:
  fixes f :: "'a \<Rightarrow> bytes" and xs :: "'a list"
  assumes "flat c 1"
  defines "c' \<equiv> endarray (fold (\<lambda>x. element_bin (f x)) xs (beginarray c))"
  shows "cmd_json c' = cmd_json c @ comma (cmd_json c) @ pr (JArr (map (\<lambda>x. JStr (btoa (f x))) xs))"
    and "flat c' d = flat c d"
proof -
  have "(\<lambda>x. element_bin (f x)) = build_item \<circ> (EBin \<circ> f)" by (simp add: fun_eq_iff)
  then have "fold (\<lambda>x. element_bin (f x)) xs = fold build_item (map (EBin \<circ> f) xs)"
    by (simp only: fold_map)
  then have "c' = endarray (fold build_item (map (EBin \<circ> f) xs) (beginarray c))" by (simp only: c'_def)
  with build_items [OF beginarray_opened(1) [OF assms(1)], of "map (EBin \<circ> f) xs"] beginarray_opened [OF assms(1)]
  show "cmd_json c' = cmd_json c @ comma (cmd_json c) @ pr (JArr (map (\<lambda>x. JStr (btoa (f x))) xs))"
    and "flat c' d = flat c d"
    using assms(1) by (simp_all add: endarray_def closeobject_def comp_def flat_def)
qed

lemma comma_rbrack: "comma (j @ pr (JArr vs)) = [ch_comma]"
  by (simp add: comma_def)

lemma snk_get_json:
  assumes "snk_ok ls m s" "ls \<noteq> []" "flat c 2"
  shows "cmd_json (snk_get s c) = cmd_json c @ comma (cmd_json c) @ pr_member (str ''cr'', snk_json ls s)"
proof -
  define c0 where "c0 = beginarray_named (str ''cr'') c"
  define c2 where "c2 = endarray (fold (\<lambda>h. element_bin (le_bytes 6 h)) (snk_shares s) (beginarray c0))"
  define c3 where "c3 = endarray (fold (\<lambda>i. element_bin i) (snk_items s) (beginarray c2))"
  have c: "flat c 1" using assms(3) by (simp add: flat_def)
  note b0 = beginarray_named_opened [OF c, of "str ''cr''", folded c0_def]
  have f0: "flat c0 1" using b0 assms(3) by (simp add: flat_def opened_def)
  have k0: "comma (cmd_json c0) = []"
    using comma_simps(2) [of "cmd_json c @ comma (cmd_json c) @ pr_str (str ''cr'') @ [ch_colon]"] b0(3) by simp
  note a2 = snk_array [OF f0, of "le_bytes 6" "snk_shares s", folded c2_def]
  have f2: "flat c2 1" using a2(2) f0 by simp
  note a3 = snk_array [OF f2, of "\<lambda>x. x" "snk_items s", folded c3_def]
  have f3: "flat c3 1" using a3(2) f2 by simp
  have k2: "comma (cmd_json c2) = [ch_comma]" and k3: "comma (cmd_json c3) = [ch_comma]"
    unfolding a2(1) a3(1) append_assoc [symmetric] by (rule comma_rbrack)+
  have keys: "snk_keys s \<noteq> []" "tl (snk_keys s) = sep (map pr (concat (map link_json ls)))"
    using assms(1,2) tl_pr_links [of ls] by (auto simp: snk_ok_def pr_link_def neq_Nil_conv split: prod.splits)
  have "snk_get s c = endarray (endarray (appendraw_len (tl (snk_keys s)) (length (snk_keys s) - 1) (beginarray c3)))"
    using keys(1) by (simp add: snk_get_def Let_def c0_def c2_def c3_def)
  moreover have "length (sep (map pr (concat (map link_json ls)))) = length (snk_keys s) - 1"
    by (simp flip: keys(2))
  ultimately show ?thesis
    using a2(1) a3(1) b0(3) k0 k2 k3 keys(2) beginarray_opened(3) [OF f3]
    by (simp add: appendraw_len_def endarray_def closeobject_def pr_member_def snk_json_def)
qed

end
