(* ===== verification/Commands.thy ===== *)
theory Commands
  imports Share_Node_Keys
begin

text \<open>
  The constructors of \<open>src/commands.cpp\<close>: what each API command writes, with the calls of
  \<open>src/command.cpp\<close> in the order of the source. Members that only the result handler uses are
  arguments of the handlers in the theories of the responses. A constructor that walks the tree for
  share keys may not return (\<open>None\<close>).
\<close>

definition cmd_seq :: "(command \<Rightarrow> command) list \<Rightarrow> command" where
  "cmd_seq fs = fold (\<lambda>f. f) fs new_command"

definition set_tag :: "int \<Rightarrow> command \<Rightarrow> command" where
  "set_tag t c = c\<lparr>cmd_tag := t\<rparr>"

definition set_persistent :: "command \<Rightarrow> command" where
  "set_persistent c = c\<lparr>cmd_persistent := True\<rparr>"

text \<open>\<open>NODEHANDLE\<close> and \<open>USERHANDLE\<close>: handles of six and eight bytes.\<close>

definition arg_node :: "bytes \<Rightarrow> handle \<Rightarrow> command \<Rightarrow> command" where
  "arg_node name h = arg_bin name (le_bytes 6 h)"

definition arg_user :: "bytes \<Rightarrow> handle \<Rightarrow> command \<Rightarrow> command" where
  "arg_user name h = arg_bin name (le_bytes 8 h)"

definition notself :: "megaclient \<Rightarrow> command \<Rightarrow> command" where
  "notself mc = cmd_notself (mc_sessionid mc)"

section \<open>File attributes and transfers\<close>

definition CommandPutFA :: "megaclient \<Rightarrow> nat \<Rightarrow> command" where
  "CommandPutFA mc len =
     cmd_seq [cmd_cmd (str ''ufa''), arg_int (str ''s'') (int len), set_persistent, set_tag (mc_reqtag mc)]"

definition CommandGetFA :: "handle \<Rightarrow> command" where
  "CommandGetFA fahref = cmd_seq [cmd_cmd (str ''ufa''), arg_user (str ''fah'') fahref]"

definition CommandAttachFA :: "handle \<Rightarrow> nat \<Rightarrow> handle \<Rightarrow> int \<Rightarrow> command" where
  "CommandAttachFA nh t ah ctag =
     cmd_seq [cmd_cmd (str ''pfa''), arg_node (str ''n'') nh,
       arg_str (str ''fa'') (dec_nat t @ str ''*'' @ btoa (le_bytes 8 ah)) True, set_tag ctag]"

definition CommandPutFile :: "int \<Rightarrow> int \<Rightarrow> command" where
  "CommandPutFile fsize ms = cmd_seq [cmd_cmd (str ''u''), arg_int (str ''s'') fsize, arg_int (str ''ms'') ms]"

definition CommandGetFile :: "handle \<Rightarrow> bool \<Rightarrow> command" where
  "CommandGetFile h p =
     cmd_seq [cmd_cmd (str ''g''), arg_node (if p then str ''n'' else str ''p'') h, arg_int (str ''g'') 1]"

section \<open>Nodes\<close>

definition CommandSetAttr :: "aes \<Rightarrow> megaclient \<Rightarrow> node \<Rightarrow> command" where
  "CommandSetAttr L mc n =
     (let ats = makeattr L (n_key n) (getjson (n_attrs n)) in
      cmd_seq [cmd_cmd (str ''a''), notself mc, arg_node (str ''n'') (n_handle n), arg_bin (str ''at'') ats,
        set_tag (mc_reqtag mc)])"

datatype newnodesource = NEW_NODE | NEW_PUBLIC | NEW_UPLOAD

record newnode =
  nn_source :: newnodesource
  nn_handle :: handle
  nn_parenthandle :: handle
  nn_type :: int
  nn_nodekey :: bytes
  nn_clienttimestamp :: int
  nn_attrstring :: bytes
  nn_uploadhandle :: handle
  nn_uploadtoken :: bytes

text \<open>\<open>pendingfa\<close>: the file attributes waiting for the handle of their upload, ordered by it and the type: handle and tag.\<close>

type_synonym fa_map = "((handle \<times> nat) \<times> handle \<times> int) list"

definition pendingattrstring :: "handle \<Rightarrow> fa_map \<Rightarrow> bytes \<times> fa_map" where
  "pendingattrstring h pfa =
     (let below = takeWhile (\<lambda>e. fst (fst e) < h) pfa;
          here = takeWhile (\<lambda>e. fst (fst e) = h) (drop (length below) pfa);
          rest = drop (length below + length here) pfa;
          entry = (\<lambda>e s. let buf = str ''/'' @ dec_nat (snd (fst e)) @ str ''*'' @ btoa (le_bytes 8 (fst (snd e))) in
                         s @ (if s = [] then tl buf else buf))
      in (fold entry here [], below @ rest))"

definition putnodes_source :: "newnode \<Rightarrow> command \<times> fa_map \<Rightarrow> command \<times> fa_map" where
  "putnodes_source nn cp =
     (case cp of (c, pfa) \<Rightarrow>
      case nn_source nn of
        NEW_NODE \<Rightarrow> (arg_node (str ''h'') (nn_handle nn) c, pfa)
      | NEW_PUBLIC \<Rightarrow> (arg_node (str ''ph'') (nn_handle nn) c, pfa)
      | NEW_UPLOAD \<Rightarrow>
          (let (s, pfa1) = pendingattrstring (nn_uploadhandle nn) pfa;
               c1 = arg_bin (str ''h'') (nn_uploadtoken nn) c
           in (if s \<noteq> [] then arg_str (str ''fa'') s True c1 else c1, pfa1)))"

definition putnodes_node :: "aes \<Rightarrow> megaclient \<Rightarrow> newnode \<Rightarrow> command \<times> fa_map \<Rightarrow> command \<times> fa_map" where
  "putnodes_node L mc nn cp =
     (let (c1, pfa1) = putnodes_source nn (beginobject (fst cp), snd cp);
          c2 = (if \<not> ISUNDEF (nn_parenthandle nn) then arg_node (str ''p'') (nn_parenthandle nn) c1 else c1);
          c3 = arg_bin (str ''a'') (nn_attrstring nn) (arg_int (str ''t'') (nn_type nn) c2);
          key = (if length (nn_nodekey nn) \<le> 32 then ecb_encrypt L (mc_key mc) (nn_nodekey nn) else nn_nodekey nn);
          c4 = arg_int (str ''ts'') (nn_clienttimestamp nn) (arg_bin (str ''k'') key c3)
      in (endobject c4, pfa1))"

text \<open>The \<open>cr\<close> argument for new nodes below a share.\<close>

definition putnodes_snk :: "aes \<Rightarrow> megaclient \<Rightarrow> handle \<Rightarrow> newnode \<Rightarrow> snk option \<Rightarrow> snk option" where
  "putnodes_snk L mc tn nn so =
     Option.bind so (\<lambda>s.
       case nn_source nn of
         NEW_NODE \<Rightarrow> snk_add_core L mc (nn_nodekey nn) (nn_handle nn) tn False None s
       | NEW_UPLOAD \<Rightarrow> snk_add_core L mc (nn_nodekey nn) (nn_handle nn) tn False (Some (nn_uploadtoken nn)) s
       | NEW_PUBLIC \<Rightarrow> Some s)"

definition CommandPutNodes :: "aes \<Rightarrow> megaclient \<Rightarrow> handle \<Rightarrow> bytes option \<Rightarrow> newnode list \<Rightarrow> int \<Rightarrow> fa_map \<Rightarrow> (command \<times> fa_map) option" where
  "CommandPutNodes L mc th userhandle nn ctag pfa =
     (let c0 = cmd_seq [cmd_cmd (str ''p''), notself mc,
            (case userhandle of Some u \<Rightarrow> arg_str (str ''t'') u True | None \<Rightarrow> arg_node (str ''t'') th),
            beginarray_named (str ''n'')];
          (c1, pfa1) = fold (putnodes_node L mc) nn (c0, pfa);
          c2 = endarray c1
      in if userhandle = None \<and> nodebyhandle mc th \<noteq> None then
           map_option (\<lambda>s. (set_tag ctag (snk_get s c2), pfa1)) (fold (putnodes_snk L mc th) nn (Some snk_empty))
         else Some (set_tag ctag c2, pfa1))"

text \<open>\<open>TreeProcShareKeys\<close>: the keys of a subtree, for the share \<open>sn\<close> or all shares above.\<close>

definition treesharekeys :: "aes \<Rightarrow> handle option \<Rightarrow> handle \<Rightarrow> megaclient \<times> snk option \<Rightarrow> megaclient \<times> snk option" where
  "treesharekeys L sn h st = (fst st, Option.bind (snd st) (snk_add L (fst st) h sn (sn \<noteq> None)))"

definition tree_snk :: "aes \<Rightarrow> nat \<Rightarrow> megaclient \<Rightarrow> handle option \<Rightarrow> handle \<Rightarrow> snk option" where
  "tree_snk L k mc sn h = Option.bind (proctree k fst (treesharekeys L sn) h (mc, Some snk_empty)) snd"

definition CommandMoveNode :: "aes \<Rightarrow> nat \<Rightarrow> megaclient \<Rightarrow> handle \<Rightarrow> handle \<Rightarrow> command option" where
  "CommandMoveNode L k mc n t =
     map_option (\<lambda>s. cmd_seq [cmd_cmd (str ''m''), notself mc, arg_node (str ''n'') n, arg_node (str ''t'') t,
       snk_get s, set_tag (mc_reqtag mc)]) (tree_snk L k mc None n)"

definition CommandDelNode :: "megaclient \<Rightarrow> handle \<Rightarrow> command" where
  "CommandDelNode mc th =
     cmd_seq [cmd_cmd (str ''d''), notself mc, arg_node (str ''n'') th, set_tag (mc_reqtag mc)]"

section \<open>Shares and keys\<close>

definition CommandShareKeyUpdate :: "handle \<Rightarrow> bytes \<Rightarrow> bytes \<Rightarrow> command" where
  "CommandShareKeyUpdate sh uid key =
     cmd_seq [cmd_cmd (str ''k''), beginarray_named (str ''sr''), element_handle sh 6, element_bin uid, element_bin key, endarray]"

text \<open>The keys of a vector of share nodes, from its end to its front.\<close>

definition sharekey_elements :: "aes \<Rightarrow> megaclient \<Rightarrow> handle \<Rightarrow> command \<Rightarrow> command" where
  "sharekey_elements L mc h c =
     (case nodebyhandle mc h of
        None \<Rightarrow> c
      | Some n \<Rightarrow>
          (case n_sharekey n of
             None \<Rightarrow> c
           | Some k \<Rightarrow> element_bin (ecb_encrypt L (mc_key mc) (sk_key k)) (element_handle (mc_me mc) 8 (element_handle h 6 c))))"

definition CommandShareKeyUpdates :: "aes \<Rightarrow> megaclient \<Rightarrow> handle list \<Rightarrow> command" where
  "CommandShareKeyUpdates L mc v =
     cmd_seq [cmd_cmd (str ''k''), beginarray_named (str ''sr''), fold (sharekey_elements L mc) (rev v), endarray]"

text \<open>\<open>MegaClient::handleauth\<close>: the handle's text twice, encrypted.\<close>

definition handleauth :: "aes \<Rightarrow> symm \<Rightarrow> handle \<Rightarrow> bytes" where
  "handleauth L k h = ecb_encrypt L k (btoa (le_bytes 6 h) @ btoa (le_bytes 6 h))"

text \<open>\<open>ACCESS_UNKNOWN\<close> is -1; \<open>asymmkey\<close> is the share key encrypted to the user. \<open>u = None\<close>: exported link.\<close>

definition CommandSetShare :: "libs \<Rightarrow> nat \<Rightarrow> bytes \<Rightarrow> megaclient \<Rightarrow> handle \<Rightarrow> user option \<Rightarrow> int \<Rightarrow> bool \<Rightarrow> command option" where
  "CommandSetShare L k pad mc sh u a newshare =
     (case nodebyhandle mc sh of
        None \<Rightarrow> None
      | Some n \<Rightarrow>
     (let sharekey = (case n_sharekey n of Some s \<Rightarrow> sk_key s | None \<Rightarrow> []) in
      if a \<noteq> -1 \<and> n_sharekey n = None then None
      else case (case u of
             Some us \<Rightarrow> if a \<noteq> -1 then asymm_encrypt (lib_big L) (u_pubk us) sharekey pad 1026 else Some []
           | None \<Rightarrow> Some []) of
        None \<Rightarrow> None
      | Some asymmkey \<Rightarrow>
          (let c1 = cmd_seq [cmd_cmd (str ''s''), arg_node (str ''n'') sh];
               c2 = (if a \<noteq> -1 then
                       arg_bin (str ''ha'') (handleauth (lib_aes L) (mc_key mc) sh)
                         (arg_bin (str ''ok'') (ecb_encrypt (lib_aes L) (mc_key mc) sharekey) c1)
                     else c1);
               c3 = arg_str (str ''u'') (case u of Some us \<Rightarrow> u_uid us | None \<Rightarrow> str ''EXP'') True
                      (beginobject (beginarray_named (str ''s'') c2));
               c4 = (if a \<noteq> -1 then
                       (let c = arg_int (str ''r'') a c3 in if u \<noteq> None then arg_bin (str ''k'') asymmkey c else c)
                     else c3);
               c5 = set_tag (mc_restag mc) (endarray (endobject c4))
           in if newshare then map_option (\<lambda>s. snk_get s c5) (tree_snk (lib_aes L) k mc (Some sh) sh)
              else Some c5)))"

definition nodekey_elements :: "aes \<Rightarrow> megaclient \<Rightarrow> handle \<Rightarrow> command \<Rightarrow> command" where
  "nodekey_elements L mc h c =
     (case nodebyhandle mc h of
        None \<Rightarrow> c
      | Some n \<Rightarrow> element_bin (ecb_encrypt L (mc_key mc) (n_nodekey n)) (element_handle h 6 c))"

definition CommandNodeKeyUpdate :: "aes \<Rightarrow> megaclient \<Rightarrow> handle list \<Rightarrow> command" where
  "CommandNodeKeyUpdate L mc v =
     cmd_seq [cmd_cmd (str ''k''), beginarray_named (str ''nk''), fold (nodekey_elements L mc) (rev v), endarray]"

definition CommandSingleKeyCR :: "handle \<Rightarrow> handle \<Rightarrow> bytes \<Rightarrow> command" where
  "CommandSingleKeyCR sh nh key =
     cmd_seq [cmd_cmd (str ''k''), beginarray_named (str ''cr''),
       beginarray, element_handle sh 6, endarray,
       beginarray, element_handle nh 6, endarray,
       beginarray, element_int 0, element_int 0, element_bin key, endarray,
       endarray]"

definition CommandKeyCR :: "handle list \<Rightarrow> handle list \<Rightarrow> bytes \<Rightarrow> command" where
  "CommandKeyCR rshares rnodes keys =
     cmd_seq [cmd_cmd (str ''k''), beginarray_named (str ''cr''),
       beginarray, fold (\<lambda>h. element_handle h 6) rshares, endarray,
       beginarray, fold (\<lambda>h. element_handle h 6) rnodes, endarray,
       beginarray, appendraw keys, endarray,
       endarray]"

definition CommandPubKeyRequest :: "megaclient \<Rightarrow> user \<Rightarrow> command" where
  "CommandPubKeyRequest mc u = cmd_seq [cmd_cmd (str ''uk''), arg_str (str ''u'') (u_uid u) True, set_tag (mc_reqtag mc)]"

section \<open>Session and account\<close>

definition CommandLogin :: "megaclient \<Rightarrow> bytes option \<Rightarrow> u64 \<Rightarrow> command" where
  "CommandLogin mc email emailhash =
     cmd_seq [cmd_cmd (str ''us''),
       (case email of Some e \<Rightarrow> arg_user (str ''uh'') emailhash \<circ> arg_str (str ''user'') e True | None \<Rightarrow> id),
       (if mc_cachedscsn mc \<noteq> UNDEF then arg_user (str ''sn'') (mc_cachedscsn mc) else id),
       set_tag (mc_reqtag mc)]"

definition CommandEnumerateQuotaItems :: "megaclient \<Rightarrow> command" where
  "CommandEnumerateQuotaItems mc = cmd_seq [cmd_cmd (str ''utqa''), set_tag (mc_reqtag mc)]"

definition CommandPurchaseAddItem :: command where
  "CommandPurchaseAddItem = cmd_seq [cmd_cmd (str ''uts'')]"

definition purchase_begin :: "megaclient \<Rightarrow> megaclient" where
  "purchase_begin mc = mc\<lparr>mc_purchase_basket := []\<rparr>"

definition CommandPurchaseCheckout :: "megaclient \<Rightarrow> int \<Rightarrow> command \<times> megaclient" where
  "CommandPurchaseCheckout mc gateway =
     (cmd_seq [cmd_cmd (str ''utc''), beginarray_named (str ''s''),
        fold (\<lambda>h. element_bin (le_bytes 8 h)) (mc_purchase_basket mc), endarray,
        arg_int (str ''m'') gateway, set_tag (mc_reqtag mc)],
      purchase_begin mc)"

definition CommandUserRequest :: "megaclient \<Rightarrow> bytes \<Rightarrow> int \<Rightarrow> command" where
  "CommandUserRequest mc m vis =
     cmd_seq [cmd_cmd (str ''ur''), arg_str (str ''u'') m True, arg_int (str ''l'') vis, set_tag (mc_reqtag mc)]"

definition CommandPutUA :: "megaclient \<Rightarrow> bytes \<Rightarrow> bytes \<Rightarrow> command" where
  "CommandPutUA mc an av = cmd_seq [cmd_cmd (str ''up''), arg_bin an av, set_tag (mc_reqtag mc)]"

definition CommandGetUA :: "megaclient \<Rightarrow> bytes \<Rightarrow> bytes \<Rightarrow> command" where
  "CommandGetUA mc uid an =
     cmd_seq [cmd_cmd (str ''uga''), arg_str (str ''u'') uid True, arg_str (str ''ua'') an True, set_tag (mc_reqtag mc)]"

text \<open>\<open>arg(name, "1", 0)\<close>: no quotes.\<close>

definition arg_flag :: "bytes \<Rightarrow> command \<Rightarrow> command" where
  "arg_flag name = arg_str name (str ''1'') False"

definition CommandGetUserQuota :: "megaclient \<Rightarrow> bool \<Rightarrow> bool \<Rightarrow> bool \<Rightarrow> command" where
  "CommandGetUserQuota mc storage transfer pro =
     cmd_seq [cmd_cmd (str ''uq''),
       (if storage then arg_flag (str ''strg'') else id),
       (if transfer then arg_flag (str ''xfer'') else id),
       (if pro then arg_flag (str ''pro'') else id),
       set_tag (mc_reqtag mc)]"

definition CommandGetUserTransactions :: "megaclient \<Rightarrow> command" where
  "CommandGetUserTransactions mc = cmd_seq [cmd_cmd (str ''utt''), set_tag (mc_reqtag mc)]"

definition CommandGetUserPurchases :: "megaclient \<Rightarrow> command" where
  "CommandGetUserPurchases mc = cmd_seq [cmd_cmd (str ''utp''), set_tag (mc_reqtag mc)]"

definition CommandGetUserSessions :: "megaclient \<Rightarrow> command" where
  "CommandGetUserSessions mc = cmd_seq [cmd_cmd (str ''usl''), set_tag (mc_reqtag mc)]"

definition CommandSetPH :: "megaclient \<Rightarrow> handle \<Rightarrow> bool \<Rightarrow> command" where
  "CommandSetPH mc h del =
     cmd_seq [cmd_cmd (str ''l''), arg_node (str ''n'') h, (if del then arg_int (str ''d'') 1 else id), set_tag (mc_reqtag mc)]"

definition CommandGetPH :: "megaclient \<Rightarrow> handle \<Rightarrow> command" where
  "CommandGetPH mc cph = cmd_seq [cmd_cmd (str ''g''), arg_node (str ''p'') cph, set_tag (mc_reqtag mc)]"

definition CommandSetMasterKey :: "megaclient \<Rightarrow> bytes \<Rightarrow> bytes \<Rightarrow> u64 \<Rightarrow> command" where
  "CommandSetMasterKey mc oldkey newkey hash =
     cmd_seq [cmd_cmd (str ''up''), arg_bin (str ''currk'') (take 16 oldkey), arg_bin (str ''k'') (take 16 newkey),
       arg_user (str ''uh'') hash, set_tag (mc_reqtag mc)]"

definition CommandCreateEphemeralSession :: "megaclient \<Rightarrow> bytes \<Rightarrow> bytes \<Rightarrow> command" where
  "CommandCreateEphemeralSession mc key ssc =
     cmd_seq [cmd_cmd (str ''up''), arg_bin (str ''k'') (take 16 key), arg_bin (str ''ts'') (take 32 ssc), set_tag (mc_reqtag mc)]"

definition CommandResumeEphemeralSession :: "handle \<Rightarrow> int \<Rightarrow> command" where
  "CommandResumeEphemeralSession uh ctag = cmd_seq [cmd_cmd (str ''us''), arg_user (str ''user'') uh, set_tag ctag]"

definition CommandSendSignupLink :: "megaclient \<Rightarrow> bytes \<Rightarrow> bytes \<Rightarrow> bytes \<Rightarrow> command" where
  "CommandSendSignupLink mc email name c =
     cmd_seq [cmd_cmd (str ''uc''), arg_bin (str ''c'') (take 32 c), arg_bin (str ''n'') name, arg_bin (str ''m'') email,
       set_tag (mc_reqtag mc)]"

definition CommandQuerySignupLink :: "megaclient \<Rightarrow> bytes \<Rightarrow> command" where
  "CommandQuerySignupLink mc code = cmd_seq [cmd_cmd (str ''ud''), arg_bin (str ''c'') code, set_tag (mc_reqtag mc)]"

definition CommandConfirmSignupLink :: "megaclient \<Rightarrow> bytes \<Rightarrow> u64 \<Rightarrow> command" where
  "CommandConfirmSignupLink mc code emailhash =
     cmd_seq [cmd_cmd (str ''up''), arg_bin (str ''c'') code, arg_user (str ''uh'') emailhash, set_tag (mc_reqtag mc)]"

definition CommandSetKeyPair :: "megaclient \<Rightarrow> bytes \<Rightarrow> bytes \<Rightarrow> command" where
  "CommandSetKeyPair mc privk pubk =
     cmd_seq [cmd_cmd (str ''up''), arg_bin (str ''privk'') privk, arg_bin (str ''pubk'') pubk, set_tag (mc_reqtag mc)]"

definition CommandFetchNodes :: "megaclient \<Rightarrow> command" where
  "CommandFetchNodes mc = cmd_seq [cmd_cmd (str ''f''), arg_flag (str ''c''), arg_flag (str ''r''), set_tag (mc_reqtag mc)]"

end
