(* ===== verification/Command_Texts.thy ===== *)
theory Command_Texts
  imports Commands
begin

text \<open>
  The texts of all commands of \<open>src/commands.cpp\<close>: between braces, each is a well-formed JSON object
  with the opcode under \<open>a\<close> and the arguments of the constructor.
\<close>

section \<open>What has been written\<close>

text \<open>\<open>c\<close> holds the opcode \<open>op\<close> and the members \<open>ms\<close>.\<close>

definition written :: "bytes \<Rightarrow> (bytes \<times> json_value) list \<Rightarrow> command \<Rightarrow> bool" where
  "written op ms c \<longleftrightarrow>
     wf_json (JObj ((str ''a'', JStr op) # ms)) \<and>
     length (cmd_levels c) = 8 \<and> cmd_level c = -1 \<and>
     cmd_json c = pr_member (str ''a'', JStr op) @ pr_rest ms"

named_theorems written_intros \<open>the members that the calls of a constructor write\<close>

lemma written_text:
  assumes "written op ms c"
  shows "ch_lbrace # getstring c @ [ch_rbrace] = pr (JObj ((str ''a'', JStr op) # ms))"
    and "wf_json (JObj ((str ''a'', JStr op) # ms))"
proof -
  let ?v = "JObj ((str ''a'', JStr op) # ms)"
  show wf: "wf_json ?v" using assms by (simp add: written_def)
  have j: "ch_lbrace # cmd_json c @ [ch_rbrace] = pr ?v"
    using assms by (simp add: written_def pr_JObj sep_Cons pr_rest_def comp_def del: pr.simps)
  have "0 \<notin> set (cmd_json c)" using pr_no_nul [OF wf, folded j] by simp
  then have "getstring c = cmd_json c" by (auto simp: getstring_def takeWhile_eq_all_conv)
  with j show "ch_lbrace # getstring c @ [ch_rbrace] = pr ?v" by simp
qed

lemma written_cmd [written_intros]: "str_ok False op \<Longrightarrow> written op [] (cmd_cmd op new_command)"
  by (simp add: written_def cmd_cmd_def new_command_def pr_member_def pr_str_def str_def pr_rest_def)

lemma comma_pr: "wf_json v \<Longrightarrow> comma (j @ pr v) = [ch_comma]"
  using last_pr [of v] pr_nonempty [of v] by (simp add: comma_def)

lemma written_comma:
  assumes "written op ms c"
  shows "comma (cmd_json c) = [ch_comma]"
proof (cases ms rule: rev_cases)
  case Nil
  then show ?thesis using assms by (simp add: written_def comma_def pr_member_def pr_str_def pr_rest_def)
next
  case (snoc ms' m)
  have "cmd_json c = (pr_member (str ''a'', JStr op) @ pr_rest ms' @ ch_comma # pr_str (fst m) @ [ch_colon]) @ pr (snd m)"
    using assms by (cases m) (simp add: written_def snoc pr_rest_def pr_member_def)
  moreover have "wf_json (snd m)" using assms by (simp add: written_def snoc list_all_iff case_prod_beta)
  ultimately show ?thesis by (simp only: comma_pr)
qed

text \<open>A call that appends one member.\<close>

lemma written_one:
  assumes "written op ms c" "str_ok False k" "wf_json v"
    and "cmd_json c' = cmd_json c @ comma (cmd_json c) @ pr_member (k, v)"
    and "length (cmd_levels c') = 8" "cmd_level c' = cmd_level c"
  shows "written op (ms @ [(k, v)]) c'"
  using assms written_comma [OF assms(1)] by (simp add: written_def pr_rest_def)

lemma written_flat: "written op ms c \<Longrightarrow> d \<le> 8 \<Longrightarrow> flat c d"
  by (simp add: written_def flat_def)

lemma written_member:
  assumes "written op ms c" "member_ok m" "depth m \<le> 8"
  shows "written op (ms @ [member_json m]) (build_member m c)"
  using written_one [OF assms(1), of "fst (member_json m)" "snd (member_json m)" "build_member m c"]
    build_member_json [OF written_flat [OF assms(1,3)]] wf_member [OF assms(2)] by simp

lemma written_args [written_intros]:
  assumes "written op ms c" "str_ok False k"
  shows "str_ok False v \<Longrightarrow> written op (ms @ [(k, JStr v)]) (arg_str k v True c)"
    "written op (ms @ [(k, JNum (dec_int n))]) (arg_int k n c)"
    "written op (ms @ [(k, JStr (btoa d))]) (arg_bin k d c)"
    "written op (ms @ [(k, JNum (str ''1''))]) (arg_flag k c)"
    "written op (ms @ [(k, JStr (btoa (le_bytes 6 h)))]) (arg_node k h c)"
    "written op (ms @ [(k, JStr (btoa (le_bytes 8 h)))]) (arg_user k h c)"
proof -
  have "dec_int 1 = str ''1''" by (simp add: dec_int_def dec_nat.simps str_def)
  then have "arg_flag k c = arg_int k 1 c" by (simp add: arg_flag_def arg_int_def)
  then show "written op (ms @ [(k, JNum (str ''1''))]) (arg_flag k c)"
    using assms written_member [of op ms c "MInt k 1"] \<open>dec_int 1 = str ''1''\<close> by simp
qed (use assms written_member [of op ms c "MStr k v"] written_member [of op ms c "MInt k n"]
      written_member [of op ms c "MBin k d"] written_member [of op ms c "MBin k (le_bytes 6 h)"]
      written_member [of op ms c "MBin k (le_bytes 8 h)"] in \<open>simp_all add: arg_node_def arg_user_def\<close>)

lemma notself_arg: "written op ms c \<Longrightarrow> notself mc c = arg_str (str ''i'') (mc_sessionid mc) True c"
  using written_comma [of op ms c]
  by (auto simp: notself_def cmd_notself_def arg_str_def addcomma_def comma_def append_json_def Let_def str_def split: if_splits)

lemma str_ok_literals [simp]:
  "str_ok False (str ''a'')" "str_ok False (str ''i'')" "str_ok False (str ''cr'')"
  by (simp_all add: str_def)

lemma written_notself [written_intros]:
  "written op ms c \<Longrightarrow> str_ok False (mc_sessionid mc) \<Longrightarrow>
   written op (ms @ [(str ''i'', JStr (mc_sessionid mc))]) (notself mc c)"
  using written_args(1) [of op ms c "str ''i''"] by (simp add: notself_arg)

lemma written_tag [written_intros]:
  "written op ms c \<Longrightarrow> written op ms (set_tag t c)" "written op ms c \<Longrightarrow> written op ms (set_persistent c)"
  by (simp_all add: written_def set_tag_def set_persistent_def)

lemma written_elements [written_intros]:
  assumes "written op ms c" "str_ok False k"
  shows "written op (ms @ [(k, JArr (map item_json es))]) (endarray (fold build_item es (beginarray_named k c)))"
  using written_member [OF assms(1), of "MElems k es"] assms(2) by simp

section \<open>The cr argument\<close>

text \<open>A walk over shares adds links, whatever tree it walks.\<close>

definition snk_grows :: "nat \<Rightarrow> snk \<times> bool \<Rightarrow> snk \<times> bool \<Rightarrow> bool" where
  "snk_grows m st st' \<longleftrightarrow>
     (\<forall>ls. snk_ok ls m (fst st) \<longrightarrow> length (snk_items (fst st)) < m \<longrightarrow>
        (\<exists>new. snk_ok (ls @ new) m (fst st') \<and> snk_items (fst st') = snk_items (fst st) \<and>
          (snd st' \<longleftrightarrow> snd st \<or> new \<noteq> [])))"

lemma snk_grows_refl: "snk_grows m st st"
  unfolding snk_grows_def by (metis append_Nil2)

lemma snk_grows_trans:
  assumes "snk_grows m a b" "snk_grows m b c"
  shows "snk_grows m a c"
  unfolding snk_grows_def
proof (intro allI impI)
  fix ls assume ls: "snk_ok ls m (fst a)" "length (snk_items (fst a)) < m"
  obtain n1 where n1: "snk_ok (ls @ n1) m (fst b)" "snk_items (fst b) = snk_items (fst a)" "snd b \<longleftrightarrow> snd a \<or> n1 \<noteq> []"
    using assms(1) ls by (auto simp: snk_grows_def)
  obtain n2 where n2: "snk_ok ((ls @ n1) @ n2) m (fst c)" "snk_items (fst c) = snk_items (fst b)" "snd c \<longleftrightarrow> snd b \<or> n2 \<noteq> []"
    using assms(2) n1 ls by (fastforce simp: snk_grows_def)
  show "\<exists>new. snk_ok (ls @ new) m (fst c) \<and> snk_items (fst c) = snk_items (fst a) \<and> (snd c \<longleftrightarrow> snd a \<or> new \<noteq> [])"
    by (rule exI [of _ "n1 @ n2"]) (use n1 n2 in auto)
qed

lemma snk_grows_emit: "snk_grows m st (snk_emit L key h k (fst st), True)"
  unfolding snk_grows_def
proof (intro allI impI)
  fix ls assume ls: "snk_ok ls m (fst st)" "length (snk_items (fst st)) < m"
  obtain i where "snk_ok (ls @ [(i, length (snk_items (fst st)), ecb_encrypt L k key)]) m (snk_emit L key h k (fst st))"
    "snk_items (snk_emit L key h k (fst st)) = snk_items (fst st)"
    using snk_emit_ok [OF ls] by metis
  then show "\<exists>new. snk_ok (ls @ new) m (fst (snk_emit L key h k (fst st), True)) \<and>
      snk_items (fst (snk_emit L key h k (fst st), True)) = snk_items (fst st) \<and>
      (snd (snk_emit L key h k (fst st), True) \<longleftrightarrow> snd st \<or> new \<noteq> [])"
    by (intro exI [of _ "[(i, length (snk_items (fst st)), ecb_encrypt L k key)]"]) simp
qed

lemma snk_loop_grows:
  assumes "snk_loop L mc key sp sn st = Some st'"
  shows "snk_grows m st st'"
proof (rule snk_loop.raw_induct [where P = "\<lambda>L mc key sp sn st st'. snk_grows m st st'", OF _ assms])
  fix rec L mc key sp sn st st'
  assume rec: "\<And>L mc key sp sn st st'. rec L mc key sp sn st = Some st' \<Longrightarrow> snk_grows m st st'"
    and b: "(case sn of None \<Rightarrow> Some st
        | Some h \<Rightarrow>
            case nodebyhandle mc h of None \<Rightarrow> None
            | Some n \<Rightarrow>
                let st1 = case n_sharekey n of None \<Rightarrow> st | Some k \<Rightarrow> (snk_emit L key h k (fst st), True)
                in if sp then Some st1 else rec L mc key sp (n_parent n) st1) = Some st'"
  show "snk_grows m st st'"
  proof (cases sn)
    case None
    then show ?thesis using b by (simp add: snk_grows_refl)
  next
    case (Some h)
    then obtain n where n: "nodebyhandle mc h = Some n" using b by (auto split: option.splits)
    define st1 where "st1 = (case n_sharekey n of None \<Rightarrow> st | Some k \<Rightarrow> (snk_emit L key h k (fst st), True))"
    have "snk_grows m st st1" by (simp add: st1_def snk_grows_refl snk_grows_emit split: option.splits)
    moreover have "snk_grows m st1 st'"
      using b Some n rec [of L mc key sp "n_parent n" st1 st'] snk_grows_refl
      by (auto simp: Let_def simp flip: st1_def split: if_splits)
    ultimately show ?thesis by (rule snk_grows_trans)
  qed
qed

definition snk_valid :: "snk \<Rightarrow> bool" where
  "snk_valid s \<longleftrightarrow> (\<exists>ls. snk_ok ls (length (snk_items s)) s)"

lemma snk_valid_empty: "snk_valid snk_empty"
  by (auto simp: snk_valid_def snk_ok_def snk_empty_def intro: exI [of _ "[]"])

lemma snk_add_core_valid:
  assumes "snk_add_core L mc key nh sn sp item s = Some s'" "snk_valid s"
  shows "snk_valid s'"
proof -
  let ?m = "Suc (length (snk_items s))"
  obtain st where st: "snk_loop L mc key sp (Some sn) (s, False) = Some st"
    and s': "s' = (if snd st then (fst st)\<lparr>snk_items := snk_items (fst st) @ [case item of Some t \<Rightarrow> t | None \<Rightarrow> le_bytes 6 nh]\<rparr> else fst st)"
    using assms(1) by (auto simp: snk_add_core_def)
  obtain ls where ls: "snk_ok ls (length (snk_items s)) s" using assms(2) by (auto simp: snk_valid_def)
  have g: "snk_grows m (s, False) st" for m by (rule snk_loop_grows [OF st])
  obtain new where new: "snk_ok (ls @ new) ?m (fst st)" "snk_items (fst st) = snk_items s" "snd st \<longleftrightarrow> new \<noteq> []"
    using g [of ?m] snk_ok_mono [OF ls, of ?m] by (auto simp: snk_grows_def)
  show ?thesis
  proof (cases "snd st")
    case True
    then show ?thesis using new by (auto simp: snk_valid_def s' snk_ok_items)
  next
    case False
    have "snk_ok ls (length (snk_items s)) (fst st)"
      using new ls False by (fastforce simp: snk_ok_def list_all_iff)
    then show ?thesis using False new by (auto simp: snk_valid_def s')
  qed
qed

lemma snk_add_valid: "snk_add L mc h sn sp s = Some s' \<Longrightarrow> snk_valid s \<Longrightarrow> snk_valid s'"
  by (auto simp: snk_add_def split: option.splits dest: snk_add_core_valid)

lemma tree_snk_valid:
  assumes "tree_snk L k mc sn h = Some s"
  shows "snk_valid s"
proof -
  let ?P = "\<lambda>st :: megaclient \<times> snk option. \<forall>s. snd st = Some s \<longrightarrow> snk_valid s"
  obtain st where st: "proctree k fst (treesharekeys L sn) h (mc, Some snk_empty) = Some st" "snd st = Some s"
    using assms by (auto simp: tree_snk_def bind_eq_Some_conv)
  have "?P st"
    by (rule proctree_keeps [where P = ?P, OF _ _ st(1)])
      (auto simp: treesharekeys_def snk_valid_empty bind_eq_Some_conv intro: snk_add_valid)
  then show ?thesis using st(2) by blast
qed

text \<open>Every array that is opened is closed.\<close>

definition level_of :: "command \<Rightarrow> nat \<times> int" where
  "level_of c = (length (cmd_levels c), cmd_level c)"

lemma level_of_simps [simp]:
  "level_of (append_json t c) = level_of c" "level_of (addcomma c) = level_of c"
  "level_of (appendraw t c) = level_of c" "level_of (appendraw_len t n c) = level_of c"
  "level_of (endarray c) = apsnd (\<lambda>i. i - 1) (level_of c)"
  "level_of (beginarray c) = apsnd (\<lambda>i. i + 1) (level_of c)"
  "level_of (beginarray_named k c) = apsnd (\<lambda>i. i + 1) (level_of c)"
  "level_of (element_bin d c) = level_of c" "level_of (element_handle h n c) = level_of c" "level_of (element_int i c) = level_of c"
  by (simp_all add: level_of_def appendraw_def appendraw_len_def endarray_def beginarray_def beginarray_named_def
      openobject_def closeobject_def element_bin_def element_handle_def element_int_def elements_def)

lemma level_of_fold [simp]: "(\<And>x c. level_of (f x c) = level_of c) \<Longrightarrow> level_of (fold f xs c) = level_of c"
  by (induction xs arbitrary: c) simp_all

lemma level_of_snk_get: "level_of (snk_get s c) = level_of c"
  by (simp add: snk_get_def Let_def apsnd_def map_prod_def split: prod.splits)

lemma written_snk:
  assumes "written op ms c" "snk_valid s"
  shows "\<exists>cr. written op (ms @ cr) (snk_get s c) \<and> set cr \<subseteq> {str ''cr''} \<times> UNIV \<and> length cr \<le> 1"
proof (cases "snk_keys s = []")
  case True
  then show ?thesis using assms(1) by (intro exI [of _ "[]"]) (simp add: snk_get_def)
next
  case False
  obtain ls where ls: "snk_ok ls (length (snk_items s)) s" using assms(2) by (auto simp: snk_valid_def)
  then have "ls \<noteq> []" using False by (auto simp: snk_ok_def)
  note j = snk_get_json [OF ls this written_flat [OF assms(1)]]
  have wf: "wf_json (snk_json ls s)"
    using num_ok_dec_int [of "int _"] by (auto simp: snk_json_def link_json_def list_all_iff str_ok_btoa dec_int_def)
  have "written op (ms @ [(str ''cr'', snk_json ls s)]) (snk_get s c)"
    by (rule written_one [OF assms(1) _ wf j])
      (use level_of_snk_get [of s c] assms(1) in \<open>simp_all add: level_of_def written_def\<close>)
  then show ?thesis by (intro exI [of _ "[(str ''cr'', snk_json ls s)]"]) simp
qed

section \<open>New nodes\<close>

definition nn_source_doc :: "newnode \<Rightarrow> fa_map \<Rightarrow> cmember list" where
  "nn_source_doc nn pfa =
     (case nn_source nn of
        NEW_NODE \<Rightarrow> [MBin (str ''h'') (le_bytes 6 (nn_handle nn))]
      | NEW_PUBLIC \<Rightarrow> [MBin (str ''ph'') (le_bytes 6 (nn_handle nn))]
      | NEW_UPLOAD \<Rightarrow> MBin (str ''h'') (nn_uploadtoken nn) #
          (let s = fst (pendingattrstring (nn_uploadhandle nn) pfa) in if s \<noteq> [] then [MStr (str ''fa'') s] else []))"

definition nn_doc :: "aes \<Rightarrow> megaclient \<Rightarrow> newnode \<Rightarrow> fa_map \<Rightarrow> cmember list" where
  "nn_doc L mc nn pfa =
     nn_source_doc nn pfa @
     (if ISUNDEF (nn_parenthandle nn) then [] else [MBin (str ''p'') (le_bytes 6 (nn_parenthandle nn))]) @
     [MInt (str ''t'') (nn_type nn), MBin (str ''a'') (nn_attrstring nn),
      MBin (str ''k'') (if length (nn_nodekey nn) \<le> 32 then ecb_encrypt L (mc_key mc) (nn_nodekey nn) else nn_nodekey nn),
      MInt (str ''ts'') (nn_clienttimestamp nn)]"

text \<open>Uploads take their pending attributes out of \<open>pendingfa\<close>.\<close>

definition nn_pfa :: "newnode \<Rightarrow> fa_map \<Rightarrow> fa_map" where
  "nn_pfa nn pfa = (case nn_source nn of NEW_UPLOAD \<Rightarrow> snd (pendingattrstring (nn_uploadhandle nn) pfa) | _ \<Rightarrow> pfa)"

fun nn_docs :: "aes \<Rightarrow> megaclient \<Rightarrow> newnode list \<Rightarrow> fa_map \<Rightarrow> cmember list list" where
  "nn_docs L mc [] pfa = []"
| "nn_docs L mc (nn # nns) pfa = nn_doc L mc nn pfa # nn_docs L mc nns (nn_pfa nn pfa)"

lemma putnodes_node_doc:
  "putnodes_node L mc nn (c, pfa) = (endobject (fold build_member (nn_doc L mc nn pfa) (beginobject c)), nn_pfa nn pfa)"
  by (simp add: putnodes_node_def putnodes_source_def nn_doc_def nn_source_doc_def nn_pfa_def arg_node_def Let_def
      split: newnodesource.splits prod.splits)

lemma putnodes_fold:
  "fst (fold (putnodes_node L mc) nns (c, pfa)) =
     fold (\<lambda>ms c. endobject (fold build_member ms (beginobject c))) (nn_docs L mc nns pfa) c"
  by (induction nns arbitrary: c pfa) (simp_all add: putnodes_node_doc)

lemma dec_nat_plain: "c \<in> set (dec_nat n) \<Longrightarrow> is_digit c"
  using dec_nat_digits [of n] by (simp add: list_all_iff)

definition plain_text :: "bytes \<Rightarrow> bool" where
  "plain_text s \<longleftrightarrow> 0 \<notin> set s \<and> ch_quote \<notin> set s \<and> ch_bslash \<notin> set s"

lemma plain_simps [simp]:
  "plain_text []" "plain_text (c # s) \<longleftrightarrow> c \<notin> {0, ch_quote, ch_bslash} \<and> plain_text s" "plain_text (s @ t) \<longleftrightarrow> plain_text s \<and> plain_text t"
  "plain_text (btoa d)" "plain_text (dec_nat n)"
  using btoa_no_quote [of d] dec_nat_plain [of 0 n] dec_nat_plain [of ch_quote n] dec_nat_plain [of ch_bslash n]
  by (auto simp: plain_text_def is_digit_def)

lemma plain_ok: "plain_text s \<Longrightarrow> str_ok False s"
  by (simp add: plain_text_def str_ok_plain)

lemma plain_pendingattr: "plain_text (fst (pendingattrstring h pfa))"
proof -
  have "plain_text (fold (\<lambda>e s. let buf = str ''/'' @ dec_nat (snd (fst e)) @ str ''*'' @ btoa (le_bytes 8 (fst (snd e))) in
      s @ (if s = [] then tl buf else buf)) es s)" if "plain_text s" for es :: fa_map and s
    using that by (induction es arbitrary: s) (auto simp: Let_def str_def)
  then show ?thesis by (simp add: pendingattrstring_def Let_def)
qed

lemma nn_docs_ok: "list_all (list_all (\<lambda>m. member_ok m \<and> depth m = 0)) (nn_docs L mc nns pfa)"
proof (induction nns arbitrary: pfa)
  case (Cons nn nns)
  have "list_all (\<lambda>m. member_ok m \<and> depth m = 0) (nn_doc L mc nn pfa)"
    using plain_pendingattr [THEN plain_ok]
    by (auto simp: nn_doc_def nn_source_doc_def str_def Let_def split: newnodesource.splits)
  with Cons show ?case by simp
qed simp

lemma fold_max_0: "(\<forall>x \<in> set xs. x = 0) \<Longrightarrow> fold max xs 0 = (0 :: nat)"
  by (induction xs) simp_all

lemma written_nodes:
  assumes "written op ms c"
  shows "written op (ms @ [member_json (MObjs (str ''n'') (nn_docs L mc nns pfa))])
    (endarray (fst (fold (putnodes_node L mc) nns (beginarray_named (str ''n'') c, pfa))))"
proof -
  have "depth (MObjs (str ''n'') (nn_docs L mc nns pfa)) = 1"
    using nn_docs_ok [of L mc nns pfa] by (auto simp: list_all_iff intro!: fold_max_0)
  moreover have "member_ok (MObjs (str ''n'') (nn_docs L mc nns pfa))"
    using nn_docs_ok [of L mc nns pfa] by (auto simp: list_all_iff str_def)
  ultimately show ?thesis
    using written_member [OF assms, of "MObjs (str ''n'') (nn_docs L mc nns pfa)"] by (simp add: putnodes_fold)
qed

lemma putnodes_snk_valid:
  "fold (putnodes_snk L mc tn) nns so = Some s \<Longrightarrow> (\<forall>s. so = Some s \<longrightarrow> snk_valid s) \<Longrightarrow> snk_valid s"
proof (induction nns arbitrary: so)
  case (Cons nn nns)
  have "snk_valid s'" if "putnodes_snk L mc tn nn so = Some s'" for s'
    using that Cons.prems(2)
    by (cases "nn_source nn") (auto simp: putnodes_snk_def bind_eq_Some_conv intro: snk_add_core_valid)
  then show ?case using Cons by simp
qed simp

end
