(* ===== verification/Api_Calls.thy ===== *)
theory Api_Calls
  imports Command_Texts
begin

text \<open>
  All commands of \<open>src/commands.cpp\<close> as one type of calls: the constructor each runs, its opcode and
  its arguments as a JSON document, and the text it puts on the wire.
\<close>

section \<open>All commands\<close>

datatype api_call =
    PutFA nat | GetFA handle | AttachFA handle nat handle int | PutFile int int | GetFile handle bool
  | SetAttr node | PutNodes handle "bytes option" "newnode list" int fa_map | MoveNode handle handle | DelNode handle
  | ShareKeyUpdate handle bytes bytes | ShareKeyUpdates "handle list" | SetShare bytes handle "user option" int bool
  | NodeKeyUpdate "handle list" | SingleKeyCR handle handle bytes | KeyCR "handle list" "handle list" "json_value list" | PubKeyRequest user
  | Login "bytes option" u64 | EnumerateQuotaItems | PurchaseAddItem | PurchaseCheckout int | UserRequest bytes int
  | PutUA bytes bytes | GetUA bytes bytes | GetUserQuota bool bool bool | GetUserTransactions | GetUserPurchases
  | GetUserSessions | SetPH handle bool | GetPH handle | SetMasterKey bytes bytes u64 | CreateEphemeralSession bytes bytes
  | ResumeEphemeralSession handle int | SendSignupLink bytes bytes bytes | QuerySignupLink bytes | ConfirmSignupLink bytes u64
  | SetKeyPair bytes bytes | FetchNodes

primrec construct :: "libs \<Rightarrow> nat \<Rightarrow> megaclient \<Rightarrow> api_call \<Rightarrow> command option" where
  "construct L k mc (PutFA n) = Some (CommandPutFA mc n)"
| "construct L k mc (GetFA h) = Some (CommandGetFA h)"
| "construct L k mc (AttachFA nh t ah ctag) = Some (CommandAttachFA nh t ah ctag)"
| "construct L k mc (PutFile s ms) = Some (CommandPutFile s ms)"
| "construct L k mc (GetFile h p) = Some (CommandGetFile h p)"
| "construct L k mc (SetAttr n) = Some (CommandSetAttr (lib_aes L) mc n)"
| "construct L k mc (PutNodes th u nn ctag pfa) = map_option fst (CommandPutNodes (lib_aes L) mc th u nn ctag pfa)"
| "construct L k mc (MoveNode n t) = CommandMoveNode (lib_aes L) k mc n t"
| "construct L k mc (DelNode h) = Some (CommandDelNode mc h)"
| "construct L k mc (ShareKeyUpdate sh uid key) = Some (CommandShareKeyUpdate sh uid key)"
| "construct L k mc (ShareKeyUpdates v) = Some (CommandShareKeyUpdates (lib_aes L) mc v)"
| "construct L k mc (SetShare pad sh u a new) = CommandSetShare L k pad mc sh u a new"
| "construct L k mc (NodeKeyUpdate v) = Some (CommandNodeKeyUpdate (lib_aes L) mc v)"
| "construct L k mc (SingleKeyCR sh nh key) = Some (CommandSingleKeyCR sh nh key)"
| "construct L k mc (KeyCR rs rn vs) = Some (CommandKeyCR rs rn (sep (map pr vs)))"
| "construct L k mc (PubKeyRequest u) = Some (CommandPubKeyRequest mc u)"
| "construct L k mc (Login e h) = Some (CommandLogin mc e h)"
| "construct L k mc EnumerateQuotaItems = Some (CommandEnumerateQuotaItems mc)"
| "construct L k mc PurchaseAddItem = Some CommandPurchaseAddItem"
| "construct L k mc (PurchaseCheckout g) = Some (fst (CommandPurchaseCheckout mc g))"
| "construct L k mc (UserRequest m v) = Some (CommandUserRequest mc m v)"
| "construct L k mc (PutUA an av) = Some (CommandPutUA mc an av)"
| "construct L k mc (GetUA uid an) = Some (CommandGetUA mc uid an)"
| "construct L k mc (GetUserQuota s t p) = Some (CommandGetUserQuota mc s t p)"
| "construct L k mc GetUserTransactions = Some (CommandGetUserTransactions mc)"
| "construct L k mc GetUserPurchases = Some (CommandGetUserPurchases mc)"
| "construct L k mc GetUserSessions = Some (CommandGetUserSessions mc)"
| "construct L k mc (SetPH h del) = Some (CommandSetPH mc h del)"
| "construct L k mc (GetPH h) = Some (CommandGetPH mc h)"
| "construct L k mc (SetMasterKey ok nk h) = Some (CommandSetMasterKey mc ok nk h)"
| "construct L k mc (CreateEphemeralSession key ssc) = Some (CommandCreateEphemeralSession mc key ssc)"
| "construct L k mc (ResumeEphemeralSession uh ctag) = Some (CommandResumeEphemeralSession uh ctag)"
| "construct L k mc (SendSignupLink e n c) = Some (CommandSendSignupLink mc e n c)"
| "construct L k mc (QuerySignupLink code) = Some (CommandQuerySignupLink mc code)"
| "construct L k mc (ConfirmSignupLink code h) = Some (CommandConfirmSignupLink mc code h)"
| "construct L k mc (SetKeyPair prk puk) = Some (CommandSetKeyPair mc prk puk)"
| "construct L k mc FetchNodes = Some (CommandFetchNodes mc)"

primrec opcode :: "api_call \<Rightarrow> string" where
  "opcode (PutFA n) = ''ufa''"
| "opcode (GetFA h) = ''ufa''"
| "opcode (AttachFA nh t ah ctag) = ''pfa''"
| "opcode (PutFile s ms) = ''u''"
| "opcode (GetFile h p) = ''g''"
| "opcode (SetAttr n) = ''a''"
| "opcode (PutNodes th u nn ctag pfa) = ''p''"
| "opcode (MoveNode n t) = ''m''"
| "opcode (DelNode h) = ''d''"
| "opcode (SetShare pad sh u a new) = ''s''"
| "opcode (PubKeyRequest u) = ''uk''"
| "opcode (Login e h) = ''us''"
| "opcode EnumerateQuotaItems = ''utqa''"
| "opcode PurchaseAddItem = ''uts''"
| "opcode (PurchaseCheckout g) = ''utc''"
| "opcode (UserRequest m v) = ''ur''"
| "opcode (GetUA uid an) = ''uga''"
| "opcode (GetUserQuota s t p) = ''uq''"
| "opcode GetUserTransactions = ''utt''"
| "opcode GetUserPurchases = ''utp''"
| "opcode GetUserSessions = ''usl''"
| "opcode (SetPH h del) = ''l''"
| "opcode (GetPH h) = ''g''"
| "opcode (ResumeEphemeralSession uh ctag) = ''us''"
| "opcode (SendSignupLink e n c) = ''uc''"
| "opcode (QuerySignupLink code) = ''ud''"
| "opcode FetchNodes = ''f''"
| "opcode (ShareKeyUpdate sh uid key) = ''k''"
| "opcode (ShareKeyUpdates v) = ''k''"
| "opcode (NodeKeyUpdate v) = ''k''"
| "opcode (SingleKeyCR sh nh key) = ''k''"
| "opcode (KeyCR rs rn vs) = ''k''"
| "opcode (PutUA an av) = ''up''"
| "opcode (SetMasterKey ok nk h) = ''up''"
| "opcode (CreateEphemeralSession key ssc) = ''up''"
| "opcode (ConfirmSignupLink code h) = ''up''"
| "opcode (SetKeyPair prk puk) = ''up''"

abbreviation (input) jbin :: "bytes \<Rightarrow> json_value" where "jbin d \<equiv> JStr (btoa d)"
abbreviation (input) jnode :: "handle \<Rightarrow> json_value" where "jnode h \<equiv> JStr (btoa (le_bytes 6 h))"
abbreviation (input) juser :: "handle \<Rightarrow> json_value" where "juser h \<equiv> JStr (btoa (le_bytes 8 h))"
abbreviation (input) jint :: "int \<Rightarrow> json_value" where "jint n \<equiv> JNum (dec_int n)"

definition self :: "megaclient \<Rightarrow> (bytes \<times> json_value) list" where
  "self mc = [(str ''i'', JStr (mc_sessionid mc))]"

definition sharekey_items :: "aes \<Rightarrow> megaclient \<Rightarrow> handle \<Rightarrow> citem list" where
  "sharekey_items L mc h =
     (case nodebyhandle mc h of
        None \<Rightarrow> []
      | Some n \<Rightarrow>
          (case n_sharekey n of
             None \<Rightarrow> []
           | Some k \<Rightarrow> [EHandle h 6, EHandle (mc_me mc) 8, EBin (ecb_encrypt L (mc_key mc) (sk_key k))]))"

definition nodekey_items :: "aes \<Rightarrow> megaclient \<Rightarrow> handle \<Rightarrow> citem list" where
  "nodekey_items L mc h =
     (case nodebyhandle mc h of
        None \<Rightarrow> []
      | Some n \<Rightarrow> [EHandle h 6, EBin (ecb_encrypt L (mc_key mc) (n_nodekey n))])"

definition share_members :: "libs \<Rightarrow> bytes \<Rightarrow> megaclient \<Rightarrow> handle \<Rightarrow> user option \<Rightarrow> int \<Rightarrow> (bytes \<times> json_value) list" where
  "share_members L pad mc sh u a =
     (let sharekey = (case nodebyhandle mc sh of Some n \<Rightarrow> (case n_sharekey n of Some s \<Rightarrow> sk_key s | None \<Rightarrow> []) | None \<Rightarrow> []);
          entry = [(str ''u'', JStr (case u of Some us \<Rightarrow> u_uid us | None \<Rightarrow> str ''EXP''))] @
            (if a \<noteq> -1 then [(str ''r'', jint a)] @
               (case u of
                  Some us \<Rightarrow> [(str ''k'', jbin (case asymm_encrypt (lib_big L) (u_pubk us) sharekey pad 1026 of Some b \<Rightarrow> b | None \<Rightarrow> []))]
                | None \<Rightarrow> []) else [])
      in [(str ''n'', jnode sh)] @
         (if a \<noteq> -1 then
            [(str ''ok'', jbin (ecb_encrypt (lib_aes L) (mc_key mc) sharekey)),
             (str ''ha'', jbin (handleauth (lib_aes L) (mc_key mc) sh))] else []) @
         [(str ''s'', JArr [JObj entry])])"

text \<open>The arguments of a call, except for a \<open>cr\<close> with share keys.\<close>

primrec params :: "libs \<Rightarrow> megaclient \<Rightarrow> api_call \<Rightarrow> (bytes \<times> json_value) list" where
  "params L mc (PutFA n) = [(str ''s'', jint (int n))]"
| "params L mc (GetFA h) = [(str ''fah'', juser h)]"
| "params L mc (AttachFA nh t ah ctag) = [(str ''n'', jnode nh), (str ''fa'', JStr (dec_nat t @ str ''*'' @ btoa (le_bytes 8 ah)))]"
| "params L mc (PutFile s ms) = [(str ''s'', jint s), (str ''ms'', jint ms)]"
| "params L mc (GetFile h p) = [(if p then str ''n'' else str ''p'', jnode h), (str ''g'', jint 1)]"
| "params L mc (SetAttr n) = self mc @ [(str ''n'', jnode (n_handle n)), (str ''at'', jbin (makeattr (lib_aes L) (n_key n) (getjson (n_attrs n))))]"
| "params L mc (PutNodes th u nn ctag pfa) = self mc @
     [(str ''t'', case u of Some x \<Rightarrow> JStr x | None \<Rightarrow> jnode th), member_json (MObjs (str ''n'') (nn_docs (lib_aes L) mc nn pfa))]"
| "params L mc (MoveNode n t) = self mc @ [(str ''n'', jnode n), (str ''t'', jnode t)]"
| "params L mc (DelNode h) = self mc @ [(str ''n'', jnode h)]"
| "params L mc (ShareKeyUpdate sh uid key) = [(str ''sr'', JArr [jnode sh, jbin uid, jbin key])]"
| "params L mc (ShareKeyUpdates v) = [(str ''sr'', JArr (map item_json (concat (map (sharekey_items (lib_aes L) mc) (rev v)))))]"
| "params L mc (SetShare pad sh u a new) = share_members L pad mc sh u a"
| "params L mc (NodeKeyUpdate v) = [(str ''nk'', JArr (map item_json (concat (map (nodekey_items (lib_aes L) mc) (rev v)))))]"
| "params L mc (SingleKeyCR sh nh key) = [(str ''cr'', JArr [JArr [jnode sh], JArr [jnode nh], JArr [jint 0, jint 0, jbin key]])]"
| "params L mc (KeyCR rs rn vs) = [(str ''cr'', JArr [JArr (map jnode rs), JArr (map jnode rn), JArr vs])]"
| "params L mc (PubKeyRequest u) = [(str ''u'', JStr (u_uid u))]"
| "params L mc (Login e h) =
     (case e of Some x \<Rightarrow> [(str ''user'', JStr x), (str ''uh'', juser h)] | None \<Rightarrow> []) @
     (if mc_cachedscsn mc \<noteq> UNDEF then [(str ''sn'', juser (mc_cachedscsn mc))] else [])"
| "params L mc EnumerateQuotaItems = []"
| "params L mc PurchaseAddItem = []"
| "params L mc (PurchaseCheckout g) = [(str ''s'', JArr (map juser (mc_purchase_basket mc))), (str ''m'', jint g)]"
| "params L mc (UserRequest m v) = [(str ''u'', JStr m), (str ''l'', jint v)]"
| "params L mc (PutUA an av) = [(an, jbin av)]"
| "params L mc (GetUA uid an) = [(str ''u'', JStr uid), (str ''ua'', JStr an)]"
| "params L mc (GetUserQuota s t p) =
     (if s then [(str ''strg'', JNum (str ''1''))] else []) @ (if t then [(str ''xfer'', JNum (str ''1''))] else []) @
     (if p then [(str ''pro'', JNum (str ''1''))] else [])"
| "params L mc GetUserTransactions = []"
| "params L mc GetUserPurchases = []"
| "params L mc GetUserSessions = []"
| "params L mc (SetPH h del) = [(str ''n'', jnode h)] @ (if del then [(str ''d'', jint 1)] else [])"
| "params L mc (GetPH h) = [(str ''p'', jnode h)]"
| "params L mc (SetMasterKey ok nk h) = [(str ''currk'', jbin (take 16 ok)), (str ''k'', jbin (take 16 nk)), (str ''uh'', juser h)]"
| "params L mc (CreateEphemeralSession key ssc) = [(str ''k'', jbin (take 16 key)), (str ''ts'', jbin (take 32 ssc))]"
| "params L mc (ResumeEphemeralSession uh ctag) = [(str ''user'', juser uh)]"
| "params L mc (SendSignupLink e n c) = [(str ''c'', jbin (take 32 c)), (str ''n'', jbin n), (str ''m'', jbin e)]"
| "params L mc (QuerySignupLink code) = [(str ''c'', jbin code)]"
| "params L mc (ConfirmSignupLink code h) = [(str ''c'', jbin code), (str ''uh'', juser h)]"
| "params L mc (SetKeyPair prk puk) = [(str ''privk'', jbin prk), (str ''pubk'', jbin puk)]"
| "params L mc FetchNodes = [(str ''c'', JNum (str ''1'')), (str ''r'', JNum (str ''1''))]"

text \<open>The strings that a constructor copies unescaped into the text, and the key elements handed to \<open>CommandKeyCR\<close> as text.\<close>

definition call_ok :: "api_call \<Rightarrow> bool" where
  "call_ok call \<longleftrightarrow>
     (case call of
        PutNodes th u nn ctag pfa \<Rightarrow> (case u of Some x \<Rightarrow> str_ok False x | None \<Rightarrow> True)
      | SetShare pad sh u a new \<Rightarrow> (case u of Some us \<Rightarrow> str_ok False (u_uid us) | None \<Rightarrow> True)
      | PubKeyRequest u \<Rightarrow> str_ok False (u_uid u)
      | Login e h \<Rightarrow> (case e of Some x \<Rightarrow> str_ok False x | None \<Rightarrow> True)
      | UserRequest m v \<Rightarrow> str_ok False m
      | PutUA an av \<Rightarrow> str_ok False an
      | GetUA uid an \<Rightarrow> str_ok False uid \<and> str_ok False an
      | KeyCR rs rn vs \<Rightarrow> list_all wf_json vs
      | _ \<Rightarrow> True)"

text \<open>\<open>cr\<close>: the share keys, in the last place.\<close>

definition cr_only :: "(bytes \<times> json_value) list \<Rightarrow> bool" where
  "cr_only cr \<longleftrightarrow> set cr \<subseteq> {str ''cr''} \<times> UNIV \<and> length cr \<le> 1"

section \<open>The texts\<close>

lemma writtenI: "written op ms c \<Longrightarrow> ms = ms' \<Longrightarrow> written op ms' c"
  by simp

lemmas constructors =
  CommandPutFA_def CommandGetFA_def CommandAttachFA_def CommandPutFile_def CommandGetFile_def CommandSetAttr_def Let_def
  CommandDelNode_def CommandPubKeyRequest_def CommandEnumerateQuotaItems_def CommandPurchaseAddItem_def
  CommandUserRequest_def CommandPutUA_def CommandGetUA_def CommandLogin_def CommandGetUserQuota_def CommandSetPH_def
  CommandGetUserTransactions_def CommandGetUserPurchases_def CommandGetUserSessions_def CommandGetPH_def
  CommandSetMasterKey_def CommandCreateEphemeralSession_def CommandResumeEphemeralSession_def CommandSendSignupLink_def
  CommandQuerySignupLink_def CommandConfirmSignupLink_def CommandSetKeyPair_def CommandFetchNodes_def
  cmd_seq_def fold.simps id_apply comp_apply

text \<open>Constructors with arrays of elements.\<close>

lemma element_fold:
  assumes "\<And>x c. f x c = fold build_item (g x) c"
  shows "fold f xs c = fold build_item (concat (map g xs)) c"
  by (induction xs arbitrary: c) (simp_all add: assms)

lemma elements_written:
  assumes "written op ms c" "str_ok False k" "\<And>x c. f x c = fold build_item (g x) c"
  shows "written op (ms @ [(k, JArr (map item_json (concat (map g xs))))]) (endarray (fold f xs (beginarray_named k c)))"
  using written_elements [OF assms(1,2), of "concat (map g xs)"] element_fold [of f g xs "beginarray_named k c"] assms(3) by simp

lemma sharekeyupdate_written:
  "written (str ''k'') [(str ''sr'', JArr [jnode sh, jbin uid, jbin key])] (CommandShareKeyUpdate sh uid key)"
  using written_elements [OF written_cmd, of "str ''k''" "str ''sr''" "[EHandle sh 6, EBin uid, EBin key]"]
  by (simp add: CommandShareKeyUpdate_def cmd_seq_def str_def)

lemma sharekeyupdates_written:
  "written (str ''k'') [(str ''sr'', JArr (map item_json (concat (map (sharekey_items L mc) (rev v)))))] (CommandShareKeyUpdates L mc v)"
  using elements_written [OF written_cmd, of "str ''k''" "str ''sr''" "sharekey_elements L mc" "sharekey_items L mc" "rev v"]
  by (simp add: CommandShareKeyUpdates_def cmd_seq_def str_def sharekey_elements_def sharekey_items_def split: option.splits)

lemma nodekeyupdate_written:
  "written (str ''k'') [(str ''nk'', JArr (map item_json (concat (map (nodekey_items L mc) (rev v)))))] (CommandNodeKeyUpdate L mc v)"
  using elements_written [OF written_cmd, of "str ''k''" "str ''nk''" "nodekey_elements L mc" "nodekey_items L mc" "rev v"]
  by (simp add: CommandNodeKeyUpdate_def cmd_seq_def str_def nodekey_elements_def nodekey_items_def split: option.splits)

lemma purchasecheckout_written:
  "written (str ''utc'') [(str ''s'', JArr (map juser (mc_purchase_basket mc))), (str ''m'', jint g)] (fst (CommandPurchaseCheckout mc g))"
proof -
  have "written (str ''utc'') ([] @ [(str ''s'', JArr (map item_json (concat (map (\<lambda>h. [EBin (le_bytes 8 h)]) (mc_purchase_basket mc)))))])
      (endarray (fold (\<lambda>h. element_bin (le_bytes 8 h)) (mc_purchase_basket mc) (beginarray_named (str ''s'') (cmd_cmd (str ''utc'') new_command))))"
    by (rule elements_written [OF written_cmd]) (simp_all add: str_def)
  from written_tag(1) [OF written_args(2) [OF this, of "str ''m''" g], of "mc_reqtag mc"] show ?thesis
    by (simp add: CommandPurchaseCheckout_def cmd_seq_def str_def comp_def)
qed

text \<open>Three arrays under \<open>cr\<close>.\<close>

lemma item_array:
  assumes "flat c 1"
  shows "cmd_json (endarray (fold build_item es (beginarray c))) = cmd_json c @ comma (cmd_json c) @ pr (JArr (map item_json es))"
    and "flat (endarray (fold build_item es (beginarray c))) d = flat c d"
    and "comma (cmd_json (endarray (fold build_item es (beginarray c)))) = [ch_comma]"
proof -
  let ?c = "endarray (fold build_item es (beginarray c))"
  show j: "cmd_json ?c = cmd_json c @ comma (cmd_json c) @ pr (JArr (map item_json es))"
    and "flat ?c d = flat c d"
    using build_items [OF beginarray_opened(1) [OF assms], of es] beginarray_opened [OF assms] assms
    by (simp_all add: endarray_def closeobject_def comp_def flat_def)
  show "comma (cmd_json ?c) = [ch_comma]"
    unfolding j append_assoc [symmetric] by (rule comma_rbrack)
qed

lemma level_of_build_item [simp]: "level_of (build_item it c) = level_of c"
  by (cases it) simp_all

lemma apsnd_inc [simp]: "apsnd (\<lambda>i. i - 1) (apsnd (\<lambda>i. i + 1) x) = x" for x :: "nat \<times> int"
  by (cases x) simp

lemma cr_written:
  fixes as bs :: "citem list"
  assumes w: "written op ms c" and k: "str_ok False k" and vs: "list_all wf_json vs"
    and c2: "c2 = endarray (fold build_item bs (beginarray (endarray (fold build_item as (beginarray (beginarray_named k c))))))"
    and c3: "\<And>c. flat c 1 \<Longrightarrow> cmd_json (f c) = cmd_json c @ comma (cmd_json c) @ pr (JArr vs)" "\<And>c. level_of (f c) = level_of c"
  shows "written op (ms @ [(k, JArr [JArr (map item_json as), JArr (map item_json bs), JArr vs])]) (endarray (f c2))"
proof (rule written_one [OF w k])
  define c0 where "c0 = beginarray_named k c"
  define c1 where "c1 = endarray (fold build_item as (beginarray c0))"
  have f: "flat c 1" "flat c 3" using written_flat [OF w] by simp_all
  note b0 = beginarray_named_opened [OF f(1), of k, folded c0_def]
  have f0: "flat c0 1" "flat c0 2" using b0 f(2) by (simp_all add: flat_def opened_def)
  note a1 = item_array [OF f0(1), of as, folded c1_def]
  have f1: "flat c1 1" using a1(2) f0 by simp
  have c2': "c2 = endarray (fold build_item bs (beginarray c1))" by (simp add: c2 c1_def c0_def)
  note a2 = item_array [OF f1, of bs, folded c2']
  have f2: "flat c2 1" using a2(2) f1 by simp
  have k0: "comma (cmd_json c0) = []"
    using comma_simps(2) [of "cmd_json c @ comma (cmd_json c) @ pr_str k @ [ch_colon]"] b0(3) by simp
  show "cmd_json (endarray (f c2)) = cmd_json c @ comma (cmd_json c) @
      pr_member (k, JArr [JArr (map item_json as), JArr (map item_json bs), JArr vs])"
    using a1(1,3) a2(1,3) b0(3) k0 c3(1) [OF f2] by (simp add: endarray_def closeobject_def pr_member_def)
  have "level_of (endarray (f c2)) = level_of c" by (simp add: c2 c3(2))
  then show "length (cmd_levels (endarray (f c2))) = 8" "cmd_level (endarray (f c2)) = cmd_level c"
    using w by (simp_all add: level_of_def written_def)
  have "wf_json (item_json it)" for it by (cases it) (simp_all add: num_ok_dec_int str_ok_btoa)
  then show "wf_json (JArr [JArr (map item_json as), JArr (map item_json bs), JArr vs])"
    using vs by (simp add: list_all_iff)
qed

lemma element_handle_item: "(\<lambda>h. element_handle h n) = build_item \<circ> (\<lambda>h. EHandle h n)"
  by (simp add: fun_eq_iff)

lemma singlekeycr_written:
  "written (str ''k'') [(str ''cr'', JArr [JArr [jnode sh], JArr [jnode nh], JArr [jint 0, jint 0, jbin key]])] (CommandSingleKeyCR sh nh key)"
proof -
  have "written (str ''k'') ([] @ [(str ''cr'', JArr [JArr (map item_json [EHandle sh 6]), JArr (map item_json [EHandle nh 6]),
      JArr (map item_json [EInt 0, EInt 0, EBin key])])])
    (endarray (endarray (fold build_item [EInt 0, EInt 0, EBin key] (beginarray (endarray (fold build_item [EHandle nh 6] (beginarray
      (endarray (fold build_item [EHandle sh 6] (beginarray (beginarray_named (str ''cr'') (cmd_cmd (str ''k'') new_command))))))))))))"
    by (rule cr_written [OF written_cmd _ _ refl, where f = "\<lambda>c. endarray (fold build_item [EInt 0, EInt 0, EBin key] (beginarray c))"])
      (rule item_array(1) | simp add: str_def num_ok_dec_int str_ok_btoa)+
  then show ?thesis by (simp add: CommandSingleKeyCR_def cmd_seq_def)
qed

lemma keycr_written:
  assumes "keys = sep (map pr vs)" "list_all wf_json vs"
  shows "written (str ''k'') [(str ''cr'', JArr [JArr (map jnode rs), JArr (map jnode rn), JArr vs])] (CommandKeyCR rs rn keys)"
proof -
  have "0 \<notin> set keys" unfolding assms(1) by (rule sep_no_nul) (use assms(2) pr_no_nul in \<open>auto simp: list_all_iff\<close>)
  then have "takeWhile (\<lambda>x. x \<noteq> 0) keys = keys" by (auto simp: takeWhile_eq_all_conv)
  then have a: "appendraw keys = append_json keys" by (intro ext) (simp only: appendraw_def)
  have "written (str ''k'') ([] @ [(str ''cr'', JArr [JArr (map item_json (map (\<lambda>h. EHandle h 6) rs)),
      JArr (map item_json (map (\<lambda>h. EHandle h 6) rn)), JArr vs])])
    (endarray (endarray (append_json keys (beginarray (endarray (fold build_item (map (\<lambda>h. EHandle h 6) rn) (beginarray
      (endarray (fold build_item (map (\<lambda>h. EHandle h 6) rs) (beginarray (beginarray_named (str ''cr'') (cmd_cmd (str ''k'') new_command))))))))))))"
    by (rule cr_written [OF written_cmd _ _ refl, where f = "\<lambda>c. endarray (append_json keys (beginarray c))"])
      (simp_all add: str_def assms(2), simp add: assms(1) endarray_def closeobject_def beginarray_opened(3))
  then show ?thesis by (simp add: CommandKeyCR_def cmd_seq_def a element_handle_item fold_map comp_def)
qed

section \<open>Commands with share keys\<close>

lemma written_session [simp]: "str_ok False (mc_sessionid mc) \<Longrightarrow> written op ms c \<Longrightarrow> written op (ms @ self mc) (notself mc c)"
  by (simp add: self_def written_notself)

lemma written_snk_tag:
  assumes "written op ms c" "snk_valid s"
  shows "\<exists>cr. cr_only cr \<and> written op (ms @ cr) (set_tag t (snk_get s c))"
  using written_snk [OF assms] by (auto simp: cr_only_def intro: written_tag(1))

lemma movenode_written:
  assumes "str_ok False (mc_sessionid mc)" "CommandMoveNode L k mc n t = Some c"
  shows "\<exists>cr. cr_only cr \<and> written (str ''m'') (self mc @ [(str ''n'', jnode n), (str ''t'', jnode t)] @ cr) c"
proof -
  obtain s where s: "tree_snk L k mc None n = Some s"
    and c: "c = set_tag (mc_reqtag mc) (snk_get s (arg_node (str ''t'') t (arg_node (str ''n'') n (notself mc (cmd_cmd (str ''m'') new_command)))))"
    using assms(2) by (auto simp: CommandMoveNode_def cmd_seq_def)
  have "written (str ''m'') ((([] @ self mc) @ [(str ''n'', jnode n)]) @ [(str ''t'', jnode t)])
      (arg_node (str ''t'') t (arg_node (str ''n'') n (notself mc (cmd_cmd (str ''m'') new_command))))"
    by (intro written_args written_session written_cmd assms) (simp_all add: str_def)
  from written_snk_tag [OF this tree_snk_valid [OF s]] show ?thesis by (simp add: c)
qed

lemma putnodes_written:
  assumes "str_ok False (mc_sessionid mc)" "case u of Some x \<Rightarrow> str_ok False x | None \<Rightarrow> True"
    and "CommandPutNodes L mc th u nns ctag pfa = Some (c, pfa')"
  shows "\<exists>cr. cr_only cr \<and> written (str ''p'') (self mc @ [(str ''t'', case u of Some x \<Rightarrow> JStr x | None \<Rightarrow> jnode th),
    member_json (MObjs (str ''n'') (nn_docs L mc nns pfa))] @ cr) c"
proof -
  define c1 where "c1 = (case u of Some x \<Rightarrow> arg_str (str ''t'') x True | None \<Rightarrow> arg_node (str ''t'') th) (notself mc (cmd_cmd (str ''p'') new_command))"
  define c2 where "c2 = endarray (fst (fold (putnodes_node L mc) nns (beginarray_named (str ''n'') c1, pfa)))"
  have "written (str ''p'') ([] @ self mc) (notself mc (cmd_cmd (str ''p'') new_command))"
    by (intro written_session written_cmd assms) (simp add: str_def)
  then have "written (str ''p'') (([] @ self mc) @ [(str ''t'', case u of Some x \<Rightarrow> JStr x | None \<Rightarrow> jnode th)]) c1"
    using assms(2) by (auto simp: c1_def str_def written_args split: option.splits)
  note w = written_nodes [OF this, of L mc nns pfa, folded c2_def]
  obtain c1' p' where ff: "fold (putnodes_node L mc) nns (beginarray_named (str ''n'') c1, pfa) = (c1', p')" by fastforce
  have seq: "cmd_seq [cmd_cmd (str ''p''), notself mc,
            (case u of Some u \<Rightarrow> arg_str (str ''t'') u True | None \<Rightarrow> arg_node (str ''t'') th),
            beginarray_named (str ''n'')] = beginarray_named (str ''n'') c1"
    by (simp add: cmd_seq_def c1_def)
  have main: "CommandPutNodes L mc th u nns ctag pfa =
      (if u = None \<and> nodebyhandle mc th \<noteq> None then
         map_option (\<lambda>s. (set_tag ctag (snk_get s c2), p')) (fold (putnodes_snk L mc th) nns (Some snk_empty))
       else Some (set_tag ctag c2, p'))"
    by (simp only: CommandPutNodes_def seq ff Let_def prod.case c2_def fst_conv)
  show ?thesis
  proof (cases "u = None \<and> nodebyhandle mc th \<noteq> None")
    case True
    then obtain s where s: "fold (putnodes_snk L mc th) nns (Some snk_empty) = Some s" and c: "c = set_tag ctag (snk_get s c2)"
      using assms(3) unfolding main by auto
    have "snk_valid s" using putnodes_snk_valid [OF s] snk_valid_empty by simp
    from written_snk_tag [OF w this] show ?thesis by (simp add: c)
  next
    case False
    then have "c = set_tag ctag c2" using assms(3) unfolding main by auto
    then show ?thesis using written_tag(1) [OF w] by (intro exI [of _ "[]"]) (simp add: cr_only_def)
  qed
qed

lemma written_fold:
  "written op ms c \<Longrightarrow> list_all (\<lambda>m. member_ok m \<and> depth m \<le> 8) ds \<Longrightarrow>
   written op (ms @ map member_json ds) (fold build_member ds c)"
proof (induction ds arbitrary: ms c)
  case (Cons d ds)
  then show ?case using Cons.IH [OF written_member [OF Cons.prems(1)], of d] by simp
qed simp

lemma setshare_written:
  assumes "case u of Some us \<Rightarrow> str_ok False (u_uid us) | None \<Rightarrow> True" and "CommandSetShare L k pad mc sh u a new = Some c"
  shows "\<exists>cr. cr_only cr \<and> written (str ''s'') (share_members L pad mc sh u a @ cr) c"
proof -
  obtain n where n: "nodebyhandle mc sh = Some n" using assms(2) by (auto simp: CommandSetShare_def split: option.splits)
  define key where "key = (case n_sharekey n of Some s \<Rightarrow> sk_key s | None \<Rightarrow> [])"
  obtain asymmkey where ak: "(case u of
             Some us \<Rightarrow> if a \<noteq> -1 then asymm_encrypt (lib_big L) (u_pubk us) key pad 1026 else Some []
           | None \<Rightarrow> Some []) = Some asymmkey"
    using assms(2) n by (auto simp: CommandSetShare_def Let_def key_def split: option.splits if_splits)
  define entry where "entry = [MStr (str ''u'') (case u of Some us \<Rightarrow> u_uid us | None \<Rightarrow> str ''EXP'')] @
      (if a \<noteq> -1 then [MInt (str ''r'') a] @ (if u \<noteq> None then [MBin (str ''k'') asymmkey] else []) else [])"
  define ds where "ds = [MBin (str ''n'') (le_bytes 6 sh)] @
      (if a \<noteq> -1 then [MBin (str ''ok'') (ecb_encrypt (lib_aes L) (mc_key mc) key), MBin (str ''ha'') (handleauth (lib_aes L) (mc_key mc) sh)] else []) @
      [MObjs (str ''s'') [entry]]"
  define c5 where "c5 = set_tag (mc_restag mc) (fold build_member ds (cmd_cmd (str ''s'') new_command))"
  have c: "(if new then map_option (\<lambda>s. snk_get s c5) (tree_snk (lib_aes L) k mc (Some sh) sh) else Some c5) = Some c"
  proof -
    have "a = -1 \<or> n_sharekey n \<noteq> None" using assms(2) by (cases "a = -1 \<or> n_sharekey n \<noteq> None") (simp_all add: CommandSetShare_def n)
    then have "CommandSetShare L k pad mc sh u a new =
        (if new then map_option (\<lambda>s. snk_get s c5) (tree_snk (lib_aes L) k mc (Some sh) sh) else Some c5)"
      using ak
      by (cases "a = -1"; cases u)
        (auto simp: CommandSetShare_def n Let_def c5_def ds_def entry_def cmd_seq_def arg_node_def key_def cong: if_cong)
    then show ?thesis using assms(2) by simp
  qed
  have w: "written (str ''s'') (share_members L pad mc sh u a) c5"
  proof -
    have "list_all (\<lambda>m. member_ok m \<and> depth m \<le> 8) ds"
      using assms(1) by (auto simp: ds_def entry_def str_def split: option.splits)
    from written_fold [OF written_cmd this, of "str ''s''"]
    have "written (str ''s'') (map member_json ds) c5" by (simp add: c5_def str_def written_tag)
    moreover have "map member_json ds = share_members L pad mc sh u a"
      using ak by (cases u; cases "a = -1"; simp add: ds_def entry_def share_members_def Let_def n flip: key_def)
    ultimately show ?thesis by simp
  qed
  show ?thesis
  proof (cases new)
    case True
    then obtain s where s: "tree_snk (lib_aes L) k mc (Some sh) sh = Some s" "c = snk_get s c5" using c by auto
    from written_snk [OF w tree_snk_valid [OF s(1)]] show ?thesis unfolding s(2) cr_only_def by blast
  next
    case False
    then show ?thesis using c w by (intro exI [of _ "[]"]) (simp add: cr_only_def)
  qed
qed

section \<open>Every command\<close>

lemma no_cr: "written op ms c \<Longrightarrow> \<exists>cr. cr_only cr \<and> written op (ms @ cr) c"
  by (intro exI [of _ "[]"]) (simp add: cr_only_def)

lemma login_written:
  assumes "case e of Some x \<Rightarrow> str_ok False x | None \<Rightarrow> True"
  shows "written (str ''us'') (params L mc (Login e h)) (CommandLogin mc e h)"
  using assms
  by (cases e; cases "mc_cachedscsn mc \<noteq> UNDEF")
    (simp_all add: constructors del: append.simps, (rule writtenI, (rule written_intros)+; simp add: str_def)+)

lemma quota_written: "written (str ''uq'') (params L mc (GetUserQuota s t p)) (CommandGetUserQuota mc s t p)"
  by (cases s; cases t; cases p)
    (simp_all add: constructors del: append.simps, (rule writtenI, (rule written_intros)+; simp add: str_def)+)

lemma setph_written: "written (str ''l'') (params L mc (SetPH h del)) (CommandSetPH mc h del)"
  by (cases del)
    (simp_all add: constructors del: append.simps, (rule writtenI, (rule written_intros)+; simp add: str_def)+)

text \<open>The calls whose arguments have no share keys.\<close>

definition keyless :: "api_call \<Rightarrow> bool" where
  "keyless call \<longleftrightarrow> (case call of PutNodes th u nn ctag pfa \<Rightarrow> False | MoveNode n t \<Rightarrow> False | SetShare pad sh u a new \<Rightarrow> False | _ \<Rightarrow> True)"

lemmas call_simps = construct.simps option.sel opcode.simps params.simps self_def append.simps

lemma construct_keyless:
  assumes "call_ok call" "str_ok False (mc_sessionid mc)" "keyless call"
  shows "written (str (opcode call)) (params L mc call) (the (construct L k mc call))"
proof (cases call)
  case (Login e h)
  then show ?thesis using assms login_written [of e L mc h] by (simp add: call_ok_def del: params.simps)
next
  case (KeyCR rs rn vs)
  then show ?thesis using assms keycr_written [OF refl, of vs rs rn] by (simp add: call_ok_def)
next
  case (GetUserQuota s t p)
  then show ?thesis using quota_written [of L mc s t p] by (simp del: params.simps)
next
  case (SetPH h del)
  then show ?thesis using setph_written [of L mc h del] by (simp del: params.simps)
next
  case (ShareKeyUpdate sh uid key)
  then show ?thesis using sharekeyupdate_written by simp
next
  case (ShareKeyUpdates v)
  then show ?thesis using sharekeyupdates_written by simp
next
  case (NodeKeyUpdate v)
  then show ?thesis using nodekeyupdate_written by simp
next
  case (SingleKeyCR sh nh key)
  then show ?thesis using singlekeycr_written by simp
next
  case (PurchaseCheckout g)
  then show ?thesis using purchasecheckout_written by simp
qed (insert assms, hypsubst, ((simp add: keyless_def; fail) |
     (unfold call_simps constructors, rule writtenI, (rule written_intros)+; simp add: str_def plain_ok call_ok_def)))+

lemma construct_written:
  assumes "construct L k mc call = Some c" "call_ok call" "str_ok False (mc_sessionid mc)"
  shows "\<exists>cr. cr_only cr \<and> written (str (opcode call)) (params L mc call @ cr) c"
proof (cases "keyless call")
  case True
  then show ?thesis using construct_keyless [OF assms(2,3), of L k] no_cr assms(1) by simp
next
  case False
  then consider th u nn ctag pfa where "call = PutNodes th u nn ctag pfa" | n t where "call = MoveNode n t"
    | pad sh u a new where "call = SetShare pad sh u a new"
    by (auto simp: keyless_def split: api_call.splits)
  then show ?thesis
  proof cases
    case (1 th u nn ctag pfa)
    then show ?thesis using assms putnodes_written [of mc u "lib_aes L" th nn ctag pfa] by (auto simp: call_ok_def)
  next
    case (2 n t)
    then show ?thesis using assms movenode_written [of mc "lib_aes L" k n t] by simp
  next
    case (3 pad sh u a new)
    then show ?thesis using assms setshare_written [of u L k pad mc sh a new] by (simp add: call_ok_def)
  qed
qed

text \<open>In a proper tree the walks for the share keys end.\<close>

lemma snk_add_core_returns:
  assumes "tree_ok mc" "nodebyhandle mc sn \<noteq> None"
  shows "snk_add_core L mc key nh sn sp item s \<noteq> None"
proof (cases sp)
  case True
  obtain n where "nodebyhandle mc sn = Some n" using assms(2) by blast
  then show ?thesis using True by (subst snk_add_core_def, subst snk_loop.simps) (simp add: Let_def split: option.splits)
next
  case False
  obtain hs where "path_up mc sn hs" using assms path_up_exists [of mc _ _ sn] by (auto simp: tree_ok_def)
  then show ?thesis using False snk_loop_path by (simp add: snk_add_core_def)
qed

lemma snk_add_returns:
  assumes "tree_ok mc" "nodebyhandle mc h \<noteq> None" "\<forall>p. sn = Some p \<longrightarrow> nodebyhandle mc p \<noteq> None"
  shows "snk_add L mc h sn sp s \<noteq> None"
  using assms snk_add_core_returns [OF assms(1)] by (auto simp: snk_add_def split: option.splits)

lemma postorder_nodes: "h' \<in> set (postorder k mc h) \<Longrightarrow> nodebyhandle mc h' \<noteq> None"
  by (induction k arbitrary: h) (auto split: option.splits dest: sym)

lemma tree_snk_returns:
  assumes l: "links_ok mc" and r: "ranked rk d mc" and h: "nodebyhandle mc h \<noteq> None" "d \<le> k"
    and sn: "\<forall>p. sn = Some p \<longrightarrow> nodebyhandle mc p \<noteq> None"
  shows "tree_snk L k mc sn h \<noteq> None"
proof -
  have t: "tree_ok mc" using l r by (auto simp: tree_ok_def)
  have f: "\<exists>s'. fold (treesharekeys L sn) hs (mc, Some s) = (mc, Some s')" if "\<forall>x \<in> set hs. nodebyhandle mc x \<noteq> None" for hs s
    using that
  proof (induction hs arbitrary: s)
    case (Cons x hs)
    obtain s1 where "snk_add L mc x sn (sn \<noteq> None) s = Some s1"
      using snk_add_returns [OF t, of x sn L "sn \<noteq> None" s] Cons.prems sn by auto
    then show ?case using Cons by (simp add: treesharekeys_def)
  qed simp
  have "proctree k fst (treesharekeys L sn) h (mc, Some snk_empty) =
      Some (fold (treesharekeys L sn) (postorder k mc h) (mc, Some snk_empty))"
    by (rule proctree_postorder [OF l r]) (use h in \<open>auto simp: treesharekeys_def same_tree_def [of mc mc]\<close>)
  then show ?thesis using f [of "postorder k mc h" snk_empty] postorder_nodes [of _ k mc h] by (force simp: tree_snk_def)
qed

section \<open>A batch of commands\<close>

definition call_json :: "libs \<Rightarrow> megaclient \<Rightarrow> api_call \<Rightarrow> (bytes \<times> json_value) list \<Rightarrow> json_value" where
  "call_json L mc call cr = JObj ((str ''a'', JStr (str (opcode call))) # params L mc call @ cr)"

lemma batch_text:
  assumes "list_all2 (\<lambda>call c. construct L k mc call = Some (fst c)) calls cs" "list_all call_ok calls" "str_ok False (mc_sessionid mc)"
  shows "\<exists>crs. list_all cr_only crs \<and> length crs = length calls \<and>
    req_get \<lparr>req_cmds = cs\<rparr> = pr (JArr (map2 (call_json L mc) calls crs)) \<and> list_all wf_json (map2 (call_json L mc) calls crs)"
proof -
  have "\<exists>crs. list_all cr_only crs \<and> length crs = length calls \<and>
    map (\<lambda>c. ch_lbrace # getstring (fst c) @ [ch_rbrace]) cs = map pr (map2 (call_json L mc) calls crs) \<and>
    list_all wf_json (map2 (call_json L mc) calls crs)"
    using assms(1,2)
  proof (induction calls cs rule: list_all2_induct)
    case (Cons call calls c cs)
    obtain cr where cr: "cr_only cr" "written (str (opcode call)) (params L mc call @ cr) (fst c)"
      using construct_written [OF Cons.hyps(1) _ assms(3)] Cons.prems by auto
    obtain crs where "list_all cr_only crs" "length crs = length calls"
      "map (\<lambda>c. ch_lbrace # getstring (fst c) @ [ch_rbrace]) cs = map pr (map2 (call_json L mc) calls crs)"
      "list_all wf_json (map2 (call_json L mc) calls crs)" using Cons by auto
    then show ?case
      using cr(1) written_text [OF cr(2)] by (intro exI [of _ "cr # crs"]) (simp add: call_json_def)
  qed simp
  then show ?thesis by (auto simp: req_get_def req_get_loop_sep)
qed

end
