(* ===== verification/Rsa.thy ===== *)
theory Rsa
  imports Asymm_Cipher
begin

text \<open>
  RSA as \<open>AsymmCipher\<close> of \<open>src/crypto/cryptopp.cpp\<close> uses it: \<open>genkeypair\<close>, and that \<open>rsadecrypt\<close> (two
  exponentiations and Garner's recombination) inverts \<open>rsaencrypt\<close>. The random primes are arguments: they
  stand for the result of \<open>MakeParametersForTwoPrimesOfEqualSize\<close> of the library, two primes of the same length; the results below hold for any two primes
  whose inverse \<open>u\<close> is right, those of the same length among them.
\<close>

definition genkeypair :: "bigint \<Rightarrow> nat \<Rightarrow> nat \<Rightarrow> nat list \<times> nat list" where
  "genkeypair B p q =
     (let e = 17; d = inverseMod B e (intLCM B (p - 1) (q - 1)) in
      ([p, q, d, inverseMod B p q], [p * q, e]))"

text \<open>\<open>RSAPrimeSelector::IsAcceptable\<close>, for the public exponent.\<close>

definition isAcceptable :: "nat \<Rightarrow> nat \<Rightarrow> bool" where
  "isAcceptable m_e candidate \<longleftrightarrow> coprime m_e (candidate - 1)"

section \<open>Primes\<close>

definition is_prime :: "nat \<Rightarrow> bool" where
  "is_prime p \<longleftrightarrow> 1 < p \<and> (\<forall>d \<in> set [2..<p]. p mod d \<noteq> 0)"

lemma is_prime_coprime:
  assumes p: "is_prime p" and "\<not> p dvd a"
  shows "coprime p a"
proof (rule ccontr)
  assume "\<not> coprime p a"
  then have ne: "gcd p a \<noteq> 1" by (simp add: coprime_iff_gcd_eq_1)
  have "1 < p" using p by (simp add: is_prime_def)
  then have "gcd p a \<le> p" "gcd p a \<noteq> 0" by (auto intro: dvd_imp_le)
  moreover have "gcd p a \<noteq> p" using assms(2) by (metis gcd_dvd2)
  ultimately have "2 \<le> gcd p a" "gcd p a < p" using ne by linarith+
  then have "gcd p a \<in> set [2..<p]" by simp
  then have "p mod gcd p a \<noteq> 0" using p unfolding is_prime_def by blast
  then show False by (simp add: mod_eq_0_iff_dvd)
qed

lemma is_prime_dvd_mult: "is_prime p \<Longrightarrow> p dvd a * b \<Longrightarrow> p dvd a \<or> p dvd b"
  using is_prime_coprime coprime_dvd_mult_right_iff by blast

lemma prime_dvd_choose:
  assumes p: "is_prime p" and "0 < k" "k < p"
  shows "p dvd (p choose k)"
proof -
  have "k * (p choose k) = p * ((p - 1) choose (k - 1))"
    using assms times_binomial_minus1_eq [of k p] by simp
  then have "p dvd k * (p choose k)" by simp
  moreover have "\<not> p dvd k" using assms by (auto dest: dvd_imp_le)
  ultimately show ?thesis using is_prime_dvd_mult [OF p] by blast
qed

text \<open>Fermat's little theorem, by the binomial theorem.\<close>

lemma fermat:
  assumes p: "is_prime p"
  shows "a ^ p mod p = a mod p"
proof (induction a)
  case 0
  then show ?case using p by (simp add: is_prime_def power_0_left)
next
  case (Suc a)
  have p1: "1 < p" using p by (simp add: is_prime_def)
  have "(a + 1) ^ p = (\<Sum>k\<le>p. (p choose k) * a ^ k)" using binomial [of a 1 p] by simp
  also have "{..p} = insert 0 (insert p {1..<p})" using p1 by auto
  also have "(\<Sum>k \<in> insert 0 (insert p {1..<p}). (p choose k) * a ^ k) = 1 + (a ^ p + (\<Sum>k \<in> {1..<p}. (p choose k) * a ^ k))"
    using p1 by (subst sum.insert, simp, simp, subst sum.insert) auto
  finally have eq: "(a + 1) ^ p = (\<Sum>k \<in> {1..<p}. (p choose k) * a ^ k) + (a ^ p + 1)" by simp
  have "p dvd (\<Sum>k \<in> {1..<p}. (p choose k) * a ^ k)"
    by (rule dvd_sum) (use prime_dvd_choose [OF p] in auto)
  then obtain z where "(\<Sum>k \<in> {1..<p}. (p choose k) * a ^ k) = p * z" by blast
  with eq have "(a + 1) ^ p mod p = (a ^ p + 1) mod p" by simp
  also have "\<dots> = (a ^ p mod p + 1) mod p" by (rule mod_add_left_eq [symmetric])
  also have "\<dots> = (a + 1) mod p" unfolding Suc.IH by (rule mod_add_left_eq)
  finally show ?case by simp
qed

lemma fermat_exp:
  assumes p: "is_prime p" and e: "0 < e" "e mod (p - 1) = 1 mod (p - 1)"
  shows "a ^ e mod p = a mod p"
proof -
  have step: "a ^ (1 + k * (p - 1)) mod p = a mod p" for k
  proof (induction k)
    case (Suc k)
    have "1 + Suc k * (p - 1) = (1 + k * (p - 1)) + (p - 1)" by simp
    then have "a ^ (1 + Suc k * (p - 1)) mod p = (a ^ (1 + k * (p - 1)) mod p) * a ^ (p - 1) mod p"
      by (simp only: power_add mod_mult_left_eq)
    also have "\<dots> = a * a ^ (p - 1) mod p" unfolding Suc.IH by (rule mod_mult_left_eq)
    also have "a * a ^ (p - 1) = a ^ p" using p by (cases p) (auto simp: is_prime_def)
    finally show ?case using fermat [OF p] by simp
  qed simp
  obtain k where "e = 1 + k * (p - 1)"
  proof -
    have "(p - 1) dvd e - 1" using e mod_eq_dvd_iff_nat [of 1 e "p - 1"] by auto
    then obtain k where "e - 1 = (p - 1) * k" by blast
    then have "e = 1 + k * (p - 1)" using e(1) by (simp add: mult.commute)
    then show ?thesis by (rule that)
  qed
  with step show ?thesis by simp
qed

section \<open>Decryption inverts encryption\<close>

definition rsa_key :: "nat list \<Rightarrow> nat list \<Rightarrow> bool" where
  "rsa_key pubk privk \<longleftrightarrow>
     (let p = privk ! 0; q = privk ! 1; d = privk ! 2; u = privk ! 3; e = pubk ! 1 in
      length privk = 4 \<and> is_prime p \<and> is_prime q \<and> p < q \<and> pubk ! 0 = p * q \<and> u * p mod q = 1 \<and>
      e * d mod (p - 1) = 1 mod (p - 1) \<and> e * d mod (q - 1) = 1 mod (q - 1) \<and> 2 < p)"

lemma rsadecrypt_total:
  assumes B: "bigint_ok B" and "1 < p" "p < q" "u * p mod q = 1"
  obtains r where "rsadecrypt B [p, q, d, u] c = Some r" "r < p * q"
proof -
  define xp where "xp = expMod B (c mod p) (d mod (p - 1)) p"
  define xq where "xq = expMod B (c mod q) (d mod (q - 1)) q"
  define h where "h = (if xp > xq then q - ((xp - xq) * u) mod q else ((xq - xp) * u) mod q)"
  have xp: "xp < p" using assms(2) by (simp add: xp_def bigint_facts(6) [OF B])
  have "(xp - xq) * u mod q \<noteq> 0" if gt: "xp > xq"
  proof
    assume "(xp - xq) * u mod q = 0"
    then have "q dvd (xp - xq) * (u * p)" by (simp add: mod_eq_0_iff_dvd flip: mult.assoc)
    moreover have "coprime q (u * p)" using assms(4)
      by (metis coprime_1_right coprime_commute coprime_mod_left_iff not_less_zero assms(3) neq0_conv)
    ultimately have "q dvd xp - xq" by (simp add: coprime_dvd_mult_left_iff)
    then show False using gt xp assms(3) by (auto dest!: dvd_imp_le)
  qed
  then have "h < q" using assms(3) by (auto simp: h_def)
  then have "h * p + xp < q * p" using xp
    by (metis add_less_cancel_left less_le_trans mult_Suc mult_le_mono1 Suc_leI add.commute)
  moreover have "rsadecrypt B [p, q, d, u] c = Some (h * p + xp)"
  proof -
    have keys: "[p, q, d, u] ! 0 = p" "[p, q, d, u] ! 1 = q" "[p, q, d, u] ! 2 = d" "[p, q, d, u] ! 3 = u" by simp_all
    have "\<not> (p \<le> 1 \<or> q \<le> 1)" using assms by simp
    then show ?thesis
      unfolding rsadecrypt_def Let_def keys xp_def [symmetric] xq_def [symmetric] h_def [symmetric] by simp
  qed
  ultimately show ?thesis by (intro that) (simp_all add: mult.commute)
qed

lemma crt_unique:
  fixes p q r m :: nat
  assumes "coprime p q" "r < p * q" "m < p * q" "r mod p = m mod p" "r mod q = m mod q"
  shows "r = m"
proof -
  have "int p dvd int r - int m" "int q dvd int r - int m"
    using assms(4,5) by (simp_all add: mod_eq_dvd_iff [symmetric] flip: zmod_int)
  then have "int (p * q) dvd int r - int m"
    using assms(1) divides_mult [of "int p" "int r - int m" "int q"] by simp
  moreover have "\<bar>int r - int m\<bar> < int (p * q)" using assms(2,3) by linarith
  ultimately show ?thesis using zdvd_imp_le [of "int (p * q)" "\<bar>int r - int m\<bar>"] by (cases "r = m") auto
qed

lemma rsa_power:
  assumes p: "is_prime p" "2 < p" and ed: "e * d mod (p - 1) = 1 mod (p - 1)"
  shows "((x ^ e mod p) ^ (d mod (p - 1))) mod p = x mod p" "((x ^ (d mod (p - 1)) mod p) ^ e) mod p = x mod p"
proof -
  have "e * (d mod (p - 1)) mod (p - 1) = 1 mod (p - 1)" using ed by (simp add: mod_mult_right_eq)
  moreover have "0 < e * (d mod (p - 1))"
    using calculation p(2) by (cases "e * (d mod (p - 1)) = 0") auto
  ultimately have "x ^ (e * (d mod (p - 1))) mod p = x mod p" by (intro fermat_exp [OF p(1)])
  then show "((x ^ e mod p) ^ (d mod (p - 1))) mod p = x mod p" "((x ^ (d mod (p - 1)) mod p) ^ e) mod p = x mod p"
    by (simp_all add: power_mod flip: power_mult) (simp add: mult.commute)
qed

lemma distinct_primes_coprime: "is_prime p \<Longrightarrow> is_prime q \<Longrightarrow> p < q \<Longrightarrow> coprime p q"
  using is_prime_coprime [of q p] nat_dvd_not_less [of p q] by (auto simp: is_prime_def coprime_commute)

lemma rsa_key_pair:
  assumes B: "bigint_ok B" and k: "rsa_key pubk privk"
  shows "key_pair B pubk privk"
proof -
  obtain p q d u where pr: "privk = [p, q, d, u]"
    using k by (auto simp: rsa_key_def Let_def length_Suc_conv numeral_eq_Suc)
  define e where "e = pubk ! 1"
  have n: "pubk ! 0 = p * q" "0 < p * q" and pq: "is_prime p" "is_prime q" "p < q" "2 < p" "2 < q" "1 < p" "1 < q" and u: "u * p mod q = 1"
    and ed: "e * d mod (p - 1) = 1 mod (p - 1)" "e * d mod (q - 1) = 1 mod (q - 1)"
    using k by (auto simp: rsa_key_def Let_def pr e_def is_prime_def)
  note co = distinct_primes_coprime [OF pq(1-3)]
  have enc: "rsaencrypt B pubk x = Some (x ^ e mod (p * q))" for x
    using n by (simp add: rsaencrypt_def e_def bigint_facts(6) [OF B])
  have mods: "x mod (p * q) mod p = x mod p" "x mod (p * q) mod q = x mod q" for x
    by (simp_all add: mod_mod_cancel)
  have dec: "\<exists>r. rsadecrypt B privk c = Some r \<and> r < p * q \<and> r mod p = (c mod p) ^ (d mod (p - 1)) mod p \<and>
      r mod q = (c mod q) ^ (d mod (q - 1)) mod q" for c
    using rsadecrypt_total [OF B pq(6,3) u, of d c] rsadecrypt_residues [OF B pq(6,7) u]
    unfolding pr by metis
  show ?thesis unfolding key_pair_def n(1)
  proof (intro conjI allI impI)
    fix m assume m: "m < p * q"
    define c where "c = m ^ e mod (p * q)"
    obtain r where r: "rsadecrypt B privk c = Some r" "r < p * q" "r mod p = (c mod p) ^ (d mod (p - 1)) mod p"
      "r mod q = (c mod q) ^ (d mod (q - 1)) mod q" using dec by blast
    have "r mod p = m mod p" "r mod q = m mod q"
      using r(3,4) rsa_power(1) [OF pq(1,4) ed(1), of m] rsa_power(1) [OF pq(2,5) ed(2), of m]
      by (simp_all add: c_def mods)
    then have "r = m" by (rule crt_unique [OF co r(2) m])
    then show "\<exists>c<p * q. rsaencrypt B pubk m = Some c \<and> rsadecrypt B privk c = Some m"
      using r(1) enc n(2) by (auto simp: c_def)
  next
    fix c assume c: "c < p * q"
    obtain r where r: "rsadecrypt B privk c = Some r" "r < p * q" "r mod p = (c mod p) ^ (d mod (p - 1)) mod p"
      "r mod q = (c mod q) ^ (d mod (q - 1)) mod q" using dec by blast
    have "r ^ e mod (p * q) = c"
    proof (rule crt_unique [OF co _ c])
      show "r ^ e mod (p * q) mod p = c mod p"
        using rsa_power(2) [OF pq(1,4) ed(1), of c] r(3) by (metis mods(1) power_mod)
      show "r ^ e mod (p * q) mod q = c mod q"
        using rsa_power(2) [OF pq(2,5) ed(2), of c] r(4) by (metis mods(2) power_mod)
    qed (use n in simp)
    then show "\<exists>m<p * q. rsadecrypt B privk c = Some m \<and> rsaencrypt B pubk m = Some c"
      using r(1,2) enc by auto
  qed
qed

text \<open>The keys that \<open>genkeypair\<close> makes of two acceptable primes.\<close>

lemma genkeypair_rsa_key:
  assumes B: "bigint_ok B" and pq: "is_prime p" "is_prime q" "p < q" "2 < p"
    and acc: "isAcceptable 17 p" "isAcceptable 17 q"
  shows "rsa_key (snd (genkeypair B p q)) (fst (genkeypair B p q))"
proof -
  define l where "l = lcm (p - 1) (q - 1)"
  define d where "d = inverseMod B 17 l"
  have l: "(p - 1) dvd l" "(q - 1) dvd l" "1 < l"
  proof -
    have "p - 1 \<le> l" unfolding l_def by (rule dvd_imp_le) (use pq in \<open>auto simp: lcm_pos_nat\<close>)
    then show "1 < l" using pq(4) by simp
  qed (simp_all add: l_def)
  have "coprime 17 ((p - 1) * (q - 1))" using acc by (simp add: isAcceptable_def)
  moreover have "l dvd (p - 1) * (q - 1)" by (simp add: l_def)
  ultimately have "coprime 17 l" by (rule coprime_divisors [OF dvd_refl, rotated])
  then have "17 * d mod l = 1" using bigint_facts(7) [OF B l(3)] by (simp add: d_def)
  then have ed: "17 * d mod (p - 1) = 1 mod (p - 1)" "17 * d mod (q - 1) = 1 mod (q - 1)"
    using l(1,2) by (metis mod_mod_cancel)+
  have "1 < q" using pq by simp
  then have "p * inverseMod B p q mod q = 1" using bigint_facts(7) [OF B _ distinct_primes_coprime [OF pq(1-3)]] by simp
  then show ?thesis
    using pq ed by (simp add: rsa_key_def genkeypair_def Let_def bigint_facts(8) [OF B] l_def d_def mult.commute)
qed

text \<open>With the larger prime first, a message between the primes comes back with the modulus added.\<close>

lemma unordered_primes_wrong:
  "genkeypair nat_bigint 7 3 = ([7, 3, 5, 1], [21, 17])"
  "rsaencrypt nat_bigint [21, 17] 4 = Some 16" "rsadecrypt nat_bigint [7, 3, 5, 1] 16 = Some 25"
  by (simp add: genkeypair_def nat_bigint_def lcm_nat_def upt_rec)
    (simp_all add: rsaencrypt_def rsadecrypt_def nat_bigint_def Let_def)

end
