(* ===== verification/Session.thy ===== *)
theory Session
  imports Replies Api_Calls Rsa
begin

text \<open>
  Sessions of \<open>src/megaclient.cpp\<close> and their commands in \<open>src/commands.cpp\<close>: password keys and hashes,
  login with a password, resumption of a dumped session, ephemeral sessions, password change, key
  pairs. Random bytes (\<open>PrnGen::genblock\<close>) and uninitialised buffers are arguments. A command that
  the client queues is a value of \<open>api_call\<close>.
\<close>

datatype session_event =
    login_result int
  | ephemeral_error int
  | ephemeral_result handle bytes

section \<open>Passwords\<close>

text \<open>The UTF-8 decoder of \<open>str_to_a32\<close>: the code units of JavaScript strings.\<close>

definition is_cont :: "byte \<Rightarrow> bool" where
  "is_cont c \<longleftrightarrow> c AND 0xc0 = 0x80"

fun utf16_units :: "bytes \<Rightarrow> u32 list option" where
  "utf16_units [] = Some []"
| "utf16_units (c # s) =
     (if c AND 0x80 = 0 then map_option ((#) (ucast c)) (utf16_units s)
      else if c AND 0xe0 = 0xc0 then
        (case s of
           c1 # s1 \<Rightarrow>
             if is_cont c1
             then map_option ((#) (push_bit 6 (ucast (c AND 0x1f)) OR ucast (c1 AND 0x3f))) (utf16_units s1)
             else None
         | [] \<Rightarrow> None)
      else if c AND 0xf0 = 0xe0 then
        (case s of
           c1 # c2 # s1 \<Rightarrow>
             if is_cont c1 \<and> is_cont c2
             then map_option ((#) (push_bit 12 (ucast (c AND 0x0f)) OR push_bit 6 (ucast (c1 AND 0x3f)) OR ucast (c2 AND 0x3f))) (utf16_units s1)
             else None
         | _ \<Rightarrow> None)
      else if c AND 0xf8 = 0xf0 then
        (case s of
           c1 # c2 # c3 # s1 \<Rightarrow>
             if is_cont c1 \<and> is_cont c2 \<and> is_cont c3
             then
               (let u = push_bit 18 (ucast (c AND 0x07)) OR push_bit 12 (ucast (c1 AND 0x3f)) OR push_bit 6 (ucast (c2 AND 0x3f)) OR ucast (c3 AND 0x3f) :: u32;
                    hi = 0xd800 OR (drop_bit 10 u AND 0x3f) OR push_bit 6 (drop_bit 16 u - 1);
                    low = 0xdc00 OR (u AND 0x3ff)
                in map_option (\<lambda>us. hi # low # us) (utf16_units s1))
             else None
         | _ \<Rightarrow> None)
      else None)"

text \<open>The array after \<open>a32[j >> 2] |= htonl(unicode << (24 - (j & 3) * 8))\<close> for each unit: four units make a
  big-endian word.\<close>

definition a32_word :: "u32 list \<Rightarrow> u32" where
  "a32_word us = fold (OR) (map2 (\<lambda>u j. push_bit (24 - j * 8) u) us [0..<4]) 0"

definition be_bytes :: "u32 \<Rightarrow> bytes" where
  "be_bytes w = rev (le_bytes 4 w)"

function a32_bytes :: "u32 list \<Rightarrow> bytes" where
  "a32_bytes us = (if us = [] then [] else be_bytes (a32_word (take 4 us)) @ a32_bytes (drop 4 us))"
  by pat_completeness auto
termination
  by (relation "measure length") auto

declare a32_bytes.simps [simp del]

text \<open>The buffer (zero behind the text) and \<open>*len\<close>; the buffer has \<open>4 * ((t + 3) >> 2)\<close> bytes.\<close>

definition str_to_a32 :: "bytes \<Rightarrow> (bytes \<times> nat) option" where
  "str_to_a32 s =
     (let t = length (cstr s); t2 = (t + 3) div 4 * 4 in
      map_option (\<lambda>us. (let b = a32_bytes us in b @ replicate (t2 - length b) 0, length us)) (utf16_units (cstr s)))"

definition pw_seed :: bytes where
  "pw_seed = [0x93, 0xC4, 0x67, 0xE3, 0x7D, 0xB0, 0xC7, 0xA4, 0xD1, 0xBE, 0x3F, 0x81, 0x01, 0x52, 0xCB, 0x56]"

definition pw_keys :: "bytes \<Rightarrow> nat \<Rightarrow> symm list" where
  "pw_keys pw t =
     (let n = (t + 15) div 16 in
      map (\<lambda>i. let valid = (if i \<noteq> n - 1 then 16 else t - 16 * i);
                   k = take valid (drop (i * 16) pw)
               in symm_setkey (k @ replicate (16 - length k) 0) 1 symm_new) [0..<n])"

text \<open>65536 rounds of encryption with all keys; an error is \<open>API_EARGS\<close>.\<close>

definition pw_key :: "aes \<Rightarrow> bytes \<Rightarrow> bytes option" where
  "pw_key L utf8pw =
     (case str_to_a32 utf8pw of
        None \<Rightarrow> None
      | Some (pw, t) \<Rightarrow> Some ((fold (ecb_encrypt L) (pw_keys pw t) ^^ 65536) pw_seed))"

text \<open>\<open>strncpy\<close> fills up with zeros; the blocks in front are xor-ed in from the back.\<close>

definition stringhash :: "aes \<Rightarrow> symm \<Rightarrow> bytes \<Rightarrow> bytes" where
  "stringhash L c s =
     (let t = length s div 16 * 16;
          tl16 = drop t s @ replicate (16 - length (drop t s)) 0;
          blocks = map (\<lambda>i. take 16 (drop (16 * i) s)) (rev [0..<length s div 16]);
          h0 = fold xorblock blocks tl16;
          h = (ecb_encrypt L c ^^ 16384) h0
      in take 4 h @ take 4 (drop 8 h) @ drop 8 h)"

definition stringhash64 :: "aes \<Rightarrow> symm \<Rightarrow> bytes \<Rightarrow> u64" where
  "stringhash64 L c s = le_word (take 8 (stringhash L c (cstr (map tolower s))))"

section \<open>Session state\<close>

definition setsid :: "bytes \<Rightarrow> megaclient \<Rightarrow> megaclient" where
  "setsid newsid mc = mc\<lparr>mc_auth := str ''&sid='' @ btoa newsid, mc_sid := newsid\<rparr>"

definition setrootnode :: "handle \<Rightarrow> megaclient \<Rightarrow> megaclient" where
  "setrootnode h mc = mc\<lparr>mc_auth := str ''&n='' @ btoa (le_bytes 6 h)\<rparr>"

text \<open>\<open>SIDLEN\<close> is 43. \<open>checktsid\<close> encrypts the first block in place.\<close>

abbreviation (input) SIDLEN :: nat where "SIDLEN \<equiv> 43"

definition checktsid :: "aes \<Rightarrow> symm \<Rightarrow> bytes \<Rightarrow> nat \<Rightarrow> bool" where
  "checktsid L k sidbuf len \<longleftrightarrow>
     len = SIDLEN \<and> ecb_encrypt L k (take 16 sidbuf) = take 16 (drop (SIDLEN - 16) sidbuf)"

definition set_masterkey :: "bytes \<Rightarrow> megaclient \<Rightarrow> megaclient" where
  "set_masterkey k mc = mc\<lparr>mc_key := symm_setkey k 1 (mc_key mc)\<rparr>"

text \<open>\<open>folderaccess\<close>: the handle and the key of an exported folder.\<close>

definition folderaccess :: "bytes \<Rightarrow> bytes \<Rightarrow> megaclient \<Rightarrow> int \<times> megaclient" where
  "folderaccess f k mc =
     (let h = atob f 6; key = atob k 16 in
      if length h \<noteq> 6 then (API_EARGS, mc)
      else if length key \<noteq> 16 then (API_EARGS, mc)
      else (API_OK, set_masterkey key (setrootnode (le_word h) mc)))"

definition dumpsession :: "libs \<Rightarrow> megaclient \<Rightarrow> nat \<Rightarrow> int + bytes" where
  "dumpsession L mc n =
     (if loggedin L mc = NOTLOGGEDIN then Inl 0
      else if n < length (mc_sid mc) + 16 then Inl (-7)
      else Inr (take 16 (sk_key (mc_key mc)) @ mc_sid mc))"

section \<open>Logging in\<close>

text \<open>The client's tables; the back ends, transfers and request queues are not part of the state. \<open>delete\<close> of a file takes its
  fingerprint out of the set, \<open>delete\<close> of a sync its \<open>LocalNode\<close>s. \<open>userid\<close> keeps counting.\<close>

definition purgenodesusersabortsc :: "megaclient \<Rightarrow> megaclient" where
  "purgenodesusersabortsc mc =
     mc\<lparr>mc_nodes := [], mc_localnodes := [], mc_todebris := [], mc_newshares := [], mc_nodenotify := [], mc_usernotify := [],
       mc_fingerprints := filter (\<lambda>x. case nodebyhandle mc (snd x) of Some n \<Rightarrow> \<not> (n_type n = FILENODE \<and> n_infps n) | None \<Rightarrow> True) (mc_fingerprints mc),
       mc_users := (mc_users mc)\<lparr>ut_users := [], ut_uhindex := [], ut_umindex := []\<rparr>,
       mc_rootnodes := map (\<lambda>_. UNDEF) (mc_rootnodes mc)\<rparr>"

definition logout :: "megaclient \<Rightarrow> megaclient" where
  "logout mc =
     (let mc1 = purgenodesusersabortsc (mc\<lparr>mc_me := UNDEF, mc_cachedscsn := UNDEF\<rparr>)
      in mc1\<lparr>mc_key := symm_setkey (replicate 16 0) 1 (mc_key mc1), mc_auth := []\<rparr>)"

definition login :: "libs \<Rightarrow> bytes \<Rightarrow> bytes \<Rightarrow> megaclient \<Rightarrow> megaclient \<times> api_call" where
  "login L email pwkey mc =
     (let mc1 = set_masterkey pwkey (logout mc) in
      (mc1, Login (Some email) (stringhash64 (lib_aes L) (mc_key mc1) email)))"

text \<open>\<open>cached\<close>: the entry \<open>CACHEDSCSN\<close> of the session's cache table, if any.\<close>

definition login_session :: "bytes \<Rightarrow> bytes option \<Rightarrow> megaclient \<Rightarrow> megaclient \<times> session_event list \<times> api_call list" where
  "login_session session cached mc =
     (let mc0 = logout mc in
      if length session = 16 + SIDLEN then
        (let mc1 = setsid (drop 16 session) (set_masterkey session mc0);
             mc2 = (case cached of
                      Some t \<Rightarrow> if length t = 8 then mc1\<lparr>mc_cachedscsn := le_word t\<rparr> else mc1
                    | None \<Rightarrow> mc1)
         in (mc2, [], [Login None UNDEF]))
      else (mc0\<lparr>mc_restag := mc_reqtag mc0\<rparr>, [login_result API_EARGS], []))"

text \<open>\<open>setkeypair\<close>: a fresh key pair, the private key padded with random bytes and encrypted with the
  master key.\<close>

definition setkeypair :: "libs \<Rightarrow> nat \<Rightarrow> nat \<Rightarrow> bytes \<Rightarrow> megaclient \<Rightarrow> megaclient \<times> api_call" where
  "setkeypair L p q pad mc =
     (let (privk, pubk) = genkeypair (lib_big L) p q;
          pubks = serializeintarray (lib_big L) pubk [];
          privks = serializeintarray (lib_big L) privk [];
          padded = privks @ take ((length privks + 15) div 16 * 16 - length privks) pad
      in (mc\<lparr>mc_asymkey := privk\<rparr>, SetKeyPair (ecb_encrypt (lib_aes L) (mc_key mc) padded) pubks))"

record loginstate =
  lg_hash :: bytes
  lg_len_k :: nat
  lg_sidbuf :: bytes
  lg_len_csid :: nat
  lg_len_tsid :: nat
  lg_privkbuf :: bytes
  lg_me :: handle
  lg_cachedscsn :: handle

text \<open>Bytes stored at the front of a buffer.\<close>

definition put_front :: "bytes \<Rightarrow> bytes \<Rightarrow> bytes" where
  "put_front b buf = b @ drop (length b) buf"

definition login_cases :: "(string \<times> loginstate reader) list" where
  "login_cases =
     [(''k'', rd_binary 16 (\<lambda>b s. s\<lparr>lg_hash := put_front b (lg_hash s), lg_len_k := length b\<rparr>)),
      (''u'', rd_handle 8 (\<lambda>h s. s\<lparr>lg_me := h\<rparr>)),
      (''tsid'', rd_binary 1026 (\<lambda>b s. s\<lparr>lg_sidbuf := put_front b (lg_sidbuf s), lg_len_tsid := length b\<rparr>)),
      (''csid'', rd_binary 1026 (\<lambda>b s. s\<lparr>lg_sidbuf := put_front b (lg_sidbuf s), lg_len_csid := length b\<rparr>)),
      (''privk'', rd_binary 2052 (\<lambda>b s. s\<lparr>lg_privkbuf := b\<rparr>)),
      (''sn'', rd_int (\<lambda>i s. if i = 0 then s\<lparr>lg_cachedscsn := UNDEF\<rparr> else s))]"

definition login_init :: "bytes \<Rightarrow> bytes \<Rightarrow> megaclient \<Rightarrow> loginstate" where
  "login_init hashjunk sidjunk mc =
     \<lparr>lg_hash = hashjunk, lg_len_k = 0, lg_sidbuf = sidjunk, lg_len_csid = 0, lg_len_tsid = 0, lg_privkbuf = [],
      lg_me = UNDEF, lg_cachedscsn = mc_cachedscsn mc\<rparr>"

text \<open>The two ways to a session id: a symmetric challenge, or RSA.\<close>

definition login_tsid :: "libs \<Rightarrow> nat \<Rightarrow> nat \<Rightarrow> bytes \<Rightarrow> loginstate \<Rightarrow> megaclient \<Rightarrow> (int \<times> api_call list \<times> megaclient) option" where
  "login_tsid L p q pad s mc =
     (let mc1 = setsid (take SIDLEN (lg_sidbuf s)) mc in
      if \<not> checktsid (lib_aes L) (mc_key mc1) (lg_sidbuf s) (lg_len_tsid s) then Some (API_EKEY, [], mc1)
      else (let (mc2, c) = setkeypair L p q pad mc1 in Some (API_OK, [c], mc2\<lparr>mc_me := lg_me s\<rparr>)))"

definition login_csid :: "libs \<Rightarrow> bool \<Rightarrow> loginstate \<Rightarrow> megaclient \<Rightarrow> (int \<times> api_call list \<times> megaclient) option" where
  "login_csid L checksession s mc =
     (if length (lg_privkbuf s) < 256 then Some (API_EINTERNAL, [], mc)
      else
        (let pk = ecb_decrypt (lib_aes L) (mc_key mc) (lg_privkbuf s);
             (key, ok) = asymm_setkey (lib_big L) 4 pk (mc_asymkey mc);
             mc1 = mc\<lparr>mc_asymkey := key\<rparr>
         in if \<not> ok then Some (API_EKEY, [], mc1)
            else if checksession then Some (API_OK, [], mc1\<lparr>mc_me := lg_me s\<rparr>)
            else if lg_len_csid s < 32 then Some (API_EINTERNAL, [], mc1)
            else
              (case asymm_decrypt (lib_big L) key (take (lg_len_csid s) (lg_sidbuf s)) SIDLEN of
                 None \<Rightarrow> None
               | Some None \<Rightarrow> Some (API_EINTERNAL, [], mc1)
               | Some (Some sid) \<Rightarrow> Some (API_OK, [], (setsid sid mc1)\<lparr>mc_me := lg_me s\<rparr>))))"

definition login_end :: "libs \<Rightarrow> nat \<Rightarrow> nat \<Rightarrow> bytes \<Rightarrow> bool \<Rightarrow> loginstate \<Rightarrow> megaclient \<Rightarrow> (int \<times> api_call list \<times> megaclient) option" where
  "login_end L p q pad checksession s mc0 =
     (let mc = mc0\<lparr>mc_cachedscsn := lg_cachedscsn s\<rparr> in
      if \<not> checksession \<and> (ISUNDEF (lg_me s) \<or> lg_len_k s \<noteq> 16) then Some (API_EINTERNAL, [], mc)
      else
        (let mc1 = (if checksession then mc else set_masterkey (ecb_decrypt (lib_aes L) (mc_key mc) (lg_hash s)) mc) in
         if lg_len_tsid s \<noteq> 0 then login_tsid L p q pad s mc1 else login_csid L checksession s mc1))"

definition CommandLogin_procresult :: "libs \<Rightarrow> nat \<Rightarrow> nat \<Rightarrow> bytes \<Rightarrow> bytes \<Rightarrow> bytes \<Rightarrow> bool \<Rightarrow> megaclient \<Rightarrow> bytes
    \<Rightarrow> ((session_event list \<times> api_call list \<times> megaclient) \<times> bytes) option" where
  "CommandLogin_procresult L p q pad hashjunk sidjunk checksession mc pos =
     (case numeric_error pos of
        Some (e, p1) \<Rightarrow> Some (([login_result e], [], mc), p1)
      | None \<Rightarrow>
          Option.bind (scan (switch login_cases) (login_init hashjunk sidjunk mc) (snd (isnumeric pos)))
            (\<lambda>(e, s, p1).
              if e = AtEOO
              then map_option (\<lambda>(r, cs, mc1). (([login_result r], cs, mc1), p1)) (login_end L p q pad checksession s mc)
              else Some (([login_result API_EINTERNAL], [], mc\<lparr>mc_cachedscsn := lg_cachedscsn s\<rparr>), p1)))"

section \<open>Ephemeral sessions and passwords\<close>

definition createephemeral :: "libs \<Rightarrow> bytes \<Rightarrow> bytes \<Rightarrow> bytes \<Rightarrow> megaclient \<Rightarrow> megaclient \<times> api_call" where
  "createephemeral L keybuf pwbuf ssc mc =
     (let mc1 = set_masterkey keybuf mc;
          sscbuf = take 16 ssc @ ecb_encrypt (lib_aes L) (mc_key mc1) (take 16 ssc);
          mc2 = set_masterkey pwbuf mc1
      in (mc2, CreateEphemeralSession (ecb_encrypt (lib_aes L) (mc_key mc2) keybuf) sscbuf))"

text \<open>\<open>reqtag\<close> of the client or the tag of the command that was answered.\<close>

definition resumeephemeral :: "handle \<Rightarrow> int \<Rightarrow> megaclient \<Rightarrow> api_call" where
  "resumeephemeral uh ctag mc = ResumeEphemeralSession uh (if ctag \<noteq> 0 then ctag else mc_reqtag mc)"

definition CommandCreateEphemeralSession_procresult :: "int \<Rightarrow> megaclient \<Rightarrow> bytes \<Rightarrow> (session_event list \<times> api_call list) \<times> bytes" where
  "CommandCreateEphemeralSession_procresult tag mc p =
     (case numeric_error p of
        Some (e, p1) \<Rightarrow> (([ephemeral_error e], []), p1)
      | None \<Rightarrow> (let (uh, p1) = gethandle 8 (snd (isnumeric p)) in (([], [resumeephemeral uh tag mc]), p1)))"

record resumestate =
  rs_keybuf :: bytes
  rs_sidbuf :: bytes
  rs_havek :: bool
  rs_havecsid :: bool

definition resume_cases :: "(string \<times> resumestate reader) list" where
  "resume_cases =
     [(''k'', rd_binary 16 (\<lambda>b s. s\<lparr>rs_keybuf := put_front b (rs_keybuf s), rs_havek := length b = 16\<rparr>)),
      (''tsid'', rd_binary SIDLEN (\<lambda>b s. s\<lparr>rs_sidbuf := put_front b (rs_sidbuf s), rs_havecsid := length b = SIDLEN\<rparr>))]"

definition resume_end :: "libs \<Rightarrow> handle \<Rightarrow> bytes \<Rightarrow> resumestate \<Rightarrow> megaclient \<Rightarrow> session_event \<times> megaclient" where
  "resume_end L uh pw s mc =
     (if \<not> rs_havek s \<or> \<not> rs_havecsid s then (ephemeral_error API_EINTERNAL, mc)
      else
        (let mc1 = set_masterkey pw (setsid (rs_sidbuf s) mc);
             mc2 = set_masterkey (ecb_decrypt (lib_aes L) (mc_key mc1) (rs_keybuf s)) mc1
         in if \<not> checktsid (lib_aes L) (mc_key mc2) (rs_sidbuf s) SIDLEN then (ephemeral_error API_EKEY, mc2)
            else (ephemeral_result uh pw, mc2\<lparr>mc_me := uh\<rparr>)))"

definition CommandResumeEphemeralSession_procresult :: "libs \<Rightarrow> handle \<Rightarrow> bytes \<Rightarrow> bytes \<Rightarrow> bytes \<Rightarrow> megaclient \<Rightarrow> bytes
    \<Rightarrow> ((session_event \<times> megaclient) \<times> bytes) option" where
  "CommandResumeEphemeralSession_procresult L uh pw keyjunk sidjunk mc p =
     (case numeric_error p of
        Some (e, p1) \<Rightarrow> Some ((ephemeral_error e, mc), p1)
      | None \<Rightarrow>
          map_option (\<lambda>(e, s, p1). (if e = AtEOO then resume_end L uh pw s mc else (ephemeral_error API_EINTERNAL, mc), p1))
            (scan (switch resume_cases) \<lparr>rs_keybuf = keyjunk, rs_sidbuf = sidjunk, rs_havek = False, rs_havecsid = False\<rparr> (snd (isnumeric p))))"

definition changepw :: "libs \<Rightarrow> bytes \<Rightarrow> bytes \<Rightarrow> megaclient \<Rightarrow> int \<times> api_call list" where
  "changepw L oldpwkey newpwkey mc =
     (case fst (finduser_handle (mc_me mc) False (mc_users mc)) of
        None \<Rightarrow> (API_EACCESS, [])
      | Some u \<Rightarrow>
          if loggedin L mc = NOTLOGGEDIN then (API_EACCESS, [])
          else
            (let k = sk_key (mc_key mc);
                 oldc = symm_setkey oldpwkey 1 symm_new;
                 newc = symm_setkey newpwkey 1 oldc
             in (API_OK, [SetMasterKey (ecb_encrypt (lib_aes L) oldc k) (ecb_encrypt (lib_aes L) newc k)
                   (stringhash64 (lib_aes L) newc (u_email (users_at (mc_users mc) u)))])))"

text \<open>\<open>r1\<close>, \<open>r2\<close>: four random bytes each around eight zero bytes.\<close>

definition sendsignuplink :: "libs \<Rightarrow> bytes \<Rightarrow> bytes \<Rightarrow> megaclient \<Rightarrow> bytes \<Rightarrow> bytes \<Rightarrow> bytes \<Rightarrow> api_call" where
  "sendsignuplink L r1 r2 mc email name pwhash =
     SendSignupLink email name
       (ecb_encrypt (lib_aes L) (symm_setkey pwhash 1 symm_new) (sk_key (mc_key mc) @ take 4 r1 @ replicate 8 0 @ take 4 r2))"

definition querysignuplink :: "bytes \<Rightarrow> api_call" where
  "querysignuplink code = QuerySignupLink code"

definition confirmsignuplink :: "bytes \<Rightarrow> u64 \<Rightarrow> api_call" where
  "confirmsignuplink code emailhash = ConfirmSignupLink code emailhash"

text \<open>\<open>openfilelink\<close>: \<open>...#!publichandle!key\<close> or \<open>publichandle!key\<close>.\<close>

definition openfilelink :: "bytes \<Rightarrow> bool \<Rightarrow> int + api_call" where
  "openfilelink link op =
     (let ptr = (case find_sub (str ''#!'') (cstr link) of Some i \<Rightarrow> drop (i + 2) link | None \<Rightarrow> link);
          ph = atob ptr 6
      in if length ph = 6 \<and> cur (drop 8 ptr) = 33 \<and> length (atob (drop 9 ptr) 32) = 32
         then Inr (if op then GetPH (le_word ph) else GetFile (le_word ph) False)
         else Inl API_EARGS)"

section \<open>Logging in works\<close>

lemma effects_filter:
  assumes "\<forall>m \<in> set ms. key_ok (fst m) \<and> wf_json (snd m)"
    and "list_all2 (member_effect \<alpha> rd) (filter (\<lambda>m. rd (getnameid_at (fst m)) \<noteq> None) ms) gs"
  shows "\<exists>gs'. list_all2 (member_effect \<alpha> rd) ms gs' \<and> fold (\<lambda>g. g) gs' = fold (\<lambda>g. g) gs"
  using assms
proof (induction ms arbitrary: gs)
  case (Cons m ms)
  show ?case
  proof (cases "rd (getnameid_at (fst m))")
    case None
    then obtain gs' where "list_all2 (member_effect \<alpha> rd) ms gs'" "fold (\<lambda>g. g) gs' = fold (\<lambda>g. g) gs"
      using Cons by auto
    moreover have "member_effect \<alpha> rd m id" using None Cons.prems(1) by (simp add: member_effect_def)
    ultimately show ?thesis by (intro exI [of _ "id # gs'"]) simp
  next
    case (Some f)
    then obtain g gs1 where g: "gs = g # gs1" "member_effect \<alpha> rd m g"
      "list_all2 (member_effect \<alpha> rd) (filter (\<lambda>m. rd (getnameid_at (fst m)) \<noteq> None) ms) gs1"
      using Cons.prems(2) by (auto simp: list_all2_Cons1)
    then obtain gs' where "list_all2 (member_effect \<alpha> rd) ms gs'" "fold (\<lambda>g. g) gs' = fold (\<lambda>g. g) gs1"
      using Cons by auto
    then show ?thesis using g by (intro exI [of _ "g # gs'"]) auto
  qed
qed simp

text \<open>The members that a handler knows, in their order; all others can stand anywhere.\<close>

definition members :: "(string \<times> 's reader) list \<Rightarrow> (bytes \<times> json_value) list \<Rightarrow> (bytes \<times> json_value) list" where
  "members cs ms = filter (\<lambda>m. switch cs (getnameid_at (fst m)) \<noteq> None) ms"

lemma answers_members:
  assumes "\<forall>m \<in> set ms. key_ok (fst m) \<and> wf_json (snd m)" "list_all2 (member_effect \<alpha> (switch cs)) (members cs ms) gs"
    and "\<And>rest s'. scan (switch cs) s (body (JObj ms) @ rest) = Some (AtEOO, s', ch_rbrace # rest) \<Longrightarrow>
      \<alpha> s' = fold (\<lambda>g. g) gs (\<alpha> s) \<Longrightarrow> h (body (JObj ms) @ rest) = Some (evs, ch_rbrace # rest)"
  shows "answers h (JObj ms) evs"
proof -
  obtain gs' where gs': "list_all2 (member_effect \<alpha> (switch cs)) ms gs'" "fold (\<lambda>g. g) gs' = fold (\<lambda>g. g) gs"
    using effects_filter [OF assms(1), of \<alpha> "switch cs" gs] assms(2) by (auto simp: members_def)
  show ?thesis by (rule answers_object [OF gs'(1), where s = s]) (use assms(3) gs'(2) in simp)
qed

text \<open>A member with the literal name \<open>k\<close>.\<close>

lemma member_effectI:
  assumes "list_all (\<lambda>c. of_char c \<notin> {0, ch_quote, ch_bslash} \<and> of_char c < (128 :: byte)) k" "MAKENAMEID k \<noteq> 0"
    and "switch cs (MAKENAMEID k) = Some f" "wf_json v" "reads \<alpha> f v g"
  shows "member_effect \<alpha> (switch cs) (str k, v) g"
proof -
  have "getnameid_at (str k) = MAKENAMEID k" using assms(1) by (intro getnameid_at_str) (auto simp: list_all_iff)
  moreover have "key_ok (str k)"
    using assms(1,2) calculation by (auto simp: key_ok_def str_def list_all_iff intro!: str_ok_plain)
  ultimately show ?thesis using assms(3-) by (simp add: member_effect_def)
qed

lemmas reader_lookup = switch_def login_cases_def resume_cases_def MAKENAMEID_def

lemma login_effects:
  assumes "length b = 16" "length csid \<le> 1026" "length pk \<le> 2052"
  shows "list_all2 (member_effect id (switch login_cases))
    [(str ''csid'', JStr (btoa csid)), (str ''privk'', JStr (btoa pk)), (str ''k'', JStr (btoa b)), (str ''u'', JStr (btoa (le_bytes 8 u)))]
    [\<lambda>s. s\<lparr>lg_sidbuf := put_front csid (lg_sidbuf s), lg_len_csid := length csid\<rparr>, \<lambda>s. s\<lparr>lg_privkbuf := pk\<rparr>,
     \<lambda>s. s\<lparr>lg_hash := put_front b (lg_hash s), lg_len_k := length b\<rparr>, \<lambda>s. s\<lparr>lg_me := u\<rparr>]"
  using assms
  by (auto intro!: member_effectI reads_binary reads_handle simp: reader_lookup str_ok_btoa take_bit_word_full)

lemma ecb_roundtrip: "aes_ok L \<Longrightarrow> 16 dvd length d \<Longrightarrow> ecb_decrypt L k (ecb_encrypt L k d) = d"
  by (simp add: aes_ok_def ecb_decrypt_def ecb_encrypt_def)

lemma length_ecb_encrypt: "aes_ok L \<Longrightarrow> 16 dvd length d \<Longrightarrow> length (ecb_encrypt L k d) = length d"
  by (simp add: aes_ok_def ecb_encrypt_def)

lemma take_put_front: "take (length b) (put_front b buf) = b"
  by (simp add: put_front_def)

text \<open>The state after a successful login with a password.\<close>

definition logged_in :: "bytes \<Rightarrow> nat list \<Rightarrow> bytes \<Rightarrow> handle \<Rightarrow> megaclient \<Rightarrow> megaclient" where
  "logged_in M privk sid u mc = (setsid sid ((set_masterkey M mc)\<lparr>mc_asymkey := privk\<rparr>))\<lparr>mc_me := u\<rparr>"

lemma login_answers:
  assumes L: "aes_ok (lib_aes L)" and M: "length M = 16" and pk: "16 dvd length pk" "256 \<le> length pk" "length pk \<le> 2052"
    and key: "asymm_setkey (lib_big L) 4 pk (mc_asymkey mc) = (privk, True)"
    and csid: "32 \<le> length csid" "length csid \<le> 1026" "asymm_decrypt (lib_big L) privk csid SIDLEN = Some (Some sid)"
    and u: "\<not> ISUNDEF u"
    and ms: "\<forall>m \<in> set ms. key_ok (fst m) \<and> wf_json (snd m)"
      "members login_cases ms =
        [(str ''csid'', JStr (btoa csid)), (str ''privk'', JStr (btoa (ecb_encrypt (lib_aes L) (symm_setkey M 1 (mc_key mc)) pk))),
         (str ''k'', JStr (btoa (ecb_encrypt (lib_aes L) (mc_key mc) M))), (str ''u'', JStr (btoa (le_bytes 8 u)))]"
    and junk: "length hashjunk = 16"
  shows "answers (CommandLogin_procresult L p q pad hashjunk sidjunk False mc) (JObj ms) ([login_result API_OK], [], logged_in M privk sid u mc)"
proof -
  let ?E = "ecb_encrypt (lib_aes L)"
  let ?ek = "?E (symm_setkey M 1 (mc_key mc)) pk" and ?eh = "?E (mc_key mc) M"
  have len: "length ?ek = length pk" "length ?eh = 16" using L M pk(1) by (simp_all add: length_ecb_encrypt)
  have eff: "list_all2 (member_effect id (switch login_cases)) (members login_cases ms)
    [\<lambda>s. s\<lparr>lg_sidbuf := put_front csid (lg_sidbuf s), lg_len_csid := length csid\<rparr>, \<lambda>s. s\<lparr>lg_privkbuf := ?ek\<rparr>,
     \<lambda>s. s\<lparr>lg_hash := put_front ?eh (lg_hash s), lg_len_k := length ?eh\<rparr>, \<lambda>s. s\<lparr>lg_me := u\<rparr>]"
    unfolding ms(2) by (rule login_effects) (use len pk(3) csid(2) in simp_all)
  have dec: "ecb_decrypt (lib_aes L) (mc_key mc) ?eh = M" "ecb_decrypt (lib_aes L) (symm_setkey M 1 (mc_key mc)) ?ek = pk"
    using L M pk(1) by (simp_all add: ecb_roundtrip)
  have pf: "put_front ?eh hashjunk = ?eh" using len junk by (simp add: put_front_def)
  show ?thesis
    by (rule answers_members [OF ms(1) eff, where s = "login_init hashjunk sidjunk mc"])
      (use len dec key csid u pk(2) in \<open>simp add: CommandLogin_procresult_def numeric_error_object login_end_def login_csid_def login_init_def
         pf take_put_front set_masterkey_def logged_in_def setsid_def del: body.simps\<close>)
qed

text \<open>What \<open>setkeypair\<close> uploads is what a later login decodes.\<close>

lemma pad_short: "length (take ((n + 15) div 16 * 16 - n) pad) < 16" for n :: nat
proof -
  have "(n + 15) div 16 * 16 \<le> n + 15" by simp
  then show ?thesis by simp
qed

lemma padded_blocks:
  assumes "16 \<le> length pad"
  shows "16 dvd length (d @ take ((length d + 15) div 16 * 16 - length d) pad)"
proof -
  have "(length d + 15) div 16 * 16 \<le> length d + 15" by simp
  then have "length (d @ take ((length d + 15) div 16 * 16 - length d) pad) = (length d + 15) div 16 * 16"
    using assms round_up_ge [of "length d"] by simp
  then show ?thesis by simp
qed

lemma setkeypair_decodes:
  assumes B: "bigint_ok (lib_big L)" and L: "aes_ok (lib_aes L)"
    and s: "setkeypair L p q pad mc = (mc', SetKeyPair ek pubks)" and pad: "16 \<le> length pad"
    and bits: "\<forall>t \<in> set (fst (genkeypair (lib_big L) p q)). bitCount (lib_big L) t < 65536" and old: "length old = 4"
  shows "asymm_setkey (lib_big L) 4 (ecb_decrypt (lib_aes L) (mc_key mc) ek) old = (mc_asymkey mc', True)"
    "mc_asymkey mc' = fst (genkeypair (lib_big L) p q)"
proof -
  obtain privk pubk where g: "genkeypair (lib_big L) p q = (privk, pubk)" by fastforce
  then have four: "length privk = 4" by (auto simp: genkeypair_def Let_def)
  let ?d = "serializeintarray (lib_big L) privk []"
  let ?p = "take ((length ?d + 15) div 16 * 16 - length ?d) pad"
  have ek: "ek = ecb_encrypt (lib_aes L) (mc_key mc) (?d @ ?p)" and k: "mc_asymkey mc' = privk"
    using s by (auto simp: setkeypair_def g Let_def)
  have "ecb_decrypt (lib_aes L) (mc_key mc) ek = ?d @ ?p"
    unfolding ek by (rule ecb_roundtrip [OF L padded_blocks [OF pad]])
  moreover have "decode_ints (lib_big L) (length privk) (?d @ ?p) = (privk, True, ?p)"
    unfolding serializeintarray_concat append_Nil by (rule decode_ints_serialize [OF B]) (use bits g in simp)
  ultimately show "asymm_setkey (lib_big L) 4 (ecb_decrypt (lib_aes L) (mc_key mc) ek) old = (mc_asymkey mc', True)"
    using four old k pad_short [of "length ?d" pad] by (simp add: asymm_setkey_def decodeintarray_def)
  show "mc_asymkey mc' = fst (genkeypair (lib_big L) p q)" using k g by simp
qed

section \<open>Ephemeral sessions, dumped sessions and password changes\<close>

lemma sk_key_symm_setkey [simp]: "length k = 16 \<Longrightarrow> sk_key (symm_setkey k 1 c) = k"
  by (simp add: symm_setkey_def)

lemma mc_key_set_masterkey [simp]: "mc_key (set_masterkey k mc) = symm_setkey k 1 (mc_key mc)"
  by (simp add: set_masterkey_def)

text \<open>A key matters only through its bytes.\<close>

lemma ecb_setkey:
  assumes "length k = 16"
  shows "ecb_encrypt L (symm_setkey k 1 c) d = ecbE L k d" "ecb_decrypt L (symm_setkey k 1 c) d = ecbD L k d"
  using assms by (simp_all add: ecb_encrypt_def ecb_decrypt_def)

lemma resume_effects:
  assumes "length b = 16" "length sid = SIDLEN"
  shows "list_all2 (member_effect id (switch resume_cases)) [(str ''k'', JStr (btoa b)), (str ''tsid'', JStr (btoa sid))]
    [\<lambda>s. s\<lparr>rs_keybuf := put_front b (rs_keybuf s), rs_havek := True\<rparr>, \<lambda>s. s\<lparr>rs_sidbuf := put_front sid (rs_sidbuf s), rs_havecsid := True\<rparr>]"
  using assms by (auto intro!: member_effectI reads_binary simp: reader_lookup str_ok_btoa)

text \<open>The session id is the challenge, what the server puts in between, and the encrypted challenge.\<close>

lemma ephemeral_answers:
  assumes L: "aes_ok (lib_aes L)" and lens: "length keybuf = 16" "length pw = 16" "length ssc = 16" "length mid = 11"
    and junk: "length keyjunk = 16" "length sidjunk = SIDLEN"
    and c: "createephemeral L keybuf pw ssc mc = (mc1, CreateEphemeralSession k ts)"
    and ms: "\<forall>m \<in> set ms. key_ok (fst m) \<and> wf_json (snd m)"
      "members resume_cases ms = [(str ''k'', JStr (btoa k)), (str ''tsid'', JStr (btoa sid))]"
    and sid: "sid = take 16 ts @ mid @ drop 16 ts"
  shows "answers (CommandResumeEphemeralSession_procresult L uh pw keyjunk sidjunk mc2) (JObj ms)
    (ephemeral_result uh pw, (set_masterkey keybuf (set_masterkey pw (setsid sid mc2)))\<lparr>mc_me := uh\<rparr>)"
proof -
  have k: "k = ecbE (lib_aes L) pw keybuf" and ts: "ts = ssc @ ecbE (lib_aes L) keybuf ssc"
    using c lens by (auto simp: createephemeral_def Let_def ecb_setkey)
  have len: "length k = 16" "length (ecbE (lib_aes L) keybuf ssc) = 16" and dec: "ecbD (lib_aes L) pw k = keybuf"
    using L lens by (simp_all add: aes_ok_def k)
  have lsid: "length sid = SIDLEN" using sid ts len lens by simp
  have check: "take 16 sid = ssc" "take 16 (drop (SIDLEN - 16) sid) = ecbE (lib_aes L) keybuf ssc"
    using sid ts len lens by simp_all
  have pf: "put_front k keyjunk = k" "put_front sid sidjunk = sid" using len lsid junk by (simp_all add: put_front_def)
  note eff = resume_effects [OF len(1) lsid, folded ms(2)]
  show ?thesis
    by (rule answers_members [OF ms(1) eff, where s = "\<lparr>rs_keybuf = keyjunk, rs_sidbuf = sidjunk, rs_havek = False, rs_havecsid = False\<rparr>"])
      (use pf dec check lens in \<open>simp add: CommandResumeEphemeralSession_procresult_def numeric_error_object resume_end_def
         checktsid_def ecb_setkey setsid_def set_masterkey_def del: body.simps\<close>)
qed

text \<open>A dumped session, entered into any client, gives the key and the session id back.\<close>

lemma session_restored:
  assumes "dumpsession L mc n = Inr session" "length (mc_sid mc) = SIDLEN" "length (sk_key (mc_key mc)) = 16"
    and "login_session session cached mc0 = (mc1, evs, calls)"
  shows "sk_key (mc_key mc1) = sk_key (mc_key mc)" "mc_sid mc1 = mc_sid mc" "mc_auth mc1 = str ''&sid='' @ btoa (mc_sid mc)"
    "calls = [Login None UNDEF]" "evs = []"
proof -
  have s: "session = sk_key (mc_key mc) @ mc_sid mc"
    using assms(1,3) by (auto simp: dumpsession_def split: if_splits)
  have *: "login_session session cached mc0 =
    (case cached of Some t \<Rightarrow> if length t = 8 then (setsid (mc_sid mc) (set_masterkey session (logout mc0)))\<lparr>mc_cachedscsn := le_word t\<rparr>
                    else setsid (mc_sid mc) (set_masterkey session (logout mc0))
     | None \<Rightarrow> setsid (mc_sid mc) (set_masterkey session (logout mc0)), [], [Login None UNDEF])"
    unfolding s using assms(2,3) by (simp add: login_session_def Let_def)
  then show "calls = [Login None UNDEF]" "evs = []" using assms(4) by simp_all
  show "sk_key (mc_key mc1) = sk_key (mc_key mc)" "mc_sid mc1 = mc_sid mc" "mc_auth mc1 = str ''&sid='' @ btoa (mc_sid mc)"
    using assms(3,4) s unfolding * by (auto simp: setsid_def set_masterkey_def symm_setkey_def split: option.splits if_splits)
qed

lemma changepw_key:
  assumes "aes_ok (lib_aes L)" "length (sk_key (mc_key mc)) = 16" "length old = 16" "length new = 16"
    and "changepw L old new mc = (e, [SetMasterKey k1 k2 h])"
  shows "ecb_decrypt (lib_aes L) (symm_setkey new 1 c) k2 = sk_key (mc_key mc)"
    "ecb_decrypt (lib_aes L) (symm_setkey old 1 c) k1 = sk_key (mc_key mc)"
  using assms by (auto simp: changepw_def Let_def ecb_setkey aes_ok_def split: option.splits if_splits)

end
