(* ===== verification/Access.thy ===== *)
theory Access
  imports Session
begin

text \<open>
  Node operations of \<open>src/megaclient.cpp\<close> that the account's rights govern: \<open>checkaccess\<close>, \<open>checkmove\<close>,
  \<open>rename\<close>, \<open>setattr\<close>, \<open>childnodebyname\<close>, and the notifications they queue. A walk up the parents that does
  not end is \<open>None\<close>; \<open>k\<close> is the fuel of \<open>proctree\<close>.
\<close>

abbreviation (input) ACCESS_UNKNOWN :: int where "ACCESS_UNKNOWN \<equiv> -1"
abbreviation (input) RDONLY :: int where "RDONLY \<equiv> 0"
abbreviation (input) RDWR :: int where "RDWR \<equiv> 1"
abbreviation (input) FULL :: int where "FULL \<equiv> 2"
abbreviation (input) OWNER :: int where "OWNER \<equiv> 3"
abbreviation (input) OWNERPRELOGIN :: int where "OWNERPRELOGIN \<equiv> 4"

section \<open>Notification\<close>

definition upd_local :: "nat \<Rightarrow> (localnode \<Rightarrow> localnode) \<Rightarrow> megaclient \<Rightarrow> megaclient" where
  "upd_local l f mc =
     (case om_lookup (mc_localnodes mc) l of
        None \<Rightarrow> mc
      | Some x \<Rightarrow> mc\<lparr>mc_localnodes := om_update l (f x) (mc_localnodes mc)\<rparr>)"

text \<open>The field of a node that is reached through a pointer that may be NULL.\<close>

definition local_of :: "megaclient \<Rightarrow> handle option \<Rightarrow> nat option" where
  "local_of mc p = Option.bind p (\<lambda>h. Option.bind (nodebyhandle mc h) n_local)"

definition local_parent :: "megaclient \<Rightarrow> nat option \<Rightarrow> nat option" where
  "local_parent mc l = Option.bind l (\<lambda>i. Option.bind (om_lookup (mc_localnodes mc) i) ln_parent)"

text \<open>The \<open>LocalNode\<close>s: a synced node that left the synced tree, or a change below a synced folder.\<close>

definition notify_local :: "handle \<Rightarrow> node \<Rightarrow> megaclient \<Rightarrow> megaclient" where
  "notify_local h n mc =
     (let pl = local_of mc (n_parent n); lp = local_parent mc (n_local n) in
      if lp \<noteq> None \<and> n_parent n \<noteq> None \<and> pl = None then
        (case n_local n of
           Some l \<Rightarrow> upd_node h (\<lambda>n. n\<lparr>n_local := None\<rparr>) (upd_local l (\<lambda>x. x\<lparr>ln_deleted := True, ln_node := None\<rparr>) mc)
         | None \<Rightarrow> mc)
      else
        (let mc1 = (case n_local n of
                      Some l \<Rightarrow> if lp \<noteq> None then upd_local l (\<lambda>x. x\<lparr>ln_deleted := n_removed n\<rparr>) mc else mc
                    | None \<Rightarrow> mc)
         in case pl of
              Some l \<Rightarrow> if n_local n = None \<or> lp \<noteq> Some l then upd_local l (\<lambda>x. x\<lparr>ln_deleted := n_removed n\<rparr>) mc1 else mc1
            | None \<Rightarrow> mc1))"

definition notifynode :: "handle \<Rightarrow> megaclient \<Rightarrow> megaclient" where
  "notifynode h mc =
     (case nodebyhandle mc h of
        None \<Rightarrow> mc
      | Some n \<Rightarrow>
          (let mc1 = notify_local h n mc in
           if \<not> n_notified n
           then (upd_node h (\<lambda>n. n\<lparr>n_notified := True\<rparr>) mc1)\<lparr>mc_nodenotify := mc_nodenotify mc1 @ [h]\<rparr>
           else mc1))"

text \<open>\<open>TreeProcDel::proc\<close>.\<close>

definition treedel :: "handle \<Rightarrow> megaclient \<Rightarrow> megaclient" where
  "treedel h mc = notifynode h (upd_node h (\<lambda>n. n\<lparr>n_removed := True\<rparr>) mc)"

section \<open>Rights\<close>

partial_function (option) climb_access :: "megaclient \<Rightarrow> handle option \<Rightarrow> int \<Rightarrow> bool option" where
  "climb_access mc n a =
     (case n of
        None \<Rightarrow> Some False
      | Some h \<Rightarrow>
          (case nodebyhandle mc h of
             None \<Rightarrow> None
           | Some nd \<Rightarrow>
               (case n_inshare nd of
                  Some sh \<Rightarrow> Some (a \<le> sh_access sh)
                | None \<Rightarrow> if n_parent nd = None then Some (FOLDERNODE < n_type nd) else climb_access mc (n_parent nd) a)))"

definition checkaccess :: "libs \<Rightarrow> megaclient \<Rightarrow> handle \<Rightarrow> int \<Rightarrow> bool option" where
  "checkaccess L mc h a =
     (if a < OWNERPRELOGIN \<and> loggedin L mc = NOTLOGGEDIN then Some (a = RDONLY)
      else climb_access mc (Some h) a)"

text \<open>The loop of condition 4: \<open>Some None\<close> is \<open>API_ECIRCULAR\<close>, otherwise where the loop stopped.\<close>

partial_function (option) climb_move :: "megaclient \<Rightarrow> handle \<Rightarrow> handle \<Rightarrow> handle option option" where
  "climb_move mc fn tn =
     (if tn = fn then Some None
      else case nodebyhandle mc tn of
        None \<Rightarrow> None
      | Some t \<Rightarrow>
          (case n_parent t of
             None \<Rightarrow> Some (Some tn)
           | Some q \<Rightarrow> if n_inshare t \<noteq> None then Some (Some tn) else climb_move mc fn q))"

text \<open>The loop of condition 5.\<close>

partial_function (option) climb_top :: "megaclient \<Rightarrow> handle \<Rightarrow> handle option" where
  "climb_top mc fn =
     (case nodebyhandle mc fn of
        None \<Rightarrow> None
      | Some t \<Rightarrow>
          (case n_parent t of
             None \<Rightarrow> Some fn
           | Some q \<Rightarrow> if n_inshare t \<noteq> None then Some fn else climb_top mc q))"

definition inshare_of :: "megaclient \<Rightarrow> handle \<Rightarrow> share option" where
  "inshare_of mc h = Option.bind (nodebyhandle mc h) n_inshare"

text \<open>Of the same user or of none: the source compares the pointers to the users, which are one for each handle.\<close>

definition same_owner :: "megaclient \<Rightarrow> handle \<Rightarrow> handle \<Rightarrow> bool" where
  "same_owner mc f t \<longleftrightarrow>
     f = t \<or>
     (case (inshare_of mc f, inshare_of mc t) of
        (None, None) \<Rightarrow> True
      | (Some s1, Some s2) \<Rightarrow> sh_user s1 = sh_user s2
      | _ \<Rightarrow> False)"

definition checkmove :: "libs \<Rightarrow> megaclient \<Rightarrow> handle \<Rightarrow> handle \<Rightarrow> int option" where
  "checkmove L mc fn tn =
     (case (nodebyhandle mc fn, nodebyhandle mc tn) of
        (Some f, Some t) \<Rightarrow>
          (case n_parent f of
             None \<Rightarrow> Some API_EACCESS
           | Some fp \<Rightarrow>
               (case checkaccess L mc fp FULL of
                  None \<Rightarrow> None
                | Some False \<Rightarrow> Some API_EACCESS
                | Some True \<Rightarrow>
                    if n_type t = FILENODE then Some API_EACCESS
                    else (case checkaccess L mc tn RDWR of
                            None \<Rightarrow> None
                          | Some False \<Rightarrow> Some API_EACCESS
                          | Some True \<Rightarrow>
                              (case climb_move mc fn tn of
                                 None \<Rightarrow> None
                               | Some None \<Rightarrow> Some API_ECIRCULAR
                               | Some (Some t1) \<Rightarrow>
                                   map_option (\<lambda>f1. if same_owner mc f1 t1 then API_OK else API_EACCESS) (climb_top mc fn)))))
      | _ \<Rightarrow> None)"

section \<open>Operations\<close>

definition mark_changed :: "(node_changed \<Rightarrow> node_changed) \<Rightarrow> handle \<Rightarrow> megaclient \<Rightarrow> megaclient" where
  "mark_changed f h mc = notifynode h (upd_node h (\<lambda>n. n\<lparr>n_changed := f (n_changed n)\<rparr>) mc)"

definition rename :: "libs \<Rightarrow> nat \<Rightarrow> handle \<Rightarrow> handle \<Rightarrow> megaclient \<Rightarrow> (int \<times> api_call list \<times> megaclient) option" where
  "rename L k h p mc =
     (case checkmove L mc h p of
        None \<Rightarrow> None
      | Some e \<Rightarrow>
          if e \<noteq> API_OK then Some (e, [], mc)
          else
            map_option
              (\<lambda>(moved, mc1). if moved then (API_OK, [MoveNode h p], mark_changed (\<lambda>c. c\<lparr>ch_parent := True\<rparr>) h mc1) else (API_OK, [], mc1))
              (setparent k p h mc))"

text \<open>\<open>n->attrs.map[nameid(*newattr)] = newattr[1]\<close>: \<open>nameid\<close> is an integer type, and the cast of a
  pointer to it is the address of the name. The attributes are given with these addresses.\<close>

definition setattr :: "libs \<Rightarrow> (u64 \<times> bytes) list \<Rightarrow> handle \<Rightarrow> megaclient \<Rightarrow> (int \<times> api_call list \<times> megaclient) option" where
  "setattr L newattr h mc =
     (case checkaccess L mc h FULL of
        None \<Rightarrow> None
      | Some False \<Rightarrow> Some (API_EACCESS, [], mc)
      | Some True \<Rightarrow>
          (let mc1 = upd_node h (\<lambda>n. n\<lparr>n_attrs := fold (\<lambda>(a, v). om_update a v) newattr (n_attrs n)\<rparr>) mc;
               mc2 = mark_changed (\<lambda>c. c\<lparr>ch_attrs := True\<rparr>) h mc1
           in map_option (\<lambda>n. (API_OK, [SetAttr n], mc2)) (nodebyhandle mc2 h)))"

definition childnodebyname :: "(bytes \<Rightarrow> bytes option) \<Rightarrow> megaclient \<Rightarrow> handle \<Rightarrow> bytes \<Rightarrow> handle option" where
  "childnodebyname nfc mc p name =
     (let nname = normalize nfc name in
      case nodebyhandle mc p of
        None \<Rightarrow> None
      | Some n \<Rightarrow> find (\<lambda>c. case nodebyhandle mc c of Some m \<Rightarrow> displayname m = cstr nname | None \<Rightarrow> False) (n_children n))"

section \<open>Walks up the parents\<close>

text \<open>The access that the end of the walk grants.\<close>

definition top_access :: "megaclient \<Rightarrow> int \<Rightarrow> handle \<Rightarrow> bool" where
  "top_access mc a f \<longleftrightarrow>
     (case nodebyhandle mc f of
        None \<Rightarrow> False
      | Some n \<Rightarrow> (case n_inshare n of Some sh \<Rightarrow> a \<le> sh_access sh | None \<Rightarrow> FOLDERNODE < n_type n))"

lemma tree_induct [consumes 2, case_names node]:
  assumes t: "tree_ok mc" and "nodebyhandle mc h \<noteq> None"
    and step: "\<And>h n. nodebyhandle mc h = Some n \<Longrightarrow> (\<And>q. n_parent n = Some q \<Longrightarrow> nodebyhandle mc q \<noteq> None \<and> P q) \<Longrightarrow> P h"
  shows "P h"
proof -
  obtain rk d where l: "links_ok mc" and r: "ranked rk d mc" using t by (auto simp: tree_ok_def)
  show ?thesis
    using assms(2)
  proof (induction "rk h" arbitrary: h rule: less_induct)
    case less
    then obtain n where n: "nodebyhandle mc h = Some n" by blast
    show ?case
    proof (rule step [OF n])
      fix q assume q: "n_parent n = Some q"
      have "rk q < rk h" using r n q by (auto simp: ranked_def)
      moreover have "nodebyhandle mc q \<noteq> None" using links_okD(3) [OF l n q] by auto
      ultimately show "nodebyhandle mc q \<noteq> None \<and> P q" using less.hyps by blast
    qed
  qed
qed

lemma climb_top_spec:
  assumes "tree_ok mc" "nodebyhandle mc h \<noteq> None"
  shows "\<exists>f n. climb_top mc h = Some f \<and> under mc f h \<and> nodebyhandle mc f = Some n \<and> (n_inshare n = None \<longrightarrow> n_parent n = None)"
  using assms
proof (induction rule: tree_induct)
  case (node h n)
  show ?case
  proof (cases "n_parent n = None \<or> n_inshare n \<noteq> None")
    case True
    then show ?thesis using node(1) by (subst climb_top.simps) (auto intro: under.here split: option.split)
  next
    case False
    then obtain q where q: "n_parent n = Some q" "n_inshare n = None" by auto
    with node(2) [OF q(1)] show ?thesis using node(1) by (subst climb_top.simps) (auto intro: under.up)
  qed
qed

lemma climb_access_top:
  assumes "tree_ok mc" "nodebyhandle mc h \<noteq> None"
  shows "climb_access mc (Some h) a = map_option (top_access mc a) (climb_top mc h)"
  using assms
proof (induction rule: tree_induct)
  case (node h n)
  have "top_access mc a h = (case n_inshare n of Some sh \<Rightarrow> a \<le> sh_access sh | None \<Rightarrow> FOLDERNODE < n_type n)"
    using node(1) by (simp add: top_access_def)
  then show ?case
    using node by (subst climb_access.simps, subst climb_top.simps) (auto split: option.split)
qed

lemma climb_move_spec:
  assumes "tree_ok mc" "nodebyhandle mc t \<noteq> None"
  shows "climb_move mc f t = Some r \<Longrightarrow> (case r of None \<Rightarrow> under mc f t | Some t1 \<Rightarrow> climb_top mc t = Some t1)"
    and "climb_move mc f t \<noteq> None"
  using assms
proof (induction arbitrary: r rule: tree_induct)
  case (node h n)
  { case 1
    then show ?case using node(1) node(2)
      by (subst (asm) climb_move.simps, subst climb_top.simps) (auto split: option.splits if_splits intro: under.intros)
  next
    case 2
    then show ?case using node(1) node(2) by (subst climb_move.simps) (auto split: option.splits) }
qed

text \<open>A move below itself is noticed unless an inbound share lies in between.\<close>

lemma climb_move_circular:
  assumes "tree_ok mc" "nodebyhandle mc t \<noteq> None" "under mc f t"
    and "\<And>x n. under mc f x \<Longrightarrow> x \<noteq> f \<Longrightarrow> nodebyhandle mc x = Some n \<Longrightarrow> n_inshare n = None"
  shows "climb_move mc f t = Some None"
  using assms(3)
proof (induction rule: under.induct)
  case here
  then show ?case by (subst climb_move.simps) simp
next
  case (up h n q)
  then have "n_inshare n = None" if "h \<noteq> f" using assms(4) [of h n] that by (auto intro: under.up)
  then show ?case using up by (subst climb_move.simps) auto
qed

lemma checkaccess_total:
  assumes "tree_ok mc" "nodebyhandle mc h \<noteq> None"
  shows "\<exists>b. checkaccess L mc h a = Some b"
  using climb_access_top [OF assms, of a] climb_top_spec [OF assms] by (auto simp: checkaccess_def)

section \<open>Permitted moves\<close>

text \<open>What the walks of \<open>checkmove\<close> find.\<close>

definition walks_permit :: "libs \<Rightarrow> megaclient \<Rightarrow> handle \<Rightarrow> handle \<Rightarrow> bool" where
  "walks_permit L mc f t \<longleftrightarrow>
     loggedin L mc \<noteq> NOTLOGGEDIN \<and>
     (\<exists>n m p f0 f1 t1. nodebyhandle mc f = Some n \<and> nodebyhandle mc t = Some m \<and> n_parent n = Some p \<and> n_type m \<noteq> FILENODE \<and>
        climb_top mc p = Some f0 \<and> top_access mc FULL f0 \<and> climb_top mc f = Some f1 \<and> climb_top mc t = Some t1 \<and> top_access mc RDWR t1 \<and>
        same_owner mc f1 t1)"

lemma parent_exists: "tree_ok mc \<Longrightarrow> nodebyhandle mc h = Some n \<Longrightarrow> n_parent n = Some p \<Longrightarrow> nodebyhandle mc p \<noteq> None"
  using links_okD(3) by (fastforce simp: tree_ok_def)

lemma checkmove_total:
  assumes t: "tree_ok mc" and f: "nodebyhandle mc f = Some n" and m: "nodebyhandle mc t = Some m"
  shows "\<exists>e \<in> {API_OK, API_EACCESS, API_ECIRCULAR}. checkmove L mc f t = Some e"
proof (cases "n_parent n")
  case None
  then show ?thesis using f m by (simp add: checkmove_def)
next
  case (Some p)
  obtain b where "checkaccess L mc p FULL = Some b"
    using checkaccess_total [OF t parent_exists [OF t f Some]] by blast
  moreover obtain c where "checkaccess L mc t RDWR = Some c" using checkaccess_total [OF t, of t] m by blast
  moreover obtain r where "climb_move mc f t = Some r" using climb_move_spec(2) [OF t, of t f] m by fastforce
  moreover obtain f1 where "climb_top mc f = Some f1" using climb_top_spec [OF t, of f] f by auto
  ultimately show ?thesis using f m Some by (auto simp: checkmove_def split: bool.split option.split)
qed

lemma checkaccess_True:
  assumes "tree_ok mc" "nodebyhandle mc h \<noteq> None" "0 < a" "a < OWNERPRELOGIN"
  shows "checkaccess L mc h a = Some True \<longleftrightarrow>
    loggedin L mc \<noteq> NOTLOGGEDIN \<and> (\<exists>f. climb_top mc h = Some f \<and> top_access mc a f)"
  using assms climb_top_spec [OF assms(1,2)] by (auto simp: checkaccess_def climb_access_top)

text \<open>\<open>checkmove\<close> says yes exactly to the permitted moves that are not noticed to be circular.\<close>

lemma checkmove_OK_iff:
  assumes t: "tree_ok mc"
  shows "checkmove L mc f t = Some API_OK \<longleftrightarrow> walks_permit L mc f t \<and> climb_move mc f t \<noteq> Some None"
proof (cases "\<exists>n m p. nodebyhandle mc f = Some n \<and> nodebyhandle mc t = Some m \<and> n_parent n = Some p")
  case True
  then obtain n m p where n: "nodebyhandle mc f = Some n" "nodebyhandle mc t = Some m" "n_parent n = Some p" by blast
  note acc = checkaccess_True [OF t parent_exists [OF t n(1,3)], of FULL L] checkaccess_True [OF t, of t RDWR L]
  obtain r where r: "climb_move mc f t = Some r" using climb_move_spec(2) [OF t, of t f] n(2) by fastforce
  then have ct: "\<And>t1. r = Some t1 \<Longrightarrow> climb_top mc t = Some t1" using climb_move_spec(1) [OF t, of t f r] n(2) by auto
  obtain f1 where f1: "climb_top mc f = Some f1" using climb_top_spec [OF t, of f] n by auto
  obtain b c where bc: "checkaccess L mc p FULL = Some b" "checkaccess L mc t RDWR = Some c"
    using checkaccess_total [OF t] parent_exists [OF t n(1,3)] n(2) by blast
  have "checkmove L mc f t = Some API_OK \<longleftrightarrow>
      b \<and> n_type m \<noteq> FILENODE \<and> c \<and> (\<exists>t1. r = Some t1 \<and> same_owner mc f1 t1)"
    using n bc r f1 by (auto simp: checkmove_def split: bool.split option.split)
  also have "\<dots> \<longleftrightarrow> walks_permit L mc f t \<and> r \<noteq> None"
    using n bc f1 ct acc by (auto simp: walks_permit_def)
  finally show ?thesis using r by simp
next
  case False
  then show ?thesis by (auto simp: checkmove_def walks_permit_def split: option.split)
qed

text \<open>
  The specification, without walks. A node is in an own tree when no node at or above it is an inbound share; otherwise the innermost inbound share
  around it counts.
\<close>

definition shared_by :: "megaclient \<Rightarrow> handle \<Rightarrow> share \<Rightarrow> bool" where
  "shared_by mc h sh \<longleftrightarrow> (\<exists>n. nodebyhandle mc h = Some n \<and> n_inshare n = Some sh)"

definition in_own_tree :: "megaclient \<Rightarrow> handle \<Rightarrow> bool" where
  "in_own_tree mc h \<longleftrightarrow> (\<forall>x sh. under mc x h \<longrightarrow> \<not> shared_by mc x sh)"

definition inner_share :: "megaclient \<Rightarrow> handle \<Rightarrow> share \<Rightarrow> bool" where
  "inner_share mc h sh \<longleftrightarrow> (\<exists>s. under mc s h \<and> shared_by mc s sh \<and> (\<forall>x sh'. under mc x h \<longrightarrow> shared_by mc x sh' \<longrightarrow> under mc x s))"

definition own_root :: "megaclient \<Rightarrow> handle \<Rightarrow> bool" where
  "own_root mc h \<longleftrightarrow> (\<exists>r n. under mc r h \<and> nodebyhandle mc r = Some n \<and> n_parent n = None \<and> FOLDERNODE < n_type n)"

definition may_access :: "megaclient \<Rightarrow> int \<Rightarrow> handle \<Rightarrow> bool" where
  "may_access mc a h \<longleftrightarrow> (\<exists>sh. inner_share mc h sh \<and> a \<le> sh_access sh) \<or> in_own_tree mc h \<and> own_root mc h"

definition may_move :: "libs \<Rightarrow> megaclient \<Rightarrow> handle \<Rightarrow> handle \<Rightarrow> bool" where
  "may_move L mc f t \<longleftrightarrow>
     loggedin L mc \<noteq> NOTLOGGEDIN \<and>
     (\<exists>n m p. nodebyhandle mc f = Some n \<and> nodebyhandle mc t = Some m \<and> n_parent n = Some p \<and> n_type m \<noteq> FILENODE \<and>
        may_access mc FULL p \<and> may_access mc RDWR t) \<and>
     (in_own_tree mc f \<and> in_own_tree mc t \<or> (\<exists>a b. inner_share mc f a \<and> inner_share mc t b \<and> sh_user a = sh_user b))"

lemma shared_by_inshare_of: "shared_by mc h sh \<longleftrightarrow> inshare_of mc h = Some sh"
  by (auto simp: shared_by_def inshare_of_def bind_eq_Some_conv)

lemma under_step: "nodebyhandle mc h = Some n \<Longrightarrow> under mc x h \<longleftrightarrow> x = h \<or> (\<exists>q. n_parent n = Some q \<and> under mc x q)"
  by (subst under_iff) auto

lemma under_antisym:
  assumes "tree_ok mc" "under mc a b" "under mc b a"
  shows "a = b"
proof -
  obtain rk d where r: "ranked rk d mc" using assms(1) by (auto simp: tree_ok_def)
  have less: "rk x \<le> rk y \<and> (rk x = rk y \<longrightarrow> x = y)" if "under mc x y" for x y
    using that
  proof induction
    case (up h n q)
    have "rk q < rk h" using r up(1,2) by (auto simp: ranked_def)
    then show ?case using up.IH by auto
  qed simp
  show ?thesis using less [OF assms(2)] less [OF assms(3)] by simp
qed

lemma inner_share_here:
  assumes t: "tree_ok mc" and s: "shared_by mc h s"
  shows "inner_share mc h sh \<longleftrightarrow> s = sh"
proof
  assume "inner_share mc h sh"
  then obtain x where x: "under mc x h" "shared_by mc x sh" and in_all: "\<And>y sh'. under mc y h \<Longrightarrow> shared_by mc y sh' \<Longrightarrow> under mc y x"
    unfolding inner_share_def by blast
  have "x = h" using under_antisym [OF t x(1) in_all [OF under.here s]] .
  then show "s = sh" using x(2) s by (simp add: shared_by_inshare_of)
next
  assume "s = sh"
  then show "inner_share mc h sh" unfolding inner_share_def using s by (intro exI [of _ h]) (simp add: under.here)
qed

lemma inner_share_up:
  assumes n: "nodebyhandle mc h = Some n" "n_inshare n = None" "n_parent n = Some q"
  shows "inner_share mc h sh \<longleftrightarrow> inner_share mc q sh"
proof -
  have no: "\<not> shared_by mc h s" for s using n by (simp add: shared_by_def)
  have "under mc x h \<and> shared_by mc x s \<longleftrightarrow> under mc x q \<and> shared_by mc x s" for x s
    using no [of s] n(3) by (auto simp: under_step [OF n(1)])
  then show ?thesis unfolding inner_share_def by metis
qed

lemma inner_share_none:
  assumes n: "nodebyhandle mc h = Some n" "n_inshare n = None" "n_parent n = None"
  shows "\<not> inner_share mc h sh"
  using n by (auto simp: inner_share_def under_step [OF n(1)] shared_by_def)

lemma in_own_tree_step:
  assumes n: "nodebyhandle mc h = Some n"
  shows "in_own_tree mc h \<longleftrightarrow> n_inshare n = None \<and> (\<forall>q. n_parent n = Some q \<longrightarrow> in_own_tree mc q)"
proof -
  have "n_inshare n = None \<longleftrightarrow> (\<forall>s. \<not> shared_by mc h s)" using n by (cases "n_inshare n") (auto simp: shared_by_def)
  then show ?thesis unfolding in_own_tree_def under_step [OF n] by metis
qed

lemma own_root_step:
  assumes n: "nodebyhandle mc h = Some n"
  shows "own_root mc h \<longleftrightarrow> (case n_parent n of None \<Rightarrow> FOLDERNODE < n_type n | Some q \<Rightarrow> own_root mc q)"
proof (cases "n_parent n")
  case None
  then show ?thesis using n by (auto simp: own_root_def under_step [OF n])
next
  case (Some q)
  then show ?thesis using n unfolding own_root_def under_step [OF n] by auto
qed

lemma climb_top_realm:
  assumes "tree_ok mc" "nodebyhandle mc h \<noteq> None"
  shows "\<exists>r. climb_top mc h = Some r \<and> (\<forall>sh. inner_share mc h sh \<longleftrightarrow> inshare_of mc r = Some sh) \<and> (in_own_tree mc h \<longleftrightarrow> inshare_of mc r = None) \<and>
    (\<forall>a. may_access mc a h \<longleftrightarrow> top_access mc a r)"
  using assms
proof (induction rule: tree_induct)
  case (node h n)
  have top: ?case if "n_parent n = None \<or> n_inshare n \<noteq> None"
  proof (rule exI [of _ h], intro conjI allI)
    show "climb_top mc h = Some h" using that node(1) by (subst climb_top.simps) (auto split: option.split)
    show i: "inner_share mc h sh \<longleftrightarrow> inshare_of mc h = Some sh" for sh
      using that node(1) inner_share_here [OF assms(1), of h] inner_share_none [OF node(1)]
      by (cases "n_inshare n") (auto simp: shared_by_inshare_of inshare_of_def)
    show w: "in_own_tree mc h \<longleftrightarrow> inshare_of mc h = None"
      using that node(1) by (auto simp: in_own_tree_step [OF node(1)] inshare_of_def)
    show "may_access mc a h \<longleftrightarrow> top_access mc a h" for a
      unfolding may_access_def i w own_root_step [OF node(1)] using that node(1)
      by (cases "n_inshare n") (auto simp: inshare_of_def top_access_def)
  qed
  show ?case
  proof (cases "n_parent n = None \<or> n_inshare n \<noteq> None")
    case False
    then obtain q where q: "n_parent n = Some q" "n_inshare n = None" by auto
    have "climb_top mc h = climb_top mc q" using q node(1) by (subst climb_top.simps) simp
    moreover have "inner_share mc h sh = inner_share mc q sh" "in_own_tree mc h = in_own_tree mc q" "own_root mc h = own_root mc q" for sh
      using inner_share_up [OF node(1) q(2,1)] in_own_tree_step [OF node(1)] own_root_step [OF node(1)] q by simp_all
    ultimately show ?thesis using node(2) [OF q(1)] by (simp add: may_access_def)
  qed (rule top)
qed

lemma may_move_iff:
  assumes t: "tree_ok mc"
  shows "may_move L mc f t \<longleftrightarrow> walks_permit L mc f t"
proof (cases "\<exists>n m p. nodebyhandle mc f = Some n \<and> nodebyhandle mc t = Some m \<and> n_parent n = Some p")
  case True
  then obtain n m p where n: "nodebyhandle mc f = Some n" "nodebyhandle mc t = Some m" "n_parent n = Some p" by blast
  obtain f0 f1 t1 where f: "climb_top mc p = Some f0" "climb_top mc f = Some f1" "climb_top mc t = Some t1"
    and r: "\<And>sh. inner_share mc f sh \<longleftrightarrow> inshare_of mc f1 = Some sh" "in_own_tree mc f \<longleftrightarrow> inshare_of mc f1 = None"
      "\<And>sh. inner_share mc t sh \<longleftrightarrow> inshare_of mc t1 = Some sh" "in_own_tree mc t \<longleftrightarrow> inshare_of mc t1 = None"
      "may_access mc FULL p \<longleftrightarrow> top_access mc FULL f0" "may_access mc RDWR t \<longleftrightarrow> top_access mc RDWR t1"
    using climb_top_realm [OF t parent_exists [OF t n(1,3)]] climb_top_realm [OF t, of f] climb_top_realm [OF t, of t] n by auto
  have o: "same_owner mc f1 t1 \<longleftrightarrow> in_own_tree mc f \<and> in_own_tree mc t \<or> (\<exists>a b. inner_share mc f a \<and> inner_share mc t b \<and> sh_user a = sh_user b)"
    unfolding same_owner_def r by (auto split: option.split)
  show ?thesis unfolding may_move_def walks_permit_def o [symmetric] using n f r(5,6) by auto
qed (auto simp: may_move_def walks_permit_def)

definition inshares_below :: "megaclient \<Rightarrow> handle \<Rightarrow> bool" where
  "inshares_below mc f \<longleftrightarrow> (\<exists>x sh. under mc f x \<and> x \<noteq> f \<and> shared_by mc x sh)"

text \<open>Without inbound shares below the moved node, the test for circles is exact.\<close>

lemma checkmove_spec:
  assumes t: "tree_ok mc" and flat: "\<not> inshares_below mc f"
  shows "checkmove L mc f t = Some API_OK \<longleftrightarrow> may_move L mc f t \<and> \<not> under mc f t"
proof -
  have noshare: "n_inshare n = None" if "under mc f x" "x \<noteq> f" "nodebyhandle mc x = Some n" for x n
    using flat that by (cases "n_inshare n") (auto simp: inshares_below_def shared_by_def)
  have "climb_move mc f t = Some None \<longleftrightarrow> under mc f t" if "nodebyhandle mc t \<noteq> None"
    using climb_move_circular [OF t that _ noshare] climb_move_spec(1) [OF t that, of f None] by auto
  then show ?thesis using checkmove_OK_iff [OF t, of L f t] unfolding may_move_iff [OF t] by (auto simp: walks_permit_def)
qed

text \<open>An inbound share between the moved node and the target hides the circle.\<close>

lemma climb_move_hidden:
  assumes t: "tree_ok mc" and f: "under mc f x" "x \<noteq> f" "shared_by mc x sh" and x: "under mc x y"
  shows "climb_move mc f y \<noteq> Some None"
  using x
proof (induction rule: under.induct)
  case here
  then show ?case using f(2,3) by (subst climb_move.simps) (auto simp: shared_by_def split: option.split)
next
  case (up h n q)
  have "h \<noteq> f" using under_antisym [OF t, of x f] f(1,2) up under.up [OF up(1,2,3)] by auto
  then show ?case using up by (subst climb_move.simps) (auto split: option.split)
qed

section \<open>What notifications leave alone\<close>

lemma upd_local_simps [simp]:
  "mc_nodes (upd_local l f mc) = mc_nodes mc" "mc_key (upd_local l f mc) = mc_key mc" "mc_me (upd_local l f mc) = mc_me mc"
  "mc_users (upd_local l f mc) = mc_users mc" "mc_newshares (upd_local l f mc) = mc_newshares mc" "mc_asymkey (upd_local l f mc) = mc_asymkey mc"
  "mc_nodenotify (upd_local l f mc) = mc_nodenotify mc"
  by (simp_all add: upd_local_def split: option.split)

lemma upd_node_simps [simp]:
  "mc_key (upd_node h f mc) = mc_key mc" "mc_me (upd_node h f mc) = mc_me mc"
  "mc_users (upd_node h f mc) = mc_users mc" "mc_newshares (upd_node h f mc) = mc_newshares mc" "mc_asymkey (upd_node h f mc) = mc_asymkey mc"
  "mc_nodenotify (upd_node h f mc) = mc_nodenotify mc"
  by (simp_all add: upd_node_def split: option.split)

lemma nodebyhandle_upd_local [simp]: "nodebyhandle (upd_local l f mc) h = nodebyhandle mc h"
  by (simp add: nodebyhandle_def)

text \<open>Two nodes that agree up to the marks of a notification.\<close>

definition alike :: "node \<Rightarrow> node \<Rightarrow> bool" where
  "alike a b \<longleftrightarrow> b\<lparr>n_local := n_local a, n_notified := n_notified a\<rparr> = a"

lemma alikeD:
  assumes "alike a b"
  shows "\<exists>l v. b = a\<lparr>n_local := l, n_notified := v\<rparr>"
proof (intro exI)
  show "b = a\<lparr>n_local := n_local b, n_notified := n_notified b\<rparr>"
    using assms by (cases a, cases b) (simp add: alike_def)
qed

lemma notify_local_simps:
  "mc_key (notify_local h n mc) = mc_key mc" "mc_me (notify_local h n mc) = mc_me mc"
  "mc_users (notify_local h n mc) = mc_users mc" "mc_newshares (notify_local h n mc) = mc_newshares mc"
  "mc_asymkey (notify_local h n mc) = mc_asymkey mc" "mc_nodenotify (notify_local h n mc) = mc_nodenotify mc"
  "om_invar (mc_nodes mc) \<Longrightarrow> om_invar (mc_nodes (notify_local h n mc))"
  "rel_option alike (nodebyhandle mc x) (nodebyhandle (notify_local h n mc) x)"
  unfolding notify_local_def Let_def
  by (auto simp: upd_node_lookup upd_node_invar alike_def rel_option_iff split: option.split)

lemma notifynode_simps [simp]:
  "mc_key (notifynode h mc) = mc_key mc" "mc_me (notifynode h mc) = mc_me mc"
  "mc_users (notifynode h mc) = mc_users mc" "mc_newshares (notifynode h mc) = mc_newshares mc"
  "mc_asymkey (notifynode h mc) = mc_asymkey mc"
  "om_invar (mc_nodes mc) \<Longrightarrow> om_invar (mc_nodes (notifynode h mc))"
  by (auto simp: notifynode_def Let_def notify_local_simps upd_node_invar split: option.split)

lemma notifynode_alike: "rel_option alike (nodebyhandle mc x) (nodebyhandle (notifynode h mc) x)"
proof (cases "nodebyhandle mc h")
  case None
  then show ?thesis by (auto simp: notifynode_def alike_def rel_option_iff split: option.split)
next
  case (Some n)
  note r = notify_local_simps(8) [of mc x h n]
  have nb: "nodebyhandle (m\<lparr>mc_nodenotify := v\<rparr>) x = nodebyhandle m x" for m v by (simp add: nodebyhandle_def)
  show ?thesis
    using r Some by (auto simp: notifynode_def Let_def upd_node_lookup nb alike_def rel_option_iff split: option.splits)
qed

text \<open>The search for a synchronized parent does not return from a circle without one.\<close>

definition circle :: "megaclient \<Rightarrow> handle set \<Rightarrow> bool" where
  "circle mc S \<longleftrightarrow> (\<forall>h \<in> S. \<exists>n q. nodebyhandle mc h = Some n \<and> n_local n = None \<and> n_parent n = Some q \<and> q \<in> S)"

lemma synced_above_circle:
  assumes "circle mc S" "h \<in> S"
  shows "synced_above mc (Some h) = None"
proof (rule ccontr)
  assume "synced_above mc (Some h) \<noteq> None"
  then obtain y where y: "synced_above mc (Some h) = Some y" by blast
  have "\<not> (circle mc S \<and> Some h \<in> Some ` S)"
  proof (rule synced_above.raw_induct [where P = "\<lambda>mc p y. \<not> (circle mc S \<and> p \<in> Some ` S)", OF _ y])
    fix f mc p y
    assume IH: "\<And>mc p y. f mc p = Some y \<Longrightarrow> \<not> (circle mc S \<and> p \<in> Some ` S)"
      and eq: "(case p of None \<Rightarrow> Some False
        | Some h \<Rightarrow> (case nodebyhandle mc h of None \<Rightarrow> None
            | Some nd \<Rightarrow> if n_local nd \<noteq> None then Some True else f mc (n_parent nd))) = Some y"
    show "\<not> (circle mc S \<and> p \<in> Some ` S)"
    proof
      assume c: "circle mc S \<and> p \<in> Some ` S"
      then obtain h n q where "p = Some h" "nodebyhandle mc h = Some n" "n_local n = None" "n_parent n = Some q" "q \<in> S"
        by (auto simp: circle_def)
      with eq have "f mc (Some q) = Some y" "Some q \<in> Some ` S" by simp_all
      with IH [OF this(1)] c show False by blast
    qed
  qed
  then show False using assms by blast
qed

text \<open>A node moved below itself closes the path between the two to a circle.\<close>

lemma circle_moved:
  assumes inv: "om_invar (mc_nodes mc)" and f: "nodebyhandle mc f = Some n" and t: "under mc f t"
    and l: "\<And>y m. under mc f y \<Longrightarrow> under mc y t \<Longrightarrow> nodebyhandle mc y = Some m \<Longrightarrow> n_local m = None"
  shows "circle (relink t f n mc) {y. under mc f y \<and> under mc y t}"
  unfolding circle_def
proof
  fix y assume "y \<in> {y. under mc f y \<and> under mc y t}"
  then have y: "under mc f y" "under mc y t" by simp_all
  have "\<exists>m q. nodebyhandle mc y = Some m \<and> (if y = f then q = t else n_parent m = Some q) \<and> under mc f q \<and> under mc q t"
    using y(1)
  proof (cases rule: under.cases)
    case here
    then show ?thesis using f t by (auto intro: under.here)
  next
    case (up m q)
    have "under mc q y" by (rule under.up [OF up(1,2) under.here])
    then show ?thesis using up f t under_trans [OF y(2)] by (cases "y = f") (auto intro: under.here)
  qed
  then obtain m q where m: "nodebyhandle mc y = Some m" "if y = f then q = t else n_parent m = Some q" "under mc f q" "under mc q t" by blast
  show "\<exists>m q. nodebyhandle (relink t f n mc) y = Some m \<and> n_local m = None \<and> n_parent m = Some q \<and> q \<in> {y. under mc f y \<and> under mc y t}"
    using m l [OF y m(1)] by (auto simp: relink_lookup(1) [OF inv] moved_def split: if_splits)
qed

lemma circular_move:
  assumes t: "tree_ok mc" and m: "may_move L mc f p" and x: "under mc f x" "x \<noteq> f" "shared_by mc x sh" "under mc x p"
    and l: "\<And>y n. under mc f y \<Longrightarrow> under mc y p \<Longrightarrow> nodebyhandle mc y = Some n \<Longrightarrow> n_local n = None"
  shows "checkmove L mc f p = Some API_OK"
    and "\<exists>n. nodebyhandle mc f = Some n \<and> synced_above (relink p f n mc) (Some p) = None"
    and "rename L k f p mc = None"
proof -
  obtain n where n: "nodebyhandle mc f = Some n" using m by (auto simp: may_move_def)
  have fp: "under mc f p" by (rule under_trans [OF x(4,1)])
  have c: "checkmove L mc f p = Some API_OK"
    using checkmove_OK_iff [OF t, of L f p] m climb_move_hidden [OF t x] by (simp add: may_move_iff [OF t])
  have inv: "om_invar (mc_nodes mc)" using t by (simp add: tree_ok_def links_ok_def)
  have s: "synced_above (relink p f n mc) (Some p) = None"
    by (rule synced_above_circle [OF circle_moved [OF inv n fp l]]) (use fp in \<open>auto intro: under.here\<close>)
  have "n_parent n \<noteq> Some p"
  proof
    assume "n_parent n = Some p"
    then have "under mc x f" using n x(4) by (blast intro: under.up)
    then show False using under_antisym [OF t x(1)] x(2) by simp
  qed
  moreover have "n_local n = None" by (rule l [OF under.here fp n])
  ultimately have "setparent k p f mc = None" using s n by (simp add: setparent_def moves_freely_def Let_def)
  then show "rename L k f p mc = None" using c by (simp add: rename_def)
  show "checkmove L mc f p = Some API_OK" by (rule c)
  show "\<exists>n. nodebyhandle mc f = Some n \<and> synced_above (relink p f n mc) (Some p) = None" using n s by blast
qed

end
