(* ===== verification/Merge_Shares.thy ===== *)
theory Merge_Shares
  imports Access
begin

text \<open>
  \<open>mergenewshares\<close> of \<open>src/megaclient.cpp\<close>: the shares that the server announced, or that the local cache
  holds, are entered into the nodes. The server is not trusted with outbound shares: a share key needs the
  authentication token of the node, and the account's own trees never become inbound shares.
\<close>

section \<open>New shares\<close>

text \<open>\<open>auth\<close>: \<open>junk\<close> is what the buffer \<open>s->auth\<close> holds when the share came without one.\<close>

definition merge_auth :: "libs \<Rightarrow> bytes \<Rightarrow> newshare \<Rightarrow> megaclient \<Rightarrow> bool option" where
  "merge_auth L junk s mc =
     (if ns_outgoing s > 0 then
        map_option (\<lambda>own. own \<and> handleauth (lib_aes L) (mc_key mc) (ns_h s) = (case ns_auth s of Some a \<Rightarrow> a | None \<Rightarrow> junk))
          (checkaccess L mc (ns_h s) OWNERPRELOGIN)
      else Some True)"

definition merge_key :: "libs \<Rightarrow> bytes \<Rightarrow> newshare \<Rightarrow> node \<Rightarrow> megaclient \<Rightarrow> megaclient option" where
  "merge_key L junk s n mc =
     (case (n_sharekey n, ns_key s) of
        (None, Some key) \<Rightarrow>
          map_option (\<lambda>auth. if auth then upd_node (ns_h s) (\<lambda>n. n\<lparr>n_sharekey := Some (symm_setkey key 1 symm_new)\<rparr>) mc else mc)
            (merge_auth L junk s mc)
      | _ \<Rightarrow> Some mc)"

definition mark_outshares :: "bool \<Rightarrow> handle \<Rightarrow> megaclient \<Rightarrow> megaclient" where
  "mark_outshares noti h mc = (if noti then mark_changed (\<lambda>c. c\<lparr>ch_outshares := True\<rparr>) h mc else mc)"

definition merge_delete :: "nat \<Rightarrow> bool \<Rightarrow> newshare \<Rightarrow> node \<Rightarrow> megaclient \<Rightarrow> megaclient option" where
  "merge_delete k noti s n mc =
     (if ns_outgoing s \<noteq> 0 then
        (let outs = om_delete (ns_peer s) (n_outshares n);
             mc1 = upd_node (ns_h s) (\<lambda>n. n\<lparr>n_outshares := outs\<rparr>) mc;
             mc2 = mark_outshares (noti \<and> om_lookup (n_outshares n) (ns_peer s) \<noteq> None) (ns_h s) mc1
         in Some (if outs = [] then upd_node (ns_h s) (\<lambda>n. n\<lparr>n_sharekey := None\<rparr>) mc2 else mc2))
      else proctree k id treedel (ns_h s) mc)"

text \<open>\<open>finduser(s->peer, 1)\<close>: the pointer and the client.\<close>

definition peer_user :: "handle \<Rightarrow> megaclient \<Rightarrow> handle option \<times> megaclient" where
  "peer_user p mc =
     (let (i, t) = finduser_handle p True (mc_users mc) in (map_option (\<lambda>_. p) i, mc\<lparr>mc_users := t\<rparr>))"

definition merge_outshare :: "libs \<Rightarrow> bool \<Rightarrow> newshare \<Rightarrow> node \<Rightarrow> megaclient \<Rightarrow> megaclient option" where
  "merge_outshare L noti s n mc =
     map_option (\<lambda>own.
         if own then
           (let (sh, mc1) = (case om_lookup (n_outshares n) (ns_peer s) of
                               Some sh \<Rightarrow> (share_update (ns_access s) (ns_ts s) sh, mc)
                             | None \<Rightarrow> (let (u, mc') = peer_user (ns_peer s) mc in (Share u (ns_access s) (ns_ts s), mc')))
            in mark_outshares noti (ns_h s) (upd_node (ns_h s) (\<lambda>n. n\<lparr>n_outshares := om_update (ns_peer s) sh (n_outshares n)\<rparr>) mc1))
         else mc)
       (checkaccess L mc (ns_h s) OWNERPRELOGIN)"

text \<open>\<open>n->inshare->user->sharing.insert(n->nodehandle)\<close>.\<close>

definition add_sharing :: "handle \<Rightarrow> handle \<Rightarrow> megaclient \<Rightarrow> megaclient" where
  "add_sharing p h mc =
     (case fst (finduser_handle p False (mc_users mc)) of
        None \<Rightarrow> mc
      | Some i \<Rightarrow> mc\<lparr>mc_users := put_user i ((users_at (mc_users mc) i)\<lparr>u_sharing := insort h (removeAll h (u_sharing (users_at (mc_users mc) i)))\<rparr>) (mc_users mc)\<rparr>)"

definition merge_inshare :: "libs \<Rightarrow> bool \<Rightarrow> newshare \<Rightarrow> node \<Rightarrow> megaclient \<Rightarrow> megaclient option" where
  "merge_inshare L noti s n mc =
     (if ns_peer s = 0 then Some mc
      else
        map_option (\<lambda>own.
            if own then mc
            else
              (let (sh, mc1) = (case n_inshare n of
                                  Some sh \<Rightarrow> (share_update (ns_access s) (ns_ts s) sh, mc)
                                | None \<Rightarrow> (let (u, mc') = peer_user (ns_peer s) mc
                                           in (Share u (ns_access s) (ns_ts s), add_sharing (ns_peer s) (ns_h s) mc')));
                   mc2 = upd_node (ns_h s) (\<lambda>n. n\<lparr>n_inshare := Some sh\<rparr>) mc1
               in if noti then mark_changed (\<lambda>c. c\<lparr>ch_inshare := True\<rparr>) (ns_h s) mc2 else mc2))
          (checkaccess L mc (ns_h s) OWNERPRELOGIN))"

definition merge_share :: "libs \<Rightarrow> nat \<Rightarrow> bool \<Rightarrow> newshare \<Rightarrow> node \<Rightarrow> megaclient \<Rightarrow> megaclient option" where
  "merge_share L k noti s n mc =
     (if ns_access s = ACCESS_UNKNOWN \<and> ns_key s = None then merge_delete k noti s n mc
      else if ISUNDEF (ns_peer s) then Some mc
      else if ns_outgoing s \<noteq> 0 then merge_outshare L noti s n mc
      else merge_inshare L noti s n mc)"

definition merge_newshare :: "libs \<Rightarrow> nat \<Rightarrow> bool \<Rightarrow> bytes \<Rightarrow> newshare \<Rightarrow> megaclient \<Rightarrow> megaclient option" where
  "merge_newshare L k noti junk s mc =
     (case nodebyhandle mc (ns_h s) of
        None \<Rightarrow> Some mc
      | Some n \<Rightarrow> Option.bind (merge_key L junk s n mc) (merge_share L k noti s n))"

definition mergenewshares :: "libs \<Rightarrow> nat \<Rightarrow> bool \<Rightarrow> bytes \<Rightarrow> megaclient \<Rightarrow> megaclient option" where
  "mergenewshares L k noti junk mc =
     map_option (\<lambda>mc1. mc1\<lparr>mc_newshares := []\<rparr>)
       (fold (\<lambda>s r. Option.bind r (merge_newshare L k noti junk s)) (mc_newshares mc) (Some mc))"

text \<open>\<open>MegaClient::unlink\<close>.\<close>

definition unlink :: "libs \<Rightarrow> nat \<Rightarrow> bytes \<Rightarrow> handle \<Rightarrow> megaclient \<Rightarrow> (int \<times> api_call list \<times> megaclient) option" where
  "unlink L k junk h mc =
     (case checkaccess L mc h FULL of
        None \<Rightarrow> None
      | Some False \<Rightarrow> Some (API_EACCESS, [], mc)
      | Some True \<Rightarrow>
          map_option (\<lambda>mc1. (API_OK, [DelNode h], mc1))
            (Option.bind (mergenewshares L k True junk mc) (proctree k id treedel h)))"

section \<open>Shares are merged safely\<close>

text \<open>Nodes of the account's own trees.\<close>

definition owned :: "megaclient \<Rightarrow> handle \<Rightarrow> bool" where
  "owned mc h \<longleftrightarrow> (\<exists>r n. under mc r h \<and> nodebyhandle mc r = Some n \<and> n_parent n = None \<and> FOLDERNODE < n_type n)"

definition own_clean :: "megaclient \<Rightarrow> bool" where
  "own_clean mc \<longleftrightarrow> (\<forall>h n. nodebyhandle mc h = Some n \<longrightarrow> owned mc h \<longrightarrow> n_inshare n = None)"

text \<open>What a share that is merged may do to the node \<open>x\<close>.\<close>

definition merge_rel :: "(handle \<Rightarrow> symm \<Rightarrow> bool) \<Rightarrow> (handle \<Rightarrow> bool) \<Rightarrow> handle \<Rightarrow> node \<Rightarrow> node \<Rightarrow> bool" where
  "merge_rel allowed own x a b \<longleftrightarrow>
     n_type b = n_type a \<and> n_parent b = n_parent a \<and> n_children b = n_children a \<and> (n_removed a \<longrightarrow> n_removed b) \<and>
     (\<forall>k. n_sharekey b = Some k \<longrightarrow> n_sharekey a = Some k \<or> allowed x k) \<and>
     (n_inshare b \<noteq> None \<longrightarrow> n_inshare a \<noteq> None \<or> \<not> own x)"

definition merge_to :: "(handle \<Rightarrow> symm \<Rightarrow> bool) \<Rightarrow> (handle \<Rightarrow> bool) \<Rightarrow> megaclient \<Rightarrow> megaclient \<Rightarrow> bool" where
  "merge_to allowed own mc mc' \<longleftrightarrow>
     (\<forall>x. rel_option (merge_rel allowed own x) (nodebyhandle mc x) (nodebyhandle mc' x)) \<and>
     (om_invar (mc_nodes mc) \<longrightarrow> om_invar (mc_nodes mc')) \<and> mc_key mc' = mc_key mc"

lemma merge_rel_refl: "merge_rel allowed own x a a"
  by (simp add: merge_rel_def)

lemma merge_rel_trans: "merge_rel allowed own x a b \<Longrightarrow> merge_rel allowed own x b c \<Longrightarrow> merge_rel allowed own x a c"
  unfolding merge_rel_def by fastforce

lemma merge_to_refl: "merge_to allowed own mc mc"
  by (simp add: merge_to_def option.rel_refl merge_rel_refl)

lemma merge_to_trans:
  assumes "merge_to allowed own a b" "merge_to allowed own b c"
  shows "merge_to allowed own a c"
proof -
  have "rel_option (merge_rel allowed own x) (nodebyhandle a x) (nodebyhandle c x)" for x
  proof -
    have "rel_option (merge_rel allowed own x) (nodebyhandle a x) (nodebyhandle b x)"
      "rel_option (merge_rel allowed own x) (nodebyhandle b x) (nodebyhandle c x)"
      using assms by (simp_all add: merge_to_def)
    then show ?thesis by (auto elim!: option.rel_cases intro: merge_rel_trans)
  qed
  then show ?thesis using assms by (simp add: merge_to_def)
qed

lemma merge_to_users: "merge_to allowed own mc mc' \<Longrightarrow> merge_to allowed own mc (mc'\<lparr>mc_users := t\<rparr>)"
  by (simp add: merge_to_def nodebyhandle_def)

lemma merge_to_upd:
  assumes "merge_to allowed own mc mc'" "\<And>n. nodebyhandle mc' h = Some n \<Longrightarrow> merge_rel allowed own h n (f n)"
  shows "merge_to allowed own mc (upd_node h f mc')"
proof -
  have "merge_to allowed own mc' (upd_node h f mc')"
    using assms(2) by (auto simp: merge_to_def upd_node_lookup upd_node_invar merge_rel_refl rel_option_iff split: option.split)
  then show ?thesis using assms(1) merge_to_trans by blast
qed

lemma merge_to_notify: "merge_to allowed own mc mc' \<Longrightarrow> merge_to allowed own mc (notifynode h mc')"
proof -
  have "rel_option (merge_rel allowed own x) (nodebyhandle mc' x) (nodebyhandle (notifynode h mc') x)" for x
    using notifynode_alike [of mc' x h]
    by (rule option.rel_mono_strong) (auto simp: merge_rel_def dest!: alikeD)
  then have "merge_to allowed own mc' (notifynode h mc')" by (simp add: merge_to_def)
  then show "merge_to allowed own mc mc' \<Longrightarrow> merge_to allowed own mc (notifynode h mc')" using merge_to_trans by blast
qed

lemma merge_to_tree: "merge_to allowed own mc mc' \<Longrightarrow> same_tree mc mc'"
proof -
  assume m: "merge_to allowed own mc mc'"
  have "map_option (\<lambda>n. (n_type n, n_parent n, n_children n)) (nodebyhandle mc h) =
      map_option (\<lambda>n. (n_type n, n_parent n, n_children n)) (nodebyhandle mc' h)" for h
  proof -
    have "rel_option (merge_rel allowed own h) (nodebyhandle mc h) (nodebyhandle mc' h)" using m by (simp add: merge_to_def)
    then show ?thesis by (auto elim!: option.rel_cases simp: merge_rel_def)
  qed
  then show "same_tree mc mc'" by (simp add: same_tree_def)
qed

lemma under_same: "under mc p h \<Longrightarrow> same_tree mc mc' \<Longrightarrow> under mc' p h"
proof (induction rule: under.induct)
  case (up h n q)
  then obtain n' where "nodebyhandle mc' h = Some n'" "n_parent n' = n_parent n" using same_treeD by blast
  then show ?case using up by (auto intro: under.up)
qed (rule under.here)

lemma same_tree_sym: "same_tree a b \<Longrightarrow> same_tree b a"
  by (simp add: same_tree_def)

lemma owned_same:
  assumes st: "same_tree mc mc'"
  shows "owned mc' = owned mc"
proof -
  have "owned b x" if ab: "same_tree a b" and o: "owned a x" for a b x
  proof -
    obtain r n where r: "under a r x" "nodebyhandle a r = Some n" "n_parent n = None" "FOLDERNODE < n_type n"
      using o by (auto simp: owned_def)
    obtain n' where "nodebyhandle b r = Some n'" "n_type n' = n_type n" "n_parent n' = n_parent n"
      using same_treeD [OF ab r(2)] by blast
    then show "owned b x" using r under_same [OF r(1) ab] by (auto simp: owned_def)
  qed
  then show ?thesis using st same_tree_sym [OF st] by blast
qed

lemma own_clean_merge:
  assumes c: "own_clean mc" and m: "merge_to allowed (owned mc) mc mc'"
  shows "own_clean mc'"
  unfolding own_clean_def
proof (intro allI impI)
  fix h n' assume n': "nodebyhandle mc' h = Some n'" and o: "owned mc' h"
  have "owned mc h" using o owned_same [OF merge_to_tree [OF m]] by simp
  moreover obtain n where "nodebyhandle mc h = Some n" "merge_rel allowed (owned mc) h n n'"
    using m n' unfolding merge_to_def by (metis option.rel_distinct(1) option.rel_inject(2) option.exhaust)
  ultimately show "n_inshare n' = None" using c by (fastforce simp: own_clean_def merge_rel_def)
qed

lemma under_root: "under mc x r \<Longrightarrow> nodebyhandle mc r = Some n \<Longrightarrow> n_parent n = None \<Longrightarrow> x = r"
  by (erule under.cases) auto

lemma own_top:
  assumes t: "tree_ok mc" and c: "own_clean mc" and o: "owned mc h" and h: "nodebyhandle mc h \<noteq> None"
  obtains f n where "climb_top mc h = Some f" "nodebyhandle mc f = Some n" "n_parent n = None" "n_inshare n = None" "FOLDERNODE < n_type n"
proof -
  obtain r n where r: "under mc r h" "nodebyhandle mc r = Some n" "n_parent n = None" "FOLDERNODE < n_type n"
    using o by (auto simp: owned_def)
  obtain f m where f: "climb_top mc h = Some f" "under mc f h" "nodebyhandle mc f = Some m" "n_inshare m = None \<longrightarrow> n_parent m = None"
    using climb_top_spec [OF t h] by metis
  have "f = r"
  proof (cases "under mc r f")
    case True
    then have "owned mc f" using r by (auto simp: owned_def)
    then have "n_parent m = None" using c f by (auto simp: own_clean_def)
    then show ?thesis using under_root [OF True f(3)] by simp
  next
    case False
    then have "under mc f r" using under_linear [OF r(1) f(2)] by blast
    then show ?thesis using under_root r(2,3) by blast
  qed
  moreover have "owned mc r" using r by (auto simp: owned_def intro: under.here)
  ultimately show ?thesis using that [of r n] f r c by (auto simp: own_clean_def)
qed

lemma own_access:
  assumes "tree_ok mc" "own_clean mc" "owned mc h" "nodebyhandle mc h \<noteq> None"
  shows "climb_access mc (Some h) a = Some True"
  by (rule own_top [OF assms]) (simp add: climb_access_top [OF assms(1,4)] top_access_def)

lemmas merge_step = merge_to_upd merge_to_notify merge_to_users

lemma mark_changed_merge: "merge_to allowed own mc mc' \<Longrightarrow> merge_to allowed own mc (mark_changed f h mc')"
  unfolding mark_changed_def by (intro merge_step) (auto simp: merge_rel_def)

lemma treedel_merge: "merge_to allowed own mc mc' \<Longrightarrow> merge_to allowed own mc (treedel h mc')"
  unfolding treedel_def by (intro merge_step) (auto simp: merge_rel_def)

lemma treedel_tree:
  assumes t: "links_ok mc" "ranked rk d mc" "d \<le> k" and h: "nodebyhandle mc h \<noteq> None"
  shows "proctree k id treedel h mc = Some (fold treedel (postorder k mc h) mc)"
proof (rule proctree_postorder [OF t(1,2)])
  show "same_tree mc (id (treedel c s))" if "same_tree mc (id s)" for c s
    using that merge_to_tree [OF treedel_merge [OF merge_to_refl], of s c] same_tree_trans by auto
qed (use h t(3) in \<open>auto simp: same_tree_def\<close>)

lemma peer_user_merge: "merge_to allowed own mc mc' \<Longrightarrow> merge_to allowed own mc (snd (peer_user p mc'))"
  by (auto simp: peer_user_def case_prod_beta Let_def intro: merge_to_users)

lemma add_sharing_merge: "merge_to allowed own mc mc' \<Longrightarrow> merge_to allowed own mc (add_sharing p h mc')"
  by (auto simp: add_sharing_def intro: merge_to_users split: option.split)

lemma merge_key_to:
  assumes "tree_ok mc" "nodebyhandle mc (ns_h s) = Some n"
    and ok: "\<And>kb. ns_key s = Some kb \<Longrightarrow> (ns_outgoing s > 0 \<longrightarrow> handleauth (lib_aes L) (mc_key mc) (ns_h s) = (case ns_auth s of Some a \<Rightarrow> a | None \<Rightarrow> junk)) \<Longrightarrow>
      allowed (ns_h s) (symm_setkey kb 1 symm_new)"
  shows "\<exists>mc'. merge_key L junk s n mc = Some mc' \<and> merge_to allowed own mc mc'"
proof -
  obtain c where "checkaccess L mc (ns_h s) OWNERPRELOGIN = Some c"
    using checkaccess_total [OF assms(1), of "ns_h s" L OWNERPRELOGIN] assms(2) by auto
  then obtain b where b: "merge_auth L junk s mc = Some b"
    "b \<longrightarrow> ns_outgoing s > 0 \<longrightarrow> handleauth (lib_aes L) (mc_key mc) (ns_h s) = (case ns_auth s of Some a \<Rightarrow> a | None \<Rightarrow> junk)"
    unfolding merge_auth_def by (cases "0 < ns_outgoing s") auto
  show ?thesis
    unfolding merge_key_def
    using b ok by (auto simp: merge_rel_def intro!: merge_to_refl merge_to_upd split: option.split)
qed

lemma merge_delete_to:
  assumes t: "links_ok mc" "ranked rk d mc" "d \<le> k" and n: "nodebyhandle mc (ns_h s) \<noteq> None"
  shows "\<exists>mc'. merge_delete k noti s n mc = Some mc' \<and> merge_to allowed own mc mc'"
proof (cases "ns_outgoing s = 0")
  case True
  have "merge_to allowed own mc (fold treedel xs mc)" for xs
    by (rule fold_invariant [where Q = "\<lambda>_. True"]) (auto intro: treedel_merge merge_to_refl)
  then show ?thesis using True treedel_tree [OF t n] by (simp add: merge_delete_def)
next
  case False
  then show ?thesis
    by (auto simp: merge_delete_def Let_def mark_outshares_def merge_rel_def intro!: merge_to_upd mark_changed_merge merge_to_refl)
qed

lemma merge_outshare_to:
  assumes "tree_ok mc" "nodebyhandle mc (ns_h s) \<noteq> None"
  shows "\<exists>mc'. merge_outshare L noti s n mc = Some mc' \<and> merge_to allowed own mc mc'"
proof -
  obtain b where b: "checkaccess L mc (ns_h s) OWNERPRELOGIN = Some b" using checkaccess_total [OF assms] by blast
  show ?thesis
    unfolding merge_outshare_def b
    by (auto simp: Let_def case_prod_beta mark_outshares_def merge_rel_def split: option.split
        intro!: merge_to_upd mark_changed_merge merge_to_refl peer_user_merge)
qed

lemma merge_inshare_to:
  assumes "tree_ok mc" "nodebyhandle mc (ns_h s) \<noteq> None" "own_clean mc"
  shows "\<exists>mc'. merge_inshare L noti s n mc = Some mc' \<and> merge_to allowed (owned mc) mc mc'"
proof -
  obtain b where b: "checkaccess L mc (ns_h s) OWNERPRELOGIN = Some b" using checkaccess_total [OF assms(1,2)] by blast
  have "\<not> owned mc (ns_h s)" if "\<not> b" using own_access [OF assms(1,3) _ assms(2)] b that by (auto simp: checkaccess_def)
  then show ?thesis
    unfolding merge_inshare_def b
    by (auto simp: Let_def case_prod_beta merge_rel_def split: option.split
        intro!: merge_to_upd mark_changed_merge merge_to_refl peer_user_merge add_sharing_merge)
qed

text \<open>Keys that were given with a valid authentication, or that need none.\<close>

definition vouched :: "libs \<Rightarrow> symm \<Rightarrow> bytes \<Rightarrow> newshare list \<Rightarrow> handle \<Rightarrow> symm \<Rightarrow> bool" where
  "vouched L key junk S h k \<longleftrightarrow>
     (\<exists>s \<in> set S. ns_h s = h \<and> (\<exists>kb. ns_key s = Some kb \<and> k = symm_setkey kb 1 symm_new) \<and>
        (ns_outgoing s > 0 \<longrightarrow> handleauth (lib_aes L) key h = (case ns_auth s of Some a \<Rightarrow> a | None \<Rightarrow> junk)))"

lemma merge_newshare_to:
  assumes t: "links_ok mc" "ranked rk d mc" "d \<le> k" and c: "own_clean mc" and s: "s \<in> set S"
  shows "\<exists>mc'. merge_newshare L k noti junk s mc = Some mc' \<and> merge_to (vouched L (mc_key mc) junk S) (owned mc) mc mc'"
proof (cases "nodebyhandle mc (ns_h s)")
  case None
  then show ?thesis by (simp add: merge_newshare_def merge_to_refl)
next
  case (Some n)
  let ?al = "vouched L (mc_key mc) junk S"
  have tree: "tree_ok mc" using t by (auto simp: tree_ok_def)
  obtain mc1 where mc1: "merge_key L junk s n mc = Some mc1" "merge_to ?al (owned mc) mc mc1"
    using merge_key_to [OF tree Some, of L junk ?al "owned mc"] s by (auto simp: vouched_def)
  have st: "same_tree mc mc1" "om_invar (mc_nodes mc1)"
    using mc1(2) t(1) by (auto simp: merge_to_tree merge_to_def links_ok_def)
  note t1 = same_tree_ok(1) [OF st t(1)] same_tree_ok(2) [OF st t(2)]
  have tree1: "tree_ok mc1" using t1 by (auto simp: tree_ok_def)
  have own1: "owned mc1 = owned mc" by (rule owned_same [OF st(1)])
  have c1: "own_clean mc1" by (rule own_clean_merge [OF c mc1(2)])
  have n1: "nodebyhandle mc1 (ns_h s) \<noteq> None" using same_treeD [OF st(1) Some] by auto
  have "\<exists>mc'. merge_share L k noti s n mc1 = Some mc' \<and> merge_to ?al (owned mc) mc1 mc'"
    unfolding merge_share_def
    using merge_delete_to [OF t1 t(3) n1, of noti n ?al "owned mc"] merge_outshare_to [OF tree1 n1, of L noti n ?al "owned mc"]
      merge_inshare_to [OF tree1 n1 c1, of L noti n ?al, unfolded own1] by (simp add: merge_to_refl)
  then obtain mc' where mc': "merge_share L k noti s n mc1 = Some mc'" "merge_to ?al (owned mc) mc1 mc'" by blast
  then show ?thesis using Some mc1(1) merge_to_trans [OF mc1(2) mc'(2)] by (simp add: merge_newshare_def)
qed

lemma mergenewshares_to:
  assumes t: "links_ok mc" "ranked rk d mc" "d \<le> k" and c: "own_clean mc"
  shows "\<exists>mc'. mergenewshares L k noti junk mc = Some (mc'\<lparr>mc_newshares := []\<rparr>) \<and>
    merge_to (vouched L (mc_key mc) junk (mc_newshares mc)) (owned mc) mc mc'"
proof -
  let ?al = "vouched L (mc_key mc) junk (mc_newshares mc)"
  have "\<exists>mc'. fold (\<lambda>s r. Option.bind r (merge_newshare L k noti junk s)) ss (Some mc1) = Some mc' \<and> merge_to ?al (owned mc) mc mc'"
    if "set ss \<subseteq> set (mc_newshares mc)" "merge_to ?al (owned mc) mc mc1" for ss mc1
    using that
  proof (induction ss arbitrary: mc1)
    case (Cons s ss)
    have st: "same_tree mc mc1" "om_invar (mc_nodes mc1)" and key: "mc_key mc1 = mc_key mc"
      using Cons.prems(2) t(1) by (auto simp: merge_to_tree merge_to_def links_ok_def)
    note t1 = same_tree_ok(1) [OF st t(1)] same_tree_ok(2) [OF st t(2)]
    have s: "s \<in> set (mc_newshares mc)" "set ss \<subseteq> set (mc_newshares mc)" using Cons.prems(1) by auto
    obtain mc2 where mc2: "merge_newshare L k noti junk s mc1 = Some mc2" "merge_to ?al (owned mc) mc1 mc2"
      using merge_newshare_to [OF t1 t(3) own_clean_merge [OF c Cons.prems(2)] s(1), of L noti junk]
      unfolding key owned_same [OF st(1)] by blast
    show ?case using Cons.IH [OF s(2) merge_to_trans [OF Cons.prems(2) mc2(2)]] mc2(1) by simp
  qed simp
  from this [OF order_refl merge_to_refl] show ?thesis unfolding mergenewshares_def by fastforce
qed

section \<open>Deleting and moving\<close>

lemma treedel_lookup:
  assumes "nodebyhandle mc x = Some n"
  shows "\<exists>n'. nodebyhandle (treedel h mc) x = Some n' \<and> n_removed n' = (n_removed n \<or> x = h)"
proof -
  let ?m = "upd_node h (\<lambda>n. n\<lparr>n_removed := True\<rparr>) mc"
  have "\<exists>n1. nodebyhandle ?m x = Some n1 \<and> n_removed n1 = (n_removed n \<or> x = h)"
    using assms by (auto simp: upd_node_lookup)
  then obtain n1 where n1: "nodebyhandle ?m x = Some n1" "n_removed n1 = (n_removed n \<or> x = h)" by blast
  then show ?thesis using notifynode_alike [of ?m x h] by (auto simp: treedel_def option_rel_Some1 dest!: alikeD)
qed

lemma treedel_fold:
  assumes "nodebyhandle mc x = Some n"
  shows "\<exists>n'. nodebyhandle (fold treedel xs mc) x = Some n' \<and> n_removed n' = (n_removed n \<or> x \<in> set xs)"
  using assms
proof (induction xs arbitrary: mc n)
  case (Cons h xs)
  obtain n1 where n1: "nodebyhandle (treedel h mc) x = Some n1" "n_removed n1 = (n_removed n \<or> x = h)"
    using treedel_lookup [OF Cons.prems] by blast
  show ?case using Cons.IH [OF n1(1)] n1(2) by auto
qed auto

text \<open>Deleting marks exactly the nodes of the subtree.\<close>

lemma treedel_marks:
  assumes t: "links_ok mc" "ranked rk d mc" "d \<le> k" and h: "nodebyhandle mc h \<noteq> None" and x: "nodebyhandle mc x = Some n"
  shows "\<exists>mc' n'. proctree k id treedel h mc = Some mc' \<and> nodebyhandle mc' x = Some n' \<and> n_removed n' = (n_removed n \<or> under mc h x)"
proof -
  have "x \<in> set (postorder k mc h) \<longleftrightarrow> under mc h x"
    using postorder_under [OF t(1,2)] h t(3) x by simp
  then show ?thesis using treedel_tree [OF t h] treedel_fold [OF x, of "postorder k mc h"] by simp
qed

lemma merge_rel_clear: "nodebyhandle (mc\<lparr>mc_newshares := v\<rparr>) h = nodebyhandle mc h"
  by (simp add: nodebyhandle_def)

lemma merge_to_clear: "merge_to allowed own mc mc' \<Longrightarrow> merge_to allowed own mc (mc'\<lparr>mc_newshares := v\<rparr>)"
  by (simp add: merge_to_def merge_rel_clear)

lemma unlink_spec:
  assumes t: "links_ok mc" "ranked rk d mc" "d \<le> k" and c: "own_clean mc" and h: "nodebyhandle mc h \<noteq> None"
  shows "\<exists>b mc'. checkaccess L mc h FULL = Some b \<and>
    unlink L k junk h mc = Some (if b then (API_OK, [DelNode h], mc') else (API_EACCESS, [], mc)) \<and>
    merge_to (vouched L (mc_key mc) junk (mc_newshares mc)) (owned mc) mc mc' \<and>
    (\<forall>x n'. under mc h x \<longrightarrow> nodebyhandle mc' x = Some n' \<longrightarrow> n_removed n')"
proof -
  let ?al = "vouched L (mc_key mc) junk (mc_newshares mc)"
  have tree: "tree_ok mc" using t by (auto simp: tree_ok_def)
  obtain b where b: "checkaccess L mc h FULL = Some b" using checkaccess_total [OF tree h] by blast
  obtain mc1 where mc1: "mergenewshares L k True junk mc = Some mc1" "merge_to ?al (owned mc) mc mc1"
    using mergenewshares_to [OF t c, of L True junk] merge_to_clear by blast
  have st: "same_tree mc mc1" "om_invar (mc_nodes mc1)"
    using mc1(2) t(1) by (auto simp: merge_to_tree merge_to_def links_ok_def)
  note t1 = same_tree_ok(1) [OF st t(1)] same_tree_ok(2) [OF st t(2)]
  obtain nh where nh: "nodebyhandle mc h = Some nh" using h by blast
  have h1: "nodebyhandle mc1 h \<noteq> None" using same_treeD [OF st(1) nh] by auto
  define mc' where "mc' = fold treedel (postorder k mc1 h) mc1"
  have run: "proctree k id treedel h mc1 = Some mc'" unfolding mc'_def by (rule treedel_tree [OF t1 t(3) h1])
  have m: "merge_to ?al (owned mc) mc mc'"
    unfolding mc'_def by (rule fold_invariant [where Q = "\<lambda>_. True"]) (auto intro: treedel_merge mc1(2))
  have "n_removed n'" if x: "under mc h x" "nodebyhandle mc' x = Some n'" for x n'
  proof -
    have "nodebyhandle mc1 x \<noteq> None"
      using under_same [OF x(1) st(1)] h1 by (auto elim: under.cases)
    then obtain n1 where n1: "nodebyhandle mc1 x = Some n1" by blast
    show ?thesis using treedel_marks [OF t1 t(3) h1 n1] run x under_same [OF x(1) st(1)] by auto
  qed
  then show ?thesis using b mc1(1) run m by (auto simp: unlink_def split: bool.split)
qed

text \<open>What \<open>setparent\<close> changes.\<close>

definition hung :: "handle \<Rightarrow> handle \<Rightarrow> handle \<Rightarrow> node \<Rightarrow> node \<Rightarrow> bool" where
  "hung p h x a b \<longleftrightarrow> n_type b = n_type a \<and> n_inshare b = n_inshare a \<and> n_parent b = (if x = h then Some p else n_parent a)"

lemma delsyncget_hung:
  "rel_option (hung p h x) a (nodebyhandle mc x) \<Longrightarrow> rel_option (hung p h x) a (nodebyhandle (delsyncget c mc) x)"
  by (cases "nodebyhandle mc x") (auto simp: delsyncget_def upd_node_lookup hung_def option_rel_Some2)

lemma setparent_hung:
  assumes "om_invar (mc_nodes mc)" "setparent k p h mc = Some (b, mc')"
  shows "rel_option (hung p h x) (nodebyhandle mc x) (nodebyhandle mc' x)"
proof -
  obtain n where n: "nodebyhandle mc h = Some n" using assms(2) by (cases "nodebyhandle mc h") (auto simp: setparent_def)
  have r: "rel_option (hung p h x) (nodebyhandle mc x) (nodebyhandle (relink p h n mc) x)"
    by (cases "nodebyhandle mc x") (auto simp: relink_lookup(1) [OF assms(1)] moved_def hung_def)
  have pt: "rel_option (hung p h x) (nodebyhandle mc x) (nodebyhandle m x)"
    if "proctree k id delsyncget h (relink p h n mc) = Some m" for m
    using proctree_keeps [where P = "\<lambda>m. rel_option (hung p h x) (nodebyhandle mc x) (nodebyhandle m x)", OF delsyncget_hung r that] .
  have same: "rel_option (hung p h x) (nodebyhandle mc x) (nodebyhandle mc x)" if "n_parent n = Some p"
    using n that by (cases "nodebyhandle mc x") (auto simp: hung_def)
  show ?thesis
    using assms(2) n r pt same by (auto simp: setparent_def Let_def split: if_splits option.splits bool.splits)
qed

lemma under_hung:
  assumes hung: "\<And>x. rel_option (hung p h x) (nodebyhandle mc x) (nodebyhandle mc' x)" and np: "\<not> under mc h p"
    and "under mc' r x" "nodebyhandle mc' r = Some nr" "n_parent nr = None"
  shows "if under mc h x then under mc r p else under mc r x"
  using assms(3)
proof (induction rule: under.induct)
  case here
  obtain a where a: "nodebyhandle mc r = Some a" "n_parent a = None" "r \<noteq> h"
    using hung [of r] assms(4,5) by (auto simp: option_rel_Some2 hung_def split: if_splits)
  then have "\<not> under mc h r" using under_root by blast
  then show ?case by (simp add: under.here)
next
  case (up x n q)
  obtain a where a: "nodebyhandle mc x = Some a" "n_parent n = (if x = h then Some p else n_parent a)"
    using hung [of x] up(1) by (auto simp: option_rel_Some2 hung_def)
  show ?case
  proof (cases "x = h")
    case True
    then show ?thesis using up a np by (auto intro: under.here)
  next
    case False
    then have q: "n_parent a = Some q" using up(2) a(2) by simp
    have "under mc h x \<longleftrightarrow> under mc h q" using a(1) q False by (auto simp: under_iff [of mc h x])
    moreover have "under mc r q \<Longrightarrow> under mc r x" using a(1) q by (rule under.up)
    ultimately show ?thesis using up.IH by (auto split: if_splits)
  qed
qed

text \<open>A permitted move into an own tree comes from an own tree.\<close>

lemma may_move_own:
  assumes t: "tree_ok mc" and c: "own_clean mc" and m: "may_move L mc h p" and o: "owned mc p"
  shows "owned mc h"
proof -
  obtain n q f0 f1 t1 where n: "nodebyhandle mc h = Some n" "n_parent n = Some q" "nodebyhandle mc p \<noteq> None"
    and f: "climb_top mc q = Some f0" "top_access mc FULL f0" "climb_top mc h = Some f1" "climb_top mc p = Some t1" "same_owner mc f1 t1"
    using m unfolding may_move_iff [OF t] by (auto simp: walks_permit_def)
  have "inshare_of mc t1 = None"
    by (rule own_top [OF t c o n(3)]) (use f(4) in \<open>auto simp: inshare_of_def\<close>)
  then have i: "inshare_of mc f1 = None" using f(5) by (auto simp: same_owner_def split: option.splits)
  have "climb_top mc h = (if n_inshare n = None then climb_top mc q else Some h)"
    using n by (subst climb_top.simps) simp
  then have eq: "f1 = f0" using f(1,3) i n(1) by (auto simp: inshare_of_def split: if_splits)
  obtain m1 where m1: "under mc f1 h" "nodebyhandle mc f1 = Some m1" "n_inshare m1 = None \<longrightarrow> n_parent m1 = None"
    using climb_top_spec [OF t, of h] f(3) n(1) by auto
  then have "n_inshare m1 = None" using i by (simp add: inshare_of_def)
  then show ?thesis using m1 f(2) eq by (auto simp: owned_def top_access_def)
qed

lemma own_clean_hung:
  assumes t: "tree_ok mc" and c: "own_clean mc" and m: "may_move L mc h p" and np: "\<not> under mc h p"
    and hung: "\<And>x. rel_option (hung p h x) (nodebyhandle mc x) (nodebyhandle mc' x)"
  shows "own_clean mc'"
  unfolding own_clean_def
proof (intro allI impI)
  fix x n' assume n': "nodebyhandle mc' x = Some n'" and o: "owned mc' x"
  obtain n where n: "nodebyhandle mc x = Some n" "n_inshare n' = n_inshare n"
    using hung [of x] n' by (auto simp: option_rel_Some2 hung_def)
  obtain r nr' where r: "under mc' r x" "nodebyhandle mc' r = Some nr'" "n_parent nr' = None" "FOLDERNODE < n_type nr'"
    using o by (auto simp: owned_def)
  obtain nr where nr: "nodebyhandle mc r = Some nr" "n_parent nr = None" "FOLDERNODE < n_type nr"
    using hung [of r] r by (auto simp: option_rel_Some2 hung_def split: if_splits)
  have u: "if under mc h x then under mc r p else under mc r x" by (rule under_hung [OF hung np r(1-3)])
  have "owned mc x"
  proof (cases "under mc h x")
    case True
    then have "owned mc p" using u nr by (auto simp: owned_def)
    then have "owned mc h" by (rule may_move_own [OF t c m])
    then show ?thesis using under_trans [OF True] by (auto simp: owned_def)
  qed (use u nr in \<open>auto simp: owned_def\<close>)
  then show "n_inshare n' = None" using c n by (simp add: own_clean_def)
qed

lemma mark_changed_tree:
  assumes "tree_ok mc" "own_clean mc"
  shows "tree_ok (mark_changed f h mc)" "own_clean (mark_changed f h mc)"
    "map_option n_parent (nodebyhandle (mark_changed f h mc) x) = map_option n_parent (nodebyhandle mc x)"
proof -
  have m: "merge_to (\<lambda>_ _. False) (owned mc) mc (mark_changed f h mc)" by (intro mark_changed_merge merge_to_refl)
  then have st: "same_tree mc (mark_changed f h mc)" "om_invar (mc_nodes (mark_changed f h mc))"
    using assms(1) by (auto simp: merge_to_tree merge_to_def tree_ok_def links_ok_def)
  show "tree_ok (mark_changed f h mc)" using same_tree_ok [OF st] assms(1) by (auto simp: tree_ok_def)
  show "own_clean (mark_changed f h mc)" by (rule own_clean_merge [OF assms(2) m])
  show "map_option n_parent (nodebyhandle (mark_changed f h mc) x) = map_option n_parent (nodebyhandle mc x)"
    using st(1) by (cases "nodebyhandle mc x"; cases "nodebyhandle (mark_changed f h mc) x") (auto simp: same_tree_def dest!: spec [of _ x])
qed

lemma rename_spec:
  assumes t: "links_ok mc" "ranked rk d mc" "2 * d + 1 \<le> k" and c: "own_clean mc"
    and h: "nodebyhandle mc h \<noteq> None" and p: "nodebyhandle mc p \<noteq> None" and flat: "\<not> inshares_below mc h"
  shows "\<exists>e cs mc'. rename L k h p mc = Some (e, cs, mc') \<and> tree_ok mc' \<and> own_clean mc' \<and>
    (if may_move L mc h p \<and> \<not> under mc h p
     then e = API_OK \<and> cs = (if map_option n_parent (nodebyhandle mc h) = Some (Some p) then [] else [MoveNode h p]) \<and>
       map_option n_parent (nodebyhandle mc' h) = Some (Some p) else e \<noteq> API_OK \<and> cs = [] \<and> mc' = mc)"
proof -
  have tree: "tree_ok mc" using t by (auto simp: tree_ok_def)
  obtain n m where n: "nodebyhandle mc h = Some n" "nodebyhandle mc p = Some m" using h p by blast
  obtain e where e: "checkmove L mc h p = Some e" using checkmove_total [OF tree n] by blast
  note iff = checkmove_spec [OF tree flat, of L p]
  show ?thesis
  proof (cases "e = API_OK")
    case False
    then show ?thesis using e iff tree c by (auto simp: rename_def)
  next
    case True
    then have ok: "may_move L mc h p" "\<not> under mc h p" using e iff by auto
    have "n_type m \<noteq> FILENODE" using ok(1) n(2) by (auto simp: may_move_def)
    then obtain b mc1 where s: "setparent k p h mc = Some (b, mc1)" "tree_ok mc1" "map_option n_parent (nodebyhandle mc1 h) = Some (Some p)"
      using setparent_tree [OF t(1,2) n] ok(2) t(3) by blast
    have inv: "om_invar (mc_nodes mc)" using t(1) by (simp add: links_ok_def)
    have c1: "own_clean mc1" by (rule own_clean_hung [OF tree c ok]) (rule setparent_hung [OF inv s(1)])
    have b: "b \<longleftrightarrow> n_parent n \<noteq> Some p"
      using s(1) n(1) by (auto simp: setparent_def Let_def split: if_splits option.splits bool.splits)
    show ?thesis
      using e True ok s n(1) b c1 mark_changed_tree [OF s(2) c1] by (cases b) (simp_all add: rename_def del: map_option_eq_Some)
  qed
qed

lemma mergenewshares_summary:
  assumes "links_ok mc" "ranked rk d mc" "d \<le> k" "own_clean mc"
  shows "\<exists>mc'. mergenewshares L k noti junk mc = Some mc' \<and> mc_newshares mc' = [] \<and> tree_ok mc' \<and> same_tree mc mc' \<and> own_clean mc' \<and>
    (\<forall>h n n' key. nodebyhandle mc h = Some n \<and> nodebyhandle mc' h = Some n' \<and> n_sharekey n' = Some key \<longrightarrow>
       n_sharekey n = Some key \<or> vouched L (mc_key mc) junk (mc_newshares mc) h key)"
proof -
  let ?al = "vouched L (mc_key mc) junk (mc_newshares mc)"
  obtain m where m: "mergenewshares L k noti junk mc = Some (m\<lparr>mc_newshares := []\<rparr>)" "merge_to ?al (owned mc) mc m"
    using mergenewshares_to [OF assms, of L noti junk] by blast
  let ?m = "m\<lparr>mc_newshares := []\<rparr>"
  have to: "merge_to ?al (owned mc) mc ?m" by (rule merge_to_clear [OF m(2)])
  then have st: "same_tree mc ?m" "om_invar (mc_nodes ?m)" using assms(1) by (auto simp: merge_to_tree merge_to_def links_ok_def)
  have "tree_ok ?m" using same_tree_ok [OF st] assms(1,2) by (auto simp: tree_ok_def)
  moreover have "own_clean ?m" by (rule own_clean_merge [OF assms(4) to])
  moreover have "n_sharekey n = Some key \<or> ?al h key"
    if "nodebyhandle mc h = Some n" "nodebyhandle ?m h = Some n'" "n_sharekey n' = Some key" for h n n' key
  proof -
    have "rel_option (merge_rel ?al (owned mc) h) (nodebyhandle mc h) (nodebyhandle ?m h)" using to by (simp add: merge_to_def)
    then show ?thesis using that by (simp add: merge_rel_def)
  qed
  ultimately show ?thesis using m(1) st(1) by auto
qed

end
