(* ===== verification/Node_Cache.thy ===== *)
theory Node_Cache
  imports Node_Tree
begin

text \<open>
  \<open>Node::serialize\<close> and \<open>Node::unserialize\<close> of \<open>src/node.cpp\<close>: the cache record of a node.
  The reader is split at the fields of the record; each part returns the value and the
  remaining input (\<open>None\<close>: \<open>return NULL\<close>). Reads behind the end of the record give 0. \<open>NODEHANDLE\<close>
  is 6, \<open>USERHANDLE\<close> is 8, \<open>time_t\<close> has eight bytes.
\<close>

section \<open>Writing\<close>

definition numshares :: "node \<Rightarrow> int" where
  "numshares n = (if n_inshare n \<noteq> None then -1 else sint (of_nat (length (n_outshares n)) :: u16))"

definition shares_of :: "node \<Rightarrow> share list" where
  "shares_of n = (case n_inshare n of Some sh \<Rightarrow> [sh] | None \<Rightarrow> map snd (n_outshares n))"

definition key_fits :: "node \<Rightarrow> bool" where
  "key_fits n \<longleftrightarrow>
     (if n_type n = FILENODE then length (n_nodekey n) = 32
      else if n_type n = FOLDERNODE then length (n_nodekey n) = 16
      else n_nodekey n = [])"

text \<open>\<open>append(fileattrstring.c_str(), ll)\<close> includes the terminator.\<close>

definition fa_image :: "node \<Rightarrow> bytes" where
  "fa_image n =
     (if n_type n = FILENODE
      then (let ll = of_nat (length (n_fileattrstring n)) + 1 :: u16 in
            le_bytes 2 ll @ take (unat ll) (n_fileattrstring n @ [0]))
      else [])"

definition share_image :: "node \<Rightarrow> bytes" where
  "share_image n =
     le_bytes 2 (word_of_int (numshares n) :: u16) @
     (if numshares n \<noteq> 0
      then (case n_sharekey n of Some k \<Rightarrow> sk_key k | None \<Rightarrow> []) @ concat (map share_serialize (shares_of n))
      else [])"

text \<open>\<open>None\<close>: returned false.\<close>

definition node_serialize :: "node \<Rightarrow> bytes option" where
  "node_serialize n =
     (if n_attrstring n \<noteq> [] \<or> \<not> key_fits n then None
      else
        (let s = (if n_type n \<noteq> 0 then - n_type n else fp_size (n_fp n)) in
         Some (le_bytes 8 (word_of_int s :: u64) @ le_bytes 6 (n_handle n) @
           (case n_parent n of Some p \<Rightarrow> le_bytes 6 p | None \<Rightarrow> replicate 6 0) @
           le_bytes 8 (n_owner n) @
           le_bytes 8 (word_of_int (n_clienttimestamp n) :: u64) @ le_bytes 8 (word_of_int (n_ctime n) :: u64) @
           n_nodekey n @ fa_image n @ replicate 8 0 @ share_image n @ attrs_serialize (n_attrs n))))"

section \<open>Reading\<close>

record nodeheader =
  nh_s :: int
  nh_t :: int
  nh_h :: handle
  nh_ph :: handle
  nh_u :: handle
  nh_tm :: int
  nh_ts :: int

definition read_header :: "bytes \<Rightarrow> (nodeheader \<times> bytes) option" where
  "read_header d =
     (if length d < 46 then None
      else
        (let s = sint (le_word (take 8 d) :: u64);
             t = (if s < 0 \<and> s \<ge> - MAILNODE then - s else FILENODE);
             h = le_word (take 6 (drop 8 d)) :: handle;
             ph = le_word (take 6 (drop 14 d)) :: handle
         in Some (\<lparr>nh_s = s, nh_t = t, nh_h = h, nh_ph = (if ph = 0 then UNDEF else ph),
                   nh_u = le_word (take 8 (drop 20 d)),
                   nh_tm = uint (ucast (le_word (take 8 (drop 28 d)) :: u64) :: u32),
                   nh_ts = uint (ucast (le_word (take 8 (drop 36 d)) :: u64) :: u32)\<rparr>, drop 44 d)))"

definition read_key :: "int \<Rightarrow> bytes \<Rightarrow> (bytes option \<times> bytes) option" where
  "read_key t p =
     (if t = FILENODE \<or> t = FOLDERNODE then
        (if length p < keylength t + 8 + 2 then None
         else Some (Some (take (keylength t) p), drop (keylength t) p))
      else Some (None, p))"

text \<open>\<open>fa\<close> is a pointer into the record; \<open>ptr[ll]\<close> at the end is the terminator of the string.\<close>

definition read_fa :: "int \<Rightarrow> bytes \<Rightarrow> (bytes option \<times> bytes) option" where
  "read_fa t p =
     (if t = FILENODE then
        (let ll = unat (le_word (take 2 p) :: u16); q = drop 2 p in
         if length q < ll \<or> cur (drop ll q) \<noteq> 0 then None else Some (Some q, drop ll q))
      else Some (None, p))"

definition read_skey :: "bytes \<Rightarrow> (int \<times> bytes option \<times> bytes) option" where
  "read_skey p =
     (let ns = sint (le_word (take 2 p) :: u16); q = drop 2 p in
      if ns \<noteq> 0 then (if length q < 16 then None else Some (ns, Some (take 16 q), drop 16 q))
      else Some (ns, None, q))"

text \<open>\<open>while (Share::unserialize(...) && numshares > 0 && --numshares)\<close> for \<open>numshares\<close> other than 0.\<close>

fun read_shares :: "nat \<Rightarrow> handle \<Rightarrow> bytes option \<Rightarrow> bytes \<Rightarrow> newshare list \<times> bytes" where
  "read_shares 0 h skey p = ([], p)"
| "read_shares (Suc i) h skey p =
     (case share_unserialize (-1) h skey p of
        None \<Rightarrow> ([], p)
      | Some (ns, q) \<Rightarrow> (let (rest, r) = read_shares i h skey q in (ns # rest, r)))"

definition read_all_shares :: "int \<Rightarrow> handle \<Rightarrow> bytes option \<Rightarrow> bytes \<Rightarrow> newshare list \<times> bytes" where
  "read_all_shares ns h skey p =
     (if ns > 0 then read_shares (nat ns) h skey p
      else if ns < 0 then
        (case share_unserialize 0 h skey p of None \<Rightarrow> ([], p) | Some (sh, q) \<Rightarrow> ([sh], q))
      else ([], p))"

text \<open>All fields of the record in front of the attributes.\<close>

definition read_record :: "bytes \<Rightarrow> (nodeheader \<times> bytes option \<times> bytes option \<times> newshare list \<times> bytes) option" where
  "read_record d =
     (case read_header d of None \<Rightarrow> None | Some (H, p1) \<Rightarrow>
     (case read_key (nh_t H) p1 of None \<Rightarrow> None | Some (k, p2) \<Rightarrow>
     (case read_fa (nh_t H) p2 of None \<Rightarrow> None | Some (fa, p3) \<Rightarrow>
     (case read_skey (skip_ext 8 p3) of None \<Rightarrow> None | Some (ns, skey, p4) \<Rightarrow>
       (let (shares, p5) = read_all_shares ns (nh_h H) skey p4 in Some (H, k, fa, shares, p5))))))"

text \<open>The node returned, the nodes without parent, the client; the outer \<open>None\<close> is a walk
  that does not end or runs out of fuel.\<close>

definition node_unserialize :: "libs \<Rightarrow> nat \<Rightarrow> bytes \<Rightarrow> bytes \<Rightarrow> handle list \<Rightarrow> megaclient
    \<Rightarrow> (handle option \<times> handle list \<times> megaclient) option" where
  "node_unserialize K fuel junk d dp mc =
     (case read_record d of
        None \<Rightarrow> Some (None, dp, mc)
      | Some (H, k, fa, shares, p) \<Rightarrow>
          (case Node fuel dp (nh_h H) (nh_ph H) (nh_t H) (nh_s H) (nh_u H) fa (nh_ts H) (nh_tm H) junk mc of
             None \<Rightarrow> None
           | Some (dp1, mc1) \<Rightarrow>
               (let mc2 = (case k of Some key \<Rightarrow> node_setkey K (Some key) (nh_h H) mc1 | None \<Rightarrow> mc1);
                    mc3 = mc2\<lparr>mc_newshares := mc_newshares mc2 @ shares\<rparr>
                in case nodebyhandle mc3 (nh_h H) of
                     None \<Rightarrow> None
                   | Some n \<Rightarrow>
                       (case attrs_unserialize p (n_attrs n) of
                          None \<Rightarrow> Some (None, dp1, setfingerprint (nh_h H) mc3)
                        | Some (as, q) \<Rightarrow>
                            (let mc4 = setfingerprint (nh_h H) (upd_node (nh_h H) (\<lambda>n. n\<lparr>n_attrs := as\<rparr>) mc3)
                             in Some (if q = [] then Some (nh_h H) else None, dp1, mc4))))))"

section \<open>The record is read back\<close>

definition node_ok :: "node \<Rightarrow> bool" where
  "node_ok n \<longleftrightarrow>
     n_attrstring n = [] \<and> key_fits n \<and> 0 \<le> n_type n \<and> n_type n \<le> MAILNODE \<and>
     (n_type n = FILENODE \<longrightarrow> 0 \<le> fp_size (n_fp n) \<and> fp_size (n_fp n) < 2 ^ 63) \<and>
     take_bit 48 (n_handle n) = n_handle n \<and>
     (\<forall>p. n_parent n = Some p \<longrightarrow> p \<noteq> 0 \<and> take_bit 48 p = p) \<and>
     copystring (n_fileattrstring n) = n_fileattrstring n \<and> length (n_fileattrstring n) < 65535 \<and>
     (n_type n \<noteq> FILENODE \<longrightarrow> n_fileattrstring n = []) \<and>
     length (n_outshares n) < 32768 \<and> list_all share_ok (shares_of n) \<and>
     (numshares n \<noteq> 0 \<longrightarrow> (\<exists>k. n_sharekey n = Some k \<and> length (sk_key k) = 16)) \<and>
     om_invar (n_attrs n) \<and> list_all attr_ok (n_attrs n)"

text \<open>The times are written with 64 bits and read as \<open>uint32_t\<close>.\<close>

definition time32 :: "int \<Rightarrow> int" where
  "time32 t = t mod 2 ^ 32"

definition header_of :: "node \<Rightarrow> nodeheader" where
  "header_of n =
     \<lparr>nh_s = (if n_type n \<noteq> 0 then - n_type n else fp_size (n_fp n)), nh_t = n_type n, nh_h = n_handle n,
      nh_ph = (case n_parent n of Some p \<Rightarrow> p | None \<Rightarrow> UNDEF), nh_u = n_owner n,
      nh_tm = time32 (n_clienttimestamp n), nh_ts = time32 (n_ctime n)\<rparr>"

lemma sint_word_of_int_64: "- (2 ^ 63) \<le> i \<Longrightarrow> i < 2 ^ 63 \<Longrightarrow> sint (word_of_int i :: u64) = i"
  by (simp add: signed_of_int signed_take_bit_int_eq_self_iff)

lemma uint_time: "uint (ucast (word_of_int i :: u64) :: u32) = time32 i"
  by (simp add: unsigned_ucast_eq unsigned_of_int take_bit_eq_mod time32_def mod_mod_cancel)

lemma read_header_image:
  assumes n: "node_ok n" and r: "2 \<le> length r"
  shows "read_header (le_bytes 8 (word_of_int (nh_s (header_of n)) :: u64) @ le_bytes 6 (n_handle n) @
      (case n_parent n of Some p \<Rightarrow> le_bytes 6 p | None \<Rightarrow> replicate 6 0) @ le_bytes 8 (n_owner n) @
      le_bytes 8 (word_of_int (n_clienttimestamp n) :: u64) @ le_bytes 8 (word_of_int (n_ctime n) :: u64) @ r) =
    Some (header_of n, r)"
proof -
  define s where "s = nh_s (header_of n)"
  define P where "P = (case n_parent n of Some p \<Rightarrow> le_bytes 6 p | None \<Rightarrow> replicate 6 (0 :: byte))"
  have P: "length P = 6" by (simp add: P_def split: option.split)
  have lp: "(if le_word P = (0 :: handle) then UNDEF else le_word P) = nh_ph (header_of n)"
  proof (cases "n_parent n")
    case None
    then show ?thesis by (simp add: P_def header_of_def)
  next
    case (Some p)
    then show ?thesis using n by (auto simp: P_def header_of_def node_ok_def le_word_le_bytes_take_bit)
  qed
  have "- 5 \<le> s" "s < 2 ^ 63" and s2: "(if s < 0 \<and> s \<ge> - MAILNODE then - s else FILENODE) = n_type n"
    using n by (auto simp: s_def header_of_def node_ok_def)
  then have s: "sint (word_of_int s :: u64) = s" by (intro sint_word_of_int_64) auto
  have h: "le_word (le_bytes 6 (n_handle n)) = n_handle n"
    using n by (simp add: node_ok_def le_word_le_bytes_take_bit)
  define ph where "ph = nh_ph (header_of n)"
  have hd: "header_of n = \<lparr>nh_s = s, nh_t = n_type n, nh_h = n_handle n, nh_ph = ph, nh_u = n_owner n,
      nh_tm = time32 (n_clienttimestamp n), nh_ts = time32 (n_ctime n)\<rparr>"
    by (simp add: header_of_def s_def ph_def)
  show ?thesis
    unfolding hd nodeheader.simps P_def [symmetric] read_header_def
    using P r s s2 lp [folded ph_def] h by (simp add: Let_def le_word_le_bytes uint_time)
qed

lemma read_key_image:
  assumes "node_ok n" "10 \<le> length r"
  shows "read_key (n_type n) (n_nodekey n @ r) =
    Some (if n_type n = FILENODE \<or> n_type n = FOLDERNODE then Some (n_nodekey n) else None, r)"
  using assms by (auto simp: read_key_def keylength_def node_ok_def key_fits_def split: if_splits)

lemma copystring_id: "copystring s = s \<Longrightarrow> 0 \<notin> set s \<and> ch_quote \<notin> set s"
  unfolding copystring_def by (metis (mono_tags, lifting) set_takeWhileD)

lemma read_fa_image:
  assumes "node_ok n" "cur r = 0" "r \<noteq> []"
  shows "\<exists>fa. read_fa (n_type n) (fa_image n @ r) = Some (fa, r) \<and>
    (case fa of Some a \<Rightarrow> copystring a | None \<Rightarrow> []) = n_fileattrstring n"
proof (cases "n_type n = FILENODE")
  case True
  let ?fa = "n_fileattrstring n"
  have fa: "copystring ?fa = ?fa" "length ?fa < 65535" using assms(1) by (simp_all add: node_ok_def)
  have ll: "unat (of_nat (length ?fa) + 1 :: u16) = length ?fa + 1"
    using fa(2) by (simp add: unat_word_ariths unat_of_nat)
  have im: "fa_image n @ r = le_bytes 2 (of_nat (length ?fa) + 1 :: u16) @ (?fa @ [0]) @ r"
    using True by (simp add: fa_image_def Let_def ll)
  have "0 \<notin> set ?fa" "ch_quote \<notin> set ?fa" using copystring_id [OF fa(1)] by auto
  then have "copystring (?fa @ [0] @ r) = ?fa"
    by (auto simp: copystring_def takeWhile_append takeWhile_eq_all_conv)
  then show ?thesis
    using True im ll assms(2) by (auto simp: read_fa_def Let_def le_word_le_bytes)
next
  case False
  then show ?thesis using assms(1) by (simp add: read_fa_def fa_image_def node_ok_def)
qed

lemma read_shares_image:
  "list_all share_ok shs \<Longrightarrow>
   read_shares (length shs) h skey (concat (map share_serialize shs) @ r) = (map (share_view (-1) h skey) shs, r)"
  by (induction shs) (simp_all add: sharec.dec_enc)

text \<open>The shares, as the client queues them.\<close>

definition share_views :: "node \<Rightarrow> newshare list" where
  "share_views n =
     map (share_view (if n_inshare n \<noteq> None then 0 else -1) (n_handle n) (map_option sk_key (n_sharekey n))) (shares_of n)"

lemma read_share_image:
  assumes n: "node_ok n"
  shows "\<exists>ns skey q. read_skey (share_image n @ r) = Some (ns, skey, q) \<and>
    read_all_shares ns (n_handle n) skey q = (share_views n, r)"
proof -
  have ns: "numshares n = (if n_inshare n \<noteq> None then -1 else int (length (n_outshares n)))"
    using n by (simp add: numshares_def node_ok_def signed_of_nat signed_take_bit_int_eq_self_iff)
  then have "- (2 ^ 15) \<le> numshares n" "numshares n < 2 ^ 15" using n by (auto simp: node_ok_def)
  then have rng: "sint (word_of_int (numshares n) :: u16) = numshares n"
    by (simp add: signed_of_int signed_take_bit_int_eq_self_iff)
  have ok: "list_all share_ok (shares_of n)" using n by (simp add: node_ok_def)
  show ?thesis
  proof (cases "numshares n = 0")
    case True
    then have "shares_of n = []" using ns by (auto simp: shares_of_def split: if_splits)
    then show ?thesis using True rng
      by (simp add: read_skey_def share_image_def Let_def le_word_le_bytes read_all_shares_def share_views_def)
  next
    case False
    then obtain k where k: "n_sharekey n = Some k" "length (sk_key k) = 16" using n by (auto simp: node_ok_def)
    have sk: "read_skey (share_image n @ r) =
        Some (numshares n, Some (sk_key k), concat (map share_serialize (shares_of n)) @ r)"
      using False k rng by (simp add: read_skey_def share_image_def Let_def le_word_le_bytes)
    have "read_all_shares (numshares n) (n_handle n) (Some (sk_key k)) (concat (map share_serialize (shares_of n)) @ r) =
        (share_views n, r)"
    proof (cases "n_inshare n")
      case None
      then show ?thesis
        using ns False ok k read_shares_image [of "map snd (n_outshares n)" "n_handle n" "Some (sk_key k)" r]
        by (simp add: read_all_shares_def shares_of_def share_views_def)
    next
      case (Some sh)
      then show ?thesis using ns ok k
        by (simp add: read_all_shares_def shares_of_def share_views_def sharec.dec_enc)
    qed
    with sk show ?thesis by blast
  qed
qed

lemma read_record_image:
  assumes n: "node_ok n"
  shows "\<exists>d fa. node_serialize n = Some d \<and>
    read_record d = Some (header_of n, if n_type n = FILENODE \<or> n_type n = FOLDERNODE then Some (n_nodekey n) else None,
      fa, share_views n, attrs_serialize (n_attrs n)) \<and>
    (case fa of Some a \<Rightarrow> copystring a | None \<Rightarrow> []) = n_fileattrstring n"
proof -
  define A where "A = attrs_serialize (n_attrs n)"
  define E where "E = replicate 8 0 @ share_image n @ A"
  have len: "2 \<le> length (share_image n)" by (simp add: share_image_def)
  then have E: "10 \<le> length (fa_image n @ E)" "cur E = 0" "E \<noteq> []" by (simp_all add: E_def numeral_eq_Suc)
  have d: "node_serialize n = Some (le_bytes 8 (word_of_int (nh_s (header_of n)) :: u64) @ le_bytes 6 (n_handle n) @
      (case n_parent n of Some p \<Rightarrow> le_bytes 6 p | None \<Rightarrow> replicate 6 0) @ le_bytes 8 (n_owner n) @
      le_bytes 8 (word_of_int (n_clienttimestamp n) :: u64) @ le_bytes 8 (word_of_int (n_ctime n) :: u64) @
      (n_nodekey n @ fa_image n @ E))" (is "_ = Some ?d")
    using n by (simp add: node_serialize_def node_ok_def header_of_def E_def A_def)
  obtain fa where fa: "read_fa (n_type n) (fa_image n @ E) = Some (fa, E)"
    "(case fa of Some a \<Rightarrow> copystring a | None \<Rightarrow> []) = n_fileattrstring n"
    using read_fa_image [OF n E(2,3)] by blast
  obtain ns skey q where sh: "read_skey (share_image n @ A) = Some (ns, skey, q)"
    "read_all_shares ns (n_handle n) skey q = (share_views n, A)"
    using read_share_image [OF n] by blast
  have "read_header ?d = Some (header_of n, n_nodekey n @ fa_image n @ E)"
    by (rule read_header_image [OF n]) (use E(1) in simp)
  moreover have "skip_ext 8 E = share_image n @ A" by (simp add: E_def skip_ext_zeros)
  moreover have "nh_t (header_of n) = n_type n" "nh_h (header_of n) = n_handle n" by (simp_all add: header_of_def)
  ultimately have "read_record ?d = Some (header_of n,
      if n_type n = FILENODE \<or> n_type n = FOLDERNODE then Some (n_nodekey n) else None, fa, share_views n, A)"
    using read_key_image [OF n E(1)] fa(1) sh by (simp add: read_record_def)
  with d fa(2) show ?thesis unfolding A_def by blast
qed

section \<open>The node is restored\<close>

text \<open>What linking a node leaves alone.\<close>

definition node_data :: "node \<Rightarrow> node" where
  "node_data n = n\<lparr>n_parent := None, n_children := [], n_syncget := False\<rparr>"

definition same_data :: "megaclient \<Rightarrow> megaclient \<Rightarrow> bool" where
  "same_data mc mc' \<longleftrightarrow> mc_newshares mc' = mc_newshares mc \<and>
     (\<forall>x. map_option node_data (nodebyhandle mc' x) = map_option node_data (nodebyhandle mc x))"

lemma same_data_refl: "same_data mc mc"
  by (simp add: same_data_def)

lemma same_data_upd:
  assumes "same_data mc mc'" "\<And>m. node_data (f m) = node_data m"
  shows "same_data mc (upd_node h f mc')"
proof -
  have "map_option node_data (nodebyhandle (upd_node h f mc') x) = map_option node_data (nodebyhandle mc' x)" for x
    by (cases "nodebyhandle mc' h") (auto simp: upd_node_lookup assms(2))
  moreover have "mc_newshares (upd_node h f mc') = mc_newshares mc'"
    by (simp add: upd_node_def split: option.split)
  ultimately show ?thesis using assms(1) by (simp add: same_data_def)
qed

lemma setparent_data:
  assumes "setparent k p h mc = Some (b, mc')"
  shows "same_data mc mc'"
proof -
  obtain n where n: "nodebyhandle mc h = Some n" using assms by (auto simp: setparent_def split: option.splits)
  have "same_data mc (detach h n mc)"
    unfolding detach_def by (auto split: option.split intro!: same_data_upd simp: same_data_refl node_data_def)
  then have r: "same_data mc (relink p h n mc)"
    unfolding relink_def by (intro same_data_upd) (simp_all add: node_data_def)
  have d: "same_data mc (delsyncget c t)" if "same_data mc t" for c t
    unfolding delsyncget_def by (rule same_data_upd [OF that]) (simp add: node_data_def)
  have "same_data mc t" if "proctree k id delsyncget h (relink p h n mc) = Some t" for t
    by (rule proctree_keeps [OF d r that])
  then show ?thesis
    using assms n r
    by (auto simp: setparent_def Let_def same_data_refl split: if_splits option.splits bool.splits)
qed

lemma Node_data:
  assumes "Node k dp h ph t s u fa ts tm junk mc = Some (dp', mc')"
  shows "map_option node_data (nodebyhandle mc' h) = Some (fresh_node h ph t s u fa ts tm junk)"
    and "mc_newshares mc' = mc_newshares mc"
proof -
  define n where "n = fresh_node h ph t s u fa ts tm junk"
  define mc1 where "mc1 = register_node h n mc"
  have "node_data n = n" by (simp add: node_data_def n_def fresh_node_def)
  then have mc1: "map_option node_data (nodebyhandle mc1 h) = Some n" "mc_newshares mc1 = mc_newshares mc"
    by (simp_all add: mc1_def register_node_def Let_def nodebyhandle_def om_lookup_map_of map_of_om_update)
  have "same_data mc1 mc'"
    using assms unfolding Node_def Let_def n_def [symmetric] mc1_def [symmetric]
    by (auto split: option.splits simp: same_data_refl dest: setparent_data)
  then show "map_option node_data (nodebyhandle mc' h) = Some (fresh_node h ph t s u fa ts tm junk)"
    "mc_newshares mc' = mc_newshares mc"
    using mc1 by (simp_all add: same_data_def n_def)
qed

lemma same_tree_upd:
  assumes "\<And>m. n_type (f m) = n_type m \<and> n_parent (f m) = n_parent m \<and> n_children (f m) = n_children m"
  shows "same_tree mc (upd_node h f mc)"
  using assms by (cases "nodebyhandle mc h") (auto simp: same_tree_def upd_node_lookup)

lemma tree_ok_upd:
  assumes "\<And>m. n_type (f m) = n_type m \<and> n_parent (f m) = n_parent m \<and> n_children (f m) = n_children m" "tree_ok mc"
  shows "tree_ok (upd_node h f mc)"
proof -
  have inv: "om_invar (mc_nodes (upd_node h f mc))" using assms(2) by (simp add: tree_ok_def links_ok_def upd_node_invar)
  show ?thesis
    using assms(2) same_tree_ok [OF same_tree_upd [of f mc h, OF assms(1)] inv] by (auto simp: tree_ok_def)
qed

lemma tree_ok_cong: "mc_nodes mc' = mc_nodes mc \<Longrightarrow> tree_ok mc' = tree_ok mc"
  by (simp add: tree_ok_def links_ok_def ranked_def nodebyhandle_def)

lemma tree_ok_setfingerprint: "tree_ok mc \<Longrightarrow> tree_ok (setfingerprint h mc)"
proof -
  assume t: "tree_ok mc"
  have "tree_ok ((upd_node h (\<lambda>n. n\<lparr>n_fp := fp, n_infps := True\<rparr>) mc)\<lparr>mc_fingerprints := x\<rparr>)" for fp x
    using tree_ok_upd [OF _ t, of "\<lambda>n. n\<lparr>n_fp := fp, n_infps := True\<rparr>" h]
    by (subst tree_ok_cong [of _ "upd_node h (\<lambda>n. n\<lparr>n_fp := fp, n_infps := True\<rparr>) mc"]) simp_all
  then show ?thesis using t by (simp add: setfingerprint_def Let_def split: option.split)
qed

text \<open>A key given to a node without encrypted attributes only sets the key.\<close>

lemma node_setkey_plain:
  assumes "nodebyhandle mc h = Some n" "n_attrstring n = []"
  shows "node_setkey K (Some key) h mc =
    upd_node h (\<lambda>n. n\<lparr>n_nodekey := take (keylength (n_type n)) key,
      n_key := symm_setkey (take (keylength (n_type n)) key) (n_type n) (n_key n)\<rparr>) mc"
  using assms by (simp add: node_setkey_def node_setattr_def upd_node_lookup decryptattr_def Let_def)

lemma node_data_fresh:
  assumes "node_data n = fresh_node h ph t s u fa ts tm junk"
  shows "n_type n = t" "n_attrstring n = []" "n_attrs n = []" "n_owner n = u" "n_ctime n = ts"
    "n_clienttimestamp n = tm" "n_fileattrstring n = (case fa of Some a \<Rightarrow> copystring a | None \<Rightarrow> [])"
    "n_nodekey n = []" "fp_size (n_fp n) = s"
  using assms by (cases n; simp add: node_data_def fresh_node_def)+

lemma handle_not_undef: "take_bit 48 h = h \<Longrightarrow> h \<noteq> UNDEF"
proof
  assume "take_bit 48 h = h" "h = UNDEF"
  then have "bit (take_bit 48 UNDEF) 60 = bit (UNDEF :: handle) 60" by simp
  then show False by (simp add: UNDEF_def bit_simps)
qed

lemma fp_size_unserialize [simp]: "fp_size (snd (unserializefingerprint s fp)) = fp_size fp"
  by (simp add: unserializefingerprint_def Let_def split: prod.split)

lemma node_fp_size [simp]: "fp_size (node_fp n) = fp_size (n_fp n)"
  by (simp add: node_fp_def Let_def split: option.split)

definition with_key :: "bytes option \<Rightarrow> node \<Rightarrow> node" where
  "with_key k n =
     (case k of
        Some key \<Rightarrow> n\<lparr>n_nodekey := take (keylength (n_type n)) key,
          n_key := symm_setkey (take (keylength (n_type n)) key) (n_type n) (n_key n)\<rparr>
      | None \<Rightarrow> n)"

lemma newshares_upd: "mc_newshares (upd_node h f mc) = mc_newshares mc"
  by (simp add: upd_node_def split: option.split)

lemma newshares_setfingerprint: "mc_newshares (setfingerprint h mc) = mc_newshares mc"
  by (simp add: setfingerprint_def Let_def newshares_upd split: option.split)

lemma load_key:
  assumes "nodebyhandle mc h = Some n" "n_attrstring n = []" "tree_ok mc"
    and "mc' = (case k of Some key \<Rightarrow> node_setkey K (Some key) h mc | None \<Rightarrow> mc)"
  shows "nodebyhandle mc' h = Some (with_key k n)" "mc_newshares mc' = mc_newshares mc" "tree_ok mc'"
  using assms tree_ok_upd [OF _ assms(3)]
  by (auto simp: with_key_def node_setkey_plain upd_node_lookup newshares_upd split: option.split)

text \<open>The fields the record carries.\<close>

definition same_record :: "node \<Rightarrow> node \<Rightarrow> bool" where
  "same_record n n' \<longleftrightarrow>
     n_type n' = n_type n \<and> n_owner n' = n_owner n \<and> n_ctime n' = time32 (n_ctime n) \<and>
     n_clienttimestamp n' = time32 (n_clienttimestamp n) \<and> n_nodekey n' = n_nodekey n \<and>
     n_fileattrstring n' = n_fileattrstring n \<and> n_attrs n' = n_attrs n \<and> n_attrstring n' = n_attrstring n \<and>
     (n_type n = FILENODE \<longrightarrow> fp_size (n_fp n') = fp_size (n_fp n))"

lemma node_roundtrip:
  assumes n: "node_ok n" and l: "links_ok mc" and r: "ranked rk d mc"
    and new: "nodebyhandle mc (n_handle n) = None"
    and par: "\<And>p. n_parent n = Some p \<Longrightarrow> p \<noteq> n_handle n"
    and fld: "\<And>m. nodebyhandle mc (nh_ph (header_of n)) = Some m \<Longrightarrow> n_type m \<noteq> FILENODE"
    and k: "2 * (d + rk (n_handle n) + 1) + 1 \<le> k"
  shows "\<exists>img dp' mc' n'. node_serialize n = Some img \<and>
    node_unserialize K k junk img dp mc = Some (Some (n_handle n), dp', mc') \<and> tree_ok mc' \<and>
    nodebyhandle mc' (n_handle n) = Some n' \<and> same_record n n' \<and>
    mc_newshares mc' = mc_newshares mc @ share_views n"
proof -
  let ?H = "header_of n" let ?h = "n_handle n"
  define key where "key = (if n_type n = FILENODE \<or> n_type n = FOLDERNODE then Some (n_nodekey n) else None)"
  obtain img fa where img: "node_serialize n = Some img"
    "read_record img = Some (?H, key, fa, share_views n, attrs_serialize (n_attrs n))"
    "(case fa of Some a \<Rightarrow> copystring a | None \<Rightarrow> []) = n_fileattrstring n"
    using read_record_image [OF n, folded key_def] by blast
  have H: "nh_h ?H = ?h" "nh_t ?H = n_type n" "nh_u ?H = n_owner n" "nh_ts ?H = time32 (n_ctime n)" "nh_tm ?H = time32 (n_clienttimestamp n)"
    "n_type n = FILENODE \<Longrightarrow> nh_s ?H = fp_size (n_fp n)"
    by (simp_all add: header_of_def)
  have "nh_ph ?H \<noteq> ?h"
    using par n handle_not_undef [of ?h] by (auto simp: header_of_def node_ok_def split: option.split)
  then obtain dp1 mc1 where N: "Node k dp ?h (nh_ph ?H) (n_type n) (nh_s ?H) (n_owner n) fa (time32 (n_ctime n)) (time32 (n_clienttimestamp n)) junk mc = Some (dp1, mc1)"
    "tree_ok mc1"
    using Node_tree [OF l r new _ fld k] by blast
  obtain n1 where n1: "nodebyhandle mc1 ?h = Some n1"
    "node_data n1 = fresh_node ?h (nh_ph ?H) (n_type n) (nh_s ?H) (n_owner n) fa (time32 (n_ctime n)) (time32 (n_clienttimestamp n)) junk"
    using Node_data(1) [OF N(1)] by auto
  note f1 = node_data_fresh [OF n1(2)]
  define mc2 where "mc2 = (case key of Some k \<Rightarrow> node_setkey K (Some k) ?h mc1 | None \<Rightarrow> mc1)"
  note k2 = load_key [OF n1(1) f1(2) N(2) mc2_def]
  define mc3 where "mc3 = mc2\<lparr>mc_newshares := mc_newshares mc2 @ share_views n\<rparr>"
  have nodes3: "nodebyhandle mc3 = nodebyhandle mc2" "mc_nodes mc3 = mc_nodes mc2" by (simp_all add: mc3_def nodebyhandle_def fun_eq_iff)
  have t3: "tree_ok mc3" using k2(3) tree_ok_cong [OF nodes3(2)] by simp
  define mc4 where "mc4 = setfingerprint ?h (upd_node ?h (\<lambda>n'. n'\<lparr>n_attrs := n_attrs n\<rparr>) mc3)"
  have at: "attrs_unserialize (attrs_serialize (n_attrs n)) (n_attrs (with_key key n1)) = Some (n_attrs n, [])"
    using attrs_roundtrip [of "n_attrs n" "[]"] n f1(3) by (simp add: node_ok_def with_key_def split: option.split)
  have un: "node_unserialize K k junk img dp mc = Some (Some ?h, dp1, mc4)"
    unfolding node_unserialize_def img(2) option.case prod.case H(1-5) N(1) Let_def mc2_def [symmetric] mc3_def [symmetric]
    by (simp add: nodes3 k2(1) at mc4_def)
  have n3: "nodebyhandle (upd_node ?h (\<lambda>n'. n'\<lparr>n_attrs := n_attrs n\<rparr>) mc3) ?h = Some ((with_key key n1)\<lparr>n_attrs := n_attrs n\<rparr>)"
    by (simp add: upd_node_lookup nodes3 k2(1))
  have t4: "tree_ok (upd_node ?h (\<lambda>n'. n'\<lparr>n_attrs := n_attrs n\<rparr>) mc3)" by (rule tree_ok_upd [OF _ t3]) simp
  obtain n' where n': "nodebyhandle mc4 ?h = Some n'" "same_record n n'"
  proof -
    have "om_invar (mc_nodes (upd_node ?h (\<lambda>n'. n'\<lparr>n_attrs := n_attrs n\<rparr>) mc3))" using t4 by (simp add: tree_ok_def links_ok_def)
    note sf = setfingerprint_lookup(1) [OF this n3, folded mc4_def]
    show ?thesis
      by (rule that [OF sf]) (use f1 img(3) n H(6) in \<open>auto simp: key_def same_record_def with_key_def keylength_def node_ok_def key_fits_def\<close>)
  qed
  have "mc_newshares mc4 = mc_newshares mc @ share_views n"
    using k2(2) Node_data(2) [OF N(1)] by (simp add: mc4_def mc3_def newshares_setfingerprint newshares_upd)
  moreover have "tree_ok mc4" unfolding mc4_def by (rule tree_ok_setfingerprint [OF t4])
  ultimately show ?thesis using img(1) un n' by blast
qed

end
