(* ===== verification/Read_Nodes.thy ===== *)
theory Read_Nodes
  imports Merge_Shares Node_Cache "HOL-Library.Product_Lexorder"
begin

text \<open>
  The lists of \<open>src/megaclient.cpp\<close> that the server sends: nodes (\<open>readnodes\<close>), users (\<open>readusers\<close>), keys and
  recipients of outbound shares (\<open>readok\<close>, \<open>readoutshares\<close>). \<open>warn\<close> and \<open>warnlevel\<close> are the conditions they test. \<open>k\<close> is
  the fuel of tree walks; uninitialised buffers are arguments. In \<open>readnodes\<close> the branch for \<open>PUTNODES_SYNC\<close>, which
  links a \<open>LocalNode\<close> to its new node, is left out.
\<close>

section \<open>Nodes\<close>

record nodeelem =
  ne_h :: handle
  ne_ph :: handle
  ne_u :: handle
  ne_su :: handle
  ne_t :: int
  ne_a :: "bytes option"
  ne_k :: "bytes option"
  ne_fa :: "bytes option"
  ne_sk :: "bytes option"
  ne_rl :: int
  ne_s :: int
  ne_ts :: int
  ne_tmd :: int
  ne_sts :: int

definition nodeelem_init :: nodeelem where
  "nodeelem_init = \<lparr>ne_h = UNDEF, ne_ph = UNDEF, ne_u = 0, ne_su = UNDEF, ne_t = -1, ne_a = None, ne_k = None, ne_fa = None,
     ne_sk = None, ne_rl = ACCESS_UNKNOWN, ne_s = -1, ne_ts = -1, ne_tmd = 0, ne_sts = -1\<rparr>"

definition node_cases :: "(string \<times> nodeelem reader) list" where
  "node_cases =
     [(''h'', rd_handle 6 (\<lambda>h e. e\<lparr>ne_h := h\<rparr>)), (''p'', rd_handle 6 (\<lambda>h e. e\<lparr>ne_ph := h\<rparr>)),
      (''u'', rd_handle 8 (\<lambda>h e. e\<lparr>ne_u := h\<rparr>)), (''t'', rd_int (\<lambda>i e. e\<lparr>ne_t := to_int i\<rparr>)),
      (''a'', rd_value (\<lambda>v e. e\<lparr>ne_a := Some v\<rparr>)), (''k'', rd_value (\<lambda>v e. e\<lparr>ne_k := Some v\<rparr>)),
      (''s'', rd_int (\<lambda>i e. e\<lparr>ne_s := i\<rparr>)), (''ts'', rd_int (\<lambda>i e. e\<lparr>ne_ts := i\<rparr>)), (''tmd'', rd_int (\<lambda>i e. e\<lparr>ne_tmd := i\<rparr>)),
      (''fa'', rd_value (\<lambda>v e. e\<lparr>ne_fa := Some v\<rparr>)), (''r'', rd_int (\<lambda>i e. e\<lparr>ne_rl := to_int i\<rparr>)),
      (''sk'', rd_value (\<lambda>v e. e\<lparr>ne_sk := Some v\<rparr>)), (''su'', rd_handle 8 (\<lambda>h e. e\<lparr>ne_su := h\<rparr>)), (''sts'', rd_int (\<lambda>i e. e\<lparr>ne_sts := i\<rparr>))]"

text \<open>The warnings that keep an element from being entered.\<close>

definition node_warned :: "nodeelem \<Rightarrow> bool" where
  "node_warned e \<longleftrightarrow>
     ISUNDEF (ne_h e) \<or> ne_t e = -1 \<or>
     ((ne_t e = FILENODE \<or> ne_t e = FOLDERNODE) \<and> (ISUNDEF (ne_ph e) \<or> ne_a e = None \<or> ne_k e = None)) \<or>
     (ne_t e = FILENODE \<and> ne_s e = -1) \<or> (ne_fa e \<noteq> None \<and> ne_t e \<noteq> FILENODE)"

text \<open>The state of the loop: the client, the nodes that wait for their parents, the number of new nodes, file attributes that wait for
  an upload (\<open>pendingfa\<close>), node handles of uploads (\<open>uhnh\<close>), queued commands, and whether \<open>reload\<close> was called.\<close>

record rnstate =
  rn_mc :: megaclient
  rn_dp :: "handle list"
  rn_i :: nat
  rn_pendingfa :: fa_map
  rn_uhnh :: "(handle \<times> handle) list"
  rn_calls :: "api_call list"
  rn_reload :: bool

definition rn_upd :: "(megaclient \<Rightarrow> megaclient) \<Rightarrow> rnstate \<Rightarrow> rnstate" where
  "rn_upd f s = s\<lparr>rn_mc := f (rn_mc s)\<rparr>"

text \<open>A node that is there already: revived and moved if it was removed, otherwise compared.\<close>

definition known_node :: "nat \<Rightarrow> nodeelem \<Rightarrow> node \<Rightarrow> rnstate \<Rightarrow> rnstate option" where
  "known_node k e n s =
     (if n_removed n then
        (let s1 = rn_upd (upd_node (ne_h e) (\<lambda>n. n\<lparr>n_removed := False\<rparr>)) s in
         if ISUNDEF (ne_ph e) then Some s1
         else if nodebyhandle (rn_mc s1) (ne_ph e) \<noteq> None then
           map_option (\<lambda>(b, mc). s1\<lparr>rn_mc := upd_node (ne_h e) (\<lambda>n. n\<lparr>n_changed := (n_changed n)\<lparr>ch_parent := True\<rparr>\<rparr>) mc\<rparr>)
             (setparent k (ne_ph e) (ne_h e) (rn_mc s1))
         else Some ((rn_upd (upd_node (ne_h e) (\<lambda>n. n\<lparr>n_parenthandle := ne_ph e\<rparr>)) s1)\<lparr>rn_dp := rn_dp s1 @ [ne_h e]\<rparr>))
      else Some (s\<lparr>rn_reload := rn_reload s \<or> (case n_parent n of Some p \<Rightarrow> ne_ph e \<noteq> p | None \<Rightarrow> False) \<or> n_type n \<noteq> ne_t e\<rparr>))"

text \<open>The inbound share of a new node: its sharing user and key. \<open>skjunk\<close>: what the buffer holds when the key could not be decrypted.\<close>

definition inbound_share :: "libs \<Rightarrow> bytes \<Rightarrow> nodeelem \<Rightarrow> megaclient \<Rightarrow> (handle \<times> bytes) option \<times> megaclient" where
  "inbound_share L skjunk e mc =
     (if ISUNDEF (ne_su e) \<or> ne_t e \<noteq> FOLDERNODE \<or> ne_rl e = ACCESS_UNKNOWN then (None, mc)
      else case ne_sk e of
        None \<Rightarrow> (None, mc)
      | Some sk \<Rightarrow>
          (case decryptkey L sk 16 (mc_key mc) True (ne_h e) mc of
             (Some buf, mc1) \<Rightarrow> (Some (ne_su e, buf), mc1)
           | (None, mc1) \<Rightarrow> (Some (ne_su e, skjunk), mc1)))"

text \<open>\<open>nn\<close>: the new nodes of the request that is answered. The file attributes of an upload that is now a node are attached.\<close>

definition attach_pending :: "newnode list option \<Rightarrow> handle \<Rightarrow> rnstate \<Rightarrow> rnstate option" where
  "attach_pending nn h s =
     (case nn of
        None \<Rightarrow> Some s
      | Some ns \<Rightarrow>
          if length ns \<le> rn_i s then None
          else if nn_source (ns ! rn_i s) = NEW_UPLOAD then
            (let uh = nn_uploadhandle (ns ! rn_i s);
                 here = filter (\<lambda>x. fst (fst x) = uh) (rn_pendingfa s)
             in Some (s\<lparr>rn_calls := rn_calls s @ map (\<lambda>x. AttachFA h (snd (fst x)) (fst (snd x)) (snd (snd x))) here,
                        rn_pendingfa := filter (\<lambda>x. fst (fst x) \<noteq> uh) (rn_pendingfa s),
                        rn_uhnh := insort (uh, h) (removeAll (uh, h) (rn_uhnh s))\<rparr>))
          else Some s)"

definition opt_copy :: "bytes option \<Rightarrow> bytes" where
  "opt_copy v = (case v of Some p \<Rightarrow> copystring p | None \<Rightarrow> [])"

text \<open>A node that is not known yet; \<open>ts + tmd\<close> is taken without the wrap-around of 64 bits.\<close>

definition new_node :: "libs \<Rightarrow> nat \<Rightarrow> int \<Rightarrow> bytes \<Rightarrow> bytes \<Rightarrow> newnode list option \<Rightarrow> int \<Rightarrow> nodeelem \<Rightarrow> rnstate \<Rightarrow> rnstate option" where
  "new_node L k now fpjunk skjunk nn tag e s =
     (let (sh, mc0) = inbound_share L skjunk e (rn_mc s);
          ts = (if ne_ts e = -1 then now else ne_ts e);
          sts = (if ne_sts e = -1 then ts else ne_sts e)
      in Option.bind (Node k (rn_dp s) (ne_h e) (ne_ph e) (ne_t e) (ne_s e) (ne_u e) (Some (opt_copy (ne_fa e))) ts (ts + ne_tmd e) fpjunk mc0)
           (\<lambda>(dp, mc1).
             (let mc2 = upd_node (ne_h e) (\<lambda>n. n\<lparr>n_tag := tag, n_attrstring := opt_copy (ne_a e), n_keystring := opt_copy (ne_k e)\<rparr>) mc1;
                  mc3 = (case sh of
                           Some (su, buf) \<Rightarrow> mc2\<lparr>mc_newshares := mc_newshares mc2 @ [NewShare (ne_h e) 0 su (ne_rl e) sts (Some buf) None]\<rparr>
                         | None \<Rightarrow> mc2)
              in map_option (\<lambda>s1. s1\<lparr>rn_i := Suc (rn_i s1)\<rparr>) (attach_pending nn (ne_h e) (s\<lparr>rn_mc := mc3, rn_dp := dp\<rparr>)))))"

definition enter_node :: "libs \<Rightarrow> nat \<Rightarrow> int \<Rightarrow> bytes \<Rightarrow> bytes \<Rightarrow> bool \<Rightarrow> newnode list option \<Rightarrow> int \<Rightarrow> nodeelem \<Rightarrow> rnstate \<Rightarrow> rnstate option" where
  "enter_node L k now fpjunk skjunk noti nn tag e s =
     (if node_warned e then Some s
      else
        map_option (\<lambda>s1. if noti then rn_upd (notifynode (ne_h e)) s1 else s1)
          (case nodebyhandle (rn_mc s) (ne_h e) of
             Some n \<Rightarrow> known_node k e n s
           | None \<Rightarrow> new_node L k now fpjunk skjunk nn tag e s))"

definition readnode :: "libs \<Rightarrow> nat \<Rightarrow> int \<Rightarrow> bytes \<Rightarrow> bytes \<Rightarrow> bool \<Rightarrow> newnode list option \<Rightarrow> int \<Rightarrow> rnstate \<Rightarrow> bytes \<Rightarrow> (bool \<times> rnstate \<times> bytes) option" where
  "readnode L k now fpjunk skjunk noti nn tag s p =
     Option.bind (scan (switch node_cases) nodeelem_init p)
       (\<lambda>(z, e, p1).
         if z = AtEOO then map_option (\<lambda>s1. (True, s1, p1)) (enter_node L k now fpjunk skjunk noti nn tag e s)
         else Some (False, s, p1))"

text \<open>\<open>for (i = dp.size(); i--;)\<close>: the nodes that came before their parents.\<close>

definition adopt :: "nat \<Rightarrow> handle \<Rightarrow> megaclient option \<Rightarrow> megaclient option" where
  "adopt k h r =
     Option.bind r (\<lambda>mc.
       case nodebyhandle mc h of
         None \<Rightarrow> None
       | Some n \<Rightarrow> if nodebyhandle mc (n_parenthandle n) \<noteq> None then map_option snd (setparent k (n_parenthandle n) h mc) else Some mc)"

text \<open>The return value, the state, the position.\<close>

definition readnodes :: "libs \<Rightarrow> nat \<Rightarrow> int \<Rightarrow> bytes \<Rightarrow> bytes \<Rightarrow> bool \<Rightarrow> newnode list option \<Rightarrow> int \<Rightarrow> rnstate \<Rightarrow> bytes \<Rightarrow> (bool \<times> rnstate \<times> bytes) option" where
  "readnodes L k now fpjunk skjunk noti nn tag s p =
     (let (b, p1) = enterarray p in
      if \<not> b then Some (False, s, p1)
      else
        Option.bind (obj_loop (readnode L k now fpjunk skjunk noti nn tag) (s\<lparr>rn_dp := [], rn_i := 0\<rparr>) p1)
          (\<lambda>(ok, s1, p2).
            if \<not> ok then Some (False, s1, p2)
            else
              map_option (\<lambda>mc. (let (r, p3) = leavearray p2 in (r, s1\<lparr>rn_mc := mc\<rparr>, p3)))
                (fold (adopt k) (rev (rn_dp s1)) (Some (rn_mc s1)))))"

section \<open>The table as a function\<close>

text \<open>What a reader sees of the node table: the data of each node (\<open>D\<close>) and its parent (\<open>P\<close>). The operations on the linked structure
  refine updates of these two functions.\<close>

type_synonym node_info = "handle \<times> int \<times> handle \<times> bytes \<times> bytes \<times> bytes \<times> int \<times> handle \<times> int \<times> int"

definition node_view :: "node \<Rightarrow> node_info" where
  "node_view n = (n_handle n, n_type n, n_parenthandle n, n_attrstring n, n_keystring n, n_fileattrstring n, fp_size (n_fp n), n_owner n, n_ctime n, n_clienttimestamp n)"

lemma node_view_frame [simp]:
  "node_view (n\<lparr>n_syncget := b\<rparr>) = node_view n" "node_view (moved p h q x n) = node_view n"
  by (simp_all add: node_view_def moved_def)

abbreviation (input) view_type :: "node_info \<Rightarrow> int" where
  "view_type v \<equiv> fst (snd v)"

definition repr :: "(handle \<Rightarrow> nat) \<Rightarrow> nat \<Rightarrow> megaclient \<Rightarrow> (handle \<Rightarrow> node_info option) \<Rightarrow> (handle \<Rightarrow> handle option) \<Rightarrow> bool" where
  "repr rk d mc D P \<longleftrightarrow>
     links_ok mc \<and> ranked rk d mc \<and>
     (\<forall>x. map_option node_view (nodebyhandle mc x) = D x) \<and> (\<forall>x. Option.bind (nodebyhandle mc x) n_parent = P x)"

lemma reprD:
  assumes "repr rk d mc D P"
  shows "links_ok mc" "ranked rk d mc" "om_invar (mc_nodes mc)" "tree_ok mc"
    "map_option node_view (nodebyhandle mc x) = D x" "Option.bind (nodebyhandle mc x) n_parent = P x"
  using assms by (auto simp: repr_def links_ok_def tree_ok_def)

lemma repr_node: "repr rk d mc D P \<Longrightarrow> D x = Some v \<Longrightarrow> \<exists>n. nodebyhandle mc x = Some n \<and> node_view n = v"
  using reprD(5) [of rk d mc D P x] by auto

text \<open>Two tables that differ only in what the view does not show.\<close>

lemma repr_same:
  assumes r: "repr rk d mc D P" and st: "same_tree mc mc'" "om_invar (mc_nodes mc')"
    and v: "\<And>x. map_option node_view (nodebyhandle mc' x) = D' x"
  shows "repr rk d mc' D' P"
proof -
  have "Option.bind (nodebyhandle mc' x) n_parent = P x" for x
  proof -
    have "map_option (\<lambda>n. (n_type n, n_parent n, n_children n)) (nodebyhandle mc x) =
        map_option (\<lambda>n. (n_type n, n_parent n, n_children n)) (nodebyhandle mc' x)"
      using st(1) by (simp add: same_tree_def)
    then show ?thesis
      using reprD(6) [OF r, of x] by (cases "nodebyhandle mc x"; cases "nodebyhandle mc' x") auto
  qed
  then show ?thesis using same_tree_ok [OF st] reprD(1,2) [OF r] v by (simp add: repr_def)
qed

lemma repr_notify: "repr rk d mc D P \<Longrightarrow> repr rk d (notifynode h mc) D P"
proof -
  assume r: "repr rk d mc D P"
  have "merge_to (\<lambda>_ _. False) (\<lambda>_. False) mc (notifynode h mc)" by (intro merge_to_notify merge_to_refl)
  then have st: "same_tree mc (notifynode h mc)" "om_invar (mc_nodes (notifynode h mc))"
    using reprD(3) [OF r] by (auto simp: merge_to_tree merge_to_def)
  have "map_option node_view (nodebyhandle (notifynode h mc) x) = D x" for x
    using notifynode_alike [of mc x h] reprD(5) [OF r, of x] by (cases rule: option.rel_cases) (auto simp: node_view_def dest!: alikeD)
  then show ?thesis by (rule repr_same [OF r st])
qed

lemma repr_upd:
  assumes r: "repr rk d mc D P"
    and f: "\<And>n. n_type (f n) = n_type n \<and> n_parent (f n) = n_parent n \<and> n_children (f n) = n_children n \<and> node_view (f n) = g (node_view n)"
  shows "repr rk d (upd_node h f mc) (D(h := map_option g (D h))) P"
proof (rule repr_same [OF r])
  show "same_tree mc (upd_node h f mc)" using f by (auto simp: same_tree_def upd_node_lookup option.map_comp comp_def)
  show "om_invar (mc_nodes (upd_node h f mc))" by (rule upd_node_invar [OF reprD(3) [OF r]])
  show "map_option node_view (nodebyhandle (upd_node h f mc) x) = (D(h := map_option g (D h))) x" for x
    using f reprD(5) [OF r, of x, symmetric] by (auto simp: upd_node_lookup option.map_comp comp_def)
qed

lemma repr_clientfield:
  "mc_nodes mc' = mc_nodes mc \<Longrightarrow> repr rk d mc' D P \<longleftrightarrow> repr rk d mc D P"
  by (simp add: repr_def links_ok_def ranked_def nodebyhandle_def)

text \<open>\<open>setparent\<close> to a node of lower rank.\<close>

lemma relink_ranked_low:
  assumes l: "links_ok mc" and r: "ranked rk d mc" and "rk p < rk h"
  shows "ranked rk d (relink p h n mc)"
proof -
  have inv: "om_invar (mc_nodes mc)" using l by (simp add: links_ok_def)
  have "rk x < d \<and> (\<forall>q. n_parent m = Some q \<longrightarrow> rk q < rk x)" if lk: "nodebyhandle (relink p h n mc) x = Some m" for x m
  proof -
    obtain m0 where m0: "nodebyhandle mc x = Some m0" "m = moved p h (n_parent n) x m0"
      using lk by (auto simp: relink_lookup(1) [OF inv])
    show ?thesis using r m0 assms(3) by (auto simp: ranked_def moved_def)
  qed
  then show ?thesis by (simp add: ranked_def)
qed

lemma same_view_delsyncget: "map_option node_view (nodebyhandle (fold delsyncget xs mc) x) = map_option node_view (nodebyhandle mc x)"
proof (induction xs arbitrary: mc)
  case (Cons y xs)
  have "map_option node_view (nodebyhandle (delsyncget y mc) x) = map_option node_view (nodebyhandle mc x)"
    by (simp add: delsyncget_def upd_node_lookup option.map_comp comp_def if_distrib cong: if_cong)
  then show ?case using Cons by simp
qed simp

lemma repr_relink:
  assumes r: "repr rk d mc D P" and h: "nodebyhandle mc h = Some n" "n_parent n \<noteq> Some p"
    and p: "D p = Some v" "view_type v \<noteq> FILENODE" "rk p < rk h"
  shows "repr rk d (relink p h n mc) D (P(h := Some p))"
proof -
  obtain mp where mp: "nodebyhandle mc p = Some mp" "n_type mp \<noteq> FILENODE"
    using repr_node [OF r p(1)] p(2) by (auto simp: node_view_def)
  note lk = relink_lookup(1) [OF reprD(3) [OF r], of p h n]
  have "map_option node_view (nodebyhandle (relink p h n mc) x) = D x" for x
    by (simp add: lk option.map_comp comp_def flip: reprD(5) [OF r])
  moreover have "Option.bind (nodebyhandle (relink p h n mc) x) n_parent = (P(h := Some p)) x" for x
    using reprD(6) [OF r, of x] h(1) by (cases "nodebyhandle mc x") (auto simp: lk moved_def)
  ultimately show ?thesis
    using relink_links [OF reprD(1) [OF r] h mp] relink_ranked_low [OF reprD(1,2) [OF r] p(3)] by (simp add: repr_def)
qed

lemma repr_setparent:
  assumes r: "repr rk d mc D P" and h: "D h \<noteq> None" and p: "D p = Some v" "view_type v \<noteq> FILENODE" "rk p < rk h" and k: "d \<le> k"
  shows "\<exists>b mc'. setparent k p h mc = Some (b, mc') \<and> repr rk d mc' D (P(h := Some p)) \<and>
    mc_newshares mc' = mc_newshares mc \<and> mc_key mc' = mc_key mc"
proof -
  obtain n where n: "nodebyhandle mc h = Some n" using repr_node [OF r] h by blast
  show ?thesis
  proof (cases "n_parent n = Some p")
    case True
    then have "P(h := Some p) = P" using reprD(6) [OF r, of h] n by auto
    then show ?thesis using True n r by (intro exI [of _ False] exI [of _ mc]) (simp add: setparent_def)
  next
    case False
    define mc1 where "mc1 = relink p h n mc"
    have r1: "repr rk d mc1 D (P(h := Some p))" unfolding mc1_def by (rule repr_relink [OF r n False p])
    have same: "mc_newshares mc1 = mc_newshares mc" "mc_key mc1 = mc_key mc"
      by (simp_all add: mc1_def relink_def detach_def split: option.split)
    obtain np where "nodebyhandle mc1 p = Some np" using repr_node [OF r1 p(1)] by blast
    then have sa: "synced_above mc1 (Some p) \<noteq> None" using synced_above_total [OF reprD(1,2) [OF r1]] by simp
    define mc2 where "mc2 = fold delsyncget (postorder k mc1 h) mc1"
    have "nodebyhandle mc1 h \<noteq> None" using repr_node [OF r1] h by blast
    then have pt: "proctree k id delsyncget h mc1 = Some mc2"
      unfolding mc2_def
      by (intro proctree_postorder [OF reprD(1,2) [OF r1]]) (use k in \<open>auto simp: same_tree_def [of mc1 mc1] intro: same_tree_trans delsyncget_same\<close>)
    have st: "same_tree mc1 mc2" "om_invar (mc_nodes mc2)" using delsyncget_fold reprD(3) [OF r1] by (simp_all add: mc2_def)
    have r2: "repr rk d mc2 D (P(h := Some p))"
      by (rule repr_same [OF r1 st]) (simp add: mc2_def same_view_delsyncget reprD(5) [OF r1])
    have same2: "mc_newshares mc2 = mc_newshares mc1 \<and> mc_key mc2 = mc_key mc1"
      unfolding mc2_def by (rule fold_invariant [where Q = "\<lambda>_. True"]) (auto simp: delsyncget_def)
    show ?thesis
      using n False sa pt r1 r2 same same2 unfolding setparent_def
      by (auto simp flip: mc1_def split: bool.split)
  qed
qed


lemma repr_register:
  assumes r: "repr rk d mc D P" and h: "D h = None" "rk h < d" and n: "n_parent n = None" "n_children n = []"
  shows "repr rk d (register_node h n mc) (D(h := Some (node_view n))) P"
proof -
  have nodes: "mc_nodes (register_node h n mc) = om_update h n (mc_nodes mc)" by (simp add: register_node_def Let_def)
  then have lk: "nodebyhandle (register_node h n mc) x = (if x = h then Some n else nodebyhandle mc x)" for x
    by (simp add: nodebyhandle_def om_lookup_map_of map_of_om_update)
  have new: "nodebyhandle mc h = None" using reprD(5) [OF r, of h] h(1) by simp
  have "links_ok (register_node h n mc)" using add_node_tree [OF reprD(1,2) [OF r] new n nodes] by simp
  moreover have "ranked rk d (register_node h n mc)" using reprD(2) [OF r] h(2) n(1) by (auto simp: ranked_def lk)
  moreover have "P h = None" using reprD(6) [OF r, of h] new by simp
  ultimately show ?thesis using r n(1) by (auto simp: repr_def lk)
qed

text \<open>The constructor: the node is there, below its parent if that is known; otherwise it waits in \<open>dp\<close>.\<close>

lemma repr_Node:
  assumes r: "repr rk d mc D P" and h: "D h = None" "rk h < d" and ph: "\<And>v. D ph = Some v \<Longrightarrow> view_type v \<noteq> FILENODE \<and> rk ph < rk h"
    and ne: "ph \<noteq> h" and k: "d \<le> k"
  shows "\<exists>dp' mc'. Node k dp h ph t s u fa ts tm junk mc = Some (dp', mc') \<and>
    repr rk d mc' (D(h := Some (node_view (fresh_node h ph t s u fa ts tm junk)))) (P(h := if D ph = None then None else Some ph)) \<and>
    dp' = (if D ph = None then dp @ [h] else dp)"
proof -
  define n where "n = fresh_node h ph t s u fa ts tm junk"
  define mc1 where "mc1 = register_node h n mc"
  have v: "node_view n = node_view (fresh_node h ph t s u fa ts tm junk)" "n_parent n = None" "n_children n = []"
    by (simp_all add: n_def fresh_node_def)
  have r1: "repr rk d mc1 (D(h := Some (node_view (fresh_node h ph t s u fa ts tm junk)))) P"
    using repr_register [OF r h v(2,3)] by (simp add: mc1_def v(1))
  have Ph: "P h = None" using reprD(6) [OF r, of h] reprD(5) [OF r, of h] h(1) by simp
  have nd: "Node k dp h ph t s u fa ts tm junk mc =
      (case nodebyhandle mc1 ph of Some p \<Rightarrow> map_option (\<lambda>(b, m). (dp, m)) (setparent k ph h mc1) | None \<Rightarrow> Some (dp @ [h], mc1))"
    unfolding Node_def mc1_def n_def Let_def by (rule refl)
  have lk: "nodebyhandle mc1 ph = None \<longleftrightarrow> D ph = None" using reprD(5) [OF r1, of ph] ne by auto
  show ?thesis
  proof (cases "D ph")
    case None
    then have "P(h := None) = P" using Ph by (auto simp: fun_eq_iff)
    then show ?thesis using nd lk None r1 by (simp del: fun_upd_apply)
  next
    case (Some v)
    obtain b mc' where "setparent k ph h mc1 = Some (b, mc')" "repr rk d mc' (D(h := Some (node_view (fresh_node h ph t s u fa ts tm junk)))) (P(h := Some ph))"
      using repr_setparent [OF r1, of h ph v k] Some ne ph k by (auto simp del: fun_upd_apply simp: fun_upd_same fun_upd_other)
    then show ?thesis using nd lk Some by (auto split: option.splits simp del: fun_upd_apply)
  qed
qed

section \<open>The text of a list of nodes\<close>

record nodedesc =
  nd_h :: handle
  nd_ph :: handle
  nd_u :: handle
  nd_t :: int
  nd_a :: bytes
  nd_k :: bytes
  nd_s :: int
  nd_ts :: int
  nd_tmd :: int
  nd_fa :: bytes

definition handle_json :: "nat \<Rightarrow> handle \<Rightarrow> json_value" where
  "handle_json k h = JStr (btoa (le_bytes k h))"

definition node_json :: "nodedesc \<Rightarrow> json_value" where
  "node_json x = JObj
     ((str ''h'', handle_json 6 (nd_h x)) # (if ISUNDEF (nd_ph x) then [] else [(str ''p'', handle_json 6 (nd_ph x))]) @
      [(str ''u'', handle_json 8 (nd_u x)), (str ''t'', JNum (dec_int (nd_t x))), (str ''a'', JStr (nd_a x)), (str ''k'', JStr (nd_k x)),
       (str ''s'', JNum (dec_int (nd_s x))), (str ''ts'', JNum (dec_int (nd_ts x))),
       (str ''tmd'', JNum (dec_int (nd_tmd x)))] @ (if nd_t x = FILENODE then [(str ''fa'', JStr (nd_fa x))] else []))"

definition text_ok :: "bytes \<Rightarrow> bool" where
  "text_ok s \<longleftrightarrow> str_ok False s \<and> ch_bslash \<notin> set s"

definition desc_ok :: "nodedesc \<Rightarrow> bool" where
  "desc_ok x \<longleftrightarrow>
     take_bit 48 (nd_h x) = nd_h x \<and> (ISUNDEF (nd_ph x) \<or> take_bit 48 (nd_ph x) = nd_ph x) \<and>
     FILENODE \<le> nd_t x \<and> nd_t x \<le> MAILNODE \<and> (nd_t x \<in> {FILENODE, FOLDERNODE} \<longrightarrow> \<not> ISUNDEF (nd_ph x)) \<and>
     text_ok (nd_a x) \<and> text_ok (nd_k x) \<and> 0 \<le> nd_s x \<and> nd_s x < 2 ^ 63 \<and> 0 \<le> nd_ts x \<and> nd_ts x < 2 ^ 63 \<and>
     - (2 ^ 63) \<le> nd_tmd x \<and> nd_tmd x < 2 ^ 63 \<and> text_ok (nd_fa x) \<and> copystring (nd_fa x) = nd_fa x \<and> (nd_t x \<noteq> FILENODE \<longrightarrow> nd_fa x = [])"

text \<open>What \<open>readnode\<close> collects from the text, with pointers cut at the end of their values.\<close>

definition elem_cut :: "nodeelem \<Rightarrow> nodeelem" where
  "elem_cut e = e\<lparr>ne_a := map_option copystring (ne_a e), ne_k := map_option copystring (ne_k e), ne_fa := map_option copystring (ne_fa e)\<rparr>"

definition elem_of :: "nodedesc \<Rightarrow> nodeelem" where
  "elem_of x = nodeelem_init\<lparr>ne_h := nd_h x, ne_ph := nd_ph x, ne_u := nd_u x, ne_t := nd_t x, ne_a := Some (nd_a x), ne_k := Some (nd_k x),
     ne_s := nd_s x, ne_ts := nd_ts x, ne_tmd := nd_tmd x, ne_fa := (if nd_t x = FILENODE then Some (nd_fa x) else None)\<rparr>"

lemmas node_lookup = switch_def node_cases_def MAKENAMEID_def

lemma copystring_text: "text_ok s \<Longrightarrow> copystring (s @ ch_quote # r) = s"
  by (simp add: text_ok_def copystring_quote)

lemma node_switch:
  "switch node_cases (MAKENAMEID ''h'') = Some (rd_handle 6 (\<lambda>h e. e\<lparr>ne_h := h\<rparr>))"
  "switch node_cases (MAKENAMEID ''p'') = Some (rd_handle 6 (\<lambda>h e. e\<lparr>ne_ph := h\<rparr>))"
  "switch node_cases (MAKENAMEID ''u'') = Some (rd_handle 8 (\<lambda>h e. e\<lparr>ne_u := h\<rparr>))"
  "switch node_cases (MAKENAMEID ''t'') = Some (rd_int (\<lambda>i e. e\<lparr>ne_t := to_int i\<rparr>))"
  "switch node_cases (MAKENAMEID ''a'') = Some (rd_value (\<lambda>v e. e\<lparr>ne_a := Some v\<rparr>))"
  "switch node_cases (MAKENAMEID ''k'') = Some (rd_value (\<lambda>v e. e\<lparr>ne_k := Some v\<rparr>))"
  "switch node_cases (MAKENAMEID ''s'') = Some (rd_int (\<lambda>i e. e\<lparr>ne_s := i\<rparr>))"
  "switch node_cases (MAKENAMEID ''ts'') = Some (rd_int (\<lambda>i e. e\<lparr>ne_ts := i\<rparr>))"
  "switch node_cases (MAKENAMEID ''tmd'') = Some (rd_int (\<lambda>i e. e\<lparr>ne_tmd := i\<rparr>))"
  "switch node_cases (MAKENAMEID ''fa'') = Some (rd_value (\<lambda>v e. e\<lparr>ne_fa := Some v\<rparr>))"
  by (simp_all add: node_lookup)

lemma node_members:
  assumes "switch node_cases (MAKENAMEID k) = Some r" "k \<in> {''h'', ''p'', ''u'', ''t'', ''a'', ''k'', ''s'', ''ts'', ''tmd'', ''fa''}"
    and "wf_json v" "reads elem_cut r v g"
  shows "member_effect elem_cut (switch node_cases) (str k, v) g"
  by (rule member_effectI [OF _ _ assms(1,3,4)]) (use assms(2) in \<open>auto simp: MAKENAMEID_def\<close>)

lemma node_effects:
  assumes "desc_ok x"
  shows "list_all2 (member_effect elem_cut (switch node_cases))
    ((str ''h'', handle_json 6 (nd_h x)) # (if ISUNDEF (nd_ph x) then [] else [(str ''p'', handle_json 6 (nd_ph x))]) @
      [(str ''u'', handle_json 8 (nd_u x)), (str ''t'', JNum (dec_int (nd_t x))), (str ''a'', JStr (nd_a x)), (str ''k'', JStr (nd_k x)),
       (str ''s'', JNum (dec_int (nd_s x))), (str ''ts'', JNum (dec_int (nd_ts x))),
       (str ''tmd'', JNum (dec_int (nd_tmd x)))] @ (if nd_t x = FILENODE then [(str ''fa'', JStr (nd_fa x))] else []))
    ((\<lambda>e. e\<lparr>ne_h := nd_h x\<rparr>) # (if ISUNDEF (nd_ph x) then [] else [\<lambda>e. e\<lparr>ne_ph := nd_ph x\<rparr>]) @
      [\<lambda>e. e\<lparr>ne_u := nd_u x\<rparr>, \<lambda>e. e\<lparr>ne_t := nd_t x\<rparr>, \<lambda>e. e\<lparr>ne_a := Some (nd_a x)\<rparr>, \<lambda>e. e\<lparr>ne_k := Some (nd_k x)\<rparr>,
       \<lambda>e. e\<lparr>ne_s := nd_s x\<rparr>, \<lambda>e. e\<lparr>ne_ts := nd_ts x\<rparr>, \<lambda>e. e\<lparr>ne_tmd := nd_tmd x\<rparr>] @ (if nd_t x = FILENODE then [\<lambda>e. e\<lparr>ne_fa := Some (nd_fa x)\<rparr>] else []))"
proof -
  have d: "take_bit 48 (nd_h x) = nd_h x" "\<not> ISUNDEF (nd_ph x) \<Longrightarrow> take_bit 48 (nd_ph x) = nd_ph x" "0 \<le> nd_t x" "nd_t x \<le> 5"
    "text_ok (nd_a x)" "text_ok (nd_k x)" "0 \<le> nd_s x" "nd_s x < 2 ^ 63" "0 \<le> nd_ts x" "nd_ts x < 2 ^ 63"
    "- (2 ^ 63) \<le> nd_tmd x" "nd_tmd x < 2 ^ 63" "text_ok (nd_fa x)"
    using assms by (auto simp: desc_ok_def)
  have t: "to_int (nd_t x) = nd_t x" using d by (simp add: to_int_small)
  note hs = handle_json_def str_ok_btoa elem_cut_def num_ok_dec_int
  have "member_effect elem_cut (switch node_cases) (str ''h'', handle_json 6 (nd_h x)) (\<lambda>e. e\<lparr>ne_h := nd_h x\<rparr>)"
    "\<not> ISUNDEF (nd_ph x) \<Longrightarrow> member_effect elem_cut (switch node_cases) (str ''p'', handle_json 6 (nd_ph x)) (\<lambda>e. e\<lparr>ne_ph := nd_ph x\<rparr>)"
    "member_effect elem_cut (switch node_cases) (str ''u'', handle_json 8 (nd_u x)) (\<lambda>e. e\<lparr>ne_u := nd_u x\<rparr>)"
    using d by (auto intro!: node_members [OF node_switch(1)] node_members [OF node_switch(2)] node_members [OF node_switch(3)] reads_handle
        simp: hs take_bit_word_full)
  moreover have "member_effect elem_cut (switch node_cases) (str ''t'', JNum (dec_int (nd_t x))) (\<lambda>e. e\<lparr>ne_t := nd_t x\<rparr>)"
    "member_effect elem_cut (switch node_cases) (str ''s'', JNum (dec_int (nd_s x))) (\<lambda>e. e\<lparr>ne_s := nd_s x\<rparr>)"
    "member_effect elem_cut (switch node_cases) (str ''ts'', JNum (dec_int (nd_ts x))) (\<lambda>e. e\<lparr>ne_ts := nd_ts x\<rparr>)"
    "member_effect elem_cut (switch node_cases) (str ''tmd'', JNum (dec_int (nd_tmd x))) (\<lambda>e. e\<lparr>ne_tmd := nd_tmd x\<rparr>)"
    using d t by (auto intro!: node_members [OF node_switch(4)] node_members [OF node_switch(7)] node_members [OF node_switch(8)] node_members [OF node_switch(9)] reads_int simp: hs)
  moreover have "member_effect elem_cut (switch node_cases) (str ''a'', JStr (nd_a x)) (\<lambda>e. e\<lparr>ne_a := Some (nd_a x)\<rparr>)"
    "member_effect elem_cut (switch node_cases) (str ''k'', JStr (nd_k x)) (\<lambda>e. e\<lparr>ne_k := Some (nd_k x)\<rparr>)"
    "member_effect elem_cut (switch node_cases) (str ''fa'', JStr (nd_fa x)) (\<lambda>e. e\<lparr>ne_fa := Some (nd_fa x)\<rparr>)"
    using d by (auto intro!: node_members [OF node_switch(5)] node_members [OF node_switch(6)] node_members [OF node_switch(10)] reads_value simp: hs copystring_text text_ok_def)
  ultimately show ?thesis by (simp add: list_all2_append)
qed

definition view_of :: "nodedesc \<Rightarrow> node_info" where
  "view_of x = (nd_h x, nd_t x, nd_ph x, nd_a x, nd_k x, nd_fa x, nd_s x, nd_u x, nd_ts x, nd_ts x + nd_tmd x)"

lemma small_handle: "take_bit 48 h = h \<Longrightarrow> \<not> ISUNDEF h"
  using handle_not_undef by (simp add: ISUNDEF_iff)

lemma scan_node:
  assumes "desc_ok x"
  shows "\<exists>e. scan (switch node_cases) nodeelem_init (body (node_json x) @ rest) = Some (AtEOO, e, ch_rbrace # rest) \<and> elem_cut e = elem_of x"
proof -
  have u: "ISUNDEF (nd_ph x) \<Longrightarrow> nd_ph x = UNDEF" by (simp add: ISUNDEF_iff)
  show ?thesis
    using scan_object [OF node_effects [OF assms], of nodeelem_init rest] u
    by (auto simp: node_json_def elem_of_def elem_cut_def nodeelem_init_def simp del: body.simps split: if_splits)
qed

lemma repr_readnode:
  assumes r: "repr rk d (rn_mc s) D P" and x: "desc_ok x" "D (nd_h x) = None" "rk (nd_h x) < d" "nd_ph x \<noteq> nd_h x"
    and ph: "\<And>v. D (nd_ph x) = Some v \<Longrightarrow> view_type v \<noteq> FILENODE \<and> rk (nd_ph x) < rk (nd_h x)" and k: "d \<le> k"
  shows "\<exists>s'. readnode L k now fpjunk skjunk noti None tag s (body (node_json x) @ rest) = Some (True, s', ch_rbrace # rest) \<and>
    repr rk d (rn_mc s') (D(nd_h x := Some (view_of x))) (P(nd_h x := if D (nd_ph x) = None then None else Some (nd_ph x))) \<and>
    rn_dp s' = (if D (nd_ph x) = None then rn_dp s @ [nd_h x] else rn_dp s)"
proof -
  obtain e where e: "scan (switch node_cases) nodeelem_init (body (node_json x) @ rest) = Some (AtEOO, e, ch_rbrace # rest)" "elem_cut e = elem_of x"
    using scan_node [OF x(1)] by blast
  have f: "ne_h e = nd_h x" "ne_ph e = nd_ph x" "ne_u e = nd_u x" "ne_t e = nd_t x" "ne_s e = nd_s x" "ne_ts e = nd_ts x" "ne_su e = UNDEF"
      "ne_tmd e = nd_tmd x" "opt_copy (ne_fa e) = nd_fa x" "opt_copy (ne_a e) = nd_a x" "opt_copy (ne_k e) = nd_k x" "ne_a e \<noteq> None" "ne_k e \<noteq> None"
    "nd_t x \<noteq> FILENODE \<Longrightarrow> ne_fa e = None"
    using e(2) x(1) by (cases e; auto simp: elem_cut_def elem_of_def nodeelem_init_def opt_copy_def desc_ok_def split: if_splits option.splits)+
  have new: "nodebyhandle (rn_mc s) (nd_h x) = None" using reprD(5) [OF r, of "nd_h x"] x(2) by simp
  have w: "\<not> node_warned e" using x(1) f small_handle [of "nd_h x"] by (auto simp: node_warned_def desc_ok_def)
  define dp' where "dp' = (if D (nd_ph x) = None then rn_dp s @ [nd_h x] else rn_dp s)"
  define P' where "P' = P(nd_h x := if D (nd_ph x) = None then None else Some (nd_ph x))"
  obtain mc1 where mc1: "Node k (rn_dp s) (nd_h x) (nd_ph x) (nd_t x) (nd_s x) (nd_u x) (Some (nd_fa x)) (nd_ts x) (nd_ts x + nd_tmd x) fpjunk (rn_mc s) = Some (dp', mc1)"
    "repr rk d mc1 (D(nd_h x := Some (node_view (fresh_node (nd_h x) (nd_ph x) (nd_t x) (nd_s x) (nd_u x) (Some (nd_fa x)) (nd_ts x) (nd_ts x + nd_tmd x) fpjunk)))) P'"
    using repr_Node [OF r x(2,3) ph x(4) k] unfolding dp'_def P'_def by blast
  define mc2 where "mc2 = upd_node (nd_h x) (\<lambda>n. n\<lparr>n_tag := tag, n_attrstring := nd_a x, n_keystring := nd_k x\<rparr>) mc1"
  have fa: "copystring (nd_fa x) = nd_fa x" using x(1) by (simp add: desc_ok_def)
  have r2: "repr rk d mc2 (D(nd_h x := Some (view_of x))) P'"
    using repr_upd [OF mc1(2), of "\<lambda>n. n\<lparr>n_tag := tag, n_attrstring := nd_a x, n_keystring := nd_k x\<rparr>"
        "\<lambda>(h, t, p, _, _, r). (h, t, p, nd_a x, nd_k x, r)" "nd_h x"]
    by (simp add: mc2_def view_of_def node_view_def fresh_node_def fa)
  have ts: "nd_ts x \<noteq> -1" using x(1) by (auto simp: desc_ok_def)
  have "new_node L k now fpjunk skjunk None tag e s = Some (s\<lparr>rn_mc := mc2, rn_dp := dp', rn_i := Suc (rn_i s)\<rparr>)"
    using mc1(1) f ts by (simp add: new_node_def inbound_share_def ISUNDEF_iff attach_pending_def mc2_def)
  then have en: "enter_node L k now fpjunk skjunk noti None tag e s =
      Some (let s1 = s\<lparr>rn_mc := mc2, rn_dp := dp', rn_i := Suc (rn_i s)\<rparr> in if noti then rn_upd (notifynode (nd_h x)) s1 else s1)"
    using w new f(1) by (simp add: enter_node_def)
  have "repr rk d (if noti then notifynode (nd_h x) mc2 else mc2) (D(nd_h x := Some (view_of x))) P'"
    using r2 repr_notify [OF r2] by simp
  then show ?thesis unfolding readnode_def e(1) using en by (auto simp: rn_upd_def Let_def dp'_def P'_def)
qed

text \<open>The nodes that came before their parents.\<close>

lemma repr_adopt:
  assumes "repr rk d mc D P" "\<And>h. h \<in> set hs \<Longrightarrow> \<exists>v. D h = Some v" "d \<le> k"
    and "\<And>h v w. h \<in> set hs \<Longrightarrow> D h = Some v \<Longrightarrow> D (fst (snd (snd v))) = Some w \<Longrightarrow> view_type w \<noteq> FILENODE \<and> rk (fst (snd (snd v))) < rk h"
  shows "\<exists>mc' P'. fold (adopt k) hs (Some mc) = Some mc' \<and> repr rk d mc' D P' \<and>
    (\<forall>h. P' h = (if h \<in> set hs \<and> D (fst (snd (snd (the (D h))))) \<noteq> None then Some (fst (snd (snd (the (D h))))) else P h))"
  using assms
proof (induction hs arbitrary: mc P)
  case Nil
  then show ?case by auto
next
  case (Cons h hs)
  obtain v where Dh: "D h = Some v" using Cons.prems(2) [of h] by force
  obtain n where v: "D h = Some v" "nodebyhandle mc h = Some n" "node_view n = v" using repr_node [OF Cons.prems(1) Dh] Dh by blast
  define p where "p = fst (snd (snd v))"
  have np: "n_parenthandle n = p" using v(3) by (auto simp: p_def node_view_def)
  have lk: "nodebyhandle mc p = None \<longleftrightarrow> D p = None" using reprD(5) [OF Cons.prems(1), of p] by auto
  have "\<exists>mc1. adopt k h (Some mc) = Some mc1 \<and> repr rk d mc1 D (if D p = None then P else P(h := Some p))"
  proof (cases "D p")
    case None
    then show ?thesis using v np lk Cons.prems(1) by (simp add: adopt_def)
  next
    case (Some w)
    then have w: "view_type w \<noteq> FILENODE" "rk p < rk h" using Cons.prems(4) [of h v w] v(1) by (simp_all add: p_def)
    obtain b mc1 where "setparent k p h mc = Some (b, mc1)" "repr rk d mc1 D (P(h := Some p))"
      using repr_setparent [OF Cons.prems(1) _ Some w Cons.prems(3)] v(1) by auto
    then show ?thesis using v np lk Some by (auto simp: adopt_def)
  qed
  then obtain mc1 where mc1: "adopt k h (Some mc) = Some mc1" "repr rk d mc1 D (if D p = None then P else P(h := Some p))" by blast
  have "\<exists>mc' P'. fold (adopt k) hs (Some mc1) = Some mc' \<and> repr rk d mc' D P' \<and>
    (\<forall>x. P' x = (if x \<in> set hs \<and> D (fst (snd (snd (the (D x))))) \<noteq> None then Some (fst (snd (snd (the (D x)))))
       else (if D p = None then P else P(h := Some p)) x))"
    by (rule Cons.IH [OF mc1(2) _ Cons.prems(3)]) (use Cons.prems(2,4) in \<open>meson list.set_intros(2)\<close>)+
  then obtain mc' P' where "fold (adopt k) hs (Some mc1) = Some mc'" "repr rk d mc' D P'"
    "\<forall>x. P' x = (if x \<in> set hs \<and> D (fst (snd (snd (the (D x))))) \<noteq> None then Some (fst (snd (snd (the (D x)))))
       else (if D p = None then P else P(h := Some p)) x)" by blast
  then show ?case using mc1(1) v(1) by (auto simp: p_def intro!: exI [of _ P'])
qed


text \<open>The table after some of the nodes were read.\<close>

definition entered :: "(handle \<Rightarrow> node_info option) \<Rightarrow> nodedesc list
    \<Rightarrow> handle \<Rightarrow> node_info option" where
  "entered D xs = fold (\<lambda>x D. D(nd_h x := Some (view_of x))) xs D"

lemma entered_snoc [simp]: "entered D (ys @ [x]) = (entered D ys)(nd_h x := Some (view_of x))" "entered D [] = D"
  by (simp_all add: entered_def)

lemma entered_other: "h \<notin> nd_h ` set xs \<Longrightarrow> entered D xs h = D h"
  by (induction xs rule: rev_induct) auto

lemma entered_same: "distinct (map nd_h xs) \<Longrightarrow> x \<in> set xs \<Longrightarrow> entered D xs (nd_h x) = Some (view_of x)"
  by (induction xs rule: rev_induct) (auto simp: image_iff)

lemma entered_prefix:
  "distinct (map nd_h (ys @ zs)) \<Longrightarrow> \<forall>z \<in> set zs. D (nd_h z) = None \<Longrightarrow> entered D ys h = Some v \<Longrightarrow> entered D (ys @ zs) h = Some v"
proof (induction zs rule: rev_induct)
  case (snoc z zs)
  then have "entered D (ys @ zs) h = Some v" by simp
  moreover have "entered D (ys @ zs) (nd_h z) = None" using snoc.prems(1,2) entered_other [of "nd_h z" "ys @ zs" D] by auto
  ultimately show ?case by (auto simp flip: append_assoc)
qed simp

text \<open>What holds after the nodes \<open>ys\<close>: each is below its parent, or waits for it.\<close>

definition reading :: "(handle \<Rightarrow> nat) \<Rightarrow> nat \<Rightarrow> (handle \<Rightarrow> node_info option) \<Rightarrow> (handle \<Rightarrow> handle option)
    \<Rightarrow> nodedesc list \<Rightarrow> rnstate \<Rightarrow> bool" where
  "reading rk d D P ys s \<longleftrightarrow>
     (\<exists>Q. repr rk d (rn_mc s) (entered D ys) Q \<and> (\<forall>h. h \<notin> nd_h ` set ys \<longrightarrow> Q h = P h) \<and> set (rn_dp s) \<subseteq> nd_h ` set ys \<and>
        (\<forall>y \<in> set ys. (Q (nd_h y) = Some (nd_ph y) \<and> entered D ys (nd_ph y) \<noteq> None) \<or> (Q (nd_h y) = None \<and> nd_h y \<in> set (rn_dp s))))"

text \<open>A list of new nodes that form a forest with the nodes that are there.\<close>

definition forest :: "(handle \<Rightarrow> nat) \<Rightarrow> nat \<Rightarrow> (handle \<Rightarrow> node_info option) \<Rightarrow> nodedesc list \<Rightarrow> bool" where
  "forest rk d D xs \<longleftrightarrow>
     distinct (map nd_h xs) \<and>
     (\<forall>x \<in> set xs. desc_ok x \<and> D (nd_h x) = None \<and> rk (nd_h x) < d \<and>
        (\<forall>v. entered D xs (nd_ph x) = Some v \<longrightarrow> view_type v \<noteq> FILENODE \<and> rk (nd_ph x) < rk (nd_h x)))"

lemma reading_step:
  assumes f: "forest rk d D xs" and xs: "xs = ys @ x # zs" and I: "reading rk d D P ys s" and k: "d \<le> k"
  shows "\<exists>s'. readnode L k now fpjunk skjunk noti None tag s (body (node_json x) @ rest) = Some (True, s', ch_rbrace # rest) \<and>
    reading rk d D P (ys @ [x]) s'"
proof -
  obtain Q where Q: "repr rk d (rn_mc s) (entered D ys) Q" "\<And>h. h \<notin> nd_h ` set ys \<Longrightarrow> Q h = P h" "set (rn_dp s) \<subseteq> nd_h ` set ys"
    "\<And>y. y \<in> set ys \<Longrightarrow> (Q (nd_h y) = Some (nd_ph y) \<and> entered D ys (nd_ph y) \<noteq> None) \<or> (Q (nd_h y) = None \<and> nd_h y \<in> set (rn_dp s))"
    using I by (auto simp: reading_def)
  have x: "desc_ok x" "rk (nd_h x) < d" "nd_h x \<notin> nd_h ` set ys" "D (nd_h x) = None" and dist: "distinct (map nd_h xs)"
    and D: "\<forall>z \<in> set (x # zs). D (nd_h z) = None"
    and par: "\<And>v. entered D xs (nd_ph x) = Some v \<Longrightarrow> view_type v \<noteq> FILENODE \<and> rk (nd_ph x) < rk (nd_h x)"
    using f xs by (auto simp: forest_def)
  have new: "entered D ys (nd_h x) = None" using entered_other [OF x(3)] x(4) by simp
  have ph: "view_type v \<noteq> FILENODE \<and> rk (nd_ph x) < rk (nd_h x)" if "entered D ys (nd_ph x) = Some v" for v
    using par entered_prefix [of ys "x # zs" D "nd_ph x" v] dist D xs that by simp
  have ne: "nd_ph x \<noteq> nd_h x"
    using par [of "view_of x"] entered_same [OF dist, of x D] xs by auto
  obtain s' where s': "readnode L k now fpjunk skjunk noti None tag s (body (node_json x) @ rest) = Some (True, s', ch_rbrace # rest)"
    "repr rk d (rn_mc s') ((entered D ys)(nd_h x := Some (view_of x))) (Q(nd_h x := if entered D ys (nd_ph x) = None then None else Some (nd_ph x)))"
    "rn_dp s' = (if entered D ys (nd_ph x) = None then rn_dp s @ [nd_h x] else rn_dp s)"
    using repr_readnode [OF Q(1) x(1) new x(2) ne ph k] by blast
  define Q' where "Q' = Q(nd_h x := if entered D ys (nd_ph x) = None then None else Some (nd_ph x))"
  have "(Q' (nd_h y) = Some (nd_ph y) \<and> entered D (ys @ [x]) (nd_ph y) \<noteq> None) \<or> (Q' (nd_h y) = None \<and> nd_h y \<in> set (rn_dp s'))"
    if "y \<in> set (ys @ [x])" for y
  proof (cases "y = x")
    case True
    then show ?thesis using s'(3) ne by (simp add: Q'_def)
  next
    case False
    then have "y \<in> set ys" "nd_h y \<noteq> nd_h x" using that x(3) by (auto simp: image_iff)
    then show ?thesis using Q(4) [of y] s'(3) by (auto simp: Q'_def view_of_def)
  qed
  moreover have "\<forall>h. h \<notin> nd_h ` set (ys @ [x]) \<longrightarrow> Q' h = P h" using Q(2) by (auto simp: Q'_def)
  moreover have "set (rn_dp s') \<subseteq> nd_h ` set (ys @ [x])" using Q(3) s'(3) by auto
  ultimately have "reading rk d D P (ys @ [x]) s'"
    unfolding reading_def using s'(2) by (intro exI [of _ Q'] conjI ballI) (simp_all only: entered_snoc Q'_def)
  then show ?thesis using s'(1) by blast
qed

lemma reading_done:
  assumes f: "forest rk d D xs" and I: "reading rk d D P xs s" and k: "d \<le> k"
  shows "\<exists>mc' Q. fold (adopt k) (rev (rn_dp s)) (Some (rn_mc s)) = Some mc' \<and> repr rk d mc' (entered D xs) Q \<and>
    (\<forall>h. h \<notin> nd_h ` set xs \<longrightarrow> Q h = P h) \<and>
    (\<forall>x \<in> set xs. Q (nd_h x) = (if entered D xs (nd_ph x) = None then None else Some (nd_ph x)))"
proof -
  obtain Q where Q: "repr rk d (rn_mc s) (entered D xs) Q" "\<And>h. h \<notin> nd_h ` set xs \<Longrightarrow> Q h = P h" "set (rn_dp s) \<subseteq> nd_h ` set xs"
    "\<And>y. y \<in> set xs \<Longrightarrow> (Q (nd_h y) = Some (nd_ph y) \<and> entered D xs (nd_ph y) \<noteq> None) \<or> (Q (nd_h y) = None \<and> nd_h y \<in> set (rn_dp s))"
    using I by (auto simp: reading_def)
  have e: "entered D xs (nd_h x) = Some (view_of x)" if "x \<in> set xs" for x
    using f that by (intro entered_same) (auto simp: forest_def)
  have v: "fst (snd (snd (view_of x))) = nd_ph x" for x by (simp add: view_of_def)
  have mem: "\<exists>x \<in> set xs. h = nd_h x" if "h \<in> set (rev (rn_dp s))" for h using that Q(3) by auto
  have "\<exists>mc' Q'. fold (adopt k) (rev (rn_dp s)) (Some (rn_mc s)) = Some mc' \<and> repr rk d mc' (entered D xs) Q' \<and>
    (\<forall>h. Q' h = (if h \<in> set (rev (rn_dp s)) \<and> entered D xs (fst (snd (snd (the (entered D xs h))))) \<noteq> None
       then Some (fst (snd (snd (the (entered D xs h))))) else Q h))"
  proof (rule repr_adopt [OF Q(1) _ k])
    show "\<exists>v. entered D xs h = Some v" if "h \<in> set (rev (rn_dp s))" for h using mem [OF that] e by blast
    show "view_type w \<noteq> FILENODE \<and> rk (fst (snd (snd v))) < rk h"
      if h: "h \<in> set (rev (rn_dp s))" "entered D xs h = Some v" "entered D xs (fst (snd (snd v))) = Some w" for h v w
    proof -
      obtain x where x: "x \<in> set xs" "h = nd_h x" using mem [OF h(1)] by blast
      then have "fst (snd (snd v)) = nd_ph x" using h(2) e [OF x(1)] v by auto
      then show ?thesis using f x h(3) by (cases w) (auto simp: forest_def)
    qed
  qed
  then obtain mc' Q' where "fold (adopt k) (rev (rn_dp s)) (Some (rn_mc s)) = Some mc'" "repr rk d mc' (entered D xs) Q'"
    "\<And>h. Q' h = (if h \<in> set (rn_dp s) \<and> entered D xs (fst (snd (snd (the (entered D xs h))))) \<noteq> None
       then Some (fst (snd (snd (the (entered D xs h))))) else Q h)" by auto
  moreover have "Q' h = P h" if "h \<notin> nd_h ` set xs" for h using calculation(3) [of h] Q(2,3) that by auto
  moreover have "Q' (nd_h x) = (if entered D xs (nd_ph x) = None then None else Some (nd_ph x))" if "x \<in> set xs" for x
    using calculation(3) [of "nd_h x"] Q(4) [OF that] e [OF that] v by auto
  ultimately show ?thesis by blast
qed

text \<open>A list of nodes, in any order.\<close>

lemma readnodes_forest:
  assumes r: "repr rk d (rn_mc s) D P" and f: "forest rk d D xs" and k: "d \<le> k"
  shows "\<exists>s' Q. readnodes L k now fpjunk skjunk noti None tag s (pr (JArr (map node_json xs)) @ rest) = Some (True, s', rest) \<and>
    repr rk d (rn_mc s') (entered D xs) Q \<and> (\<forall>h. h \<notin> nd_h ` set xs \<longrightarrow> Q h = P h) \<and>
    (\<forall>x \<in> set xs. Q (nd_h x) = (if entered D xs (nd_ph x) = None then None else Some (nd_ph x)))"
proof -
  define fm where "fm x = (case node_json x of JObj ms \<Rightarrow> ms | _ \<Rightarrow> [])" for x
  have fm: "node_json x = JObj (fm x)" for x by (simp add: fm_def node_json_def)
  define p1 where "p1 = sep (map pr (map node_json xs)) @ ch_rbrack # rest"
  have ea: "enterarray (pr (JArr (map node_json xs)) @ rest) = (True, p1)"
    by (simp add: enterarray_def skip_char_def p1_def)
  have I0: "reading rk d D P [] (s\<lparr>rn_dp := [], rn_i := 0\<rparr>)" using r by (auto simp: reading_def)
  have "\<exists>s1. obj_loop (readnode L k now fpjunk skjunk noti None tag) (s\<lparr>rn_dp := [], rn_i := 0\<rparr>) p1 = Some (True, s1, ch_rbrack # rest) \<and>
      reading rk d D P xs s1"
  proof (rule obj_loop_items [where f = fm and I = "reading rk d D P" and ys = "[]" and zs = xs])
    show "\<exists>s'. readnode L k now fpjunk skjunk noti None tag t (body (JObj (fm x)) @ q) = Some (True, s', ch_rbrace # q) \<and>
        reading rk d D P (ys @ [x]) s'" if "xs = ys @ x # zs" "reading rk d D P ys t" for ys x zs t q
      using reading_step [OF f that k] by (simp only: fm)
    show "xs = [] @ xs" "reading rk d D P [] (s\<lparr>rn_dp := [], rn_i := 0\<rparr>)" using I0 by simp_all
    show "p1 = commas (map (\<lambda>x. JObj (fm x)) xs) @ ch_rbrack # rest \<or> p1 = ch_rbrace # commas (map (\<lambda>x. JObj (fm x)) xs) @ ch_rbrack # rest \<or>
      (xs \<noteq> [] \<and> p1 = tl (commas (map (\<lambda>x. JObj (fm x)) xs) @ ch_rbrack # rest))"
      unfolding p1_def by (cases xs) (simp_all add: commas_def sep_Cons fm comp_def del: pr.simps)
  qed
  then obtain s1 where s1: "obj_loop (readnode L k now fpjunk skjunk noti None tag) (s\<lparr>rn_dp := [], rn_i := 0\<rparr>) p1 = Some (True, s1, ch_rbrack # rest)"
    "reading rk d D P xs s1" by blast
  obtain mc' Q where mc': "fold (adopt k) (rev (rn_dp s1)) (Some (rn_mc s1)) = Some mc'" "repr rk d mc' (entered D xs) Q"
    "\<forall>h. h \<notin> nd_h ` set xs \<longrightarrow> Q h = P h" "\<forall>x \<in> set xs. Q (nd_h x) = (if entered D xs (nd_ph x) = None then None else Some (nd_ph x))"
    using reading_done [OF f s1(2) k] by blast
  have "readnodes L k now fpjunk skjunk noti None tag s (pr (JArr (map node_json xs)) @ rest) = Some (True, s1\<lparr>rn_mc := mc'\<rparr>, rest)"
    using ea s1(1) mc'(1) by (simp add: readnodes_def leavearray_def del: pr.simps)
  then show ?thesis using mc' by auto
qed

end
