(* ===== verification/Key_Requests.thy ===== *)
theory Key_Requests
  imports Read_Nodes
begin

text \<open>
  Requests for keys: the public key actions of \<open>src/pubkeyaction.cpp\<close>, their queue (\<open>queuepubkeyreq\<close>, \<open>setshare\<close>, \<open>exportnode\<close> of
  \<open>src/megaclient.cpp\<close>), the crypto requests of the server (\<open>procsr\<close>, \<open>proccr\<close>, \<open>procsnk\<close>, \<open>procsuk\<close>, \<open>cr_response\<close>) and the
  handlers of \<open>src/commands.cpp\<close> that continue them (\<open>CommandPubKeyRequest\<close>, \<open>CommandSetShare\<close>). \<open>rnd\<close> gives the blocks that \<open>PrnGen\<close>
  delivers. \<open>None\<close>: does not return, or an access out of bounds.
\<close>

text \<open>\<open>tag\<close> of a \<open>PubKeyActionSendShareKey\<close> is never set: the number is what the memory held.\<close>

datatype pubkeyaction =
    PkaPutNodes "newnode list" int
  | PkaSendShareKey handle int
  | PkaCreateShare handle int int

primrec pka_tag :: "pubkeyaction \<Rightarrow> int" where
  "pka_tag (PkaPutNodes nn t) = t"
| "pka_tag (PkaSendShareKey h t) = t"
| "pka_tag (PkaCreateShare h a t) = t"

abbreviation (input) API_ENOENT :: int where "API_ENOENT \<equiv> -9"

datatype key_event = putnodes_result int "newnode list" | share_result int | share_result_at nat int

text \<open>The client, the deques \<open>pkrs\<close> of the users, the file attributes that wait for an upload (\<open>pendingfa\<close>), queued commands and calls of the application. A command is constructed when it is queued.\<close>

record keyreqs =
  kr_mc :: megaclient
  kr_pkrs :: "int \<Rightarrow> pubkeyaction list"
  kr_pendingfa :: fa_map
  kr_calls :: "api_call list"
  kr_events :: "key_event list"

definition kr_upd :: "(megaclient \<Rightarrow> megaclient) \<Rightarrow> keyreqs \<Rightarrow> keyreqs" where
  "kr_upd f s = s\<lparr>kr_mc := f (kr_mc s)\<rparr>"

definition kr_call :: "api_call \<Rightarrow> keyreqs \<Rightarrow> keyreqs" where
  "kr_call c s = s\<lparr>kr_calls := kr_calls s @ [c]\<rparr>"

definition kr_event :: "key_event \<Rightarrow> keyreqs \<Rightarrow> keyreqs" where
  "kr_event e s = s\<lparr>kr_events := kr_events s @ [e]\<rparr>"

definition kr_user :: "keyreqs \<Rightarrow> int \<Rightarrow> user" where
  "kr_user s i = users_at (mc_users (kr_mc s)) i"

section \<open>Public key actions\<close>

text \<open>\<open>for (int i = nc; i--;)\<close>: \<open>False\<close> when a key could not be encrypted.\<close>

fun encrypt_keys :: "bigint \<Rightarrow> nat list \<Rightarrow> (nat \<Rightarrow> bytes) \<Rightarrow> nat \<Rightarrow> newnode list \<Rightarrow> (bool \<times> newnode list) option" where
  "encrypt_keys B key rnd 0 nn = Some (True, nn)"
| "encrypt_keys B key rnd (Suc i) nn =
     (case asymm_encrypt B key (nn_nodekey (nn ! i)) (rnd i) 1026 of
        None \<Rightarrow> None
      | Some c \<Rightarrow> if c = [] then Some (False, nn) else encrypt_keys B key rnd i (nn[i := (nn ! i)\<lparr>nn_nodekey := c\<rparr>]))"

definition PubKeyActionPutNodes_proc :: "libs \<Rightarrow> (nat \<Rightarrow> bytes) \<Rightarrow> newnode list \<Rightarrow> int \<Rightarrow> int option \<Rightarrow> keyreqs \<Rightarrow> keyreqs option" where
  "PubKeyActionPutNodes_proc L rnd nn tag u s =
     (case u of
        None \<Rightarrow> Some (kr_event (putnodes_result API_ENOENT nn) s)
      | Some i \<Rightarrow>
          Option.bind (encrypt_keys (lib_big L) (u_pubk (kr_user s i)) rnd (length nn) nn) (\<lambda>(ok, nn1).
            if ok then
              map_option (\<lambda>(c, pfa). (kr_call (PutNodes UNDEF (Some (u_uid (kr_user s i))) nn1 tag (kr_pendingfa s)) s)\<lparr>kr_pendingfa := pfa\<rparr>)
                (CommandPutNodes (lib_aes L) (kr_mc s) UNDEF (Some (u_uid (kr_user s i))) nn1 tag (kr_pendingfa s))
            else Some (kr_event (putnodes_result API_EINTERNAL nn1) s)))"

definition PubKeyActionSendShareKey_proc :: "libs \<Rightarrow> (nat \<Rightarrow> bytes) \<Rightarrow> handle \<Rightarrow> int option \<Rightarrow> keyreqs \<Rightarrow> keyreqs option" where
  "PubKeyActionSendShareKey_proc L rnd sh u s =
     (case (u, Option.bind (nodebyhandle (kr_mc s) sh) n_sharekey) of
        (Some i, Some k) \<Rightarrow>
          (case checkaccess L (kr_mc s) sh OWNER of
             None \<Rightarrow> None
           | Some False \<Rightarrow> Some s
           | Some True \<Rightarrow>
               map_option (\<lambda>c. if c = [] then s else kr_call (ShareKeyUpdate sh (u_uid (kr_user s i)) c) s)
                 (asymm_encrypt (lib_big L) (u_pubk (kr_user s i)) (sk_key k) (rnd 0) 1026))
      | _ \<Rightarrow> Some s)"

text \<open>\<open>rnd 0\<close>: the new share key; \<open>rnd 1\<close>: the padding of the command's constructor.\<close>

definition PubKeyActionCreateShare_proc :: "(nat \<Rightarrow> bytes) \<Rightarrow> handle \<Rightarrow> int \<Rightarrow> int \<Rightarrow> int option \<Rightarrow> keyreqs \<Rightarrow> keyreqs" where
  "PubKeyActionCreateShare_proc rnd h a tag u s =
     (case nodebyhandle (kr_mc s) h of
        None \<Rightarrow> kr_event (share_result API_ENOENT) s
      | Some n \<Rightarrow>
          (let newshare = (n_sharekey n = None);
               s1 = (if newshare then kr_upd (upd_node h (\<lambda>n. n\<lparr>n_sharekey := Some (symm_setkey (take 16 (rnd 0)) 1 symm_new)\<rparr>)) s else s)
           in kr_call (SetShare (rnd 1) h (map_option (kr_user s) u) a newshare) (kr_upd (\<lambda>mc. mc\<lparr>mc_restag := tag\<rparr>) s1)))"

primrec pka_proc :: "libs \<Rightarrow> (nat \<Rightarrow> bytes) \<Rightarrow> pubkeyaction \<Rightarrow> int option \<Rightarrow> keyreqs \<Rightarrow> keyreqs option" where
  "pka_proc L rnd (PkaPutNodes nn t) u s = PubKeyActionPutNodes_proc L rnd nn t u s"
| "pka_proc L rnd (PkaSendShareKey h t) u s = PubKeyActionSendShareKey_proc L rnd h u s"
| "pka_proc L rnd (PkaCreateShare h a t) u s = Some (PubKeyActionCreateShare_proc rnd h a t u s)"

definition queuepubkeyreq :: "libs \<Rightarrow> (nat \<Rightarrow> bytes) \<Rightarrow> int option \<Rightarrow> pubkeyaction \<Rightarrow> keyreqs \<Rightarrow> keyreqs option" where
  "queuepubkeyreq L rnd u pka s =
     (case u of
        None \<Rightarrow> pka_proc L rnd pka None (kr_upd (\<lambda>mc. mc\<lparr>mc_restag := pka_tag pka\<rparr>) s)
      | Some i \<Rightarrow>
          if asymm_isvalid (lib_big L) (u_pubk (kr_user s i))
          then pka_proc L rnd pka (Some i) (kr_upd (\<lambda>mc. mc\<lparr>mc_restag := pka_tag pka\<rparr>) s)
          else
            (let s1 = s\<lparr>kr_pkrs := (kr_pkrs s)(i := kr_pkrs s i @ [pka])\<rparr> in
             Some (if \<not> u_pubkrequested (kr_user s i) then kr_call (PubKeyRequest (kr_user s i)) s1 else s1)))"

definition setshare :: "libs \<Rightarrow> (nat \<Rightarrow> bytes) \<Rightarrow> handle \<Rightarrow> bytes option \<Rightarrow> int \<Rightarrow> keyreqs \<Rightarrow> keyreqs option" where
  "setshare L rnd h user a s =
     (let (u, t) = finduser_uid user True (mc_users (kr_mc s)) in
      queuepubkeyreq L rnd u (PkaCreateShare h a (mc_reqtag (kr_mc s))) (kr_upd (\<lambda>mc. mc\<lparr>mc_users := t\<rparr>) s))"

definition exportnode :: "libs \<Rightarrow> (nat \<Rightarrow> bytes) \<Rightarrow> handle \<Rightarrow> bool \<Rightarrow> keyreqs \<Rightarrow> (int \<times> keyreqs) option" where
  "exportnode L rnd h del s =
     (case (checkaccess L (kr_mc s) h OWNER, nodebyhandle (kr_mc s) h) of
        (Some True, Some n) \<Rightarrow>
          (if n_type n = FOLDERNODE then
             map_option (\<lambda>s1. (API_OK, kr_call (SetPH h del) s1)) (setshare L rnd h None (if del then ACCESS_UNKNOWN else RDONLY) s)
           else if n_type n = FILENODE then Some (API_OK, kr_call (SetPH h del) s)
           else Some (API_EACCESS, s))
      | (Some False, _) \<Rightarrow> Some (API_EACCESS, s)
      | _ \<Rightarrow> None)"

text \<open>The distribution of share keys: node and user handles, walked with \<open>ishandle\<close>.\<close>

partial_function (option) sr_users :: "libs \<Rightarrow> (nat \<Rightarrow> bytes) \<Rightarrow> int \<Rightarrow> bool \<Rightarrow> handle \<Rightarrow> keyreqs \<Rightarrow> bytes \<Rightarrow> (keyreqs \<times> bytes) option" where
  "sr_users L rnd junk known sh s p =
     (let (b, p1) = ishandle 8 p in
      if \<not> b then Some (s, p1)
      else
        (let (uh, p2) = gethandle 8 p1 in
         if uh = 0 then Some (s, p2)
         else if \<not> known then sr_users L rnd junk known sh s p2
         else (case fst (finduser_handle uh False (mc_users (kr_mc s))) of
                 None \<Rightarrow> sr_users L rnd junk known sh s p2
               | Some i \<Rightarrow>
                   Option.bind (queuepubkeyreq L rnd (Some i) (PkaSendShareKey sh junk) s)
                     (\<lambda>s1. sr_users L rnd junk known sh s1 p2))))"

partial_function (option) sr_nodes :: "libs \<Rightarrow> (nat \<Rightarrow> bytes) \<Rightarrow> int \<Rightarrow> keyreqs \<Rightarrow> bytes \<Rightarrow> (keyreqs \<times> bytes) option" where
  "sr_nodes L rnd junk s p =
     (let (b, p1) = ishandle 6 p in
      if \<not> b then Some (s, p1)
      else
        (let (sh, p2) = gethandle 6 p1 in
         if sh = 0 then Some (s, p2)
         else Option.bind (sr_users L rnd junk (nodebyhandle (kr_mc s) sh \<noteq> None) sh s p2)
                (\<lambda>(s1, p3). sr_nodes L rnd junk s1 p3)))"

definition procsr :: "libs \<Rightarrow> (nat \<Rightarrow> bytes) \<Rightarrow> int \<Rightarrow> keyreqs \<Rightarrow> bytes \<Rightarrow> (keyreqs \<times> bytes) option" where
  "procsr L rnd junk s p =
     (let (b, p1) = enterarray p in
      if \<not> b then Some (s, p1)
      else map_option (\<lambda>(s1, p2). (s1, snd (leavearray p2))) (sr_nodes L rnd junk s p1))"

section \<open>Crypto requests\<close>

definition addnode :: "handle list \<Rightarrow> handle \<Rightarrow> nat \<times> handle list" where
  "addnode v n = (case find_last n v of Some i \<Rightarrow> (i, v) | None \<Rightarrow> (length v, v @ [n]))"

text \<open>\<open>cr_keybuf\<close>: the buffer \<open>keybuf\<close> of 32 bytes. \<open>cr_links\<close>: what is appended to \<open>crkeys\<close>.\<close>

record crstate =
  cr_mc :: megaclient
  cr_keybuf :: bytes
  cr_setkey :: int
  cr_rshares :: "handle list"
  cr_rnodes :: "handle list"
  cr_links :: "snk_link list"

text \<open>Only the account's own shares are answered.\<close>

definition cr_own :: "megaclient \<Rightarrow> handle option \<Rightarrow> handle option" where
  "cr_own mc h =
     (case Option.bind h (nodebyhandle mc) of
        None \<Rightarrow> None
      | Some n \<Rightarrow> if n_inshare n \<noteq> None \<or> n_sharekey n = None then None else h)"

definition cr_setnode :: "libs \<Rightarrow> symm \<Rightarrow> handle \<Rightarrow> node \<Rightarrow> crstate \<Rightarrow> crstate" where
  "cr_setnode L k h n st =
     (if cr_setkey st = int (length (n_nodekey n)) then
        (let buf = put_front (ecb_decrypt (lib_aes L) k (take (length (n_nodekey n)) (cr_keybuf st))) (cr_keybuf st) in
         st\<lparr>cr_mc := node_setkey L (Some buf) h (cr_mc st), cr_keybuf := buf, cr_setkey := -1\<rparr>)
      else st)"

definition cr_send :: "libs \<Rightarrow> symm \<Rightarrow> handle \<Rightarrow> handle \<Rightarrow> node \<Rightarrow> crstate \<Rightarrow> crstate" where
  "cr_send L k sh h n st =
     (let (nsi, rs) = addnode (cr_rshares st) sh;
          (nni, rn) = addnode (cr_rnodes st) h;
          c = ecb_encrypt (lib_aes L) k (n_nodekey n)
      in st\<lparr>cr_rshares := rs, cr_rnodes := rn, cr_keybuf := put_front c (cr_keybuf st), cr_links := cr_links st @ [(nsi, nni, c)]\<rparr>)"

definition cr_tuple :: "libs \<Rightarrow> handle option \<Rightarrow> handle option \<Rightarrow> crstate \<Rightarrow> crstate option" where
  "cr_tuple L sn n st =
     (case (sn, n) of
        (Some sh, Some h) \<Rightarrow>
          (case (Option.bind (nodebyhandle (cr_mc st) sh) n_sharekey, nodebyhandle (cr_mc st) h) of
             (Some k, Some nd) \<Rightarrow>
               map_option (\<lambda>b. if \<not> b then st else if cr_setkey st \<ge> 0 then cr_setnode L k h nd st else cr_send L k sh h nd st)
                 (isbelow (cr_mc st) (Some h) sh)
           | _ \<Rightarrow> None)
      | _ \<Rightarrow> Some st)"

text \<open>The walk along a selector; the bool is false where the function returns without a response.\<close>

partial_function (option) cr_select :: "libs \<Rightarrow> handle option list \<Rightarrow> handle option list \<Rightarrow> crstate \<Rightarrow> bytes \<Rightarrow> (bool \<times> crstate \<times> bytes) option" where
  "cr_select L shares nodes st p =
     (let (i, p1) = getint p in
      if p1 = p then Some (True, st, p1)
      else
        (let (j, p2) = getint p1; si = nat (i mod 2 ^ 32); ni = nat (j mod 2 ^ 32) in
         if si \<ge> length shares \<or> ni \<ge> length nodes then Some (False, st, p2)
         else
           (let (b, p3) = (if cur (tl p2) = ch_quote then storebinary_buf 32 p2 else ([], p2));
                st1 = (if cur (tl p2) = ch_quote then st\<lparr>cr_keybuf := put_front b (cr_keybuf st), cr_setkey := int (length b)\<rparr> else st)
            in Option.bind (cr_tuple L (shares ! si) (nodes ! ni) st1) (\<lambda>st2. cr_select L shares nodes st2 p3))))"

text \<open>Without a selector: \<open>si\<close> and \<open>ni\<close> are advanced before a tuple is handled.\<close>

partial_function (option) cr_all :: "libs \<Rightarrow> handle option list \<Rightarrow> handle option list \<Rightarrow> crstate \<Rightarrow> nat \<Rightarrow> nat \<Rightarrow> crstate option" where
  "cr_all L shares nodes st si ni =
     (let (si1, ni1) = (if Suc ni \<ge> length nodes then (Suc si, 0) else (si, Suc ni)) in
      if Suc ni \<ge> length nodes \<and> si1 \<ge> length shares then Some st
      else if si1 \<ge> length shares \<or> (shares ! si1 \<noteq> None \<and> ni1 \<ge> length nodes) then None
      else Option.bind (if shares ! si1 = None then Some st else cr_tuple L (shares ! si1) (nodes ! ni1) st)
             (\<lambda>st1. cr_all L shares nodes st1 si1 ni1))"

definition cr_start :: "bytes \<Rightarrow> megaclient \<Rightarrow> crstate" where
  "cr_start junk mc = \<lparr>cr_mc = mc, cr_keybuf = junk, cr_setkey = -1, cr_rshares = [], cr_rnodes = [], cr_links = []\<rparr>"

definition cr_done :: "crstate \<Rightarrow> keyreqs \<Rightarrow> keyreqs" where
  "cr_done st s =
     (let s1 = s\<lparr>kr_mc := cr_mc st\<rparr> in
      if cr_links st = [] then s1 else kr_call (KeyCR (cr_rshares st) (cr_rnodes st) (concat (map link_json (cr_links st)))) s1)"

text \<open>\<open>junk\<close>: what \<open>keybuf\<close> holds at the start.\<close>

definition cr_response :: "libs \<Rightarrow> bytes \<Rightarrow> handle option list \<Rightarrow> handle option list \<Rightarrow> bytes option \<Rightarrow> keyreqs \<Rightarrow> (keyreqs \<times> bytes) option" where
  "cr_response L junk shares nodes selector s =
     (let own = map (cr_own (kr_mc s)) shares; st = cr_start junk (kr_mc s) in
      case selector of
        Some p \<Rightarrow> map_option (\<lambda>(ok, st1, p1). (if ok then cr_done st1 s else s\<lparr>kr_mc := cr_mc st1\<rparr>, p1)) (cr_select L own nodes st p)
      | None \<Rightarrow> map_option (\<lambda>st1. (cr_done st1 s, [])) (cr_all L own nodes st 0 0))"

text \<open>The text of \<open>crkeys\<close> as the source builds it, two characters of which are skipped.\<close>

definition crkeys :: "snk_link list \<Rightarrow> bytes" where
  "crkeys ls = concat (map (\<lambda>(i, j, k). [ch_quote, ch_comma] @ dec_nat i @ [ch_comma] @ dec_nat j @ [ch_comma, ch_quote] @ btoa k) ls)"

section \<open>Requests in a JSON text\<close>

definition snk_deliver :: "libs \<Rightarrow> handle \<Rightarrow> handle \<Rightarrow> keyreqs \<Rightarrow> keyreqs option" where
  "snk_deliver L sh nh s =
     (case Option.bind (nodebyhandle (kr_mc s) sh) n_sharekey of
        None \<Rightarrow> Some s
      | Some k \<Rightarrow>
          (case (checkaccess L (kr_mc s) sh OWNER, nodebyhandle (kr_mc s) nh) of
             (None, _) \<Rightarrow> None
           | (Some True, Some n) \<Rightarrow>
               map_option (\<lambda>b. if b then kr_call (SingleKeyCR sh nh (ecb_encrypt (lib_aes L) k (n_nodekey n))) s else s)
                 (isbelow (kr_mc s) (Some nh) sh)
           | _ \<Rightarrow> Some s))"

partial_function (option) snk_pairs :: "libs \<Rightarrow> keyreqs \<Rightarrow> bytes \<Rightarrow> (keyreqs \<times> bytes) option" where
  "snk_pairs L s p =
     (let (b, p1) = enterarray p in
      if \<not> b then Some (s, snd (leavearray p1))
      else
        (let (sh, p2) = gethandle 6 p1 in
         if ISUNDEF sh then Some (s, p2)
         else
           (let (nh, p3) = gethandle 6 p2 in
            if ISUNDEF nh then Some (s, p3)
            else Option.bind (snk_deliver L sh nh s) (\<lambda>s1. snk_pairs L s1 (snd (leavearray p3))))))"

definition procsnk :: "libs \<Rightarrow> keyreqs \<Rightarrow> bytes \<Rightarrow> (keyreqs \<times> bytes) option" where
  "procsnk L s p = (let (b, p1) = enterarray p in if b then snk_pairs L s p1 else Some (s, p1))"

text \<open>\<open>procsuk\<close> reads its array and does nothing else.\<close>

partial_function (option) suk_pairs :: "bytes \<Rightarrow> bytes option" where
  "suk_pairs p =
     (let (b, p1) = enterarray p in
      if \<not> b then Some (snd (leavearray p1))
      else
        (let (sh, p2) = gethandle 6 p1; p3 = (if ISUNDEF sh then p2 else snd (gethandle 6 p2))
         in suk_pairs (snd (leavearray p3))))"

definition procsuk :: "bytes \<Rightarrow> bytes option" where
  "procsuk p = (let (b, p1) = enterarray p in if b then suk_pairs p1 else Some p1)"

text \<open>\<open>while (!ISUNDEF(h = j->gethandle()))\<close>.\<close>

partial_function (option) handles :: "bytes \<Rightarrow> (handle list \<times> bytes) option" where
  "handles p =
     (let (h, p1) = gethandle 6 p in
      if ISUNDEF h then Some ([], p1) else Option.bind (handles p1) (\<lambda>(hs, p2). Some (h # hs, p2)))"

definition node_ptr :: "megaclient \<Rightarrow> handle \<Rightarrow> handle option" where
  "node_ptr mc h = (if nodebyhandle mc h = None then None else Some h)"

definition cr_cases :: "libs \<Rightarrow> (string \<times> keyreqs reader) list" where
  "cr_cases L =
     [(''snk'', \<lambda>s p. map_option (\<lambda>(s1, p1). (True, s1, p1)) (procsnk L s p)),
      (''suk'', \<lambda>s p. map_option (\<lambda>p1. (True, s, p1)) (procsuk p))]"

definition proccr_array :: "libs \<Rightarrow> bytes \<Rightarrow> keyreqs \<Rightarrow> bytes \<Rightarrow> (keyreqs \<times> bytes) option" where
  "proccr_array L junk s p =
     Option.bind (handles p) (\<lambda>(shs, p1).
       let (b, p2) = enterarray (snd (leavearray p1)) in
       if \<not> b then Some (s, p2)
       else
         Option.bind (handles p2) (\<lambda>(nhs, p3).
           let (b, p4) = enterarray (snd (leavearray p3)) in
           if \<not> b then Some (s, p4)
           else
             map_option (\<lambda>(s1, p5). (s1, snd (leavearray (snd (leavearray p5)))))
               (cr_response L junk (map (node_ptr (kr_mc s)) shs) (map (node_ptr (kr_mc s)) nhs) (Some p4) s)))"

definition proccr :: "libs \<Rightarrow> bytes \<Rightarrow> keyreqs \<Rightarrow> bytes \<Rightarrow> (keyreqs \<times> bytes) option" where
  "proccr L junk s p =
     (let (b, p1) = enterobject p in
      if b then
        Option.bind (scan (switch (cr_cases L)) s p1)
          (\<lambda>(z, s1, p2). if z = AtEOO then map_option (\<lambda>(_, p3). (s1, p3)) (leaveobject p2) else Some (s1, p2))
      else
        (let (b, p2) = enterarray p1 in
         if \<not> b then Some (s, p2)
         else
           (let (b, p3) = enterarray p2 in
            if b then proccr_array L junk s p3 else Some (s, snd (leavearray p3)))))"

section \<open>Replies\<close>

record pubkstate =
  pk_uh :: handle
  pk_buf :: bytes

definition pubk_cases :: "(string \<times> pubkstate reader) list" where
  "pubk_cases = [(''u'', rd_handle 8 (\<lambda>h s. s\<lparr>pk_uh := h\<rparr>)), (''pubk'', rd_binary 1026 (\<lambda>b s. s\<lparr>pk_buf := b\<rparr>))]"

text \<open>The key of the user \<open>i\<close>, and whether it is valid (\<open>len_pubk\<close>).\<close>

definition pubk_store :: "libs \<Rightarrow> int \<Rightarrow> pubkstate \<Rightarrow> megaclient \<Rightarrow> bool \<times> megaclient" where
  "pubk_store L i st mc =
     (let t = mc_users mc;
          t1 = (if \<not> ISUNDEF (pk_uh st) then mapuser (pk_uh st) (cstr (u_email (users_at t i))) t else t)
      in if pk_buf st = [] then (False, mc\<lparr>mc_users := t1\<rparr>)
         else
           (let (key, ok) = asymm_setkey (lib_big L) 2 (pk_buf st) (u_pubk (users_at t1 i))
            in (ok, mc\<lparr>mc_users := put_user i ((users_at t1 i)\<lparr>u_pubk := key\<rparr>) t1\<rparr>)))"

text \<open>All actions that wait for the key; \<open>rnd\<close> is indexed by them.\<close>

fun satisfy :: "libs \<Rightarrow> (nat \<Rightarrow> nat \<Rightarrow> bytes) \<Rightarrow> int \<Rightarrow> int option \<Rightarrow> pubkeyaction list \<Rightarrow> keyreqs \<Rightarrow> keyreqs option" where
  "satisfy L rnd tag u [] s = Some s"
| "satisfy L rnd tag u (a # as) s =
     Option.bind (pka_proc L (rnd (length as)) a u (kr_upd (\<lambda>mc. mc\<lparr>mc_restag := tag\<rparr>) s)) (satisfy L rnd tag u as)"

definition CommandPubKeyRequest_procresult :: "libs \<Rightarrow> (nat \<Rightarrow> nat \<Rightarrow> bytes) \<Rightarrow> int \<Rightarrow> int \<Rightarrow> keyreqs \<Rightarrow> bytes \<Rightarrow> (keyreqs \<times> bytes) option" where
  "CommandPubKeyRequest_procresult L rnd i tag s p =
     Option.bind (scan (switch pubk_cases) \<lparr>pk_uh = UNDEF, pk_buf = []\<rparr> (snd (isnumeric p)))
       (\<lambda>(z, st, p1).
         let (ok, mc) = (if z = AtEOO then pubk_store L i st (kr_mc s) else (False, kr_mc s)) in
         map_option (\<lambda>s1. (if ok then kr_upd (\<lambda>mc. mc\<lparr>mc_usernotify := mc_usernotify mc @ [i]\<rparr>) s1 else s1, p1))
           (satisfy L rnd tag (if ok then Some i else None) (kr_pkrs s i) (s\<lparr>kr_mc := mc, kr_pkrs := (kr_pkrs s)(i := [])\<rparr>)))"

text \<open>\<open>CommandSetShare::procuserresult\<close> reads one object; it is called until it returns false.\<close>

record usermail =
  um_uh :: handle
  um_m :: "bytes option"

definition usermail_cases :: "(string \<times> usermail reader) list" where
  "usermail_cases = [(''u'', rd_handle 8 (\<lambda>h s. s\<lparr>um_uh := h\<rparr>)), (''m'', rd_value (\<lambda>v s. s\<lparr>um_m := Some v\<rparr>))]"

definition usermail_end :: "usermail \<Rightarrow> keyreqs \<Rightarrow> keyreqs" where
  "usermail_end st s =
     (case um_m st of
        Some m \<Rightarrow> if ISUNDEF (um_uh st) then s else kr_upd (\<lambda>mc. mc\<lparr>mc_users := mapuser (um_uh st) m (mc_users mc)\<rparr>) s
      | None \<Rightarrow> s)"

definition procuserresult :: "keyreqs \<Rightarrow> bytes \<Rightarrow> (bool \<times> keyreqs \<times> bytes) option" where
  "procuserresult s p =
     map_option (\<lambda>(z, st, p2). if z = AtEOO then (True, usermail_end st s, p2) else (False, s, p2))
       (scan (switch usermail_cases) \<lparr>um_uh = UNDEF, um_m = None\<rparr> p)"

definition userresults :: "keyreqs \<Rightarrow> bytes \<Rightarrow> (keyreqs \<times> bytes) option" where
  "userresults s p = map_option snd (obj_loop procuserresult s p)"

partial_function (option) numresults :: "nat \<Rightarrow> keyreqs \<Rightarrow> bytes \<Rightarrow> (keyreqs \<times> bytes) option" where
  "numresults i s p =
     (case numeric_error p of
        Some (e, p1) \<Rightarrow> numresults (Suc i) (kr_event (share_result_at i e) s) p1
      | None \<Rightarrow> Some (s, snd (leavearray (snd (isnumeric p)))))"

text \<open>The owner key: \<open>storebinary(key, sizeof key + 1)\<close> lets 18 bytes into a buffer of 17 (\<open>None\<close>).\<close>

definition setshare_ok :: "libs \<Rightarrow> bytes \<Rightarrow> int \<Rightarrow> handle \<Rightarrow> user option \<Rightarrow> int \<Rightarrow> keyreqs reader" where
  "setshare_ok L pad tag sh user a s p =
     (let (b, p1) = storebinary_buf 18 p in
      if length b > 17 then None
      else case Option.bind (nodebyhandle (kr_mc s) sh) n_sharekey of
        Some k \<Rightarrow>
          if length b = 16 then
            (let key = ecb_decrypt (lib_aes L) (mc_key (kr_mc s)) b;
                 mc = upd_node sh (\<lambda>n. n\<lparr>n_sharekey := Some (symm_setkey key 1 k)\<rparr>) (kr_mc s)
             in Some (False, kr_call (SetShare pad sh user a False) (s\<lparr>kr_mc := mc\<lparr>mc_restag := tag\<rparr>\<rparr>), p1))
          else Some (True, s, p1)
      | None \<Rightarrow> Some (True, s, p1))"

definition setshare_cases :: "libs \<Rightarrow> bytes \<Rightarrow> bytes \<Rightarrow> int \<Rightarrow> handle \<Rightarrow> user option \<Rightarrow> int \<Rightarrow> (string \<times> keyreqs reader) list" where
  "setshare_cases L junk pad tag sh user a =
     [(''ok'', setshare_ok L pad tag sh user a),
      (''u'', \<lambda>s p. let (b, p1) = enterarray p in
                   if b then map_option (\<lambda>(s1, p2). (True, s1, p2)) (userresults s p1) else Some (True, s, p1)),
      (''r'', \<lambda>s p. let (b, p1) = enterarray p in
                   if b then map_option (\<lambda>(s1, p2). (True, s1, p2)) (numresults 0 s p1) else Some (True, s, p1)),
      (''snk'', \<lambda>s p. map_option (\<lambda>(s1, p1). (True, s1, p1)) (procsnk L s p)),
      (''suk'', \<lambda>s p. map_option (\<lambda>p1. (True, s, p1)) (procsuk p)),
      (''cr'', \<lambda>s p. map_option (\<lambda>(s1, p1). (True, s1, p1)) (proccr L junk s p))]"

definition CommandSetShare_procresult :: "libs \<Rightarrow> bytes \<Rightarrow> bytes \<Rightarrow> int \<Rightarrow> handle \<Rightarrow> user option \<Rightarrow> int \<Rightarrow> keyreqs \<Rightarrow> bytes \<Rightarrow> (keyreqs \<times> bytes) option" where
  "CommandSetShare_procresult L junk pad tag sh user a s p =
     (case numeric_error p of
        Some (e, p1) \<Rightarrow> Some (kr_event (share_result e) s, p1)
      | None \<Rightarrow>
          map_option (\<lambda>(z, s1, p1). (if z = AtEOO then kr_event (share_result API_OK) s1 else s1, p1))
            (scan (switch (setshare_cases L junk pad tag sh user a)) s (snd (isnumeric p))))"

end
