(* ===== verification/Server_Lists.thy ===== *)
theory Server_Lists
  imports Key_Requests
begin

text \<open>
  More lists of \<open>src/megaclient.cpp\<close>: users (\<open>readusers\<close>), keys and recipients of outbound shares (\<open>readok\<close>, \<open>readoutshares\<close>), and
  \<open>applykeys\<close>, which decrypts what has become readable.
\<close>

abbreviation (input) ME :: int where "ME \<equiv> 2"
abbreviation (input) VISIBILITY_UNKNOWN :: int where "VISIBILITY_UNKNOWN \<equiv> -1"

section \<open>Users\<close>

record userelem =
  ue_uh :: handle
  ue_v :: int
  ue_ts :: int
  ue_m :: "bytes option"

definition user_cases :: "(string \<times> userelem reader) list" where
  "user_cases =
     [(''u'', rd_handle 8 (\<lambda>h e. e\<lparr>ue_uh := h\<rparr>)), (''c'', rd_int (\<lambda>i e. e\<lparr>ue_v := to_int i\<rparr>)),
      (''m'', rd_value (\<lambda>v e. e\<lparr>ue_m := Some v\<rparr>)), (''ts'', rd_int (\<lambda>i e. e\<lparr>ue_ts := i\<rparr>))]"

definition notifyuser :: "int \<Rightarrow> megaclient \<Rightarrow> megaclient" where
  "notifyuser i mc = mc\<lparr>mc_usernotify := mc_usernotify mc @ [i]\<rparr>"

definition enter_user :: "userelem \<Rightarrow> megaclient \<Rightarrow> megaclient" where
  "enter_user e mc =
     (case ue_m e of
        None \<Rightarrow> mc
      | Some m \<Rightarrow>
          if ISUNDEF (ue_uh e) then mc
          else
            (let mc1 = (if ue_v e = ME then mc\<lparr>mc_me := ue_uh e\<rparr> else mc);
                 (u, t) = finduser_handle (ue_uh e) True (mc_users mc1)
             in case u of
                  None \<Rightarrow> mc1\<lparr>mc_users := t\<rparr>
                | Some i \<Rightarrow>
                    (let t1 = mapuser (ue_uh e) m t;
                         t2 = (if ue_v e \<noteq> VISIBILITY_UNKNOWN then put_user i (user_set (ue_v e) (ue_ts e) (users_at t1 i)) t1 else t1)
                     in notifyuser i (mc1\<lparr>mc_users := t2\<rparr>))))"

definition readuser :: "megaclient \<Rightarrow> bytes \<Rightarrow> (bool \<times> megaclient \<times> bytes) option" where
  "readuser mc p =
     map_option (\<lambda>(z, e, p1). if z = AtEOO then (True, enter_user e mc, p1) else (False, mc, p1))
       (scan (switch user_cases) \<lparr>ue_uh = 0, ue_v = VISIBILITY_UNKNOWN, ue_ts = 0, ue_m = None\<rparr> p)"

definition readusers :: "megaclient \<Rightarrow> bytes \<Rightarrow> (bool \<times> megaclient \<times> bytes) option" where
  "readusers mc p =
     (let (b, p1) = enterarray p in
      if \<not> b then Some (False, mc, p1)
      else map_option (\<lambda>(ok, mc1, p2). if ok then (let (r, p3) = leavearray p2 in (r, mc1, p3)) else (False, mc1, p2)) (obj_loop readuser mc p1))"

section \<open>Outbound shares\<close>

text \<open>\<open>ok_ha\<close>: the authentication tag, when all its sixteen bytes were there (\<open>have_ha\<close>).\<close>

record okelem =
  ok_h :: handle
  ok_ha :: "bytes option"
  ok_k :: "bytes option"

definition ha_of :: "bytes \<Rightarrow> bytes option" where
  "ha_of v = (let b = atob v 16 in if length b = 16 then Some b else None)"

definition ok_cases :: "(string \<times> okelem reader) list" where
  "ok_cases =
     [(''h'', rd_handle 6 (\<lambda>h e. e\<lparr>ok_h := h\<rparr>)), (''ha'', rd_value (\<lambda>v e. e\<lparr>ok_ha := ha_of v\<rparr>)),
      (''k'', rd_value (\<lambda>v e. e\<lparr>ok_k := Some v\<rparr>))]"

definition enter_ok :: "libs \<Rightarrow> okelem \<Rightarrow> megaclient \<Rightarrow> megaclient" where
  "enter_ok L e mc =
     (case (ok_k e, ok_ha e) of
        (Some k, Some ha) \<Rightarrow>
          if ISUNDEF (ok_h e) then mc
          else
            (case decryptkey L k 16 (mc_key mc) True (ok_h e) mc of
               (Some buf, mc1) \<Rightarrow> mc1\<lparr>mc_newshares := mc_newshares mc1 @ [NewShare (ok_h e) 1 UNDEF ACCESS_UNKNOWN 0 (Some buf) (Some ha)]\<rparr>
             | (None, mc1) \<Rightarrow> mc1)
      | _ \<Rightarrow> mc)"

definition readokelement :: "libs \<Rightarrow> megaclient \<Rightarrow> bytes \<Rightarrow> (bool \<times> megaclient \<times> bytes) option" where
  "readokelement L mc p =
     map_option (\<lambda>(z, e, p1). (True, if z = AtEOO then enter_ok L e mc else mc, p1))
       (scan (switch ok_cases) \<lparr>ok_h = UNDEF, ok_ha = None, ok_k = None\<rparr> p)"

text \<open>The list that \<open>readok\<close> and \<open>readoutshares\<close> walk; \<open>junk\<close> as in \<open>mergenewshares\<close>.\<close>

definition share_list :: "libs \<Rightarrow> nat \<Rightarrow> bytes \<Rightarrow> (megaclient \<Rightarrow> bytes \<Rightarrow> (bool \<times> megaclient \<times> bytes) option) \<Rightarrow> megaclient \<Rightarrow> bytes
    \<Rightarrow> (megaclient \<times> bytes) option" where
  "share_list L k junk elem mc p =
     (let (b, p1) = enterarray p in
      if \<not> b then Some (mc, p1)
      else
        Option.bind (obj_loop elem mc p1) (\<lambda>(_, mc1, p2).
          map_option (\<lambda>mc2. (mc2, snd (leavearray p2))) (mergenewshares L k False junk mc1)))"

definition readok :: "libs \<Rightarrow> nat \<Rightarrow> bytes \<Rightarrow> megaclient \<Rightarrow> bytes \<Rightarrow> (megaclient \<times> bytes) option" where
  "readok L k junk = share_list L k junk (readokelement L)"

record outshareelem =
  os_h :: handle
  os_uh :: handle
  os_r :: int
  os_ts :: int

text \<open>\<open>j->is(EXPORTEDLINK) ? 0 : j->gethandle(USERHANDLE)\<close>.\<close>

definition rd_exported :: "(handle \<Rightarrow> 's \<Rightarrow> 's) \<Rightarrow> 's reader" where
  "rd_exported f s p =
     (let (b, p1) = json_is (str ''EXP'') p in
      if b then Some (True, f 0 s, p1) else (let (h, p2) = gethandle 8 p1 in Some (True, f h s, p2)))"

definition outshare_cases :: "(string \<times> outshareelem reader) list" where
  "outshare_cases =
     [(''h'', rd_handle 6 (\<lambda>h e. e\<lparr>os_h := h\<rparr>)), (''u'', rd_exported (\<lambda>h e. e\<lparr>os_uh := h\<rparr>)),
      (''r'', rd_int (\<lambda>i e. e\<lparr>os_r := to_int i\<rparr>)), (''ts'', rd_int (\<lambda>i e. e\<lparr>os_ts := i\<rparr>))]"

definition enter_outshare :: "outshareelem \<Rightarrow> megaclient \<Rightarrow> megaclient" where
  "enter_outshare e mc =
     (if ISUNDEF (os_h e) \<or> ISUNDEF (os_uh e) \<or> os_r e = ACCESS_UNKNOWN then mc
      else mc\<lparr>mc_newshares := mc_newshares mc @ [NewShare (os_h e) 1 (os_uh e) (os_r e) (os_ts e) None None]\<rparr>)"

definition readoutshareelement :: "megaclient \<Rightarrow> bytes \<Rightarrow> (bool \<times> megaclient \<times> bytes) option" where
  "readoutshareelement mc p =
     map_option (\<lambda>(z, e, p1). (True, if z = AtEOO then enter_outshare e mc else mc, p1))
       (scan (switch outshare_cases) \<lparr>os_h = UNDEF, os_uh = UNDEF, os_r = ACCESS_UNKNOWN, os_ts = 0\<rparr> p)"

definition readoutshares :: "libs \<Rightarrow> nat \<Rightarrow> bytes \<Rightarrow> megaclient \<Rightarrow> bytes \<Rightarrow> (megaclient \<times> bytes) option" where
  "readoutshares L k junk = share_list L k junk readoutshareelement"

section \<open>Keys\<close>

definition applykeys :: "libs \<Rightarrow> megaclient \<Rightarrow> int \<times> api_call list \<times> megaclient" where
  "applykeys L mc =
     (let (t, mc1) = fold (\<lambda>h (t, mc). let (b, mc1) = applykey L h mc in (if b then t + 1 else t, mc1)) (map fst (mc_nodes mc)) (0, mc);
          sh = (if mc_sharekeyrewrite mc1 = [] then [] else [ShareKeyUpdates (mc_sharekeyrewrite mc1)]);
          nk = (if mc_nodekeyrewrite mc1 = [] then [] else [NodeKeyUpdate (mc_nodekeyrewrite mc1)])
      in (t, sh @ nk, mc1\<lparr>mc_sharekeyrewrite := [], mc_nodekeyrewrite := []\<rparr>))"

text \<open>\<open>MegaClient::setkey\<close>: an encrypted share key.\<close>

definition mc_setkey :: "libs \<Rightarrow> bytes \<Rightarrow> symm \<Rightarrow> megaclient \<Rightarrow> symm" where
  "mc_setkey L k c mc = (let b = atob k 16 in if length b = 16 then symm_setkey (ecb_decrypt (lib_aes L) (mc_key mc) b) 1 c else c)"

end
