(* ===== verification/Action_Packets.thy ===== *)
theory Action_Packets
  imports Server_Lists
begin

text \<open>
  What the server tells a running client: \<open>procsc\<close> of \<open>src/megaclient.cpp\<close> and the action packets it hands out (\<open>sc_updatenode\<close>,
  \<open>sc_newnodes\<close>, \<open>sc_deltree\<close>, \<open>sc_shares\<close>, \<open>sc_contacts\<close>, \<open>sc_keys\<close>, \<open>sc_fileattr\<close>, \<open>sc_userattr\<close>). The environment gives the libraries,
  the fuel of tree walks, the clock, the random blocks and the contents of uninitialised buffers.
\<close>

record scenv =
  env_L :: libs
  env_k :: nat
  env_now :: int
  env_rnd :: "nat \<Rightarrow> bytes"
  env_fpjunk :: bytes
  env_skjunk :: bytes
  env_crjunk :: bytes
  env_authjunk :: bytes
  env_tagjunk :: int

datatype sc_event = nodes_current | reload | userattr_update int bool bytes

record scstate =
  sc_kr :: keyreqs
  sc_uhnh :: "(handle \<times> handle) list"
  sc_scsn :: bytes
  sc_notifyurl :: bytes
  sc_statecurrent :: bool
  sc_events :: "sc_event list"

abbreviation (input) sc_mc :: "scstate \<Rightarrow> megaclient" where
  "sc_mc s \<equiv> kr_mc (sc_kr s)"

definition sc_put :: "megaclient \<Rightarrow> scstate \<Rightarrow> scstate" where
  "sc_put mc s = s\<lparr>sc_kr := (sc_kr s)\<lparr>kr_mc := mc\<rparr>\<rparr>"

definition sc_upd :: "(megaclient \<Rightarrow> megaclient) \<Rightarrow> scstate \<Rightarrow> scstate" where
  "sc_upd f s = sc_put (f (sc_mc s)) s"

definition sc_event :: "sc_event \<Rightarrow> scstate \<Rightarrow> scstate" where
  "sc_event e s = s\<lparr>sc_events := sc_events s @ [e]\<rparr>"

text \<open>A function that reads from the text, as a case of a \<open>switch\<close>.\<close>

definition sc_key_case :: "(keyreqs \<Rightarrow> bytes \<Rightarrow> (keyreqs \<times> bytes) option) \<Rightarrow> scstate \<Rightarrow> bytes \<Rightarrow> (scstate \<times> bytes) option" where
  "sc_key_case f s p = map_option (\<lambda>(kr, p1). (s\<lparr>sc_kr := kr\<rparr>, p1)) (f (sc_kr s) p)"

definition going :: "(scstate \<Rightarrow> bytes \<Rightarrow> (scstate \<times> bytes) option) \<Rightarrow> scstate reader" where
  "going f s p = map_option (\<lambda>(s1, p1). (True, s1, p1)) (f s p)"

section \<open>Nodes\<close>

definition sc_mergenewshares :: "scenv \<Rightarrow> scstate \<Rightarrow> scstate option" where
  "sc_mergenewshares E s = map_option (\<lambda>mc. sc_put mc s) (mergenewshares (env_L E) (env_k E) True (env_authjunk E) (sc_mc s))"

record updelem =
  up_h :: handle
  up_u :: handle
  up_a :: "bytes option"
  up_ts :: int
  up_tm :: int

text \<open>\<open>tm = ts + getint()\<close>: the time stamp must have come before.\<close>

definition upd_cases :: "(string \<times> updelem reader) list" where
  "upd_cases =
     [(''n'', rd_handle 6 (\<lambda>h e. e\<lparr>up_h := h\<rparr>)), (''u'', rd_handle 8 (\<lambda>h e. e\<lparr>up_u := h\<rparr>)), (''at'', rd_value (\<lambda>v e. e\<lparr>up_a := Some v\<rparr>)),
      (''ts'', rd_int (\<lambda>i e. e\<lparr>up_ts := i\<rparr>)), (''tmd'', rd_int (\<lambda>i e. e\<lparr>up_tm := up_ts e + i\<rparr>))]"

definition upd_fields :: "updelem \<Rightarrow> node \<Rightarrow> node" where
  "upd_fields e n =
     (let n1 = (if up_u e \<noteq> 0 then n\<lparr>n_owner := up_u e, n_changed := (n_changed n)\<lparr>ch_owner := True\<rparr>\<rparr> else n);
          n2 = (case up_a e of Some a \<Rightarrow> n1\<lparr>n_attrstring := copystring a, n_changed := (n_changed n1)\<lparr>ch_attrs := True\<rparr>\<rparr> | None \<Rightarrow> n1);
          n3 = (if up_tm e \<noteq> -1 then n2\<lparr>n_clienttimestamp := up_tm e, n_changed := (n_changed n2)\<lparr>ch_clienttimestamp := True\<rparr>\<rparr> else n2)
      in if up_ts e \<noteq> -1 then n3\<lparr>n_ctime := up_ts e, n_changed := (n_changed n3)\<lparr>ch_ctime := True\<rparr>\<rparr> else n3)"

definition upd_end :: "libs \<Rightarrow> updelem \<Rightarrow> megaclient \<Rightarrow> megaclient" where
  "upd_end L e mc =
     (if ISUNDEF (up_h e) \<or> nodebyhandle mc (up_h e) = None then mc
      else
        (let mc1 = snd (applykey L (up_h e) (upd_node (up_h e) (upd_fields e) mc))
         in notifynode (up_h e) (node_setattr L (up_h e) mc1)))"

definition sc_updatenode :: "scenv \<Rightarrow> scstate \<Rightarrow> bytes \<Rightarrow> (scstate \<times> bytes) option" where
  "sc_updatenode E s p =
     map_option (\<lambda>(z, e, p1). (if z = AtEOO then sc_upd (upd_end (env_L E) e) s else s, p1))
       (scan (switch upd_cases) \<lparr>up_h = UNDEF, up_u = 0, up_a = None, up_ts = -1, up_tm = -1\<rparr> p)"

definition sc_readnodes :: "scenv \<Rightarrow> scstate \<Rightarrow> bytes \<Rightarrow> (scstate \<times> bytes) option" where
  "sc_readnodes E s p =
     map_option (\<lambda>(_, r, p1).
         (let s1 = s\<lparr>sc_kr := (sc_kr s)\<lparr>kr_mc := rn_mc r, kr_pendingfa := rn_pendingfa r, kr_calls := rn_calls r\<rparr>, sc_uhnh := rn_uhnh r\<rparr>
          in (if rn_reload r then sc_event reload s1 else s1, p1)))
       (readnodes (env_L E) (env_k E) (env_now E) (env_fpjunk E) (env_skjunk E) True None 0
          \<lparr>rn_mc = sc_mc s, rn_dp = [], rn_i = 0, rn_pendingfa = kr_pendingfa (sc_kr s), rn_uhnh = sc_uhnh s, rn_calls = kr_calls (sc_kr s),
           rn_reload = False\<rparr> p)"

definition sc_readusers :: "scstate \<Rightarrow> bytes \<Rightarrow> (scstate \<times> bytes) option" where
  "sc_readusers s p = map_option (\<lambda>(_, mc, p1). (sc_put mc s, p1)) (readusers (sc_mc s) p)"

definition readtree :: "scenv \<Rightarrow> scstate \<Rightarrow> bytes \<Rightarrow> (scstate \<times> bytes) option" where
  "readtree E s p =
     (let (b, p1) = enterobject p in
      if \<not> b then Some (s, p1)
      else
        Option.bind (scan (switch [(''f'', going (sc_readnodes E)), (''u'', going sc_readusers)]) s p1)
          (\<lambda>(z, s1, p2). if z = AtEOO then map_option (\<lambda>(_, p3). (s1, p3)) (leaveobject p2) else Some (s1, p2)))"

definition sc_newnodes :: "scenv \<Rightarrow> scstate \<Rightarrow> bytes \<Rightarrow> (scstate \<times> bytes) option" where
  "sc_newnodes E s p = map_option snd (scan (switch [(''t'', going (readtree E)), (''u'', going sc_readusers)]) s p)"

text \<open>The node that a packet names: an unknown handle makes it NULL again, a missing one leaves it.\<close>

definition rd_node :: "megaclient \<Rightarrow> (handle option \<Rightarrow> 's \<Rightarrow> 's) \<Rightarrow> 's reader" where
  "rd_node mc f s p = (let (h, p1) = gethandle 6 p in Some (True, if ISUNDEF h then s else f (node_ptr mc h) s, p1))"

definition sc_deltree :: "scenv \<Rightarrow> scstate \<Rightarrow> bytes \<Rightarrow> (scstate \<times> bytes) option" where
  "sc_deltree E s p =
     Option.bind (scan (switch [(''n'', rd_node (sc_mc s) (\<lambda>n _. n))]) None p)
       (\<lambda>(z, n, p1).
         case (z, n) of
           (AtEOO, Some h) \<Rightarrow> map_option (\<lambda>mc. (sc_put mc s, p1)) (proctree (env_k E) id treedel h (sc_mc s))
         | _ \<Rightarrow> Some (s, p1))"

definition sc_fileattr :: "scstate \<Rightarrow> bytes \<Rightarrow> (scstate \<times> bytes) option" where
  "sc_fileattr s p =
     map_option (\<lambda>(z, (n, fa), p1).
         case (z, n, fa) of
           (AtEOO, Some h, Some v) \<Rightarrow>
             (sc_upd (\<lambda>mc. notifynode h (upd_node h (\<lambda>n. n\<lparr>n_fileattrstring := copystring v, n_changed := (n_changed n)\<lparr>ch_fileattrstring := True\<rparr>\<rparr>) mc)) s, p1)
         | _ \<Rightarrow> (s, p1))
       (scan (switch [(''fa'', rd_value (\<lambda>v e. (fst e, Some v))), (''n'', rd_node (sc_mc s) (\<lambda>n e. (n, snd e)))]) (None, None) p)"

section \<open>Shares\<close>

record shareelem =
  se_h :: handle
  se_oh :: handle
  se_uh :: handle
  se_k :: "bytes option"
  se_ok :: "bytes option"
  se_ha :: "bytes option"
  se_r :: int
  se_ts :: int

definition share_cases :: "(string \<times> shareelem reader) list" where
  "share_cases =
     [(''n'', rd_handle 6 (\<lambda>h e. e\<lparr>se_h := h\<rparr>)), (''o'', rd_handle 8 (\<lambda>h e. e\<lparr>se_oh := h\<rparr>)), (''u'', rd_exported (\<lambda>h e. e\<lparr>se_uh := h\<rparr>)),
      (''ok'', rd_value (\<lambda>v e. e\<lparr>se_ok := Some v\<rparr>)), (''ha'', rd_value (\<lambda>v e. e\<lparr>se_ha := ha_of v\<rparr>)), (''r'', rd_int (\<lambda>i e. e\<lparr>se_r := to_int i\<rparr>)),
      (''ts'', rd_int (\<lambda>i e. e\<lparr>se_ts := i\<rparr>)), (''k'', rd_value (\<lambda>v e. e\<lparr>se_k := Some v\<rparr>))]"

text \<open>\<open>true\<close>: to be merged at once.\<close>

definition share_end :: "libs \<Rightarrow> shareelem \<Rightarrow> megaclient \<Rightarrow> bool \<times> megaclient" where
  "share_end L e mc =
     (let out = (se_oh e = mc_me mc);
          k = (if se_ok e \<noteq> None \<and> out then se_ok e else se_k e);
          peer = (if out then se_uh e else se_oh e);
          both = (\<not> ISUNDEF (se_oh e) \<and> \<not> ISUNDEF (se_uh e));
          push = (\<lambda>ns mc. mc\<lparr>mc_newshares := mc_newshares mc @ [ns]\<rparr>)
      in if loggedin L mc \<noteq> FULLACCOUNT \<or> ISUNDEF (se_h e) \<or> (\<not> ISUNDEF (se_oh e) \<and> \<not> out \<and> se_uh e \<noteq> mc_me mc) then (False, mc)
         else (case k of
             Some v \<Rightarrow>
               (case decryptkey L v 16 (mc_key mc) True (se_h e) mc of
                  (None, mc1) \<Rightarrow> (False, mc1)
                | (Some key, mc1) \<Rightarrow>
                    if ISUNDEF (se_oh e) \<and> ISUNDEF (se_uh e) then (True, push (NewShare (se_h e) 0 UNDEF ACCESS_UNKNOWN 0 (Some key) None) mc1)
                    else if both then (False, push (NewShare (se_h e) (if out then 1 else 0) peer (se_r e) (se_ts e) (Some key) (se_ha e)) mc1)
                    else (False, mc1))
           | None \<Rightarrow>
               if both then (True, push (NewShare (se_h e) (if out then 1 else 0) peer ACCESS_UNKNOWN 0 None None) mc) else (False, mc)))"

definition sc_shares :: "scenv \<Rightarrow> scstate \<Rightarrow> bytes \<Rightarrow> (bool \<times> scstate \<times> bytes) option" where
  "sc_shares E s p =
     map_option (\<lambda>(z, e, p1). if z = AtEOO then (let (r, mc) = share_end (env_L E) e (sc_mc s) in (r, sc_put mc s, p1)) else (False, s, p1))
       (scan (switch share_cases)
         \<lparr>se_h = UNDEF, se_oh = UNDEF, se_uh = UNDEF, se_k = None, se_ok = None, se_ha = None, se_r = ACCESS_UNKNOWN, se_ts = 0\<rparr> p)"

section \<open>Users and keys\<close>

definition sc_contacts :: "scstate \<Rightarrow> bytes \<Rightarrow> (scstate \<times> bytes) option" where
  "sc_contacts s p = map_option snd (scan (switch [(''u'', going sc_readusers)]) s p)"

text \<open>\<open>while (storeobject(&ua))\<close>.\<close>

partial_function (option) ua_loop :: "int \<Rightarrow> scstate \<Rightarrow> bytes \<Rightarrow> (scstate \<times> bytes) option" where
  "ua_loop i s p =
     (case storeobject p of
        (None, p1) \<Rightarrow> Some (s, p1)
      | (Some v, p1) \<Rightarrow>
          ua_loop i (if cur v = 43 then sc_event (userattr_update i False (cstr (tl v))) s
                     else if cur v = 42 then sc_event (userattr_update i True (cstr (tl v))) s else s) p1)"

text \<open>The array of a known user ends the function.\<close>

definition sc_ua :: "handle \<times> scstate \<Rightarrow> bytes \<Rightarrow> (bool \<times> (handle \<times> scstate) \<times> bytes) option" where
  "sc_ua es p =
     (let (uh, s) = es; skip = (\<lambda>q. Some (True, es, snd (storeobject q))) in
      if ISUNDEF uh then skip p
      else case fst (finduser_handle uh False (mc_users (sc_mc s))) of
        None \<Rightarrow> skip p
      | Some i \<Rightarrow>
          (let (b, p1) = enterarray p in
           if b then map_option (\<lambda>(s1, p2). (False, (uh, s1), snd (leavearray p2))) (ua_loop i s p1) else skip p1))"

definition sc_userattr :: "scstate \<Rightarrow> bytes \<Rightarrow> (scstate \<times> bytes) option" where
  "sc_userattr s p =
     map_option (\<lambda>(z, (uh, s1), p1). (s1, p1)) (scan (switch [(''u'', rd_handle 8 (\<lambda>h e. (h, snd e))), (''ua'', sc_ua)]) (UNDEF, s) p)"

record scks =
  ks_state :: scstate
  ks_shares :: "handle list"
  ks_nodes :: "handle list"

definition ks_case :: "(keyreqs \<Rightarrow> bytes \<Rightarrow> (keyreqs \<times> bytes) option) \<Rightarrow> scks reader" where
  "ks_case f e p = map_option (\<lambda>(s, p1). (True, e\<lparr>ks_state := s\<rparr>, p1)) (sc_key_case f (ks_state e) p)"

definition ks_share :: "scks reader" where
  "ks_share e p =
     (let (h, p1) = gethandle 6 p; mc = sc_mc (ks_state e) in
      Some (True, case nodebyhandle mc h of
                    Some n \<Rightarrow> if \<not> ISUNDEF h \<and> n_sharekey n \<noteq> None \<and> n_inshare n = None then e\<lparr>ks_shares := ks_shares e @ [h]\<rparr> else e
                  | None \<Rightarrow> e, p1))"

text \<open>The loop over the nodes stops at the first that is not known.\<close>

partial_function (option) known_handles :: "megaclient \<Rightarrow> bytes \<Rightarrow> (handle list \<times> bytes) option" where
  "known_handles mc p =
     (let (h, p1) = gethandle 6 p in
      if ISUNDEF h \<or> nodebyhandle mc h = None then Some ([], p1)
      else Option.bind (known_handles mc p1) (\<lambda>(hs, p2). Some (h # hs, p2)))"

definition ks_node :: "scks reader" where
  "ks_node e p =
     (let (b, p1) = enterarray p in
      if \<not> b then Some (True, e, p1)
      else map_option (\<lambda>(hs, p2). (True, e\<lparr>ks_nodes := ks_nodes e @ hs\<rparr>, snd (leavearray p2))) (known_handles (sc_mc (ks_state e)) p1))"

definition sc_keys :: "scenv \<Rightarrow> scstate \<Rightarrow> bytes \<Rightarrow> (scstate \<times> bytes) option" where
  "sc_keys E s p =
     Option.bind
       (scan (switch [(''sr'', ks_case (procsr (env_L E) (env_rnd E) (env_tagjunk E))), (''h'', ks_share), (''n'', ks_node),
                      (''cr'', ks_case (proccr (env_L E) (env_crjunk E)))])
         \<lparr>ks_state = s, ks_shares = [], ks_nodes = []\<rparr> p)
       (\<lambda>(z, e, p1).
         if z = AtEOO then
           map_option (\<lambda>(kr, _). ((ks_state e)\<lparr>sc_kr := kr\<rparr>, p1))
             (cr_response (env_L E) (env_crjunk E) (map Some (ks_shares e)) (map Some (ks_nodes e)) None (sc_kr (ks_state e)))
         else Some (ks_state e, p1))"

section \<open>Packets\<close>

text \<open>\<open>"i":"<sessionid>"\<close> behind the action marks a packet that this client caused.\<close>

definition self_made :: "megaclient \<Rightarrow> bytes \<Rightarrow> bool" where
  "self_made mc p \<longleftrightarrow>
     take 5 p = [ch_quote] @ str ''i'' @ [ch_quote, ch_colon, ch_quote] \<and>
     take (length (mc_sessionid mc)) (drop 5 p) = mc_sessionid mc \<and> cur (drop (5 + length (mc_sessionid mc)) p) = ch_quote"

definition sc_action :: "scenv \<Rightarrow> nameid \<Rightarrow> scstate \<Rightarrow> bytes \<Rightarrow> (scstate \<times> bytes) option" where
  "sc_action E name s p =
     (if name = MAKENAMEID ''u'' then sc_updatenode E s p
      else if name = MAKENAMEID ''t'' then Option.bind (sc_newnodes E s p) (\<lambda>(s1, p1). map_option (\<lambda>s2. (s2, p1)) (sc_mergenewshares E s1))
      else if name = MAKENAMEID ''d'' then sc_deltree E s p
      else if name = MAKENAMEID ''s'' then
        Option.bind (sc_shares E s p) (\<lambda>(r, s1, p1). if r then map_option (\<lambda>s2. (s2, p1)) (sc_mergenewshares E s1) else Some (s1, p1))
      else if name = MAKENAMEID ''c'' then sc_contacts s p
      else if name = MAKENAMEID ''k'' then sc_keys E s p
      else if name = MAKENAMEID ''fa'' then sc_fileattr s p
      else if name = MAKENAMEID ''ua'' then sc_userattr s p
      else Some (s, p))"

definition sc_packet :: "scenv \<Rightarrow> scstate \<Rightarrow> bytes \<Rightarrow> (bool \<times> scstate \<times> bytes) option" where
  "sc_packet E s p =
     (let (i, p1) = getnameid p in
      Option.bind
        (if i = MAKENAMEID ''a'' then
           (let (name, p2) = getnameid p1 in if self_made (sc_mc s) p2 then Some (s, p2) else sc_action E name s p2)
         else Some (s, p1))
        (\<lambda>(s1, p2). map_option (\<lambda>(_, p3). (True, s1, p3)) (leaveobject p2)))"

definition sc_packets :: "scenv \<Rightarrow> scstate \<Rightarrow> bytes \<Rightarrow> (scstate \<times> bytes) option" where
  "sc_packets E s p =
     (let (b, p1) = enterarray p in
      if \<not> b then Some (s, p1) else map_option (\<lambda>(_, s1, p2). (s1, snd (leavearray p2))) (obj_loop (sc_packet E) s p1))"

definition setscsn :: "bytes \<Rightarrow> bytes \<Rightarrow> bytes \<times> bytes" where
  "setscsn scsn p = (let (b, p1) = storebinary_buf 8 p in (if length b = 8 then btoa b else scsn, p1))"

definition sc_cases :: "scenv \<Rightarrow> (string \<times> scstate reader) list" where
  "sc_cases E =
     [(''w'', \<lambda>s p.
         (let s1 = (if sc_statecurrent s then s else (sc_event nodes_current s)\<lparr>sc_statecurrent := True\<rparr>) in
          case storeobject p of (Some v, p1) \<Rightarrow> Some (True, s1\<lparr>sc_notifyurl := v\<rparr>, p1) | (None, p1) \<Rightarrow> Some (False, s1, p1))),
      (''a'', going (sc_packets E)),
      (''sn'', \<lambda>s p. let (v, p1) = setscsn (sc_scsn s) p in Some (True, s\<lparr>sc_scsn := v\<rparr>, p1))]"

definition sc_finish :: "scenv \<Rightarrow> scstate \<Rightarrow> scstate option" where
  "sc_finish E s =
     map_option (\<lambda>s1.
         (let (_, calls, mc) = applykeys (env_L E) (sc_mc s1)
          in s1\<lparr>sc_kr := (sc_kr s1)\<lparr>kr_mc := mc, kr_calls := kr_calls (sc_kr s1) @ calls\<rparr>\<rparr>))
       (sc_mergenewshares E s)"

definition procsc :: "scenv \<Rightarrow> scstate \<Rightarrow> bytes \<Rightarrow> (scstate \<times> bytes) option" where
  "procsc E s p =
     Option.bind (scan (switch (sc_cases E)) s (snd (enterobject p)))
       (\<lambda>(z, s1, p1). if z = AtEOO then map_option (\<lambda>s2. (s2, p1)) (sc_finish E s1) else Some (s1, p1))"

end
