(* ===== verification/Key_Replies.thy ===== *)
theory Key_Replies
  imports Key_Requests
begin

text \<open>
  What the requests for keys guarantee: node keys are handed out for own shares only, which pairs of share and node a response
  covers, and what becomes of the actions that wait for a public key.
\<close>

section \<open>Only own shares are answered\<close>

text \<open>What a change of keys leaves of a node.\<close>

definition shares_view :: "node \<Rightarrow> int \<times> handle option \<times> handle list \<times> share option \<times> symm option" where
  "shares_view n = (n_type n, n_parent n, n_children n, n_inshare n, n_sharekey n)"

definition same_shares :: "megaclient \<Rightarrow> megaclient \<Rightarrow> bool" where
  "same_shares mc mc' \<longleftrightarrow>
     (\<forall>x. map_option shares_view (nodebyhandle mc' x) = map_option shares_view (nodebyhandle mc x)) \<and>
     (om_invar (mc_nodes mc) \<longrightarrow> om_invar (mc_nodes mc'))"

lemma same_shares_refl [simp]: "same_shares mc mc"
  by (simp add: same_shares_def)

lemma same_shares_trans: "same_shares a b \<Longrightarrow> same_shares b c \<Longrightarrow> same_shares a c"
  by (simp add: same_shares_def)

lemma same_shares_upd: "(\<And>n. shares_view (f n) = shares_view n) \<Longrightarrow> same_shares mc (upd_node h f mc)"
  by (simp add: same_shares_def upd_node_lookup upd_node_invar option.map_comp comp_def)

lemma same_shares_fields: "mc_nodes mc' = mc_nodes mc \<Longrightarrow> same_shares mc mc'"
  by (simp add: same_shares_def nodebyhandle_def)

lemma same_shares_tree: "same_shares mc mc' \<Longrightarrow> same_tree mc mc'"
proof -
  assume a: "same_shares mc mc'"
  have "map_option (\<lambda>n. (n_type n, n_parent n, n_children n)) (nodebyhandle mc x) =
      map_option (\<lambda>n. (n_type n, n_parent n, n_children n)) (nodebyhandle mc' x)" for x
  proof -
    have "map_option shares_view (nodebyhandle mc' x) = map_option shares_view (nodebyhandle mc x)"
      using a by (simp add: same_shares_def)
    then show ?thesis by (cases "nodebyhandle mc x"; cases "nodebyhandle mc' x") (auto simp: shares_view_def)
  qed
  then show "same_tree mc mc'" by (simp add: same_tree_def)
qed

text \<open>Keys, attributes and fingerprints: the rest of a node.\<close>

definition key_frame :: "node \<Rightarrow> node" where
  "key_frame n = n\<lparr>n_nodekey := [], n_key := symm_new, n_attrs := [], n_attrstring := [], n_keystring := [], n_fp := fp_new [], n_infps := False\<rparr>"

definition same_frame :: "megaclient \<Rightarrow> megaclient \<Rightarrow> bool" where
  "same_frame mc mc' \<longleftrightarrow>
     (\<forall>x. map_option key_frame (nodebyhandle mc' x) = map_option key_frame (nodebyhandle mc x)) \<and>
     (om_invar (mc_nodes mc) \<longrightarrow> om_invar (mc_nodes mc'))"

lemma same_frame_trans: "same_frame a b \<Longrightarrow> same_frame b c \<Longrightarrow> same_frame a c"
  by (simp add: same_frame_def)

lemma same_frame_upd: "(\<And>n. key_frame (f n) = key_frame n) \<Longrightarrow> same_frame mc (upd_node h f mc)"
  by (simp add: same_frame_def upd_node_lookup upd_node_invar option.map_comp comp_def)

lemma same_frame_fields: "mc_nodes mc' = mc_nodes mc \<Longrightarrow> same_frame mc mc'"
  by (simp add: same_frame_def nodebyhandle_def)

lemma same_frameD:
  assumes "same_frame mc mc'" "nodebyhandle mc h = Some n"
  shows "\<exists>n'. nodebyhandle mc' h = Some n' \<and> key_frame n' = key_frame n"
proof -
  have "map_option key_frame (nodebyhandle mc' h) = map_option key_frame (nodebyhandle mc h)" using assms(1) by (simp add: same_frame_def)
  then show ?thesis using assms(2) by auto
qed

lemma key_frame_fields:
  assumes "key_frame n' = key_frame n"
  shows "n_removed n' = n_removed n" "n_notified n' = n_notified n" "n_sharekey n' = n_sharekey n" "shares_view n' = shares_view n"
  using assms by (cases n; cases n'; simp add: key_frame_def shares_view_def)+

lemma same_frame_shares: "same_frame mc mc' \<Longrightarrow> same_shares mc mc'"
proof -
  assume a: "same_frame mc mc'"
  have "map_option shares_view (nodebyhandle mc' x) = map_option shares_view (nodebyhandle mc x)" for x
  proof -
    have "map_option key_frame (nodebyhandle mc' x) = map_option key_frame (nodebyhandle mc x)" using a by (simp add: same_frame_def)
    then show ?thesis by (cases "nodebyhandle mc x"; cases "nodebyhandle mc' x") (auto dest: key_frame_fields)
  qed
  then show "same_shares mc mc'" using a by (simp add: same_shares_def same_frame_def)
qed

lemma setfingerprint_frame: "same_frame mc (setfingerprint h mc)"
proof -
  have "same_frame mc ((upd_node h (\<lambda>n. n\<lparr>n_fp := fp, n_infps := True\<rparr>) mc)\<lparr>mc_fingerprints := fps\<rparr>)" for fp fps
    by (rule same_frame_trans [OF same_frame_upd same_frame_fields]) (simp_all add: key_frame_def)
  then show ?thesis using same_frame_fields [of mc mc] by (simp add: setfingerprint_def Let_def split: option.split)
qed

lemma node_setattr_frame: "same_frame mc (node_setattr L h mc)"
  unfolding node_setattr_def Let_def
  by (auto split: option.split intro!: same_frame_trans [OF same_frame_trans [OF same_frame_upd setfingerprint_frame] same_frame_upd]
      simp: key_frame_def same_frame_fields)

lemma node_setkey_frame: "same_frame mc (node_setkey L k h mc)"
  unfolding node_setkey_def Let_def
  by (rule same_frame_trans [OF same_frame_upd node_setattr_frame]) (simp add: key_frame_def)

lemmas node_setkey_shares = same_frame_shares [OF node_setkey_frame]
lemmas node_setattr_shares = same_frame_shares [OF node_setattr_frame]

text \<open>An outbound share of the account and its key.\<close>

definition own_share :: "megaclient \<Rightarrow> handle \<Rightarrow> symm \<Rightarrow> bool" where
  "own_share mc sh k \<longleftrightarrow> (\<exists>n. nodebyhandle mc sh = Some n \<and> n_inshare n = None \<and> n_sharekey n = Some k)"

text \<open>A key that may be handed out: that of a node below an own share, encrypted with the key of this share. Where no key
  was delivered along with the request (\<open>still\<close>), it is the key that the node has.\<close>

definition link_ok :: "libs \<Rightarrow> bool \<Rightarrow> megaclient \<Rightarrow> handle list \<Rightarrow> handle list \<Rightarrow> snk_link \<Rightarrow> bool" where
  "link_ok L still mc rs rn l \<longleftrightarrow>
     (case l of (i, j, c) \<Rightarrow> i < length rs \<and> j < length rn \<and>
        (\<exists>k key. own_share mc (rs ! i) k \<and> under mc (rs ! i) (rn ! j) \<and> c = ecb_encrypt (lib_aes L) k key \<and>
           (still \<longrightarrow> (\<exists>n. nodebyhandle mc (rn ! j) = Some n \<and> key = n_nodekey n))))"

definition cr_inv :: "libs \<Rightarrow> bool \<Rightarrow> megaclient \<Rightarrow> crstate \<Rightarrow> bool" where
  "cr_inv L still mc st \<longleftrightarrow>
     same_shares mc (cr_mc st) \<and> (still \<longrightarrow> cr_mc st = mc \<and> cr_setkey st < 0) \<and> list_all (link_ok L still mc (cr_rshares st) (cr_rnodes st)) (cr_links st)"

lemma addnode_spec:
  assumes "addnode v n = (i, v')"
  shows "i < length v'" "v' ! i = n" "length v \<le> length v'" "j < length v \<Longrightarrow> v' ! j = v ! j"
  using assms find_last_nth [of n v] by (auto simp: addnode_def nth_append split: option.splits)

lemma link_ok_grow:
  assumes "link_ok L still mc rs rn l" "addnode rs x = (i, rs')" "addnode rn y = (j, rn')"
  shows "link_ok L still mc rs' rn' l"
  using assms(1) addnode_spec(3,4) [OF assms(2)] addnode_spec(3,4) [OF assms(3)]
  by (cases l) (auto simp: link_ok_def)

lemma under_share: "same_shares mc mc' \<Longrightarrow> under mc' p h \<Longrightarrow> under mc p h"
  using under_same same_tree_sym same_shares_tree by blast

lemma tree_share: "same_shares mc mc' \<Longrightarrow> tree_ok mc \<Longrightarrow> tree_ok mc'"
proof -
  assume s: "same_shares mc mc'" and t: "tree_ok mc"
  have "om_invar (mc_nodes mc')" using s t by (simp add: same_shares_def tree_ok_def links_ok_def)
  then show "tree_ok mc'" using same_tree_ok [OF same_shares_tree [OF s]] t by (auto simp: tree_ok_def)
qed

lemma own_share_same: "same_shares mc mc' \<Longrightarrow> own_share mc' sh k \<longleftrightarrow> own_share mc sh k"
proof -
  assume "same_shares mc mc'"
  then have "map_option shares_view (nodebyhandle mc' sh) = map_option shares_view (nodebyhandle mc sh)" by (simp add: same_shares_def)
  then show ?thesis by (cases "nodebyhandle mc sh"; cases "nodebyhandle mc' sh") (auto simp: own_share_def shares_view_def)
qed

lemma cr_own_Some: "cr_own mc h0 = Some sh \<Longrightarrow> \<exists>k. own_share mc sh k"
  by (auto simp: cr_own_def own_share_def split: option.splits bind_splits if_splits)

lemma cr_tuple_inv:
  assumes I: "cr_inv L still mc st" and t: "tree_ok mc" and sn: "sn = cr_own mc h0" and r: "cr_tuple L sn n st = Some st'"
  shows "cr_inv L still mc st'"
proof (cases "\<exists>sh h. sn = Some sh \<and> n = Some h")
  case False
  then show ?thesis using r I by (cases sn; cases n) (auto simp: cr_tuple_def)
next
  case True
  then obtain sh h where sh: "sn = Some sh" "n = Some h" by blast
  obtain k0 where k0: "own_share mc sh k0" using cr_own_Some [of mc h0 sh] sn sh by auto
  have ss: "same_shares mc (cr_mc st)" using I by (simp add: cr_inv_def)
  obtain k nd b where k: "Option.bind (nodebyhandle (cr_mc st) sh) n_sharekey = Some k" "nodebyhandle (cr_mc st) h = Some nd"
    "isbelow (cr_mc st) (Some h) sh = Some b"
    "st' = (if \<not> b then st else if cr_setkey st \<ge> 0 then cr_setnode L k h nd st else cr_send L k sh h nd st)"
    using r sh by (auto simp: cr_tuple_def split: option.splits)
  have kk: "k = k0" using k(1) own_share_same [OF ss, of sh k0] k0 by (auto simp: own_share_def split: bind_splits)
  have ub: "under mc sh h" if b
    using isbelow_under [of "cr_mc st"] tree_share [OF ss t] k(2,3) that under_share [OF ss] by (auto simp: tree_ok_def)
  have "cr_inv L still mc (cr_setnode L k h nd st)" if "cr_setkey st \<ge> 0"
    using I that same_shares_trans [OF ss node_setkey_shares] by (auto simp: cr_setnode_def cr_inv_def Let_def)
  moreover have "cr_inv L still mc (cr_send L k sh h nd st)" if b
  proof -
    obtain i rs j rn where a: "addnode (cr_rshares st) sh = (i, rs)" "addnode (cr_rnodes st) h = (j, rn)" by fastforce
    have "link_ok L still mc rs rn (i, j, ecb_encrypt (lib_aes L) k (n_nodekey nd))"
      using I addnode_spec(1,2) [OF a(1)] addnode_spec(1,2) [OF a(2)] k(2) k0 kk ub [OF that] by (auto simp: cr_inv_def link_ok_def)
    then show ?thesis
      using I link_ok_grow [OF _ a] by (auto simp: cr_send_def cr_inv_def a list_all_iff Let_def)
  qed
  ultimately show ?thesis using k(4) I by auto
qed

lemma cr_select_inv:
  assumes "cr_select L (map (cr_own mc) shs) nodes st p = Some (ok, st', p')" "tree_ok mc" "cr_inv L False mc st"
  shows "cr_inv L False mc st'"
proof -
  have "map (cr_own mc) shs = map (cr_own mc) shs \<longrightarrow> cr_inv L False mc st \<longrightarrow> cr_inv L False mc (fst (snd (ok, st', p')))"
  proof (rule cr_select.raw_induct [where P = "\<lambda>L shares nodes st p r. shares = map (cr_own mc) shs \<longrightarrow> cr_inv L False mc st \<longrightarrow> cr_inv L False mc (fst (snd r))",
        OF _ assms(1)], goal_cases)
    case (1 f L shares nodes st p r)
    obtain i p1 j p2 where g: "getint p = (i, p1)" "getint p1 = (j, p2)" by fastforce
    define si ni where "si = nat (i mod 2 ^ 32)" and "ni = nat (j mod 2 ^ 32)"
    obtain b p3 where b: "(if cur (tl p2) = ch_quote then storebinary_buf 32 p2 else ([], p2)) = (b, p3)" by fastforce
    define st1 where "st1 = (if cur (tl p2) = ch_quote then st\<lparr>cr_keybuf := put_front b (cr_keybuf st), cr_setkey := int (length b)\<rparr> else st)"
    have r: "(if p1 = p then Some (True, st, p1) else if si \<ge> length shares \<or> ni \<ge> length nodes then Some (False, st, p2)
        else Option.bind (cr_tuple L (shares ! si) (nodes ! ni) st1) (\<lambda>st2. f L shares nodes st2 p3)) = Some r"
      using 1(2) unfolding si_def ni_def st1_def g b Let_def prod.case by (simp add: g b split: prod.splits)
    show ?case
    proof (intro impI)
      assume sh: "shares = map (cr_own mc) shs" and I: "cr_inv L False mc st"
      consider "r = (True, st, p1)" | "r = (False, st, p2)"
        | st2 where "si < length shares" "cr_tuple L (shares ! si) (nodes ! ni) st1 = Some st2" "f L shares nodes st2 p3 = Some r"
        using r by (auto split: if_splits bind_splits)
      then show "cr_inv L False mc (fst (snd r))"
      proof cases
        case 3
        have "cr_inv L False mc st1" using I by (simp add: st1_def cr_inv_def)
        then have "cr_inv L False mc st2" using cr_tuple_inv [OF _ assms(2) _ 3(2)] 3(1) sh by auto
        then show ?thesis using 1(1) [OF 3(3)] sh by blast
      qed (use I in simp_all)
    qed
  qed
  then show ?thesis using assms(3) by simp
qed

lemma cr_all_inv:
  assumes "cr_all L (map (cr_own mc) shs) nodes st si ni = Some st'" "tree_ok mc" "cr_inv L still mc st"
  shows "cr_inv L still mc st'"
proof -
  have "map (cr_own mc) shs = map (cr_own mc) shs \<longrightarrow> cr_inv L still mc st \<longrightarrow> cr_inv L still mc st'"
  proof (rule cr_all.raw_induct [where P = "\<lambda>L shares nodes st si ni r. shares = map (cr_own mc) shs \<longrightarrow> cr_inv L still mc st \<longrightarrow> cr_inv L still mc r",
        OF _ assms(1)], goal_cases)
    case (1 f L shares nodes st si ni r)
    obtain si1 ni1 where g: "(if Suc ni \<ge> length nodes then (Suc si, 0) else (si, Suc ni)) = (si1, ni1)" by fastforce
    show ?case
    proof (intro impI)
      assume sh: "shares = map (cr_own mc) shs" and I: "cr_inv L still mc st"
      consider "r = st"
        | st2 where "si1 < length shares" "(if shares ! si1 = None then Some st else cr_tuple L (shares ! si1) (nodes ! ni1) st) = Some st2"
          "f L shares nodes st2 si1 ni1 = Some r"
        using 1(2) unfolding g Let_def prod.case by (auto split: if_splits bind_splits)
      then show "cr_inv L still mc r"
      proof cases
        case 2
        then have "cr_inv L still mc st2" using cr_tuple_inv [OF I assms(2), of "shares ! si1"] I sh by (auto split: if_splits)
        then show ?thesis using 1(1) [OF 2(3)] sh by blast
      qed (use I in simp)
    qed
  qed
  then show ?thesis using assms by blast
qed

lemma cr_response_links:
  assumes "cr_response L junk shares nodes sel s = Some (s', p)" "tree_ok (kr_mc s)"
  shows "same_shares (kr_mc s) (kr_mc s')" and "sel = None \<Longrightarrow> kr_mc s' = kr_mc s"
    and "kr_calls s' = kr_calls s \<or>
      (\<exists>rs rn ls. kr_calls s' = kr_calls s @ [KeyCR rs rn (concat (map link_json ls))] \<and> list_all (link_ok L (sel = None) (kr_mc s) rs rn) ls)"
proof -
  have I0: "cr_inv L still (kr_mc s) (cr_start junk (kr_mc s))" for still by (simp add: cr_inv_def cr_start_def)
  have "\<exists>st ok. cr_inv L (sel = None) (kr_mc s) st \<and> s' = (if ok then cr_done st s else s\<lparr>kr_mc := cr_mc st\<rparr>)"
  proof (cases sel)
    case None
    then obtain st where "cr_all L (map (cr_own (kr_mc s)) shares) nodes (cr_start junk (kr_mc s)) 0 0 = Some st" "s' = cr_done st s"
      using assms(1) by (auto simp: cr_response_def Let_def)
    then show ?thesis using cr_all_inv [OF _ assms(2) I0] None by (intro exI [of _ st] exI [of _ True]) simp
  next
    case (Some q)
    then obtain ok st where "cr_select L (map (cr_own (kr_mc s)) shares) nodes (cr_start junk (kr_mc s)) q = Some (ok, st, p)"
      "s' = (if ok then cr_done st s else s\<lparr>kr_mc := cr_mc st\<rparr>)"
      using assms(1) by (auto simp: cr_response_def Let_def)
    then show ?thesis using cr_select_inv [OF _ assms(2) I0] Some by (intro exI [of _ st] exI [of _ ok]) auto
  qed
  then obtain st ok where st: "cr_inv L (sel = None) (kr_mc s) st" "s' = (if ok then cr_done st s else s\<lparr>kr_mc := cr_mc st\<rparr>)" by blast
  show "same_shares (kr_mc s) (kr_mc s')" "sel = None \<Longrightarrow> kr_mc s' = kr_mc s" using st by (simp_all add: cr_inv_def cr_done_def kr_call_def Let_def)
  show "kr_calls s' = kr_calls s \<or>
      (\<exists>rs rn ls. kr_calls s' = kr_calls s @ [KeyCR rs rn (concat (map link_json ls))] \<and> list_all (link_ok L (sel = None) (kr_mc s) rs rn) ls)"
    using st by (auto simp: cr_inv_def cr_done_def kr_call_def Let_def)
qed

section \<open>Requests without a selector\<close>

text \<open>All pairs in the order of the loops, without the first.\<close>

definition cr_run :: "libs \<Rightarrow> (handle option \<times> handle option) list \<Rightarrow> crstate \<Rightarrow> crstate option" where
  "cr_run L ps st = fold (\<lambda>(sn, n) r. Option.bind r (cr_tuple L sn n)) ps (Some st)"

lemma cr_run_simps [simp]:
  "cr_run L [] st = Some st"
  "cr_run L ((sn, n) # ps) st = Option.bind (cr_tuple L sn n st) (cr_run L ps)"
proof -
  have "fold (\<lambda>(sn, n) r. Option.bind r (cr_tuple L sn n)) ps None = None" by (induction ps) auto
  then show "cr_run L ((sn, n) # ps) st = Option.bind (cr_tuple L sn n st) (cr_run L ps)"
    by (cases "cr_tuple L sn n st") (simp_all add: cr_run_def)
qed (simp add: cr_run_def)

lemma cr_run_append: "cr_run L (xs @ ys) t = Option.bind (cr_run L xs t) (cr_run L ys)"
  by (induction xs arbitrary: t) (auto split: bind_splits)

lemma cr_tuple_null: "(if x = None then Some st else cr_tuple L x y st) = cr_tuple L x y st"
  by (simp add: cr_tuple_def split: option.split)

lemma cr_all_step:
  "Suc ni < length nodes \<Longrightarrow> si < length shares \<Longrightarrow>
    cr_all L shares nodes st si ni = Option.bind (cr_tuple L (shares ! si) (nodes ! Suc ni) st) (\<lambda>t. cr_all L shares nodes t si (Suc ni))"
  "length nodes \<le> Suc ni \<Longrightarrow> 0 < length nodes \<Longrightarrow> Suc si < length shares \<Longrightarrow>
    cr_all L shares nodes st si ni = Option.bind (cr_tuple L (shares ! Suc si) (nodes ! 0) st) (\<lambda>t. cr_all L shares nodes t (Suc si) 0)"
  "length nodes \<le> Suc ni \<Longrightarrow> length shares \<le> Suc si \<Longrightarrow> cr_all L shares nodes st si ni = Some st"
  by (subst cr_all.simps, simp add: cr_tuple_null)+

lemma cr_all_row:
  assumes "si < length shares" "ni < length nodes"
  shows "cr_all L shares nodes st si ni =
    Option.bind (cr_run L (map (Pair (shares ! si)) (drop (Suc ni) nodes)) st) (\<lambda>t. cr_all L shares nodes t si (length nodes - 1))"
  using assms(2)
proof (induction "length nodes - ni" arbitrary: ni st)
  case (Suc k)
  show ?case
  proof (cases "Suc ni < length nodes")
    case True
    have d: "drop (Suc ni) nodes = nodes ! Suc ni # drop (Suc (Suc ni)) nodes" using True by (simp add: Cons_nth_drop_Suc)
    have IH: "cr_all L shares nodes t si (Suc ni) =
      Option.bind (cr_run L (map (Pair (shares ! si)) (drop (Suc (Suc ni)) nodes)) t) (\<lambda>t. cr_all L shares nodes t si (length nodes - 1))" for t
      by (rule Suc.hyps(1)) (use Suc.hyps(2) True in auto)
    show ?thesis
      unfolding cr_all_step(1) [OF True assms(1)] d list.map cr_run_simps
      by (cases "cr_tuple L (shares ! si) (nodes ! Suc ni) st") (simp_all add: IH)
  next
    case False
    then have "ni = length nodes - 1" using Suc.prems by simp
    then show ?thesis using False by simp
  qed
qed simp

lemma cr_all_from:
  assumes "nodes = n0 # ns" "si < length shares"
  shows "cr_all L shares nodes st si (length nodes - 1) = cr_run L (List.product (drop (Suc si) shares) nodes) st"
  using assms(2)
proof (induction "length shares - si" arbitrary: si st)
  case (Suc k)
  show ?case
  proof (cases "Suc si < length shares")
    case True
    have d: "List.product (drop (Suc si) shares) nodes =
        (shares ! Suc si, n0) # map (Pair (shares ! Suc si)) ns @ List.product (drop (Suc (Suc si)) shares) nodes"
      using True by (simp add: assms(1) flip: Cons_nth_drop_Suc)
    have IH: "cr_all L shares nodes t (Suc si) (length nodes - 1) = cr_run L (List.product (drop (Suc (Suc si)) shares) nodes) t" for t
      by (rule Suc.hyps(1)) (use Suc.hyps(2) True in auto)
    have row: "cr_all L shares nodes t (Suc si) 0 = Option.bind (cr_run L (map (Pair (shares ! Suc si)) ns) t) (cr_run L (List.product (drop (Suc (Suc si)) shares) nodes))" for t
      using cr_all_row [OF True, of 0 nodes L t] assms(1) IH by simp
    have st: "cr_all L shares nodes st si (length nodes - 1) = Option.bind (cr_tuple L (shares ! Suc si) n0 st) (\<lambda>t. cr_all L shares nodes t (Suc si) 0)"
      using cr_all_step(2) [of nodes "length nodes - 1" si shares L st] True assms(1) by simp
    show ?thesis unfolding st d cr_run_simps by (cases "cr_tuple L (shares ! Suc si) n0 st") (simp_all add: row cr_run_append)
  next
    case False
    then show ?thesis using cr_all_step(3) [of nodes "length nodes - 1" shares si L st] assms(1) by simp
  qed
qed simp

lemma cr_response_pairs:
  assumes "shares \<noteq> []" "nodes \<noteq> []"
  shows "cr_response L junk shares nodes None s =
    map_option (\<lambda>st. (cr_done st s, []))
      (cr_run L (tl (List.product (map (cr_own (kr_mc s)) shares) nodes)) (cr_start junk (kr_mc s)))"
proof -
  define own where "own = map (cr_own (kr_mc s)) shares"
  obtain n0 ns where n: "nodes = n0 # ns" using assms(2) by (cases nodes) auto
  obtain o0 os where o: "own = o0 # os" using assms(1) by (cases shares) (auto simp: own_def)
  have "cr_all L own nodes st 0 0 = cr_run L (tl (List.product own nodes)) st" for st
    using cr_all_row [of 0 own 0 nodes L st] cr_all_from [OF n, of 0 own L] by (simp add: n o cr_run_append)
  then show ?thesis by (simp add: cr_response_def Let_def own_def)
qed

section \<open>Requests with a selector\<close>

text \<open>The index pairs of a request as JSON values, and the text that the loop has in front of it.\<close>

definition pair_json :: "nat \<times> nat \<Rightarrow> json_value list" where
  "pair_json ij = [JNum (dec_int (int (fst ij))), JNum (dec_int (int (snd ij)))]"

lemma getint_index:
  assumes "i < 2 ^ 32" "cur rest \<in> {ch_comma, ch_rbrack}"
  shows "getint (ch_comma # dec_int (int i) @ rest) = (int i, rest)" "getint (dec_int (int i) @ rest) = (int i, rest)"
    "nat (int i mod 2 ^ 32) = i"
  using getint_comma [of rest "int i"] getint_dec_int [of rest "int i"] assms by auto

lemma getint_end: "getint (ch_rbrack # rest) = (-1, ch_rbrack # rest)"
  by (simp add: getint_def skip_char_def)

lemma cr_select_end: "cr_select L shares nodes st (ch_rbrack # rest) = Some (True, st, ch_rbrack # rest)"
  by (subst cr_select.simps) (simp add: getint_end)

lemma digit_not_quote: "cur (dec_int (int i) @ q) \<noteq> ch_quote"
  using cur_dec_nat [of i q] by (auto simp: dec_int_def is_digit_def)

lemma dec_int_ne: "dec_int n \<noteq> []"
  using cur_dec_int(1) [of n "[ch_colon]"] by auto

lemma cr_select_pairs:
  assumes "list_all (\<lambda>(i, j). i < length shares \<and> j < length nodes) ps" "length shares \<le> 2 ^ 32" "length nodes \<le> 2 ^ 32" "cur rest \<noteq> ch_quote"
    and "p = commas (concat (map pair_json ps)) @ ch_rbrack # rest \<or> (ps \<noteq> [] \<and> p = tl (commas (concat (map pair_json ps)) @ ch_rbrack # rest))"
  shows "cr_select L shares nodes st p = map_option (\<lambda>st. (True, st, ch_rbrack # rest)) (cr_run L (map (\<lambda>(i, j). (shares ! i, nodes ! j)) ps) st)"
  using assms(1,5)
proof (induction ps arbitrary: st p)
  case Nil
  then show ?case by (simp add: commas_def cr_select_end)
next
  case (Cons ij ps)
  obtain i j where ij: "ij = (i, j)" by fastforce
  define q where "q = commas (concat (map pair_json ps)) @ ch_rbrack # rest"
  have cq: "cur q \<in> {ch_comma, ch_rbrack}" by (cases ps) (auto simp: q_def commas_def pair_json_def)
  have lt: "i < length shares" "j < length nodes" "i < 2 ^ 32" "j < 2 ^ 32" using Cons.prems(1) assms(2,3) ij by auto
  have pj: "pair_json (i, j) = [JNum (dec_int (int i)), JNum (dec_int (int j))]" by (simp add: pair_json_def)
  have p: "p = ch_comma # dec_int (int i) @ ch_comma # dec_int (int j) @ q \<or> p = dec_int (int i) @ ch_comma # dec_int (int j) @ q"
    using Cons.prems(2) pj by (auto simp: commas_def ij q_def)
  have g: "getint p = (int i, ch_comma # dec_int (int j) @ q)" "getint (ch_comma # dec_int (int j) @ q) = (int j, q)"
    using p getint_index [OF lt(3), of "ch_comma # dec_int (int j) @ q"] getint_index [OF lt(4) cq] by auto
  have ne: "ch_comma # dec_int (int j) @ q \<noteq> p"
  proof -
    have "length (ch_comma # dec_int (int j) @ q) \<noteq> length p" using p dec_int_ne [of "int i"] by auto
    then show ?thesis by metis
  qed
  have nq: "cur (tl q) \<noteq> ch_quote"
    using assms(4) digit_not_quote by (cases ps) (auto simp: q_def commas_def pair_json_def)
  have IH: "cr_select L shares nodes t q = map_option (\<lambda>st. (True, st, ch_rbrack # rest)) (cr_run L (map (\<lambda>(i, j). (shares ! i, nodes ! j)) ps) t)" for t
    by (rule Cons.IH) (use Cons.prems(1) in \<open>auto simp: q_def\<close>)
  have "cr_select L shares nodes st p = Option.bind (cr_tuple L (shares ! i) (nodes ! j) st) (\<lambda>t. cr_select L shares nodes t q)"
    using lt ne nq getint_index(3) [OF lt(3) cq] getint_index(3) [OF lt(4) cq] by (subst cr_select.simps) (simp add: g)
  then show ?case by (cases "cr_tuple L (shares ! i) (nodes ! j) st") (simp_all add: IH ij)
qed

text \<open>A key that the server delivers for a node that is not known is kept, and taken for the key of the next node.\<close>

definition stray_selector :: "bytes \<Rightarrow> bytes" where
  "stray_selector c = sep (map pr [JNum (dec_int 0), JNum (dec_int 0), JStr (btoa c), JNum (dec_int 0), JNum (dec_int 1)])"

lemma stray_select:
  assumes "length c \<le> 32" "cur rest \<noteq> ch_quote"
  shows "cr_select L [Some sh] [None, Some h] st (stray_selector c @ ch_rbrack # rest) =
    map_option (\<lambda>t. (True, t, ch_rbrack # rest)) (cr_tuple L (Some sh) (Some h) (st\<lparr>cr_keybuf := put_front c (cr_keybuf st), cr_setkey := int (length c)\<rparr>))"
proof -
  define q where "q = ch_comma # dec_int (int 0) @ ch_comma # dec_int (int 1) @ ch_rbrack # rest"
  define k where "k = ch_comma # pr_str (btoa c) @ q"
  have t: "stray_selector c @ ch_rbrack # rest = dec_int (int 0) @ ch_comma # dec_int (int 0) @ k"
    by (simp add: stray_selector_def sep_Cons k_def q_def)
  have cq: "cur q \<in> {ch_comma, ch_rbrack}" "cur k \<in> {ch_comma, ch_rbrack}" by (simp_all add: q_def k_def)
  have g: "getint (dec_int (int 0) @ ch_comma # dec_int (int 0) @ k) = (int 0, ch_comma # dec_int (int 0) @ k)"
    "getint (ch_comma # dec_int (int 0) @ k) = (int 0, k)"
    "getint q = (int 0, ch_comma # dec_int (int 1) @ ch_rbrack # rest)"
    "getint (ch_comma # dec_int (int 1) @ ch_rbrack # rest) = (int 1, ch_rbrack # rest)"
    using getint_index(2) [of 0 "ch_comma # dec_int (int 0) @ k"] getint_index(1) [OF _ cq(2), of 0]
      getint_index(1) [of 0 "ch_comma # dec_int (int 1) @ ch_rbrack # rest"] getint_index(1) [of 1 "ch_rbrack # rest"]
    by (simp_all add: q_def)
  have sb: "storebinary_buf 32 k = (c, q)"
    using storebinary_btoa [of 32 c q] assms(1) by (simp add: k_def storebinary_buf_def skip_char_def pr_str_def)
  have ne: "ch_comma # dec_int (int 0) @ k \<noteq> dec_int (int 0) @ ch_comma # dec_int (int 0) @ k"
    "ch_comma # dec_int (int 1) @ ch_rbrack # rest \<noteq> q"
    using dec_int_ne [of "int 0"] by (auto simp: q_def dest!: arg_cong [where f = length])
  have qk: "cur (tl k) = ch_quote" by (simp add: k_def pr_str_def)
  define st1 where "st1 = st\<lparr>cr_keybuf := put_front c (cr_keybuf st), cr_setkey := int (length c)\<rparr>"
  have "cr_select L [Some sh] [None, Some h] st (stray_selector c @ ch_rbrack # rest) = cr_select L [Some sh] [None, Some h] st1 q"
    unfolding t by (subst cr_select.simps) (use g ne qk sb in \<open>simp add: cr_tuple_def st1_def\<close>)
  also have "\<dots> = Option.bind (cr_tuple L (Some sh) (Some h) st1) (\<lambda>t. Some (True, t, ch_rbrack # rest))"
    by (subst cr_select.simps) (use g ne assms(2) in \<open>simp add: cr_select_end\<close>)
  finally show ?thesis by (cases "cr_tuple L (Some sh) (Some h) st1") (simp_all add: st1_def)
qed

section \<open>Replies to key requests\<close>

text \<open>An error instead of a key: every waiting action runs without a user.\<close>

lemma pubkey_error:
  assumes "\<not> is_num_tail (cur rest)"
  shows "CommandPubKeyRequest_procresult L rnd i tag s (dec_int n @ rest) =
    map_option (\<lambda>s1. (s1, dec_int n @ rest)) (satisfy L rnd tag None (kr_pkrs s i) (s\<lparr>kr_pkrs := (kr_pkrs s)(i := [])\<rparr>))"
proof -
  have "cur (dec_int n @ rest) \<noteq> ch_quote" "cur (dec_int n @ rest) \<noteq> ch_comma" "cur (dec_int n @ rest) \<noteq> ch_colon"
    using cur_dec_int [of n rest] cur_dec_nat [of "nat n" rest] by (auto simp: dec_int_def is_digit_def)
  then have "getnameid (dec_int n @ rest) = (0, dec_int n @ rest)" by (simp add: getnameid_def)
  then have "scan rd st (dec_int n @ rest) = Some (AtEOO, st, dec_int n @ rest)" for rd and st :: pubkstate
    by (subst scan.simps) simp
  then show ?thesis
    by (simp add: CommandPubKeyRequest_procresult_def isnumeric_dec_int [OF assms] pubk_store_def ISUNDEF_iff)
qed

text \<open>The reply with a key.\<close>

definition pubk_json :: "handle \<Rightarrow> bytes \<Rightarrow> json_value" where
  "pubk_json uh key = JObj [(str ''u'', handle_json 8 uh), (str ''pubk'', JStr (btoa key))]"

lemma pubkey_reply:
  assumes "length key \<le> 1026"
  shows "CommandPubKeyRequest_procresult L rnd i tag s (body (pubk_json uh key) @ rest) =
    (let (ok, mc) = pubk_store L i \<lparr>pk_uh = uh, pk_buf = key\<rparr> (kr_mc s) in
     map_option (\<lambda>s1. (if ok then kr_upd (\<lambda>mc. mc\<lparr>mc_usernotify := mc_usernotify mc @ [i]\<rparr>) s1 else s1, ch_rbrace # rest))
       (satisfy L rnd tag (if ok then Some i else None) (kr_pkrs s i) (s\<lparr>kr_mc := mc, kr_pkrs := (kr_pkrs s)(i := [])\<rparr>)))"
proof -
  have e: "list_all2 (member_effect id (switch pubk_cases)) [(str ''u'', handle_json 8 uh), (str ''pubk'', JStr (btoa key))]
    [\<lambda>s. s\<lparr>pk_uh := uh\<rparr>, \<lambda>s. s\<lparr>pk_buf := key\<rparr>]"
    using assms
    by (auto intro!: member_effectI reads_handle reads_binary
        simp: switch_def pubk_cases_def MAKENAMEID_def handle_json_def str_ok_btoa take_bit_word_full)
  have "scan (switch pubk_cases) \<lparr>pk_uh = UNDEF, pk_buf = []\<rparr> (body (pubk_json uh key) @ rest) =
      Some (AtEOO, \<lparr>pk_uh = uh, pk_buf = key\<rparr>, ch_rbrace # rest)"
    using scan_object [OF e, of "\<lparr>pk_uh = UNDEF, pk_buf = []\<rparr>" rest] by (auto simp: pubk_json_def simp del: body.simps)
  then show ?thesis
    by (simp add: CommandPubKeyRequest_procresult_def pubk_json_def isnumeric_object Let_def split: prod.splits del: body.simps)
qed

text \<open>Actions that create shares, for a user (or none) whose node is there.\<close>

definition created :: "(nat \<Rightarrow> nat \<Rightarrow> bytes) \<Rightarrow> user option \<Rightarrow> pubkeyaction list \<Rightarrow> api_call list \<Rightarrow> bool" where
  "created rnd u as cs \<longleftrightarrow>
     list_all2 (\<lambda>a c. case a of PkaCreateShare h acc t \<Rightarrow> (\<exists>pad new. c = SetShare pad h u acc new) | _ \<Rightarrow> False) as cs"

lemma CreateShare_call:
  assumes "nodebyhandle (kr_mc s) h \<noteq> None"
  shows "\<exists>pad new. kr_calls (PubKeyActionCreateShare_proc rnd h a t u s) = kr_calls s @ [SetShare pad h (map_option (kr_user s) u) a new]"
    "kr_user (PubKeyActionCreateShare_proc rnd h a t u s) = kr_user s"
    "kr_pkrs (PubKeyActionCreateShare_proc rnd h a t u s) = kr_pkrs s"
    "nodebyhandle (kr_mc (PubKeyActionCreateShare_proc rnd h a t u s)) x \<noteq> None \<longleftrightarrow> nodebyhandle (kr_mc s) x \<noteq> None"
  using assms
  by (auto simp: PubKeyActionCreateShare_proc_def kr_call_def kr_upd_def kr_user_def Let_def nodebyhandle_def upd_node_def om_lookup_map_of map_of_om_update
      split: option.splits if_splits)

lemma satisfy_create:
  assumes "list_all (\<lambda>a. case a of PkaCreateShare h acc t \<Rightarrow> nodebyhandle (kr_mc s) h \<noteq> None | _ \<Rightarrow> False) as"
  shows "\<exists>s' cs. satisfy L rnd tag u as s = Some s' \<and> kr_calls s' = kr_calls s @ cs \<and> created rnd (map_option (kr_user s) u) as cs \<and> kr_pkrs s' = kr_pkrs s \<and>
    kr_user s' = kr_user s"
  using assms
proof (induction as arbitrary: s)
  case Nil
  then show ?case by (simp add: created_def)
next
  case (Cons a as)
  then obtain h acc t where a: "a = PkaCreateShare h acc t" "nodebyhandle (kr_mc s) h \<noteq> None" by (cases a) auto
  define s0 where "s0 = kr_upd (\<lambda>mc. mc\<lparr>mc_restag := tag\<rparr>) s"
  have s0: "nodebyhandle (kr_mc s0) x = nodebyhandle (kr_mc s) x" "kr_user s0 = kr_user s" "kr_calls s0 = kr_calls s" "kr_pkrs s0 = kr_pkrs s" for x
    by (auto simp: s0_def kr_upd_def nodebyhandle_def kr_user_def)
  define s1 where "s1 = PubKeyActionCreateShare_proc (rnd (length as)) h acc t u s0"
  have nz: "nodebyhandle (kr_mc s0) h \<noteq> None" using a(2) s0(1) by simp
  note c = CreateShare_call [OF nz, of "rnd (length as)" acc t u, folded s1_def]
  have "list_all (\<lambda>a. case a of PkaCreateShare h acc t \<Rightarrow> nodebyhandle (kr_mc s1) h \<noteq> None | _ \<Rightarrow> False) as"
    using Cons.prems c(4) s0(1) by (auto simp: list_all_iff split: pubkeyaction.splits)
  from Cons.IH [OF this] obtain s' cs where s': "satisfy L rnd tag u as s1 = Some s'" "kr_calls s' = kr_calls s1 @ cs"
    "created rnd (map_option (kr_user s1) u) as cs" "kr_pkrs s' = kr_pkrs s1" "kr_user s' = kr_user s1" by blast
  obtain pad new where "kr_calls s1 = kr_calls s @ [SetShare pad h (map_option (kr_user s) u) acc new]" using c(1) s0 by auto
  then show ?case
    using s' c(2,3) s0 a(1) by (auto simp: created_def s1_def [symmetric] s0_def [symmetric])
qed

definition creates :: "megaclient \<Rightarrow> pubkeyaction list \<Rightarrow> bool" where
  "creates mc as \<longleftrightarrow> list_all (\<lambda>a. case a of PkaCreateShare h acc t \<Rightarrow> nodebyhandle mc h \<noteq> None | _ \<Rightarrow> False) as"

lemma satisfy_shares:
  assumes "creates (kr_mc s) as"
  shows "\<exists>s' cs. satisfy L rnd tag u as s = Some s' \<and> kr_calls s' = kr_calls s @ cs \<and> kr_pkrs s' = kr_pkrs s \<and> kr_user s' = kr_user s \<and>
    list_all2 (\<lambda>a c. \<exists>h acc t pad new. a = PkaCreateShare h acc t \<and> c = SetShare pad h (map_option (kr_user s) u) acc new) as cs"
proof -
  obtain s' cs where s': "satisfy L rnd tag u as s = Some s'" "kr_calls s' = kr_calls s @ cs" "created rnd (map_option (kr_user s) u) as cs" "kr_pkrs s' = kr_pkrs s"
    "kr_user s' = kr_user s" using satisfy_create [OF assms [unfolded creates_def], of L rnd tag u] by blast
  have "list_all2 (\<lambda>a c. \<exists>h acc t pad new. a = PkaCreateShare h acc t \<and> c = SetShare pad h (map_option (kr_user s) u) acc new) as cs"
    using s'(3) unfolding created_def by (rule list_all2_mono) (auto split: pubkeyaction.splits)
  then show ?thesis using s' by blast
qed

lemma pubkey_missing:
  assumes "creates (kr_mc s) (kr_pkrs s i)" "\<not> is_num_tail (cur rest)"
  shows "\<exists>s' cs. CommandPubKeyRequest_procresult L rnd i tag s (dec_int e @ rest) = Some (s', dec_int e @ rest) \<and>
    kr_pkrs s' i = [] \<and> kr_calls s' = kr_calls s @ cs \<and>
    list_all2 (\<lambda>a c. \<exists>h acc t pad new. a = PkaCreateShare h acc t \<and> c = SetShare pad h None acc new) (kr_pkrs s i) cs"
proof -
  define s0 where "s0 = s\<lparr>kr_pkrs := (kr_pkrs s)(i := [])\<rparr>"
  have "creates (kr_mc s0) (kr_pkrs s i)" using assms(1) by (simp add: s0_def)
  from satisfy_shares [OF this, of L rnd tag None] obtain s' cs where "satisfy L rnd tag None (kr_pkrs s i) s0 = Some s'"
    "kr_calls s' = kr_calls s @ cs" "kr_pkrs s' i = []"
    "list_all2 (\<lambda>a c. \<exists>h acc t pad new. a = PkaCreateShare h acc t \<and> c = SetShare pad h None acc new) (kr_pkrs s i) cs"
    by (auto simp: s0_def)
  then show ?thesis using pubkey_error [OF assms(2), of L rnd i tag s e] by (simp add: s0_def)
qed

lemma users_at_put: "users_at (put_user i u t) j = (if j = i then u else users_at t j)"
  by (simp add: users_at_def put_user_def om_lookup_map_of map_of_om_update)

lemma mapuser_pubk: "u_pubk (users_at (mapuser uh e t) j) = u_pubk (users_at t j)"
proof -
  have idx: "users_at (t\<lparr>ut_umindex := x\<rparr>) j = users_at t j" "users_at (t\<lparr>ut_uhindex := y\<rparr>) j = users_at t j" for t x y by (simp_all add: users_at_def)
  show ?thesis by (auto simp: mapuser_def Let_def idx users_at_put split: option.split)
qed

text \<open>The public key is stored in the record of the user.\<close>

lemma pubk_store_key:
  assumes B: "bigint_ok (lib_big L)" and bits: "bitCount (lib_big L) N < 65536" "bitCount (lib_big L) E < 65536"
    and key: "key = serializeintarray (lib_big L) [N, E] []"
  obtains t where "pubk_store L i \<lparr>pk_uh = uh, pk_buf = key\<rparr> mc = (True, mc\<lparr>mc_users := t\<rparr>)"
    "u_pubk (users_at t i) = [N, E] @ drop 2 (u_pubk (users_at (mc_users mc) i))"
proof -
  have "decode_ints (lib_big L) (length [N, E]) (concat (map (ser_int (lib_big L)) [N, E]) @ []) = ([N, E], True, [])"
    by (rule decode_ints_serialize [OF B]) (use bits in simp)
  then have k: "asymm_setkey (lib_big L) 2 key old = ([N, E] @ drop 2 old, True)" for old
    by (simp add: asymm_setkey_def decodeintarray_def key numeral_2_eq_2 del: decode_ints.simps)
  have "key \<noteq> []" by (simp add: key ser_int_def)
  then show ?thesis
    by (intro that) (auto simp: pubk_store_def Let_def k users_at_put mapuser_pubk)
qed

lemma pubkey_release:
  assumes "bigint_ok (lib_big L)" "bitCount (lib_big L) N < 65536" "bitCount (lib_big L) E < 65536"
    and "key = serializeintarray (lib_big L) [N, E] []" "length key \<le> 1026" "creates (kr_mc s) (kr_pkrs s i)"
  shows "\<exists>s' cs. CommandPubKeyRequest_procresult L rnd i tag s (body (pubk_json uh key) @ rest) = Some (s', ch_rbrace # rest) \<and>
    u_pubk (kr_user s' i) = [N, E] @ drop 2 (u_pubk (kr_user s i)) \<and> i \<in> set (mc_usernotify (kr_mc s')) \<and>
    kr_pkrs s' i = [] \<and> kr_calls s' = kr_calls s @ cs \<and>
    list_all2 (\<lambda>a c. \<exists>h acc t pad new. a = PkaCreateShare h acc t \<and> c = SetShare pad h (Some (kr_user s' i)) acc new) (kr_pkrs s i) cs"
proof -
  obtain t where t: "pubk_store L i \<lparr>pk_uh = uh, pk_buf = key\<rparr> (kr_mc s) = (True, (kr_mc s)\<lparr>mc_users := t\<rparr>)"
    "u_pubk (users_at t i) = [N, E] @ drop 2 (u_pubk (kr_user s i))"
    using pubk_store_key [OF assms(1-4), of i uh "kr_mc s"] by (metis kr_user_def)
  define s0 where "s0 = s\<lparr>kr_mc := (kr_mc s)\<lparr>mc_users := t\<rparr>, kr_pkrs := (kr_pkrs s)(i := [])\<rparr>"
  have "creates (kr_mc s0) (kr_pkrs s i)" using assms(6) by (simp add: s0_def creates_def nodebyhandle_def cong: pubkeyaction.case_cong)
  from satisfy_shares [OF this, of L rnd tag "Some i"] obtain s1 cs where s1: "satisfy L rnd tag (Some i) (kr_pkrs s i) s0 = Some s1"
    "kr_calls s1 = kr_calls s0 @ cs" "kr_pkrs s1 = kr_pkrs s0" "kr_user s1 = kr_user s0"
    "list_all2 (\<lambda>a c. \<exists>h acc t pad new. a = PkaCreateShare h acc t \<and> c = SetShare pad h (map_option (kr_user s0) (Some i)) acc new) (kr_pkrs s i) cs"
    by blast
  have s0: "kr_calls s0 = kr_calls s" "kr_pkrs s0 i = []" "kr_user s0 i = users_at t i" by (simp_all add: s0_def kr_user_def)
  define s2 where "s2 = kr_upd (\<lambda>mc. mc\<lparr>mc_usernotify := mc_usernotify mc @ [i]\<rparr>) s1"
  have "CommandPubKeyRequest_procresult L rnd i tag s (body (pubk_json uh key) @ rest) = Some (s2, ch_rbrace # rest)"
    unfolding pubkey_reply [OF assms(5)] t(1) using s1(1) by (simp add: s0_def s2_def)
  moreover have "kr_user s2 i = users_at t i" "kr_pkrs s2 i = []" "kr_calls s2 = kr_calls s @ cs" "i \<in> set (mc_usernotify (kr_mc s2))"
    using s1(2-4) s0 by (simp_all add: s2_def kr_upd_def kr_user_def fun_eq_iff)
  ultimately show ?thesis using t(2) s1(5) s0(3) by (intro exI [of _ s2] exI [of _ cs]) simp
qed

text \<open>Where the reply to a new share names the users, its end is taken for the end of the reply.\<close>

lemma setshare_users:
  assumes "userresults s (sep (map pr us) @ ch_rbrack # rest) = Some (s1, ch_rbrack # rest)"
  shows "CommandSetShare_procresult L junk pad tag sh user a s (pr_member (str ''u'', JArr us) @ rest) =
    Some (kr_event (share_result API_OK) s1, ch_rbrack # rest)"
proof -
  define p where "p = pr_member (str ''u'', JArr us) @ rest"
  have k: "key_ok (str ''u'')" "getnameid_at (str ''u'') = MAKENAMEID ''u''"
    by (simp_all add: key_ok_def str_def getnameid_at_def MAKENAMEID_def)
  have g: "getnameid p = (MAKENAMEID ''u'', ch_lbrack # sep (map pr us) @ ch_rbrack # rest)"
    using getnameid_key [OF k(1), of p "ch_lbrack # sep (map pr us) @ ch_rbrack # rest"] k(2) by (simp add: p_def pr_member_def)
  have n: "isnumeric p = (False, p)" "numeric_error p = None"
    by (simp_all add: p_def pr_member_def pr_str_def isnumeric_def numeric_error_def skip_char_def)
  have u: "MAKENAMEID ''u'' \<noteq> 0" by (simp add: MAKENAMEID_def)
  have e: "scan rd st (ch_rbrack # rest) = Some (AtEOO, st, ch_rbrack # rest)" for rd and st :: keyreqs
    by (subst scan.simps) (simp add: getnameid_def)
  have "scan (switch (setshare_cases L junk pad tag sh user a)) s p = Some (AtEOO, s1, ch_rbrack # rest)"
    using g u assms
    by (subst scan.simps) (simp add: switch_def setshare_cases_def MAKENAMEID_def enterarray_def skip_char_def e)
  then show ?thesis unfolding CommandSetShare_procresult_def using n by (simp add: p_def [symmetric])
qed


definition usermail_json :: "handle \<times> bytes \<Rightarrow> json_value" where
  "usermail_json x = JObj [(str ''u'', handle_json 8 (fst x)), (str ''m'', JStr (snd x))]"

lemma userresults_users:
  assumes "list_all (\<lambda>x. text_ok (snd x)) xs"
  shows "\<exists>s1. userresults s (sep (map pr (map usermail_json xs)) @ ch_rbrack # rest) = Some (s1, ch_rbrack # rest) \<and>
    kr_events s1 = kr_events s \<and> kr_calls s1 = kr_calls s"
proof -
  define f where "f x = [(str ''u'', handle_json 8 (fst x)), (str ''m'', JStr (snd x))]" for x :: "handle \<times> bytes"
  have f: "usermail_json = (\<lambda>x. JObj (f x))" by (simp add: f_def usermail_json_def fun_eq_iff)
  define I where "I ys t \<longleftrightarrow> kr_events t = kr_events s \<and> kr_calls t = kr_calls s" for ys :: "(handle \<times> bytes) list" and t :: keyreqs
  have "\<exists>s'. obj_loop procuserresult s (sep (map pr (map usermail_json xs)) @ ch_rbrack # rest) = Some (True, s', ch_rbrack # rest) \<and> I xs s'"
  proof (rule obj_loop_items [where f = f and I = I and ys = "[]" and zs = xs])
    fix ys x zs t q
    assume x: "xs = ys @ x # zs" and t: "I ys t"
    have e: "list_all2 (member_effect (\<lambda>s. s\<lparr>um_m := map_option copystring (um_m s)\<rparr>) (switch usermail_cases)) (f x)
        [\<lambda>s. s\<lparr>um_uh := fst x\<rparr>, \<lambda>s. s\<lparr>um_m := Some (snd x)\<rparr>]"
      using assms x
      by (auto intro!: member_effectI reads_handle reads_value
          simp: f_def switch_def usermail_cases_def MAKENAMEID_def handle_json_def str_ok_btoa take_bit_word_full copystring_text)
        (auto simp: text_ok_def)
    obtain st where "scan (switch usermail_cases) \<lparr>um_uh = UNDEF, um_m = None\<rparr> (body (JObj (f x)) @ q) = Some (AtEOO, st, ch_rbrace # q)"
      using scan_object [OF e, of "\<lparr>um_uh = UNDEF, um_m = None\<rparr>" q] by blast
    then show "\<exists>s'. procuserresult t (body (JObj (f x)) @ q) = Some (True, s', ch_rbrace # q) \<and> I (ys @ [x]) s'"
      using t by (simp add: procuserresult_def I_def usermail_end_def kr_upd_def split: option.split del: body.simps)
  next
    show "sep (map pr (map usermail_json xs)) @ ch_rbrack # rest = commas (map (\<lambda>x. JObj (f x)) xs) @ ch_rbrack # rest \<or>
      sep (map pr (map usermail_json xs)) @ ch_rbrack # rest = ch_rbrace # commas (map (\<lambda>x. JObj (f x)) xs) @ ch_rbrack # rest \<or>
      (xs \<noteq> [] \<and> sep (map pr (map usermail_json xs)) @ ch_rbrack # rest = tl (commas (map (\<lambda>x. JObj (f x)) xs) @ ch_rbrack # rest))"
      by (cases xs) (simp_all add: commas_def sep_Cons f comp_def del: pr.simps)
  qed (simp_all add: I_def)
  then show ?thesis by (auto simp: userresults_def I_def)
qed

end
