(* ===== verification/Packet_Safety.thy ===== *)
theory Packet_Safety
  imports Action_Packets Key_Replies
begin

text \<open>
  What the packets of the server can do to the tree. Whatever their text, malformed or not, the packets that do not announce new nodes leave
  the shape of the tree alone.
\<close>

section \<open>Loops keep invariants\<close>

lemma scan_keeps:
  assumes "scan rd s p = Some (z, s', p')" "I s"
    and "\<And>i f s p go s' p'. rd i = Some f \<Longrightarrow> I s \<Longrightarrow> f s p = Some (go, s', p') \<Longrightarrow> I s'"
  shows "I s'"
proof -
  have "rd = rd \<longrightarrow> I s \<longrightarrow> I (fst (snd (z, s', p')))"
  proof (rule scan.raw_induct [where P = "\<lambda>rd' s p r. rd' = rd \<longrightarrow> I s \<longrightarrow> I (fst (snd r))", OF _ assms(1)], goal_cases)
    case (1 g rd' s p r)
    obtain i p1 where g: "getnameid p = (i, p1)" by fastforce
    show ?case
    proof (intro impI)
      assume rd: "rd' = rd" and I: "I s"
      show "I (fst (snd r))"
      proof (cases "i = 0")
        case True
        then show ?thesis using 1(2) I by (auto simp: g)
      next
        case False
        show ?thesis
        proof (cases "rd i")
          case None
          then show ?thesis using 1(2) False rd I by (auto simp: g split: prod.splits option.splits dest!: 1(1))
        next
          case (Some f)
          obtain go s1 p2 where f: "f s p1 = Some (go, s1, p2)" using 1(2) False rd Some by (cases "f s p1") (auto simp: g)
          then have "I s1" using assms(3) Some I by blast
          then show ?thesis using 1(2) False rd Some f by (cases go) (auto simp: g dest!: 1(1))
        qed
      qed
    qed
  qed
  then show ?thesis using assms(2) by simp
qed

lemma obj_loop_keeps:
  assumes "obj_loop elem s p = Some (b, s', p')" "I s"
    and "\<And>s p go s' p'. I s \<Longrightarrow> elem s p = Some (go, s', p') \<Longrightarrow> I s'"
  shows "I s'"
proof -
  have "elem = elem \<longrightarrow> I s \<longrightarrow> I (fst (snd (b, s', p')))"
  proof (rule obj_loop.raw_induct [where P = "\<lambda>e s p r. e = elem \<longrightarrow> I s \<longrightarrow> I (fst (snd r))", OF _ assms(1)], goal_cases)
    case (1 g e s p r)
    obtain c p1 where g: "enterobject p = (c, p1)" by fastforce
    show ?case
    proof (intro impI)
      assume e: "e = elem" and I: "I s"
      show "I (fst (snd r))"
      proof (cases c)
        case True
        obtain go s1 p2 where f: "elem s p1 = Some (go, s1, p2)" using 1(2) True e by (cases "elem s p1") (auto simp: g)
        then have "I s1" using assms(3) I by blast
        then show ?thesis using 1(2) True e f by (cases go) (auto simp: g dest!: 1(1))
      qed (use 1(2) I in \<open>auto simp: g\<close>)
    qed
  qed
  then show ?thesis using assms(2) by simp
qed

section \<open>The shape of the tree\<close>

definition keeps :: "megaclient \<Rightarrow> megaclient \<Rightarrow> bool" where
  "keeps mc mc' \<longleftrightarrow> same_tree mc mc' \<and> (om_invar (mc_nodes mc) \<longrightarrow> om_invar (mc_nodes mc'))"

lemma keeps_refl [simp]: "keeps mc mc"
  by (simp add: keeps_def same_tree_def)

lemma keeps_trans: "keeps a b \<Longrightarrow> keeps b c \<Longrightarrow> keeps a c"
  using same_tree_trans by (auto simp: keeps_def)

lemma keeps_tree: "keeps mc mc' \<Longrightarrow> tree_ok mc \<Longrightarrow> tree_ok mc'"
proof -
  assume k: "keeps mc mc'" and t: "tree_ok mc"
  have "om_invar (mc_nodes mc')" using k t by (simp add: keeps_def tree_ok_def links_ok_def)
  then show "tree_ok mc'" using same_tree_ok [of mc mc'] k t by (auto simp: tree_ok_def keeps_def)
qed

lemma keeps_ranked: "keeps mc mc' \<Longrightarrow> links_ok mc \<Longrightarrow> ranked rk d mc \<Longrightarrow> links_ok mc' \<and> ranked rk d mc'"
  using same_tree_ok [of mc mc'] by (auto simp: keeps_def links_ok_def)

lemma keeps_shares: "same_shares mc mc' \<Longrightarrow> keeps mc mc'"
  using same_shares_tree by (auto simp: keeps_def same_shares_def)

lemma keeps_merge: "merge_to al own mc mc' \<Longrightarrow> keeps mc mc'"
  using merge_to_tree by (auto simp: keeps_def merge_to_def)

lemma keeps_fields: "mc_nodes mc' = mc_nodes mc \<Longrightarrow> keeps mc mc'"
  by (intro keeps_shares same_shares_fields)

lemma keeps_then: "keeps mc x \<Longrightarrow> mc_nodes y = mc_nodes x \<Longrightarrow> keeps mc y"
  by (rule keeps_trans [OF _ keeps_fields])

lemma keeps_upd: "(\<And>n. n_type (f n) = n_type n \<and> n_parent (f n) = n_parent n \<and> n_children (f n) = n_children n) \<Longrightarrow> keeps mc (upd_node h f mc)"
  by (auto simp: keeps_def same_tree_upd upd_node_invar)

lemma keeps_notify: "keeps mc (notifynode h mc)"
  by (rule keeps_merge [OF merge_to_notify [OF merge_to_refl]])

lemma keeps_treedel: "proctree k id treedel h mc = Some mc' \<Longrightarrow> keeps mc mc'"
  by (rule proctree_keeps [where P = "keeps mc"]) (auto intro: keeps_trans keeps_merge [OF treedel_merge [OF merge_to_refl]])

lemma decryptkey_nodes: "decryptkey L sk n sc ty h mc = (r, mc') \<Longrightarrow> mc_nodes mc' = mc_nodes mc"
  by (auto simp: decryptkey_def Let_def split: if_splits option.splits)

lemma applykey_frame: "same_frame mc (snd (applykey L h mc))"
proof -
  have "same_frame mc (node_setkey L k h (upd_node h (\<lambda>n. n\<lparr>n_keystring := []\<rparr>) mc1))" if "mc_nodes mc1 = mc_nodes mc" for mc1 k
    using same_frame_trans [OF same_frame_trans [OF same_frame_fields [OF that] same_frame_upd] node_setkey_frame] by (simp add: key_frame_def)
  moreover have "same_frame mc mc1" if "mc_nodes mc1 = mc_nodes mc" for mc1 by (rule same_frame_fields [OF that])
  ultimately show ?thesis
    by (auto simp: applykey_def Let_def split: option.splits prod.splits dest!: decryptkey_nodes)
qed

lemma applykeys_frame: "same_frame mc (snd (snd (applykeys L mc)))"
proof -
  have "same_frame mc (snd (fold (\<lambda>h (t, mc). let (b, mc1) = applykey L h mc in (if b then t + 1 else t, mc1)) hs (t, m)))"
    if "same_frame mc m" for hs m and t :: int
    using that
  proof (induction hs arbitrary: t m)
    case (Cons h hs)
    have "same_frame mc (snd (applykey L h m))" by (rule same_frame_trans [OF Cons.prems applykey_frame])
    then show ?case using Cons.IH by (auto split: prod.split)
  qed simp
  from this [OF same_frame_fields [of mc mc], of "map fst (mc_nodes mc)" 0] show ?thesis
    by (auto simp: applykeys_def Let_def split: prod.split intro: same_frame_trans [OF _ same_frame_fields])
qed

lemma keeps_frame: "same_frame mc mc' \<Longrightarrow> keeps mc mc'"
  by (intro keeps_shares same_frame_shares)

text \<open>A merge that returns changes no link, in whatever state it starts.\<close>

abbreviation (input) any_merge :: "megaclient \<Rightarrow> megaclient \<Rightarrow> bool" where
  "any_merge \<equiv> merge_to (\<lambda>_ _. True) (\<lambda>_. False)"

lemma any_merge_parts:
  "merge_key L junk s n mc = Some mc' \<Longrightarrow> any_merge mc mc'"
  "merge_delete k noti s n mc = Some mc' \<Longrightarrow> any_merge mc mc'"
  "merge_outshare L noti s n mc = Some mc' \<Longrightarrow> any_merge mc mc'"
  "merge_inshare L noti s n mc = Some mc' \<Longrightarrow> any_merge mc mc'"
proof -
  show "any_merge mc mc'" if "merge_key L junk s n mc = Some mc'"
    using that by (auto simp: merge_key_def merge_rel_def split: option.splits if_splits intro!: merge_to_upd merge_to_refl)
  have pt: "any_merge mc m" if "proctree k id treedel h mc = Some m" for h m
    by (rule proctree_keeps [where P = "any_merge mc", OF _ _ that]) (auto intro: treedel_merge merge_to_refl)
  show "any_merge mc mc'" if "merge_delete k noti s n mc = Some mc'"
    using that
    by (auto simp: merge_delete_def Let_def mark_outshares_def merge_rel_def split: if_splits
        intro!: merge_to_upd mark_changed_merge merge_to_refl dest: pt)
  show "any_merge mc mc'" if "merge_outshare L noti s n mc = Some mc'"
    using that
    by (auto simp: merge_outshare_def Let_def case_prod_beta mark_outshares_def merge_rel_def split: option.splits if_splits
        intro!: merge_to_upd mark_changed_merge merge_to_refl peer_user_merge)
  show "any_merge mc mc'" if "merge_inshare L noti s n mc = Some mc'"
    using that
    by (auto simp: merge_inshare_def Let_def case_prod_beta merge_rel_def split: option.splits if_splits
        intro!: merge_to_upd mark_changed_merge merge_to_refl peer_user_merge add_sharing_merge)
qed

lemma keeps_mergenewshares:
  assumes "mergenewshares L k noti junk mc = Some mc'"
  shows "keeps mc mc'"
proof -
  have one: "any_merge m m'" if mn: "merge_newshare L k noti junk x m = Some m'" for x m m'
  proof (cases "nodebyhandle m (ns_h x)")
    case None
    then show ?thesis using mn by (simp add: merge_newshare_def merge_to_refl)
  next
    case (Some n)
    then obtain m1 where m1: "merge_key L junk x n m = Some m1" "merge_share L k noti x n m1 = Some m'"
      using mn by (auto simp: merge_newshare_def split: bind_splits)
    have "any_merge m1 m'"
      using m1(2) any_merge_parts(2-4) by (auto simp: merge_share_def split: if_splits intro: merge_to_refl)
    then show ?thesis using merge_to_trans [OF any_merge_parts(1) [OF m1(1)]] by blast
  qed
  have none: "fold (\<lambda>s r. Option.bind r (merge_newshare L k noti junk s)) xs None = None" for xs by (induction xs) auto
  have "any_merge m m'" if "fold (\<lambda>s r. Option.bind r (merge_newshare L k noti junk s)) xs (Some m) = Some m'" for xs m m'
    using that
  proof (induction xs arbitrary: m)
    case Nil
    then show ?case by (simp add: merge_to_refl)
  next
    case (Cons x xs)
    then obtain m1 where m1: "merge_newshare L k noti junk x m = Some m1"
      by (cases "merge_newshare L k noti junk x m") (simp_all add: none)
    then have "any_merge m1 m'" using Cons.IH [of m1] Cons.prems by simp
    then show ?case by (rule merge_to_trans [OF one [OF m1]])
  qed
  then have "keeps mc z" if "fold (\<lambda>s r. Option.bind r (merge_newshare L k noti junk s)) (mc_newshares mc) (Some mc) = Some z" for z
    using keeps_merge that by blast
  then show ?thesis using assms by (auto simp: mergenewshares_def intro: keeps_then)
qed

section \<open>Key requests\<close>

lemma CreateShare_keeps: "keeps (kr_mc s) (kr_mc (PubKeyActionCreateShare_proc rnd h a t u s))"
proof -
  have "keeps m ((upd_node h (\<lambda>n. n\<lparr>n_sharekey := k\<rparr>) m)\<lparr>mc_restag := t\<rparr>)" for m k
    by (rule keeps_then [OF keeps_upd]) simp_all
  moreover have "keeps m (m\<lparr>mc_restag := t\<rparr>)" for m by (rule keeps_fields) simp
  ultimately show ?thesis
    by (simp add: PubKeyActionCreateShare_proc_def kr_call_def kr_event_def kr_upd_def Let_def split: option.split)
qed

lemma pka_proc_keeps: "pka_proc L rnd a u s = Some s' \<Longrightarrow> keeps (kr_mc s) (kr_mc s')"
  using CreateShare_keeps
  by (cases a)
    (auto simp: PubKeyActionPutNodes_proc_def PubKeyActionSendShareKey_proc_def kr_call_def kr_event_def
      split: option.splits bind_splits if_splits bool.splits)

lemma queuepubkeyreq_keeps: "queuepubkeyreq L rnd u a s = Some s' \<Longrightarrow> keeps (kr_mc s) (kr_mc s')"
proof -
  have "keeps (kr_mc s) (kr_mc s')" if "pka_proc L rnd a v (kr_upd (\<lambda>mc. mc\<lparr>mc_restag := t\<rparr>) s) = Some s'" for v t
    using pka_proc_keeps [OF that] keeps_trans [OF keeps_fields, of "(kr_mc s)\<lparr>mc_restag := t\<rparr>" "kr_mc s"] by (simp add: kr_upd_def)
  then show "queuepubkeyreq L rnd u a s = Some s' \<Longrightarrow> keeps (kr_mc s) (kr_mc s')"
    by (auto simp: queuepubkeyreq_def kr_call_def Let_def split: option.splits if_splits)
qed

lemma sr_users_keeps:
  assumes "sr_users L rnd junk known sh s p = Some (s', p')"
  shows "keeps (kr_mc s) (kr_mc s')"
proof -
  have "keeps (kr_mc s) (kr_mc (fst (s', p')))"
  proof (rule sr_users.raw_induct [where P = "\<lambda>L rnd junk known sh s p r. keeps (kr_mc s) (kr_mc (fst r))", OF _ assms], goal_cases)
    case (1 f L rnd junk known sh s p r)
    then show ?case
      by (auto split: prod.splits if_splits option.splits bind_splits dest!: 1(1) queuepubkeyreq_keeps intro: keeps_trans)
  qed
  then show ?thesis by simp
qed

lemma sr_nodes_keeps:
  assumes "sr_nodes L rnd junk s p = Some (s', p')"
  shows "keeps (kr_mc s) (kr_mc s')"
proof -
  have "keeps (kr_mc s) (kr_mc (fst (s', p')))"
  proof (rule sr_nodes.raw_induct [where P = "\<lambda>L rnd junk s p r. keeps (kr_mc s) (kr_mc (fst r))", OF _ assms], goal_cases)
    case (1 f L rnd junk s p r)
    then show ?case
      by (auto split: prod.splits if_splits bind_splits dest!: 1(1) sr_users_keeps intro: keeps_trans)
  qed
  then show ?thesis by simp
qed

lemma procsr_keeps: "procsr L rnd junk s p = Some (s', p') \<Longrightarrow> keeps (kr_mc s) (kr_mc s')"
  by (auto simp: procsr_def split: prod.splits if_splits dest: sr_nodes_keeps)

lemma procsnk_keeps:
  assumes "procsnk L s p = Some (s', p')"
  shows "kr_mc s' = kr_mc s"
proof -
  have d: "kr_mc t' = kr_mc t" if "snk_deliver L sh nh t = Some t'" for L sh nh t t'
    using that by (auto simp: snk_deliver_def kr_call_def split: option.splits bool.splits if_splits)
  have "kr_mc (fst r) = kr_mc s" if sp: "snk_pairs L s p = Some r" for L s p r
  proof (rule snk_pairs.raw_induct [where P = "\<lambda>L s p r. kr_mc (fst r) = kr_mc s", OF _ sp], goal_cases)
    case (1 f L s p r)
    then show ?case by (auto split: prod.splits if_splits bind_splits dest!: 1(1) d)
  qed
  from this show ?thesis using assms by (fastforce simp: procsnk_def split: prod.splits if_splits)
qed

lemma proccr_keeps:
  assumes "proccr L junk s p = Some (s', p')" "tree_ok (kr_mc s)"
  shows "keeps (kr_mc s) (kr_mc s')"
proof -
  have cr: "keeps (kr_mc s) (kr_mc t)" if "cr_response L junk shares nodes sel s = Some (t, q)" for shares nodes sel t q
    using cr_response_links(1) [OF that assms(2)] by (rule keeps_shares)
  have sc: "keeps (kr_mc s) (kr_mc t)" if "scan (switch (cr_cases L)) s q = Some (z, t, q')" for q z t q'
    by (rule scan_keeps [where I = "\<lambda>t. keeps (kr_mc s) (kr_mc t)", OF that])
      (auto simp: switch_def cr_cases_def split: if_splits dest!: procsnk_keeps)
  show ?thesis
    using assms(1)
    by (auto simp: proccr_def proccr_array_def Let_def split: prod.splits if_splits bind_splits option.splits dest: sc cr)
qed

section \<open>Packets\<close>

lemma keeps_upd_end: "keeps mc (upd_end L e mc)"
proof -
  let ?h = "up_h e"
  have "keeps mc (upd_node ?h (upd_fields e) mc)" by (rule keeps_upd) (simp add: upd_fields_def Let_def split: option.split)
  then have "keeps mc (notifynode ?h (node_setattr L ?h (snd (applykey L ?h (upd_node ?h (upd_fields e) mc)))))"
    using keeps_trans keeps_frame [OF applykey_frame] keeps_notify keeps_frame [OF node_setattr_frame] by metis
  then show ?thesis by (simp add: upd_end_def Let_def)
qed

lemma readusers_keeps:
  assumes "readusers mc p = Some (b, mc', p')"
  shows "keeps mc mc'"
proof -
  have e: "mc_nodes (enter_user el m) = mc_nodes m" for el m
    by (auto simp: enter_user_def notifyuser_def Let_def split: option.split prod.split)
  have "keeps mc m" if "obj_loop readuser mc q = Some (c, m, q')" for q c m q'
    by (rule obj_loop_keeps [where I = "keeps mc", OF that])
      (auto simp: readuser_def e split: if_splits intro: keeps_then)
  then show ?thesis using assms by (auto simp: readusers_def Let_def split: prod.splits if_splits)
qed

lemma share_end_nodes: "mc_nodes (snd (share_end L e mc)) = mc_nodes mc"
  by (auto simp: share_end_def Let_def split: option.splits prod.split if_splits dest!: decryptkey_nodes)

lemma sc_put_mc [simp]: "sc_mc (sc_put mc s) = mc" "sc_mc (sc_event ev s) = sc_mc s" "sc_mc (sc_upd f s) = f (sc_mc s)"
  by (simp_all add: sc_put_def sc_event_def sc_upd_def)

lemma sc_merge_keeps: "sc_mergenewshares E s = Some s' \<Longrightarrow> keeps (sc_mc s) (sc_mc s')"
  by (auto simp: sc_mergenewshares_def dest: keeps_mergenewshares)

lemma sc_updatenode_keeps: "sc_updatenode E s p = Some (s', p') \<Longrightarrow> keeps (sc_mc s) (sc_mc s')"
  by (auto simp: sc_updatenode_def keeps_upd_end split: if_splits)

lemma sc_deltree_keeps: "sc_deltree E s p = Some (s', p') \<Longrightarrow> keeps (sc_mc s) (sc_mc s')"
  by (auto simp: sc_deltree_def split: bind_splits scan_end.splits option.splits) (rule keeps_treedel, assumption)

lemma sc_fileattr_keeps: "sc_fileattr s p = Some (s', p') \<Longrightarrow> keeps (sc_mc s) (sc_mc s')"
proof -
  assume a: "sc_fileattr s p = Some (s', p')"
  have k: "keeps m (notifynode h (upd_node h (\<lambda>n. n\<lparr>n_fileattrstring := v, n_changed := g n\<rparr>) m))" for m h v g
    by (rule keeps_trans [OF keeps_upd keeps_notify]) simp
  have all: "z \<noteq> AtEOO \<Longrightarrow> z \<noteq> BadMember \<Longrightarrow> z \<noteq> Returned \<Longrightarrow> False" for z by (cases z) simp_all
  have "s' = s \<or> (\<exists>h v. s' = sc_upd (\<lambda>mc. notifynode h (upd_node h (\<lambda>n. n\<lparr>n_fileattrstring := v,
      n_changed := (n_changed n)\<lparr>ch_fileattrstring := True\<rparr>\<rparr>) mc)) s)"
    using a unfolding sc_fileattr_def by (auto split: scan_end.splits option.splits dest: all)
  then show ?thesis using k by auto
qed

lemma sc_shares_keeps: "sc_shares E s p = Some (r, s', p') \<Longrightarrow> keeps (sc_mc s) (sc_mc s')"
  using share_end_nodes
  by (auto simp: sc_shares_def Let_def split: if_splits prod.splits intro!: keeps_fields) (metis snd_conv)

lemma sc_contacts_keeps:
  assumes "sc_contacts s p = Some (s', p')"
  shows "keeps (sc_mc s) (sc_mc s')"
proof -
  obtain z where "scan (switch [(''u'', going sc_readusers)]) s p = Some (z, s', p')" using assms by (auto simp: sc_contacts_def)
  then show ?thesis
  proof (rule scan_keeps [where I = "\<lambda>t. keeps (sc_mc s) (sc_mc t)"])
    fix i f t q go t' q'
    assume "switch [(''u'', going sc_readusers)] i = Some f" and I: "keeps (sc_mc s) (sc_mc t)" and f: "f t q = Some (go, t', q')"
    then obtain b where "readusers (sc_mc t) q = Some (b, sc_mc t', q')"
      by (auto simp: switch_def going_def sc_readusers_def split: if_splits)
    then show "keeps (sc_mc s) (sc_mc t')" using keeps_trans [OF I readusers_keeps] by blast
  qed simp
qed

lemma ua_loop_mc: "ua_loop i s p = Some (s', p') \<Longrightarrow> sc_mc s' = sc_mc s"
proof -
  assume a: "ua_loop i s p = Some (s', p')"
  have "sc_mc (fst (s', p')) = sc_mc s"
  proof (rule ua_loop.raw_induct [where P = "\<lambda>i s p r. sc_mc (fst r) = sc_mc s", OF _ a], goal_cases)
    case (1 f i s p r)
    then show ?case by (auto split: prod.splits option.splits dest!: 1(1))
  qed
  then show ?thesis by simp
qed

lemma sc_userattr_keeps:
  assumes "sc_userattr s p = Some (s', p')"
  shows "sc_mc s' = sc_mc s"
proof -
  obtain z uh where "scan (switch [(''u'', rd_handle 8 (\<lambda>h e. (h, snd e))), (''ua'', sc_ua)]) (UNDEF, s) p = Some (z, (uh, s'), p')"
    using assms by (auto simp: sc_userattr_def)
  then have "sc_mc (snd (uh, s')) = sc_mc s"
    by (rule scan_keeps [where I = "\<lambda>t. sc_mc (snd t) = sc_mc s"])
      (auto simp: switch_def rd_handle_def sc_ua_def Let_def split: if_splits prod.splits option.splits dest!: ua_loop_mc)
  then show ?thesis by simp
qed

lemma sc_keys_keeps:
  assumes "sc_keys E s p = Some (s', p')" "tree_ok (sc_mc s)"
  shows "keeps (sc_mc s) (sc_mc s')"
proof -
  define rd where "rd = switch [(''sr'', ks_case (procsr (env_L E) (env_rnd E) (env_tagjunk E))), (''h'', ks_share), (''n'', ks_node),
      (''cr'', ks_case (proccr (env_L E) (env_crjunk E)))]"
  have sc: "keeps (sc_mc s) (sc_mc (ks_state e))" if "scan rd \<lparr>ks_state = s, ks_shares = [], ks_nodes = []\<rparr> p = Some (z, e, q)" for z e q
  proof (rule scan_keeps [where I = "\<lambda>e. keeps (sc_mc s) (sc_mc (ks_state e))", OF that])
    fix i f e p go e' p'
    assume "rd i = Some f" and I: "keeps (sc_mc s) (sc_mc (ks_state e))" and f: "f e p = Some (go, e', p')"
    then consider "f = ks_case (procsr (env_L E) (env_rnd E) (env_tagjunk E))" | "f = ks_share" | "f = ks_node" | "f = ks_case (proccr (env_L E) (env_crjunk E))"
      by (auto simp: rd_def switch_def split: if_splits)
    then show "keeps (sc_mc s) (sc_mc (ks_state e'))"
    proof cases
      case 1
      then show ?thesis using f I by (auto simp: ks_case_def sc_key_case_def dest!: procsr_keeps intro: keeps_trans)
    next
      case 4
      have t: "tree_ok (kr_mc (sc_kr (ks_state e)))" by (rule keeps_tree [OF I assms(2)])
      from 4 show ?thesis using f I by (auto simp: ks_case_def sc_key_case_def dest!: proccr_keeps [OF _ t] intro: keeps_trans)
    qed (use f I in \<open>auto simp: ks_share_def ks_node_def Let_def split: prod.splits if_splits option.splits\<close>)
  qed simp
  obtain z e where e: "scan rd \<lparr>ks_state = s, ks_shares = [], ks_nodes = []\<rparr> p = Some (z, e, p')"
    "z = AtEOO \<Longrightarrow> \<exists>kr q. cr_response (env_L E) (env_crjunk E) (map Some (ks_shares e)) (map Some (ks_nodes e)) None (sc_kr (ks_state e)) = Some (kr, q) \<and>
        s' = (ks_state e)\<lparr>sc_kr := kr\<rparr>" "z \<noteq> AtEOO \<Longrightarrow> s' = ks_state e"
    using assms(1) by (auto simp: sc_keys_def rd_def [symmetric] split: bind_splits if_splits)
  note k = sc [OF e(1)]
  show ?thesis
  proof (cases "z = AtEOO")
    case True
    obtain kr q where kr: "cr_response (env_L E) (env_crjunk E) (map Some (ks_shares e)) (map Some (ks_nodes e)) None (sc_kr (ks_state e)) = Some (kr, q)"
      "s' = (ks_state e)\<lparr>sc_kr := kr\<rparr>" using e(2) [OF True] by blast
    show ?thesis using keeps_trans [OF k keeps_shares [OF cr_response_links(1) [OF kr(1) keeps_tree [OF k assms(2)]]]] kr(2) by simp
  qed (use e(3) k in simp)
qed

text \<open>Only the announcement of new nodes changes links.\<close>

lemma sc_action_keeps:
  assumes "sc_action E name s p = Some (s', p')" "name \<noteq> MAKENAMEID ''t''" "tree_ok (sc_mc s)"
  shows "keeps (sc_mc s) (sc_mc s')"
proof -
  have sh: "keeps (sc_mc s) (sc_mc s')" if "sc_shares E s p = Some (r, s1, p1)" "sc_mergenewshares E s1 = Some s'" for r s1 p1
    by (rule keeps_trans [OF sc_shares_keeps [OF that(1)] sc_merge_keeps [OF that(2)]])
  consider "sc_updatenode E s p = Some (s', p')" | "sc_deltree E s p = Some (s', p')" | "sc_contacts s p = Some (s', p')"
    | "sc_keys E s p = Some (s', p')" | "sc_fileattr s p = Some (s', p')" | "sc_userattr s p = Some (s', p')" | "s' = s"
    | r s1 p1 where "sc_shares E s p = Some (r, s1, p1)" "if r then sc_mergenewshares E s1 = Some s' else s' = s1"
    using assms(1,2) unfolding sc_action_def by (auto split: if_splits bind_splits)
  then show ?thesis
  proof cases
    case 8
    then show ?thesis using sh sc_shares_keeps by (auto split: if_splits)
  qed (use sc_updatenode_keeps sc_deltree_keeps sc_contacts_keeps sc_keys_keeps [OF _ assms(3)] sc_fileattr_keeps sc_userattr_keeps in auto)
qed

end
