(* ===== verification/Packet_Texts.thy ===== *)
theory Packet_Texts
  imports Packet_Safety
begin

text \<open>
  Packets as JSON values: which part of the text each handler sees, which packets are ignored, and what some of them do.
\<close>

section \<open>The head of a packet\<close>

definition packet_json :: "string \<Rightarrow> (bytes \<times> json_value) list \<Rightarrow> json_value" where
  "packet_json name ms = JObj ((str ''a'', JStr (str name)) # ms)"

definition names :: "string set" where
  "names = {''u'', ''t'', ''d'', ''s'', ''c'', ''k'', ''fa'', ''ua''}"

lemma names_ok: "name \<in> names \<Longrightarrow> key_ok (str name) \<and> getnameid_at (str name) = MAKENAMEID name"
  by (auto simp: names_def key_ok_def str_def getnameid_at_def MAKENAMEID_def)

text \<open>The name of the action is read with \<open>getnameid\<close>, which skips the comma behind it.\<close>

lemma getnameid_name:
  assumes "key_ok k"
  shows "getnameid (pr_str k @ ch_comma # rest) = (getnameid_at k, rest)"
  using assms nameid_loop_quote [of k 0 "ch_comma # rest"] str_ok_no_quote [of k] str_ok_no_nul [of False k]
  by (auto simp: getnameid_def Let_def pr_str_def key_ok_def getnameid_at_def)

lemma packet_head:
  assumes "name \<in> names" "ms \<noteq> []" "list_all (\<lambda>(k, v). str_ok False k \<and> wf_json v) ms"
  shows "sc_packet E s (body (packet_json name ms) @ rest) =
    Option.bind (if self_made (sc_mc s) (body (JObj ms) @ rest) then Some (s, body (JObj ms) @ rest)
                 else sc_action E (MAKENAMEID name) s (body (JObj ms) @ rest))
      (\<lambda>(s1, p1). map_option (\<lambda>(_, p2). (True, s1, p2)) (leaveobject p1))"
proof -
  define q where "q = body (JObj ms) @ rest"
  have a: "key_ok (str ''a'')" "getnameid_at (str ''a'') = MAKENAMEID ''a''"
    by (simp_all add: key_ok_def str_def getnameid_at_def MAKENAMEID_def)
  have t: "body (packet_json name ms) @ rest = pr_str (str ''a'') @ ch_colon # pr_str (str name) @ ch_comma # q"
    using assms(2) by (cases ms) (simp_all add: packet_json_def q_def sep_Cons pr_member_def [of "(str ''a'', JStr (str name))"])
  have g: "getnameid (body (packet_json name ms) @ rest) = (MAKENAMEID ''a'', pr_str (str name) @ ch_comma # q)"
    unfolding t using getnameid_key [OF a(1)] a(2) by simp
  have g2: "getnameid (pr_str (str name) @ ch_comma # q) = (MAKENAMEID name, q)"
    using getnameid_name [of "str name"] names_ok [OF assms(1)] by simp
  show ?thesis unfolding sc_packet_def g q_def [symmetric] by (simp add: g2)
qed

lemma leave_members: "list_all (\<lambda>(k, v). str_ok False k \<and> wf_json v) ms \<Longrightarrow> leaveobject (body (JObj ms) @ rest) = Some (True, rest)"
  using leaveobject_all [of ms rest] by simp

section \<open>Packets of this client\<close>

definition session_member :: "megaclient \<Rightarrow> bytes \<times> json_value" where
  "session_member mc = (str ''i'', JStr (mc_sessionid mc))"

lemma self_made_member:
  "self_made mc (body (JObj (session_member mc # ms)) @ rest)"
proof -
  have "body (JObj (session_member mc # ms)) @ rest =
      [ch_quote] @ str ''i'' @ [ch_quote, ch_colon, ch_quote] @ mc_sessionid mc @ ch_quote # (case ms of [] \<Rightarrow> [] | _ \<Rightarrow> pr_rest ms) @ ch_rbrace # rest"
    by (cases ms) (simp_all add: session_member_def sep_Cons pr_member_def pr_str_def pr_rest_def comp_def)
  moreover have "drop (5 + n) (a # b # c # d # e # xs) = drop n xs" for n and a b c d e :: byte and xs by (simp add: numeral_eq_Suc)
  ultimately show ?thesis by (simp add: self_made_def str_def)
qed

lemma own_packet_ignored:
  assumes "name \<in> names" "str_ok False (mc_sessionid (sc_mc s))" "list_all (\<lambda>(k, v). str_ok False k \<and> wf_json v) ms"
  shows "sc_packet E s (body (packet_json name (session_member (sc_mc s) # ms)) @ rest) = Some (True, s, rest)"
proof -
  have ok: "list_all (\<lambda>(k, v). str_ok False k \<and> wf_json v) (session_member (sc_mc s) # ms)"
    using assms(2,3) by (simp add: session_member_def str_def)
  show ?thesis
    using packet_head [OF assms(1) _ ok, of E s rest] self_made_member [of "sc_mc s" ms rest] leave_members [OF ok, of rest]
    by (simp del: body.simps)
qed

text \<open>A whole list of packets that this client caused.\<close>

definition own_packet :: "megaclient \<Rightarrow> string \<times> (bytes \<times> json_value) list \<Rightarrow> json_value" where
  "own_packet mc x = packet_json (fst x) (session_member mc # snd x)"

lemma own_packets_ignored:
  assumes "list_all (\<lambda>(name, ms). name \<in> names \<and> list_all (\<lambda>(k, v). str_ok False k \<and> wf_json v) ms) xs" "str_ok False (mc_sessionid (sc_mc s))"
  shows "sc_packets E s (pr (JArr (map (own_packet (sc_mc s)) xs)) @ rest) = Some (s, rest)"
proof -
  define f where "f x = (str ''a'', JStr (str (fst x))) # session_member (sc_mc s) # snd x" for x :: "string \<times> (bytes \<times> json_value) list"
  have f: "own_packet (sc_mc s) = (\<lambda>x. JObj (f x))" by (simp add: f_def own_packet_def packet_json_def fun_eq_iff)
  define p where "p = sep (map pr (map (\<lambda>x. JObj (f x)) xs)) @ ch_rbrack # rest"
  have "\<exists>s'. obj_loop (sc_packet E) s p = Some (True, s', ch_rbrack # rest) \<and> s' = s"
  proof (rule obj_loop_elems [where f = f and I = "\<lambda>_ t. t = s" and ys = "[]" and zs = xs])
    show "\<exists>s' q. sc_packet E t (body (JObj (f x)) @ r) = Some (True, s', q) \<and> (q = r \<or> q = ch_rbrace # r) \<and> s' = s"
      if "xs = ys @ x # zs" "t = s" for ys x zs t r
      using own_packet_ignored [of "fst x" s "snd x" E r] assms that by (simp add: f_def packet_json_def case_prod_beta del: body.simps)
    show "p = commas (map (\<lambda>x. JObj (f x)) xs) @ ch_rbrack # rest \<or> p = ch_rbrace # commas (map (\<lambda>x. JObj (f x)) xs) @ ch_rbrack # rest \<or>
      (xs \<noteq> [] \<and> p = tl (commas (map (\<lambda>x. JObj (f x)) xs) @ ch_rbrack # rest))"
      using array_text [of "map (\<lambda>x. JObj (f x)) xs" rest] by (simp add: p_def del: pr.simps)
  qed simp_all
  moreover have "enterarray (pr (JArr (map (own_packet (sc_mc s)) xs)) @ rest) = (True, p)"
    by (simp add: enterarray_def skip_char_def p_def f del: pr.simps) (simp add: comp_def)
  ultimately show ?thesis by (simp add: sc_packets_def leavearray_def del: pr.simps)
qed

section \<open>Deletions\<close>

lemma rd_node_reads:
  assumes "take_bit 48 h = h"
  shows "reads id (rd_node mc (\<lambda>n _. n)) (handle_json 6 h) (\<lambda>_. node_ptr mc h)"
  by (rule readsI) (use assms gethandle_btoa [of 6 h] small_handle [OF assms] in \<open>simp add: rd_node_def handle_json_def del: pr.simps\<close>)

lemma sc_deltree_text:
  assumes h: "take_bit 48 h = h" and n: "nodebyhandle (sc_mc s) h \<noteq> None"
  shows "sc_deltree E s (body (JObj [(str ''n'', handle_json 6 h)]) @ rest) =
    map_option (\<lambda>mc. (sc_put mc s, ch_rbrace # rest)) (proctree (env_k E) id treedel h (sc_mc s))"
proof -
  have e: "list_all2 (member_effect id (switch [(''n'', rd_node (sc_mc s) (\<lambda>n _. n))])) [(str ''n'', handle_json 6 h)] [\<lambda>_. node_ptr (sc_mc s) h]"
    using rd_node_reads [OF h, of "sc_mc s"]
    by (auto intro!: member_effectI simp: switch_def MAKENAMEID_def) (simp add: handle_json_def str_ok_btoa)
  show ?thesis
    using scan_object [OF e, of None rest] n by (auto simp: sc_deltree_def node_ptr_def simp del: body.simps)
qed

text \<open>One member of an object, read by its case in the state at hand.\<close>

lemma scan_step:
  assumes "key_ok k" "rd (getnameid_at k) = Some f" "f s (pr v @ rest) = Some (True, s', rest)"
    and "p = pr_member (k, v) @ rest \<or> p = ch_comma # pr_member (k, v) @ rest"
  shows "scan rd s p = scan rd s' rest"
proof -
  have "getnameid p = (getnameid_at k, pr v @ rest)" using getnameid_key [OF assms(1), of p "pr v @ rest"] assms(4) by (auto simp: pr_member_def)
  then show ?thesis using assms(1-3) by (subst scan.simps) (simp add: key_ok_def)
qed

text \<open>A list of packets of the server, with the sequence number behind it.\<close>

definition sc_json :: "json_value list \<Rightarrow> bytes \<Rightarrow> json_value" where
  "sc_json vs sn = JObj [(str ''a'', JArr vs), (str ''sn'', JStr (btoa sn))]"

lemma sc_case_names:
  "key_ok (str ''a'')" "switch (sc_cases E) (getnameid_at (str ''a'')) = Some (going (sc_packets E))"
  "key_ok (str ''sn'')" "switch (sc_cases E) (getnameid_at (str ''sn'')) = Some (\<lambda>s p. let (v, p1) = setscsn (sc_scsn s) p in Some (True, s\<lparr>sc_scsn := v\<rparr>, p1))"
  by (simp_all add: key_ok_def str_def getnameid_at_def switch_def sc_cases_def MAKENAMEID_def)

lemma procsc_text:
  assumes "length sn = 8" "\<And>q. sc_packets E s (pr (JArr vs) @ q) = Some (s1, q)"
  shows "procsc E s (pr (sc_json vs sn) @ rest) = map_option (\<lambda>s2. (s2, ch_rbrace # rest)) (sc_finish E (s1\<lparr>sc_scsn := btoa sn\<rparr>))"
proof -
  define q where "q = ch_rbrace # rest"
  define p2 where "p2 = ch_comma # pr_member (str ''sn'', JStr (btoa sn)) @ q"
  have eo: "snd (enterobject (pr (sc_json vs sn) @ rest)) = pr_member (str ''a'', JArr vs) @ p2"
    by (simp add: enterobject_def skip_char_def sc_json_def pr_member_def p2_def q_def)
  have 1: "going (sc_packets E) s (pr (JArr vs) @ p2) = Some (True, s1, p2)" using assms(2) [of p2] by (simp add: going_def)
  have "setscsn (sc_scsn s1) (pr (JStr (btoa sn)) @ q) = (btoa sn, q)"
    using storebinary_btoa [of 8 sn q] assms(1) by (simp add: setscsn_def del: pr.simps)
  then have 2: "(\<lambda>s p. let (v, p1) = setscsn (sc_scsn s) p in Some (True, s\<lparr>sc_scsn := v\<rparr>, p1)) s1 (pr (JStr (btoa sn)) @ q) =
      Some (True, s1\<lparr>sc_scsn := btoa sn\<rparr>, q)" by (simp del: pr.simps)
  have "scan (switch (sc_cases E)) s (pr_member (str ''a'', JArr vs) @ p2) = scan (switch (sc_cases E)) s1 p2"
    by (rule scan_step [where rd = "switch (sc_cases E)", OF sc_case_names(1,2) 1]) simp
  also have "\<dots> = scan (switch (sc_cases E)) (s1\<lparr>sc_scsn := btoa sn\<rparr>) q"
    by (rule scan_step [where rd = "switch (sc_cases E)", OF sc_case_names(3,4) 2]) (simp add: p2_def)
  finally show ?thesis unfolding procsc_def eo by (simp add: scan_end q_def)
qed

lemma sc_packets_one:
  assumes "\<And>r. sc_packet E s (body (JObj ms) @ r) = Some (True, s1, r)"
  shows "sc_packets E s (pr (JArr [JObj ms]) @ q) = Some (s1, q)"
proof -
  have e: "enterarray (pr (JArr [JObj ms]) @ q) = (True, pr (JObj ms) @ ch_rbrack # q)"
    by (simp add: enterarray_def skip_char_def)
  have "enterobject (pr (JObj ms) @ ch_rbrack # q) = (True, body (JObj ms) @ ch_rbrack # q)"
    by (simp add: enterobject_def skip_char_def pr_member_def [abs_def] case_prod_beta')
  moreover have "enterobject (ch_rbrack # q) = (False, ch_rbrack # q)" by (simp add: enterobject_def skip_char_def)
  ultimately have "obj_loop (sc_packet E) s (pr (JObj ms) @ ch_rbrack # q) = Some (True, s1, ch_rbrack # q)"
    using assms [of "ch_rbrack # q"] by (subst obj_loop.simps, simp del: pr.simps body.simps, subst obj_loop.simps, simp del: pr.simps body.simps)
  then show ?thesis by (simp add: sc_packets_def e leavearray_def del: pr.simps)
qed

lemma not_self_made: "k \<noteq> str ''i'' \<Longrightarrow> length k = 1 \<Longrightarrow> \<not> self_made mc (body (JObj ((k, v) # ms)) @ rest)"
  by (cases k) (auto simp: self_made_def sep_Cons pr_member_def pr_str_def str_def)

definition delete_packet :: "handle \<Rightarrow> json_value" where
  "delete_packet h = packet_json ''d'' [(str ''n'', handle_json 6 h)]"

lemma delete_packet_runs:
  assumes "take_bit 48 h = h" "nodebyhandle (sc_mc s) h \<noteq> None" "proctree (env_k E) id treedel h (sc_mc s) = Some mc'"
  shows "sc_packets E s (pr (JArr [delete_packet h]) @ q) = Some (sc_put mc' s, q)"
proof -
  let ?ms = "[(str ''n'', handle_json 6 h)]"
  have ok: "list_all (\<lambda>(k, v). str_ok False k \<and> wf_json v) ?ms" by (simp add: str_def handle_json_def str_ok_btoa)
  have act: "sc_action E (MAKENAMEID ''d'') s p = sc_deltree E s p" for p by (simp add: sc_action_def MAKENAMEID_def)
  have ns: "\<not> self_made (sc_mc s) (body (JObj ?ms) @ r)" for r by (rule not_self_made) (simp_all add: str_def)
  have "sc_packet E s (body (delete_packet h) @ r) = Some (True, sc_put mc' s, r)" for r
    unfolding delete_packet_def
    by (subst packet_head [OF _ _ ok])
      (use ns [of r] act sc_deltree_text [OF assms(1,2), of E r] assms(3) leaveobject_end [of r] in \<open>simp_all add: names_def del: body.simps\<close>)
  then show ?thesis using sc_packets_one [of E s "(str ''a'', JStr (str ''d'')) # ?ms"] by (simp add: delete_packet_def packet_json_def)
qed

lemma sc_finish_no_shares:
  assumes "mc_newshares (sc_mc s) = []"
  shows "\<exists>s'. sc_finish E s = Some s' \<and> same_frame (sc_mc s) (sc_mc s') \<and> sc_scsn s' = sc_scsn s"
proof -
  define mc where "mc = (sc_mc s)\<lparr>mc_newshares := []\<rparr>"
  have m: "sc_mergenewshares E s = Some (sc_put mc s)" using assms by (simp add: sc_mergenewshares_def mergenewshares_def mc_def)
  have "same_frame (sc_mc s) mc" by (rule same_frame_fields) (simp add: mc_def)
  then have "same_frame (sc_mc s) (snd (snd (applykeys (env_L E) mc)))" by (rule same_frame_trans [OF _ applykeys_frame])
  then show ?thesis using m by (auto simp: sc_finish_def sc_put_def split: prod.split)
qed

lemma treedel_newshares: "mc_newshares (treedel h mc) = mc_newshares mc"
proof -
  have u: "mc_newshares (upd_node h f m) = mc_newshares m" "mc_newshares (upd_local l g m) = mc_newshares m" for h f l g m
    by (simp_all add: upd_node_def upd_local_def split: option.split)
  show ?thesis by (simp add: treedel_def notifynode_def notify_local_def Let_def u split: option.split)
qed

lemma procsc_delete:
  assumes t: "links_ok (sc_mc s)" "ranked rk d (sc_mc s)" "d \<le> env_k E" and h: "take_bit 48 h = h" "nodebyhandle (sc_mc s) h \<noteq> None"
    and ns: "mc_newshares (sc_mc s) = []" and sn: "length sn = 8"
  shows "\<exists>s'. procsc E s (pr (sc_json [delete_packet h] sn) @ rest) = Some (s', ch_rbrace # rest) \<and> sc_scsn s' = btoa sn \<and>
    same_tree (sc_mc s) (sc_mc s') \<and>
    (\<forall>x n. nodebyhandle (sc_mc s) x = Some n \<longrightarrow> (\<exists>n'. nodebyhandle (sc_mc s') x = Some n' \<and> n_removed n' = (n_removed n \<or> under (sc_mc s) h x)))"
proof -
  obtain mc' where mc': "proctree (env_k E) id treedel h (sc_mc s) = Some mc'" using treedel_tree [OF t h(2)] by blast
  have n0: "mc_newshares mc' = []"
    by (rule proctree_keeps [where P = "\<lambda>m. mc_newshares m = []", OF _ ns mc']) (simp add: treedel_newshares)
  define s1 where "s1 = (sc_put mc' s)\<lparr>sc_scsn := btoa sn\<rparr>"
  have s1: "sc_mc s1 = mc'" "sc_scsn s1 = btoa sn" by (simp_all add: s1_def sc_put_def)
  obtain s' where s': "sc_finish E s1 = Some s'" "same_frame mc' (sc_mc s')" "sc_scsn s' = btoa sn"
    using sc_finish_no_shares [of s1 E] s1 n0 by auto
  have p: "procsc E s (pr (sc_json [delete_packet h] sn) @ rest) = Some (s', ch_rbrace # rest)"
    using procsc_text [OF sn delete_packet_runs [OF h mc'], of rest] s'(1) by (simp add: s1_def)
  have "\<exists>n'. nodebyhandle (sc_mc s') x = Some n' \<and> n_removed n' = (n_removed n \<or> under (sc_mc s) h x)" if xn: "nodebyhandle (sc_mc s) x = Some n" for x n
  proof -
    obtain n1 where n1: "nodebyhandle mc' x = Some n1" "n_removed n1 = (n_removed n \<or> under (sc_mc s) h x)"
      using treedel_marks [OF t h(2) xn] mc' by auto
    then show ?thesis using same_frameD [OF s'(2) n1(1)] by (auto dest: key_frame_fields)
  qed
  moreover have "keeps (sc_mc s) (sc_mc s')" by (rule keeps_trans [OF keeps_treedel [OF mc'] keeps_frame [OF s'(2)]])
  ultimately show ?thesis using p s'(3) by (auto simp: keeps_def)
qed

section \<open>Key requests\<close>

lemma gethandle_at:
  assumes "take_bit 48 h = h"
  shows "gethandle 6 (pr (handle_json 6 h) @ rest) = (h, rest)" "gethandle 6 (ch_comma # pr (handle_json 6 h) @ rest) = (h, rest)"
proof -
  show 1: "gethandle 6 (pr (handle_json 6 h) @ rest) = (h, rest)"
    using gethandle_btoa [of 6 h rest] assms by (simp add: handle_json_def del: pr.simps)
  have "gethandle 6 (ch_comma # pr (handle_json 6 h) @ rest) = gethandle 6 (pr (handle_json 6 h) @ rest)"
    by (simp add: gethandle_def storebinary_buf_def skip_char_def handle_json_def pr_str_def)
  then show "gethandle 6 (ch_comma # pr (handle_json 6 h) @ rest) = (h, rest)" using 1 by simp
qed

lemma known_handles_text:
  assumes "list_all (\<lambda>h. take_bit 48 h = h \<and> nodebyhandle mc h \<noteq> None) hs"
    and "p = commas (map (handle_json 6) hs) @ ch_rbrack # rest \<or> (hs \<noteq> [] \<and> p = tl (commas (map (handle_json 6) hs) @ ch_rbrack # rest))"
  shows "known_handles mc p = Some (hs, ch_rbrack # rest)"
  using assms
proof (induction hs arbitrary: p)
  case Nil
  then have "gethandle 6 p = (UNDEF, p)" by (simp add: commas_def gethandle_def storebinary_buf_def skip_char_def)
  then show ?case using Nil by (subst known_handles.simps) (simp add: commas_def ISUNDEF_iff)
next
  case (Cons h hs)
  define q where "q = commas (map (handle_json 6) hs) @ ch_rbrack # rest"
  have h: "take_bit 48 h = h" "nodebyhandle mc h \<noteq> None" using Cons.prems(1) by simp_all
  have "p = ch_comma # pr (handle_json 6 h) @ q \<or> p = pr (handle_json 6 h) @ q"
    using Cons.prems(2) by (auto simp: commas_def q_def)
  then have "gethandle 6 p = (h, q)" using gethandle_at [OF h(1), of q] by auto
  moreover have "known_handles mc q = Some (hs, ch_rbrack # rest)" using Cons.IH [of q] Cons.prems(1) by (simp add: q_def)
  ultimately show ?case using h small_handle [OF h(1)] by (subst known_handles.simps) simp
qed

definition handles_json :: "handle list \<Rightarrow> json_value" where
  "handles_json hs = JArr (map (handle_json 6) hs)"

lemma ks_node_text:
  assumes "list_all (\<lambda>h. take_bit 48 h = h \<and> nodebyhandle (sc_mc (ks_state e)) h \<noteq> None) hs"
  shows "ks_node e (pr (handles_json hs) @ rest) = Some (True, e\<lparr>ks_nodes := ks_nodes e @ hs\<rparr>, rest)"
proof -
  define p where "p = sep (map pr (map (handle_json 6) hs)) @ ch_rbrack # rest"
  have ea: "enterarray (pr (handles_json hs) @ rest) = (True, p)" by (simp add: handles_json_def enterarray_def skip_char_def p_def)
  have "known_handles (sc_mc (ks_state e)) p = Some (hs, ch_rbrack # rest)"
    by (rule known_handles_text [OF assms]) (cases hs; simp add: p_def commas_def sep_Cons comp_def del: pr.simps)
  then show ?thesis by (simp add: ks_node_def ea leavearray_def del: pr.simps)
qed

lemma ks_share_text:
  assumes "take_bit 48 h = h" "own_share (sc_mc (ks_state e)) h k"
  shows "ks_share e (pr (handle_json 6 h) @ rest) = Some (True, e\<lparr>ks_shares := ks_shares e @ [h]\<rparr>, rest)"
  using assms gethandle_at(1) [OF assms(1), of rest] small_handle [OF assms(1)] by (auto simp: ks_share_def own_share_def Let_def)

lemma ks_names:
  "key_ok (str ''h'')" "getnameid_at (str ''h'') = MAKENAMEID ''h''" "key_ok (str ''n'')" "getnameid_at (str ''n'') = MAKENAMEID ''n''"
  by (simp_all add: key_ok_def str_def getnameid_at_def MAKENAMEID_def)

text \<open>The packet \<open>h\<close> (shares), \<open>n\<close> (nodes): all keys of these nodes are asked for.\<close>

definition request_members :: "handle list \<Rightarrow> handle list \<Rightarrow> (bytes \<times> json_value) list" where
  "request_members shs hs = map (\<lambda>h. (str ''h'', handle_json 6 h)) shs @ [(str ''n'', handles_json hs)]"

lemma sc_keys_text:
  assumes sh: "list_all (\<lambda>h. take_bit 48 h = h \<and> (\<exists>k. own_share (sc_mc s) h k)) shs"
    and n: "list_all (\<lambda>h. take_bit 48 h = h \<and> nodebyhandle (sc_mc s) h \<noteq> None) hs"
  shows "sc_keys E s (body (JObj (request_members shs hs)) @ rest) =
    map_option (\<lambda>(kr, _). (s\<lparr>sc_kr := kr\<rparr>, ch_rbrace # rest)) (cr_response (env_L E) (env_crjunk E) (map Some shs) (map Some hs) None (sc_kr s))"
proof -
  define rd where "rd = switch [(''sr'', ks_case (procsr (env_L E) (env_rnd E) (env_tagjunk E))), (''h'', ks_share), (''n'', ks_node),
      (''cr'', ks_case (proccr (env_L E) (env_crjunk E)))]"
  have rd: "rd (getnameid_at (str ''h'')) = Some ks_share" "rd (getnameid_at (str ''n'')) = Some ks_node"
    by (simp_all add: rd_def switch_def MAKENAMEID_def ks_names)
  define q where "q = ch_rbrace # rest"
  define st where "st xs = \<lparr>ks_state = s, ks_shares = xs, ks_nodes = []\<rparr>" for xs
  have last: "scan rd (st xs) p = Some (AtEOO, (st xs)\<lparr>ks_nodes := hs\<rparr>, q)"
    if "p = pr_member (str ''n'', handles_json hs) @ q \<or> p = ch_comma # pr_member (str ''n'', handles_json hs) @ q" for p xs
  proof -
    have "scan rd (st xs) p = scan rd ((st xs)\<lparr>ks_nodes := hs\<rparr>) q"
      by (rule scan_step [where rd = rd, OF ks_names(3) rd(2) _ that]) (use ks_node_text [of "st xs" hs q] n in \<open>simp add: st_def\<close>)
    then show ?thesis by (simp add: q_def scan_end)
  qed
  have "scan rd (st xs) p = Some (AtEOO, (st (xs @ shs))\<lparr>ks_nodes := hs\<rparr>, q)"
    if "list_all (\<lambda>h. take_bit 48 h = h \<and> (\<exists>k. own_share (sc_mc s) h k)) shs"
      "p = sep (map pr_member (request_members shs hs)) @ q \<or> p = ch_comma # sep (map pr_member (request_members shs hs)) @ q" for p xs shs
    using that
  proof (induction shs arbitrary: p xs)
    case Nil
    then show ?case using last [of p xs] by (simp add: request_members_def)
  next
    case (Cons h shs)
    define q1 where "q1 = ch_comma # sep (map pr_member (request_members shs hs)) @ q"
    obtain k where h: "take_bit 48 h = h" "own_share (sc_mc s) h k" using Cons.prems(1) by auto
    have p: "p = pr_member (str ''h'', handle_json 6 h) @ q1 \<or> p = ch_comma # pr_member (str ''h'', handle_json 6 h) @ q1"
    proof -
      obtain m ms where m: "request_members shs hs = m # ms" by (cases "request_members shs hs") (auto simp: request_members_def)
      have "request_members (h # shs) hs = (str ''h'', handle_json 6 h) # m # ms" using m by (simp add: request_members_def)
      then show ?thesis using Cons.prems(2) by (auto simp: q1_def m sep_Cons)
    qed
    have "scan rd (st xs) p = scan rd (st (xs @ [h])) q1"
      by (rule scan_step [where rd = rd, OF ks_names(1) rd(1) _ p]) (use ks_share_text [OF h(1), of "st xs" k q1] h(2) in \<open>simp add: st_def\<close>)
    also have "\<dots> = Some (AtEOO, (st ((xs @ [h]) @ shs))\<lparr>ks_nodes := hs\<rparr>, q)"
      by (rule Cons.IH) (use Cons.prems(1) in \<open>simp_all add: q1_def\<close>)
    finally show ?case by simp
  qed
  from this [OF sh, of "body (JObj (request_members shs hs)) @ rest" "[]"]
  have "scan rd \<lparr>ks_state = s, ks_shares = [], ks_nodes = []\<rparr> (body (JObj (request_members shs hs)) @ rest) =
      Some (AtEOO, \<lparr>ks_state = s, ks_shares = shs, ks_nodes = hs\<rparr>, ch_rbrace # rest)" by (simp add: st_def q_def)
  then show ?thesis unfolding sc_keys_def rd_def [symmetric] by simp
qed

text \<open>One share and one node: no response. No share and two nodes: an access behind the end of the vector.\<close>

lemma cr_response_single: "cr_response L junk [sh] [h] None s = Some (s, [])"
  using cr_response_pairs [of "[sh]" "[h]" L junk s] by (simp add: cr_done_def cr_start_def)

lemma cr_response_no_share: "cr_response L junk [] (h1 # h2 # hs) None s = None"
  by (simp add: cr_response_def) (subst cr_all.simps, simp)

section \<open>Share keys without authentication\<close>

text \<open>The packet \<open>n\<close> (node), \<open>k\<close> (key) is meant for inbound shares; nothing checks that the node belongs to one.\<close>

definition key_members :: "handle \<Rightarrow> bytes \<Rightarrow> (bytes \<times> json_value) list" where
  "key_members h c = [(str ''n'', handle_json 6 h), (str ''k'', JStr (btoa c))]"

lemma decryptkey_text:
  assumes "length c = 16"
  shows "decryptkey L (btoa c @ ch_quote # r) 16 sc ty h mc = (Some (ecb_decrypt (lib_aes L) sc c), mc)"
proof -
  have a: "atob (btoa c @ ch_quote # r) 16 = c"
    unfolding atob_def using atob_loop_btoa [of "ch_quote # r" "[]" 16 c] assms by (simp add: from64_def)
  define sl where "sl = length (takeWhile (\<lambda>c. c \<noteq> 0 \<and> c \<noteq> ch_quote \<and> c \<noteq> ch_slash) (btoa c @ ch_quote # r))"
  have t: "length (takeWhile P (xs @ ch_quote # r)) \<le> length xs" if "\<not> P ch_quote" for P and xs :: bytes
    using that length_takeWhile_le [of P xs] by (simp add: takeWhile_append)
  have "sl \<le> length (btoa c)" unfolding sl_def by (rule t) simp
  then have "\<not> sl > 4 * 32 div 3 + 1" using assms by (simp add: length_btoa)
  then show ?thesis unfolding decryptkey_def sl_def [symmetric] Let_def a using assms by simp
qed

lemma share_case_names:
  "switch share_cases (getnameid_at (str ''n'')) = Some (rd_handle 6 (\<lambda>h e. e\<lparr>se_h := h\<rparr>))"
  "key_ok (str ''k'')" "switch share_cases (getnameid_at (str ''k'')) = Some (rd_value (\<lambda>v e. e\<lparr>se_k := Some v\<rparr>))"
  by (simp_all add: key_ok_def str_def getnameid_at_def switch_def share_cases_def MAKENAMEID_def)

lemma sc_shares_key:
  assumes "take_bit 48 h = h"
  shows "sc_shares E s (body (JObj (key_members h c)) @ rest) =
    (let (r, mc) = share_end (env_L E) \<lparr>se_h = h, se_oh = UNDEF, se_uh = UNDEF, se_k = Some (btoa c @ ch_quote # ch_rbrace # rest), se_ok = None, se_ha = None,
         se_r = ACCESS_UNKNOWN, se_ts = 0\<rparr> (sc_mc s)
     in Some (r, sc_put mc s, ch_rbrace # rest))"
proof -
  define e0 where "e0 = \<lparr>se_h = UNDEF, se_oh = UNDEF, se_uh = UNDEF, se_k = None, se_ok = None, se_ha = None, se_r = ACCESS_UNKNOWN, se_ts = 0\<rparr>"
  define q where "q = ch_rbrace # rest"
  define p1 where "p1 = ch_comma # pr_member (str ''k'', JStr (btoa c)) @ q"
  have b: "body (JObj (key_members h c)) @ rest = pr_member (str ''n'', handle_json 6 h) @ p1" by (simp add: key_members_def p1_def q_def)
  have 1: "rd_handle 6 (\<lambda>h e. e\<lparr>se_h := h\<rparr>) e0 (pr (handle_json 6 h) @ p1) = Some (True, e0\<lparr>se_h := h\<rparr>, p1)"
    using gethandle_at(1) [OF assms, of p1] by (simp add: rd_handle_def)
  have 2: "rd_value (\<lambda>v e. e\<lparr>se_k := Some v\<rparr>) (e0\<lparr>se_h := h\<rparr>) (pr (JStr (btoa c)) @ q) = Some (True, e0\<lparr>se_h := h, se_k := Some (btoa c @ ch_quote # q)\<rparr>, q)"
    using storeobject_pr_str [OF str_ok_btoa, of c q] by (simp add: rd_value_def getvalue_def pr_str_def)
  have "scan (switch share_cases) e0 (body (JObj (key_members h c)) @ rest) = scan (switch share_cases) (e0\<lparr>se_h := h\<rparr>) p1"
    unfolding b by (rule scan_step [where rd = "switch share_cases", OF ks_names(3) share_case_names(1) 1]) simp
  also have "\<dots> = scan (switch share_cases) (e0\<lparr>se_h := h, se_k := Some (btoa c @ ch_quote # q)\<rparr>) q"
    by (rule scan_step [where rd = "switch share_cases", OF share_case_names(2,3) 2]) (simp add: p1_def)
  finally show ?thesis
    unfolding sc_shares_def e0_def [symmetric] by (simp add: scan_end q_def) (simp add: e0_def Let_def split: prod.split)
qed

lemma share_key_planted:
  assumes h: "take_bit 48 h = h" and n: "nodebyhandle (sc_mc s) h = Some n" "n_sharekey n = None" and c: "length c = 16"
    and full: "loggedin (env_L E) (sc_mc s) = FULLACCOUNT" and ns: "mc_newshares (sc_mc s) = []"
  shows "sc_action E (MAKENAMEID ''s'') s (body (JObj (key_members h c)) @ rest) =
    Some (sc_put (upd_node h (\<lambda>n. n\<lparr>n_sharekey := Some (symm_setkey (take 16 (ecb_decrypt (lib_aes (env_L E)) (mc_key (sc_mc s)) c)) 1 symm_new)\<rparr>) (sc_mc s)) s, ch_rbrace # rest)"
proof -
  define key0 where "key0 = ecb_decrypt (lib_aes (env_L E)) (mc_key (sc_mc s)) c"
  define key where "key = take 16 key0"
  define sh where "sh = NewShare h 0 UNDEF ACCESS_UNKNOWN 0 (Some key0) None"
  define mc1 where "mc1 = (sc_mc s)\<lparr>mc_newshares := [sh]\<rparr>"
  have me: "mc_me (sc_mc s) \<noteq> UNDEF" using full by (auto simp: loggedin_def ISUNDEF_iff split: if_splits)
  have se: "share_end (env_L E) \<lparr>se_h = h, se_oh = UNDEF, se_uh = UNDEF, se_k = Some (btoa c @ ch_quote # ch_rbrace # rest), se_ok = None, se_ha = None,
         se_r = ACCESS_UNKNOWN, se_ts = 0\<rparr> (sc_mc s) = (True, mc1)"
    using full small_handle [OF h] ns
    by (simp add: share_end_def decryptkey_text [OF c] ISUNDEF_iff mc1_def sh_def key0_def)
  have sf: "ns_h sh = h" "ns_outgoing sh = 0" "ns_peer sh = UNDEF" "ns_access sh = ACCESS_UNKNOWN" "ns_key sh = Some key"
    by (simp_all add: sh_def NewShare_def key_def)
  have n1: "nodebyhandle mc1 h = Some n" using n(1) by (simp add: mc1_def nodebyhandle_def)
  have mk: "merge_newshare L k True junk sh mc1 = Some (upd_node h (\<lambda>n. n\<lparr>n_sharekey := Some (symm_setkey key 1 symm_new)\<rparr>) mc1)" for L k junk
    using n1 n(2) by (simp add: merge_newshare_def sf merge_key_def merge_auth_def merge_share_def ISUNDEF_iff)
  have "(upd_node h f mc1)\<lparr>mc_newshares := []\<rparr> = upd_node h f (sc_mc s)" for f
    using ns by (simp add: upd_node_def mc1_def split: option.split)
  then have "mergenewshares (env_L E) (env_k E) True (env_authjunk E) mc1 = Some (upd_node h (\<lambda>n. n\<lparr>n_sharekey := Some (symm_setkey key 1 symm_new)\<rparr>) (sc_mc s))"
    by (simp add: mergenewshares_def mk) (simp add: mc1_def mk [unfolded mc1_def])
  moreover have "sc_action E (MAKENAMEID ''s'') s p = Option.bind (sc_shares E s p)
      (\<lambda>(r, s1, p1). if r then map_option (\<lambda>s2. (s2, p1)) (sc_mergenewshares E s1) else Some (s1, p1))" for p
    by (simp add: sc_action_def MAKENAMEID_def)
  ultimately show ?thesis
    using sc_shares_key [OF h, of E s c rest] se by (simp add: sc_mergenewshares_def sc_put_def key_def key0_def del: body.simps)
qed

section \<open>Keys for unknown nodes\<close>

lemma node_setattr_nodekey: "map_option n_nodekey (nodebyhandle (node_setattr L h mc) x) = map_option n_nodekey (nodebyhandle mc x)"
proof -
  have u: "map_option n_nodekey (nodebyhandle (upd_node h f m) x) = map_option n_nodekey (nodebyhandle m x)"
    if "\<And>n. n_nodekey (f n) = n_nodekey n" for f m
    using that by (simp add: upd_node_lookup option.map_comp comp_def)
  have "map_option n_nodekey (nodebyhandle (setfingerprint h m) x) = map_option n_nodekey (nodebyhandle m x)" for m
    using u [where f = "\<lambda>n. n\<lparr>n_fp := fp, n_infps := True\<rparr>" for fp]
    by (simp add: setfingerprint_def Let_def nodebyhandle_def split: option.split)
  then show ?thesis by (simp add: node_setattr_def Let_def u split: option.split)
qed

text \<open>The key in a selector belongs to a node that the client does not know; the node of the next pair gets it.\<close>

lemma stray_key_taken:
  assumes t: "tree_ok (kr_mc s)" and o: "own_share (kr_mc s) sh k" and u: "under (kr_mc s) sh h" and n: "nodebyhandle (kr_mc s) h = Some n"
    and c: "length c = length (n_nodekey n)" "length c = keylength (n_type n)" and a: "aes_ok (lib_aes L)" and r: "cur rest \<noteq> ch_quote"
  shows "\<exists>s' n'. cr_response L junk [Some sh] [None, Some h] (Some (stray_selector c @ ch_rbrack # rest)) s = Some (s', ch_rbrack # rest) \<and>
    kr_calls s' = kr_calls s \<and> nodebyhandle (kr_mc s') h = Some n' \<and> n_nodekey n' = ecb_decrypt (lib_aes L) k c"
proof -
  define mc where "mc = kr_mc s"
  define st where "st = (cr_start junk mc)\<lparr>cr_keybuf := put_front c junk, cr_setkey := int (length c)\<rparr>"
  define buf where "buf = put_front (ecb_decrypt (lib_aes L) k c) (put_front c junk)"
  define st' where "st' = st\<lparr>cr_mc := node_setkey L (Some buf) h mc, cr_keybuf := buf, cr_setkey := -1\<rparr>"
  obtain m where m: "nodebyhandle mc sh = Some m" "n_inshare m = None" "n_sharekey m = Some k" using o by (auto simp: own_share_def mc_def)
  have b: "isbelow mc (Some h) sh = Some True" using isbelow_under [of mc _ _ h sh] t n u by (auto simp: tree_ok_def mc_def)
  have own: "map (cr_own mc) [Some sh] = [Some sh]" using m by (simp add: cr_own_def)
  have tk: "take (length (n_nodekey n)) (put_front c junk) = c" using c(1) by (simp add: put_front_def)
  have "cr_setnode L k h n st = st'" using c(1) tk by (simp add: cr_setnode_def st_def st'_def buf_def cr_start_def Let_def)
  then have "cr_tuple L (Some sh) (Some h) st = Some st'"
    using m b n by (simp add: cr_tuple_def st_def cr_start_def mc_def)
  moreover have "length c \<le> 32" using c(2) by (simp add: keylength_def split: if_splits)
  ultimately have "cr_select L [Some sh] [None, Some h] (cr_start junk mc) (stray_selector c @ ch_rbrack # rest) = Some (True, st', ch_rbrack # rest)"
    using stray_select [OF _ r, of c L sh h "cr_start junk mc"] by (simp add: st_def cr_start_def)
  then have e: "cr_response L junk [Some sh] [None, Some h] (Some (stray_selector c @ ch_rbrack # rest)) s = Some (cr_done st' s, ch_rbrack # rest)"
    using own by (simp add: cr_response_def mc_def)
  have d: "kr_calls (cr_done st' s) = kr_calls s" "kr_mc (cr_done st' s) = node_setkey L (Some buf) h mc"
    by (simp_all add: cr_done_def st'_def st_def cr_start_def)
  have "map_option n_nodekey (nodebyhandle (node_setkey L (Some buf) h mc) h) = Some (take (keylength (n_type n)) buf)"
    using n by (simp add: node_setkey_def Let_def node_setattr_nodekey upd_node_lookup mc_def)
  moreover have "length (ecb_decrypt (lib_aes L) k c) = length c"
    using a c(2) by (simp add: aes_ok_def ecb_decrypt_def keylength_def split: if_splits)
  ultimately show ?thesis using e d c(2) by (auto simp: buf_def put_front_def)
qed

end
