(* ===== verification/Samples.thy ===== *)
theory Samples
  imports Packet_Texts
begin

text \<open>
  Concrete states for the witnesses: empty user tables, a user, a small node tree with a share at its root, a node with
  encrypted attributes, a node to be cached, RSA keys with two small primes, the keys of a login, a forged share, inbound
  shares inside each other, requests and packets, and a list of nodes.
\<close>

definition no_users :: usertab where
  "no_users = \<lparr>ut_users = [], ut_userid = 0, ut_uhindex = [], ut_umindex = []\<rparr>"

lemma no_users_ok: "ut_ok no_users"
  by (simp add: ut_ok_def no_users_def om_invar_def)

definition sample_user :: user where
  "sample_user = (User (Some (str ''a@b'')))\<lparr>u_userhandle := 77, u_show := 2, u_ctime := 5, u_attrs := [(110, [1, 2])]\<rparr>"

text \<open>A root folder 1, a folder 2 in it and a file 3 in that, shared at the root.\<close>

definition sample_node :: "handle \<Rightarrow> int \<Rightarrow> handle option \<Rightarrow> handle list \<Rightarrow> node" where
  "sample_node h t p cs =
     (fresh_node h (case p of Some q \<Rightarrow> q | None \<Rightarrow> UNDEF) t (if t = 0 then 1000 else 0) 5 None 10 20 [])
       \<lparr>n_parent := p, n_children := cs\<rparr>"

definition sample_client :: megaclient where
  "sample_client =
     \<lparr>mc_nodes = [(1, (sample_node 1 2 None [2])\<lparr>n_sharekey := Some symm_new\<rparr>), (2, sample_node 2 1 (Some 1) [3]), (3, sample_node 3 0 (Some 2) [])],
      mc_rootnodes = [1, UNDEF, UNDEF, UNDEF], mc_fingerprints = [], mc_newshares = [], mc_me = 5, mc_key = symm_new,
      mc_asymkey = [0, 0, 0, 0], mc_users = no_users, mc_nodekeyrewrite = [], mc_sharekeyrewrite = [],
      mc_localnodes = [], mc_nodenotify = [], mc_todebris = [], mc_sessionid = str ''abcdefghij'', mc_auth = [], mc_sid = [],
      mc_cachedscsn = UNDEF, mc_reqtag = 1, mc_restag = 0, mc_purchase_basket = [], mc_usernotify = []\<rparr>"

lemma sample_lookup:
  "nodebyhandle sample_client h =
     (if h = 1 then Some ((sample_node 1 2 None [2])\<lparr>n_sharekey := Some symm_new\<rparr>)
      else if h = 2 then Some (sample_node 2 1 (Some 1) [3]) else if h = 3 then Some (sample_node 3 0 (Some 2) []) else None)"
  by (simp add: nodebyhandle_def sample_client_def)

lemma sample_links: "links_ok sample_client"
  unfolding links_ok_def sample_lookup
  by (auto simp: sample_client_def om_invar_def sample_node_def fresh_node_def split: if_splits)

lemma sample_ranked: "ranked unat 4 sample_client"
  unfolding ranked_def sample_lookup
  by (auto simp: sample_node_def fresh_node_def split: if_splits)

lemma sample_tree: "tree_ok sample_client"
  using sample_links sample_ranked by (auto simp: tree_ok_def)

definition sample_libs :: libs where
  "sample_libs = \<lparr>lib_aes = not_aes, lib_big = nat_bigint, lib_nfc = Some\<rparr>"

definition sample_attr_node :: node where
  "sample_attr_node = (sample_node 3 0 None [])\<lparr>n_attrstring := btoa (makeattr not_aes symm_new (getjson [(110, str ''doc'')]))\<rparr>"

definition sample_cached :: node where
  "sample_cached = (sample_node 9 0 (Some 2) [])\<lparr>n_nodekey := replicate 32 6, n_attrs := [(110, str ''x'')], n_fileattrstring := str ''0*a''\<rparr>"

lemma snk_empty_ok: "snk_ok [] 0 snk_empty"
  by (simp add: snk_ok_def snk_empty_def)

lemma rsa_key_257_263: "rsa_key [67591, 17] [257, 263, 13809, 219]"
proof -
  have "is_prime 257" "is_prime 263" by (simp_all add: is_prime_def upt_rec)
  then show ?thesis by (simp add: rsa_key_def Let_def)
qed

lemma bits_257_263: "c < 67591 \<Longrightarrow> bitCount nat_bigint c \<le> 17"
  using floorlog_leI [of c 2 17] by (simp add: nat_bigint_def)

lemma floorlogs_257_263: "floorlog 2 67591 = 17" "floorlog 2 13809 = 14"
  by (intro antisym floorlog_leI floorlog_geI; simp)+

text \<open>A private key and an encrypted session id as a login response has them.\<close>

definition login_pk :: bytes where
  "login_pk = [4, 0] @ (replicate 126 0 @ [1, 1]) @ [4, 0] @ (replicate 126 0 @ [1, 7]) @ [1, 104] @ (1 # replicate 44 0) @ [0, 8] @ [219] @ replicate 10 0"

definition login_csid_text :: bytes where
  "login_csid_text = [1, 88] @ replicate 42 0 @ [1]"

lemma decode_int_head:
  assumes "length xs = (256 * unat a + unat b + 7) div 8"
  shows "decode_ints B (Suc i) ([a, b] @ xs @ r) = (let (ts, ok, rest) = decode_ints B i r in (fromBytes B xs # ts, ok, rest))"
  using assms by (simp add: Let_def)

lemma be_nat_zeros: "be_nat (replicate n 0 @ xs) = be_nat xs" "be_nat (1 # replicate n 0) = 256 ^ n" "be_nat (replicate n 0) = 0"
proof -
  show "be_nat (replicate n 0) = 0" by (induction n) (simp_all add: be_nat_def)
  show "be_nat (replicate n 0 @ xs) = be_nat xs" by (induction n) (simp_all add: be_nat_def)
  show "be_nat (1 # replicate n 0) = 256 ^ n"
    by (induction n) (simp_all add: be_nat_def replicate_append_same [symmetric])
qed

lemma fb: "fromBytes nat_bigint = be_nat"
  by (simp add: nat_bigint_def)

lemma login_pk_key: "asymm_setkey nat_bigint 4 login_pk [0, 0, 0, 0] = ([257, 263, 256 ^ 44, 219], True)"
proof -
  have small: "be_nat [1, 1] = 257" "be_nat [1, 7] = 263" "be_nat [219] = 219" by (simp_all add: be_nat_def)
  have 4: "4 = Suc (Suc (Suc (Suc 0)))" by simp
  have "decode_ints nat_bigint 4 login_pk = ([257, 263, 256 ^ 44, 219], True, replicate 10 0)"
    unfolding login_pk_def 4
    by (subst decode_int_head, simp)+ (simp add: fb be_nat_zeros small del: replicate.simps)
  then show ?thesis by (simp add: asymm_setkey_def decodeintarray_def)
qed

lemma floorlog_256_44: "floorlog 2 (256 ^ 44) = 353"
proof -
  have "(256 :: nat) ^ 44 = 2 ^ 352" by simp
  then show ?thesis by (intro antisym floorlog_leI floorlog_geI) (simp_all del: One_nat_def)
qed

lemma floorlog_1: "floorlog 2 (Suc 0) = 1"
  by (intro antisym floorlog_leI floorlog_geI) simp_all

lemma login_csid_opens: "asymm_decrypt nat_bigint [257, 263, 256 ^ 44, 219] login_csid_text 43 = Some (Some (replicate 42 0 @ [1]))"
proof -
  have "decode_ints nat_bigint (Suc 0) login_csid_text = ([1], True, [])"
    unfolding login_csid_text_def append.assoc [symmetric]
    using decode_int_head [of "replicate 42 0 @ [1]" 1 88 nat_bigint 0 "[]"] by (simp add: fb be_nat_zeros del: replicate.simps decode_ints.simps(2))
  then have dec: "decodeintarray nat_bigint [0] 1 login_csid_text = ([1], True)" by (simp add: decodeintarray_def)
  have 1: "rsadecrypt nat_bigint [257, 263, 256 ^ 44, 219] 1 = Some 1" by (simp add: rsadecrypt_def nat_bigint_def)
  have b: "byteCount nat_bigint (256 ^ 44) = 45" "byteCount nat_bigint 1 = 1"
    unfolding nat_bigint_def using floorlog_256_44 floorlog_1 by simp_all
  have "getByte nat_bigint 1 (unat (0 + of_nat i :: u32)) = 0" if "i \<in> set [1..<43]" for i
    using that one_less_power [of "256 :: nat" i] by (simp add: nat_bigint_def unat_of_nat)
  then have "map (\<lambda>i. getByte nat_bigint 1 (unat (0 + of_nat i :: u32))) [1..<43] = replicate 42 0"
    by (intro replicate_eqI) auto
  moreover have "[0..<43] = 0 # [1..<43]" by (simp add: upt_conv_Cons)
  moreover have "getByte nat_bigint 1 (unat (0 + of_nat 0 :: u32)) = 1" by (simp add: nat_bigint_def)
  ultimately have g: "rev (map (\<lambda>i. getByte nat_bigint 1 (unat (0 + of_nat i :: u32))) [0..<43]) = replicate 42 0 @ [1]"
    by (simp del: upt_rec_numeral)
  show ?thesis using dec 1 b g by (simp add: asymm_decrypt_def)
qed

definition forged_share :: newshare where
  "forged_share = \<lparr>ns_h = 2, ns_outgoing = 1, ns_peer = 9, ns_access = 0, ns_ts = 0, ns_key = Some (replicate 16 7), ns_auth = Some (replicate 16 7)\<rparr>"

text \<open>A folder 1 shared by the user 9, a folder 2 in it, and a folder 3 in that, shared by the same user.\<close>

definition nested_client :: megaclient where
  "nested_client = sample_client\<lparr>mc_nodes :=
     [(1, (sample_node 1 1 None [2])\<lparr>n_inshare := Some (Share (Some 9) 2 0)\<rparr>), (2, sample_node 2 1 (Some 1) [3]),
      (3, (sample_node 3 1 (Some 2) [])\<lparr>n_inshare := Some (Share (Some 9) 2 0)\<rparr>)]\<rparr>"

lemma nested_lookup:
  "nodebyhandle nested_client h =
     (if h = 1 then Some ((sample_node 1 1 None [2])\<lparr>n_inshare := Some (Share (Some 9) 2 0)\<rparr>)
      else if h = 2 then Some (sample_node 2 1 (Some 1) [3])
      else if h = 3 then Some ((sample_node 3 1 (Some 2) [])\<lparr>n_inshare := Some (Share (Some 9) 2 0)\<rparr>) else None)"
  by (simp add: nodebyhandle_def nested_client_def)

lemma sample_node_simps:
  "n_inshare (sample_node h t p cs) = None" "n_parent (sample_node h t p cs) = p" "n_type (sample_node h t p cs) = t"
  "n_children (sample_node h t p cs) = cs" "n_local (sample_node h t p cs) = None"
  by (simp_all add: sample_node_def fresh_node_def)

lemma nested_under: "under nested_client 2 3"
  by (rule under.up [OF _ _ under.here]) (auto simp: nested_lookup sample_node_simps)

lemma nested_loggedin: "loggedin sample_libs nested_client \<noteq> NOTLOGGEDIN"
  by (simp add: loggedin_def nested_client_def sample_client_def no_users_def finduser_handle_def ISUNDEF_def)

lemma nested_below: "under nested_client x 2 \<longleftrightarrow> x = 1 \<or> x = 2" "under nested_client x 3 \<longleftrightarrow> x = 1 \<or> x = 2 \<or> x = 3" "under nested_client x 1 \<longleftrightarrow> x = 1"
proof -
  show 1: "under nested_client x 1 \<longleftrightarrow> x = 1" for x by (subst under_iff) (auto simp: nested_lookup sample_node_simps)
  show 2: "under nested_client x 2 \<longleftrightarrow> x = 1 \<or> x = 2" for x by (subst under_iff) (auto simp: nested_lookup sample_node_simps 1)
  show "under nested_client x 3 \<longleftrightarrow> x = 1 \<or> x = 2 \<or> x = 3" by (subst under_iff) (auto simp: nested_lookup sample_node_simps 2)
qed

lemma nested_shared: "shared_by nested_client x sh \<longleftrightarrow> (x = 1 \<or> x = 3) \<and> sh = Share (Some 9) 2 0"
  by (auto simp: shared_by_def nested_lookup sample_node_simps)

lemma nested_tree: "tree_ok nested_client"
proof -
  have "links_ok nested_client"
    unfolding links_ok_def nested_lookup
    by (auto simp: nested_client_def om_invar_def sample_node_def fresh_node_def split: if_splits)
  moreover have "ranked unat 4 nested_client"
    unfolding ranked_def nested_lookup by (auto simp: sample_node_def fresh_node_def split: if_splits)
  ultimately show ?thesis by (auto simp: tree_ok_def)
qed

lemma nested_inner:
  "inner_share nested_client 1 (Share (Some 9) 2 0)" "inner_share nested_client 2 (Share (Some 9) 2 0)" "inner_share nested_client 3 (Share (Some 9) 2 0)"
proof -
  have 1: "inner_share nested_client h (Share (Some 9) 2 0)" if "h = 1 \<or> h = 2" for h
    unfolding inner_share_def by (rule exI [of _ 1]) (use that in \<open>auto simp: nested_below nested_shared\<close>)
  show "inner_share nested_client 1 (Share (Some 9) 2 0)" "inner_share nested_client 2 (Share (Some 9) 2 0)" by (simp_all add: 1)
  show "inner_share nested_client 3 (Share (Some 9) 2 0)"
    unfolding inner_share_def by (rule exI [of _ 3]) (auto simp: nested_below nested_shared)
qed

lemma nested_may_move: "may_move sample_libs nested_client 2 3"
  using nested_loggedin nested_inner
  by (auto simp: may_move_def may_access_def nested_lookup sample_node_simps Share_def intro!: exI [of _ "Share (Some 9) 2 0"])

section \<open>States for requests and packets\<close>

definition requests :: "megaclient \<Rightarrow> keyreqs" where
  "requests mc = \<lparr>kr_mc = mc, kr_pkrs = \<lambda>_. [], kr_pendingfa = [], kr_calls = [], kr_events = []\<rparr>"

definition packet_state :: "megaclient \<Rightarrow> scstate" where
  "packet_state mc = \<lparr>sc_kr = requests mc, sc_uhnh = [], sc_scsn = [], sc_notifyurl = [], sc_statecurrent = True, sc_events = []\<rparr>"

definition sample_env :: scenv where
  "sample_env = \<lparr>env_L = sample_libs, env_k = 8, env_now = 0, env_rnd = \<lambda>_. [], env_fpjunk = [], env_skjunk = [], env_crjunk = [], env_authjunk = [], env_tagjunk = 0\<rparr>"

definition full_client :: megaclient where
  "full_client = sample_client\<lparr>mc_asymkey := [257, 263, 1, 1]\<rparr>"

lemma requests_mc [simp]: "kr_mc (requests mc) = mc" "kr_calls (requests mc) = []" "sc_mc (packet_state mc) = mc"
  by (simp_all add: requests_def packet_state_def)

lemma full_lookup: "nodebyhandle full_client h = nodebyhandle sample_client h"
  by (simp add: full_client_def nodebyhandle_def)

lemma full_tree: "tree_ok full_client"
  using sample_tree by (simp add: tree_ok_def links_ok_def ranked_def full_lookup) (simp add: full_client_def)

lemma full_loggedin: "loggedin sample_libs full_client = FULLACCOUNT"
proof -
  have "floorlog 2 257 \<noteq> 0" "floorlog 2 263 \<noteq> 0" by (simp_all add: floorlog_def)
  then have "asymm_isvalid (lib_big sample_libs) [257, 263, 1, 1]" by (simp add: asymm_isvalid_def sample_libs_def nat_bigint_def)
  moreover have "\<not> ISUNDEF (mc_me full_client)" "fst (finduser_handle (mc_me full_client) False (mc_users full_client)) = None"
    by (simp_all add: full_client_def sample_client_def no_users_def finduser_handle_def ISUNDEF_def)
  ultimately show ?thesis by (simp add: loggedin_def) (simp add: full_client_def)
qed

lemma planted_runs:
  "\<exists>s'. sc_action sample_env (MAKENAMEID ''s'') (packet_state full_client) (body (JObj (key_members 2 (replicate 16 7)))) = Some (s', str ''}'')"
  using share_key_planted [of 2 "packet_state full_client" "sample_node 2 1 (Some 1) [3]" "replicate 16 7" sample_env "[]"] full_loggedin
  by (simp add: full_lookup sample_lookup sample_env_def str_def sample_node_def fresh_node_def del: body.simps)
    (simp add: full_client_def sample_client_def)

lemma sample_below: "isbelow sample_client (Some 3) 1 = Some True" "isbelow sample_client (Some 2) 1 = Some True"
proof -
  have u: "under sample_client 1 2" by (rule under.up [OF _ _ under.here]) (auto simp: sample_lookup sample_node_simps)
  have "under sample_client 1 3" by (rule under.up [OF _ _ u]) (auto simp: sample_lookup sample_node_simps)
  then show "isbelow sample_client (Some 3) 1 = Some True" "isbelow sample_client (Some 2) 1 = Some True"
    using u isbelow_under [OF sample_links sample_ranked] by (simp_all add: sample_lookup)
qed

lemma sample_response:
  "\<exists>s'. cr_response sample_libs [] [Some 1, Some 3] [Some 3, Some 2] None (requests sample_client) = Some (s', []) \<and> kr_calls s' \<noteq> []"
  using cr_response_pairs [of "[Some 1, Some 3]" "[Some 3, Some 2]" sample_libs "[]" "requests sample_client"]
  by (simp add: cr_own_def sample_lookup sample_node_simps cr_tuple_def cr_start_def sample_below cr_send_def addnode_def cr_done_def kr_call_def Let_def
      sample_node_def fresh_node_def)

text \<open>A file that comes before the folder it is in.\<close>

definition two_nodes :: "nodedesc list" where
  "two_nodes =
     [\<lparr>nd_h = 6, nd_ph = 5, nd_u = 9, nd_t = 0, nd_a = str ''A'', nd_k = str ''K'', nd_s = 10, nd_ts = 1, nd_tmd = 3, nd_fa = str ''F''\<rparr>,
      \<lparr>nd_h = 5, nd_ph = 1, nd_u = 9, nd_t = 1, nd_a = str ''B'', nd_k = str ''L'', nd_s = 0, nd_ts = 1, nd_tmd = 0, nd_fa = []\<rparr>]"

definition reading_state :: "megaclient \<Rightarrow> rnstate" where
  "reading_state mc = \<lparr>rn_mc = mc, rn_dp = [], rn_i = 0, rn_pendingfa = [], rn_uhnh = [], rn_calls = [], rn_reload = False\<rparr>"

definition table_data :: "megaclient \<Rightarrow> handle \<Rightarrow> node_info option" where
  "table_data mc x = map_option node_view (nodebyhandle mc x)"

definition table_parents :: "megaclient \<Rightarrow> handle \<Rightarrow> handle option" where
  "table_parents mc x = Option.bind (nodebyhandle mc x) n_parent"

lemma sample_repr: "repr unat 8 (rn_mc (reading_state sample_client)) (table_data sample_client) (table_parents sample_client)"
proof -
  have "ranked unat 8 sample_client" using sample_ranked by (fastforce simp: ranked_def)
  then show ?thesis using sample_links by (simp add: repr_def reading_state_def table_data_def table_parents_def)
qed

lemma two_nodes_entered:
  "entered (table_data sample_client) two_nodes h =
     (if h = 6 then Some (6, 0, 5, str ''A'', str ''K'', str ''F'', 10, 9, 1, 4) else if h = 5 then Some (5, 1, 1, str ''B'', str ''L'', [], 0, 9, 1, 1) else table_data sample_client h)"
  by (auto simp: entered_def two_nodes_def view_of_def)

lemma two_nodes_forest: "forest unat 8 (table_data sample_client) two_nodes"
proof -
  have "table_data sample_client 5 = None" "table_data sample_client 6 = None" "\<exists>v. table_data sample_client 1 = Some v \<and> fst (snd v) = 2"
    by (simp_all add: table_data_def sample_lookup node_view_def sample_node_def fresh_node_def)
  moreover have "list_all desc_ok two_nodes" by (simp add: two_nodes_def desc_ok_def ISUNDEF_def text_ok_def copystring_def str_def)
  ultimately show ?thesis unfolding forest_def two_nodes_entered by (auto simp: two_nodes_def)
qed

lemma sample_newshares: "mc_newshares sample_client = []" and full_newshares: "mc_newshares full_client = []"
  by (simp_all add: full_client_def sample_client_def)

text \<open>The folder 2 with a key.\<close>

definition keyed_node :: node where
  "keyed_node = (sample_node 2 1 (Some 1) [3])\<lparr>n_nodekey := replicate 16 1\<rparr>"

definition keyed_client :: megaclient where
  "keyed_client = upd_node 2 (\<lambda>n. n\<lparr>n_nodekey := replicate 16 1\<rparr>) sample_client"

lemma keyed_node_simps:
  "n_nodekey keyed_node = replicate 16 1" "n_type keyed_node = 1" "n_parent keyed_node = Some 1" "n_children keyed_node = [3]"
  by (simp_all add: keyed_node_def sample_node_def fresh_node_def)

lemma keyed_lookup: "nodebyhandle keyed_client h = (if h = 2 then Some keyed_node else nodebyhandle sample_client h)"
  by (simp add: keyed_client_def upd_node_lookup sample_lookup keyed_node_def)

lemma keyed_same: "same_shares sample_client keyed_client"
  unfolding keyed_client_def by (rule same_shares_upd) (simp add: shares_view_def)

lemma keyed_tree: "tree_ok keyed_client"
  by (rule tree_share [OF keyed_same sample_tree])

lemma keyed_under: "under keyed_client 1 2"
  by (rule under.up [OF _ _ under.here]) (auto simp: keyed_lookup sample_lookup keyed_node_simps)

text \<open>Actions that wait for the key of user 1, and a reply with one.\<close>

definition waiting :: "pubkeyaction list \<Rightarrow> keyreqs" where
  "waiting as = (requests (sample_client\<lparr>mc_users := put_user 1 sample_user no_users\<rparr>))\<lparr>kr_pkrs := (\<lambda>_. [])(1 := as)\<rparr>"

definition pubk_text :: bytes where
  "pubk_text = [0, 17, 1, 8, 7, 0, 5, 17]"

lemma pubk_text_ints: "pubk_text = serializeintarray (lib_big sample_libs) [67591, 17] []"
proof -
  have "floorlog 2 17 = (5 :: nat)" by (intro antisym floorlog_leI floorlog_geI; simp)
  then show ?thesis
    using floorlogs_257_263 by (simp add: pubk_text_def sample_libs_def ser_int_def int_bytes_def nat_bigint_def upt_rec)
qed

lemma pubk_bits: "bitCount (lib_big sample_libs) 67591 < 65536" "bitCount (lib_big sample_libs) 17 < 65536"
  using bits_257_263 [of 17] floorlogs_257_263 by (simp_all add: sample_libs_def nat_bigint_def)

lemma waiting_creates: "creates (kr_mc (waiting bs)) [PkaCreateShare 2 0 7]"
  using sample_lookup [of 2] by (simp add: creates_def waiting_def nodebyhandle_def)

lemma two_nodes_in:
  "\<exists>x \<in> set two_nodes. nd_h x = 6 \<and> nd_ph x = 5" "\<exists>x \<in> set two_nodes. nd_h x = 5 \<and> nd_ph x = 1" "table_data sample_client 1 \<noteq> None"
  by (simp_all add: two_nodes_def table_data_def sample_lookup)

end
