(* ===== verification/Http.thy ===== *)
theory Http
  imports Cmd File_System Symm_Cipher Ordered_Map
begin

text \<open>
  \<open>src/http.cpp\<close>: the connectivity tracker \<open>HttpIO\<close>, the receive buffer of \<open>HttpReq\<close> and the
  chunk requests of transfers, which encrypt, decrypt and MAC. The network layer below
  (\<open>post\<close>, \<open>cancel\<close>, \<open>postpos\<close>) is virtual; \<open>hr_inflight\<close> is \<open>httpio != NULL\<close>. Content of
  fresh memory (\<open>new byte[n]\<close>) is a parameter \<open>mem\<close>.
\<close>

section \<open>HttpIO\<close>

record httpio =
  io_success :: bool
  noinetds :: dstime
  inetback :: bool

definition HttpIO :: httpio where
  "HttpIO = \<lparr>io_success = False, noinetds = 0, inetback = False\<rparr>"

definition inetstatus :: "dstime \<Rightarrow> bool \<Rightarrow> httpio \<Rightarrow> httpio" where
  "inetstatus ds up io =
     (if up then
        (let io1 = (if noinetds io \<noteq> 0 \<and> ds - noinetds io > 600 then io\<lparr>inetback := True\<rparr> else io) in
         io1\<lparr>noinetds := 0\<rparr>)
      else if noinetds io = 0 then io\<lparr>noinetds := ds\<rparr> else io)"

definition inetisback :: "httpio \<Rightarrow> bool \<times> httpio" where
  "inetisback io = (if inetback io then (True, io\<lparr>inetback := False\<rparr>) else (False, io))"

section \<open>HttpReq\<close>

datatype reqstatus = REQ_READY | REQ_PREPARED | REQ_INFLIGHT | REQ_SUCCESS | REQ_FAILURE | REQ_DONE

datatype contenttype = REQ_BINARY | REQ_JSON

record httpreq =
  hr_status :: reqstatus
  hr_binary :: bool
  hr_type :: contenttype
  hr_posturl :: bytes
  hr_out :: bytes
  hr_in :: bytes
  hr_buf :: "bytes option"
  hr_buflen :: int
  hr_bufpos :: int
  hr_contentlength :: int
  hr_inflight :: bool
  hr_httpstatus :: int

definition HttpReq :: "bool \<Rightarrow> httpreq" where
  "HttpReq b = \<lparr>hr_status = REQ_READY, hr_binary = b, hr_type = REQ_BINARY, hr_posturl = [],
     hr_out = [], hr_in = [], hr_buf = None, hr_buflen = 0, hr_bufpos = 0, hr_contentlength = 0,
     hr_inflight = False, hr_httpstatus = 0\<rparr>"

definition hr_post :: "'a httpreq_scheme \<Rightarrow> 'a httpreq_scheme" where
  "hr_post r = r\<lparr>hr_inflight := True, hr_bufpos := 0, hr_contentlength := -1\<rparr>"

definition setreq :: "bytes \<Rightarrow> contenttype \<Rightarrow> 'a httpreq_scheme \<Rightarrow> 'a httpreq_scheme" where
  "setreq u t r = r\<lparr>hr_posturl := u, hr_type := t\<rparr>"

text \<open>\<open>memcpy(buf + pos, data, n)\<close>.\<close>

definition write_at :: "int \<Rightarrow> bytes \<Rightarrow> bytes \<Rightarrow> bytes" where
  "write_at pos d b = take (nat pos) b @ d @ drop (nat pos + length d) b"

definition hr_put :: "bytes \<Rightarrow> 'a httpreq_scheme \<Rightarrow> 'a httpreq_scheme" where
  "hr_put data r =
     (case hr_buf r of
        Some b \<Rightarrow>
          (let len = (if hr_bufpos r + int (length data) > hr_buflen r then nat (hr_buflen r - hr_bufpos r)
                      else length data)
           in r\<lparr>hr_buf := Some (write_at (hr_bufpos r) (take len data) b), hr_bufpos := hr_bufpos r + int len\<rparr>)
      | None \<Rightarrow>
          r\<lparr>hr_in := hr_in r @ data, hr_bufpos := hr_bufpos r + int (length data)\<rparr>)"

definition setcontentlength :: "int \<Rightarrow> 'a httpreq_scheme \<Rightarrow> 'a httpreq_scheme" where
  "setcontentlength len r = r\<lparr>hr_contentlength := len\<rparr>"

text \<open>The offset returned is \<open>bufpos\<close>; the result is the adjusted \<open>*len\<close>. \<open>resize\<close> fills with NUL.\<close>

definition reserveput :: "nat \<Rightarrow> 'a httpreq_scheme \<Rightarrow> int \<times> 'a httpreq_scheme" where
  "reserveput len r =
     (case hr_buf r of
        Some b \<Rightarrow> (if hr_bufpos r + int len > hr_buflen r then hr_buflen r - hr_bufpos r else int len, r)
      | None \<Rightarrow>
          (let r1 = (if hr_bufpos r + int len > int (length (hr_in r))
                     then r\<lparr>hr_in := hr_in r @ replicate (nat (hr_bufpos r + int len) - length (hr_in r)) 0\<rparr> else r)
           in (int (length (hr_in r1)) - hr_bufpos r, r1)))"

definition hr_transferred :: "'a httpreq_scheme \<Rightarrow> int" where
  "hr_transferred r = (case hr_buf r of Some b \<Rightarrow> hr_bufpos r | None \<Rightarrow> int (length (hr_in r)))"

section \<open>Chunk transfer\<close>

record httpreqxfer = httpreq +
  hx_size :: u32
  hx_dlpos :: int

type_synonym chunkmac_map = "(int, bytes) omap"

text \<open>\<open>snprintf\<close> into 256 bytes.\<close>

definition chunk_url :: "bytes \<Rightarrow> bytes" where
  "chunk_url s = take 255 s"

definition dl_prepare :: "(nat \<Rightarrow> bytes) \<Rightarrow> bytes \<Rightarrow> int \<Rightarrow> int \<Rightarrow> httpreqxfer \<Rightarrow> httpreqxfer" where
  "dl_prepare mem tempurl pos npos r =
     (let r1 = setreq (chunk_url (tempurl @ [ch_slash] @ dec_int pos @ [ch_minus] @ dec_int (npos - 1))) REQ_BINARY r;
          sz = word_of_int (npos - pos) :: u32;
          r2 = r1\<lparr>hx_dlpos := pos, hx_size := sz\<rparr>
      in if hr_buf r2 = None \<or> hr_buflen r2 \<noteq> uint sz
         then r2\<lparr>hr_buf := Some (mem (unat ((sz + 15) AND - 16))), hr_buflen := uint sz\<rparr>
         else r2)"

text \<open>The new request, the data and position written to the file, the new MACs.\<close>

definition dl_finalize :: "aes \<Rightarrow> symm \<Rightarrow> chunkmac_map \<Rightarrow> u64 \<Rightarrow> int \<Rightarrow> int \<Rightarrow> httpreqxfer
    \<Rightarrow> httpreqxfer \<times> (bytes \<times> int) \<times> chunkmac_map" where
  "dl_finalize L key macs ctriv startpos endpos r =
     (let b = (case hr_buf r of Some b \<Rightarrow> b | None \<Rightarrow> []);
          (b', mac) = ctr_crypt L key b (hr_bufpos r) (hx_dlpos r) ctriv False;
          skip = (if endpos = -1 then 0 else if startpos > hx_dlpos r then startpos - hx_dlpos r else 0);
          prune = (if endpos = -1 then 0
                   else if hx_dlpos r + hr_bufpos r > endpos then hx_dlpos r + hr_bufpos r - endpos else 0)
      in (r\<lparr>hr_buf := Some b'\<rparr>,
          (take (nat (hr_bufpos r - skip - prune)) (drop (nat skip) b'), hx_dlpos r + skip),
          om_update (hx_dlpos r) mac macs))"

text \<open>The return value, the request (its \<open>out\<close>), the new MACs.\<close>

definition ul_prepare :: "syscalls \<Rightarrow> fileaccess \<Rightarrow> bytes \<Rightarrow> aes \<Rightarrow> symm \<Rightarrow> chunkmac_map \<Rightarrow> u64 \<Rightarrow> int \<Rightarrow> int
    \<Rightarrow> httpreqxfer \<Rightarrow> bool \<times> httpreqxfer \<times> chunkmac_map" where
  "ul_prepare S fa tempurl L key macs ctriv pos npos r =
     (let sz = word_of_int (npos - pos) :: u32;
          r1 = r\<lparr>hx_size := sz\<rparr>
      in case fst (fa_fread S (unat sz) (unat (- sz AND 15)) pos fa) of
           None \<Rightarrow> (False, r1, macs)
         | Some d \<Rightarrow>
             (let r2 = setreq (chunk_url (tempurl @ [ch_slash] @ dec_int pos)) REQ_BINARY r1;
                  (d', mac) = ctr_crypt L key d (uint sz) pos ctriv True
              in (True, r2\<lparr>hr_out := take (unat sz) d'\<rparr>, om_update pos mac macs)))"

section \<open>Proofs\<close>

text \<open>The receive buffer: what arrived, cut at the buffer's end.\<close>

definition buf_ok :: "'a httpreq_scheme \<Rightarrow> bool" where
  "buf_ok r \<longleftrightarrow>
     (case hr_buf r of
        None \<Rightarrow> hr_bufpos r = int (length (hr_in r))
      | Some b \<Rightarrow> 0 \<le> hr_bufpos r \<and> hr_bufpos r \<le> hr_buflen r \<and> hr_buflen r \<le> int (length b))"

text \<open>The data received so far.\<close>

definition received :: "'a httpreq_scheme \<Rightarrow> bytes" where
  "received r = (case hr_buf r of None \<Rightarrow> hr_in r | Some b \<Rightarrow> take (nat (hr_bufpos r)) b)"

definition capacity :: "'a httpreq_scheme \<Rightarrow> nat option" where
  "capacity r = (case hr_buf r of None \<Rightarrow> None | Some b \<Rightarrow> Some (nat (hr_buflen r)))"

definition cut :: "nat option \<Rightarrow> bytes \<Rightarrow> bytes" where
  "cut c d = (case c of None \<Rightarrow> d | Some n \<Rightarrow> take n d)"

lemma hr_put_received:
  assumes "buf_ok r"
  shows "buf_ok (hr_put d r)" "capacity (hr_put d r) = capacity r"
    "received (hr_put d r) = cut (capacity r) (received r @ d)"
    "map_option length (hr_buf (hr_put d r)) = map_option length (hr_buf r)"
proof (atomize (full), cases "hr_buf r")
  case None
  then show "(buf_ok (hr_put d r) \<and> capacity (hr_put d r) = capacity r) \<and>
      received (hr_put d r) = cut (capacity r) (received r @ d) \<and>
      map_option length (hr_buf (hr_put d r)) = map_option length (hr_buf r)"
    using assms by (simp add: hr_put_def buf_ok_def received_def capacity_def cut_def)
next
  case (Some b)
  define p where "p = nat (hr_bufpos r)"
  define len where "len = min (length d) (nat (hr_buflen r) - p)"
  have p: "hr_bufpos r = int p" "p \<le> nat (hr_buflen r)" "nat (hr_buflen r) \<le> length b" "0 \<le> hr_buflen r"
    using assms Some by (auto simp: buf_ok_def p_def)
  have put: "hr_put d r = r\<lparr>hr_buf := Some (write_at (int p) (take len d) b), hr_bufpos := int p + int len\<rparr>"
  proof -
    have "nat (hr_buflen r - int p) = nat (hr_buflen r) - p" by simp
    with Some p show ?thesis by (auto simp: hr_put_def Let_def len_def min_def)
  qed
  have pl: "p + len \<le> nat (hr_buflen r)" using p(2) by (simp add: len_def)
  have w: "write_at (int p) (take len d) b = take p b @ take len d @ drop (p + len) b"
    by (simp add: write_at_def len_def min_def)
  have l: "length (take len d) = len" by (simp add: len_def)
  have "take (p + len) (take p b @ take len d @ drop (p + len) b) = take p b @ take len d"
    using p pl l by simp
  moreover have "take (nat (hr_buflen r)) (take p b @ d) = take p b @ take len d"
    using p by (simp add: len_def min_def)
  ultimately show "(buf_ok (hr_put d r) \<and> capacity (hr_put d r) = capacity r) \<and>
      received (hr_put d r) = cut (capacity r) (received r @ d) \<and>
      map_option length (hr_buf (hr_put d r)) = map_option length (hr_buf r)"
    using put p pl Some l
    by (auto simp: buf_ok_def capacity_def received_def cut_def w p_def [symmetric] nat_int_add)
qed

text \<open>A whole response, in pieces.\<close>

lemma cut_append: "cut c (cut c a @ b) = cut c (a @ b)"
  by (cases c) (auto simp: cut_def min_def)

lemma hr_put_all:
  "buf_ok r \<Longrightarrow> received r = cut (capacity r) (received r) \<Longrightarrow>
   received (fold hr_put ds r) = cut (capacity r) (received r @ concat ds) \<and> buf_ok (fold hr_put ds r) \<and>
   capacity (fold hr_put ds r) = capacity r"
proof (induction ds arbitrary: r)
  case (Cons d ds)
  note p = hr_put_received [OF Cons.prems(1), of d]
  have "received (hr_put d r) = cut (capacity (hr_put d r)) (received (hr_put d r))"
    using cut_append [of "capacity r" "received r @ d" "[]"] by (simp add: p)
  from Cons.IH [OF p(1) this] show ?case by (simp add: p cut_append)
qed simp

lemma received_cut: "buf_ok r \<Longrightarrow> received r = cut (capacity r) (received r)"
  by (auto simp: buf_ok_def received_def capacity_def cut_def min_def nat_le_eq_zle split: option.splits)

text \<open>A chunk that was read, encrypted and sent is decrypted and written unchanged, at the same
  position and with the same MAC.\<close>

lemma neg_and_15: "unat (- w AND 15 :: u32) = nat ((- uint w) mod 16)"
proof -
  have "(15 :: u32) = mask 4" by (simp add: mask_eq_exp_minus_1)
  then have "unat (- w AND 15) = unat (- w) mod 16" using unat_and_mask [of "- w" 4] by simp
  also have "\<dots> = nat (uint (- w) mod 16)" by (simp add: nat_mod_distrib)
  also have "uint (- w) mod 16 = (- uint w) mod 16"
    by (simp add: uint_word_ariths mod_mod_cancel)
  finally show ?thesis .
qed

lemma padded_fread:
  assumes "length d = unat (sz :: u32)"
  shows "padded (uint sz) (d @ replicate (unat (- sz AND 15)) 0)"
proof -
  have "int (length (d @ replicate (unat (- sz AND 15)) (0 :: byte))) = uint sz + (- uint sz) mod 16"
    using assms by (simp add: neg_and_15)
  also have "\<dots> = (uint sz + 15) div 16 * 16" by (rule round_up_int)
  finally show ?thesis unfolding padded_def by (metis nat_int)
qed

lemma chunk_roundtrip:
  fixes r :: httpreqxfer
  assumes L: "aes_ok L" and sz: "0 \<le> pos" "pos \<le> npos" "npos - pos < 2 ^ 31"
    and rd: "fst (fa_fread S (nat (npos - pos)) (nat ((pos - npos) mod 16)) pos fa) = Some (d @ replicate (nat ((pos - npos) mod 16)) 0)"
      "length d = nat (npos - pos)"
    and ul: "ul_prepare S fa url L key macs ctriv pos npos r = (ok, r', macs')"
    and dl: "hr_buf q = Some b" "padded (npos - pos) b" "take (nat (npos - pos)) b = hr_out r'"
      "hr_bufpos q = npos - pos" "hx_dlpos q = pos"
    and fin: "dl_finalize L key m ctriv 0 (-1) q = (q', w, m')"
  shows "ok \<and> w = (d, pos) \<and> om_lookup m' pos = om_lookup macs' pos \<and> om_lookup m' pos \<noteq> None"
proof -
  define n where "n = npos - pos"
  define sz where "sz = (word_of_int n :: u32)"
  define D where "D = d @ replicate (nat ((- n) mod 16)) 0"
  let ?ctr = "ctr_start pos ctriv" let ?mac = "take 8 (ctr_start pos ctriv) @ take 8 (ctr_start pos ctriv)"
  have n: "0 \<le> n" "n < 2 ^ 31" using assms(3,4) by (simp_all add: n_def)
  have u: "uint sz = n" "unat sz = nat n"
    using n by (simp_all add: sz_def unsigned_of_int take_bit_int_eq_self)
  have D: "padded n D" "\<forall>b \<in> set (drop (nat n) D). b = 0" "take (nat n) D = d"
    using padded_fread [of d sz] rd(2) u by (simp_all add: D_def n_def neg_and_15)
  have "fst (fa_fread S (unat sz) (unat (- sz AND 15)) pos fa) = Some D"
    using rd(1) by (simp add: u neg_and_15 D_def n_def)
  then have e: "ok" "hr_out r' = take (nat n) (fst (ctr_loop L key True n D ?ctr ?mac))"
    "om_lookup macs' pos = Some (snd (ctr_loop L key True n D ?ctr ?mac))"
    using ul n(2) by (auto simp: ul_prepare_def Let_def u ctr_crypt_short setreq_def case_prod_beta om_lookup_map_of map_of_om_update simp flip: n_def sz_def)
  have rt: "take (nat n) (fst (ctr_loop L key False n b ?ctr ?mac)) = take (nat n) D \<and>
      snd (ctr_loop L key False n b ?ctr ?mac) = snd (ctr_loop L key True n D ?ctr ?mac)"
    by (rule ctr_loop_roundtrip [OF L D(1,2)]) (use dl D(1) e(2) in \<open>simp_all add: n_def padded_def\<close>)
  have "w = (take (nat n) (fst (ctr_loop L key False n b ?ctr ?mac)), pos)"
    "om_lookup m' pos = Some (snd (ctr_loop L key False n b ?ctr ?mac))"
    using fin dl sz by (auto simp: dl_finalize_def Let_def ctr_crypt_short case_prod_beta n_def om_lookup_map_of map_of_om_update)
  with rt D(3) e show ?thesis by simp
qed

end
