(* ===== verification/Db.thy ===== *)
theory Db
  imports Utils
begin

text \<open>
  \<open>src/db.cpp\<close>: the encrypted state cache on top of a key-value table. The table is a virtual
  interface (SQLite, Berkeley DB); \<open>raw_put\<close> and \<open>raw_next\<close> are its \<open>put\<close> and \<open>next\<close>,
  functions on a table state \<open>'t\<close>. The record's \<open>serialize\<close> result is an argument
  (\<open>None\<close>: it returned false).
\<close>

record 't dbtable =
  db_nextid :: u32
  db_table :: 't

definition IDSPACING :: u32 where
  "IDSPACING = 16"

definition DbTable :: "'t \<Rightarrow> 't dbtable" where
  "DbTable t = \<lparr>db_nextid = 0, db_table = t\<rparr>"

text \<open>The return value, the record (its \<open>dbid\<close>) and the table.\<close>

definition db_put :: "(u32 \<Rightarrow> bytes \<Rightarrow> 't \<Rightarrow> bool \<times> 't) \<Rightarrow> aes \<Rightarrow> u32 \<Rightarrow> bytes option \<Rightarrow> symm \<Rightarrow> cachable \<Rightarrow> 't dbtable
    \<Rightarrow> bool \<times> cachable \<times> 't dbtable" where
  "db_put raw_put L type ser key r db =
     (case ser of
        None \<Rightarrow> (True, r, db)
      | Some data \<Rightarrow>
          (let d = padded_encrypt L key data;
               (r1, db1) = (if dbid r = 0
                  then (let n = db_nextid db + IDSPACING in (r\<lparr>dbid := n OR type\<rparr>, db\<lparr>db_nextid := n\<rparr>))
                  else (r, db));
               (ok, t) = raw_put (dbid r1) d (db_table db1)
           in (ok, r1, db1\<lparr>db_table := t\<rparr>)))"

text \<open>The return value, \<open>*type\<close>, \<open>*data\<close> and the table.\<close>

definition db_next :: "('t \<Rightarrow> (u32 \<times> bytes) option \<times> 't) \<Rightarrow> aes \<Rightarrow> symm \<Rightarrow> 't dbtable
    \<Rightarrow> (bool \<times> u32 \<times> bytes) option \<times> 't dbtable" where
  "db_next raw_next L key db =
     (case raw_next (db_table db) of
        (None, t) \<Rightarrow> (None, db\<lparr>db_table := t\<rparr>)
      | (Some (type, data), t) \<Rightarrow>
          if type = 0 then (Some (True, type, data), db\<lparr>db_table := t\<rparr>)
          else
            (let n = (if type > db_nextid db then type AND - IDSPACING else db_nextid db);
                 (d, ok) = padded_decrypt L key data
             in (Some (ok, type, d), db\<lparr>db_table := t, db_nextid := n\<rparr>)))"

section \<open>Identifiers\<close>

text \<open>Every id in the table belongs to a slot at or below \<open>nextid\<close>, which is a slot start.\<close>

definition ids_ok :: "u32 set \<Rightarrow> 't dbtable \<Rightarrow> bool" where
  "ids_ok ids db \<longleftrightarrow> db_nextid db AND 15 = 0 \<and> (\<forall>i \<in> ids. i AND - 16 \<le> db_nextid db)"

lemma mask_16: "(15 :: u32) = mask 4" "(- 16 :: u32) = NOT (mask 4)"
  by (simp_all add: mask_eq_exp_minus_1 not_eq_complement)

lemma slot_unat: "unat (i AND - 16 :: u32) = unat i div 16 * 16"
proof -
  have "i AND - 16 = push_bit 4 (drop_bit 4 i)"
    unfolding mask_16 by (rule bit_word_eqI) (auto simp: bit_simps)
  also have "unat \<dots> = unat i div 16 * 16"
  proof -
    have "unat (drop_bit 4 i) = unat i div 16" by (subst unat_drop_bit_eq) (simp add: drop_bit_eq_div)
    moreover have "unat i div 16 * 16 < 2 ^ 32" using unsigned_less [where ?'a = nat, of i] by (intro le_less_trans [OF div_times_less_eq_dividend]) simp
    moreover have "unat (push_bit 4 (drop_bit 4 i)) = unat (drop_bit 4 i) * 16 mod 2 ^ 32"
      by (simp add: push_bit_eq_mult unat_word_ariths)
    ultimately show ?thesis by simp
  qed
  finally show ?thesis .
qed

lemma low_unat: "unat (i AND 15 :: u32) = unat i mod 16"
  unfolding mask_16 by (simp add: unat_and_mask)

lemma or_slot:
  assumes n: "n AND 15 = (0 :: u32)" and ty: "unat ty < 16"
  shows "unat (n OR ty) = unat n + unat ty"
proof -
  have "ty = take_bit 4 ty"
  proof -
    have "unat (take_bit 4 ty) = unat ty mod 16"
      by (simp only: unsigned_take_bit_eq) (simp add: take_bit_eq_mod)
    then show ?thesis using ty by (simp only: word_unat_eq_iff mod_less)
  qed
  then have hi: "\<not> bit ty k" if "4 \<le> k" for k using that by (metis bit_take_bit_iff not_less)
  have lo: "\<not> bit n k" if "k < 4" for k
    using n that bit_and_iff [of n "mask 4" k] by (auto simp: mask_16 bit_mask_iff dest: bit_imp_le_length)
  have "n OR ty = n + ty"
    using hi lo by (subst disjunctive_add) (auto, meson not_less)
  moreover have "unat n mod 16 = 0" using n low_unat [of n] by simp
  then obtain k where "unat n = 16 * k" by (auto simp: mod_eq_0_iff_dvd)
  then have "unat n + unat ty < 2 ^ 32"
    using ty unsigned_less [where ?'a = nat, of n] by simp
  ultimately show ?thesis by (simp add: unat_word_ariths)
qed

lemma next_slot:
  assumes "n AND 15 = (0 :: u32)" "unat n + 16 < 2 ^ 32"
  shows "unat (n + 16) = unat n + 16" "(n + 16) AND 15 = 0"
proof -
  show u: "unat (n + 16) = unat n + 16" using assms(2) by (simp add: unat_word_ariths)
  have "unat n mod 16 = 0" using assms(1) low_unat [of n] by simp
  then have "unat ((n + 16) AND 15) = 0" by (simp add: low_unat u)
  then show "(n + 16) AND 15 = 0" by (simp add: unat_eq_zero)
qed

text \<open>A new record gets a fresh id that carries its type.\<close>

lemma db_put_fresh:
  assumes inv: "ids_ok ids db" and new: "dbid r = 0" and ty: "unat type < 16"
    and room: "unat (db_nextid db) + 16 < 2 ^ 32"
    and put: "db_put raw_put L type (Some data) key r db = (ok, r', db')"
  shows "dbid r' \<notin> ids \<and> dbid r' \<noteq> 0 \<and> dbid r' AND 15 = type \<and> ids_ok (insert (dbid r') ids) db' \<and>
    (ok, db_table db') = raw_put (dbid r') (padded_encrypt L key data) (db_table db)"
proof -
  let ?n = "db_nextid db + 16"
  have n: "unat ?n = unat (db_nextid db) + 16" "?n AND 15 = 0"
    using next_slot [of "db_nextid db"] inv room by (simp_all add: ids_ok_def)
  have r': "dbid r' = ?n OR type" "db_nextid db' = ?n"
    and t: "(ok, db_table db') = raw_put (dbid r') (padded_encrypt L key data) (db_table db)"
    using put new by (auto simp: db_put_def IDSPACING_def Let_def split: prod.splits)
  have u: "unat (dbid r') = unat ?n + unat type" unfolding r' by (rule or_slot [OF n(2) ty])
  have "unat ?n mod 16 = 0" using n(2) low_unat [of ?n] by simp
  then obtain k where k: "unat ?n = 16 * k" by (auto simp: mod_eq_0_iff_dvd)
  have d: "unat (dbid r') div 16 * 16 = unat ?n" "unat (dbid r') mod 16 = unat type"
    using ty unfolding u k by simp_all
  then have "unat (dbid r' AND - 16) = unat ?n" "unat (dbid r' AND 15) = unat type"
    by (simp_all add: slot_unat low_unat)
  then have sl: "dbid r' AND - 16 = ?n" "dbid r' AND 15 = type" by (simp_all only: word_unat_eq_iff)
  have lt: "db_nextid db < ?n" using n(1) by (simp add: word_less_nat_alt)
  then have "dbid r' \<notin> ids" using inv sl(1) by (auto simp: ids_ok_def)
  moreover have "ids_ok (insert (dbid r') ids) db'"
    using inv n(2) sl(1) lt by (auto simp: ids_ok_def r'(2))
  moreover have "dbid r' \<noteq> 0" using u n(1) by (metis add_is_0 unat_0 zero_neq_numeral)
  ultimately show ?thesis using sl(2) t by blast
qed

text \<open>Reading a record accounts for its id.\<close>

lemma db_next_ids:
  assumes "ids_ok ids db" "db_next raw_next L key db = (Some (ok, type, data), db')"
  shows "ids_ok (insert type ids) db'"
proof -
  have nid: "db_nextid db' = (if type \<noteq> 0 \<and> type > db_nextid db then type AND - 16 else db_nextid db)"
    using assms(2) by (auto simp: db_next_def IDSPACING_def Let_def split: prod.splits option.splits if_splits)
  have le: "i AND - 16 \<le> i" for i :: u32 by (simp add: word_and_le2)
  have z: "(i AND - 16) AND 15 = 0" for i :: u32
    unfolding mask_16 by (rule bit_word_eqI) (auto simp: bit_simps)
  have "type AND - 16 \<le> db_nextid db'" using le [of type] by (auto simp: nid intro: order_trans)
  moreover have "db_nextid db \<le> db_nextid db'"
  proof (cases "type > db_nextid db")
    case True
    have "unat (db_nextid db) mod 16 = 0" using assms(1) low_unat [of "db_nextid db"] by (simp add: ids_ok_def)
    moreover have "unat (db_nextid db) \<le> unat type" using True by (simp add: word_less_nat_alt)
    ultimately have "unat (db_nextid db) \<le> unat type div 16 * 16"
      using div_le_mono [of "unat (db_nextid db)" "unat type" 16] by (auto simp: mod_eq_0_iff_dvd)
    then show ?thesis using True by (auto simp: nid word_le_nat_alt slot_unat)
  qed (simp add: nid)
  ultimately show ?thesis using assms(1) z by (auto simp: ids_ok_def nid intro: order_trans split: if_splits)
qed

text \<open>Reading the whole table: the records with their decrypted data.\<close>

fun db_load :: "nat \<Rightarrow> ('t \<Rightarrow> (u32 \<times> bytes) option \<times> 't) \<Rightarrow> aes \<Rightarrow> symm \<Rightarrow> 't dbtable
    \<Rightarrow> (bool \<times> u32 \<times> bytes) list \<times> 't dbtable" where
  "db_load 0 raw_next L key db = ([], db)"
| "db_load (Suc n) raw_next L key db =
     (case db_next raw_next L key db of
        (None, db1) \<Rightarrow> ([], db1)
      | (Some r, db1) \<Rightarrow> (let (rs, db2) = db_load n raw_next L key db1 in (r # rs, db2)))"

lemma db_load_ids:
  "ids_ok ids db \<Longrightarrow> ids_ok (ids \<union> set (map (fst \<circ> snd) (fst (db_load n raw_next L key db))))
     (snd (db_load n raw_next L key db))"
proof (induction n arbitrary: ids db)
  case (Suc n)
  obtain r db1 where nx: "db_next raw_next L key db = (r, db1)" by fastforce
  show ?case
  proof (cases r)
    case None
    then have "db_nextid db1 = db_nextid db"
      using nx by (auto simp: db_next_def Let_def split: prod.splits option.splits if_splits)
    then show ?thesis using Suc.prems None nx by (simp add: ids_ok_def)
  next
    case (Some v)
    obtain ok type data where v: "v = (ok, type, data)" by (cases v)
    have "ids_ok (insert type ids) db1" using db_next_ids [OF Suc.prems] nx Some v by simp
    from Suc.IH [OF this] show ?thesis using nx Some v by (simp add: case_prod_beta)
  qed
qed simp

end
