(* ===== verification/Backoff.thy ===== *)
theory Backoff
  imports Mega_Prelude
begin

text \<open>
  \<open>src/backofftimer.cpp\<close>: the retry timer with capped exponential backoff. Time is the
  \<open>uint32_t\<close> decisecond counter \<open>Waiter::ds\<close>, an argument \<open>ds\<close> of the operations that
  read it, and all arithmetic wraps at 32 bits.
\<close>

record backoff_timer =
  bt_next :: dstime
  bt_delta :: dstime

definition reset :: "backoff_timer \<Rightarrow> backoff_timer" where
  "reset t = t\<lparr>bt_next := 0, bt_delta := 1\<rparr>"

text \<open>The constructor.\<close>

definition BackoffTimer :: backoff_timer where
  "BackoffTimer = \<lparr>bt_next = 0, bt_delta = 1\<rparr>"

definition backoff :: "dstime \<Rightarrow> backoff_timer \<Rightarrow> backoff_timer" where
  "backoff ds t =
     (let d = push_bit 1 (bt_delta t) in
      t\<lparr>bt_next := ds + bt_delta t, bt_delta := (if d > 36000 then 36000 else d)\<rparr>)"

definition backoff_to :: "dstime \<Rightarrow> dstime \<Rightarrow> backoff_timer \<Rightarrow> backoff_timer" where
  "backoff_to ds newdelta t = t\<lparr>bt_next := ds + newdelta, bt_delta := newdelta\<rparr>"

definition armed :: "dstime \<Rightarrow> backoff_timer \<Rightarrow> bool" where
  "armed ds t \<longleftrightarrow> bt_next t = 0 \<or> bt_next t \<le> ds"

definition arm :: "dstime \<Rightarrow> backoff_timer \<Rightarrow> bool \<times> backoff_timer" where
  "arm ds t =
     (if bt_next t + bt_delta t > ds then (True, t\<lparr>bt_next := ds, bt_delta := 1\<rparr>)
      else (False, t))"

definition retryin :: "dstime \<Rightarrow> backoff_timer \<Rightarrow> dstime" where
  "retryin ds t = (if armed ds t then 0 else bt_next t - ds)"

definition backoffdelta :: "backoff_timer \<Rightarrow> dstime" where
  "backoffdelta t = bt_delta t"

definition nextset :: "backoff_timer \<Rightarrow> dstime" where
  "nextset t = bt_next t"

text \<open>\<open>update(&waituntil)\<close>: the new \<open>*waituntil\<close> and the timer.\<close>

definition update_wait :: "dstime \<Rightarrow> dstime \<Rightarrow> backoff_timer \<Rightarrow> dstime \<times> backoff_timer" where
  "update_wait ds waituntil t =
     (if bt_next t \<noteq> 0 then
        if bt_next t \<le> ds then (0, t\<lparr>bt_next := 1\<rparr>)
        else if bt_next t < waituntil then (bt_next t, t)
        else (waituntil, t)
      else (waituntil, t))"

text \<open>Any use of a timer is a sequence of these calls, each with the clock at that moment.\<close>

datatype bt_op = Reset | Backoff | BackoffTo dstime | Arm | Update dstime

fun bt_exec :: "dstime \<times> bt_op \<Rightarrow> backoff_timer \<Rightarrow> backoff_timer" where
  "bt_exec (ds, Reset) t = reset t"
| "bt_exec (ds, Backoff) t = backoff ds t"
| "bt_exec (ds, BackoffTo d) t = backoff_to ds d t"
| "bt_exec (ds, Arm) t = snd (arm ds t)"
| "bt_exec (ds, Update w) t = snd (update_wait ds w t)"

fun bt_op_ok :: "bt_op \<Rightarrow> bool" where
  "bt_op_ok (BackoffTo d) \<longleftrightarrow> 1 \<le> d \<and> d \<le> 36000"
| "bt_op_ok _ \<longleftrightarrow> True"

definition delta_ok :: "backoff_timer \<Rightarrow> bool" where
  "delta_ok t \<longleftrightarrow> 1 \<le> bt_delta t \<and> bt_delta t \<le> 36000"

lemmas bt_defs = reset_def BackoffTimer_def backoff_def backoff_to_def armed_def arm_def
  retryin_def backoffdelta_def nextset_def update_wait_def

section \<open>Lemmas\<close>

lemma unat_shift1: "unat d \<le> 36000 \<Longrightarrow> unat (push_bit 1 d) = 2 * unat d" for d :: dstime
  by (simp add: unat_word_ariths)

lemma backoff_delta_ok: "delta_ok t \<Longrightarrow> delta_ok (backoff ds t)"
  by (auto simp: delta_ok_def backoff_def Let_def word_le_nat_alt word_less_nat_alt
      unat_word_ariths)

lemma backoff_delta: "delta_ok t \<Longrightarrow>
    unat (bt_delta (backoff ds t)) = min (2 * unat (bt_delta t)) 36000"
  by (auto simp: delta_ok_def backoff_def Let_def word_le_nat_alt word_less_nat_alt
      unat_word_ariths)

lemma bt_exec_delta_ok: "bt_op_ok o1 \<Longrightarrow> delta_ok t \<Longrightarrow> delta_ok (bt_exec (ds, o1) t)"
  by (cases o1) (auto simp: backoff_delta_ok, auto simp: delta_ok_def bt_defs)

lemma backoffs_delta:
  "unat (bt_delta (fold backoff dss BackoffTimer)) = min (2 ^ length dss) 36000 \<and>
   delta_ok (fold backoff dss BackoffTimer)"
proof (induction dss rule: rev_induct)
  case Nil
  then show ?case by (simp add: BackoffTimer_def delta_ok_def)
next
  case (snoc ds dss)
  then show ?case
    by (simp add: backoff_delta backoff_delta_ok)
qed

end
