(* ===== verification/Transfers.thy ===== *)
theory Transfers
  imports Http Session Backoff
begin

text \<open>
  \<open>src/transferslot.cpp\<close>: the state machine that moves one file in chunks over several connections, with the requests of
  \<open>Http\<close>. A transfer owns its slot. The network layer sets the status of a posted request and, later, its outcome; between two calls
  of \<open>doio\<close> it is the environment.
\<close>

datatype direction = GET | PUT

record tslotx = tslot +
  sl_fa :: "fileaccess option"
  sl_progressreported :: int
  sl_progresscompleted :: int
  sl_errorcount :: u32
  sl_ultoken :: bytes
  sl_reqs :: "httpreqxfer option list"
  sl_failure :: bool
  sl_retrying :: bool
  sl_retrybt :: backoff_timer

text \<open>\<open>include/mega/file.h\<close>: a file to be transferred, without its link to the transfer.\<close>

record xfile =
  fl_fp :: fingerprint
  fl_name :: bytes
  fl_localname :: bytes
  fl_h :: handle
  fl_hprivate :: bool
  fl_syncxfer :: bool
  fl_filekey :: bytes
  fl_targetuser :: bytes

text \<open>\<open>include/mega/transfer.h\<close>.\<close>

record transfer =
  tf_type :: direction
  tf_fp :: fingerprint
  tf_slot :: "tslotx option"
  tf_files :: "xfile list"
  tf_failcount :: u32
  tf_bt :: backoff_timer
  tf_localfilename :: bytes
  tf_pos :: int
  tf_filekey :: bytes
  tf_ctriv :: u64
  tf_metamac :: u64
  tf_key :: symm
  tf_chunkmacs :: chunkmac_map
  tf_uploadhandle :: handle
  tf_tag :: int

text \<open>The state of the connections to the storage servers, as far as transfers change it: \<open>chunkfailed\<close>, \<open>httpio\<close>, \<open>badhosts\<close>.\<close>

record netstate =
  nt_chunkfailed :: bool
  nt_io :: httpio
  nt_badhosts :: bytes

text \<open>What a call of \<open>doio\<close> depends on: the cipher, the file, the clock, fresh memory, whether a failed read can be retried (\<open>fa->retry\<close>), how
  much of an upload was sent (\<open>postpos\<close>), and the status that \<open>httpio->post\<close> gives a request.\<close>

record ioenv =
  io_L :: aes
  io_S :: syscalls
  io_ds :: dstime
  io_mem :: "nat \<Rightarrow> bytes"
  io_retry :: bool
  io_postpos :: "nat \<Rightarrow> int"
  io_posted :: "nat \<Rightarrow> reqstatus"

datatype xfer_event = transfer_update | transfer_limit | file_written bytes int

text \<open>How \<open>doio\<close> returns: by itself, or with \<open>transfer->complete()\<close> or \<open>transfer->failed(e)\<close>.\<close>

datatype xfer_end = Going | Complete | Failed int

abbreviation (input) API_EREAD :: int where "API_EREAD \<equiv> -21"
abbreviation (input) API_EFAILED :: int where "API_EFAILED \<equiv> -5"
abbreviation (input) XFERTIMEOUT :: dstime where "XFERTIMEOUT \<equiv> 600"
abbreviation (input) UPLOADTOKENLEN :: nat where "UPLOADTOKENLEN \<equiv> 27"

text \<open>\<open>MegaClient::setchunkfailed\<close>: the scheme and seven characters of the host.\<close>

definition setchunkfailed :: "bytes \<Rightarrow> netstate \<Rightarrow> netstate" where
  "setchunkfailed url nt =
     (if \<not> nt_chunkfailed nt \<and> length url > 19 then
        (let b1 = (if nt_badhosts nt \<noteq> [] then nt_badhosts nt @ str '','' else nt_badhosts nt);
             secure = (url ! 4 = 115);
             b2 = (if secure then b1 @ str ''S'' else b1);
             ptr = (if secure then drop 5 url else drop 4 url)
         in nt\<lparr>nt_chunkfailed := True, nt_io := (nt_io nt)\<lparr>io_success := False\<rparr>, nt_badhosts := b2 @ take 7 (drop 6 ptr)\<rparr>)
      else nt)"

section \<open>MACs and keys\<close>

text \<open>\<open>TransferSlot::macsmac\<close>: the map is empty afterwards.\<close>

definition macsmac :: "aes \<Rightarrow> symm \<Rightarrow> chunkmac_map \<Rightarrow> u64" where
  "macsmac L key macs =
     (let mac = fold (\<lambda>(_, m) mac. ecb_encrypt L key (xorblock m mac)) macs (replicate 16 0);
          m = (\<lambda>i. le_word (take 4 (drop (4 * i) mac)) :: u32)
      in le_word (le_bytes 4 (m 0 XOR m 1) @ le_bytes 4 (m 2 XOR m 3)))"

text \<open>The key of an uploaded file: cipher key, IV and meta MAC, folded.\<close>

definition file_key :: "symm \<Rightarrow> u64 \<Rightarrow> u64 \<Rightarrow> bytes" where
  "file_key key ctriv mac = (let k = le_bytes 8 ctriv @ le_bytes 8 mac in xorblock k (take 16 (sk_key key)) @ k)"

text \<open>\<open>atoi\<close>, on what the storage server returns in place of a token.\<close>

definition atoi :: "bytes \<Rightarrow> int" where
  "atoi s = to_int (atoll s)"

section \<open>One request\<close>

text \<open>The variables of \<open>doio\<close> that the loop over the connections changes.\<close>

record iostate =
  lo_t :: transfer
  lo_s :: tslotx
  lo_net :: netstate
  lo_p :: int
  lo_backoff :: dstime
  lo_events :: "xfer_event list"

type_synonym io_result = "(xfer_end \<times> iostate) + iostate"

definition lo_slot :: "(tslotx \<Rightarrow> tslotx) \<Rightarrow> iostate \<Rightarrow> iostate" where
  "lo_slot f st = st\<lparr>lo_s := f (lo_s st)\<rparr>"

definition lo_req :: "nat \<Rightarrow> httpreqxfer \<Rightarrow> iostate \<Rightarrow> iostate" where
  "lo_req i r = lo_slot (\<lambda>s. s\<lparr>sl_reqs := (sl_reqs s)[i := Some r]\<rparr>)"

definition lo_event :: "xfer_event \<Rightarrow> iostate \<Rightarrow> iostate" where
  "lo_event e st = st\<lparr>lo_events := lo_events st @ [e]\<rparr>"

text \<open>\<open>case REQ_SUCCESS\<close> of an upload: the response to the last chunk is the token.\<close>

definition put_success :: "ioenv \<Rightarrow> nat \<Rightarrow> httpreqxfer \<Rightarrow> iostate \<Rightarrow> io_result" where
  "put_success E i r st =
     (let st1 = lo_slot (\<lambda>s. s\<lparr>sl_errorcount := 0\<rparr>) st; t = lo_t st1 in
      if hr_in r \<noteq> [] then
        (let tok = atob (hr_in r) (UPLOADTOKENLEN + 1);
             st2 = (if length (hr_in r) = UPLOADTOKENLEN * 4 div 3
                    then lo_slot (\<lambda>s. s\<lparr>sl_ultoken := put_front tok (sl_ultoken s)\<rparr>) st1 else st1)
         in if length (hr_in r) = UPLOADTOKENLEN * 4 div 3 \<and> length tok = UPLOADTOKENLEN
            then Inl (Complete, st2\<lparr>lo_t := t\<lparr>tf_filekey := file_key (tf_key t) (tf_ctriv t) (macsmac (io_L E) (tf_key t) (tf_chunkmacs t)),
                   tf_chunkmacs := []\<rparr>\<rparr>)
            else Inl (Failed (atoi (hr_in r)), st2))
      else Inr (lo_req i (r\<lparr>hr_status := REQ_READY\<rparr>) st1))"

text \<open>\<open>case REQ_SUCCESS\<close> of a download: a full chunk is decrypted and written, another one repeated.\<close>

definition get_success :: "ioenv \<Rightarrow> nat \<Rightarrow> httpreqxfer \<Rightarrow> iostate \<Rightarrow> io_result" where
  "get_success E i r st =
     (if uint (hx_size r) = hr_bufpos r then
        (let t = lo_t st; st1 = lo_slot (\<lambda>s. s\<lparr>sl_errorcount := 0\<rparr>) st;
             (r1, (d, pos), macs) = dl_finalize (io_L E) (tf_key t) (tf_chunkmacs t) (tf_ctriv t) 0 (-1) r;
             st2 = lo_event (file_written d pos) (lo_req i r1 (st1\<lparr>lo_t := t\<lparr>tf_chunkmacs := macs\<rparr>\<rparr>));
             got = sl_progresscompleted (lo_s st2)
         in if got = fp_size (tf_fp t) then
              if got = 0 then Inl (Complete, st2)
              else Inl (if macsmac (io_L E) (tf_key t) macs = tf_metamac t then Complete else Failed API_EKEY, st2\<lparr>lo_t := t\<lparr>tf_chunkmacs := []\<rparr>\<rparr>)
            else Inr (lo_req i (r1\<lparr>hr_status := REQ_READY\<rparr>) st2))
      else Inr (lo_req i (r\<lparr>hr_status := REQ_PREPARED\<rparr>) (lo_slot (\<lambda>s. s\<lparr>sl_errorcount := sl_errorcount s + 1\<rparr>) st)))"

definition req_failure :: "nat \<Rightarrow> httpreqxfer \<Rightarrow> iostate \<Rightarrow> iostate" where
  "req_failure i r st =
     (if hr_httpstatus r = 509 then (lo_event transfer_limit st)\<lparr>lo_backoff := 6000\<rparr>
      else
        (let st1 = (if sl_failure (lo_s st) then st
                    else (lo_slot (\<lambda>s. s\<lparr>sl_failure := True\<rparr>) st)\<lparr>lo_net := setchunkfailed (hr_posturl r) (lo_net st)\<rparr>)
         in lo_req i (r\<lparr>hr_status := REQ_PREPARED\<rparr>) st1))"

text \<open>The switch on the status.\<close>

definition req_status :: "ioenv \<Rightarrow> nat \<Rightarrow> httpreqxfer \<Rightarrow> iostate \<Rightarrow> io_result" where
  "req_status E i r st =
     (case hr_status r of
        REQ_INFLIGHT \<Rightarrow> Inr (st\<lparr>lo_p := lo_p st + (if tf_type (lo_t st) = PUT then io_postpos E i else hr_transferred r)\<rparr>)
      | REQ_SUCCESS \<Rightarrow>
          (let st1 = lo_slot (\<lambda>s. s\<lparr>ts_lastdata := io_ds E, sl_progresscompleted := sl_progresscompleted s + uint (hx_size r)\<rparr>) st
           in if tf_type (lo_t st) = PUT then put_success E i r st1 else get_success E i r st1)
      | REQ_FAILURE \<Rightarrow> Inr (req_failure i r st)
      | _ \<Rightarrow> Inr st)"

text \<open>A free connection takes the next chunk.\<close>

definition new_request :: httpreqxfer where
  "new_request = httpreq.extend (HttpReq True) \<lparr>hx_size = 0, hx_dlpos = 0\<rparr>"

definition req_prepare :: "ioenv \<Rightarrow> nat \<Rightarrow> httpreqxfer \<Rightarrow> int \<Rightarrow> iostate \<Rightarrow> bool \<times> httpreqxfer \<times> chunkmac_map" where
  "req_prepare E i r npos st =
     (let t = lo_t st; s = lo_s st in
      if tf_type t = PUT
      then ul_prepare (io_S E) (the (sl_fa s)) (ts_tempurl s) (io_L E) (tf_key t) (tf_chunkmacs t) (tf_ctriv t) (tf_pos t) npos r
      else (True, dl_prepare (io_mem E) (ts_tempurl s) (tf_pos t) npos r, tf_chunkmacs t))"

definition req_next :: "ioenv \<Rightarrow> nat \<Rightarrow> iostate \<Rightarrow> io_result" where
  "req_next E i st =
     (let t = lo_t st; q = sl_reqs (lo_s st) ! i; size = fp_size (tf_fp t) in
      if (case q of None \<Rightarrow> True | Some r \<Rightarrow> hr_status r = REQ_READY) then
        (let npos = min (chunkceil (tf_pos t)) size in
         if npos > tf_pos t \<or> size = 0 then
           (let (ok, r, macs) = req_prepare E i (case q of Some r \<Rightarrow> r | None \<Rightarrow> new_request) npos st in
            if ok then Inr (lo_req i (r\<lparr>hr_status := REQ_PREPARED\<rparr>) (st\<lparr>lo_t := t\<lparr>tf_pos := npos, tf_chunkmacs := macs\<rparr>\<rparr>))
            else if io_retry E then Inr ((lo_req i r st)\<lparr>lo_backoff := 2\<rparr>)
            else Inl (Failed API_EREAD, lo_req i r st))
         else Inr (case q of Some r \<Rightarrow> lo_req i (r\<lparr>hr_status := REQ_DONE\<rparr>) st | None \<Rightarrow> st))
      else Inr st)"

definition req_post :: "ioenv \<Rightarrow> nat \<Rightarrow> iostate \<Rightarrow> iostate" where
  "req_post E i st =
     (case sl_reqs (lo_s st) ! i of
        Some r \<Rightarrow> if hr_status r = REQ_PREPARED then lo_req i ((hr_post r)\<lparr>hr_status := io_posted E i\<rparr>) st else st
      | None \<Rightarrow> st)"

definition req_continue :: "ioenv \<Rightarrow> nat \<Rightarrow> iostate \<Rightarrow> io_result" where
  "req_continue E i st = (case req_next E i st of Inl x \<Rightarrow> Inl x | Inr st1 \<Rightarrow> Inr (req_post E i st1))"

text \<open>The body of the loop.\<close>

definition doio_req :: "ioenv \<Rightarrow> nat \<Rightarrow> iostate \<Rightarrow> io_result" where
  "doio_req E i st =
     (case (case sl_reqs (lo_s st) ! i of Some r \<Rightarrow> req_status E i r st | None \<Rightarrow> Inr st) of
        Inl x \<Rightarrow> Inl x
      | Inr st1 \<Rightarrow>
          if sl_failure (lo_s st1) then Inr st1 else req_continue E i st1)"

text \<open>\<open>for (int i = connections; i--;)\<close>.\<close>

primrec doio_loop :: "ioenv \<Rightarrow> nat \<Rightarrow> iostate \<Rightarrow> io_result" where
  "doio_loop E 0 st = Inr st"
| "doio_loop E (Suc i) st = (case doio_req E i st of Inl x \<Rightarrow> Inl x | Inr st1 \<Rightarrow> doio_loop E i st1)"

section \<open>The state machine\<close>

text \<open>What follows the loop: progress, timeout, too many errors, the next call.\<close>

definition doio_progress :: "ioenv \<Rightarrow> iostate \<Rightarrow> iostate" where
  "doio_progress E st =
     (let p = lo_p st + sl_progresscompleted (lo_s st) in
      if p \<noteq> sl_progressreported (lo_s st)
      then lo_event transfer_update (lo_slot (\<lambda>s. s\<lparr>sl_progressreported := p, ts_lastdata := io_ds E\<rparr>) st) else st)"

definition doio_timeout :: "ioenv \<Rightarrow> iostate \<Rightarrow> iostate" where
  "doio_timeout E st =
     (if io_ds E - ts_lastdata (lo_s st) \<ge> XFERTIMEOUT \<and> \<not> sl_failure (lo_s st)
      then (lo_slot (\<lambda>s. s\<lparr>sl_failure := True\<rparr>) st)
        \<lparr>lo_net := fold (\<lambda>q nt. case q of Some r \<Rightarrow> setchunkfailed (hr_posturl r) nt | None \<Rightarrow> nt) (rev (sl_reqs (lo_s st))) (lo_net st)\<rparr>
      else st)"

definition doio_end :: "ioenv \<Rightarrow> iostate \<Rightarrow> xfer_end \<times> iostate" where
  "doio_end E st =
     (let st1 = doio_timeout E (doio_progress E st) in
      if sl_errorcount (lo_s st1) > 10 then (Failed API_EFAILED, st1)
      else
        (let b = (if lo_backoff st1 = 0 then XFERTIMEOUT - (io_ds E - ts_lastdata (lo_s st1)) else lo_backoff st1); t = lo_t st1
         in (Going, st1\<lparr>lo_t := t\<lparr>tf_bt := backoff_to (io_ds E) b (tf_bt t)\<rparr>\<rparr>)))"

definition io_start :: "transfer \<Rightarrow> tslotx \<Rightarrow> netstate \<Rightarrow> iostate" where
  "io_start t s nt = \<lparr>lo_t = t, lo_s = s, lo_net = nt, lo_p = 0, lo_backoff = 0, lo_events = []\<rparr>"

text \<open>\<open>TransferSlot::doio\<close> on a transfer with a slot.\<close>

definition doio :: "ioenv \<Rightarrow> transfer \<Rightarrow> tslotx \<Rightarrow> netstate \<Rightarrow> xfer_end \<times> iostate" where
  "doio E t s nt =
     (if sl_fa s = None
      then (Complete, io_start t (s\<lparr>sl_retrybt := backoff_to (io_ds E) 2 (sl_retrybt s), sl_retrying := True\<rparr>) nt)
      else
        (let s1 = s\<lparr>sl_retrying := False\<rparr> in
         if ts_tempurl s = [] then (Going, io_start t s1 nt)
         else (case doio_loop E (length (sl_reqs s)) (io_start t s1 nt) of Inl x \<Rightarrow> x | Inr st \<Rightarrow> doio_end E st)))"

text \<open>The constructor; what is not initialized is a parameter.\<close>

definition TransferSlot :: "dstime \<Rightarrow> nat \<Rightarrow> fileaccess \<Rightarrow> bytes \<Rightarrow> transfer \<Rightarrow> tslotx" where
  "TransferSlot ds conns fa junk t =
     \<lparr>ts_pendingcmd = False, ts_tempurl = [], ts_fileattrstring = [], ts_fileattrsmutable = 0, ts_starttime = 0, ts_lastdata = ds,
      sl_fa = Some fa, sl_progressreported = 0, sl_progresscompleted = 0, sl_errorcount = 0, sl_ultoken = junk,
      sl_reqs = replicate (if fp_size (tf_fp t) > 131072 then conns else 1) None, sl_failure = False, sl_retrying = False, sl_retrybt = BackoffTimer\<rparr>"

text \<open>In \<open>MegaClient::exec\<close>: after a successful network operation, slots with a failed chunk go on.\<close>

definition exec_failed_slot :: "tslotx \<Rightarrow> tslotx" where
  "exec_failed_slot s = (if sl_failure s then s\<lparr>sl_errorcount := sl_errorcount s + 1, sl_failure := False\<rparr> else s)"

end
