(* ===== verification/Downloads.thy ===== *)
theory Downloads
  imports Transfers
begin

text \<open>
  Downloads of an uploaded file: chunks that arrive complete, in any order and over any number of connections, give back the file, and the
  transfer completes. Then the cases in which it never does.
\<close>

section \<open>The chunks of a file\<close>

definition cpos :: "bytes \<Rightarrow> nat \<Rightarrow> int" where
  "cpos d j = min (chunk_start j) (int (length d))"

definition csize :: "bytes \<Rightarrow> nat \<Rightarrow> int" where
  "csize d j = cpos d (Suc j) - cpos d j"

definition nchunks :: "bytes \<Rightarrow> nat" where
  "nchunks d = length (takeWhile (\<lambda>k. chunk_start k < int (length d)) [0..<length d])"

lemma chunk_start_ge: "int k \<le> chunk_start k"
proof (induction k)
  case (Suc k)
  have "chunk_start k + 1 \<le> chunk_start (Suc k)" using chunk_start_mono [of k "Suc k"] by simp
  then show ?case using Suc by simp
qed simp

lemma nchunks_iff: "j < nchunks d \<longleftrightarrow> chunk_start j < int (length d)"
proof -
  define P where "P = (\<lambda>k. chunk_start k < int (length d))"
  have "P j" if "j < length (takeWhile P [0..<length d])"
  proof -
    have "j < length d" using that length_takeWhile_le [of P "[0..<length d]"] by simp
    then show ?thesis using nth_mem [OF that] takeWhile_nth [OF that] by (auto dest: set_takeWhileD)
  qed
  moreover have "Suc j \<le> length (takeWhile P [0..<length d])" if "P j"
  proof (rule length_takeWhile_less_P_nth)
    have "j < length d" using that chunk_start_ge [of j] by (simp add: P_def)
    then show "Suc j \<le> length [0..<length d]" by simp
    show "P ([0..<length d] ! i)" if "i < Suc j" for i
      using that \<open>P j\<close> \<open>j < length d\<close> chunk_start_mono [of i j] by (cases "i = j") (simp_all add: P_def)
  qed
  ultimately show ?thesis by (auto simp: nchunks_def P_def)
qed

lemma cpos_0 [simp]: "cpos d 0 = 0"
  by (simp add: cpos_def)

lemma cpos_nonneg [simp]: "0 \<le> cpos d j"
  using chunk_start_ge [of j] by (simp add: cpos_def)

lemma cpos_less: "j < k \<Longrightarrow> j < nchunks d \<Longrightarrow> cpos d j < cpos d k"
  using chunk_start_mono [of j k] by (auto simp: cpos_def nchunks_iff min_def)

lemma cpos_end: "nchunks d \<le> j \<Longrightarrow> cpos d j = int (length d)"
  using nchunks_iff [of j d] by (auto simp: cpos_def min_def)

lemma cpos_start: "j < nchunks d \<Longrightarrow> cpos d j = chunk_start j"
  by (simp add: nchunks_iff cpos_def)

lemma cpos_inj: "i < nchunks d \<Longrightarrow> j < nchunks d \<Longrightarrow> cpos d i = cpos d j \<longleftrightarrow> i = j"
  using cpos_less [of i j d] cpos_less [of j i d] by (cases i j rule: linorder_cases) auto

lemma csize_bounds: "j < nchunks d \<Longrightarrow> 0 < csize d j \<and> csize d j \<le> 2 ^ 20"
proof -
  assume j: "j < nchunks d"
  have "chunk_start (Suc j) \<le> chunk_start j + 2 ^ 20" by (simp add: chunk_start_Suc SEGSIZE_def min_def)
  then show ?thesis using cpos_less [OF _ j, of "Suc j"] cpos_start [OF j] by (simp add: csize_def) (simp add: cpos_def)
qed

lemma cpos_csize: "j < nchunks d \<Longrightarrow> nat (cpos d j) + nat (csize d j) = nat (cpos d (Suc j))"
  using csize_bounds [of j d] cpos_nonneg [of d j] unfolding csize_def by linarith

lemma csize_word: "j < nchunks d \<Longrightarrow> uint (word_of_int (csize d j) :: u32) = csize d j"
  using csize_bounds [of j d] by (simp add: unsigned_of_int take_bit_int_eq_self)

lemma next_chunk:
  assumes "j < nchunks d"
  shows "min (chunkceil (cpos d j)) (int (length d)) = cpos d (Suc j)"
  using chunk_floor_unique(2) [of j "chunk_start j"] chunk_start_mono [of j "Suc j"] by (simp add: cpos_start [OF assms]) (simp add: cpos_def)

lemma sum_csize: "(\<Sum>j<k. csize d j) = cpos d k"
  by (induction k) (simp_all add: csize_def)

lemma sum_csize_all:
  assumes "F \<subseteq> {..<nchunks d}"
  shows "(\<Sum>j\<in>F. csize d j) = int (length d) \<longleftrightarrow> F = {..<nchunks d}"
proof -
  have fin: "finite F" using assms finite_subset by blast
  have tot: "(\<Sum>j<nchunks d. csize d j) = int (length d)" by (simp add: sum_csize cpos_end)
  have "(\<Sum>j\<in>F. csize d j) < (\<Sum>j<nchunks d. csize d j)" if F: "F \<noteq> {..<nchunks d}"
  proof -
    obtain j where j: "j < nchunks d" "j \<notin> F" using assms F by auto
    show ?thesis
      by (rule sum_strict_mono2 [OF _ assms, of j]) (use j csize_bounds in \<open>auto intro: less_imp_le\<close>)
  qed
  then show ?thesis using tot by (metis less_irrefl)
qed

text \<open>What \<open>HttpReqUL::prepare\<close> makes of a chunk.\<close>

definition chunk_plain :: "bytes \<Rightarrow> nat \<Rightarrow> bytes" where
  "chunk_plain d j = take (nat (csize d j)) (drop (nat (cpos d j)) d)"

definition chunk_pad :: "bytes \<Rightarrow> nat \<Rightarrow> bytes" where
  "chunk_pad d j = chunk_plain d j @ replicate (nat ((- csize d j) mod 16)) 0"

definition chunk_enc :: "aes \<Rightarrow> symm \<Rightarrow> u64 \<Rightarrow> bytes \<Rightarrow> nat \<Rightarrow> bytes \<times> bytes" where
  "chunk_enc L key ctriv d j = ctr_crypt L key (chunk_pad d j) (csize d j) (cpos d j) ctriv True"

definition chunk_cipher :: "aes \<Rightarrow> symm \<Rightarrow> u64 \<Rightarrow> bytes \<Rightarrow> nat \<Rightarrow> bytes" where
  "chunk_cipher L key ctriv d j = take (nat (csize d j)) (fst (chunk_enc L key ctriv d j))"

definition file_macs :: "aes \<Rightarrow> symm \<Rightarrow> u64 \<Rightarrow> bytes \<Rightarrow> nat \<Rightarrow> chunkmac_map" where
  "file_macs L key ctriv d k = map (\<lambda>j. (cpos d j, snd (chunk_enc L key ctriv d j))) [0..<k]"

lemma length_chunk_plain: "j < nchunks d \<Longrightarrow> length (chunk_plain d j) = nat (csize d j)"
proof -
  assume j: "j < nchunks d"
  have "cpos d (Suc j) \<le> int (length d)" by (simp add: cpos_def)
  then show ?thesis using cpos_csize [OF j] by (simp add: chunk_plain_def min_def) linarith
qed

lemma chunk_pad_ok:
  assumes "j < nchunks d"
  shows "padded (csize d j) (chunk_pad d j)" "\<forall>b \<in> set (drop (nat (csize d j)) (chunk_pad d j)). b = 0" "take (nat (csize d j)) (chunk_pad d j) = chunk_plain d j"
proof -
  have l: "length (chunk_plain d j) = nat (csize d j)" by (rule length_chunk_plain [OF assms])
  have "int (length (chunk_pad d j)) = (csize d j + 15) div 16 * 16"
    using csize_bounds [OF assms] round_up_int [of "csize d j"] by (simp add: chunk_pad_def l)
  then show "padded (csize d j) (chunk_pad d j)" unfolding padded_def by (metis nat_int)
  show "\<forall>b \<in> set (drop (nat (csize d j)) (chunk_pad d j)). b = 0" "take (nat (csize d j)) (chunk_pad d j) = chunk_plain d j"
    by (simp_all add: chunk_pad_def l)
qed

lemma length_cipher: "j < nchunks d \<Longrightarrow> length (chunk_cipher L key ctriv d j) = nat (csize d j)"
proof -
  assume j: "j < nchunks d"
  have "length (fst (chunk_enc L key ctriv d j)) = length (chunk_pad d j)"
    using length_ctr_loop [OF chunk_pad_ok(1) [OF j]] csize_bounds [OF j] by (simp add: chunk_enc_def ctr_crypt_short)
  then show ?thesis using length_chunk_plain [OF j] by (simp add: chunk_cipher_def chunk_pad_def)
qed

text \<open>A chunk that was received.\<close>

lemma dl_finalize_chunk:
  assumes L: "aes_ok L" and j: "j < nchunks d" and b: "hr_buf r = Some b" "padded (csize d j) b" "take (nat (csize d j)) b = chunk_cipher L key ctriv d j"
    and r: "hr_bufpos r = csize d j" "hx_dlpos r = cpos d j"
  shows "\<exists>b'. padded (csize d j) b' \<and> dl_finalize L key m ctriv 0 (-1) r =
    (r\<lparr>hr_buf := Some b'\<rparr>, (chunk_plain d j, cpos d j), om_update (cpos d j) (snd (chunk_enc L key ctriv d j)) m)"
proof -
  let ?n = "csize d j" let ?ctr = "ctr_start (cpos d j) ctriv" let ?mac = "take 8 ?ctr @ take 8 ?ctr"
  have len: "length (ctr_start p c) = 16" for p c by (simp add: ctr_start_def setint64_def)
  have small: "?n < 2 ^ 31" using csize_bounds [OF j] by simp
  have rt: "take (nat ?n) (fst (ctr_loop L key False ?n b ?ctr ?mac)) = take (nat ?n) (chunk_pad d j) \<and>
      snd (ctr_loop L key False ?n b ?ctr ?mac) = snd (ctr_loop L key True ?n (chunk_pad d j) ?ctr ?mac)"
    by (rule ctr_loop_roundtrip [OF L chunk_pad_ok(1,2) [OF j]])
      (use b(2,3) chunk_pad_ok(1) [OF j] small in \<open>simp_all add: len padded_def chunk_cipher_def chunk_enc_def ctr_crypt_short\<close>)
  have "padded ?n (fst (ctr_loop L key False ?n b ?ctr ?mac))"
    using length_ctr_loop [OF b(2), of L key False ?ctr ?mac] b(2) by (simp add: padded_def)
  then show ?thesis
    using rt b(1) r chunk_pad_ok(3) [OF j] small
    by (intro exI [of _ "fst (ctr_loop L key False ?n b ?ctr ?mac)"])
      (simp add: dl_finalize_def ctr_crypt_short chunk_enc_def Let_def case_prod_beta)
qed

section \<open>Connections and chunks\<close>

text \<open>The file that a storage server has, and how it was encrypted.\<close>

record source =
  so_L :: aes
  so_key :: symm
  so_iv :: u64
  so_d :: bytes

abbreviation (input) so_cipher :: "source \<Rightarrow> nat \<Rightarrow> bytes" where
  "so_cipher X \<equiv> chunk_cipher (so_L X) (so_key X) (so_iv X) (so_d X)"

abbreviation (input) so_mac :: "source \<Rightarrow> nat \<Rightarrow> bytes" where
  "so_mac X j \<equiv> snd (chunk_enc (so_L X) (so_key X) (so_iv X) (so_d X) j)"

definition buffer_ok :: "httpreqxfer \<Rightarrow> bool" where
  "buffer_ok r \<longleftrightarrow> (case hr_buf r of None \<Rightarrow> True | Some b \<Rightarrow> padded (hr_buflen r) b)"

lemma buffer_ok_status [simp]: "buffer_ok (r\<lparr>hr_status := x\<rparr>) = buffer_ok r"
  by (simp add: buffer_ok_def split: option.split)

text \<open>A connection without a chunk, and one that loads or has loaded chunk \<open>j\<close>.\<close>

definition idle :: "httpreqxfer \<Rightarrow> bool" where
  "idle r \<longleftrightarrow> hr_status r \<in> {REQ_READY, REQ_DONE} \<and> buffer_ok r"

definition loads :: "source \<Rightarrow> nat \<Rightarrow> httpreqxfer \<Rightarrow> bool" where
  "loads X j r \<longleftrightarrow>
     hx_dlpos r = cpos (so_d X) j \<and> uint (hx_size r) = csize (so_d X) j \<and> hr_buflen r = csize (so_d X) j \<and>
     (\<exists>b. hr_buf r = Some b \<and> padded (csize (so_d X) j) b \<and>
        (hr_status r = REQ_INFLIGHT \<and> hr_bufpos r = 0 \<or>
         hr_status r = REQ_SUCCESS \<and> hr_bufpos r = csize (so_d X) j \<and> take (nat (csize (so_d X) j)) b = so_cipher X j))"

definition conn :: "source \<Rightarrow> nat option \<Rightarrow> httpreqxfer option \<Rightarrow> bool" where
  "conn X c q \<longleftrightarrow> (case c of None \<Rightarrow> (\<forall>r. q = Some r \<longrightarrow> idle r) | Some j \<Rightarrow> (\<exists>r. q = Some r \<and> loads X j r))"

text \<open>\<open>k\<close> chunks were started, those in \<open>F\<close> are written, and \<open>a\<close> gives the chunk of a connection.\<close>

definition conns :: "source \<Rightarrow> nat \<Rightarrow> nat set \<Rightarrow> (nat \<Rightarrow> nat option) \<Rightarrow> httpreqxfer option list \<Rightarrow> bool" where
  "conns X k F a qs \<longleftrightarrow>
     F \<subseteq> {..<k} \<and> k \<le> nchunks (so_d X) \<and> (\<forall>i<length qs. conn X (a i) (qs ! i)) \<and>
     (\<forall>i i' j. a i = Some j \<and> a i' = Some j \<longrightarrow> i = i') \<and> (\<forall>j. (\<exists>i. a i = Some j) \<longleftrightarrow> j < k \<and> j \<notin> F) \<and> (\<forall>i. i \<ge> length qs \<longrightarrow> a i = None)"

lemma connsD:
  assumes "conns X k F a qs"
  shows "F \<subseteq> {..<k}" "k \<le> nchunks (so_d X)" "i < length qs \<Longrightarrow> conn X (a i) (qs ! i)" "a i = Some j \<Longrightarrow> a i' = Some j \<Longrightarrow> i = i'"
    "(\<exists>i. a i = Some j) \<longleftrightarrow> j < k \<and> j \<notin> F" "i \<ge> length qs \<Longrightarrow> a i = None"
  using assms unfolding conns_def by (blast, blast, blast, blast, blast, blast)

lemma conns_held: "conns X k F a qs \<Longrightarrow> a i = Some j \<Longrightarrow> j < k \<and> j \<notin> F \<and> j < nchunks (so_d X)"
  using connsD(2,5) [of X k F a qs] by (metis order.strict_trans2)

lemma conns_upd:
  assumes c: "conns X k F a qs" and q: "conn X c (Some r)" and k: "F' \<subseteq> {..<k'}" "k' \<le> nchunks (so_d X)" "i < length qs"
    and h: "\<And>j. (\<exists>i'. i' \<noteq> i \<and> a i' = Some j) \<or> c = Some j \<longleftrightarrow> j < k' \<and> j \<notin> F'" and n: "\<And>j i'. c = Some j \<Longrightarrow> i' \<noteq> i \<Longrightarrow> a i' \<noteq> Some j"
  shows "conns X k' F' (a(i := c)) (qs[i := Some r])"
proof -
  have "conn X ((a(i := c)) i') (qs[i := Some r] ! i')" if "i' < length qs" for i'
    using connsD(3) [OF c that] q that k(3) by (simp add: nth_list_update)
  moreover have "(\<exists>i'. (a(i := c)) i' = Some j) \<longleftrightarrow> j < k' \<and> j \<notin> F'" for j
    unfolding h [symmetric] by (auto split: if_splits)
  moreover have "i1 = i2" if "(a(i := c)) i1 = Some j" "(a(i := c)) i2 = Some j" for i1 i2 j
    using that n connsD(4) [OF c, of i1 j i2] by (cases "i1 = i"; cases "i2 = i") simp_all
  moreover have "i' \<ge> length qs \<Longrightarrow> (a(i := c)) i' = None" for i' using k(3) connsD(6) [OF c] by simp
  ultimately show ?thesis using k unfolding conns_def length_list_update by blast
qed

lemma conns_assign:
  assumes c: "conns X k F a qs" "i < length qs" "a i = None" and k: "k < nchunks (so_d X)" and r: "loads X k r"
  shows "conns X (Suc k) F (a(i := Some k)) (qs[i := Some r])"
proof (rule conns_upd [OF c(1)])
  show "(\<exists>i'. i' \<noteq> i \<and> a i' = Some j) \<or> Some k = Some j \<longleftrightarrow> j < Suc k \<and> j \<notin> F" for j
  proof -
    have "(\<exists>i'. i' \<noteq> i \<and> a i' = Some j) \<longleftrightarrow> j < k \<and> j \<notin> F"
      using connsD(5) [OF c(1), of j] c(3) by (metis option.distinct(1))
    moreover have "k \<notin> F" using connsD(1) [OF c(1)] by auto
    ultimately show ?thesis by (auto simp: less_Suc_eq)
  qed
  show "a i' \<noteq> Some j" if "Some k = Some j" "i' \<noteq> i" for j i' using conns_held [OF c(1), of i' j] that by auto
qed (use r k c(2) connsD(1) [OF c(1)] in \<open>auto simp: conn_def\<close>)

lemma conns_release:
  assumes c: "conns X k F a qs" "i < length qs" "a i = Some j" and r: "idle r"
  shows "conns X k (insert j F) (a(i := None)) (qs[i := Some r])"
proof (rule conns_upd [OF c(1)])
  show "(\<exists>i'. i' \<noteq> i \<and> a i' = Some l) \<or> None = Some l \<longleftrightarrow> l < k \<and> l \<notin> insert j F" for l
  proof -
    have "(\<exists>i'. i' \<noteq> i \<and> a i' = Some l) \<longleftrightarrow> l \<noteq> j \<and> (\<exists>i'. a i' = Some l)" using c(3) connsD(4) [OF c(1)] by (metis option.inject)
    then show ?thesis using connsD(5) [OF c(1), of l] by auto
  qed
  show "insert j F \<subseteq> {..<k}" using connsD(1) [OF c(1)] conns_held [OF c(1,3)] by simp
qed (use r c(2) connsD(2) [OF c(1)] in \<open>auto simp: conn_def\<close>)

lemma conns_idle:
  assumes "conns X k F a qs" "i < length qs" "a i = None" "idle r"
  shows "conns X k F a (qs[i := Some r])"
proof -
  have "conn X (a i') (qs[i := Some r] ! i')" if "i' < length qs" for i'
    using connsD(3) [OF assms(1) that] assms(2-) that by (cases "i' = i") (simp_all add: nth_list_update conn_def)
  then show ?thesis using assms(1) unfolding conns_def by simp
qed

text \<open>A connection is given up only when no chunk is left.\<close>

definition given_up :: "source \<Rightarrow> nat \<Rightarrow> httpreqxfer option list \<Rightarrow> bool" where
  "given_up X k qs \<longleftrightarrow> (\<forall>r. Some r \<in> set qs \<longrightarrow> hr_status r = REQ_DONE \<longrightarrow> k = nchunks (so_d X))"

lemma given_up_upd:
  "given_up X k qs \<Longrightarrow> k \<le> k' \<Longrightarrow> k' \<le> nchunks (so_d X) \<Longrightarrow> (hr_status r = REQ_DONE \<Longrightarrow> k' = nchunks (so_d X)) \<Longrightarrow> given_up X k' (qs[i := Some r])"
  using set_update_subset_insert [of qs i "Some r"] unfolding given_up_def by (metis insert_iff le_antisym option.inject subsetD)

section \<open>What is written\<close>

text \<open>The content of the target file after its writes.\<close>

definition file_image :: "xfer_event list \<Rightarrow> int \<Rightarrow> byte option" where
  "file_image es = fold (\<lambda>e f. case e of file_written d p \<Rightarrow> (\<lambda>i. if p \<le> i \<and> i < p + int (length d) then Some (d ! nat (i - p)) else f i) | _ \<Rightarrow> f) es (\<lambda>_. None)"

lemma file_image_snoc [simp]:
  "file_image (es @ [file_written d p]) = (\<lambda>i. if p \<le> i \<and> i < p + int (length d) then Some (d ! nat (i - p)) else file_image es i)"
  "file_image (es @ [transfer_update]) = file_image es" "file_image (es @ [transfer_limit]) = file_image es"
  by (simp_all add: file_image_def fun_eq_iff)

text \<open>The chunks \<open>F\<close> of a file.\<close>

definition part_image :: "bytes \<Rightarrow> nat set \<Rightarrow> int \<Rightarrow> byte option" where
  "part_image d F i = (if \<exists>j\<in>F. cpos d j \<le> i \<and> i < cpos d (Suc j) then Some (d ! nat i) else None)"

lemma part_image_insert:
  assumes "j < nchunks d" "file_image es = part_image d F"
  shows "file_image (es @ [file_written (chunk_plain d j) (cpos d j)]) = part_image d (insert j F)"
proof
  fix i
  have l: "int (length (chunk_plain d j)) = csize d j" using length_chunk_plain [OF assms(1)] csize_bounds [OF assms(1)] by simp
  have "chunk_plain d j ! nat (i - cpos d j) = d ! nat i" if "cpos d j \<le> i" "i < cpos d (Suc j)"
  proof -
    have "nat (cpos d j) + nat (i - cpos d j) = nat i" using that cpos_nonneg [of d j] by linarith
    moreover have "nat (i - cpos d j) < nat (csize d j)" using that by (simp add: csize_def)
    moreover have "cpos d j \<le> int (length d)" by (simp add: cpos_def)
    ultimately show ?thesis by (simp add: chunk_plain_def)
  qed
  then show "file_image (es @ [file_written (chunk_plain d j) (cpos d j)]) i = part_image d (insert j F) i"
    using l by (auto simp: assms(2) part_image_def csize_def)
qed

lemma part_image_all: "part_image d {..<nchunks d} i = (if 0 \<le> i \<and> i < int (length d) then Some (d ! nat i) else None)"
proof -
  have "\<exists>j<nchunks d. cpos d j \<le> i \<and> i < cpos d (Suc j)" if i: "0 \<le> i" "i < int (length d)"
  proof -
    obtain k where k: "chunk_start k \<le> i" "i < chunk_start (Suc k)" using chunk_bounds [OF i(1)] by blast
    then have "k < nchunks d" using i(2) by (simp add: nchunks_iff)
    then show ?thesis using k i(2) by (intro exI [of _ k]) (simp add: cpos_def)
  qed
  moreover have "0 \<le> i \<and> i < int (length d)" if "cpos d j \<le> i" "i < cpos d (Suc j)" for j
    using that cpos_nonneg [of d j] by (simp add: cpos_def)
  ultimately show ?thesis by (auto simp: part_image_def)
qed

section \<open>MACs\<close>

definition part_macs :: "source \<Rightarrow> nat set \<Rightarrow> chunkmac_map" where
  "part_macs X F = map (\<lambda>j. (cpos (so_d X) j, so_mac X j)) (sorted_list_of_set F)"

lemma om_update_insort:
  assumes "strict_mono_on A f" "insert j (set xs) \<subseteq> A" "j \<notin> set xs" "sorted xs" "distinct xs"
  shows "om_update (f j) (g j) (map (\<lambda>j. (f j, g j)) xs) = map (\<lambda>j. (f j, g j)) (insort j xs)"
  using assms(2-)
proof (induction xs)
  case (Cons x xs)
  have "f j < f x \<longleftrightarrow> j < x" "f j = f x \<longleftrightarrow> j = x"
    using strict_mono_on_less [OF assms(1), of j x] strict_mono_on_eq [OF assms(1), of j x] Cons.prems(1) by auto
  then show ?case using Cons by auto
qed simp

lemma part_macs_insert:
  assumes "F \<subseteq> {..<nchunks (so_d X)}" "j < nchunks (so_d X)" "j \<notin> F"
  shows "om_update (cpos (so_d X) j) (so_mac X j) (part_macs X F) = part_macs X (insert j F)"
proof -
  have fin: "finite F" using assms(1) finite_subset by blast
  have "strict_mono_on {..<nchunks (so_d X)} (cpos (so_d X))" by (rule strict_mono_onI) (simp add: cpos_less)
  then have "om_update (cpos (so_d X) j) (so_mac X j) (part_macs X F) = map (\<lambda>j. (cpos (so_d X) j, so_mac X j)) (insort j (sorted_list_of_set F))"
    unfolding part_macs_def by (rule om_update_insort) (use assms fin in auto)
  then show ?thesis using fin assms(3) by (simp add: part_macs_def sorted_list_of_set_insert_remove)
qed

lemma part_macs_all: "part_macs X {..<k} = file_macs (so_L X) (so_key X) (so_iv X) (so_d X) k"
  by (simp add: part_macs_def file_macs_def lessThan_atLeast0)

section \<open>The invariant of a download\<close>

definition dl_inv :: "source \<Rightarrow> nat \<Rightarrow> nat set \<Rightarrow> (nat \<Rightarrow> nat option) \<Rightarrow> transfer \<Rightarrow> tslotx \<Rightarrow> xfer_event list \<Rightarrow> bool" where
  "dl_inv X k F a t s es \<longleftrightarrow>
     tf_type t = GET \<and> fp_size (tf_fp t) = int (length (so_d X)) \<and> so_d X \<noteq> [] \<and> tf_key t = so_key X \<and> tf_ctriv t = so_iv X \<and>
     tf_metamac t = macsmac (so_L X) (so_key X) (file_macs (so_L X) (so_key X) (so_iv X) (so_d X) (nchunks (so_d X))) \<and>
     tf_pos t = cpos (so_d X) k \<and> tf_chunkmacs t = part_macs X F \<and>
     sl_fa s \<noteq> None \<and> ts_tempurl s \<noteq> [] \<and> \<not> sl_failure s \<and> sl_errorcount s = 0 \<and>
     sl_progresscompleted s = (\<Sum>j\<in>F. csize (so_d X) j) \<and> conns X k F a (sl_reqs s) \<and> given_up X k (sl_reqs s) \<and> F \<noteq> {..<nchunks (so_d X)} \<and>
     file_image es = part_image (so_d X) F"

abbreviation (input) lo_inv :: "source \<Rightarrow> nat \<Rightarrow> nat set \<Rightarrow> (nat \<Rightarrow> nat option) \<Rightarrow> xfer_event list \<Rightarrow> iostate \<Rightarrow> bool" where
  "lo_inv X k F a es st \<equiv> dl_inv X k F a (lo_t st) (lo_s st) (es @ lo_events st)"

text \<open>A call of \<open>doio\<close> with a working network layer below it.\<close>

definition env_ok :: "source \<Rightarrow> ioenv \<Rightarrow> bool" where
  "env_ok X E \<longleftrightarrow> io_L E = so_L X \<and> (\<forall>i. io_posted E i = REQ_INFLIGHT) \<and> (\<forall>n. length (io_mem E n) = n)"

lemma prepared_loads:
  assumes "buffer_ok r" "k < nchunks (so_d X)" "env_ok X E"
  shows "loads X k ((hr_post ((dl_prepare (io_mem E) url (cpos (so_d X) k) (cpos (so_d X) (Suc k)) r)\<lparr>hr_status := REQ_PREPARED\<rparr>))\<lparr>hr_status := REQ_INFLIGHT\<rparr>)"
proof -
  define n where "n = csize (so_d X) k"
  define sz where "sz = (word_of_int n :: u32)"
  have n: "0 < n" "n \<le> 2 ^ 20" "uint sz = n" using csize_bounds [OF assms(2)] csize_word [OF assms(2)] by (simp_all add: n_def sz_def)
  have "unat ((sz + 15) AND - 16) = nat ((n + 15) div 16 * 16)"
  proof -
    have "w AND NOT (mask m) = push_bit m (drop_bit m w)" for w :: u32 and m by (rule bit_word_eqI) (auto simp: bit_simps)
    from this [of "sz + 15" 4] have a: "(sz + 15) AND - 16 = push_bit 4 (drop_bit 4 (sz + 15))" by (simp add: mask_eq_exp_minus_1)
    have "uint (sz + 15) = n + 15" using n by (simp add: uint_word_ariths)
    then have "uint ((sz + 15) AND - 16) = take_bit 32 ((n + 15) div 16 * 16)"
      unfolding a by (simp add: push_bit_eq_mult drop_bit_eq_div uint_word_ariths(3) uint_div take_bit_eq_mod)
    moreover have "(n + 15) div 16 * 16 < 2 ^ 32" "0 \<le> (n + 15) div 16 * 16" using n minus_mod_eq_div_mult [of "n + 15" 16] pos_mod_sign [of 16 "n + 15"] by simp_all
    ultimately have "uint ((sz + 15) AND - 16) = (n + 15) div 16 * 16" by (simp add: take_bit_int_eq_self)
    then show ?thesis by (metis nat_uint_eq)
  qed
  then have m: "padded n (io_mem E (unat ((sz + 15) AND - 16)))" using assms(3) by (simp add: env_ok_def padded_def)
  show ?thesis
    using assms(1) m n unfolding loads_def dl_prepare_def n_def [symmetric] csize_def [symmetric] sz_def [symmetric]
    by (auto simp: hr_post_def setreq_def Let_def buffer_ok_def split: option.splits)
qed

text \<open>What the body of the loop does with the connection \<open>i\<close>.\<close>

definition served :: "source \<Rightarrow> nat \<Rightarrow> xfer_event list \<Rightarrow> iostate \<Rightarrow> nat \<Rightarrow> nat set \<Rightarrow> (nat \<Rightarrow> nat option) \<Rightarrow> iostate \<Rightarrow> bool" where
  "served X i es st k F a st' \<longleftrightarrow>
     (\<exists>k' a'. lo_inv X k' F a' es st' \<and> k \<le> k' \<and> (\<forall>i'. i' \<noteq> i \<longrightarrow> a' i' = a i') \<and> (a' i = None \<longrightarrow> k' = nchunks (so_d X)) \<and>
        (\<forall>i'. i' \<noteq> i \<longrightarrow> sl_reqs (lo_s st') ! i' = sl_reqs (lo_s st) ! i') \<and> length (sl_reqs (lo_s st')) = length (sl_reqs (lo_s st)) \<and>
        ts_lastdata (lo_s st') = ts_lastdata (lo_s st) \<and> lo_events st' = lo_events st \<and>
        (a i \<noteq> None \<longrightarrow> a' i = a i \<and> sl_reqs (lo_s st') = sl_reqs (lo_s st)) \<and>
        (a i = None \<longrightarrow> (\<forall>r. sl_reqs (lo_s st') ! i = Some r \<longrightarrow> hr_status r \<noteq> REQ_SUCCESS)))"

lemma new_request_simps: "hr_status new_request = REQ_READY" "hr_buf new_request = None" "buffer_ok new_request"
  by (simp_all add: new_request_def HttpReq_def httpreq.defs buffer_ok_def)

lemma dl_invD:
  assumes "dl_inv X k F a t s es"
  shows "tf_type t = GET" "fp_size (tf_fp t) = int (length (so_d X))" "so_d X \<noteq> []" "tf_pos t = cpos (so_d X) k" "conns X k F a (sl_reqs s)" "\<not> sl_failure s"
    "given_up X k (sl_reqs s)"
  using assms by (simp_all add: dl_inv_def)

lemma continue_assigns:
  assumes I: "lo_inv X k F a es st" and E: "env_ok X E" and i: "i < length (sl_reqs (lo_s st))" "a i = None" and k: "k < nchunks (so_d X)"
    and q: "case sl_reqs (lo_s st) ! i of None \<Rightarrow> True | Some r \<Rightarrow> hr_status r = REQ_READY"
  shows "\<exists>st'. req_continue E i st = Inr st' \<and> served X i es st k F a st'"
proof -
  define r0 where "r0 = (case sl_reqs (lo_s st) ! i of Some r \<Rightarrow> r | None \<Rightarrow> new_request)"
  define r1 where "r1 = (dl_prepare (io_mem E) (ts_tempurl (lo_s st)) (cpos (so_d X) k) (cpos (so_d X) (Suc k)) r0)\<lparr>hr_status := REQ_PREPARED\<rparr>"
  define r2 where "r2 = (hr_post r1)\<lparr>hr_status := REQ_INFLIGHT\<rparr>"
  note D = dl_invD [OF I]
  have b0: "buffer_ok r0"
    using connsD(3) [OF D(5) i(1)] i(2) new_request_simps(3) by (auto simp: r0_def conn_def idle_def split: option.splits)
  have l: "loads X k r2" unfolding r2_def r1_def by (rule prepared_loads [OF b0 k E])
  define t1 where "t1 = (lo_t st)\<lparr>tf_pos := cpos (so_d X) (Suc k)\<rparr>"
  have np: "min (chunkceil (tf_pos (lo_t st))) (fp_size (tf_fp (lo_t st))) = cpos (so_d X) (Suc k)" using next_chunk [OF k] D(2,4) by simp
  have gt: "cpos (so_d X) (Suc k) > tf_pos (lo_t st)" using cpos_less [OF _ k, of "Suc k"] D(4) by simp
  have "req_next E i st = Inr (lo_req i r1 (st\<lparr>lo_t := t1\<rparr>))"
    using q D(1,4) gt unfolding req_next_def np Let_def req_prepare_def r0_def [symmetric]
    by (simp add: r1_def t1_def)
  moreover have "req_post E i (lo_req i r1 (st\<lparr>lo_t := t1\<rparr>)) = lo_req i r2 (st\<lparr>lo_t := t1\<rparr>)"
    using i(1) E by (simp add: req_post_def lo_req_def lo_slot_def r1_def r2_def env_ok_def)
  ultimately have c: "req_continue E i st = Inr (lo_req i r2 (st\<lparr>lo_t := t1\<rparr>))" by (simp add: req_continue_def)
  have "conns X (Suc k) F (a(i := Some k)) ((sl_reqs (lo_s st))[i := Some r2])" by (rule conns_assign [OF D(5) i k l])
  moreover have "given_up X (Suc k) ((sl_reqs (lo_s st))[i := Some r2])" by (rule given_up_upd [OF D(7)]) (use k in \<open>simp_all add: r2_def\<close>)
  ultimately have "lo_inv X (Suc k) F (a(i := Some k)) es (lo_req i r2 (st\<lparr>lo_t := t1\<rparr>))"
    using I by (simp add: dl_inv_def lo_req_def lo_slot_def t1_def)
  then have "served X i es st k F a (lo_req i r2 (st\<lparr>lo_t := t1\<rparr>))"
    unfolding served_def using i by (intro exI [of _ "Suc k"] exI [of _ "a(i := Some k)"]) (auto simp: lo_req_def lo_slot_def r2_def)
  then show ?thesis using c by blast
qed

lemma continue_rests:
  assumes I: "lo_inv X k F a es st" and E: "env_ok X E" and i: "i < length (sl_reqs (lo_s st))"
    and k: "a i = None \<Longrightarrow> k = nchunks (so_d X)"
  shows "\<exists>st'. req_continue E i st = Inr st' \<and> served X i es st k F a st'"
proof (cases "case sl_reqs (lo_s st) ! i of None \<Rightarrow> True | Some r \<Rightarrow> hr_status r = REQ_READY")
  case ready: True
  note D = dl_invD [OF I]
  have n: "a i = None" using connsD(3) [OF D(5) i] ready by (cases "a i") (auto simp: conn_def loads_def)
  then have "tf_pos (lo_t st) = fp_size (tf_fp (lo_t st))" using k D(2,4) by (simp add: cpos_end)
  then have np: "\<not> (min (chunkceil (tf_pos (lo_t st))) (fp_size (tf_fp (lo_t st))) > tf_pos (lo_t st) \<or> fp_size (tf_fp (lo_t st)) = 0)"
    using D(2,3) by simp
  show ?thesis
  proof (cases "sl_reqs (lo_s st) ! i")
    case None
    then have "req_continue E i st = Inr st" using np by (auto simp: req_continue_def req_next_def req_post_def Let_def)
    moreover have "served X i es st k F a st"
      unfolding served_def using I k n None by (intro exI [of _ k] exI [of _ a]) auto
    ultimately show ?thesis by blast
  next
    case (Some r)
    define r1 where "r1 = r\<lparr>hr_status := REQ_DONE\<rparr>"
    have "idle r1" using connsD(3) [OF D(5) i] n Some by (simp add: conn_def idle_def r1_def)
    then have "conns X k F a ((sl_reqs (lo_s st))[i := Some r1])" by (rule conns_idle [OF D(5) i n])
    moreover have "given_up X k ((sl_reqs (lo_s st))[i := Some r1])" by (rule given_up_upd [OF D(7)]) (use k n in simp_all)
    ultimately have "lo_inv X k F a es (lo_req i r1 st)" using I by (simp add: dl_inv_def lo_req_def lo_slot_def)
    then have "served X i es st k F a (lo_req i r1 st)"
      unfolding served_def using i k n by (intro exI [of _ k] exI [of _ a]) (auto simp: lo_req_def lo_slot_def r1_def)
    moreover have "req_continue E i st = Inr (lo_req i r1 st)"
      using np ready Some i by (auto simp: req_continue_def req_next_def req_post_def Let_def r1_def lo_req_def lo_slot_def)
    ultimately show ?thesis by blast
  qed
next
  case False
  note D = dl_invD [OF I]
  obtain r where r: "sl_reqs (lo_s st) ! i = Some r" "hr_status r \<noteq> REQ_READY" using False by (auto split: option.splits)
  have p: "hr_status r \<noteq> REQ_PREPARED \<and> (a i = None \<longrightarrow> hr_status r \<noteq> REQ_SUCCESS)" using connsD(3) [OF D(5) i] r(1) by (cases "a i") (auto simp: conn_def loads_def idle_def)
  have "req_continue E i st = Inr st" using p r False by (simp add: req_continue_def req_next_def req_post_def)
  moreover have "served X i es st k F a st"
    unfolding served_def using I k p r(1) by (intro exI [of _ k] exI [of _ a]) auto
  ultimately show ?thesis by blast
qed


lemma continue_inv:
  assumes "lo_inv X k F a es st" "env_ok X E" "i < length (sl_reqs (lo_s st))"
  shows "\<exists>st'. req_continue E i st = Inr st' \<and> served X i es st k F a st'"
proof (cases "a i = None \<and> k < nchunks (so_d X)")
  case True
  have "hr_status r = REQ_READY" if "sl_reqs (lo_s st) ! i = Some r" for r
    using connsD(3) [OF dl_invD(5) [OF assms(1)] assms(3)] True dl_invD(7) [OF assms(1)] that nth_mem [OF assms(3)]
    by (auto simp: conn_def idle_def given_up_def)
  then show ?thesis using continue_assigns [OF assms(1-3)] True by (auto split: option.splits)
next
  case False
  then show ?thesis using continue_rests [OF assms(1-3)] connsD(2) [OF dl_invD(5) [OF assms(1)]] by auto
qed

text \<open>A chunk that has arrived is written; it may be the last.\<close>

lemma success_finalizes:
  assumes I: "lo_inv X k F a es st" and E: "env_ok X E" and L: "aes_ok (so_L X)"
    and i: "i < length (sl_reqs (lo_s st))" "a i = Some j" "sl_reqs (lo_s st) ! i = Some r" "hr_status r = REQ_SUCCESS"
  shows "(insert j F = {..<nchunks (so_d X)} \<longrightarrow>
      (\<exists>st'. req_status E i r st = Inl (Complete, st') \<and> file_image (es @ lo_events st') = part_image (so_d X) {..<nchunks (so_d X)})) \<and>
    (insert j F \<noteq> {..<nchunks (so_d X)} \<longrightarrow>
      (\<exists>st' r'. req_status E i r st = Inr st' \<and> lo_inv X k (insert j F) (a(i := None)) es st' \<and>
         sl_reqs (lo_s st') = (sl_reqs (lo_s st))[i := Some r'] \<and> hr_status r' = REQ_READY \<and> ts_lastdata (lo_s st') = io_ds E))"
proof -
  let ?d = "so_d X"
  note D = dl_invD [OF I]
  have j: "j < k" "j \<notin> F" "j < nchunks ?d" using conns_held [OF D(5) i(2)] by simp_all
  have F: "F \<subseteq> {..<nchunks ?d}" "finite F" using connsD(1,2) [OF D(5)] by (auto intro: finite_subset [OF connsD(1) [OF D(5)]])
  have l: "loads X j r" using connsD(3) [OF D(5) i(1)] i(2,3) by (simp add: conn_def)
  then obtain b where b: "hx_dlpos r = cpos ?d j" "uint (hx_size r) = csize ?d j" "hr_buflen r = csize ?d j" "hr_buf r = Some b" "padded (csize ?d j) b"
    "hr_bufpos r = csize ?d j" "take (nat (csize ?d j)) b = so_cipher X j"
    using i(4) by (auto simp: loads_def)
  define macs where "macs = part_macs X (insert j F)"
  obtain b' where b': "padded (csize ?d j) b'"
    "dl_finalize (so_L X) (so_key X) (part_macs X F) (so_iv X) 0 (-1) r = (r\<lparr>hr_buf := Some b'\<rparr>, (chunk_plain ?d j, cpos ?d j), macs)"
    using dl_finalize_chunk [OF L j(3) b(4,5,7,6,1), of "part_macs X F"] part_macs_insert [OF F(1) j(3,2)] by (auto simp: macs_def)
  define got where "got = (\<Sum>j\<in>insert j F. csize ?d j)"
  define t1 where "t1 = (lo_t st)\<lparr>tf_chunkmacs := macs\<rparr>"
  define r1 where "r1 = r\<lparr>hr_buf := Some b'\<rparr>"
  define s1 where "s1 = (lo_s st)\<lparr>ts_lastdata := io_ds E, sl_progresscompleted := got, sl_errorcount := 0\<rparr>"
  define st2 where "st2 = lo_event (file_written (chunk_plain ?d j) (cpos ?d j)) (lo_req i r1 (st\<lparr>lo_t := t1, lo_s := s1\<rparr>))"
  have pc: "sl_progresscompleted (lo_s st) + uint (hx_size r) = got" "tf_key (lo_t st) = so_key X" "tf_ctriv (lo_t st) = so_iv X"
      "tf_chunkmacs (lo_t st) = part_macs X F" "tf_metamac (lo_t st) = macsmac (so_L X) (so_key X) (part_macs X {..<nchunks ?d})"
    using I j F(2) b(2) by (simp_all add: dl_inv_def got_def part_macs_all)
  have io: "io_L E = so_L X" using E by (simp add: env_ok_def)
  have im: "file_image (es @ lo_events st2) = part_image ?d (insert j F)"
    using part_image_insert [OF j(3), of "es @ lo_events st" F] I by (simp add: st2_def lo_event_def lo_req_def lo_slot_def dl_inv_def)
  have fin: "got = int (length ?d) \<longleftrightarrow> insert j F = {..<nchunks ?d}" unfolding got_def using F(1) j(3) by (intro sum_csize_all) simp
  have e: "req_status E i r st =
      (if got = int (length ?d) then Inl (if macsmac (so_L X) (so_key X) macs = tf_metamac (lo_t st) then Complete else Failed API_EKEY, st2\<lparr>lo_t := (lo_t st)\<lparr>tf_chunkmacs := []\<rparr>\<rparr>)
       else Inr (lo_req i (r1\<lparr>hr_status := REQ_READY\<rparr>) st2))"
    using i(4) D(1,2,3) b(2,6) b'(2) pc io
    by (simp add: req_status_def get_success_def lo_slot_def Let_def st2_def s1_def t1_def r1_def lo_req_def lo_event_def)
  show ?thesis
  proof (intro conjI impI)
    assume "insert j F = {..<nchunks ?d}"
    then show "\<exists>st'. req_status E i r st = Inl (Complete, st') \<and> file_image (es @ lo_events st') = part_image ?d {..<nchunks ?d}"
      using e fin pc(5) im by (simp add: macs_def)
  next
    assume nf: "insert j F \<noteq> {..<nchunks ?d}"
    define st' where "st' = lo_req i (r1\<lparr>hr_status := REQ_READY\<rparr>) st2"
    have "idle (r1\<lparr>hr_status := REQ_READY\<rparr>)" using b'(1) b(3) by (simp add: idle_def) (simp add: buffer_ok_def r1_def)
    then have "conns X k (insert j F) (a(i := None)) ((sl_reqs (lo_s st))[i := Some (r1\<lparr>hr_status := REQ_READY\<rparr>)])"
      by (rule conns_release [OF D(5) i(1,2)])
    moreover have "given_up X k ((sl_reqs (lo_s st))[i := Some (r1\<lparr>hr_status := REQ_READY\<rparr>)])"
      by (rule given_up_upd [OF D(7)]) (use connsD(2) [OF D(5)] in simp_all)
    ultimately have "lo_inv X k (insert j F) (a(i := None)) es st'"
      using I im nf by (simp add: dl_inv_def st'_def st2_def lo_event_def lo_req_def lo_slot_def t1_def s1_def macs_def got_def)
    then show "\<exists>st' r'. req_status E i r st = Inr st' \<and> lo_inv X k (insert j F) (a(i := None)) es st' \<and>
         sl_reqs (lo_s st') = (sl_reqs (lo_s st))[i := Some r'] \<and> hr_status r' = REQ_READY \<and> ts_lastdata (lo_s st') = io_ds E"
      using e fin nf by (intro exI [of _ st'] exI [of _ "r1\<lparr>hr_status := REQ_READY\<rparr>"]) (simp add: st'_def st2_def lo_event_def lo_req_def lo_slot_def s1_def)
  qed
qed

section \<open>A call of doio\<close>

text \<open>After the connections \<open>I\<close> were handled: each of them loads a chunk unless none is left, and what had arrived is written.\<close>

definition handled :: "source \<Rightarrow> ioenv \<Rightarrow> nat set \<Rightarrow> xfer_event list \<Rightarrow> iostate \<Rightarrow> nat \<Rightarrow> nat set \<Rightarrow> (nat \<Rightarrow> nat option) \<Rightarrow> iostate \<Rightarrow> bool" where
  "handled X E C es st k F a st' \<longleftrightarrow>
     (\<exists>k' F' a'. lo_inv X k' F' a' es st' \<and> k \<le> k' \<and> F \<subseteq> F' \<and> length (sl_reqs (lo_s st')) = length (sl_reqs (lo_s st)) \<and>
        (\<forall>i. i \<notin> C \<longrightarrow> a' i = a i \<and> sl_reqs (lo_s st') ! i = sl_reqs (lo_s st) ! i) \<and>
        (\<forall>i\<in>C. (a' i = None \<longrightarrow> k' = nchunks (so_d X)) \<and> (\<forall>r. sl_reqs (lo_s st') ! i = Some r \<longrightarrow> hr_status r \<noteq> REQ_SUCCESS)) \<and>
        (\<forall>i\<in>C. \<forall>j r. a i = Some j \<longrightarrow> sl_reqs (lo_s st) ! i = Some r \<longrightarrow> hr_status r = REQ_SUCCESS \<longrightarrow> j \<in> F') \<and>
        (ts_lastdata (lo_s st') = io_ds E \<or>
         ts_lastdata (lo_s st') = ts_lastdata (lo_s st) \<and> (\<forall>i\<in>C. \<forall>r. sl_reqs (lo_s st) ! i = Some r \<longrightarrow> hr_status r \<noteq> REQ_SUCCESS)))"

definition finished :: "source \<Rightarrow> xfer_event list \<Rightarrow> bool" where
  "finished X es \<longleftrightarrow> file_image es = part_image (so_d X) {..<nchunks (so_d X)}"

lemma served_handled:
  assumes "served X i es st k F a st'" "i < length (sl_reqs (lo_s st))" "\<And>r. sl_reqs (lo_s st) ! i = Some r \<Longrightarrow> hr_status r \<noteq> REQ_SUCCESS"
  shows "handled X E {i} es st k F a st'"
proof -
  obtain k' a' where *: "lo_inv X k' F a' es st'" "k \<le> k'" "\<forall>i'. i' \<noteq> i \<longrightarrow> a' i' = a i'" "a' i = None \<longrightarrow> k' = nchunks (so_d X)"
    "\<forall>i'. i' \<noteq> i \<longrightarrow> sl_reqs (lo_s st') ! i' = sl_reqs (lo_s st) ! i'" "length (sl_reqs (lo_s st')) = length (sl_reqs (lo_s st))"
    "ts_lastdata (lo_s st') = ts_lastdata (lo_s st)"
    "a i \<noteq> None \<longrightarrow> a' i = a i \<and> sl_reqs (lo_s st') = sl_reqs (lo_s st)"
    "a i = None \<longrightarrow> (\<forall>r. sl_reqs (lo_s st') ! i = Some r \<longrightarrow> hr_status r \<noteq> REQ_SUCCESS)"
    using assms(1) unfolding served_def by (elim exE conjE) (rule that)
  have "\<forall>r. sl_reqs (lo_s st') ! i = Some r \<longrightarrow> hr_status r \<noteq> REQ_SUCCESS" using *(8,9) assms(3) by (cases "a i = None") auto
  then show ?thesis
    unfolding handled_def using * assms(3) by (intro exI [of _ k'] exI [of _ F] exI [of _ a']) auto
qed

lemma doio_req_inv:
  assumes I: "lo_inv X k F a es st" and E: "env_ok X E" and L: "aes_ok (so_L X)" and i: "i < length (sl_reqs (lo_s st))"
  shows "(\<exists>st'. doio_req E i st = Inl (Complete, st') \<and> finished X (es @ lo_events st')) \<or>
    (\<exists>st'. doio_req E i st = Inr st' \<and> handled X E {i} es st k F a st')"
proof (cases "\<exists>r. sl_reqs (lo_s st) ! i = Some r \<and> hr_status r = REQ_SUCCESS")
  case False
  define st1 where "st1 = (case sl_reqs (lo_s st) ! i of
      Some r \<Rightarrow> if hr_status r = REQ_INFLIGHT then st\<lparr>lo_p := lo_p st + hr_transferred r\<rparr> else st | None \<Rightarrow> st)"
  note D = dl_invD [OF I]
  have nf: "hr_status r \<noteq> REQ_FAILURE \<and> hr_status r \<noteq> REQ_PREPARED" if "sl_reqs (lo_s st) ! i = Some r" for r
    using connsD(3) [OF D(5) i] that by (cases "a i") (auto simp: conn_def loads_def idle_def)
  have st1: "(case sl_reqs (lo_s st) ! i of Some r \<Rightarrow> req_status E i r st | None \<Rightarrow> Inr st) = Inr st1"
    using False nf D(1) by (auto simp: st1_def req_status_def split: option.split reqstatus.split)
  have same: "lo_t st1 = lo_t st" "lo_s st1 = lo_s st" "lo_events st1 = lo_events st" by (simp_all add: st1_def split: option.split)
  then have I1: "lo_inv X k F a es st1" using I by simp
  obtain st' where "req_continue E i st1 = Inr st'" "served X i es st1 k F a st'" using continue_inv [OF I1 E] i same by auto
  moreover have "served X i es st k F a st'" using calculation(2) same by (simp add: served_def)
  ultimately show ?thesis using st1 D(6) same served_handled [OF _ i] False by (auto simp: doio_req_def)
next
  case True
  then obtain r where r: "sl_reqs (lo_s st) ! i = Some r" "hr_status r = REQ_SUCCESS" by blast
  note D = dl_invD [OF I]
  obtain j where j: "a i = Some j" using connsD(3) [OF D(5) i] r by (cases "a i") (auto simp: conn_def idle_def)
  note S = success_finalizes [OF I E L i j r]
  show ?thesis
  proof (cases "insert j F = {..<nchunks (so_d X)}")
    case True
    then show ?thesis using S r(1) by (auto simp: doio_req_def finished_def)
  next
    case False
    then obtain st1 r' where st1: "req_status E i r st = Inr st1" "lo_inv X k (insert j F) (a(i := None)) es st1"
      "sl_reqs (lo_s st1) = (sl_reqs (lo_s st))[i := Some r']" "hr_status r' = REQ_READY" "ts_lastdata (lo_s st1) = io_ds E" using S by auto
    have i1: "i < length (sl_reqs (lo_s st1))" using i st1(3) by simp
    obtain st' where st': "req_continue E i st1 = Inr st'" "served X i es st1 k (insert j F) (a(i := None)) st'" using continue_inv [OF st1(2) E i1] by blast
    then obtain k' a' where *: "lo_inv X k' (insert j F) a' es st'" "k \<le> k'" "\<forall>i'. i' \<noteq> i \<longrightarrow> a' i' = (a(i := None)) i'" "a' i = None \<longrightarrow> k' = nchunks (so_d X)"
      "\<forall>i'. i' \<noteq> i \<longrightarrow> sl_reqs (lo_s st') ! i' = sl_reqs (lo_s st1) ! i'" "length (sl_reqs (lo_s st')) = length (sl_reqs (lo_s st1))" "ts_lastdata (lo_s st') = ts_lastdata (lo_s st1)"
      "\<forall>r. sl_reqs (lo_s st') ! i = Some r \<longrightarrow> hr_status r \<noteq> REQ_SUCCESS"
      unfolding served_def by auto
    have "handled X E {i} es st k F a st'"
      unfolding handled_def using * st1(3,5) j by (intro exI [of _ k'] exI [of _ "insert j F"] exI [of _ a']) auto
    then show ?thesis using r st1(1) st'(1) dl_invD(6) [OF st1(2)] by (auto simp: doio_req_def)
  qed
qed

lemma handled_trans:
  assumes h: "handled X E {m} es st k F a st1" and k1: "lo_inv X k1 F1 a1 es st1"
    and n: "\<And>k F a. lo_inv X k F a es st1 \<Longrightarrow> handled X E {..<m} es st1 k F a st2"
  shows "handled X E {..<Suc m} es st k F a st2"
proof -
  obtain k1 F1 a1 where 1: "lo_inv X k1 F1 a1 es st1" "k \<le> k1" "F \<subseteq> F1" "length (sl_reqs (lo_s st1)) = length (sl_reqs (lo_s st))"
    "\<And>i. i \<noteq> m \<Longrightarrow> a1 i = a i \<and> sl_reqs (lo_s st1) ! i = sl_reqs (lo_s st) ! i"
    "a1 m = None \<longrightarrow> k1 = nchunks (so_d X)" "\<And>r. sl_reqs (lo_s st1) ! m = Some r \<Longrightarrow> hr_status r \<noteq> REQ_SUCCESS"
    "\<And>j r. a m = Some j \<Longrightarrow> sl_reqs (lo_s st) ! m = Some r \<Longrightarrow> hr_status r = REQ_SUCCESS \<Longrightarrow> j \<in> F1"
    "ts_lastdata (lo_s st1) = io_ds E \<or> ts_lastdata (lo_s st1) = ts_lastdata (lo_s st) \<and> (\<forall>r. sl_reqs (lo_s st) ! m = Some r \<longrightarrow> hr_status r \<noteq> REQ_SUCCESS)"
    using h unfolding handled_def by auto
  obtain k2 F2 a2 where 2: "lo_inv X k2 F2 a2 es st2" "k1 \<le> k2" "F1 \<subseteq> F2" "length (sl_reqs (lo_s st2)) = length (sl_reqs (lo_s st1))"
    "\<And>i. i \<ge> m \<Longrightarrow> a2 i = a1 i \<and> sl_reqs (lo_s st2) ! i = sl_reqs (lo_s st1) ! i"
    "\<And>i. i < m \<Longrightarrow> a2 i = None \<longrightarrow> k2 = nchunks (so_d X)" "\<And>i r. i < m \<Longrightarrow> sl_reqs (lo_s st2) ! i = Some r \<Longrightarrow> hr_status r \<noteq> REQ_SUCCESS"
    "\<And>i j r. i < m \<Longrightarrow> a1 i = Some j \<Longrightarrow> sl_reqs (lo_s st1) ! i = Some r \<Longrightarrow> hr_status r = REQ_SUCCESS \<Longrightarrow> j \<in> F2"
    "ts_lastdata (lo_s st2) = io_ds E \<or> ts_lastdata (lo_s st2) = ts_lastdata (lo_s st1) \<and> (\<forall>i<m. \<forall>r. sl_reqs (lo_s st1) ! i = Some r \<longrightarrow> hr_status r \<noteq> REQ_SUCCESS)"
    using n [OF 1(1)] unfolding handled_def by (auto simp: not_less)
  have k2: "k2 \<le> nchunks (so_d X)" by (rule connsD(2) [OF dl_invD(5) [OF 2(1)]])
  have "(a2 i = None \<longrightarrow> k2 = nchunks (so_d X)) \<and> (\<forall>r. sl_reqs (lo_s st2) ! i = Some r \<longrightarrow> hr_status r \<noteq> REQ_SUCCESS)" if "i < Suc m" for i
    using that 1(6,7) 2(2,5,6,7) k2 by (cases "i = m") (auto simp: less_Suc_eq)
  moreover have "j \<in> F2" if "i < Suc m" "a i = Some j" "sl_reqs (lo_s st) ! i = Some r" "hr_status r = REQ_SUCCESS" for i j r
    using that 1(5,8) 2(3) 2(8) [of i j r] by (cases "i = m") (auto simp: less_Suc_eq)
  moreover have "ts_lastdata (lo_s st2) = io_ds E \<or> ts_lastdata (lo_s st2) = ts_lastdata (lo_s st) \<and> (\<forall>i<Suc m. \<forall>r. sl_reqs (lo_s st) ! i = Some r \<longrightarrow> hr_status r \<noteq> REQ_SUCCESS)"
    using 1(5,9) 2(9) by (auto simp: less_Suc_eq)
  ultimately show ?thesis
    unfolding handled_def using 1(2-5) 2(1-5) by (intro exI [of _ k2] exI [of _ F2] exI [of _ a2]) auto
qed

lemma doio_loop_inv:
  assumes "aes_ok (so_L X)" "env_ok X E"
  shows "lo_inv X k F a es st \<Longrightarrow> m \<le> length (sl_reqs (lo_s st)) \<Longrightarrow>
    (\<exists>st'. doio_loop E m st = Inl (Complete, st') \<and> finished X (es @ lo_events st')) \<or>
    (\<exists>st'. doio_loop E m st = Inr st' \<and> handled X E {..<m} es st k F a st')"
proof (induction m arbitrary: k F a st)
  case 0
  then show ?case by (auto simp: handled_def)
next
  case (Suc m)
  then consider st' where "doio_req E m st = Inl (Complete, st')" "finished X (es @ lo_events st')"
    | st1 where "doio_req E m st = Inr st1" "handled X E {m} es st k F a st1"
    using doio_req_inv [OF Suc.prems(1) assms(2,1), of m] by auto
  then show ?case
  proof cases
    case 2
    then obtain k1 F1 a1 where i1: "lo_inv X k1 F1 a1 es st1" "m \<le> length (sl_reqs (lo_s st1))" using Suc.prems(2) by (auto simp: handled_def)
    from Suc.IH [OF this] show ?thesis
    proof
      assume "\<exists>st'. doio_loop E m st1 = Inr st' \<and> handled X E {..<m} es st1 k1 F1 a1 st'"
      then obtain st' where st': "doio_loop E m st1 = Inr st'" by blast
      have "handled X E {..<Suc m} es st k F a st'"
        by (rule handled_trans [OF 2(2) i1(1)]) (use Suc.IH [OF _ i1(2)] st' in auto)
      then show ?thesis using 2(1) st' by auto
    qed (use 2(1) in auto)
  qed auto
qed

text \<open>A call of \<open>doio\<close>, if data came in recently or just now.\<close>

lemma doio_end_inv:
  assumes I: "lo_inv X k F a es st" and d: "io_ds E - ts_lastdata (lo_s st) < XFERTIMEOUT"
  shows "\<exists>st'. doio_end E st = (Going, st') \<and> lo_inv X k F a es st' \<and> sl_reqs (lo_s st') = sl_reqs (lo_s st) \<and>
    (ts_lastdata (lo_s st') = ts_lastdata (lo_s st) \<or> ts_lastdata (lo_s st') = io_ds E)"
proof -
  define st1 where "st1 = doio_progress E st"
  have 1: "lo_inv X k F a es st1" "sl_reqs (lo_s st1) = sl_reqs (lo_s st)" "ts_lastdata (lo_s st1) = ts_lastdata (lo_s st) \<or> ts_lastdata (lo_s st1) = io_ds E"
    using I by (auto simp: st1_def doio_progress_def lo_event_def lo_slot_def dl_inv_def Let_def simp flip: append_assoc)
  then have d1: "\<not> io_ds E - ts_lastdata (lo_s st1) \<ge> XFERTIMEOUT" using d by auto
  then have t: "doio_timeout E st1 = st1" by (simp add: doio_timeout_def)
  have e: "\<not> sl_errorcount (lo_s st1) > 10" using 1(1) by (simp add: dl_inv_def)
  show ?thesis
    unfolding doio_end_def st1_def [symmetric] t Let_def using 1 e by (simp add: dl_inv_def)
qed

lemma doio_inv:
  assumes I: "dl_inv X k F a t s es" and E: "env_ok X E" and L: "aes_ok (so_L X)"
    and d: "io_ds E - ts_lastdata s < XFERTIMEOUT \<or> (\<exists>i<length (sl_reqs s). \<exists>r. sl_reqs s ! i = Some r \<and> hr_status r = REQ_SUCCESS)"
  shows "(\<exists>st. doio E t s nt = (Complete, st) \<and> finished X (es @ lo_events st)) \<or>
    (\<exists>st k' F' a'. doio E t s nt = (Going, st) \<and> dl_inv X k' F' a' (lo_t st) (lo_s st) (es @ lo_events st) \<and> F \<subseteq> F' \<and> length (sl_reqs (lo_s st)) = length (sl_reqs s) \<and>
       (\<forall>i<length (sl_reqs s). a' i = None \<longrightarrow> k' = nchunks (so_d X)) \<and>
       (\<forall>i<length (sl_reqs s). \<forall>j r. a i = Some j \<longrightarrow> sl_reqs s ! i = Some r \<longrightarrow> hr_status r = REQ_SUCCESS \<longrightarrow> j \<in> F'))"
proof -
  define st0 where "st0 = io_start t (s\<lparr>sl_retrying := False\<rparr>) nt"
  have s0: "lo_t st0 = t" "sl_reqs (lo_s st0) = sl_reqs s" "ts_lastdata (lo_s st0) = ts_lastdata s" by (simp_all add: st0_def io_start_def)
  have I0: "lo_inv X k F a es st0" using I by (simp add: dl_inv_def st0_def io_start_def)
  have e: "doio E t s nt = (case doio_loop E (length (sl_reqs s)) st0 of Inl x \<Rightarrow> x | Inr st \<Rightarrow> doio_end E st)"
    using I by (auto simp: doio_def dl_inv_def st0_def)
  consider st where "doio_loop E (length (sl_reqs s)) st0 = Inl (Complete, st)" "finished X (es @ lo_events st)"
    | st where "doio_loop E (length (sl_reqs s)) st0 = Inr st" "handled X E {..<length (sl_reqs s)} es st0 k F a st"
    using doio_loop_inv [OF L E I0, of "length (sl_reqs s)"] s0 by auto
  then show ?thesis
  proof cases
    case 2
    then obtain k' F' a' where h: "lo_inv X k' F' a' es st" "F \<subseteq> F'" "length (sl_reqs (lo_s st)) = length (sl_reqs s)"
      "\<forall>i<length (sl_reqs s). a' i = None \<longrightarrow> k' = nchunks (so_d X)"
      "\<forall>i<length (sl_reqs s). \<forall>j r. a i = Some j \<longrightarrow> sl_reqs s ! i = Some r \<longrightarrow> hr_status r = REQ_SUCCESS \<longrightarrow> j \<in> F'"
      "ts_lastdata (lo_s st) = io_ds E \<or> ts_lastdata (lo_s st) = ts_lastdata s \<and> (\<forall>i<length (sl_reqs s). \<forall>r. sl_reqs s ! i = Some r \<longrightarrow> hr_status r \<noteq> REQ_SUCCESS)"
      unfolding handled_def by (auto simp: s0)
    have "io_ds E - ts_lastdata (lo_s st) < XFERTIMEOUT" using h(6) d by auto
    from doio_end_inv [OF h(1) this] obtain st' where st': "doio_end E st = (Going, st')" "lo_inv X k' F' a' es st'" "sl_reqs (lo_s st') = sl_reqs (lo_s st)" by blast
    then show ?thesis using e 2(1) h by auto
  qed (use e in auto)
qed

lemma doio_cases:
  assumes "dl_inv X k F a t s es" "env_ok X E" "aes_ok (so_L X)"
    and "io_ds E - ts_lastdata s < XFERTIMEOUT \<or> (\<exists>i<length (sl_reqs s). \<exists>r. sl_reqs s ! i = Some r \<and> hr_status r = REQ_SUCCESS)"
  obtains (finish) st where "doio E t s nt = (Complete, st)" "finished X (es @ lo_events st)"
  | (go) st k' F' a' where "doio E t s nt = (Going, st)" "dl_inv X k' F' a' (lo_t st) (lo_s st) (es @ lo_events st)" "F \<subseteq> F'"
      "length (sl_reqs (lo_s st)) = length (sl_reqs s)" "\<forall>i<length (sl_reqs s). a' i = None \<longrightarrow> k' = nchunks (so_d X)"
      "\<forall>i<length (sl_reqs s). \<forall>j r. a i = Some j \<longrightarrow> sl_reqs s ! i = Some r \<longrightarrow> hr_status r = REQ_SUCCESS \<longrightarrow> j \<in> F'"
  using doio_inv [OF assms, of nt] by (elim disjE exE conjE) (erule (1) finish, erule (5) go)

section \<open>The server and the network\<close>

text \<open>What is stored: the encrypted chunks one after the other. A request for a range gets this range, in pieces.\<close>

definition stored_file :: "source \<Rightarrow> bytes" where
  "stored_file X = concat (map (so_cipher X) [0..<nchunks (so_d X)])"

definition answers_with :: "source \<Rightarrow> bytes list \<Rightarrow> httpreqxfer \<Rightarrow> httpreqxfer \<Rightarrow> bool" where
  "answers_with X ds r r' \<longleftrightarrow>
     concat ds = take (nat (uint (hx_size r))) (drop (nat (hx_dlpos r)) (stored_file X)) \<and> r' = (fold hr_put ds r)\<lparr>hr_status := REQ_SUCCESS\<rparr>"

lemma stored_chunk:
  assumes "j < nchunks (so_d X)"
  shows "take (nat (csize (so_d X) j)) (drop (nat (cpos (so_d X) j)) (stored_file X)) = so_cipher X j"
proof -
  let ?d = "so_d X"
  have l: "length (concat (map (so_cipher X) [0..<k])) = nat (cpos ?d k)" if "k \<le> nchunks ?d" for k
    using that
  proof (induction k)
    case (Suc k)
    then show ?case using cpos_csize [of k ?d] length_cipher [of k ?d] by simp
  qed simp
  have "[0..<nchunks ?d] = [0..<j] @ j # [Suc j..<nchunks ?d]" using assms upt_add_eq_append [of 0 j "nchunks ?d - j"] by (simp add: upt_conv_Cons)
  then have "stored_file X = concat (map (so_cipher X) [0..<j]) @ so_cipher X j @ concat (map (so_cipher X) [Suc j..<nchunks ?d])"
    by (simp add: stored_file_def)
  then show ?thesis using l [of j] length_cipher [OF assms] assms by simp
qed

lemma hr_put_fields:
  "hr_buflen (fold hr_put ds r) = hr_buflen r" "hx_dlpos (fold hr_put ds r) = hx_dlpos r" "hx_size (fold hr_put ds r) = hx_size r"
  for r :: httpreqxfer
proof -
  have 1: "hr_buflen (hr_put d r) = hr_buflen r" "hx_dlpos (hr_put d r) = hx_dlpos r" "hx_size (hr_put d r) = hx_size r" for d and r :: httpreqxfer
    by (simp_all add: hr_put_def Let_def split: option.split)
  show "hr_buflen (fold hr_put ds r) = hr_buflen r" "hx_dlpos (fold hr_put ds r) = hx_dlpos r" "hx_size (fold hr_put ds r) = hx_size r"
    by (induction ds arbitrary: r) (simp_all add: 1)
qed

lemma answer_loads:
  assumes l: "loads X j r" "hr_status r = REQ_INFLIGHT" "j < nchunks (so_d X)" and a: "answers_with X ds r r'"
  shows "loads X j r'"
proof -
  let ?n = "csize (so_d X) j"
  obtain b where b: "hx_dlpos r = cpos (so_d X) j" "uint (hx_size r) = ?n" "hr_buflen r = ?n" "hr_buf r = Some b" "padded ?n b" "hr_bufpos r = 0"
    using l(1,2) by (auto simp: loads_def)
  have n: "0 < ?n" using csize_bounds [OF l(3)] by simp
  have len: "int (length b) = (?n + 15) div 16 * 16" using b(5) n by (simp add: padded_def)
  have "?n \<le> (?n + 15) div 16 * 16" by presburger
  then have ok: "buf_ok r" "received r = []" "capacity r = Some (nat ?n)" using b n len by (simp_all add: buf_ok_def received_def capacity_def)
  have d: "concat ds = so_cipher X j" using a b(1,2) stored_chunk [OF l(3)] by (simp add: answers_with_def)
  have p: "received (fold hr_put ds r) = so_cipher X j" "buf_ok (fold hr_put ds r)"
    using hr_put_all [OF ok(1), of ds] ok(2,3) length_cipher [OF l(3)] by (simp_all add: d cut_def)
  have pl: "map_option length (hr_buf (fold hr_put ds r)) = map_option length (hr_buf r)"
    using ok(1) by (induction ds arbitrary: r) (simp_all add: hr_put_received)
  then obtain b' where b': "hr_buf (fold hr_put ds r) = Some b'" "length b' = length b" using b(4) by auto
  have "take (nat (hr_bufpos (fold hr_put ds r))) b' = so_cipher X j" "0 \<le> hr_bufpos (fold hr_put ds r)" "hr_bufpos (fold hr_put ds r) \<le> int (length b')"
    using p b'(1) by (auto simp: received_def buf_ok_def)
  moreover from this have "hr_bufpos (fold hr_put ds r) = ?n" using length_cipher [OF l(3), of "so_L X" "so_key X" "so_iv X"] n
    by (metis length_take min.absorb2 nat_le_iff nat_0_le order_less_imp_le eq_nat_nat_iff)
  ultimately show ?thesis
    using a b b' hr_put_fields [of ds r] by (auto simp: loads_def answers_with_def padded_def)
qed

lemma conns_answer:
  assumes c: "conns X k F a qs" and i: "i < length qs" "qs ! i = Some r" "hr_status r = REQ_INFLIGHT" and a: "answers_with X ds r r'"
  shows "conns X k F a (qs[i := Some r'])" "given_up X k qs \<Longrightarrow> given_up X k (qs[i := Some r'])"
proof -
  obtain j where j: "a i = Some j" "loads X j r" using connsD(3) [OF c i(1)] i(2,3) by (cases "a i") (auto simp: conn_def idle_def)
  then have "loads X j r'" using answer_loads [OF j(2) i(3) _ a] conns_held [OF c j(1)] by simp
  then have "conn X (a i') (qs[i := Some r'] ! i')" if "i' < length qs" for i'
    using connsD(3) [OF c that] that j(1) by (cases "i' = i") (simp_all add: conn_def)
  then show "conns X k F a (qs[i := Some r'])" using c unfolding conns_def by simp
  show "given_up X k qs \<Longrightarrow> given_up X k (qs[i := Some r'])"
    by (rule given_up_upd [where k = k]) (use connsD(2) [OF c] a in \<open>simp_all add: answers_with_def\<close>)
qed

section \<open>Runs\<close>

text \<open>\<open>doio\<close> is called again and again, data arrives in between, in any order.\<close>

inductive dl_step :: "source \<Rightarrow> transfer \<times> tslotx \<times> xfer_event list \<Rightarrow> transfer \<times> tslotx \<times> xfer_event list \<Rightarrow> bool" for X where
  dl_io: "env_ok X E \<Longrightarrow> io_ds E - ts_lastdata s < XFERTIMEOUT \<Longrightarrow> doio E t s nt = (Going, st) \<Longrightarrow> dl_step X (t, s, es) (lo_t st, lo_s st, es @ lo_events st)"
| dl_data: "i < length (sl_reqs s) \<Longrightarrow> sl_reqs s ! i = Some r \<Longrightarrow> hr_status r = REQ_INFLIGHT \<Longrightarrow> answers_with X ds r r' \<Longrightarrow>
    dl_step X (t, s, es) (t, s\<lparr>sl_reqs := (sl_reqs s)[i := Some r']\<rparr>, es)"

inductive_cases dl_stepE: "dl_step X (t, s, es) q"

text \<open>A download with a fresh slot and the URL of the file.\<close>

definition dl_start :: "source \<Rightarrow> transfer \<Rightarrow> tslotx \<Rightarrow> bool" where
  "dl_start X t s \<longleftrightarrow>
     tf_type t = GET \<and> fp_size (tf_fp t) = int (length (so_d X)) \<and> so_d X \<noteq> [] \<and> tf_key t = so_key X \<and> tf_ctriv t = so_iv X \<and>
     tf_metamac t = macsmac (so_L X) (so_key X) (file_macs (so_L X) (so_key X) (so_iv X) (so_d X) (nchunks (so_d X))) \<and>
     tf_pos t = 0 \<and> tf_chunkmacs t = [] \<and>
     sl_fa s \<noteq> None \<and> ts_tempurl s \<noteq> [] \<and> \<not> sl_failure s \<and> sl_errorcount s = 0 \<and> sl_progresscompleted s = 0 \<and>
     set (sl_reqs s) = {None}"

lemma nchunks_pos: "d \<noteq> [] \<Longrightarrow> 0 < nchunks d"
  by (simp add: nchunks_iff)

lemma dl_start_inv: "dl_start X t s \<Longrightarrow> dl_inv X 0 {} (\<lambda>_. None) t s []"
proof -
  assume d: "dl_start X t s"
  have q: "sl_reqs s ! i = None" if "i < length (sl_reqs s)" for i using nth_mem [OF that] d by (simp add: dl_start_def)
  have "conns X 0 {} (\<lambda>_. None) (sl_reqs s)" by (auto simp: conns_def conn_def q)
  moreover have "given_up X 0 (sl_reqs s)" using d by (simp add: given_up_def dl_start_def)
  moreover have "{} \<noteq> {..<nchunks (so_d X)}" using d nchunks_pos by (auto simp: dl_start_def)
  moreover have "file_image [] = part_image (so_d X) {}" by (simp add: file_image_def part_image_def fun_eq_iff)
  ultimately show ?thesis using d by (simp add: dl_inv_def dl_start_def part_macs_def)
qed

definition same_content :: "source \<Rightarrow> xfer_event list \<Rightarrow> bool" where
  "same_content X es \<longleftrightarrow> file_image es = (\<lambda>i. if 0 \<le> i \<and> i < int (length (so_d X)) then Some (so_d X ! nat i) else None)"

lemma finished_content: "finished X es = same_content X es"
  by (simp add: finished_def same_content_def part_image_all [abs_def] fun_eq_iff)

lemma dl_step_inv:
  assumes "dl_step X (t, s, es) (t', s', es')" "aes_ok (so_L X)" "dl_inv X k F a t s es"
  shows "\<exists>k F a. dl_inv X k F a t' s' es'"
  using assms(1)
proof (cases rule: dl_step.cases)
  case (dl_io E nt st)
  then have e: "env_ok X E" "io_ds E - ts_lastdata s < XFERTIMEOUT" "doio E t s nt = (Going, st)" "t' = lo_t st" "s' = lo_s st" "es' = es @ lo_events st"
    by simp_all
  then show ?thesis using doio_inv [OF assms(3) e(1) assms(2) disjI1 [OF e(2)], of nt] by fastforce
next
  case (dl_data i r ds r')
  then have "conns X k F a ((sl_reqs s)[i := Some r'])" "given_up X k ((sl_reqs s)[i := Some r'])"
    using conns_answer [OF dl_invD(5) [OF assms(3)]] dl_invD(7) [OF assms(3)] by blast+
  then show ?thesis using dl_data assms(3) by (auto simp: dl_inv_def)
qed

lemma dl_steps_inv:
  assumes "(dl_step X)\<^sup>*\<^sup>* (t, s, []) (t', s', es)" "aes_ok (so_L X)" "dl_start X t s"
  shows "\<exists>k F a. dl_inv X k F a t' s' es"
  using assms(1)
proof (induction "(t', s', es)" arbitrary: t' s' es rule: rtranclp_induct)
  case base
  then show ?case using dl_start_inv [OF assms(3)] by blast
next
  case (step q)
  obtain t1 s1 es1 where q: "q = (t1, s1, es1)" by (cases q)
  obtain k F a where "dl_inv X k F a t1 s1 es1" using step(3) [OF q] by blast
  then show ?case using dl_step_inv [OF _ assms(2)] step(2) q by blast
qed

lemma download_safe:
  assumes "(dl_step X)\<^sup>*\<^sup>* (t, s, []) (t', s', es)" "aes_ok (so_L X)" "dl_start X t s"
    and "env_ok X E" "io_ds E - ts_lastdata s' < XFERTIMEOUT" "doio E t' s' nt = (res, st)"
  shows "res = Going \<or> res = Complete \<and> same_content X (es @ lo_events st)"
proof -
  obtain k F a where "dl_inv X k F a t' s' es" using dl_steps_inv [OF assms(1-3)] by blast
  from doio_inv [OF this assms(4,2), of nt] show ?thesis using assms(5,6) by (auto simp: finished_content)
qed

text \<open>Rounds: a call of \<open>doio\<close>, then all requests are answered.\<close>

definition answer_all :: "source \<Rightarrow> tslotx \<Rightarrow> tslotx" where
  "answer_all X s = s\<lparr>sl_reqs := map (map_option (\<lambda>r. if hr_status r = REQ_INFLIGHT
     then (hr_put (take (nat (uint (hx_size r))) (drop (nat (hx_dlpos r)) (stored_file X))) r)\<lparr>hr_status := REQ_SUCCESS\<rparr> else r)) (sl_reqs s)\<rparr>"

primrec dl_rounds :: "source \<Rightarrow> (nat \<Rightarrow> ioenv) \<Rightarrow> nat \<Rightarrow> transfer \<Rightarrow> tslotx \<Rightarrow> netstate \<Rightarrow> xfer_event list \<Rightarrow> xfer_end \<times> xfer_event list" where
  "dl_rounds X E 0 t s nt es = (Going, es)"
| "dl_rounds X E (Suc m) t s nt es =
     (case doio (E m) t s nt of
        (Going, st) \<Rightarrow> dl_rounds X E m (lo_t st) (answer_all X (lo_s st)) (lo_net st) (es @ lo_events st)
      | (x, st) \<Rightarrow> (x, es @ lo_events st))"

lemma answer_all_inv:
  assumes I: "dl_inv X k F a t s es"
  shows "dl_inv X k F a t (answer_all X s) es" "a i = Some j \<Longrightarrow> \<exists>r. sl_reqs (answer_all X s) ! i = Some r \<and> hr_status r = REQ_SUCCESS"
proof -
  note D = dl_invD [OF I]
  define g where "g r = (if hr_status r = REQ_INFLIGHT
     then (hr_put (take (nat (uint (hx_size r))) (drop (nat (hx_dlpos r)) (stored_file X))) r)\<lparr>hr_status := REQ_SUCCESS\<rparr> else r)" for r :: httpreqxfer
  have qs: "answer_all X s = s\<lparr>sl_reqs := map (map_option g) (sl_reqs s)\<rparr>" unfolding answer_all_def g_def [abs_def] ..
  have ans: "answers_with X [take (nat (uint (hx_size r))) (drop (nat (hx_dlpos r)) (stored_file X))] r (g r)" if "hr_status r = REQ_INFLIGHT" for r
    using that by (simp add: answers_with_def g_def)
  have l: "loads X j (g r) \<and> hr_status (g r) = REQ_SUCCESS" if "loads X j r" "j < nchunks (so_d X)" for j r
  proof (cases "hr_status r = REQ_INFLIGHT")
    case True
    then show ?thesis using answer_loads [OF that(1) True that(2) ans] by (simp add: g_def)
  qed (use that in \<open>auto simp: g_def loads_def\<close>)
  have id: "g r = r" if "idle r" for r using that by (auto simp: g_def idle_def)
  have "conn X (a i) (map (map_option g) (sl_reqs s) ! i)" if "i < length (sl_reqs s)" for i
    using connsD(3) [OF D(5) that] that l conns_held [OF D(5), of i] by (cases "a i") (auto simp: conn_def id)
  then have "conns X k F a (map (map_option g) (sl_reqs s))" using D(5) unfolding conns_def by simp
  moreover have "given_up X k (map (map_option g) (sl_reqs s))" unfolding given_up_def
  proof (intro allI impI)
    fix r assume r: "Some r \<in> set (map (map_option g) (sl_reqs s))" "hr_status r = REQ_DONE"
    then obtain r0 where "Some r0 \<in> set (sl_reqs s)" "r = g r0" by (auto simp: map_option_eq_Some eq_commute [of "Some r"])
    then show "k = nchunks (so_d X)" using r(2) D(7) by (auto simp: given_up_def g_def split: if_splits)
  qed
  ultimately show "dl_inv X k F a t (answer_all X s) es" using I by (simp add: dl_inv_def qs)
  assume ai: "a i = Some j"
  then have "i < length (sl_reqs s)" using connsD(6) [OF D(5)] by (metis not_less option.distinct(1))
  then show "\<exists>r. sl_reqs (answer_all X s) ! i = Some r \<and> hr_status r = REQ_SUCCESS"
    using connsD(3) [OF D(5), of i] ai l conns_held [OF D(5) ai] by (auto simp: qs conn_def)
qed

lemma dl_inv_held:
  assumes I: "dl_inv X k F a t s es" and n: "sl_reqs s \<noteq> []" and k: "\<forall>i<length (sl_reqs s). a i = None \<longrightarrow> k = nchunks (so_d X)"
  shows "\<exists>i j. a i = Some j"
proof (rule ccontr)
  assume no: "\<not> ?thesis"
  note D = dl_invD [OF I]
  have "a 0 = None" using no by (cases "a 0") auto
  then have "k = nchunks (so_d X)" using k n by auto
  moreover have "F = {..<k}" using connsD(1,5) [OF D(5)] no by auto
  ultimately show False using I by (simp add: dl_inv_def)
qed

lemma rounds_finish:
  assumes L: "aes_ok (so_L X)" and E: "\<And>m. env_ok X (E m)"
  shows "dl_inv X k F a t s es \<Longrightarrow> sl_reqs s \<noteq> [] \<Longrightarrow> a i = Some j \<Longrightarrow> (\<And>i j. a i = Some j \<Longrightarrow> \<exists>r. sl_reqs s ! i = Some r \<and> hr_status r = REQ_SUCCESS) \<Longrightarrow>
    nchunks (so_d X) \<le> card F + m \<Longrightarrow> \<exists>es'. dl_rounds X E m t s nt es = (Complete, es') \<and> same_content X es'"
proof (induction m arbitrary: k F a t s es nt i j)
  case 0
  have F: "F \<subseteq> {..<nchunks (so_d X)}" "F \<noteq> {..<nchunks (so_d X)}"
    using connsD(1,2) [OF dl_invD(5) [OF 0(1)]] 0(1) by (auto simp: dl_inv_def)
  then have "card F < nchunks (so_d X)" using psubset_card_mono [of "{..<nchunks (so_d X)}" F] by auto
  then show ?case using 0(5) by simp
next
  case (Suc m)
  note D = dl_invD [OF Suc.prems(1)]
  have il: "i' < length (sl_reqs s)" if "a i' = Some j'" for i' j' using that connsD(6) [OF D(5), of i'] by (metis not_less option.distinct(1))
  have ex: "\<exists>i<length (sl_reqs s). \<exists>r. sl_reqs s ! i = Some r \<and> hr_status r = REQ_SUCCESS" using Suc.prems(3,4) il by blast
  show ?case
  proof (cases rule: doio_cases [OF Suc.prems(1) E L disjI2 [OF ex], of m nt, case_names finish go])
    case finish
    then show ?thesis by (simp add: finished_content)
  next
    case g: (go st k' F' a')
    obtain i' j' where h: "a' i' = Some j'" using dl_inv_held [OF g(2)] g(4,5) Suc.prems(2) by (metis length_0_conv)
    have "j \<in> F'" "j \<notin> F" using g(6) il [OF Suc.prems(3)] Suc.prems(3) Suc.prems(4) [OF Suc.prems(3)] conns_held [OF D(5) Suc.prems(3)] by blast+
    moreover have "finite F'" using connsD(1) [OF dl_invD(5) [OF g(2)]] finite_subset by blast
    ultimately have "card F < card F'" using g(3) by (intro psubset_card_mono) auto
    then have c: "nchunks (so_d X) \<le> card F' + m" using Suc.prems(5) by simp
    have ne: "sl_reqs (answer_all X (lo_s st)) \<noteq> []" using g(4) Suc.prems(2) by (auto simp: answer_all_def)
    show ?thesis using Suc.IH [OF answer_all_inv(1) [OF g(2)] ne h answer_all_inv(2) [OF g(2)] c, where nt = "lo_net st"] g(1) by simp
  qed
qed

lemma first_round:
  assumes L: "aes_ok (so_L X)" and E: "\<And>m. env_ok X (E m)" and I: "dl_inv X k F a t s es" and ne: "sl_reqs s \<noteq> []"
    and d: "io_ds (E m) - ts_lastdata s < XFERTIMEOUT" and m: "nchunks (so_d X) \<le> m"
  shows "\<exists>es'. dl_rounds X E (Suc m) t s nt es = (Complete, es') \<and> same_content X es'"
proof (rule doio_cases [OF I E [of m] L disjI1 [OF d], of nt])
  fix st
  assume "doio (E m) t s nt = (Complete, st)" "finished X (es @ lo_events st)"
  then show ?thesis by (simp add: finished_content)
next
  fix st k' F' a'
  assume g: "doio (E m) t s nt = (Going, st)" "dl_inv X k' F' a' (lo_t st) (lo_s st) (es @ lo_events st)"
      "length (sl_reqs (lo_s st)) = length (sl_reqs s)" "\<forall>i<length (sl_reqs s). a' i = None \<longrightarrow> k' = nchunks (so_d X)"
  have ne': "sl_reqs (lo_s st) \<noteq> []" using g(3) ne by auto
  obtain i' j' where h: "a' i' = Some j'" using dl_inv_held [OF g(2) ne'] g(3,4) by auto
  have "sl_reqs (answer_all X (lo_s st)) \<noteq> []" using ne' by (simp add: answer_all_def)
  moreover have "nchunks (so_d X) \<le> card F' + m" using m by simp
  moreover have "\<exists>r. sl_reqs (answer_all X (lo_s st)) ! i = Some r \<and> hr_status r = REQ_SUCCESS" if "a' i = Some j" for i j
    by (rule answer_all_inv(2) [OF g(2) that])
  ultimately have "\<exists>es'. dl_rounds X E m (lo_t st) (answer_all X (lo_s st)) (lo_net st) (es @ lo_events st) = (Complete, es') \<and> same_content X es'"
    by (intro rounds_finish [where E = E, OF L E answer_all_inv(1) [OF g(2)] _ h])
  then show ?thesis using g(1) by simp
qed

lemma download_completes:
  assumes L: "aes_ok (so_L X)" and E: "\<And>m. env_ok X (E m)" and s: "dl_start X t s" and d: "io_ds (E (nchunks (so_d X))) - ts_lastdata s < XFERTIMEOUT"
  shows "\<exists>es. dl_rounds X E (Suc (nchunks (so_d X))) t s nt [] = (Complete, es) \<and> same_content X es"
proof -
  have "set (sl_reqs s) = {None}" using s by (simp only: dl_start_def)
  then have "sl_reqs s \<noteq> []" by (cases "sl_reqs s") simp_all
  note f = first_round [where E = E and m = "nchunks (so_d X)" and nt = nt, OF L E dl_start_inv [OF s] this d order.refl]
  show ?thesis by (rule f)
qed

end
