(* ===== verification/Transfer_Queue.thy ===== *)
theory Transfer_Queue
  imports Transfers Access
begin

text \<open>
  \<open>src/transfer.cpp\<close>, \<open>src/file.cpp\<close> and the transfer queue of \<open>src/megaclient.cpp\<close>: how transfers fail, complete and are started. The queue of a
  direction is the list of its transfers in the order of the map. A transfer that owns a slot is one of \<open>tslots\<close>. Files are
  polymorphic: the virtual functions are an argument, \<open>File_class\<close> has those of \<open>File\<close>.
\<close>

record file_class =
  fc_prepare :: "xfile \<Rightarrow> bytes"
  fc_failed :: "int \<Rightarrow> u32 \<Rightarrow> xfile \<Rightarrow> bool"
  fc_updatelocalname :: "xfile \<Rightarrow> xfile"

definition File_failed :: "int \<Rightarrow> u32 \<Rightarrow> xfile \<Rightarrow> bool" where
  "File_failed e failcount f \<longleftrightarrow> e \<noteq> API_EKEY \<and> e \<noteq> API_EBLOCKED \<and> failcount < 16"

definition File_class :: file_class where
  "File_class = \<lparr>fc_prepare = fl_localname, fc_failed = File_failed, fc_updatelocalname = id\<rparr>"

abbreviation (input) API_EAGAIN :: int where "API_EAGAIN \<equiv> -3"
abbreviation (input) API_EWRITE :: int where "API_EWRITE \<equiv> -20"

text \<open>What the application, the file system and the request queue see.\<close>

datatype queue_event =
    app_transfer_failed int
  | app_transfer_prepare
  | app_transfer_complete
  | app_transfer_added
  | app_transfer_removed
  | cmd_canceled
  | unlinklocal bytes
  | gfx_put bytes handle
  | gfx_missing handle nat
  | put_file
  | get_file handle bool
  | file_start xfile
  | file_completed xfile
  | api_request api_call

section \<open>Failure\<close>

text \<open>\<open>TransferSlot::~TransferSlot\<close>.\<close>

definition slot_delete :: "transfer \<Rightarrow> queue_event list" where
  "slot_delete t =
     (case tf_slot t of
        None \<Rightarrow> []
      | Some s \<Rightarrow>
          (if ts_pendingcmd s then [cmd_canceled] else []) @
          (if sl_fa s \<noteq> None \<and> tf_type t = GET \<and> tf_localfilename t \<noteq> [] then [unlinklocal (tf_localfilename t)] else []))"

text \<open>\<open>Transfer::failed\<close>; \<open>None\<close>: the transfer is deleted.\<close>

definition transfer_fail :: "file_class \<Rightarrow> dstime \<Rightarrow> int \<Rightarrow> transfer \<Rightarrow> transfer option \<times> queue_event list" where
  "transfer_fail C ds e t =
     (let t1 = t\<lparr>tf_bt := backoff ds (tf_bt t)\<rparr>; ev = app_transfer_failed e # slot_delete t1 in
      if list_ex (fc_failed C e (tf_failcount t)) (tf_files t)
      then (Some (t1\<lparr>tf_failcount := tf_failcount t + 1, tf_slot := None\<rparr>), ev)
      else (None, ev))"

section \<open>Completion\<close>

text \<open>The file system: a failed operation may be worth a retry (\<open>transient_error\<close>). \<open>'f\<close> is its state.\<close>

datatype fs_result = FsOk | FsTransient | FsFailed

record 'f fsenv =
  fe_rename :: "bytes \<Rightarrow> bytes \<Rightarrow> 'f \<Rightarrow> fs_result \<times> 'f"
  fe_copy :: "bytes \<Rightarrow> bytes \<Rightarrow> int \<Rightarrow> 'f \<Rightarrow> fs_result \<times> 'f"
  fe_unlink :: "bytes \<Rightarrow> 'f \<Rightarrow> 'f"
  fe_setmtime :: "bytes \<Rightarrow> int \<Rightarrow> 'f \<Rightarrow> 'f"
  fe_open :: "bytes \<Rightarrow> 'f \<Rightarrow> (syscalls \<times> fileaccess) option"
  fe_crc32 :: "bytes \<Rightarrow> bytes"
  fe_junk :: bytes

text \<open>One target: a rename unless another file has it, or a copy.\<close>

definition place_file :: "'f fsenv \<Rightarrow> bytes \<Rightarrow> int \<Rightarrow> xfile \<Rightarrow> bytes \<times> 'f \<Rightarrow> bool \<times> bool \<times> bytes \<times> 'f" where
  "place_file S local mtime f = (\<lambda>(tmp, fs).
     (let (r1, fs1) = (if tmp = [] then fe_rename S local (fl_localname f) fs else (FsFailed, fs)) in
      if r1 = FsOk then (True, False, fl_localname f, fs1)
      else
        (let (r2, fs2) = fe_copy S (if tmp \<noteq> [] then tmp else local) (fl_localname f) mtime fs1 in
         if r2 = FsOk then (True, r1 = FsTransient, tmp, fs2) else (False, r1 = FsTransient \<or> r2 = FsTransient, tmp, fs2))))"

text \<open>All targets; the files that stay.\<close>

primrec place_files :: "'f fsenv \<Rightarrow> file_class \<Rightarrow> u32 \<Rightarrow> bytes \<Rightarrow> int \<Rightarrow> xfile list \<Rightarrow> bytes \<times> 'f \<Rightarrow> xfile list \<times> queue_event list \<times> bytes \<times> 'f" where
  "place_files S C failcount local mtime [] st = ([], [], st)"
| "place_files S C failcount local mtime (f # fs) st =
     (let (success, transient, st1) = place_file S local mtime f st;
          (rest, ev, st2) = place_files S C failcount local mtime fs st1;
          keep = (\<not> success \<and> (transient \<or> fc_failed C API_EAGAIN failcount f))
      in (if keep then f # rest else rest, (if success then [file_completed f] else []) @ ev, st2))"

text \<open>A source node without a fingerprint gets the one of the file; missing images are generated.\<close>

record nodefix =
  nx_mc :: megaclient
  nx_missing :: nat
  nx_attach :: handle
  nx_events :: "queue_event list"

definition missing_attrs :: "node \<Rightarrow> nat \<Rightarrow> nat" where
  "missing_attrs n m =
     (let m1 = (if hasfileattribute 0 n = 0 then m OR 1 else m) in if hasfileattribute 1 n = 0 then m1 OR 2 else m1)"

text \<open>\<open>gfx\<close> is \<open>None\<close> without a graphics layer; \<open>n->attrs.map['n']\<close> creates a missing entry.\<close>

definition note_missing :: "(bytes \<Rightarrow> bool) option \<Rightarrow> handle \<Rightarrow> nodefix \<Rightarrow> nodefix" where
  "note_missing gfx h x =
     (case (gfx, nodebyhandle (nx_mc x) h) of
        (Some isgfx, Some n) \<Rightarrow>
          (let name = (case om_lookup (n_attrs n) 110 of Some v \<Rightarrow> v | None \<Rightarrow> []);
               x1 = x\<lparr>nx_mc := upd_node h (\<lambda>n. n\<lparr>n_attrs := om_update 110 name (n_attrs n)\<rparr>) (nx_mc x)\<rparr>
           in if isgfx name then x1\<lparr>nx_missing := missing_attrs n (nx_missing x), nx_attach := n_handle n\<rparr> else x1)
      | _ \<Rightarrow> x)"

definition fix_node :: "libs \<Rightarrow> (bytes \<Rightarrow> bool) option \<Rightarrow> fingerprint \<Rightarrow> xfile \<Rightarrow> nodefix \<Rightarrow> nodefix option" where
  "fix_node L gfx fp f x =
     (case (if fl_hprivate f then nodebyhandle (nx_mc x) (fl_h f) else None) of
        None \<Rightarrow> Some x
      | Some n \<Rightarrow>
          (let x1 = note_missing gfx (fl_h f) x in
           if fp_isvalid (n_fp n) then Some x1
           else
             (let mc1 = upd_node (fl_h f) (\<lambda>n. n\<lparr>n_fp := fp_assign (n_fp n) fp, n_attrs := om_update 99 (serializefingerprint fp) (n_attrs n)\<rparr>) (nx_mc x1)
              in map_option (\<lambda>(e, calls, mc2). x1\<lparr>nx_mc := mc2, nx_events := nx_events x1 @ map api_request calls\<rparr>) (setattr L [] (fl_h f) mc1))))"

primrec fix_nodes :: "libs \<Rightarrow> (bytes \<Rightarrow> bool) option \<Rightarrow> fingerprint \<Rightarrow> xfile list \<Rightarrow> nodefix \<Rightarrow> nodefix option" where
  "fix_nodes L gfx fp [] x = Some x"
| "fix_nodes L gfx fp (f # fs) x = Option.bind (fix_node L gfx fp f x) (fix_nodes L gfx fp fs)"

text \<open>The fingerprint of the received file. When it cannot be opened, the object stays as it was constructed.\<close>

definition received_fp :: "'f fsenv \<Rightarrow> bytes \<Rightarrow> 'f \<Rightarrow> bool \<times> fingerprint" where
  "received_fp S local fs =
     (case fe_open S local fs of
        None \<Rightarrow> (False, fp_new (fe_junk S))
      | Some (sc, fa) \<Rightarrow> (True, snd (genfingerprint sc (fe_crc32 S) (fe_junk S) fa False (fp_new (fe_junk S)))))"

text \<open>How a transfer is left: deleted, or waiting for the next attempt.\<close>

definition complete_end :: "dstime \<Rightarrow> tslotx \<Rightarrow> transfer \<Rightarrow> transfer option" where
  "complete_end ds s t =
     (if tf_files t = [] then None
      else Some (t\<lparr>tf_slot := Some (s\<lparr>sl_fa := None, sl_retrying := True, sl_retrybt := backoff_to ds 11 (sl_retrybt s)\<rparr>)\<rparr>))"

definition complete_get :: "libs \<Rightarrow> (bytes \<Rightarrow> bool) option \<Rightarrow> 'f fsenv \<Rightarrow> file_class \<Rightarrow> dstime \<Rightarrow> transfer \<Rightarrow> tslotx \<Rightarrow> megaclient \<Rightarrow> 'f
    \<Rightarrow> (transfer option \<times> queue_event list \<times> megaclient \<times> 'f) option" where
  "complete_get L gfx S C ds t s mc fs =
     (let s1 = s\<lparr>sl_fa := None\<rparr>; t1 = t\<lparr>tf_slot := Some s1\<rparr>; local = tf_localfilename t; mtime = fp_mtime (tf_fp t);
          ev0 = (if sl_fa s \<noteq> None then [app_transfer_complete] else []);
          fs1 = fe_setmtime S local mtime fs;
          (opened, fp) = received_fp S local fs1 in
      if opened \<and> fp_isvalid (tf_fp t) \<and> \<not> fp_eq fp (tf_fp t) then
        (let (t2, ev) = transfer_fail C ds API_EWRITE t1 in Some (t2, ev0 @ unlinklocal local # ev, mc, fe_unlink S local fs1))
      else
        map_option (\<lambda>x.
          (let ev1 = (if nx_missing x \<noteq> 0 then [gfx_missing (nx_attach x) (nx_missing x)] else []);
               files = map (fc_updatelocalname C) (tf_files t);
               (rest, ev2, tmp, fs2) = place_files S C (tf_failcount t) local mtime files ([], fs1);
               unused = (tmp = [] \<and> rest = [])
           in (complete_end ds s1 (t1\<lparr>tf_files := rest\<rparr>),
               ev0 @ nx_events x @ ev1 @ ev2 @ (if unused then [unlinklocal local] else []),
               nx_mc x, if unused then fe_unlink S local fs2 else fs2)))
          (fix_nodes L gfx fp (tf_files t) \<lparr>nx_mc = mc, nx_missing = 0, nx_attach = 0, nx_events = []\<rparr>))"

text \<open>\<open>File::completed\<close> of an upload: the new node. \<open>Inl\<close>: sent to a user.\<close>

definition upload_node :: "aes \<Rightarrow> handle \<Rightarrow> transfer \<Rightarrow> tslotx \<Rightarrow> xfile \<Rightarrow> newnode" where
  "upload_node L junk t s f =
     \<lparr>nn_source = NEW_UPLOAD, nn_handle = junk, nn_parenthandle = UNDEF, nn_type = FILENODE, nn_nodekey = take 32 (tf_filekey t),
      nn_clienttimestamp = fp_mtime (tf_fp t),
      nn_attrstring = makeattr L (tf_key t) (getjson (om_update 99 (serializefingerprint (tf_fp t)) [(110, fl_name f)])),
      nn_uploadhandle = tf_uploadhandle t, nn_uploadtoken = take UPLOADTOKENLEN (sl_ultoken s)\<rparr>"

definition File_completed :: "aes \<Rightarrow> handle \<Rightarrow> megaclient \<Rightarrow> transfer \<Rightarrow> tslotx \<Rightarrow> xfile \<Rightarrow> (bytes \<times> newnode) + (handle \<times> newnode)" where
  "File_completed L junk mc t s f =
     (let nn = upload_node L junk t s f in
      if fl_targetuser f \<noteq> [] then Inl (fl_targetuser f, nn)
      else Inr (if nodebyhandle mc (fl_h f) \<noteq> None then fl_h f else mc_rootnodes mc ! 0, nn))"

text \<open>The file must not have changed; all files complete.\<close>

definition complete_put :: "(bytes \<Rightarrow> bytes) \<Rightarrow> bytes \<Rightarrow> syscalls \<Rightarrow> file_class \<Rightarrow> dstime \<Rightarrow> transfer \<Rightarrow> tslotx
    \<Rightarrow> transfer option \<times> queue_event list" where
  "complete_put crc32 junk sc C ds t s =
     (let (changed, fp) = genfingerprint sc crc32 junk (the (sl_fa s)) True (tf_fp t); t1 = t\<lparr>tf_fp := fp, tf_slot := Some s\<rparr> in
      if changed then (let (t2, ev) = transfer_fail C ds API_EREAD t1 in (t2, app_transfer_complete # ev))
      else (None, app_transfer_complete # map file_completed (tf_files t)))"

section \<open>Pipelining\<close>

record xferq =
  xq_transfers :: "direction \<Rightarrow> transfer list"
  xq_nextuh :: u64

definition active :: "xferq \<Rightarrow> (transfer \<times> tslotx) list" where
  "active q = List.map_filter (\<lambda>t. map_option (Pair t) (tf_slot t)) (xq_transfers q GET @ xq_transfers q PUT)"

abbreviation (input) MAXTRANSFERS :: nat where "MAXTRANSFERS \<equiv> 8"
abbreviation (input) MINPIPELINE :: int where "MINPIPELINE \<equiv> 65536"

definition slotavail :: "xferq \<Rightarrow> bool" where
  "slotavail q \<longleftrightarrow> length (active q) < MAXTRANSFERS"

text \<open>Division of C++.\<close>

definition tquot :: "int \<Rightarrow> int \<Rightarrow> int" where
  "tquot a b = sgn a * sgn b * (\<bar>a\<bar> div \<bar>b\<bar>)"

record pipeline =
  pl_c :: int
  pl_r :: int
  pl_t :: dstime
  pl_total :: int

definition pl_add :: "dstime \<Rightarrow> transfer \<times> tslotx \<Rightarrow> pipeline \<Rightarrow> pipeline" where
  "pl_add ds = (\<lambda>(t, s) p.
     (let p1 = (if ts_starttime s \<noteq> 0 then p\<lparr>pl_t := pl_t p + (ds - ts_starttime s)\<rparr> else p)
      in p1\<lparr>pl_c := pl_c p1 + sl_progressreported s, pl_r := pl_r p1 + (fp_size (tf_fp t) - sl_progressreported s), pl_total := pl_total p1 + 1\<rparr>))"

definition moretransfers :: "dstime \<Rightarrow> direction \<Rightarrow> xferq \<Rightarrow> bool" where
  "moretransfers ds d q =
     (if \<not> slotavail q then False
      else
        (let p = fold (pl_add ds) (filter (\<lambda>(t, s). tf_type t = d) (active q)) \<lparr>pl_c = 0, pl_r = 0, pl_t = 0, pl_total = 0\<rparr> in
         if pl_r p < MINPIPELINE then True
         else if pl_t p \<ge> 2 then False
         else if pl_t p > 50 then
           (let bpds = to_int (tquot (pl_c p) (uint (pl_t p))) in bpds > 100 \<and> tquot (pl_r p) bpds < 20)
         else False))"

section \<open>Dispatch\<close>

text \<open>What a dispatch depends on: the clock, the nodes, the files' class, random bytes, the application's changes to the local name, opening a file,
  the number of connections, uninitialized memory, and whether there is a graphics layer.\<close>

record qenv =
  qe_ds :: dstime
  qe_mc :: megaclient
  qe_class :: file_class
  qe_rnd :: "nat \<Rightarrow> bytes"
  qe_prepare :: "transfer \<Rightarrow> bytes"
  qe_open :: "direction \<Rightarrow> bytes \<Rightarrow> bool \<times> fileaccess"
  qe_conns :: "direction \<Rightarrow> nat"
  qe_junk :: bytes
  qe_gfx :: bool

text \<open>The first inactive transfer that is due.\<close>

definition next_transfer :: "dstime \<Rightarrow> transfer list \<Rightarrow> nat option" where
  "next_transfer ds ts =
     fold (\<lambda>i b. if tf_slot (ts ! i) = None \<and> armed ds (tf_bt (ts ! i)) \<and>
            (case b of None \<Rightarrow> True | Some j \<Rightarrow> retryin ds (tf_bt (ts ! i)) < retryin ds (tf_bt (ts ! j))) then Some i else b)
       [0..<length ts] None"

text \<open>Key and size of the first file that is known.\<close>

definition template_file :: "megaclient \<Rightarrow> xfile \<Rightarrow> (bytes \<times> int) option" where
  "template_file mc f =
     (if fl_hprivate f then
        (case nodebyhandle mc (fl_h f) of
           Some n \<Rightarrow> if n_type n = FILENODE then Some (n_nodekey n, fp_size (n_fp n)) else None
         | None \<Rightarrow> None)
      else Some (fl_filekey f, fp_size (fl_fp f)))"

primrec template :: "megaclient \<Rightarrow> xfile list \<Rightarrow> (bytes \<times> int) option" where
  "template mc [] = None"
| "template mc (f # fs) = (case template_file mc f of Some k \<Rightarrow> Some k | None \<Rightarrow> template mc fs)"

definition get_keys :: "bytes \<times> int \<Rightarrow> transfer \<Rightarrow> transfer" where
  "get_keys = (\<lambda>(k, size) t. t\<lparr>tf_fp := (tf_fp t)\<lparr>fp_size := size\<rparr>, tf_key := symm_setkey k FILENODE (tf_key t),
     tf_ctriv := le_word (take 8 (drop 16 k)), tf_metamac := le_word (take 8 (drop 24 k))\<rparr>)"

definition put_keys :: "bytes \<Rightarrow> transfer \<Rightarrow> transfer" where
  "put_keys k t = t\<lparr>tf_key := symm_setkey k 1 (tf_key t), tf_ctriv := le_word (take 8 (drop 16 k))\<rparr>"

definition prepare_files :: "file_class \<Rightarrow> transfer \<Rightarrow> transfer" where
  "prepare_files C t = fold (\<lambda>f t. if tf_localfilename t = [] then t\<lparr>tf_localfilename := fc_prepare C f\<rparr> else t) (tf_files t) t"

text \<open>A fresh transfer; \<open>None\<close>: no file is known, \<open>return false\<close>.\<close>

definition dispatch_fresh :: "qenv \<Rightarrow> nat \<Rightarrow> direction \<Rightarrow> transfer \<Rightarrow> (transfer \<times> queue_event list) option" where
  "dispatch_fresh Q n d t =
     (if tf_localfilename t \<noteq> [] then Some (t, [])
      else
        map_option (\<lambda>t1. (let t2 = prepare_files (qe_class Q) t1 in (t2\<lparr>tf_localfilename := qe_prepare Q t2\<rparr>, [app_transfer_prepare])))
          (if d = PUT then Some (put_keys (qe_rnd Q n) t) else map_option (\<lambda>k. get_keys k t) (template (qe_mc Q) (tf_files t))))"

text \<open>Downloads resume at the end of the last contiguous completed block.\<close>

primrec resume_loop :: "int \<Rightarrow> chunkmac_map \<Rightarrow> int \<Rightarrow> int" where
  "resume_loop sz [] pos = pos"
| "resume_loop sz (c # cs) pos = (if pos \<noteq> fst c then pos else resume_loop sz cs (if sz \<noteq> 0 then chunkceil pos else pos))"

definition source_handle :: "megaclient \<Rightarrow> xfile list \<Rightarrow> handle \<times> bool" where
  "source_handle mc fs =
     (case find (\<lambda>f. \<not> fl_hprivate f \<or> nodebyhandle mc (fl_h f) \<noteq> None) fs of Some f \<Rightarrow> (fl_h f, fl_hprivate f) | None \<Rightarrow> (UNDEF, True))"

text \<open>\<open>getuploadhandle\<close>: the carry runs towards lower addresses.\<close>

definition getuploadhandle :: "u64 \<Rightarrow> u64" where
  "getuploadhandle h = le_word (incblock 8 (le_bytes 8 h))"

definition start_put :: "qenv \<Rightarrow> tslotx \<Rightarrow> transfer \<Rightarrow> u64 \<Rightarrow> transfer \<times> u64 \<times> queue_event list" where
  "start_put Q s t uh =
     (let t1 = t\<lparr>tf_pos := 0, tf_fp := (tf_fp t)\<lparr>fp_size := (case sl_fa s of Some fa \<Rightarrow> fa_size fa | None \<Rightarrow> 0)\<rparr>, tf_chunkmacs := []\<rparr> in
      if qe_gfx Q \<and> tf_localfilename t \<noteq> [] \<and> tf_uploadhandle t = 0
      then (t1\<lparr>tf_uploadhandle := getuploadhandle uh\<rparr>, getuploadhandle uh, [gfx_put (tf_localfilename t) (getuploadhandle uh), put_file])
      else (t1, uh, [put_file]))"

definition start_get :: "qenv \<Rightarrow> transfer \<Rightarrow> transfer \<times> queue_event list" where
  "start_get Q t =
     (let (h, p) = source_handle (qe_mc Q) (tf_files t)
      in (t\<lparr>tf_pos := resume_loop (fp_size (tf_fp t)) (tf_chunkmacs t) 0\<rparr>, [get_file h p]))"

text \<open>One round of the loop in \<open>MegaClient::dispatch\<close>: \<open>Inl\<close> returns, \<open>Inr\<close> goes on after a failure.\<close>

definition set_transfer :: "direction \<Rightarrow> nat \<Rightarrow> transfer option \<Rightarrow> xferq \<Rightarrow> xferq" where
  "set_transfer d i t q =
     (let ts = xq_transfers q d in
      q\<lparr>xq_transfers := (xq_transfers q)(d := (case t of Some t' \<Rightarrow> ts[i := t'] | None \<Rightarrow> take i ts @ drop (Suc i) ts))\<rparr>)"

definition dispatch_failed :: "qenv \<Rightarrow> direction \<Rightarrow> nat \<Rightarrow> transfer \<Rightarrow> xferq \<Rightarrow> xferq \<times> queue_event list" where
  "dispatch_failed Q d i t q = (let (t1, ev) = transfer_fail (qe_class Q) (qe_ds Q) API_EREAD t in (set_transfer d i t1 q, ev))"

definition dispatch_start :: "qenv \<Rightarrow> direction \<Rightarrow> nat \<Rightarrow> transfer \<Rightarrow> xferq \<Rightarrow> (bool \<times> xferq \<times> queue_event list) + (xferq \<times> queue_event list)" where
  "dispatch_start Q d i t q =
     (if tf_localfilename t = [] then Inr (dispatch_failed Q d i t q)
      else
        (let (ok, fa) = qe_open Q d (tf_localfilename t); s = TransferSlot (qe_ds Q) (qe_conns Q d) fa (qe_junk Q) t in
         if ok then
           (let (t1, uh, ev) = (if d = PUT then start_put Q s t (xq_nextuh q) else let (t1, ev) = start_get Q t in (t1, xq_nextuh q, ev))
            in Inl (True, (set_transfer d i (Some (t1\<lparr>tf_slot := Some (s\<lparr>ts_pendingcmd := True\<rparr>)\<rparr>)) q)\<lparr>xq_nextuh := uh\<rparr>, ev @ map file_start (tf_files t)))
         else Inr (dispatch_failed Q d i (t\<lparr>tf_slot := Some s\<rparr>) q)))"

definition dispatch_step :: "qenv \<Rightarrow> nat \<Rightarrow> direction \<Rightarrow> xferq \<Rightarrow> (bool \<times> xferq \<times> queue_event list) + (xferq \<times> queue_event list)" where
  "dispatch_step Q n d q =
     (case next_transfer (qe_ds Q) (xq_transfers q d) of
        None \<Rightarrow> Inl (False, q, [])
      | Some i \<Rightarrow>
          (case dispatch_fresh Q n d (xq_transfers q d ! i) of
             None \<Rightarrow> Inl (False, q, [])
           | Some (t, ev) \<Rightarrow>
               (case dispatch_start Q d i t (set_transfer d i (Some t) q) of
                  Inl (b, q1, ev1) \<Rightarrow> Inl (b, q1, ev @ ev1)
                | Inr (q1, ev1) \<Rightarrow> Inr (q1, ev @ ev1))))"

partial_function (option) dispatch_loop :: "qenv \<Rightarrow> nat \<Rightarrow> direction \<Rightarrow> xferq \<Rightarrow> queue_event list \<Rightarrow> (bool \<times> xferq \<times> queue_event list) option" where
  "dispatch_loop Q n d q es =
     (case dispatch_step Q n d q of
        Inl (b, q1, ev) \<Rightarrow> Some (b, q1, es @ ev)
      | Inr (q1, ev) \<Rightarrow> dispatch_loop Q (Suc n) d q1 (es @ ev))"

declare dispatch_loop.simps [code]

definition dispatch :: "qenv \<Rightarrow> direction \<Rightarrow> xferq \<Rightarrow> (bool \<times> xferq \<times> queue_event list) option" where
  "dispatch Q d q = (if slotavail q then dispatch_loop Q 0 d q [] else Some (False, q, []))"

text \<open>\<open>dispatchmore\<close>; the random bytes of later calls are those of \<open>Qs\<close>.\<close>

partial_function (option) dispatchmore :: "(nat \<Rightarrow> qenv) \<Rightarrow> nat \<Rightarrow> direction \<Rightarrow> xferq \<Rightarrow> queue_event list \<Rightarrow> (xferq \<times> queue_event list) option" where
  "dispatchmore Q n d q es =
     (if moretransfers (qe_ds (Q n)) d q then
        Option.bind (dispatch (Q n) d q) (\<lambda>(b, q1, ev). if b then dispatchmore Q (Suc n) d q1 (es @ ev) else Some (q1, es @ ev))
      else Some (q, es))"

declare dispatchmore.simps [code]

section \<open>Files\<close>

text \<open>The constructor of \<open>Transfer\<close>: what it does not set is taken from \<open>junk\<close>.\<close>

definition Transfer :: "direction \<Rightarrow> transfer \<Rightarrow> transfer" where
  "Transfer d junk = junk\<lparr>tf_type := d, tf_fp := fp_new (fp_crc (tf_fp junk)), tf_slot := None, tf_files := [], tf_failcount := 0, tf_bt := BackoffTimer,
     tf_localfilename := [], tf_key := symm_new, tf_chunkmacs := [], tf_uploadhandle := 0\<rparr>"

text \<open>\<open>transfers[d].find(f)\<close> in a map ordered by \<open>FileFingerprintCmp\<close>, and the position of an insertion.\<close>

definition lower_bound :: "fingerprint \<Rightarrow> transfer list \<Rightarrow> nat" where
  "lower_bound fp ts = length (takeWhile (\<lambda>t. fp_less (tf_fp t) fp) ts)"

definition find_transfer :: "fingerprint \<Rightarrow> transfer list \<Rightarrow> nat option" where
  "find_transfer fp ts = (let i = lower_bound fp ts in if i < length ts \<and> \<not> fp_less fp (tf_fp (ts ! i)) then Some i else None)"

definition file_fp :: "'f fsenv \<Rightarrow> 'f \<Rightarrow> direction \<Rightarrow> xfile \<Rightarrow> xfile" where
  "file_fp S fs d f =
     (if fp_isvalid (fl_fp f) then f
      else if d = PUT then
        (case fe_open S (fl_localname f) fs of
           None \<Rightarrow> f
         | Some (sc, fa) \<Rightarrow> f\<lparr>fl_fp := snd (genfingerprint sc (fe_crc32 S) (fe_junk S) fa False (fl_fp f))\<rparr>)
      else f\<lparr>fl_fp := (fl_fp f)\<lparr>fp_crc := take 16 (fl_filekey f)\<rparr>\<rparr>)"

text \<open>\<open>startxfer\<close> on a file without a transfer; the result, the file, the queue.\<close>

definition startxfer :: "'f fsenv \<Rightarrow> 'f \<Rightarrow> int \<Rightarrow> transfer \<Rightarrow> direction \<Rightarrow> xfile \<Rightarrow> xferq \<Rightarrow> bool \<times> xfile \<times> xferq \<times> queue_event list" where
  "startxfer S fs reqtag junk d f q =
     (let f1 = file_fp S fs d f; ts = xq_transfers q d; i = lower_bound (fl_fp f1) ts in
      if d = PUT \<and> \<not> fp_isvalid (fl_fp f1) then (False, f1, q, [])
      else
        (case find_transfer (fl_fp f1) ts of
           Some j \<Rightarrow> (True, f1, set_transfer d j (Some ((ts ! j)\<lparr>tf_files := f1 # tf_files (ts ! j)\<rparr>)) q, [])
         | None \<Rightarrow>
             (let t = Transfer d junk; t1 = t\<lparr>tf_fp := fp_assign (tf_fp t) (fl_fp f1), tf_tag := reqtag, tf_files := [f1]\<rparr>
              in (True, f1, q\<lparr>xq_transfers := (xq_transfers q)(d := take i ts @ t1 # drop i ts)\<rparr>, [app_transfer_added]))))"

text \<open>\<open>stopxfer\<close> on file \<open>j\<close> of transfer \<open>i\<close>.\<close>

definition stopxfer :: "direction \<Rightarrow> nat \<Rightarrow> nat \<Rightarrow> xferq \<Rightarrow> xferq \<times> queue_event list" where
  "stopxfer d i j q =
     (let t = xq_transfers q d ! i; fs = take j (tf_files t) @ drop (Suc j) (tf_files t) in
      if fs = [] then (set_transfer d i None q, app_transfer_removed # slot_delete t)
      else (set_transfer d i (Some (t\<lparr>tf_files := fs\<rparr>)) q, [app_transfer_removed]))"

section \<open>The event loop\<close>

text \<open>What follows a call of \<open>doio\<close>.\<close>

definition finish_io :: "libs \<Rightarrow> (bytes \<Rightarrow> bool) option \<Rightarrow> 'f fsenv \<Rightarrow> file_class \<Rightarrow> ioenv \<Rightarrow> xfer_end \<times> iostate \<Rightarrow> megaclient \<Rightarrow> 'f
    \<Rightarrow> (transfer option \<times> queue_event list \<times> megaclient \<times> 'f) option" where
  "finish_io L gfx S C E = (\<lambda>(e, st) mc fs.
     (let t = lo_t st; s = lo_s st in
      case e of
        Going \<Rightarrow> Some (Some (t\<lparr>tf_slot := Some s\<rparr>), [], mc, fs)
      | Failed x \<Rightarrow> (let (t1, ev) = transfer_fail C (io_ds E) x (t\<lparr>tf_slot := Some s\<rparr>) in Some (t1, ev, mc, fs))
      | Complete \<Rightarrow>
          if tf_type t = GET then complete_get L gfx S C (io_ds E) t s mc fs
          else (let (t1, ev) = complete_put (fe_crc32 S) (fe_junk S) (io_S E) C (io_ds E) t s in Some (t1, ev, mc, fs))))"

text \<open>\<open>MegaClient::exec\<close>: an active transfer is served unless it is paused or waits for its next attempt.\<close>

definition exec_slot :: "libs \<Rightarrow> (bytes \<Rightarrow> bool) option \<Rightarrow> 'f fsenv \<Rightarrow> file_class \<Rightarrow> ioenv \<Rightarrow> bool \<Rightarrow> transfer \<Rightarrow> tslotx \<Rightarrow> netstate \<Rightarrow> megaclient \<Rightarrow> 'f
    \<Rightarrow> (transfer option \<times> queue_event list \<times> megaclient \<times> 'f) option" where
  "exec_slot L gfx S C E paused t s nt mc fs =
     (if \<not> paused \<and> (\<not> sl_retrying s \<or> armed (io_ds E) (sl_retrybt s)) then finish_io L gfx S C E (doio E t s nt) mc fs
      else Some (Some (t\<lparr>tf_slot := Some s\<rparr>), [], mc, fs))"

text \<open>The part of \<open>abortbackoff\<close> for transfers, and \<open>nexttransferretry\<close>.\<close>

definition abort_transfer :: "dstime \<Rightarrow> transfer \<Rightarrow> bool \<Rightarrow> transfer \<times> bool" where
  "abort_transfer ds t r =
     (if tf_failcount t \<noteq> 0 then (let (b, bt) = arm ds (tf_bt t) in (t\<lparr>tf_failcount := 0, tf_bt := bt\<rparr>, r \<or> b)) else (t, r))"

definition nexttransferretry :: "dstime \<Rightarrow> transfer list \<Rightarrow> dstime \<Rightarrow> dstime" where
  "nexttransferretry ds ts dsmin =
     fold (\<lambda>t m. if (case tf_slot t of None \<Rightarrow> True | Some s \<Rightarrow> sl_fa s = None) \<and> nextset (tf_bt t) \<noteq> 0 \<and> nextset (tf_bt t) \<ge> ds \<and> nextset (tf_bt t) < m
       then nextset (tf_bt t) else m) ts dsmin"

end
