(* ===== verification/Uploads.thy ===== *)
theory Uploads
  imports Downloads Transfer_Queue
begin

text \<open>
  Uploads: whatever the network does, an upload that completes has stored the encrypted chunks of the file under their URLs, and the key of
  the new node is the one that a download needs.
\<close>

section \<open>The key of a file\<close>

definition has_keys :: "source \<Rightarrow> transfer \<Rightarrow> bool" where
  "has_keys X t \<longleftrightarrow> tf_key t = so_key X \<and> tf_ctriv t = so_iv X \<and>
     tf_metamac t = macsmac (so_L X) (so_key X) (file_macs (so_L X) (so_key X) (so_iv X) (so_d X) (nchunks (so_d X)))"

lemma file_key_roundtrip:
  assumes "length (sk_key key) = 16" "sk_valid key"
  shows "tf_key (get_keys (file_key key iv mac, n) t) = key" "tf_ctriv (get_keys (file_key key iv mac, n) t) = iv" "tf_metamac (get_keys (file_key key iv mac, n) t) = mac"
proof -
  define k where "k = le_bytes 8 iv @ le_bytes 8 mac"
  have k: "length k = 16" by (simp add: k_def)
  have x: "length (xorblock k (sk_key key)) = 16" using xorblock_bytes [of k "sk_key key"] assms(1) k by simp
  have f: "file_key key iv mac = xorblock k (sk_key key) @ k" using assms(1) by (simp add: file_key_def k_def Let_def)
  show "tf_key (get_keys (file_key key iv mac, n) t) = key"
    unfolding get_keys_def f symm_setkey_def using x assms xorblock_twice [OF assms(1) k] by (simp add: Let_def)
  show "tf_ctriv (get_keys (file_key key iv mac, n) t) = iv" "tf_metamac (get_keys (file_key key iv mac, n) t) = mac"
    unfolding get_keys_def f using x by (simp_all add: k_def le_word_le_bytes)
qed

section \<open>The storage server\<close>

text \<open>It keeps the data of a request under its URL, and answers with a token only when every chunk is there.\<close>

definition ul_url :: "bytes \<Rightarrow> bytes \<Rightarrow> nat \<Rightarrow> bytes" where
  "ul_url url d j = chunk_url (url @ [ch_slash] @ dec_int (cpos d j))"

definition all_stored :: "source \<Rightarrow> bytes \<Rightarrow> (bytes \<rightharpoonup> bytes) \<Rightarrow> bool" where
  "all_stored X url M \<longleftrightarrow> (\<forall>j<nchunks (so_d X). M (ul_url url (so_d X) j) \<noteq> None)"

text \<open>The file can be read, or not at the moment; requests are sent, or fail at once.\<close>

definition ul_env :: "source \<Rightarrow> ioenv \<Rightarrow> bool" where
  "ul_env X E \<longleftrightarrow> io_L E = so_L X \<and> (\<forall>i. io_posted E i \<in> {REQ_INFLIGHT, REQ_FAILURE}) \<and>
     (\<forall>n pad pos fa. 0 \<le> pos \<longrightarrow> nat pos + n \<le> length (so_d X) \<longrightarrow>
        fst (fa_fread (io_S E) n pad pos fa) \<in> {None, Some (take n (drop (nat pos) (so_d X)) @ replicate pad 0)})"

inductive ul_step :: "source \<Rightarrow> transfer \<times> tslotx \<times> (bytes \<rightharpoonup> bytes) \<Rightarrow> transfer \<times> tslotx \<times> (bytes \<rightharpoonup> bytes) \<Rightarrow> bool" for X where
  ul_io: "ul_env X E \<Longrightarrow> doio E t s nt = (Going, st) \<Longrightarrow> ul_step X (t, s, M) (lo_t st, lo_s st, M)"
| ul_reply: "i < length (sl_reqs s) \<Longrightarrow> sl_reqs s ! i = Some r \<Longrightarrow> hr_status r = REQ_INFLIGHT \<Longrightarrow> M' = M(hr_posturl r \<mapsto> hr_out r) \<Longrightarrow>
    token \<noteq> [] \<longrightarrow> all_stored X (ts_tempurl s) M' \<Longrightarrow>
    ul_step X (t, s, M) (t, s\<lparr>sl_reqs := (sl_reqs s)[i := Some (r\<lparr>hr_status := REQ_SUCCESS, hr_in := token\<rparr>)]\<rparr>, M')"
| ul_error: "i < length (sl_reqs s) \<Longrightarrow> sl_reqs s ! i = Some r \<Longrightarrow> hr_status r = REQ_INFLIGHT \<Longrightarrow> M' = M \<or> M' = M(hr_posturl r \<mapsto> hr_out r) \<Longrightarrow>
    ul_step X (t, s, M) (t, s\<lparr>sl_reqs := (sl_reqs s)[i := Some (r\<lparr>hr_status := REQ_FAILURE, hr_httpstatus := c, hr_in := x\<rparr>)]\<rparr>, M')"
| ul_resume: "ul_step X (t, s, M) (t, exec_failed_slot s, M)"

section \<open>The invariant\<close>

definition ul_req :: "source \<Rightarrow> bytes \<Rightarrow> nat \<Rightarrow> httpreqxfer \<Rightarrow> bool" where
  "ul_req X url k r \<longleftrightarrow> hr_status r \<in> {REQ_READY, REQ_DONE} \<or> (\<exists>j<k. hr_posturl r = ul_url url (so_d X) j \<and> hr_out r = so_cipher X j)"

definition server_ok :: "source \<Rightarrow> bytes \<Rightarrow> nat \<Rightarrow> (bytes \<rightharpoonup> bytes) \<Rightarrow> bool" where
  "server_ok X url k M \<longleftrightarrow> (\<forall>u x. M u = Some x \<longrightarrow> (\<exists>j<k. u = ul_url url (so_d X) j \<and> x = so_cipher X j))"

definition ul_inv :: "source \<Rightarrow> nat \<Rightarrow> transfer \<Rightarrow> tslotx \<Rightarrow> (bytes \<rightharpoonup> bytes) \<Rightarrow> bool" where
  "ul_inv X k t s M \<longleftrightarrow>
     tf_type t = PUT \<and> fp_size (tf_fp t) = int (length (so_d X)) \<and> so_d X \<noteq> [] \<and> tf_key t = so_key X \<and> tf_ctriv t = so_iv X \<and>
     tf_pos t = cpos (so_d X) k \<and> tf_chunkmacs t = file_macs (so_L X) (so_key X) (so_iv X) (so_d X) k \<and> k \<le> nchunks (so_d X) \<and>
     sl_fa s \<noteq> None \<and> inj_on (ul_url (ts_tempurl s) (so_d X)) {..<nchunks (so_d X)} \<and> server_ok X (ts_tempurl s) k M \<and>
     (\<forall>r. Some r \<in> set (sl_reqs s) \<longrightarrow> ul_req X (ts_tempurl s) k r \<and>
        (hr_status r = REQ_SUCCESS \<and> hr_in r \<noteq> [] \<longrightarrow> all_stored X (ts_tempurl s) M))"

text \<open>What a completed upload leaves.\<close>

definition uploaded :: "source \<Rightarrow> bytes \<Rightarrow> (bytes \<rightharpoonup> bytes) \<Rightarrow> transfer \<Rightarrow> bool" where
  "uploaded X url M t \<longleftrightarrow>
     (\<forall>j<nchunks (so_d X). M (ul_url url (so_d X) j) = Some (so_cipher X j)) \<and>
     tf_filekey t = file_key (so_key X) (so_iv X) (macsmac (so_L X) (so_key X) (file_macs (so_L X) (so_key X) (so_iv X) (so_d X) (nchunks (so_d X))))"

lemma server_all:
  assumes "server_ok X url k M" "all_stored X url M" "inj_on (ul_url url (so_d X)) {..<nchunks (so_d X)}" "k \<le> nchunks (so_d X)"
  shows "k = nchunks (so_d X)" "\<forall>j<nchunks (so_d X). M (ul_url url (so_d X) j) = Some (so_cipher X j)"
proof -
  have ex: "j < k \<and> M (ul_url url (so_d X) j) = Some (so_cipher X j)" if "j < nchunks (so_d X)" for j
  proof -
    have "M (ul_url url (so_d X) j) \<noteq> None" using assms(2) that unfolding all_stored_def by blast
    then obtain x where x: "M (ul_url url (so_d X) j) = Some x" by auto
    then obtain j' where "j' < k" "ul_url url (so_d X) j = ul_url url (so_d X) j'" "x = so_cipher X j'" using assms(1) by (auto simp: server_ok_def)
    moreover from this have "j = j'" using assms(3,4) that by (auto dest: inj_onD)
    ultimately show ?thesis using x by simp
  qed
  then show "\<forall>j<nchunks (so_d X). M (ul_url url (so_d X) j) = Some (so_cipher X j)" by blast
  show "k = nchunks (so_d X)" using ex [of k] assms(4) by (cases "k = nchunks (so_d X)") auto
qed

lemma ul_req_mono: "ul_req X url k r \<Longrightarrow> k \<le> k' \<Longrightarrow> ul_req X url k' r"
  unfolding ul_req_def by (meson less_le_trans)

lemma server_ok_mono: "server_ok X url k M \<Longrightarrow> k \<le> k' \<Longrightarrow> server_ok X url k' M"
  unfolding server_ok_def by (meson less_le_trans)

abbreviation (input) lo_ul :: "source \<Rightarrow> nat \<Rightarrow> (bytes \<rightharpoonup> bytes) \<Rightarrow> iostate \<Rightarrow> bool" where
  "lo_ul X k M st \<equiv> ul_inv X k (lo_t st) (lo_s st) M"

text \<open>One connection is changed.\<close>

lemma ul_inv_req:
  assumes "lo_ul X k M st" "ul_req X (ts_tempurl (lo_s st)) k r" "hr_status r = REQ_SUCCESS \<longrightarrow> hr_in r = []"
  shows "lo_ul X k M (lo_req i r st)"
proof -
  have "Some r' \<in> set (sl_reqs (lo_s st)) \<or> r' = r" if "Some r' \<in> set ((sl_reqs (lo_s st))[i := Some r])" for r'
    using that set_update_subset_insert [of "sl_reqs (lo_s st)" i "Some r"] by auto
  then show ?thesis using assms by (auto simp: ul_inv_def lo_req_def lo_slot_def)
qed

lemma ul_status:
  assumes I: "lo_ul X k M st" and E: "ul_env X E" and i: "i < length (sl_reqs (lo_s st))" "sl_reqs (lo_s st) ! i = Some r"
  shows "case req_status E i r st of
      Inl (e, st') \<Rightarrow> e \<noteq> Going \<and> (e = Complete \<longrightarrow> uploaded X (ts_tempurl (lo_s st)) M (lo_t st'))
    | Inr st' \<Rightarrow> lo_ul X k M st' \<and> length (sl_reqs (lo_s st')) = length (sl_reqs (lo_s st)) \<and> ts_tempurl (lo_s st') = ts_tempurl (lo_s st)"
proof -
  have r: "ul_req X (ts_tempurl (lo_s st)) k r" "hr_status r = REQ_SUCCESS \<and> hr_in r \<noteq> [] \<longrightarrow> all_stored X (ts_tempurl (lo_s st)) M"
    using I i nth_mem [OF i(1)] by (auto simp: ul_inv_def)
  have P: "tf_type (lo_t st) = PUT" using I by (simp add: ul_inv_def)
  show ?thesis
  proof (cases "hr_status r")
    case REQ_SUCCESS
    define st1 where "st1 = lo_slot (\<lambda>s. s\<lparr>ts_lastdata := io_ds E, sl_progresscompleted := sl_progresscompleted s + uint (hx_size r), sl_errorcount := 0\<rparr>) st"
    have I1: "lo_ul X k M st1" "ts_tempurl (lo_s st1) = ts_tempurl (lo_s st)" "length (sl_reqs (lo_s st1)) = length (sl_reqs (lo_s st))"
      using I by (simp_all add: st1_def lo_slot_def ul_inv_def)
    show ?thesis
    proof (cases "hr_in r = []")
      case True
      have "req_status E i r st = Inr (lo_req i (r\<lparr>hr_status := REQ_READY\<rparr>) st1)"
        using P REQ_SUCCESS True by (simp add: req_status_def put_success_def Let_def st1_def lo_slot_def)
      then show ?thesis using ul_inv_req [OF I1(1), of "r\<lparr>hr_status := REQ_READY\<rparr>" i] I1 by (simp add: ul_req_def lo_req_def lo_slot_def)
    next
      case False
      have k: "k = nchunks (so_d X)" "\<forall>j<nchunks (so_d X). M (ul_url (ts_tempurl (lo_s st)) (so_d X) j) = Some (so_cipher X j)"
        using server_all [of X "ts_tempurl (lo_s st)" k M] I r(2) REQ_SUCCESS False by (auto simp: ul_inv_def)
      show ?thesis
        using P REQ_SUCCESS False k I E by (auto simp: req_status_def put_success_def Let_def lo_slot_def uploaded_def ul_inv_def ul_env_def)
    qed
  next
    case REQ_FAILURE
    define st1 where "st1 = (if sl_failure (lo_s st) then st else (lo_slot (\<lambda>s. s\<lparr>sl_failure := True\<rparr>) st)\<lparr>lo_net := setchunkfailed (hr_posturl r) (lo_net st)\<rparr>)"
    have I1: "lo_ul X k M st1" "ts_tempurl (lo_s st1) = ts_tempurl (lo_s st)" "length (sl_reqs (lo_s st1)) = length (sl_reqs (lo_s st))"
      using I by (simp_all add: st1_def lo_slot_def ul_inv_def)
    have q: "ul_req X (ts_tempurl (lo_s st1)) k (r\<lparr>hr_status := REQ_PREPARED\<rparr>)" using r(1) REQ_FAILURE I1(2) by (simp add: ul_req_def)
    show ?thesis
    proof (cases "hr_httpstatus r = 509")
      case True
      then show ?thesis using I REQ_FAILURE by (simp add: req_status_def req_failure_def lo_event_def ul_inv_def)
    next
      case False
      then have "req_status E i r st = Inr (lo_req i (r\<lparr>hr_status := REQ_PREPARED\<rparr>) st1)"
        using REQ_FAILURE by (simp add: req_status_def req_failure_def st1_def)
      then show ?thesis using ul_inv_req [OF I1(1) q, of i] I1 by (simp add: lo_req_def lo_slot_def)
    qed
  qed (use I P in \<open>simp_all add: req_status_def ul_inv_def\<close>)
qed

text \<open>The next chunk.\<close>

lemma ul_prepare_chunk:
  assumes k: "k < nchunks (so_d X)" and E: "ul_env X E"
    and p: "ul_prepare (io_S E) fa url (so_L X) (so_key X) macs (so_iv X) (cpos (so_d X) k) (cpos (so_d X) (Suc k)) r = (b, r', macs')"
  shows "if b then hr_posturl r' = ul_url url (so_d X) k \<and> hr_out r' = so_cipher X k \<and> macs' = om_update (cpos (so_d X) k) (so_mac X k) macs
    else macs' = macs \<and> hr_status r' = hr_status r"
proof -
  let ?d = "so_d X" let ?n = "csize ?d k"
  define sz where "sz = (word_of_int ?n :: u32)"
  have n: "0 < ?n" "uint sz = ?n" "unat sz = nat ?n" using csize_bounds [OF k] csize_word [OF k] by (simp_all add: sz_def flip: nat_uint_eq)
  have pad: "unat (- sz AND 15) = nat ((- ?n) mod 16)" unfolding neg_and_15 n(2) ..
  have le: "nat (cpos ?d k) + nat ?n \<le> length ?d" using cpos_csize [OF k] by (simp add: cpos_def)
  have "fst (fa_fread (io_S E) (unat sz) (unat (- sz AND 15)) (cpos ?d k) fa) \<in> {None, Some (chunk_pad ?d k)}"
    using E le unfolding ul_env_def n(3) pad chunk_pad_def chunk_plain_def by (meson cpos_nonneg)
  then consider "fst (fa_fread (io_S E) (unat sz) (unat (- sz AND 15)) (cpos ?d k) fa) = None"
    | "fst (fa_fread (io_S E) (unat sz) (unat (- sz AND 15)) (cpos ?d k) fa) = Some (chunk_pad ?d k)" unfolding insert_iff empty_iff by argo
  then show ?thesis
  proof cases
    case 1
    then show ?thesis using p by (auto simp: ul_prepare_def Let_def csize_def sz_def)
  next
    case 2
    have e: "cpos ?d (Suc k) - cpos ?d k = ?n" by (simp add: csize_def)
    show ?thesis
      using p unfolding ul_prepare_def e Let_def sz_def [symmetric] 2 n(2)
      by (auto simp: ul_url_def setreq_def chunk_cipher_def chunk_enc_def n(3) split: prod.splits)
  qed
qed

lemma file_macs_Suc:
  assumes "k < nchunks (so_d X)"
  shows "om_update (cpos (so_d X) k) (so_mac X k) (file_macs (so_L X) (so_key X) (so_iv X) (so_d X) k) = file_macs (so_L X) (so_key X) (so_iv X) (so_d X) (Suc k)"
  using part_macs_insert [of "{..<k}" X k] assms by (simp add: part_macs_all lessThan_Suc [symmetric] subset_eq)

lemma ul_next:
  assumes I: "lo_ul X k M st" and E: "ul_env X E" and i: "i < length (sl_reqs (lo_s st))"
  shows "case req_next E i st of
      Inl (e, st') \<Rightarrow> e \<noteq> Complete \<and> e \<noteq> Going
    | Inr st' \<Rightarrow> (\<exists>k'. lo_ul X k' M st') \<and> length (sl_reqs (lo_s st')) = length (sl_reqs (lo_s st)) \<and> ts_tempurl (lo_s st') = ts_tempurl (lo_s st)"
proof -
  define q where "q = sl_reqs (lo_s st) ! i"
  let ?d = "so_d X" let ?url = "ts_tempurl (lo_s st)"
  note S = I [unfolded ul_inv_def]
  consider (no) "\<not> (case q of None \<Rightarrow> True | Some r \<Rightarrow> hr_status r = REQ_READY)"
    | (go) "case q of None \<Rightarrow> True | Some r \<Rightarrow> hr_status r = REQ_READY" "k < nchunks ?d"
    | (rest) "case q of None \<Rightarrow> True | Some r \<Rightarrow> hr_status r = REQ_READY" "k = nchunks ?d" using S by linarith
  then show ?thesis
  proof cases
    case no
    then have "req_next E i st = Inr st" by (simp add: req_next_def q_def)
    then show ?thesis using I by auto
  next
    case go
    define r0 where "r0 = (case q of Some r \<Rightarrow> r | None \<Rightarrow> new_request)"
    have r0: "hr_status r0 = REQ_READY" using go(1) new_request_simps(1) by (simp add: r0_def split: option.splits)
    have np: "min (chunkceil (tf_pos (lo_t st))) (fp_size (tf_fp (lo_t st))) = cpos ?d (Suc k)" using next_chunk [OF go(2)] S by simp
    have gt: "cpos ?d (Suc k) > tf_pos (lo_t st)" using cpos_less [OF _ go(2), of "Suc k"] S by simp
    obtain b r macs where p: "ul_prepare (io_S E) (the (sl_fa (lo_s st))) ?url (so_L X) (so_key X) (tf_chunkmacs (lo_t st)) (so_iv X) (cpos ?d k) (cpos ?d (Suc k)) r0 = (b, r, macs)"
      by (cases "ul_prepare (io_S E) (the (sl_fa (lo_s st))) ?url (so_L X) (so_key X) (tf_chunkmacs (lo_t st)) (so_iv X) (cpos ?d k) (cpos ?d (Suc k)) r0") auto
    note c = ul_prepare_chunk [OF go(2) E p]
    have n: "req_next E i st = (if b then Inr (lo_req i (r\<lparr>hr_status := REQ_PREPARED\<rparr>) (st\<lparr>lo_t := (lo_t st)\<lparr>tf_pos := cpos ?d (Suc k), tf_chunkmacs := macs\<rparr>\<rparr>))
        else if io_retry E then Inr ((lo_req i r st)\<lparr>lo_backoff := 2\<rparr>) else Inl (Failed API_EREAD, lo_req i r st))"
      using go(1) gt S E p unfolding req_next_def Let_def unfolding np unfolding q_def [symmetric] r0_def [symmetric]
      by (simp add: req_prepare_def Let_def ul_env_def)
    show ?thesis
    proof (cases b)
      case True
      define st1 where "st1 = st\<lparr>lo_t := (lo_t st)\<lparr>tf_pos := cpos ?d (Suc k), tf_chunkmacs := macs\<rparr>\<rparr>"
      have "lo_ul X (Suc k) M st1"
        using I go(2) c True file_macs_Suc [OF go(2)] ul_req_mono [of X ?url k _ "Suc k"] server_ok_mono [of X ?url k M "Suc k"]
        by (auto simp: ul_inv_def st1_def)
      moreover have "ul_req X (ts_tempurl (lo_s st1)) (Suc k) (r\<lparr>hr_status := REQ_PREPARED\<rparr>)" using c True by (auto simp: ul_req_def st1_def)
      ultimately have "lo_ul X (Suc k) M (lo_req i (r\<lparr>hr_status := REQ_PREPARED\<rparr>) st1)" by (intro ul_inv_req) simp_all
      then show ?thesis using n True by (auto simp: st1_def lo_req_def lo_slot_def)
    next
      case False
      then have "lo_ul X k M (lo_req i r st)" using c r0 by (intro ul_inv_req [OF I]) (simp_all add: ul_req_def)
      then show ?thesis using n False by (auto simp: lo_req_def lo_slot_def)
    qed
  next
    case rest
    have np: "\<not> min (chunkceil (tf_pos (lo_t st))) (fp_size (tf_fp (lo_t st))) > tf_pos (lo_t st)" "fp_size (tf_fp (lo_t st)) \<noteq> 0"
      using S rest(2) cpos_end [of ?d k] by simp_all
    have n: "req_next E i st = Inr (case q of Some r \<Rightarrow> lo_req i (r\<lparr>hr_status := REQ_DONE\<rparr>) st | None \<Rightarrow> st)"
      using rest(1) np unfolding req_next_def Let_def q_def [symmetric] by auto
    have "lo_ul X k M (lo_req i (r\<lparr>hr_status := REQ_DONE\<rparr>) st)" for r by (rule ul_inv_req [OF I]) (simp_all add: ul_req_def)
    then show ?thesis using n I by (cases q) (auto simp: lo_req_def lo_slot_def)
  qed
qed

lemma ul_post:
  assumes I: "lo_ul X k M st" and E: "ul_env X E" and i: "i < length (sl_reqs (lo_s st))"
  shows "lo_ul X k M (req_post E i st) \<and> length (sl_reqs (lo_s (req_post E i st))) = length (sl_reqs (lo_s st)) \<and>
    ts_tempurl (lo_s (req_post E i st)) = ts_tempurl (lo_s st)"
proof (cases "sl_reqs (lo_s st) ! i")
  case (Some r)
  have p: "io_posted E i \<in> {REQ_INFLIGHT, REQ_FAILURE}" using E by (simp add: ul_env_def)
  have "hr_status r = REQ_PREPARED \<Longrightarrow> ul_req X (ts_tempurl (lo_s st)) k ((hr_post r)\<lparr>hr_status := io_posted E i\<rparr>)"
    using I nth_mem [OF i] Some by (auto simp: ul_inv_def ul_req_def hr_post_def)
  then have "hr_status r = REQ_PREPARED \<Longrightarrow> lo_ul X k M (lo_req i ((hr_post r)\<lparr>hr_status := io_posted E i\<rparr>) st)"
    using p by (intro ul_inv_req [OF I]) auto
  then show ?thesis using I Some by (simp add: req_post_def lo_req_def lo_slot_def)
qed (use I in \<open>simp add: req_post_def\<close>)

section \<open>Runs\<close>

lemma ul_loop:
  "lo_ul X k M st \<Longrightarrow> ul_env X E \<Longrightarrow> n \<le> length (sl_reqs (lo_s st)) \<Longrightarrow> case doio_loop E n st of
      Inl (e, st') \<Rightarrow> e \<noteq> Going \<and> (e = Complete \<longrightarrow> uploaded X (ts_tempurl (lo_s st)) M (lo_t st'))
    | Inr st' \<Rightarrow> (\<exists>k'. lo_ul X k' M st') \<and> ts_tempurl (lo_s st') = ts_tempurl (lo_s st)"
proof (induction n arbitrary: k st)
  case (Suc n)
  define f where "f = (case sl_reqs (lo_s st) ! n of Some r \<Rightarrow> req_status E n r st | None \<Rightarrow> Inr st)"
  have n: "n < length (sl_reqs (lo_s st))" using Suc.prems(3) by simp
  have f: "case f of
      Inl (e, st') \<Rightarrow> e \<noteq> Going \<and> (e = Complete \<longrightarrow> uploaded X (ts_tempurl (lo_s st)) M (lo_t st'))
    | Inr st' \<Rightarrow> lo_ul X k M st' \<and> length (sl_reqs (lo_s st')) = length (sl_reqs (lo_s st)) \<and> ts_tempurl (lo_s st') = ts_tempurl (lo_s st)"
    using ul_status [OF Suc.prems(1,2) n] Suc.prems(1) by (simp add: f_def split: option.split)
  show ?case
  proof (cases f)
    case (Inl x)
    then show ?thesis using f by (auto simp: doio_req_def f_def [symmetric] split: prod.splits)
  next
    case (Inr st1)
    then have st1: "lo_ul X k M st1" "length (sl_reqs (lo_s st1)) = length (sl_reqs (lo_s st))" "ts_tempurl (lo_s st1) = ts_tempurl (lo_s st)" using f by simp_all
    show ?thesis
    proof (cases "sl_failure (lo_s st1)")
      case True
      then have "doio_req E n st = Inr st1" using Inr by (simp add: doio_req_def f_def [symmetric])
      then show ?thesis using Suc.IH [OF st1(1) Suc.prems(2)] st1 Suc.prems(3) by (auto split: sum.splits)
    next
      case False
      then have d: "doio_req E n st = req_continue E n st1" using Inr by (simp add: doio_req_def f_def [symmetric])
      show ?thesis
      proof (cases "req_next E n st1")
        case (Inl x)
        then show ?thesis using ul_next [OF st1(1) Suc.prems(2), of n] n st1 d by (auto simp: req_continue_def split: prod.splits)
      next
        case (Inr st2)
        then obtain k2 where st2: "lo_ul X k2 M st2" "length (sl_reqs (lo_s st2)) = length (sl_reqs (lo_s st))" "ts_tempurl (lo_s st2) = ts_tempurl (lo_s st)"
          using ul_next [OF st1(1) Suc.prems(2), of n] n st1 by auto
        note p = ul_post [OF st2(1) Suc.prems(2), of n]
        have "doio_req E n st = Inr (req_post E n st2)" using d Inr by (simp add: req_continue_def)
        then show ?thesis using Suc.IH [of k2 "req_post E n st2"] p n st2 Suc.prems(2,3) by (auto split: sum.splits)
      qed
    qed
  qed
qed auto

lemma ul_end: "lo_ul X k M st \<Longrightarrow> doio_end E st = (e, st') \<Longrightarrow> e \<noteq> Complete \<and> lo_ul X k M st' \<and> ts_tempurl (lo_s st') = ts_tempurl (lo_s st)"
  by (auto simp: doio_end_def doio_progress_def doio_timeout_def Let_def ul_inv_def lo_slot_def lo_event_def split: if_splits)

lemma ul_doio:
  assumes I: "ul_inv X k t s M" and E: "ul_env X E" and r: "doio E t s nt = (e, st)"
  shows "(e = Complete \<longrightarrow> uploaded X (ts_tempurl s) M (lo_t st)) \<and> (e = Going \<longrightarrow> (\<exists>k'. lo_ul X k' M st) \<and> ts_tempurl (lo_s st) = ts_tempurl s)"
proof (cases "ts_tempurl s = []")
  case True
  then have "e = Going" "lo_ul X k M st" "ts_tempurl (lo_s st) = ts_tempurl s" using I r by (auto simp: doio_def ul_inv_def io_start_def)
  then show ?thesis by auto
next
  case False
  define st0 where "st0 = io_start t (s\<lparr>sl_retrying := False\<rparr>) nt"
  have I0: "lo_ul X k M st0" "ts_tempurl (lo_s st0) = ts_tempurl s" using I by (simp_all add: st0_def io_start_def ul_inv_def)
  have l: "length (sl_reqs s) \<le> length (sl_reqs (lo_s st0))" by (simp add: st0_def io_start_def)
  have d: "(case doio_loop E (length (sl_reqs s)) st0 of Inl x \<Rightarrow> x | Inr st \<Rightarrow> doio_end E st) = (e, st)"
    using I False r by (auto simp: doio_def ul_inv_def st0_def)
  show ?thesis
  proof (cases "doio_loop E (length (sl_reqs s)) st0")
    case (Inl x)
    then show ?thesis using ul_loop [OF I0(1) E l] I0(2) d by auto
  next
    case (Inr st1)
    then obtain k1 where k1: "lo_ul X k1 M st1" "ts_tempurl (lo_s st1) = ts_tempurl s" using ul_loop [OF I0(1) E l] I0(2) by auto
    have "doio_end E st1 = (e, st)" using d Inr by simp
    from ul_end [OF k1(1) this] show ?thesis using k1(2) by auto
  qed
qed

lemma ul_upd:
  assumes "ul_inv X k t s M" "ul_req X (ts_tempurl s) k r" "server_ok X (ts_tempurl s) k M'" "dom M \<subseteq> dom M'"
    and "hr_status r = REQ_SUCCESS \<longrightarrow> hr_in r \<noteq> [] \<longrightarrow> all_stored X (ts_tempurl s) M'"
  shows "ul_inv X k t (s\<lparr>sl_reqs := (sl_reqs s)[i := Some r]\<rparr>) M'"
proof -
  have "Some r' \<in> set (sl_reqs s) \<or> r' = r" if "Some r' \<in> set ((sl_reqs s)[i := Some r])" for r'
    using that set_update_subset_insert [of "sl_reqs s" i "Some r"] by auto
  moreover have "all_stored X (ts_tempurl s) M \<Longrightarrow> all_stored X (ts_tempurl s) M'"
    using assms(4) unfolding all_stored_def by (metis domIff subsetD)
  ultimately show ?thesis using assms(1,2,3,5) by (auto simp: ul_inv_def)
qed

lemma ul_step_inv:
  assumes "ul_step X (t, s, M) (t', s', M')" "ul_inv X k t s M"
  shows "\<exists>k'. ul_inv X k' t' s' M' \<and> ts_tempurl s' = ts_tempurl s"
proof -
  have store: "server_ok X (ts_tempurl s) k (M(hr_posturl r \<mapsto> hr_out r)) \<and> dom M \<subseteq> dom (M(hr_posturl r \<mapsto> hr_out r)) \<and> ul_req X (ts_tempurl s) k r"
    if h: "i < length (sl_reqs s)" "sl_reqs s ! i = Some r" "hr_status r = REQ_INFLIGHT" for i r
  proof -
    have "Some r \<in> set (sl_reqs s)" using nth_mem [OF h(1)] h(2) by simp
    then have q: "ul_req X (ts_tempurl s) k r" using assms(2) by (simp add: ul_inv_def)
    then obtain j where j: "j < k" "hr_posturl r = ul_url (ts_tempurl s) (so_d X) j" "hr_out r = so_cipher X j" using h(3) by (auto simp: ul_req_def)
    have S: "server_ok X (ts_tempurl s) k M" using assms(2) by (simp add: ul_inv_def)
    have "server_ok X (ts_tempurl s) k (M(hr_posturl r \<mapsto> hr_out r))" using S j by (auto simp: server_ok_def)
    then show ?thesis using q by auto
  qed
  show ?thesis
    using assms(1)
  proof (cases rule: ul_step.cases)
    case (ul_io E nt st)
    then show ?thesis using ul_doio [OF assms(2)] by blast
  next
    case (ul_reply i r token)
    note st = store [OF ul_reply(3-5)]
    have "ul_inv X k t (s\<lparr>sl_reqs := (sl_reqs s)[i := Some (r\<lparr>hr_status := REQ_SUCCESS, hr_in := token\<rparr>)]\<rparr>) M'"
      by (rule ul_upd [OF assms(2)]) (use st ul_reply in \<open>auto simp: ul_req_def\<close>)
    then show ?thesis using ul_reply by auto
  next
    case (ul_error i r x c)
    note st = store [OF ul_error(3-5)]
    have S: "server_ok X (ts_tempurl s) k M" using assms(2) by (simp add: ul_inv_def)
    have "ul_inv X k t (s\<lparr>sl_reqs := (sl_reqs s)[i := Some (r\<lparr>hr_status := REQ_FAILURE, hr_httpstatus := c, hr_in := x\<rparr>)]\<rparr>) M'"
      by (rule ul_upd [OF assms(2)]) (use st S ul_error in \<open>auto simp: ul_req_def\<close>)
    then show ?thesis using ul_error by auto
  next
    case ul_resume
    then have "ul_inv X k t' s' M'" "ts_tempurl s' = ts_tempurl s" using assms(2) by (auto simp: ul_inv_def exec_failed_slot_def)
    then show ?thesis by blast
  qed
qed

text \<open>An upload with a fresh slot and a URL.\<close>

definition ul_start :: "source \<Rightarrow> transfer \<Rightarrow> tslotx \<Rightarrow> bool" where
  "ul_start X t s \<longleftrightarrow>
     tf_type t = PUT \<and> fp_size (tf_fp t) = int (length (so_d X)) \<and> so_d X \<noteq> [] \<and> tf_key t = so_key X \<and> tf_ctriv t = so_iv X \<and> tf_pos t = 0 \<and>
     tf_chunkmacs t = [] \<and> length (sk_key (so_key X)) = 16 \<and> sk_valid (so_key X) \<and> sl_fa s \<noteq> None \<and> set (sl_reqs s) = {None} \<and>
     distinct (map (ul_url (ts_tempurl s) (so_d X)) [0..<nchunks (so_d X)])"

lemma ul_start_inv: "ul_start X t s \<Longrightarrow> ul_inv X 0 t s Map.empty"
  by (simp add: ul_start_def ul_inv_def file_macs_def server_ok_def distinct_map lessThan_atLeast0)

lemma ul_steps_inv:
  assumes "(ul_step X)\<^sup>*\<^sup>* (t, s, Map.empty) (t', s', M)" "ul_start X t s"
  shows "\<exists>k. ul_inv X k t' s' M \<and> ts_tempurl s' = ts_tempurl s"
  using assms(1)
proof (induction "(t', s', M)" arbitrary: t' s' M rule: rtranclp_induct)
  case base
  then show ?case using ul_start_inv [OF assms(2)] by blast
next
  case (step q)
  obtain t1 s1 M1 where q: "q = (t1, s1, M1)" by (cases q)
  obtain k where "ul_inv X k t1 s1 M1" "ts_tempurl s1 = ts_tempurl s" using step(3) [OF q] by blast
  then show ?case using ul_step_inv step(2) q by metis
qed

lemma upload_result:
  assumes "(ul_step X)\<^sup>*\<^sup>* (t, s, Map.empty) (t', s', M)" "ul_start X t s" "ul_env X E" "doio E t' s' nt = (Complete, st)"
  shows "(\<forall>j<nchunks (so_d X). M (ul_url (ts_tempurl s) (so_d X) j) = Some (so_cipher X j)) \<and>
    has_keys X (get_keys (tf_filekey (lo_t st), n) t0)"
proof -
  obtain k where "ul_inv X k t' s' M" "ts_tempurl s' = ts_tempurl s" using ul_steps_inv [OF assms(1,2)] by blast
  then have "uploaded X (ts_tempurl s) M (lo_t st)" using ul_doio [OF _ assms(3,4)] by auto
  moreover have "length (sk_key (so_key X)) = 16" "sk_valid (so_key X)" using assms(2) by (simp_all add: ul_start_def)
  ultimately show ?thesis by (simp add: uploaded_def has_keys_def file_key_roundtrip)
qed

end
