(* ===== verification/Lost_Downloads.thy ===== *)
theory Lost_Downloads
  imports Downloads Transfer_Queue
begin

text \<open>
  Downloads that never complete, although the network works and every chunk arrives in the end: \<open>progresscompleted\<close> counts bytes, and \<open>doio\<close>
  completes when it equals the size. A locale has what an invariant must satisfy to keep this from happening; it is
  interpreted for a count that stays below the size (a download that was resumed) and for one that is past it (after a short reply).
\<close>

section \<open>An unreliable network\<close>

text \<open>Between the calls of \<open>doio\<close> requests are answered or fail, failed slots go on, and the URL of the file arrives. \<open>P\<close> is what replies satisfy.\<close>

definition net_env :: "ioenv \<Rightarrow> bool" where
  "net_env E \<longleftrightarrow> (\<forall>i. io_posted E i \<in> {REQ_INFLIGHT, REQ_FAILURE})"

inductive net_step :: "(httpreqxfer \<Rightarrow> bool) \<Rightarrow> transfer \<times> tslotx \<Rightarrow> transfer \<times> tslotx \<Rightarrow> bool" for P where
  net_io: "net_env E \<Longrightarrow> doio E t s nt = (Going, st) \<Longrightarrow> net_step P (t, s) (lo_t st, lo_s st)"
| net_reply: "i < length (sl_reqs s) \<Longrightarrow> sl_reqs s ! i = Some r \<Longrightarrow> hr_status r = REQ_INFLIGHT \<Longrightarrow>
    r' = (fold hr_put ds r)\<lparr>hr_status := REQ_SUCCESS\<rparr> \<Longrightarrow> P r' \<Longrightarrow> net_step P (t, s) (t, s\<lparr>sl_reqs := (sl_reqs s)[i := Some r']\<rparr>)"
| net_error: "i < length (sl_reqs s) \<Longrightarrow> sl_reqs s ! i = Some r \<Longrightarrow> hr_status r = REQ_INFLIGHT \<Longrightarrow>
    net_step P (t, s) (t, s\<lparr>sl_reqs := (sl_reqs s)[i := Some (r\<lparr>hr_status := REQ_FAILURE, hr_httpstatus := c\<rparr>)]\<rparr>)"
| net_resume: "net_step P (t, s) (t, exec_failed_slot s)"
| net_url: "net_step P (t, s) (t, s\<lparr>ts_pendingcmd := False, ts_tempurl := u, ts_starttime := x, ts_lastdata := x\<rparr>)"

definition active_req :: "httpreqxfer \<Rightarrow> bool" where
  "active_req r \<longleftrightarrow> hr_status r \<in> {REQ_PREPARED, REQ_INFLIGHT, REQ_SUCCESS, REQ_FAILURE}"

lemma chunkceil_bounds:
  assumes "0 \<le> p"
  shows "p < chunkceil p \<and> chunkceil p - p \<le> 2 ^ 20"
proof -
  obtain k where k: "chunkceil p = chunk_start (Suc k)" "chunk_start k \<le> p" "p < chunk_start (Suc k)" using chunk_bounds [OF assms] by blast
  have "chunk_start (Suc k) - chunk_start k \<le> 2 ^ 20" by (simp add: chunk_start_Suc SEGSIZE_def min_def)
  then show ?thesis using k by simp
qed

section \<open>A count that never fits\<close>

locale hopeless =
  fixes P :: "httpreqxfer \<Rightarrow> bool"
    and ok :: "int \<Rightarrow> int \<Rightarrow> int \<Rightarrow> httpreqxfer option list \<Rightarrow> bool"
  assumes next_ok: "ok sz pos got qs \<Longrightarrow> i < length qs \<Longrightarrow> qs ! i = None \<or> (\<exists>r0. qs ! i = Some r0 \<and> hr_status r0 = REQ_READY) \<Longrightarrow>
      pos < npos \<Longrightarrow> npos \<le> sz \<Longrightarrow> hr_status r = REQ_PREPARED \<Longrightarrow> uint (hx_size r) = npos - pos \<Longrightarrow> ok sz npos got (qs[i := Some r])"
    and full_ok: "ok sz pos got qs \<Longrightarrow> i < length qs \<Longrightarrow> qs ! i = Some r \<Longrightarrow> hr_status r = REQ_SUCCESS \<Longrightarrow> uint (hx_size r) = hr_bufpos r \<Longrightarrow>
      hr_status r' = REQ_READY \<Longrightarrow> 0 < sz \<Longrightarrow> got + uint (hx_size r) \<noteq> sz \<and> ok sz pos (got + uint (hx_size r)) (qs[i := Some r'])"
    and short_ok: "ok sz pos got qs \<Longrightarrow> i < length qs \<Longrightarrow> qs ! i = Some r \<Longrightarrow> hr_status r = REQ_SUCCESS \<Longrightarrow> uint (hx_size r) \<noteq> hr_bufpos r \<Longrightarrow>
      hr_status r' = REQ_PREPARED \<Longrightarrow> hx_size r' = hx_size r \<Longrightarrow> ok sz pos (got + uint (hx_size r)) (qs[i := Some r'])"
    and change_ok: "ok sz pos got qs \<Longrightarrow> i < length qs \<Longrightarrow> qs ! i = Some r \<Longrightarrow> active_req r \<Longrightarrow> active_req r' \<Longrightarrow>
      hr_status r' = REQ_SUCCESS \<longrightarrow> P r' \<Longrightarrow> hx_size r' = hx_size r \<Longrightarrow> ok sz pos got (qs[i := Some r'])"
    and idle_ok: "ok sz pos got qs \<Longrightarrow> i < length qs \<Longrightarrow> qs ! i = Some r \<Longrightarrow> hr_status r = REQ_READY \<Longrightarrow> hr_status r' = REQ_DONE \<Longrightarrow> ok sz pos got (qs[i := Some r'])"
begin

definition stuck :: "transfer \<Rightarrow> tslotx \<Rightarrow> bool" where
  "stuck t s \<longleftrightarrow> tf_type t = GET \<and> 0 < fp_size (tf_fp t) \<and> 0 \<le> tf_pos t \<and> sl_fa s \<noteq> None \<and>
     ok (fp_size (tf_fp t)) (tf_pos t) (sl_progresscompleted s) (sl_reqs s)"

abbreviation (input) lo_stuck :: "iostate \<Rightarrow> bool" where
  "lo_stuck st \<equiv> stuck (lo_t st) (lo_s st)"

lemma status_stuck:
  assumes I: "lo_stuck st" and i: "i < length (sl_reqs (lo_s st))" "sl_reqs (lo_s st) ! i = Some r"
  shows "\<exists>st'. req_status E i r st = Inr st' \<and> lo_stuck st' \<and> length (sl_reqs (lo_s st')) = length (sl_reqs (lo_s st))"
proof (cases "hr_status r")
  case REQ_SUCCESS
  show ?thesis
  proof (cases "uint (hx_size r) = hr_bufpos r")
    case True
    obtain r1 d p m where f: "dl_finalize (io_L E) (tf_key (lo_t st)) (tf_chunkmacs (lo_t st)) (tf_ctriv (lo_t st)) 0 (-1) r = (r1, (d, p), m)"
      by (cases "dl_finalize (io_L E) (tf_key (lo_t st)) (tf_chunkmacs (lo_t st)) (tf_ctriv (lo_t st)) 0 (-1) r") auto
    show ?thesis
      using I i REQ_SUCCESS True
        full_ok [of "fp_size (tf_fp (lo_t st))" "tf_pos (lo_t st)" "sl_progresscompleted (lo_s st)", OF _ i REQ_SUCCESS True, of "r1\<lparr>hr_status := REQ_READY\<rparr>"]
      by (simp add: req_status_def get_success_def Let_def f stuck_def lo_slot_def lo_req_def lo_event_def)
  next
    case False
    then show ?thesis
      using I i REQ_SUCCESS short_ok [OF _ i REQ_SUCCESS False, of _ _ _ "r\<lparr>hr_status := REQ_PREPARED\<rparr>"]
      by (simp add: req_status_def get_success_def Let_def stuck_def lo_slot_def lo_req_def)
  qed
next
  case REQ_FAILURE
  then show ?thesis
    using I change_ok [OF _ i, of _ _ _ "r\<lparr>hr_status := REQ_PREPARED\<rparr>"]
    by (auto simp: req_status_def req_failure_def Let_def stuck_def lo_slot_def lo_req_def lo_event_def active_req_def)
qed (use I in \<open>simp_all add: req_status_def\<close>)

lemma next_stuck:
  assumes I: "lo_stuck st" and i: "i < length (sl_reqs (lo_s st))"
  shows "\<exists>st'. req_next E i st = Inr st' \<and> lo_stuck st' \<and> length (sl_reqs (lo_s st')) = length (sl_reqs (lo_s st))"
proof -
  define q where "q = sl_reqs (lo_s st) ! i"
  define sz where "sz = fp_size (tf_fp (lo_t st))"
  define pos where "pos = tf_pos (lo_t st)"
  define npos where "npos = min (chunkceil pos) sz"
  note S = I [unfolded stuck_def, folded sz_def pos_def]
  have np: "min (chunkceil (tf_pos (lo_t st))) (fp_size (tf_fp (lo_t st))) = npos" by (simp add: npos_def sz_def pos_def)
  consider (no) "\<not> (case q of None \<Rightarrow> True | Some r \<Rightarrow> hr_status r = REQ_READY)"
    | (go) "case q of None \<Rightarrow> True | Some r \<Rightarrow> hr_status r = REQ_READY" "npos > pos"
    | (rest) "case q of None \<Rightarrow> True | Some r \<Rightarrow> hr_status r = REQ_READY" "\<not> npos > pos" by blast
  then show ?thesis
  proof cases
    case no
    then have "req_next E i st = Inr st" by (simp add: req_next_def q_def)
    then show ?thesis using I by blast
  next
    case go
    define r where "r = (dl_prepare (io_mem E) (ts_tempurl (lo_s st)) pos npos (case q of Some r \<Rightarrow> r | None \<Rightarrow> new_request))\<lparr>hr_status := REQ_PREPARED\<rparr>"
    have n: "req_next E i st = Inr (lo_req i r (st\<lparr>lo_t := (lo_t st)\<lparr>tf_pos := npos, tf_chunkmacs := tf_chunkmacs (lo_t st)\<rparr>\<rparr>))"
      using go S unfolding req_next_def Let_def unfolding np unfolding q_def [symmetric] pos_def [symmetric]
      by (simp add: req_prepare_def r_def pos_def [symmetric] Let_def)
    have "npos - pos \<le> 2 ^ 20" using chunkceil_bounds [of pos] S by (simp add: npos_def min_def)
    then have "uint (word_of_int (npos - pos) :: u32) = npos - pos" using go(2)
      by (simp add: unsigned_of_int take_bit_int_eq_self del: of_int_diff)
    moreover have "hx_size r = word_of_int (npos - pos)" by (simp add: r_def dl_prepare_def setreq_def Let_def)
    ultimately have "uint (hx_size r) = npos - pos" by (simp only:)
    then have "ok sz npos (sl_progresscompleted (lo_s st)) ((sl_reqs (lo_s st))[i := Some r])"
      using next_ok [of sz pos _ "sl_reqs (lo_s st)" i npos r] S i go by (auto simp: q_def npos_def r_def split: option.splits)
    moreover have "0 \<le> npos" using S go(2) by simp
    ultimately show ?thesis using n S by (simp add: stuck_def lo_req_def lo_slot_def sz_def)
  next
    case rest
    then have "req_next E i st = Inr (case q of Some r \<Rightarrow> lo_req i (r\<lparr>hr_status := REQ_DONE\<rparr>) st | None \<Rightarrow> st)"
      using S unfolding req_next_def Let_def unfolding np unfolding q_def [symmetric] pos_def [symmetric] sz_def [symmetric] by simp
    then show ?thesis
      using I rest idle_ok [OF _ i, of _ _ _ _ "the q\<lparr>hr_status := REQ_DONE\<rparr>"]
      by (auto simp: stuck_def lo_req_def lo_slot_def q_def split: option.splits)
  qed
qed

lemma post_stuck:
  assumes I: "lo_stuck st" and i: "i < length (sl_reqs (lo_s st))" and E: "net_env E"
  shows "lo_stuck (req_post E i st) \<and> length (sl_reqs (lo_s (req_post E i st))) = length (sl_reqs (lo_s st))"
proof (cases "sl_reqs (lo_s st) ! i")
  case (Some r)
  have "hr_status r = REQ_PREPARED \<Longrightarrow> ok (fp_size (tf_fp (lo_t st))) (tf_pos (lo_t st)) (sl_progresscompleted (lo_s st))
      ((sl_reqs (lo_s st))[i := Some ((hr_post r)\<lparr>hr_status := io_posted E i\<rparr>)])"
    using I E [unfolded net_env_def, rule_format, of i]
    by (intro change_ok [OF _ i Some]) (auto simp: stuck_def active_req_def hr_post_def)
  then show ?thesis using I Some by (simp add: req_post_def stuck_def lo_req_def lo_slot_def)
qed (use I in \<open>simp add: req_post_def\<close>)

lemma continue_stuck:
  assumes I: "lo_stuck st" and i: "i < length (sl_reqs (lo_s st))" and E: "net_env E"
  shows "\<exists>st'. req_continue E i st = Inr st' \<and> lo_stuck st' \<and> length (sl_reqs (lo_s st')) = length (sl_reqs (lo_s st))"
proof -
  obtain st1 where "req_next E i st = Inr st1" "lo_stuck st1" "length (sl_reqs (lo_s st1)) = length (sl_reqs (lo_s st))"
    using next_stuck [OF I i] by blast
  then show ?thesis using post_stuck [OF _ _ E, of st1 i] i by (simp add: req_continue_def)
qed

lemma req_stuck:
  assumes I: "lo_stuck st" and i: "i < length (sl_reqs (lo_s st))" and E: "net_env E"
  shows "\<exists>st'. doio_req E i st = Inr st' \<and> lo_stuck st' \<and> length (sl_reqs (lo_s st')) = length (sl_reqs (lo_s st))"
proof -
  obtain st1 where s1: "(case sl_reqs (lo_s st) ! i of Some r \<Rightarrow> req_status E i r st | None \<Rightarrow> Inr st) = Inr st1" "lo_stuck st1"
    "length (sl_reqs (lo_s st1)) = length (sl_reqs (lo_s st))"
  proof (cases "sl_reqs (lo_s st) ! i")
    case None
    then show thesis using that [of st] I by simp
  next
    case (Some r)
    then show thesis using that status_stuck [OF I i Some, of E] by auto
  qed
  then show ?thesis using continue_stuck [OF s1(2) _ E, of i] i by (auto simp: doio_req_def)
qed

lemma loop_stuck:
  "lo_stuck st \<Longrightarrow> n \<le> length (sl_reqs (lo_s st)) \<Longrightarrow> net_env E \<Longrightarrow> \<exists>st'. doio_loop E n st = Inr st' \<and> lo_stuck st'"
proof (induction n arbitrary: st)
  case (Suc n)
  obtain st1 where "doio_req E n st = Inr st1" "lo_stuck st1" "length (sl_reqs (lo_s st1)) = length (sl_reqs (lo_s st))"
    using req_stuck [OF Suc.prems(1) _ Suc.prems(3), of n] Suc.prems(2) by auto
  then show ?case using Suc.IH [of st1] Suc.prems by auto
qed auto

lemma end_stuck: "lo_stuck st \<Longrightarrow> doio_end E st = (res, st') \<Longrightarrow> res \<noteq> Complete \<and> lo_stuck st'"
  by (auto simp: doio_end_def doio_progress_def doio_timeout_def Let_def stuck_def lo_slot_def lo_event_def split: if_splits)

lemma doio_stuck:
  assumes I: "stuck t s" and E: "net_env E" and r: "doio E t s nt = (res, st)"
  shows "res \<noteq> Complete \<and> lo_stuck st"
proof (cases "ts_tempurl s = []")
  case True
  then show ?thesis using I r by (auto simp: doio_def stuck_def io_start_def)
next
  case False
  have "lo_stuck (io_start t (s\<lparr>sl_retrying := False\<rparr>) nt)" using I by (simp add: io_start_def stuck_def)
  from loop_stuck [OF this _ E, of "length (sl_reqs s)"] obtain st1 where
    s1: "doio_loop E (length (sl_reqs s)) (io_start t (s\<lparr>sl_retrying := False\<rparr>) nt) = Inr st1" "lo_stuck st1"
    by (auto simp: io_start_def)
  have "doio E t s nt = doio_end E st1" using I False s1(1) by (auto simp: doio_def stuck_def)
  then have "doio_end E st1 = (res, st)" using r by simp
  then show ?thesis by (rule end_stuck [OF s1(2)])
qed

lemma step_stuck:
  assumes "net_step P (t, s) (t', s')" "stuck t s"
  shows "stuck t' s'"
  using assms(1)
proof (cases rule: net_step.cases)
  case (net_io E nt st)
  then show ?thesis using doio_stuck [OF assms(2)] by blast
next
  case (net_reply i r r' ds)
  then show ?thesis using assms(2) change_ok [OF _ net_reply(3,4), of _ _ _ r'] by (simp add: stuck_def active_req_def hr_put_fields)
next
  case (net_error i r c)
  then show ?thesis
    using assms(2) change_ok [OF _ net_error(3,4), of _ _ _ "r\<lparr>hr_status := REQ_FAILURE, hr_httpstatus := c\<rparr>"]
    by (simp add: stuck_def active_req_def)
qed (use assms(2) in \<open>auto simp: stuck_def exec_failed_slot_def\<close>)

lemma never_completes:
  assumes "(net_step P)\<^sup>*\<^sup>* (t, s) (t', s')" "stuck t s" "net_env E" "doio E t' s' nt = (res, st)"
  shows "res \<noteq> Complete"
proof -
  have "stuck t' s'" using assms(1)
  proof (induction "(t', s')" arbitrary: t' s' rule: rtranclp_induct)
    case base
    then show ?case using assms(2) by simp
  next
    case (step y)
    then show ?case using step_stuck by (cases y) blast
  qed
  then show ?thesis using doio_stuck [OF _ assms(3,4)] by blast
qed

end

section \<open>Too little: resumed downloads\<close>

text \<open>The bytes a connection still counts.\<close>

definition pending :: "httpreqxfer option \<Rightarrow> int" where
  "pending q = (case q of None \<Rightarrow> 0 | Some r \<Rightarrow> if active_req r then uint (hx_size r) else 0)"

definition full_reply :: "httpreqxfer \<Rightarrow> bool" where
  "full_reply r \<longleftrightarrow> uint (hx_size r) = hr_bufpos r"

definition too_little :: "int \<Rightarrow> int \<Rightarrow> int \<Rightarrow> int \<Rightarrow> httpreqxfer option list \<Rightarrow> bool" where
  "too_little c sz pos got qs \<longleftrightarrow>
     0 < c \<and> got + sum_list (map pending qs) + max 0 (sz - pos) \<le> sz - c \<and> (\<forall>r. Some r \<in> set qs \<longrightarrow> hr_status r = REQ_SUCCESS \<longrightarrow> full_reply r)"

lemma pending_nonneg: "0 \<le> pending q"
  by (simp add: pending_def split: option.split)

lemma pending_update:
  "i < length qs \<Longrightarrow> sum_list (map pending (qs[i := q])) = sum_list (map pending qs) - pending (qs ! i) + pending q"
  by (induction qs arbitrary: i) (auto split: nat.splits)

lemma pending_sum: "0 \<le> sum_list (map pending qs)"
  by (rule sum_list_nonneg) (auto simp: pending_nonneg)

lemma too_little_upd:
  assumes "too_little c sz pos got qs" "i < length qs" "got' + pending (Some r') + max 0 (sz - pos') \<le> got + pending (qs ! i) + max 0 (sz - pos)"
    and "hr_status r' = REQ_SUCCESS \<longrightarrow> full_reply r'"
  shows "too_little c sz pos' got' (qs[i := Some r'])"
proof -
  have "Some r \<in> set qs \<or> r = r'" if "Some r \<in> set (qs[i := Some r'])" for r
    using that set_update_subset_insert [of qs i "Some r'"] by auto
  moreover have "got' + sum_list (map pending (qs[i := Some r'])) + max 0 (sz - pos') \<le> got + sum_list (map pending qs) + max 0 (sz - pos)"
    unfolding pending_update [OF assms(2)] using assms(3) by linarith
  ultimately show ?thesis using assms(1,4) unfolding too_little_def by force
qed

interpretation little: hopeless full_reply "too_little c" for c
proof
  fix sz pos got :: int and qs i and r :: httpreqxfer and npos
  assume a: "too_little c sz pos got qs" "i < length qs" "qs ! i = None \<or> (\<exists>r0. qs ! i = Some r0 \<and> hr_status r0 = REQ_READY)"
    "pos < npos" "npos \<le> sz" "hr_status r = REQ_PREPARED" "uint (hx_size r) = npos - pos"
  show "too_little c sz npos got (qs[i := Some r])"
    by (rule too_little_upd [OF a(1,2)]) (use a(3-7) in \<open>auto simp: pending_def active_req_def\<close>)
next
  fix sz pos got :: int and qs i and r r' :: httpreqxfer
  assume a: "too_little c sz pos got qs" "i < length qs" "qs ! i = Some r" "hr_status r = REQ_SUCCESS" "uint (hx_size r) = hr_bufpos r"
    "hr_status r' = REQ_READY" "0 < sz"
  have t: "too_little c sz pos (got + uint (hx_size r)) (qs[i := Some r'])"
    by (rule too_little_upd [OF a(1,2)]) (use a(3,4,6) in \<open>auto simp: pending_def active_req_def\<close>)
  then have "got + uint (hx_size r) < sz" using pending_sum [of "qs[i := Some r']"] max.cobounded1 [of 0 "sz - pos"] unfolding too_little_def by linarith
  then show "got + uint (hx_size r) \<noteq> sz \<and> too_little c sz pos (got + uint (hx_size r)) (qs[i := Some r'])" using t by simp
next
  fix sz pos got :: int and qs i and r r' :: httpreqxfer
  assume a: "too_little c sz pos got qs" "i < length qs" "qs ! i = Some r" "hr_status r = REQ_SUCCESS" "uint (hx_size r) \<noteq> hr_bufpos r"
  have "Some r \<in> set qs" using nth_mem [OF a(2)] a(3) by simp
  then show "too_little c sz pos (got + uint (hx_size r)) (qs[i := Some r'])" using a by (simp add: too_little_def full_reply_def)
next
  fix sz pos got :: int and qs i and r r' :: httpreqxfer
  assume a: "too_little c sz pos got qs" "i < length qs" "qs ! i = Some r" "active_req r" "active_req r'" "hr_status r' = REQ_SUCCESS \<longrightarrow> full_reply r'"
    "hx_size r' = hx_size r"
  show "too_little c sz pos got (qs[i := Some r'])"
    by (rule too_little_upd [OF a(1,2)]) (use a(3-7) in \<open>auto simp: pending_def\<close>)
next
  fix sz pos got :: int and qs i and r r' :: httpreqxfer
  assume a: "too_little c sz pos got qs" "i < length qs" "qs ! i = Some r" "hr_status r = REQ_READY" "hr_status r' = REQ_DONE"
  show "too_little c sz pos got (qs[i := Some r'])"
    by (rule too_little_upd [OF a(1,2)]) (use a(3-5) in \<open>auto simp: pending_def active_req_def\<close>)
qed

lemma resume_loop_mono: "0 \<le> pos \<Longrightarrow> pos \<le> resume_loop sz cs pos"
proof (induction cs arbitrary: pos)
  case (Cons c cs)
  have "0 \<le> (if sz \<noteq> 0 then chunkceil pos else pos)" "pos \<le> (if sz \<noteq> 0 then chunkceil pos else pos)"
    using chunkceil_bounds [OF Cons.prems] Cons.prems by auto
  then show ?case using Cons.IH [of "if sz \<noteq> 0 then chunkceil pos else pos"] by auto
qed simp

lemma resume_loop_first:
  assumes "cs \<noteq> []" "fst (hd cs) = 0" "sz \<noteq> 0"
  shows "0 < resume_loop sz cs 0"
proof -
  obtain c ds where "cs = c # ds" "fst c = 0" using assms(1,2) by (cases cs) auto
  then show ?thesis using resume_loop_mono [of "chunkceil 0" sz ds] chunkceil_bounds [of 0] assms(3) by simp
qed

text \<open>The slot of a download that has kept a chunk from an earlier attempt.\<close>

lemma resumed_stuck:
  assumes "tf_type t = GET" "0 < fp_size (tf_fp t)" "tf_chunkmacs t \<noteq> []" "fst (hd (tf_chunkmacs t)) = 0"
    and "start_get Q t = (t1, ev)"
  shows "\<exists>c. little.stuck c t1 ((TransferSlot ds n fa junk t)\<lparr>ts_pendingcmd := True\<rparr>)"
proof -
  define p where "p = resume_loop (fp_size (tf_fp t)) (tf_chunkmacs t) 0"
  have p: "0 < p" unfolding p_def by (rule resume_loop_first) (use assms in auto)
  have t1: "t1 = t\<lparr>tf_pos := p\<rparr>" using assms(5) by (auto simp: start_get_def p_def Let_def split: prod.splits)
  have "sum_list (map pending (replicate m None)) = 0" for m by (induction m) (simp_all add: pending_def)
  then have "too_little (min p (fp_size (tf_fp t))) (fp_size (tf_fp t)) p 0 (replicate m None)" for m
    using p assms(2) by (auto simp: too_little_def min_def max_def)
  then have "little.stuck (min p (fp_size (tf_fp t))) t1 ((TransferSlot ds n fa junk t)\<lparr>ts_pendingcmd := True\<rparr>)"
    using assms(1,2) p by (simp add: little.stuck_def t1 TransferSlot_def flip: replicate_Suc)
  then show ?thesis by blast
qed

section \<open>Too much: short replies\<close>

definition too_much :: "int \<Rightarrow> int \<Rightarrow> int \<Rightarrow> httpreqxfer option list \<Rightarrow> bool" where
  "too_much sz pos got qs \<longleftrightarrow> sz \<le> got \<and> (\<forall>r. Some r \<in> set qs \<longrightarrow> active_req r \<longrightarrow> 0 < uint (hx_size r))"

lemma too_much_upd:
  "too_much sz pos got qs \<Longrightarrow> got \<le> got' \<Longrightarrow> active_req r' \<longrightarrow> 0 < uint (hx_size r') \<Longrightarrow> too_much sz pos' got' (qs[i := Some r'])"
  unfolding too_much_def using set_update_subset_insert [of qs i "Some r'"] by force

lemma too_much_pos: "too_much sz pos got qs \<Longrightarrow> i < length qs \<Longrightarrow> qs ! i = Some r \<Longrightarrow> active_req r \<Longrightarrow> 0 < uint (hx_size r)"
  unfolding too_much_def by (metis nth_mem)

interpretation much: hopeless "\<lambda>_. True" too_much
proof
  fix sz pos got :: int and qs i and r :: httpreqxfer and npos
  assume "too_much sz pos got qs" "pos < npos" "uint (hx_size r) = npos - pos"
  then show "too_much sz npos got (qs[i := Some r])" using too_much_upd [of sz pos got qs got r] by simp
next
  fix sz pos got :: int and qs i and r r' :: httpreqxfer
  assume a: "too_much sz pos got qs" "i < length qs" "qs ! i = Some r" "hr_status r = REQ_SUCCESS" "hr_status r' = REQ_READY"
  have "0 < uint (hx_size r)" by (rule too_much_pos [OF a(1-3)]) (simp add: active_req_def a(4))
  then show "got + uint (hx_size r) \<noteq> sz \<and> too_much sz pos (got + uint (hx_size r)) (qs[i := Some r'])"
    using a(1,5) too_much_upd [OF a(1), of "got + uint (hx_size r)" r'] by (auto simp: too_much_def [of sz pos got] active_req_def)
next
  fix sz pos got :: int and qs i and r r' :: httpreqxfer
  assume a: "too_much sz pos got qs" "i < length qs" "qs ! i = Some r" "hr_status r = REQ_SUCCESS" "hx_size r' = hx_size r"
  have "0 < uint (hx_size r)" by (rule too_much_pos [OF a(1-3)]) (simp add: active_req_def a(4))
  then show "too_much sz pos (got + uint (hx_size r)) (qs[i := Some r'])" using too_much_upd [OF a(1)] a(5) by simp
next
  fix sz pos got :: int and qs i and r r' :: httpreqxfer
  assume a: "too_much sz pos got qs" "i < length qs" "qs ! i = Some r" "active_req r" "hx_size r' = hx_size r"
  then show "too_much sz pos got (qs[i := Some r'])" using too_much_pos [OF a(1-4)] too_much_upd [OF a(1)] by simp
next
  fix sz pos got :: int and qs i and r r' :: httpreqxfer
  assume "too_much sz pos got qs" "hr_status r' = REQ_DONE"
  then show "too_much sz pos got (qs[i := Some r'])" using too_much_upd [of sz pos got qs got r'] by (simp add: active_req_def)
qed

text \<open>A call of \<open>doio\<close> that finds a short reply counts the chunk and asks for it again.\<close>

lemma short_reply_stuck:
  assumes t: "tf_type t = GET" "0 < fp_size (tf_fp t)" "0 \<le> tf_pos t" and s: "sl_fa s \<noteq> None" "ts_tempurl s \<noteq> []" "sl_reqs s = [Some r]" "sl_progresscompleted s = 0"
    and r: "hr_status r = REQ_SUCCESS" "uint (hx_size r) \<noteq> hr_bufpos r" "uint (hx_size r) = fp_size (tf_fp t)"
    and E: "net_env E" and d: "doio E t s nt = (res, st)"
  shows "res \<noteq> Complete \<and> much.stuck (lo_t st) (lo_s st)"
proof -
  define st0 where "st0 = io_start t (s\<lparr>sl_retrying := False\<rparr>) nt"
  obtain st1 where st1: "req_status E 0 r st0 = Inr st1" "much.stuck (lo_t st1) (lo_s st1)" "length (sl_reqs (lo_s st1)) = 1"
    using t s r by (simp add: req_status_def get_success_def st0_def io_start_def Let_def lo_slot_def lo_req_def much.stuck_def too_much_def active_req_def)
  obtain st2 where st2: "req_continue E 0 st1 = Inr st2" "much.stuck (lo_t st2) (lo_s st2)" using much.continue_stuck [OF st1(2) _ E, of 0] st1(3) by auto
  obtain st3 where st3: "doio_loop E (Suc 0) st0 = Inr st3" "much.stuck (lo_t st3) (lo_s st3)"
    using st1 st2 s(3) by (cases "sl_failure (lo_s st1)") (auto simp: doio_req_def st0_def io_start_def)
  have "doio_end E st3 = (res, st)" using d s(1-3) st3(1) by (auto simp: doio_def st0_def)
  then show ?thesis by (rule much.end_stuck [OF st3(2)])
qed

text \<open>A small file: the first call asks for the whole of it.\<close>

lemma nchunks_small:
  assumes "d \<noteq> []" "length d \<le> 131072"
  shows "nchunks d = 1"
proof -
  have "chunk_start 1 = 131072" using chunk_start_Suc [of 0] by (simp add: SEGSIZE_def)
  then have "\<not> 1 < nchunks d" unfolding nchunks_iff using assms(2) by simp
  then show ?thesis using nchunks_pos [OF assms(1)] by simp
qed

lemma doio_end_lastdata: "doio_end E st1 = (e, st) \<Longrightarrow> ts_lastdata (lo_s st) = ts_lastdata (lo_s st1) \<or> ts_lastdata (lo_s st) = io_ds E"
  by (auto simp: doio_end_def doio_timeout_def doio_progress_def lo_event_def lo_slot_def Let_def split: if_splits)

lemma small_download_asks:
  assumes E: "env_ok X E" and s: "dl_start X t s" "sl_reqs s = [None]" and d: "length (so_d X) \<le> 131072"
    and n: "io_ds E - ts_lastdata s < XFERTIMEOUT"
  shows "\<exists>st r k a. doio E t s nt = (Going, st) \<and> sl_reqs (lo_s st) = [Some r] \<and> loads X 0 r \<and> hr_status r = REQ_INFLIGHT \<and>
    dl_inv X k {} a (lo_t st) (lo_s st) (lo_events st) \<and> io_ds E - ts_lastdata (lo_s st) < XFERTIMEOUT"
proof -
  define st0 where "st0 = io_start t (s\<lparr>sl_retrying := False\<rparr>) nt"
  have X: "so_d X \<noteq> []" "sl_fa s \<noteq> None" "ts_tempurl s \<noteq> []" "\<not> sl_failure s" using s(1) by (simp_all add: dl_start_def)
  note c1 = nchunks_small [OF X(1) d]
  have I: "lo_inv X 0 {} (\<lambda>_. None) [] st0" using dl_start_inv [OF s(1)] by (simp add: dl_inv_def st0_def io_start_def)
  have s0: "sl_reqs (lo_s st0) = [None]" "ts_lastdata (lo_s st0) = ts_lastdata s" "\<not> sl_failure (lo_s st0)"
    using s X(4) by (simp_all add: st0_def io_start_def)
  obtain st1 where st1: "req_continue E 0 st0 = Inr st1" "served X 0 [] st0 0 {} (\<lambda>_. None) st1"
    using continue_inv [OF I E, of 0] s0(1) by auto
  then obtain k a where a: "lo_inv X k {} a [] st1" "a 0 = None \<longrightarrow> k = nchunks (so_d X)" "length (sl_reqs (lo_s st1)) = 1" "ts_lastdata (lo_s st1) = ts_lastdata s"
    "\<forall>r. sl_reqs (lo_s st1) ! 0 = Some r \<longrightarrow> hr_status r \<noteq> REQ_SUCCESS"
    unfolding served_def using s0 by auto
  note C = dl_invD(5) [OF a(1)]
  have "a 0 \<noteq> None"
  proof
    assume "a 0 = None"
    then have "\<exists>i. a i = Some 0" using connsD(5) [OF C, of 0] a(2) c1 by simp
    then obtain i where "a i = Some 0" by blast
    then show False using connsD(6) [OF C, of i] \<open>a 0 = None\<close> a(3) by (cases i) auto
  qed
  then obtain j where j: "a 0 = Some j" by blast
  then have "j = 0" using conns_held [OF C j] c1 by simp
  then obtain r where r: "sl_reqs (lo_s st1) ! 0 = Some r" "loads X 0 r" using connsD(3) [OF C, of 0] j a(3) by (auto simp: conn_def)
  have i: "hr_status r = REQ_INFLIGHT" using r a(5) by (auto simp: loads_def)
  have q: "sl_reqs (lo_s st1) = [Some r]" using a(3) r(1) by (cases "sl_reqs (lo_s st1)") auto
  obtain st where st: "doio_end E st1 = (Going, st)" "lo_inv X k {} a [] st" "sl_reqs (lo_s st) = sl_reqs (lo_s st1)"
    using doio_end_inv [OF a(1), of E] a(4) n by auto
  have "io_ds E - ts_lastdata (lo_s st) < XFERTIMEOUT" using doio_end_lastdata [OF st(1)] a(4) n by auto
  moreover have "doio_loop E (Suc 0) st0 = Inr st1" using st1(1) s0 by (simp add: doio_req_def)
  then have "doio E t s nt = (Going, st)" using X s(2) st(1) by (auto simp: doio_def st0_def)
  ultimately show ?thesis using st q r(2) i by auto
qed

text \<open>If less than the file arrives, the download is lost.\<close>

lemma short_reply_lost:
  assumes E: "env_ok X E" and s: "dl_start X t s" "sl_reqs s = [None]" and d: "length (so_d X) \<le> 131072"
    and n: "io_ds E - ts_lastdata s < XFERTIMEOUT"
  shows "\<exists>st r. doio E t s nt = (Going, st) \<and> sl_reqs (lo_s st) = [Some r] \<and> hr_status r = REQ_INFLIGHT \<and>
    (\<forall>ds r' E1 nt1 res st1 t2 s2 E2 nt2 res2 st2.
       length (concat ds) < length (so_d X) \<longrightarrow> r' = (fold hr_put ds r)\<lparr>hr_status := REQ_SUCCESS\<rparr> \<longrightarrow> net_env E1 \<longrightarrow>
       doio E1 (lo_t st) ((lo_s st)\<lparr>sl_reqs := [Some r']\<rparr>) nt1 = (res, st1) \<longrightarrow>
       (net_step (\<lambda>_. True))\<^sup>*\<^sup>* (lo_t st1, lo_s st1) (t2, s2) \<longrightarrow> net_env E2 \<longrightarrow> doio E2 t2 s2 nt2 = (res2, st2) \<longrightarrow>
       res \<noteq> Complete \<and> res2 \<noteq> Complete)"
proof -
  let ?d = "so_d X"
  have X: "?d \<noteq> []" using s(1) by (simp add: dl_start_def)
  note c1 = nchunks_small [OF X d]
  obtain st r k a where st: "doio E t s nt = (Going, st)" "sl_reqs (lo_s st) = [Some r]" "loads X 0 r" "hr_status r = REQ_INFLIGHT"
    "dl_inv X k {} a (lo_t st) (lo_s st) (lo_events st)" using small_download_asks [OF assms] by blast
  have c: "csize ?d 0 = int (length ?d)" using cpos_end [of ?d 1] c1 by (simp add: csize_def)
  obtain b where b: "uint (hx_size r) = int (length ?d)" "hr_buflen r = int (length ?d)" "hr_buf r = Some b" "padded (int (length ?d)) b" "hr_bufpos r = 0"
    using st(3,4) by (auto simp: loads_def c)
  have lb: "length ?d \<le> length b" using b(4) by (simp add: padded_def)
  have D: "tf_type (lo_t st) = GET" "fp_size (tf_fp (lo_t st)) = int (length ?d)" "0 \<le> tf_pos (lo_t st)" "sl_fa (lo_s st) \<noteq> None" "ts_tempurl (lo_s st) \<noteq> []"
    "sl_progresscompleted (lo_s st) = 0" using st(5) by (simp_all add: dl_inv_def)
  have "res \<noteq> Complete \<and> res2 \<noteq> Complete"
    if a: "length (concat ds) < length ?d" "r' = (fold hr_put ds r)\<lparr>hr_status := REQ_SUCCESS\<rparr>" "net_env E1"
      "doio E1 (lo_t st) ((lo_s st)\<lparr>sl_reqs := [Some r']\<rparr>) nt1 = (res, st1)"
      "(net_step (\<lambda>_. True))\<^sup>*\<^sup>* (lo_t st1, lo_s st1) (t2, s2)" "net_env E2" "doio E2 t2 s2 nt2 = (res2, st2)" for ds r' E1 nt1 res st1 t2 s2 E2 nt2 res2 st2
  proof -
    have ok: "buf_ok r" "received r = []" "capacity r = Some (length ?d)" using b lb by (simp_all add: buf_ok_def received_def capacity_def)
    have p: "received (fold hr_put ds r) = concat ds" "buf_ok (fold hr_put ds r)" "capacity (fold hr_put ds r) = Some (length ?d)"
      using hr_put_all [OF ok(1), of ds] ok(2,3) a(1) by (simp_all add: cut_def)
    then obtain b' where b': "hr_buf (fold hr_put ds r) = Some b'" by (auto simp: capacity_def split: option.splits)
    have "int (length (concat ds)) = hr_bufpos (fold hr_put ds r)"
      using p(1,2) b' by (auto simp: received_def buf_ok_def dest!: arg_cong [of _ _ length])
    then have "uint (hx_size r') \<noteq> hr_bufpos r'" using a(1,2) b(1) by (simp add: hr_put_fields)
    then have "res \<noteq> Complete \<and> much.stuck (lo_t st1) (lo_s st1)"
      using D X a(2,3) b(1) by (intro short_reply_stuck [OF _ _ _ _ _ _ _ _ _ _ _ a(4), of r']) (simp_all add: hr_put_fields)
    then show ?thesis using much.never_completes [OF a(5) _ a(6,7)] by blast
  qed
  then show ?thesis using st by blast
qed

end
