(* ===== verification/Queue_Order.thy ===== *)
theory Queue_Order
  imports Transfer_Queue
begin

text \<open>
  Properties of the transfer queue: when another transfer is started, which one, that \<open>dispatch\<close> returns, and what happens to a transfer that fails.
\<close>

section \<open>Pipelining\<close>

text \<open>The data that is left in the active transfers of a direction.\<close>

definition data_left :: "direction \<Rightarrow> xferq \<Rightarrow> int" where
  "data_left d q = (\<Sum>(t, s)\<leftarrow>filter (\<lambda>(t, s). tf_type t = d) (active q). fp_size (tf_fp t) - sl_progressreported s)"

lemma pl_r_fold: "pl_r (fold (pl_add ds) xs p) = pl_r p + (\<Sum>(t, s)\<leftarrow>xs. fp_size (tf_fp t) - sl_progressreported s)"
  by (induction xs arbitrary: p) (auto simp: pl_add_def Let_def)

lemma moretransfers_iff: "moretransfers ds d q \<longleftrightarrow> slotavail q \<and> data_left d q < MINPIPELINE"
proof -
  have "\<not> (t :: dstime) \<ge> 2 \<Longrightarrow> \<not> t > 50" for t by (simp add: word_le_nat_alt word_less_nat_alt)
  then show ?thesis by (auto simp: moretransfers_def Let_def pl_r_fold data_left_def)
qed

section \<open>The next transfer\<close>

definition startable :: "dstime \<Rightarrow> transfer \<Rightarrow> bool" where
  "startable ds t \<longleftrightarrow> tf_slot t = None \<and> armed ds (tf_bt t)"

lemma next_transfer_first:
  "next_transfer ds ts = (case filter (\<lambda>i. startable ds (ts ! i)) [0..<length ts] of [] \<Rightarrow> None | i # _ \<Rightarrow> Some i)"
proof -
  define f where "f = (\<lambda>i b. if tf_slot (ts ! i) = None \<and> armed ds (tf_bt (ts ! i)) \<and>
            (case b of None \<Rightarrow> True | Some j \<Rightarrow> retryin ds (tf_bt (ts ! i)) < retryin ds (tf_bt (ts ! j))) then Some i else b)"
  have some: "fold f is (Some j) = Some j" if "startable ds (ts ! j)" for "is" and j
    using that by (induction "is") (auto simp: f_def retryin_def startable_def)
  have none: "fold f is None = (case filter (\<lambda>i. startable ds (ts ! i)) is of [] \<Rightarrow> None | i # _ \<Rightarrow> Some i)" for "is"
  proof (induction "is")
    case (Cons i "is")
    then show ?case using some [of i] by (cases "startable ds (ts ! i)") (auto simp: f_def startable_def)
  qed simp
  show ?thesis unfolding next_transfer_def f_def [symmetric] none ..
qed

lemma next_transfer_Some:
  assumes "next_transfer ds ts = Some i"
  shows "i < length ts \<and> startable ds (ts ! i)"
proof -
  obtain xs where "filter (\<lambda>i. startable ds (ts ! i)) [0..<length ts] = i # xs"
    using assms by (auto simp: next_transfer_first split: list.splits)
  then have "i \<in> set (filter (\<lambda>i. startable ds (ts ! i)) [0..<length ts])" by (simp only: list.set_intros)
  then show ?thesis by simp
qed

lemma next_transfer_split:
  assumes "\<not> list_ex (startable ds) pre" "startable ds t"
  shows "next_transfer ds (pre @ t # post) = Some (length pre)"
proof -
  have "filter (\<lambda>i. startable ds ((pre @ t # post) ! i)) [0..<length pre] = []"
    using assms(1) by (auto simp: filter_empty_conv nth_append list_ex_iff)
  moreover have "[0..<length (pre @ t # post)] = [0..<length pre] @ length pre # [Suc (length pre)..<length (pre @ t # post)]"
    using upt_add_eq_append [of 0 "length pre" "Suc (length post)"] upt_conv_Cons [of "length pre" "length pre + Suc (length post)"] by simp
  ultimately show ?thesis unfolding next_transfer_first using assms(2) by (simp add: nth_append)
qed

section \<open>Downloads without a source\<close>

lemma template_None: "template mc fs = None \<longleftrightarrow> list_all (\<lambda>f. template_file mc f = None) fs"
  by (induction fs) (auto split: option.split)

lemma blocked_step:
  assumes "xq_transfers q GET = pre @ t # post" "\<not> list_ex (startable (qe_ds Q)) pre" "startable (qe_ds Q) t"
    and "tf_localfilename t = []" "list_all (\<lambda>f. template_file (qe_mc Q) f = None) (tf_files t)"
  shows "dispatch_step Q n GET q = Inl (False, q, [])"
  using next_transfer_split [OF assms(2,3), of post] assms(1,4,5)
  by (simp add: dispatch_step_def dispatch_fresh_def template_None [symmetric])

section \<open>Termination\<close>

lemma backoff_not_armed:
  assumes "unat ds + unat (bt_delta b) < 2 ^ 32" "bt_delta b \<noteq> 0"
  shows "\<not> armed ds (backoff ds b)"
proof -
  have "unat (ds + bt_delta b) = unat ds + unat (bt_delta b)" using assms(1) by (simp add: unat_word_ariths)
  moreover have "unat (bt_delta b) > 0" using assms(2) by (simp add: unat_gt_0)
  ultimately have "ds < ds + bt_delta b" by (simp add: word_less_nat_alt)
  then show ?thesis by (auto simp: armed_def backoff_def Let_def)
qed

text \<open>The timers of inactive transfers do not wrap at this time.\<close>

definition timers_ok :: "dstime \<Rightarrow> transfer list \<Rightarrow> bool" where
  "timers_ok ds ts \<longleftrightarrow> (\<forall>t\<in>set ts. startable ds t \<longrightarrow> unat ds + unat (bt_delta (tf_bt t)) < 2 ^ 32 \<and> bt_delta (tf_bt t) \<noteq> 0)"

definition startables :: "dstime \<Rightarrow> transfer list \<Rightarrow> nat" where
  "startables ds ts = length (filter (startable ds) ts)"

lemma fail_shape:
  "transfer_fail C ds e t = (x, ev) \<Longrightarrow> x = None \<or> (\<exists>t'. x = Some t' \<and> tf_bt t' = backoff ds (tf_bt t))"
  by (auto simp: transfer_fail_def Let_def split: if_splits)

lemma prepare_files_shape: "tf_bt (prepare_files C t) = tf_bt t \<and> tf_slot (prepare_files C t) = tf_slot t"
proof -
  have "tf_bt (fold (\<lambda>f t. if tf_localfilename t = [] then t\<lparr>tf_localfilename := fc_prepare C f\<rparr> else t) fs t) = tf_bt t \<and>
    tf_slot (fold (\<lambda>f t. if tf_localfilename t = [] then t\<lparr>tf_localfilename := fc_prepare C f\<rparr> else t) fs t) = tf_slot t" for fs
    by (induction fs arbitrary: t) auto
  then show ?thesis by (simp add: prepare_files_def)
qed

lemma fresh_shape: "dispatch_fresh Q n d t = Some (t', ev) \<Longrightarrow> tf_bt t' = tf_bt t \<and> tf_slot t' = tf_slot t"
  by (auto simp: dispatch_fresh_def put_keys_def get_keys_def Let_def prepare_files_shape split: if_splits)

lemma failed_step:
  assumes "dispatch_step Q n d q = Inr (q', ev)"
  shows "\<exists>pre t post x. xq_transfers q d = pre @ t # post \<and> startable (qe_ds Q) t \<and>
    xq_transfers q' d = pre @ (case x of Some t' \<Rightarrow> t' # post | None \<Rightarrow> post) \<and> (\<forall>t'. x = Some t' \<longrightarrow> tf_bt t' = backoff (qe_ds Q) (tf_bt t))"
proof -
  obtain i where i: "next_transfer (qe_ds Q) (xq_transfers q d) = Some i"
    using assms by (auto simp: dispatch_step_def split: option.splits)
  obtain t ev1 where t: "dispatch_fresh Q n d (xq_transfers q d ! i) = Some (t, ev1)"
    using assms i by (auto simp: dispatch_step_def split: option.splits)
  obtain ev2 where s: "dispatch_start Q d i t (set_transfer d i (Some t) q) = Inr (q', ev2)"
    using assms i t by (auto simp: dispatch_step_def split: sum.splits)
  then obtain t0 x ev3 where x: "transfer_fail (qe_class Q) (qe_ds Q) API_EREAD t0 = (x, ev3)" "tf_bt t0 = tf_bt t"
    "q' = set_transfer d i x (set_transfer d i (Some t) q)"
    by (auto simp: dispatch_start_def dispatch_failed_def Let_def split: if_splits prod.splits)
  have il: "i < length (xq_transfers q d)" "startable (qe_ds Q) (xq_transfers q d ! i)" using next_transfer_Some [OF i] by simp_all
  have "xq_transfers q' d = take i (xq_transfers q d) @ (case x of Some t' \<Rightarrow> t' # drop (Suc i) (xq_transfers q d) | None \<Rightarrow> drop (Suc i) (xq_transfers q d))"
    using il(1) by (simp add: x(3) set_transfer_def upd_conv_take_nth_drop split: option.split)
  moreover have "\<forall>t'. x = Some t' \<longrightarrow> tf_bt t' = backoff (qe_ds Q) (tf_bt (xq_transfers q d ! i))"
    using fail_shape [OF x(1)] x(2) fresh_shape [OF t] by auto
  ultimately show ?thesis using il id_take_nth_drop [OF il(1)] by blast
qed

lemma step_decreases:
  assumes "dispatch_step Q n d q = Inr (q', ev)" "timers_ok (qe_ds Q) (xq_transfers q d)"
  shows "startables (qe_ds Q) (xq_transfers q' d) < startables (qe_ds Q) (xq_transfers q d) \<and> timers_ok (qe_ds Q) (xq_transfers q' d)"
proof -
  obtain pre t post x where x: "xq_transfers q d = pre @ t # post" "startable (qe_ds Q) t"
    "xq_transfers q' d = pre @ (case x of Some t' \<Rightarrow> t' # post | None \<Rightarrow> post)" "\<forall>t'. x = Some t' \<longrightarrow> tf_bt t' = backoff (qe_ds Q) (tf_bt t)"
    using failed_step [OF assms(1)] by blast
  have "\<not> startable (qe_ds Q) t'" if "x = Some t'" for t'
    using x that assms(2) backoff_not_armed [of "qe_ds Q" "tf_bt t"] by (auto simp: startable_def timers_ok_def)
  then show ?thesis using x assms(2) by (cases x) (auto simp: startables_def timers_ok_def)
qed

lemma dispatch_loop_returns:
  "timers_ok (qe_ds Q) (xq_transfers q d) \<Longrightarrow> \<exists>r. dispatch_loop Q n d q es = Some r"
proof (induction "startables (qe_ds Q) (xq_transfers q d)" arbitrary: n q es rule: less_induct)
  case less
  show ?case
  proof (cases "dispatch_step Q n d q")
    case (Inl a)
    then show ?thesis by (cases a) (simp add: dispatch_loop.simps)
  next
    case (Inr b)
    then obtain q' ev where b: "dispatch_step Q n d q = Inr (q', ev)" by (cases b) simp
    from less(1) [of q' "Suc n" "es @ ev"] step_decreases [OF b less(2)] show ?thesis by (auto simp: dispatch_loop.simps [of Q n] b)
  qed
qed

section \<open>Placing a file\<close>

text \<open>\<open>G\<close>: the temporary file does not exist, and nothing that is tried with it succeeds or changes that.\<close>

definition gone_for_good :: "'f fsenv \<Rightarrow> bytes \<Rightarrow> ('f \<Rightarrow> bool) \<Rightarrow> bool" where
  "gone_for_good S local G \<longleftrightarrow>
     (\<forall>fs n m. G fs \<longrightarrow> fst (fe_rename S local n fs) = FsFailed \<and> G (snd (fe_rename S local n fs)) \<and>
        fst (fe_copy S local n m fs) = FsFailed \<and> G (snd (fe_copy S local n m fs)) \<and> G (fe_setmtime S local m fs) \<and> fe_open S local fs = None)"

lemma gone_place:
  assumes "gone_for_good S local G" "G fs" "list_all (fc_failed C API_EAGAIN n) files"
  shows "\<exists>fs'. place_files S C n local mtime files ([], fs) = (files, [], [], fs') \<and> G fs'"
  using assms(2,3)
proof (induction files arbitrary: fs)
  case (Cons f files)
  obtain fs1 where 1: "fe_rename S local (fl_localname f) fs = (FsFailed, fs1)" "G fs1"
    using assms(1) Cons.prems(1) unfolding gone_for_good_def by (metis prod.collapse)
  obtain fs2 where 2: "fe_copy S local (fl_localname f) mtime fs1 = (FsFailed, fs2)" "G fs2"
    using assms(1) 1(2) unfolding gone_for_good_def by (metis prod.collapse)
  obtain fs3 where "place_files S C n local mtime files ([], fs2) = (files, [], [], fs3)" "G fs3" using Cons.IH [OF 2(2)] Cons.prems(2) by auto
  then show ?case using 1 2 Cons.prems(2) by (simp add: place_file_def)
qed simp

text \<open>A transfer that waits for its next attempt, and what the attempts leave.\<close>

definition waits_for :: "bytes \<Rightarrow> xfile list \<Rightarrow> transfer \<Rightarrow> tslotx \<Rightarrow> bool" where
  "waits_for local files t s \<longleftrightarrow>
     tf_type t = GET \<and> tf_localfilename t = local \<and> tf_files t = files \<and> tf_failcount t < 16 \<and> sl_fa s = None"

inductive retry_step :: "libs \<Rightarrow> (bytes \<Rightarrow> bool) option \<Rightarrow> 'f fsenv \<Rightarrow> transfer \<times> tslotx \<times> megaclient \<times> 'f \<Rightarrow> transfer \<times> tslotx \<times> megaclient \<times> 'f \<Rightarrow> bool"
  for L gfx S where
  retry: "exec_slot L gfx S File_class E paused t s nt mc fs = Some (Some t', ev, mc', fs') \<Longrightarrow> tf_slot t' = Some s' \<Longrightarrow>
    retry_step L gfx S (t, s, mc, fs) (t', s', mc', fs')"

lemma retry_waits:
  assumes G: "gone_for_good S local G" "G fs" and w: "waits_for local files t s" "files \<noteq> []"
    and e: "exec_slot L gfx S File_class E paused t s nt mc fs = Some (x, ev, mc', fs')"
  shows "\<exists>t' s'. x = Some t' \<and> tf_slot t' = Some s' \<and> waits_for local files t' s' \<and> G fs' \<and> (\<forall>f. file_completed f \<notin> set ev)"
proof (cases "paused \<or> sl_retrying s \<and> \<not> armed (io_ds E) (sl_retrybt s)")
  case True
  then have "x = Some (t\<lparr>tf_slot := Some s\<rparr>)" "ev = []" "fs' = fs" using e by (auto simp: exec_slot_def)
  then show ?thesis using G(2) w(1) by (auto simp: waits_for_def)
next
  case False
  define s1 where "s1 = s\<lparr>sl_retrybt := backoff_to (io_ds E) 2 (sl_retrybt s), sl_retrying := True\<rparr>"
  have "doio E t s nt = (Complete, io_start t s1 nt)" using w(1) by (simp add: doio_def waits_for_def s1_def)
  then have c: "complete_get L gfx S File_class (io_ds E) t s1 mc fs = Some (x, ev, mc', fs')"
    using e False w(1) by (auto simp: exec_slot_def finish_io_def io_start_def waits_for_def)
  define fs1 where "fs1 = fe_setmtime S local (fp_mtime (tf_fp t)) fs"
  have g: "G fs1" "fe_open S local fs1 = None" using G unfolding gone_for_good_def fs1_def by blast+
  have "list_all (fc_failed File_class API_EAGAIN (tf_failcount t)) files" using w(1) by (simp add: File_class_def File_failed_def waits_for_def list_all_iff)
  from gone_place [OF G(1) g(1) this, of "fp_mtime (tf_fp t)"] obtain fs2 where
    p: "place_files S File_class (tf_failcount t) local (fp_mtime (tf_fp t)) files ([], fs1) = (files, [], [], fs2)" "G fs2" by blast
  have n: "\<forall>f. file_completed f \<notin> set (nx_events y)" if "fix_nodes L gfx fp fl z = Some y" "\<forall>f. file_completed f \<notin> set (nx_events z)" for fp fl y z
    using that
  proof (induction fl arbitrary: z)
    case (Cons f fl)
    obtain z1 where z1: "fix_node L gfx fp f z = Some z1" "fix_nodes L gfx fp fl z1 = Some y" using Cons.prems(1) by (auto simp: bind_eq_Some_conv)
    have "\<forall>f. file_completed f \<notin> set (nx_events z1)"
      using z1(1) Cons.prems(2) by (auto simp: fix_node_def note_missing_def Let_def split: option.splits if_splits)
    then show ?case using Cons.IH z1(2) by blast
  qed simp
  have W: "tf_type t = GET" "tf_localfilename t = local" "tf_files t = files" "tf_failcount t < 16" "sl_fa s1 = None"
    using w(1) by (simp_all add: waits_for_def s1_def)
  have r: "received_fp S local fs1 = (False, fp_new (fe_junk S))" using g(2) by (simp add: received_fp_def)
  have u: "fc_updatelocalname File_class = id" by (simp add: File_class_def)
  obtain y where y: "fix_nodes L gfx (fp_new (fe_junk S)) files \<lparr>nx_mc = mc, nx_missing = 0, nx_attach = 0, nx_events = []\<rparr> = Some y"
    "x = complete_end (io_ds E) (s1\<lparr>sl_fa := None\<rparr>) (t\<lparr>tf_slot := Some (s1\<lparr>sl_fa := None\<rparr>), tf_files := files\<rparr>)"
    "ev = nx_events y @ (if nx_missing y \<noteq> 0 then [gfx_missing (nx_attach y) (nx_missing y)] else [])" "fs' = fs2"
    using c w(2) unfolding complete_get_def Let_def W fs1_def [symmetric] r by (auto simp: p(1) u)
  show ?thesis using y w(2) W p(2) n [OF y(1)] by (auto simp: complete_end_def waits_for_def)
qed

lemma retries_wait:
  assumes "(retry_step L gfx S)\<^sup>*\<^sup>* (t, s, mc, fs) (t', s', mc', fs')" "gone_for_good S local G" "G fs" "waits_for local files t s" "files \<noteq> []"
  shows "waits_for local files t' s' \<and> G fs'"
  using assms(1)
proof (induction "(t', s', mc', fs')" arbitrary: t' s' mc' fs' rule: rtranclp_induct)
  case base
  then show ?case using assms by simp
next
  case (step q)
  obtain t1 s1 mc1 fs1 where q: "q = (t1, s1, mc1, fs1)" by (cases q)
  have w: "waits_for local files t1 s1" "G fs1" using step(3) [OF q] by simp_all
  from step(2) [unfolded q] show ?case
  proof (cases rule: retry_step.cases)
    case (retry E paused nt ev)
    then show ?thesis using retry_waits [OF assms(2) w(2,1) assms(5) retry(1)] by auto
  qed
qed

text \<open>How it comes to this: the first target gets the file by a rename, the second should get a copy.\<close>

lemma place_two:
  assumes "fe_rename S local (fl_localname f1) fs = (FsOk, fs1)" "fl_localname f1 \<noteq> []"
    and "fe_copy S (fl_localname f1) (fl_localname f2) mtime fs1 = (FsTransient, fs2)"
  shows "place_files S C n local mtime [f1, f2] ([], fs) = ([f2], [file_completed f1], fl_localname f1, fs2)"
  using assms by (simp add: place_file_def)

end
