(* ===== verification/Transfer_Samples.thy ===== *)
theory Transfer_Samples
  imports Samples Uploads Lost_Downloads Queue_Order
begin

text \<open>A file of three bytes, its transfers in both directions, their slots, and a working environment.\<close>

definition tiny_file :: source where
  "tiny_file = \<lparr>so_L = not_aes, so_key = symm_new\<lparr>sk_valid := True\<rparr>, so_iv = 9, so_d = [1, 2, 3]\<rparr>"

definition tiny_env :: ioenv where
  "tiny_env = \<lparr>io_L = not_aes, io_S = \<lparr>sys_stat = Some (5, 3), sys_open = True, sys_read = \<lambda>n pos. Some (take n (drop (nat pos) [1, 2, 3]))\<rparr>,
     io_ds = 7, io_mem = \<lambda>n. replicate n 0, io_retry = False, io_postpos = \<lambda>_. 0, io_posted = \<lambda>_. REQ_INFLIGHT\<rparr>"

definition tiny_net :: netstate where
  "tiny_net = \<lparr>nt_chunkfailed = False, nt_io = HttpIO, nt_badhosts = []\<rparr>"

definition tiny_access :: fileaccess where
  "tiny_access = \<lparr>fa_localname = str ''f'', fa_mtime = 5, fa_size = 3, fa_handles = 0\<rparr>"

definition tiny_transfer :: "direction \<Rightarrow> transfer" where
  "tiny_transfer d =
     \<lparr>tf_type = d, tf_fp = (fp_new [])\<lparr>fp_size := 3\<rparr>, tf_slot = None, tf_files = [], tf_failcount = 0, tf_bt = BackoffTimer, tf_localfilename = str ''f'', tf_pos = 0,
      tf_filekey = [], tf_ctriv = 9,
      tf_metamac = macsmac (so_L tiny_file) (so_key tiny_file) (file_macs (so_L tiny_file) (so_key tiny_file) (so_iv tiny_file) (so_d tiny_file) (nchunks (so_d tiny_file))),
      tf_key = so_key tiny_file, tf_chunkmacs = [], tf_uploadhandle = 0, tf_tag = 0\<rparr>"

definition tiny_slot :: "direction \<Rightarrow> tslotx" where
  "tiny_slot d = (TransferSlot 7 4 tiny_access [] (tiny_transfer d))\<lparr>ts_tempurl := str ''u''\<rparr>"

lemma tiny_slot_simps: "sl_reqs (tiny_slot d) = [None]" "ts_lastdata (tiny_slot d) = 7" "ts_tempurl (tiny_slot d) = str ''u''"
  "sl_fa (tiny_slot d) = Some tiny_access" "sl_progresscompleted (tiny_slot d) = 0"
  by (simp_all add: tiny_slot_def TransferSlot_def tiny_transfer_def)

lemma tiny_env_ok: "env_ok tiny_file tiny_env" "net_env tiny_env" "aes_ok (so_L tiny_file)"
  by (simp_all add: env_ok_def net_env_def tiny_env_def tiny_file_def not_aes_ok)

lemma tiny_chunks: "nchunks (so_d tiny_file) = 1"
  by (rule nchunks_small) (simp_all add: tiny_file_def)

lemma tiny_download: "dl_start tiny_file (tiny_transfer GET) (tiny_slot GET)"
  unfolding dl_start_def by (simp add: tiny_slot_simps tiny_transfer_def tiny_file_def str_def) (simp add: tiny_slot_def TransferSlot_def tiny_transfer_def)

text \<open>A run of the download to its end.\<close>

lemma tiny_run:
  obtains t s es nt st where "(dl_step tiny_file)\<^sup>*\<^sup>* (tiny_transfer GET, tiny_slot GET, []) (t, s, es)"
    "io_ds tiny_env - ts_lastdata s < XFERTIMEOUT" "doio tiny_env t s nt = (Complete, st)"
proof -
  let ?X = tiny_file and ?nt = tiny_net
  have n: "io_ds tiny_env - ts_lastdata (tiny_slot GET) < XFERTIMEOUT" by (simp add: tiny_env_def tiny_slot_simps)
  have l: "length (so_d ?X) \<le> 131072" by (simp add: tiny_file_def)
  obtain st r k a where st: "doio tiny_env (tiny_transfer GET) (tiny_slot GET) ?nt = (Going, st)" "sl_reqs (lo_s st) = [Some r]" "loads ?X 0 r" "hr_status r = REQ_INFLIGHT"
    "io_ds tiny_env - ts_lastdata (lo_s st) < XFERTIMEOUT" using small_download_asks [OF tiny_env_ok(1) tiny_download tiny_slot_simps(1) l n] by blast
  define r' where "r' = (fold hr_put [take (nat (uint (hx_size r))) (drop (nat (hx_dlpos r)) (stored_file ?X))] r)\<lparr>hr_status := REQ_SUCCESS\<rparr>"
  have a: "answer_all ?X (lo_s st) = (lo_s st)\<lparr>sl_reqs := (sl_reqs (lo_s st))[0 := Some r']\<rparr>"
    using st(2,4) by (simp add: answer_all_def r'_def)
  have 1: "dl_step ?X (tiny_transfer GET, tiny_slot GET, []) (lo_t st, lo_s st, [] @ lo_events st)"
    by (rule dl_io [OF tiny_env_ok(1) n st(1)])
  have 2: "dl_step ?X (lo_t st, lo_s st, [] @ lo_events st) (lo_t st, answer_all ?X (lo_s st), [] @ lo_events st)"
    unfolding a by (rule dl_data [where r = r and ds = "[take (nat (uint (hx_size r))) (drop (nat (hx_dlpos r)) (stored_file ?X))]"])
      (use st(2,4) in \<open>simp_all add: answers_with_def r'_def\<close>)
  obtain es where "dl_rounds ?X (\<lambda>_. tiny_env) (Suc (nchunks (so_d ?X))) (tiny_transfer GET) (tiny_slot GET) ?nt [] = (Complete, es)"
    using download_completes [OF tiny_env_ok(3) tiny_env_ok(1) tiny_download n] by blast
  then have "fst (doio tiny_env (lo_t st) (answer_all ?X (lo_s st)) (lo_net st)) = Complete"
    using st(1) by (simp add: tiny_chunks split: prod.splits xfer_end.splits)
  then obtain st2 where st2: "doio tiny_env (lo_t st) (answer_all ?X (lo_s st)) (lo_net st) = (Complete, st2)" by (metis prod.collapse)
  show ?thesis
  proof (rule that [OF _ _ st2])
    show "(dl_step ?X)\<^sup>*\<^sup>* (tiny_transfer GET, tiny_slot GET, []) (lo_t st, answer_all ?X (lo_s st), [] @ lo_events st)"
      using 1 2 by (meson converse_rtranclp_into_rtranclp r_into_rtranclp)
    show "io_ds tiny_env - ts_lastdata (answer_all ?X (lo_s st)) < XFERTIMEOUT" using st(5) by (simp add: a)
  qed
qed


text \<open>The same for an upload.\<close>

definition tiny_token :: bytes where
  "tiny_token = btoa (replicate 27 1)"

lemma tiny_upload: "ul_start tiny_file (tiny_transfer PUT) (tiny_slot PUT)"
  unfolding ul_start_def tiny_chunks by (simp add: tiny_slot_simps) (simp add: tiny_transfer_def tiny_file_def symm_new_def)

lemma tiny_ul_env: "ul_env tiny_file tiny_env"
  by (simp add: ul_env_def tiny_env_def tiny_file_def fa_fread_def openf_def)


lemma tiny_prepare:
  "\<exists>r macs. ul_prepare (io_S tiny_env) tiny_access (str ''u'') (so_L tiny_file) (so_key tiny_file) [] (so_iv tiny_file) 0 3 new_request = (True, r, macs) \<and>
     hr_posturl r = ul_url (str ''u'') (so_d tiny_file) 0"
proof -
  obtain b r macs where p: "ul_prepare (io_S tiny_env) tiny_access (str ''u'') (so_L tiny_file) (so_key tiny_file) [] (so_iv tiny_file) 0 3 new_request = (b, r, macs)"
    by (metis prod_cases3)
  have c: "cpos (so_d tiny_file) 0 = 0" "cpos (so_d tiny_file) (Suc 0) = 3" using tiny_chunks cpos_end [of "so_d tiny_file" 1] by (simp_all add: tiny_file_def)
  have "fst (fa_fread (io_S tiny_env) n pad pos tiny_access) = Some (take n (drop (nat pos) [1, 2, 3]) @ replicate pad 0)" for n pad pos
    by (simp add: tiny_env_def tiny_access_def fa_fread_def openf_def)
  then have "b" using p by (auto simp: ul_prepare_def Let_def split: prod.splits)
  then show ?thesis using ul_prepare_chunk [of 0 tiny_file tiny_env, OF _ tiny_ul_env, unfolded c, OF _ p] p tiny_chunks by auto
qed

lemma tiny_ul_first:
  "\<exists>st r. doio tiny_env (tiny_transfer PUT) (tiny_slot PUT) tiny_net = (Going, st) \<and> sl_reqs (lo_s st) = [Some r] \<and> hr_status r = REQ_INFLIGHT \<and>
     hr_posturl r = ul_url (str ''u'') (so_d tiny_file) 0 \<and> tf_type (lo_t st) = PUT \<and> sl_fa (lo_s st) \<noteq> None \<and> ts_tempurl (lo_s st) = str ''u''"
proof -
  have c: "chunkceil 0 = 131072" by (simp add: chunkceil_def chunk_loop.simps SEGSIZE_def)
  obtain r macs where r: "ul_prepare (io_S tiny_env) tiny_access (str ''u'') (so_L tiny_file) (so_key tiny_file) [] (so_iv tiny_file) 0 3 new_request = (True, r, macs)"
    "hr_posturl r = ul_url (str ''u'') (so_d tiny_file) 0" using tiny_prepare by blast
  define t where "t = tiny_transfer PUT"
  define s where "s = tiny_slot PUT"
  have t: "tf_type t = PUT" "tf_pos t = 0" "fp_size (tf_fp t) = 3" "tf_key t = so_key tiny_file" "tf_chunkmacs t = []" "tf_ctriv t = so_iv tiny_file"
    by (simp_all add: t_def tiny_transfer_def tiny_file_def)
  have s: "sl_reqs s = [None]" "ts_tempurl s = str ''u''" "sl_fa s = Some tiny_access" "\<not> sl_failure s" "sl_errorcount s = 0" "ts_lastdata s = 7" "sl_progresscompleted s = 0" "sl_progressreported s = 0"
    by (simp_all add: s_def tiny_slot_simps) (simp_all add: tiny_slot_def TransferSlot_def)
  have e: "io_L tiny_env = so_L tiny_file" "io_posted tiny_env i = REQ_INFLIGHT" "io_ds tiny_env = 7" for i by (simp_all add: tiny_env_def tiny_file_def)
  have u: "str ''u'' \<noteq> []" by (simp add: str_def)
  show ?thesis
    unfolding t_def [symmetric] s_def [symmetric]
    by (simp add: doio_def io_start_def doio_req_def req_continue_def req_next_def req_prepare_def Let_def c r t s e u lo_req_def lo_slot_def req_post_def
        doio_end_def doio_progress_def doio_timeout_def hr_post_def)
qed


text \<open>The server keeps the chunk and returns a token; the upload is complete.\<close>

lemma tiny_upload_run:
  obtains t s M nt st where "(ul_step tiny_file)\<^sup>*\<^sup>* (tiny_transfer PUT, tiny_slot PUT, Map.empty) (t, s, M)" "doio tiny_env t s nt = (Complete, st)"
proof -
  let ?url = "ul_url (str ''u'') (so_d tiny_file) 0"
  obtain st r where st: "doio tiny_env (tiny_transfer PUT) (tiny_slot PUT) tiny_net = (Going, st)" "sl_reqs (lo_s st) = [Some r]" "hr_status r = REQ_INFLIGHT"
    "hr_posturl r = ?url" "tf_type (lo_t st) = PUT" "sl_fa (lo_s st) \<noteq> None" "ts_tempurl (lo_s st) = str ''u''" using tiny_ul_first by blast
  define r' where "r' = r\<lparr>hr_status := REQ_SUCCESS, hr_in := tiny_token\<rparr>"
  define s where "s = (lo_s st)\<lparr>sl_reqs := (sl_reqs (lo_s st))[0 := Some r']\<rparr>"
  have 1: "ul_step tiny_file (tiny_transfer PUT, tiny_slot PUT, Map.empty) (lo_t st, lo_s st, Map.empty)" by (rule ul_io [OF tiny_ul_env st(1)])
  have 2: "ul_step tiny_file (lo_t st, lo_s st, Map.empty) (lo_t st, s, [?url \<mapsto> hr_out r])"
    unfolding s_def r'_def by (rule ul_reply) (use st in \<open>simp_all add: all_stored_def tiny_chunks\<close>)
  have tok: "length tiny_token = 36" "length (atob tiny_token 28) = 27" "tiny_token \<noteq> []"
    by (simp_all add: tiny_token_def length_btoa atob_btoa) (auto dest: arg_cong [of _ _ length] simp: length_btoa)
  have s: "sl_reqs s = [Some r']" "sl_fa s \<noteq> None" "ts_tempurl s \<noteq> []" "hr_status r' = REQ_SUCCESS" "hr_in r' = tiny_token"
    using st by (simp_all add: s_def r'_def str_def)
  have "fst (doio tiny_env (lo_t st) s tiny_net) = Complete"
    using s(2-5) tok st(5) by (simp add: doio_def s(1) io_start_def doio_req_def req_status_def put_success_def Let_def lo_slot_def)
  then obtain st2 where "doio tiny_env (lo_t st) s tiny_net = (Complete, st2)" by (metis prod.collapse)
  moreover have "(ul_step tiny_file)\<^sup>*\<^sup>* (tiny_transfer PUT, tiny_slot PUT, Map.empty) (lo_t st, s, [?url \<mapsto> hr_out r])"
    using 1 2 by (meson converse_rtranclp_into_rtranclp r_into_rtranclp)
  ultimately show ?thesis using that by blast
qed

text \<open>A download that has its first chunk from an earlier attempt.\<close>

definition tiny_resumed :: transfer where
  "tiny_resumed = (tiny_transfer GET)\<lparr>tf_chunkmacs := [(0, replicate 16 0)]\<rparr>"

lemma tiny_resumed_simps: "tf_type tiny_resumed = GET" "fp_size (tf_fp tiny_resumed) = 3" "tf_chunkmacs tiny_resumed = [(0, replicate 16 0)]"
  by (simp_all add: tiny_resumed_def tiny_transfer_def)

definition tiny_queue :: qenv where
  "tiny_queue = \<lparr>qe_ds = 7, qe_mc = sample_client, qe_class = File_class, qe_rnd = \<lambda>_. [], qe_prepare = \<lambda>_. [], qe_open = \<lambda>_ _. (True, tiny_access),
     qe_conns = \<lambda>_. 4, qe_junk = [], qe_gfx = False\<rparr>"

end
