(* ===== verification/Spec2Isabelle.thy ===== *)
theory Spec2Isabelle
  imports Samples Http Db Backoff Codec Transfer_Samples
begin

text \<open>
  \<^bold>\<open>A verification of the MEGA SDK client engine\<close>

  The SDK (under \<open>src/\<close>) is the client side of an encrypted cloud storage: it keeps a tree of nodes in memory and in a local cache,
  talks to the API with batches of JSON commands, encrypts keys, attributes and file contents, and moves files in chunks.
  This library models the engine's own logic from the bottom up. Each theory translates one part; the
  properties that make the parts correct are stated in this theory, each with its claim, over the lemmas of the parts.

  \<^bold>\<open>The parts and their theories\<close>

  \<^item> \<open>Mega_Prelude\<close>: the types of \<open>include/mega/types.h\<close> (bytes, handles, times as words), character codes, little-endian
    memory images, the position of the JSON parser as the remaining text (reading at the end gives the terminating
    zero).
  \<^item> \<open>Base64\<close>, \<open>Serialize64\<close>, \<open>Backoff\<close>: \<open>base64.cpp\<close>, \<open>serialize64.cpp\<close>, \<open>backofftimer.cpp\<close>, loop by loop, with
    wrap-around at 8, 32 and 64 bits.
  \<^item> \<open>Ordered_Map\<close>: \<open>std::map\<close> as a sorted association list; the locale \<open>std_map\<close> states what its users rely on
    and is interpreted on it (\<open>om\<close>).
  \<^item> \<open>Json\<close>, \<open>Json_Values\<close>: \<open>json.cpp\<close>. \<open>Json_Values\<close> has JSON values, their text, and the
    lemmas that the scanner passes over exactly one value.
  \<^item> \<open>AttrMap\<close>: \<open>attrmap.cpp\<close>; \<open>Codec\<close>: the contract of the record serializers as the locale \<open>codec\<close> (an image tells its own
    end), interpreted on words, variable-length integers, attribute maps and, in \<open>Share\<close>, on shares (\<open>share.cpp\<close>).
  \<^item> \<open>Cmd\<close>: \<open>command.cpp\<close> and \<open>request.cpp\<close>. A command is the record of its text and nesting levels; its result handler is a function from
    the parser position to the position where it stops (\<open>None\<close>: it does not return).
  \<^item> \<open>Symm_Cipher\<close>, \<open>Asymm_Cipher\<close>, \<open>Rsa\<close>: \<open>crypto/cryptopp.cpp\<close>. The block cipher and the big integers of Crypto++ are parameters
    (records \<open>aes\<close>, \<open>bigint\<close>) with their documented behaviour (\<open>aes_ok\<close>, \<open>bigint_ok\<close>); concrete instances show that it can hold.
    \<open>Rsa\<close> proves, from Fermat's little theorem, that the recombination in \<open>rsadecrypt\<close> inverts \<open>rsaencrypt\<close>.
  \<^item> \<open>Utils\<close>, \<open>File_System\<close>, \<open>Fingerprint\<close>, \<open>Db\<close>, \<open>Http\<close>: \<open>utils.cpp\<close>, \<open>filesystem.cpp\<close>, \<open>filefingerprint.cpp\<close>, \<open>db.cpp\<close>, \<open>http.cpp\<close>.
    System calls, CRC-32, the key-value store and uninitialized memory are parameters.
  \<^item> \<open>User\<close>: \<open>user.cpp\<close> and the user tables of \<open>megaclient.cpp\<close>.
  \<^item> \<open>Node\<close>, \<open>Node_Attrs\<close>, \<open>Node_Tree\<close>, \<open>Node_Cache\<close>: \<open>Node\<close> of \<open>node.cpp\<close>, \<open>treeproc.cpp\<close>, and the functions of \<open>megaclient.cpp\<close> they
    use. Nodes live in the client's table and refer to each other by handle, so that aliasing is explicit.
  \<^item> \<open>Share_Node_Keys\<close>: \<open>sharenodekeys.cpp\<close>.
  \<^item> \<open>Commands\<close>, \<open>Command_Texts\<close>, \<open>Api_Calls\<close>: the constructors of \<open>commands.cpp\<close>. \<open>Command_Texts\<close> shows, call by call, which members a command
    has \<open>written\<close>; \<open>Api_Calls\<close> gathers all 37 commands in the data type \<open>api_call\<close> with their operation codes and parameters.
  \<^item> \<open>Scan\<close>, \<open>Responses\<close>, \<open>Object_Replies\<close>, \<open>Replies\<close>: the result handlers of \<open>commands.cpp\<close>. \<open>Scan\<close> is the loop over the members of an object that
    they share (\<open>for (;;) switch (json.getnameid())\<close>), with the effect of each member; a handler is a function from the parser position to the
    events it reports to the application and the position where it stops. \<open>Replies\<close> shows which responses the handlers answer, and where they do not.
  \<^item> \<open>Session\<close>: password keys, login, ephemeral and dumped sessions, sign-up, links, logout (\<open>megaclient.cpp\<close>, \<open>commands.cpp\<close>).
  \<^item> \<open>Access\<close>, \<open>Merge_Shares\<close>: the node operations of \<open>megaclient.cpp\<close> that the account's rights govern (\<open>checkaccess\<close>, \<open>checkmove\<close>, \<open>rename\<close>, \<open>unlink\<close>,
    \<open>setattr\<close>), notifications, and \<open>mergenewshares\<close>. \<open>merge_to\<close> relates the client before and after: what a share may do to a node.
  \<^item> \<open>Read_Nodes\<close>, \<open>Server_Lists\<close>: the arrays of nodes, users, shares and share keys that the server sends (\<open>readnodes\<close>, \<open>readusers\<close>, \<open>readok\<close>,
    \<open>readoutshares\<close>). \<open>repr\<close> abstracts the linked table to two functions, the data and the parent of each handle; the operations on links refine
    updates of them, and \<open>readnodes\<close> builds every forest, in whatever order it is sent.
  \<^item> \<open>Key_Requests\<close>, \<open>Key_Replies\<close>: \<open>pubkeyaction.cpp\<close>, requests of node and share keys (\<open>cr_response\<close>, \<open>procsr\<close>, \<open>procsnk\<close>, \<open>proccr\<close>) and the handlers of
    \<open>CommandPubKeyRequest\<close> and \<open>CommandSetShare\<close>. \<open>Key_Replies\<close> shows whose keys are handed out, and which pairs of a request are answered.
  \<^item> \<open>Action_Packets\<close>, \<open>Packet_Safety\<close>, \<open>Packet_Texts\<close>: \<open>procsc\<close> and the eight kinds of packets. \<open>Packet_Safety\<close> holds for every text: which
    part of the client a packet cannot change (\<open>keeps\<close>). \<open>Packet_Texts\<close> starts from packets as JSON values.
  \<^item> \<open>Transfers\<close>, \<open>Transfer_Queue\<close>: \<open>transferslot.cpp\<close>, \<open>transfer.cpp\<close>, \<open>file.cpp\<close> and the transfer queue of \<open>megaclient.cpp\<close>. A call of \<open>doio\<close> is a function of the transfer, its slot and the
    environment (clock, file, fresh memory, what becomes of posted requests); between calls, step relations let the network act.
  \<^item> \<open>Downloads\<close>, \<open>Uploads\<close>, \<open>Lost_Downloads\<close>, \<open>Queue_Order\<close>: runs of transfers. \<open>Downloads\<close> has the invariant that says which chunk every connection loads and which are written; \<open>Uploads\<close> that of the
    server's store. \<open>Lost_Downloads\<close> shows two ways in which the count of the bytes never fits again; what keeps it from fitting is the locale \<open>hopeless\<close>, interpreted for a count that is too small and for one
    that is too large. \<open>Queue_Order\<close> is about the order in which transfers are started.
  \<^item> \<open>Samples\<close>, \<open>Transfer_Samples\<close>: concrete states for the witnesses.

  \<^bold>\<open>Loops, fuel and bounds\<close>

  Loops over data are structural or have a termination proof. \<open>JSON::leaveobject\<close>, \<open>Node::isbelow\<close>, the search in \<open>Node::setparent\<close>,
  the walks in \<open>ShareNodeKeys::add\<close>, \<open>checkaccess\<close> and \<open>checkmove\<close>, and the loops of the result handlers need not end on every state and are partial functions into \<open>option\<close>; in a well-formed tree they are
  proved to return. \<open>proctree\<close> has fuel; the properties state that every fuel from some bound on is enough (the height of the tree, which
  \<open>ranked\<close> bounds). Arithmetic is on words where the code can wrap; file offsets and times are integers with the range as a premise where it
  matters.

  \<^bold>\<open>Not modelled\<close>

  The network, waiter, console, file system and graphics back ends (\<open>posix\<close>, \<open>win32\<close>, \<open>gfx\<close>), the database back ends (\<open>db\<close>), the example applications,
  the vendored \<open>utf8proc\<close>, logging: I/O and bindings. The result handlers of three commands (\<open>PutNodes\<close>, \<open>MoveNode\<close>,
  \<open>FetchNodes\<close>), file attribute fetching, synchronization with its files and local nodes,
  and the rest of \<open>megaclient.cpp\<close> (the rest of the event loop, fetching nodes, the state cache).
\<close>

section \<open>Encodings\<close>

text \<open>
  \<^bold>\<open>Base64 round trip.\<close> \<open>Base64::atob\<close> on the text that \<open>Base64::btoa\<close> made, followed by any
  character that is not of the alphabet (a quote, the terminating zero), gives back the bytes,
  cut to the size of the target buffer.
\<close>

theorem base64_roundtrip:
  assumes "from64 (cur rest) = 255"
  shows "atob (btoa bs @ rest) blen = take blen bs"
  unfolding atob_def using atob_loop_btoa [OF assms, of "[]" blen bs] by simp

theorem base64_roundtrip_witness:
  "atob (btoa [0, 255, 16, 9] @ [ch_quote, 65]) 3 = [0, 255, 16]"
  using base64_roundtrip [of "[ch_quote, 65]" "[0, 255, 16, 9]" 3] by (simp add: from64_def)

text \<open>
  C36. \<^bold>\<open>The decoder against a reference.\<close> The nested loops of \<open>Base64::atob\<close> with their early exits compute,
  for every input and every buffer size, a prefix of what the four-at-a-time reference
  decoder makes of the sextets before the first foreign character.
\<close>

theorem base64_decoder: "atob a blen = take blen (decode64 (sextets a))"
  by (rule atob_decode64)

text \<open>
  \<^bold>\<open>Serialize64 round trip.\<close> \<open>Serialize64::unserialize\<close> reads back the number that \<open>serialize\<close>
  wrote, and returns the length of the image, whatever follows it; the image has at
  most 9 bytes.
\<close>

theorem serialize64_roundtrip:
  assumes "int (length (serialize64 v)) \<le> blen"
  shows "unserialize64 (serialize64 v @ rest) blen v0 = (int (length (serialize64 v)), v) \<and>
    length (serialize64 v) \<le> 9"
  using unserialize64_serialize64 [OF assms] length_serialize64_le by simp

theorem serialize64_roundtrip_witness:
  "unserialize64 (serialize64 258 @ [7]) 4 0 = (int (length (serialize64 258)), 258) \<and> length (serialize64 258) \<le> 9"
proof -
  have "int (length (serialize64 258)) \<le> 4" by code_simp
  then show ?thesis by (rule serialize64_roundtrip)
qed

text \<open>
  \<^bold>\<open>Attribute map round trip.\<close> A sequence of attribute maps written one after the other by
  \<open>AttrMap::serialize\<close> is read back, map by map, by \<open>AttrMap::unserialize\<close>: every image tells its own
  end. The maps are sorted by name id as a \<open>std::map\<close> is, names have at most 8 bytes without a
  zero, values fewer than 65536 bytes.
\<close>

theorem attributes_roundtrip:
  assumes "list_all (\<lambda>m. om_invar m \<and> list_all attr_ok m) ms"
  shows "dec_n (\<lambda>s. attrs_unserialize s []) (length ms) (concat (map attrs_serialize ms) @ rest) = Some (ms, rest)"
  using attrc.dec_n_enc [OF assms, of rest] by simp

theorem attributes_roundtrip_witness:
  "dec_n (\<lambda>s. attrs_unserialize s []) (length [[(110 :: nameid, [97 :: byte, 0, 98])], []])
     (concat (map attrs_serialize [[(110 :: nameid, [97, 0, 98])], []]) @ [5]) =
   Some ([[(110, [97, 0, 98])], []], [5])"
proof -
  have "list_all (\<lambda>m. om_invar m \<and> list_all attr_ok m) [[(110, [97, 0, 98])], []]"
    by (simp add: om_invar_def attr_ok_def name_ok_def nameid2string_def nameid_of_def)
  then show ?thesis by (rule attributes_roundtrip)
qed

section \<open>JSON values, requests and responses\<close>

text \<open>
  \<^bold>\<open>JSON::storeobject cuts out one value.\<close> On the text of any well-formed JSON value, followed by
  something that does not continue a number, \<open>storeobject\<close> stores exactly that value (a string
  without its quotes) and moves to what follows.
\<close>

theorem storeobject_one_value:
  assumes "wf_json v" "\<not> is_num_tail (cur rest)"
  shows "storeobject (pr v @ rest) = (Some (stored v), rest)"
  using assms by (rule storeobject_value)

theorem storeobject_one_value_witness:
  "storeobject (pr (JObj [(str ''a'', JArr [JNum (str ''-12''), JStr (str ''x'')])]) @ [ch_comma]) =
   (Some (stored (JObj [(str ''a'', JArr [JNum (str ''-12''), JStr (str ''x'')])])), [ch_comma])"
proof -
  have "wf_json (JObj [(str ''a'', JArr [JNum (str ''-12''), JStr (str ''x'')])])" by code_simp
  then show ?thesis by (rule storeobject_one_value) (simp add: is_num_tail_def is_digit_def)
qed

text \<open>
  C32. \<^bold>\<open>JSON::leaveobject does not end on a broken value.\<close> When \<open>storeobject\<close> fails at the start of a
  value (a string with no closing quote), it leaves the position alone, and the loop of
  \<open>leaveobject\<close> has no value: it runs forever.
\<close>

theorem leaveobject_diverges:
  assumes "starts_value (cur s)" "fst (storeobject s) = None"
  shows "leaveobject s = None"
  using leaveobject_stuck [of s] assms by (cases "leaveobject s") auto

theorem leaveobject_diverges_witness: "leaveobject [ch_quote, 97] = None"
proof -
  have "starts_value (cur [ch_quote, 97])" "fst (storeobject [ch_quote, 97]) = None" by code_simp+
  then show ?thesis by (rule leaveobject_diverges)
qed

text \<open>
  C21. \<^bold>\<open>The text of a request.\<close> \<open>Request::get\<close> over commands put together with the member functions of \<open>Command\<close>
  (strings, numbers, binary data, arrays of elements, arrays of objects nested up to the eight levels)
  is the JSON array of the objects the calls describe: commas, quotes and brackets are right,
  provided the strings need no escaping.
\<close>

theorem request_text:
  assumes "list_all doc_ok ds" "length hs = length ds"
  shows "req_get \<lparr>req_cmds = map2 (\<lambda>d h. (build_cmd d, h)) ds hs\<rparr> = pr (JArr (map cmd_doc ds))"
  using req_get_docs [OF assms(1), of hs] assms(2) by simp

theorem request_text_witness:
  "req_get \<lparr>req_cmds = map2 (\<lambda>d h. (build_cmd d, h))
      [(str ''p'', [MInt (str ''v'') (-2), MObjs (str ''n'') [[MBin (str ''k'') [1, 2], MElems (str ''e'') [EInt 3, EBin [4]]]]])]
      [Some]\<rparr> =
   pr (JArr (map cmd_doc [(str ''p'', [MInt (str ''v'') (-2), MObjs (str ''n'') [[MBin (str ''k'') [1, 2], MElems (str ''e'') [EInt 3, EBin [4]]]]])]))"
proof -
  have "list_all doc_ok [(str ''p'', [MInt (str ''v'') (-2), MObjs (str ''n'') [[MBin (str ''k'') [1, 2], MElems (str ''e'') [EInt 3, EBin [4]]]]])]"
    by code_simp
  then show ?thesis by (rule request_text) simp
qed

text \<open>
  C1. \<^bold>\<open>The responses reach their commands.\<close> \<open>Request::procresult\<close> on the array of responses hands every
  command in turn the text of its own response, as long as each handler stops at a member boundary of an
  object or behind anything else; all commands are then removed, the persistent ones not
  deleted, and the position is at the closing bracket.
\<close>

theorem responses_in_step:
  assumes "list_all2 (\<lambda>c v. handler_ok (snd c) v \<and> wf_json v) (req_cmds r) vs"
  shows "req_procresult r (pr (JArr vs) @ rest) =
    Some (r\<lparr>req_cmds := []\<rparr>, zip (map (cmd_tag \<circ> fst) (req_cmds r)) (handed vs (ch_rbrack # rest)),
      filter (\<lambda>c. \<not> cmd_persistent (fst c)) (req_cmds r), ch_rbrack # rest)"
  using assms by (rule req_procresult_responses)

theorem responses_in_step_witness:
  "req_procresult \<lparr>req_cmds = [(new_command, \<lambda>p. Some (procresult p)), (new_command, \<lambda>p. Some (procresult p))]\<rparr>
     (pr (JArr [JNum (str ''-9''), JObj [(str ''s'', JStr (str ''q''))]]) @ []) =
   Some (\<lparr>req_cmds = []\<rparr>,
     zip [cmd_tag new_command, cmd_tag new_command] (handed [JNum (str ''-9''), JObj [(str ''s'', JStr (str ''q''))]] [ch_rbrack]),
     [(new_command, \<lambda>p. Some (procresult p)), (new_command, \<lambda>p. Some (procresult p))], [ch_rbrack])"
proof -
  have "default_ok (JNum (str ''-9''))" "default_ok (JObj [(str ''s'', JStr (str ''q''))])"
    "wf_json (JNum (str ''-9''))" "wf_json (JObj [(str ''s'', JStr (str ''q''))])" by code_simp+
  moreover have "\<not> cmd_persistent new_command" by code_simp
  ultimately show ?thesis
    using responses_in_step [of "\<lparr>req_cmds = [(new_command, \<lambda>p. Some (procresult p)), (new_command, \<lambda>p. Some (procresult p))]\<rparr>"
        "[JNum (str ''-9''), JObj [(str ''s'', JStr (str ''q''))]]" "[]"]
    by (simp add: default_handler_ok del: pr.simps handed.simps wf_json.simps default_ok.simps)
qed

section \<open>Cryptography\<close>

text \<open>
  C24. \<^bold>\<open>CTR mode round trip.\<close> \<open>SymmCipher::ctr_crypt\<close> decrypting what it encrypted gives back the
  data and computes the same MAC, also when the last block is not full: the encrypting side takes the
  zero padding into the MAC, the decrypting side stops at the length, and the padding of the
  ciphertext may be anything.
\<close>

theorem ctr_roundtrip:
  assumes "aes_ok L" "padded len data" "\<forall>b \<in> set (drop (nat len) data). b = 0"
    and "length c' = length data" "take (nat len) c' = take (nat len) (fst (ctr_crypt L k data len pos iv True))"
  shows "take (nat len) (fst (ctr_crypt L k c' len pos iv False)) = take (nat len) data \<and>
    snd (ctr_crypt L k c' len pos iv False) = snd (ctr_crypt L k data len pos iv True)"
  using assms by (rule ctr_crypt_roundtrip)

theorem ctr_roundtrip_witness:
  "take (nat 3) (fst (ctr_crypt not_aes symm_new
      (take 3 (fst (ctr_crypt not_aes symm_new ([1, 2, 3] @ replicate 13 0) 3 32 7 True)) @ replicate 13 99) 3 32 7 False)) =
      take (nat 3) ([1, 2, 3] @ replicate 13 0) \<and>
   snd (ctr_crypt not_aes symm_new
      (take 3 (fst (ctr_crypt not_aes symm_new ([1, 2, 3] @ replicate 13 0) 3 32 7 True)) @ replicate 13 99) 3 32 7 False) =
   snd (ctr_crypt not_aes symm_new ([1, 2, 3] @ replicate 13 0) 3 32 7 True)"
proof (rule ctr_roundtrip [OF not_aes_ok])
  have "length (fst (ctr_crypt not_aes symm_new ([1, 2, 3] @ replicate 13 0) 3 32 7 True)) = 16" by code_simp
  then show "length (take 3 (fst (ctr_crypt not_aes symm_new ([1, 2, 3] @ replicate 13 0) 3 32 7 True)) @ replicate 13 99) =
      length ([1, 2, 3] @ replicate 13 (0 :: byte))" by simp
  then show "take (nat 3) (take 3 (fst (ctr_crypt not_aes symm_new ([1, 2, 3] @ replicate 13 0) 3 32 7 True)) @ replicate 13 99) =
      take (nat 3) (fst (ctr_crypt not_aes symm_new ([1, 2, 3] @ replicate 13 0) 3 32 7 True))" by simp
qed (simp_all add: padded_def)

text \<open>
  \<^bold>\<open>CTR mode is random access.\<close> For lengths below \<open>2 ^ 31\<close>, dropping the first \<open>n\<close> blocks of the result is the same as starting
  \<open>ctr_crypt\<close> \<open>n\<close> blocks later: chunks of a file can be processed independently, in either direction.
\<close>

theorem ctr_random_access:
  assumes "padded len data" "16 * int n \<le> len" "len < 2 ^ 31" "0 \<le> pos" "pos + len < 2 ^ 63"
  shows "drop (16 * n) (fst (ctr_crypt L k data len pos iv enc)) =
    fst (ctr_crypt L k (drop (16 * n) data) (len - 16 * int n) (pos + 16 * int n) iv enc')"
  using assms by (rule ctr_crypt_drop)

theorem ctr_random_access_witness:
  "drop (16 * 1) (fst (ctr_crypt not_aes symm_new (replicate 32 5) 20 0 9 True)) =
   fst (ctr_crypt not_aes symm_new (drop (16 * 1) (replicate 32 5)) (20 - 16 * int 1) (0 + 16 * int 1) 9 False)"
  by (rule ctr_random_access) (simp_all add: padded_def)

text \<open>
  \<^bold>\<open>The two xorblock routines agree.\<close> The word-wise \<open>SymmCipher::xorblock\<close> on two 64-bit halves equals the
  byte-wise one on 16 bytes, and applying it twice is the identity.
\<close>

theorem xorblock_equivalence:
  assumes "length dst = 16" "length src = 16"
  shows "xorblock src dst = xorblock_len src dst 16 \<and> xorblock src (xorblock src dst) = dst"
  using assms xorblock_bytes [of dst src] xorblock_len_bytes [of 16 dst src] xorblock_twice [of dst src] by simp

theorem xorblock_equivalence_witness:
  "xorblock (replicate 16 3) (replicate 16 5) = xorblock_len (replicate 16 3) (replicate 16 5) 16 \<and>
   xorblock (replicate 16 3) (xorblock (replicate 16 3) (replicate 16 5)) = replicate 16 5"
  by (rule xorblock_equivalence) simp_all

text \<open>
  \<^bold>\<open>PaddedCBC.\<close> \<open>PaddedCBC::decrypt\<close> succeeds on everything that \<open>PaddedCBC::encrypt\<close> made and gives the data back,
  also when the data itself ends in the padding characters.
\<close>

theorem paddedcbc_roundtrip:
  assumes "aes_ok L"
  shows "padded_decrypt L key (padded_encrypt L key data) = (data, True)"
  using assms by (rule padded_roundtrip)

theorem paddedcbc_roundtrip_witness:
  "padded_decrypt not_aes symm_new (padded_encrypt not_aes symm_new (str ''EPP'')) = (str ''EPP'', True)"
  using paddedcbc_roundtrip [OF not_aes_ok] .

text \<open>
  C26. \<^bold>\<open>RSA.\<close> The private key operation (two exponentiations modulo the primes and Garner's recombination)
  inverts the public one and the public one inverts it, for every number below the modulus, when the
  keys come from \<open>AsymmCipher::genkeypair\<close> with acceptable primes \<open>p < q\<close>.
\<close>

theorem rsa_inverse:
  assumes "bigint_ok B" "is_prime p" "is_prime q" "p < q" "2 < p" "isAcceptable 17 p" "isAcceptable 17 q"
    and "genkeypair B p q = (privk, pubk)" "m < p * q"
  shows "(\<exists>c < p * q. rsaencrypt B pubk m = Some c \<and> rsadecrypt B privk c = Some m) \<and>
    (\<exists>s < p * q. rsadecrypt B privk m = Some s \<and> rsaencrypt B pubk s = Some m)"
proof -
  have "pubk ! 0 = p * q" using assms(8) by (auto simp: genkeypair_def Let_def)
  moreover have "key_pair B pubk privk"
    using genkeypair_rsa_key [OF assms(1-7)] rsa_key_pair [OF assms(1)] assms(8) by simp
  ultimately show ?thesis using assms(9) by (auto simp: key_pair_def)
qed

theorem rsa_inverse_witness:
  "(\<exists>c < 5 * 7. rsaencrypt nat_bigint (snd (genkeypair nat_bigint 5 7)) 34 = Some c \<and>
      rsadecrypt nat_bigint (fst (genkeypair nat_bigint 5 7)) c = Some 34) \<and>
   (\<exists>s < 5 * 7. rsadecrypt nat_bigint (fst (genkeypair nat_bigint 5 7)) 34 = Some s \<and>
      rsaencrypt nat_bigint (snd (genkeypair nat_bigint 5 7)) s = Some 34)"
proof -
  have "is_prime 5" "is_prime 7" by (simp_all add: is_prime_def upt_rec)
  moreover have "coprime 17 (4 :: nat)" "coprime 17 (6 :: nat)"
    by (simp_all add: coprime_iff_gcd_eq_1 gcd_non_0_nat)
  then have "isAcceptable 17 5" "isAcceptable 17 7" by (simp_all add: isAcceptable_def)
  ultimately show ?thesis by (intro rsa_inverse [OF nat_bigint_ok]) simp_all
qed

text \<open>
  C35. \<^bold>\<open>The RSA envelope.\<close> \<open>AsymmCipher::decrypt\<close> recovers the plain text that \<open>AsymmCipher::encrypt\<close> padded with
  random bytes, encrypted and printed with its bit length, for keys of \<open>N\<close> bytes, provided the text does not start
  with a zero byte or the private exponent is as long as the modulus.
\<close>

theorem rsa_envelope:
  assumes "bigint_ok B" "rsa_key pubk privk" "\<forall>c < pubk ! 0. bitCount B c < 65536"
    and "byteCount B (pubk ! 0) = N" "length (plain @ pad) = N - 2" "2 < N" "N + 2 \<le> buflen"
    and "plain \<noteq> []" "hd plain \<noteq> 0 \<or> byteCount B (privk ! 2) = N" "byteCount B (privk ! 2) \<le> N"
      "2 \<le> byteCount B (privk ! 2)"
  shows "\<exists>c. asymm_encrypt B pubk plain pad buflen = Some c \<and>
    asymm_decrypt B privk c (length plain) = Some (Some plain)"
  using asymm_decrypt_encrypt [OF assms(1) rsa_key_pair [OF assms(1,2)] assms(3-)] .

theorem rsa_envelope_witness:
  "\<exists>c. asymm_encrypt nat_bigint [67591, 17] [7] [] 5 = Some c \<and>
     asymm_decrypt nat_bigint [257, 263, 13809, 219] c (length [7 :: byte]) = Some (Some [7])"
proof (rule rsa_envelope [OF nat_bigint_ok rsa_key_257_263])
  show "\<forall>c<[67591, 17] ! 0. bitCount nat_bigint c < 65536" by (auto dest: bits_257_263)
  show "byteCount nat_bigint ([67591, 17] ! 0) = 3" by (simp add: nat_bigint_def floorlogs_257_263)
qed (simp_all add: nat_bigint_def floorlogs_257_263)

text \<open>
  \<^bold>\<open>Signatures.\<close> \<open>HashSignature::check\<close> accepts a signature made by \<open>HashSignature::get\<close> with the matching
  private key exactly when the digest does not start with a zero byte: one correct signature in 256 is
  refused.
\<close>

theorem signature_check:
  assumes "bigint_ok B" "rsa_key pubk privk" "h \<noteq> []" "be_nat h < pubk ! 0"
    and "\<forall>m < pubk ! 0. byteCount B m \<le> n" "sig_get B privk h n = Some sig"
  shows "sig_check B pubk h sig = Some (hd h \<noteq> 0)"
  using sig_check_get [OF assms(1) rsa_key_pair [OF assms(1,2)] assms(3-)] .

theorem signature_check_witness:
  "sig_check nat_bigint [67591, 17] [7] (the (sig_get nat_bigint [257, 263, 13809, 219] [7] 3)) = Some (hd [7 :: byte] \<noteq> 0)"
proof (rule signature_check [OF nat_bigint_ok rsa_key_257_263])
  show "sig_get nat_bigint [257, 263, 13809, 219] [7] 3 = Some (the (sig_get nat_bigint [257, 263, 13809, 219] [7] 3))"
    by (simp add: sig_get_def rawdecrypt_def rsadecrypt_def Let_def)
  have "byteCount nat_bigint m \<le> 3" if "m < 67591" for m
    using bits_257_263 [OF that] div_le_mono [of "bitCount nat_bigint m + 7" 24 8] by (simp add: nat_bigint_def)
  then show "\<forall>m<[67591, 17] ! 0. byteCount nat_bigint m \<le> 3" by simp
qed (simp_all add: be_nat_def)

section \<open>Files, chunks and transfers\<close>

text \<open>
  C39. \<^bold>\<open>The chunk grid.\<close> \<open>ChunkedHash::chunkfloor\<close> and \<open>chunkceil\<close> of a position are the borders of the one chunk
  that contains it, where chunk \<open>k\<close> has \<open>k + 1\<close> segments of 128 KB up to the eighth, and eight segments from
  there on. The chunks therefore tile the file without gap or overlap.
\<close>

theorem chunk_grid:
  assumes "0 \<le> p"
  shows "\<exists>k. chunkfloor p = chunk_start k \<and> chunkceil p = chunk_start (Suc k) \<and>
    chunk_start k \<le> p \<and> p < chunk_start (Suc k) \<and>
    chunk_start (Suc k) = chunk_start k + SEGSIZE * min (int k + 1) 8"
  using chunk_bounds [OF assms] chunk_start_Suc by blast

theorem chunk_grid_witness:
  "\<exists>k. chunkfloor 5000000 = chunk_start k \<and> chunkceil 5000000 = chunk_start (Suc k) \<and>
    chunk_start k \<le> 5000000 \<and> 5000000 < chunk_start (Suc k) \<and>
    chunk_start (Suc k) = chunk_start k + SEGSIZE * min (int k + 1) 8"
  by (rule chunk_grid) simp

text \<open>
  C40. \<^bold>\<open>File names on disk.\<close> A name escaped by \<open>FileSystemAccess::escapefsincompatible\<close> has only characters the
  file system accepts, escaping again changes nothing, and unescaping gives the name back exactly when the
  name itself contains no escape sequence.
\<close>

theorem filename_escape:
  "list_all islocalfscompatible (escapefsincompatible name) \<and>
   escapefsincompatible (escapefsincompatible name) = escapefsincompatible name \<and>
   (unescapefsincompatible (escapefsincompatible name) = name \<longleftrightarrow> unescapefsincompatible name = name)"
  using escape_fs_compatible [of _ name] escape_fs_idem [of name] unescape_escape_fs [of name]
  by (auto simp: list_all_iff)

text \<open>
  C37. \<^bold>\<open>Fingerprint round trip.\<close> \<open>FileFingerprint::unserializefingerprint\<close> restores CRC and time from the text that
  \<open>serializefingerprint\<close> made, marks the fingerprint valid and keeps the size.
\<close>

theorem fingerprint_text_roundtrip:
  assumes "length (fp_crc fp) = 16" "- (2 ^ 63) \<le> fp_mtime fp" "fp_mtime fp < 2 ^ 63"
  shows "unserializefingerprint (serializefingerprint fp) fp0 =
    (True, fp0\<lparr>fp_crc := fp_crc fp, fp_mtime := fp_mtime fp, fp_isvalid := True\<rparr>)"
  using assms by (rule fingerprint_roundtrip)

theorem fingerprint_text_roundtrip_witness:
  "unserializefingerprint (serializefingerprint \<lparr>fp_size = 5, fp_mtime = -3, fp_crc = replicate 16 200, fp_isvalid = False\<rparr>) (fp_new []) =
   (True, (fp_new [])\<lparr>fp_crc := replicate 16 200, fp_mtime := -3, fp_isvalid := True\<rparr>)"
  using fingerprint_text_roundtrip [of "\<lparr>fp_size = 5, fp_mtime = -3, fp_crc = replicate 16 200, fp_isvalid = False\<rparr>" "fp_new []"]
  by simp

text \<open>
  C38. \<^bold>\<open>The order of fingerprints.\<close> \<open>FileFingerprintCmp\<close> is a strict weak order, as \<open>std::multiset\<close> demands: irreflexive,
  transitive, and two fingerprints that are not ordered have equal size, time and CRC, so that they
  compare alike with every other.
\<close>

theorem fingerprint_order:
  "\<not> fp_less a a \<and> (fp_less a b \<longrightarrow> \<not> fp_less b a) \<and> (fp_less a b \<longrightarrow> fp_less b c \<longrightarrow> fp_less a c) \<and>
   (\<not> fp_less a b \<longrightarrow> \<not> fp_less b a \<longrightarrow>
      fp_size a = fp_size b \<and> fp_mtime a = fp_mtime b \<and> crc_image (fp_crc a) = crc_image (fp_crc b) \<and>
      (fp_less a c \<longleftrightarrow> fp_less b c))"
  using fpc.irrefl [of a] fpc.asym [of a b] fpc.trans [of a b c] fp_less_cases [of a b] fpc.less_cong [of a b c] by blast

theorem fingerprint_order_witness:
  "\<not> fp_less (fp_new [1]) (fp_new [1]) \<and>
   (fp_less ((fp_new [])\<lparr>fp_size := 1\<rparr>) ((fp_new [])\<lparr>fp_size := 2\<rparr>) \<and> \<not> fp_less ((fp_new [])\<lparr>fp_size := 2\<rparr>) ((fp_new [])\<lparr>fp_size := 1\<rparr>))"
proof -
  have "fp_less ((fp_new [])\<lparr>fp_size := 1\<rparr>) ((fp_new [])\<lparr>fp_size := 2\<rparr>)" by (simp add: fp_less_def)
  then show ?thesis
    using fingerprint_order [of "(fp_new [])\<lparr>fp_size := 1\<rparr>" "(fp_new [])\<lparr>fp_size := 2\<rparr>"] fingerprint_order [of "fp_new [1]"] by blast
qed

text \<open>
  \<^bold>\<open>genfingerprint is stable.\<close> Called again on the unchanged file, \<open>genfingerprint\<close> reports no change and
  keeps the fingerprint: a second scan of a directory does not trigger uploads.
\<close>

theorem genfingerprint_stable:
  assumes "genfingerprint S crc32 junk fa ign fp = (c, fp')" "fp_size fp' \<noteq> -1 \<or> fa_size fa = -1"
    and "16 < fa_size fa \<or> fst (frawread S (nat (fa_size fa)) 0 fa) \<noteq> None"
  shows "genfingerprint S crc32 junk' fa ign' fp' = (False, fp')"
  using assms by (rule genfingerprint_again)

theorem genfingerprint_stable_witness:
  "genfingerprint \<lparr>sys_stat = None, sys_open = True, sys_read = \<lambda>n p. Some (replicate n 65)\<rparr> (\<lambda>d. [1, 2, 3, 4]) [9]
     \<lparr>fa_localname = [], fa_mtime = 7, fa_size = 4, fa_handles = 0\<rparr> False
     (snd (genfingerprint \<lparr>sys_stat = None, sys_open = True, sys_read = \<lambda>n p. Some (replicate n 65)\<rparr> (\<lambda>d. [1, 2, 3, 4]) []
       \<lparr>fa_localname = [], fa_mtime = 7, fa_size = 4, fa_handles = 0\<rparr> False (fp_new []))) =
   (False, snd (genfingerprint \<lparr>sys_stat = None, sys_open = True, sys_read = \<lambda>n p. Some (replicate n 65)\<rparr> (\<lambda>d. [1, 2, 3, 4]) []
       \<lparr>fa_localname = [], fa_mtime = 7, fa_size = 4, fa_handles = 0\<rparr> False (fp_new [])))"
proof (rule genfingerprint_stable [OF prod.collapse [symmetric]])
  show "16 < fa_size \<lparr>fa_localname = [], fa_mtime = 7, fa_size = 4, fa_handles = 0\<rparr> \<or>
      fst (frawread \<lparr>sys_stat = None, sys_open = True, sys_read = \<lambda>n p. Some (replicate n 65)\<rparr>
        (nat (fa_size \<lparr>fa_localname = [], fa_mtime = 7, fa_size = 4, fa_handles = 0\<rparr>)) 0
        \<lparr>fa_localname = [], fa_mtime = 7, fa_size = 4, fa_handles = 0\<rparr>) \<noteq> None"
    by (simp add: frawread_def openf_def)
qed (simp add: genfingerprint_def new_crc_def frawread_def openf_def Let_def fp_new_def)

text \<open>
  \<^bold>\<open>Identifiers of cached records.\<close> \<open>DbTable::put\<close> gives a new record an id that no record of the table has, with the
  record type in its low four bits, and stores the encrypted data under it, as long as \<open>nextid\<close> does not wrap.
\<close>

theorem dbtable_fresh_id:
  assumes "ids_ok ids db" "dbid r = 0" "unat type < 16" "unat (db_nextid db) + 16 < 2 ^ 32"
    and "db_put raw_put L type (Some data) key r db = (ok, r', db')"
  shows "dbid r' \<notin> ids \<and> dbid r' \<noteq> 0 \<and> dbid r' AND 15 = type \<and> ids_ok (insert (dbid r') ids) db' \<and>
    (ok, db_table db') = raw_put (dbid r') (padded_encrypt L key data) (db_table db)"
  using assms by (rule db_put_fresh)

theorem dbtable_fresh_id_witness:
  "dbid (fst (snd (db_put (\<lambda>i d t. (True, (i, d) # t)) not_aes 3 (Some [1]) symm_new new_cachable (DbTable [])))) \<notin> {0 :: u32}"
proof -
  let ?r = "db_put (\<lambda>i d t. (True, (i, d) # t)) not_aes 3 (Some [1]) symm_new new_cachable (DbTable [])"
  have "ids_ok {0} (DbTable ([] :: (u32 \<times> bytes) list))" by (simp add: ids_ok_def DbTable_def)
  from dbtable_fresh_id [OF this, of new_cachable 3 "\<lambda>i d t. (True, (i, d) # t)" not_aes "[1]" symm_new "fst ?r" "fst (snd ?r)" "snd (snd ?r)"]
  show ?thesis by (simp add: new_cachable_def DbTable_def)
qed

text \<open>
  \<^bold>\<open>Loading the cache.\<close> After reading records with \<open>DbTable::next\<close> in any order, \<open>nextid\<close> is at or above every id seen, so that
  records added later are fresh.
\<close>

theorem dbtable_load_ids:
  assumes "ids_ok ids db"
  shows "ids_ok (ids \<union> set (map (fst \<circ> snd) (fst (db_load n raw_next L key db)))) (snd (db_load n raw_next L key db))"
  using assms by (rule db_load_ids)

theorem dbtable_load_ids_witness:
  "ids_ok ({} \<union> set (map (fst \<circ> snd) (fst (db_load 2 (\<lambda>t. case t of [] \<Rightarrow> (None, []) | x # xs \<Rightarrow> (Some x, xs)) not_aes symm_new (DbTable [(35, [1]), (18, [])])))))
     (snd (db_load 2 (\<lambda>t. case t of [] \<Rightarrow> (None, []) | x # xs \<Rightarrow> (Some x, xs)) not_aes symm_new (DbTable [(35, [1]), (18, [])])))"
  by (rule dbtable_load_ids) (simp add: ids_ok_def DbTable_def)

text \<open>
  \<^bold>\<open>The receive buffer.\<close> Whatever pieces the network delivers, \<open>HttpReq::put\<close> collects their concatenation, cut at the
  end of a fixed buffer, and never writes outside it.
\<close>

theorem httpreq_put_collects:
  assumes "buf_ok r"
  shows "received (fold hr_put ds r) = cut (capacity r) (received r @ concat ds) \<and> buf_ok (fold hr_put ds r) \<and>
    capacity (fold hr_put ds r) = capacity r"
  using hr_put_all [OF assms received_cut [OF assms]] .

theorem httpreq_put_collects_witness:
  "received (fold hr_put [[1, 2], [3]] ((HttpReq True)\<lparr>hr_buf := Some [0, 0], hr_buflen := 2\<rparr>)) =
     cut (capacity ((HttpReq True)\<lparr>hr_buf := Some [0, 0], hr_buflen := 2\<rparr>))
       (received ((HttpReq True)\<lparr>hr_buf := Some [0, 0], hr_buflen := 2\<rparr>) @ concat [[1, 2], [3]]) \<and>
   buf_ok (fold hr_put [[1, 2], [3]] ((HttpReq True)\<lparr>hr_buf := Some [0, 0], hr_buflen := 2\<rparr>)) \<and>
   capacity (fold hr_put [[1, 2], [3]] ((HttpReq True)\<lparr>hr_buf := Some [0, 0], hr_buflen := 2\<rparr>)) =
     capacity ((HttpReq True)\<lparr>hr_buf := Some [0, 0], hr_buflen := 2\<rparr>)"
  by (rule httpreq_put_collects) (simp add: buf_ok_def HttpReq_def)

text \<open>
  C25. \<^bold>\<open>A chunk survives upload and download.\<close> What \<open>HttpReqUL::prepare\<close> reads from the file, encrypts and sends, \<open>HttpReqDL::finalize\<close>
  decrypts to the same bytes at the same position, and both sides record the same MAC for the chunk.
\<close>

theorem chunk_transfer:
  fixes r q :: httpreqxfer
  assumes "aes_ok L" "0 \<le> pos" "pos \<le> npos" "npos - pos < 2 ^ 31"
    and "fst (fa_fread S (nat (npos - pos)) (nat ((pos - npos) mod 16)) pos fa) = Some (d @ replicate (nat ((pos - npos) mod 16)) 0)"
      "length d = nat (npos - pos)"
    and "padded (npos - pos) b" "take (nat (npos - pos)) b = hr_out (fst (snd (ul_prepare S fa url L key macs ctriv pos npos r)))"
  shows "case (ul_prepare S fa url L key macs ctriv pos npos r,
      dl_finalize L key m ctriv 0 (-1) (q\<lparr>hr_buf := Some b, hr_bufpos := npos - pos, hx_dlpos := pos\<rparr>)) of
    ((ok, r', macs'), (q', w, m')) \<Rightarrow> ok \<and> w = (d, pos) \<and> om_lookup m' pos = om_lookup macs' pos \<and> om_lookup m' pos \<noteq> None"
proof -
  obtain ok r' macs' where u: "ul_prepare S fa url L key macs ctriv pos npos r = (ok, r', macs')" by (metis prod_cases3)
  obtain q' w m' where f: "dl_finalize L key m ctriv 0 (-1) (q\<lparr>hr_buf := Some b, hr_bufpos := npos - pos, hx_dlpos := pos\<rparr>) = (q', w, m')"
    by (metis prod_cases3)
  show ?thesis
    using chunk_roundtrip [OF assms(1-6) u _ assms(7) _ _ _ f] assms(8) by (simp add: u f, metis)
qed

theorem chunk_transfer_witness:
  "case (ul_prepare \<lparr>sys_stat = None, sys_open = True, sys_read = \<lambda>n p. Some [1, 2, 3]\<rparr>
        \<lparr>fa_localname = [], fa_mtime = 0, fa_size = 3, fa_handles = 0\<rparr> [] not_aes symm_new [] 5 0 3
        (httpreq.extend (HttpReq True) \<lparr>hx_size = 0, hx_dlpos = 0\<rparr>),
      dl_finalize not_aes symm_new [] 5 0 (-1)
        ((httpreq.extend (HttpReq True) \<lparr>hx_size = 0, hx_dlpos = 0\<rparr>)
          \<lparr>hr_buf := Some (hr_out (fst (snd (ul_prepare \<lparr>sys_stat = None, sys_open = True, sys_read = \<lambda>n p. Some [1, 2, 3]\<rparr>
             \<lparr>fa_localname = [], fa_mtime = 0, fa_size = 3, fa_handles = 0\<rparr> [] not_aes symm_new [] 5 0 3
             (httpreq.extend (HttpReq True) \<lparr>hx_size = 0, hx_dlpos = 0\<rparr>)))) @ replicate 13 7),
           hr_bufpos := 3 - 0, hx_dlpos := 0\<rparr>)) of
    ((ok, r', macs'), (q', w, m')) \<Rightarrow> ok \<and> w = ([1, 2, 3], 0) \<and> om_lookup m' 0 = om_lookup macs' 0 \<and> om_lookup m' 0 \<noteq> None"
proof -
  let ?u = "ul_prepare \<lparr>sys_stat = None, sys_open = True, sys_read = \<lambda>n p. Some [1, 2, 3]\<rparr>
        \<lparr>fa_localname = [], fa_mtime = 0, fa_size = 3, fa_handles = 0\<rparr> [] not_aes symm_new [] 5 0 3
        (httpreq.extend (HttpReq True) \<lparr>hx_size = 0, hx_dlpos = 0\<rparr>)"
  have n: "length (hr_out (fst (snd ?u))) = 3" by code_simp
  show ?thesis
  proof (rule chunk_transfer [OF not_aes_ok])
    show "padded (3 - 0) (hr_out (fst (snd ?u)) @ replicate 13 7)" using n by (simp add: padded_def)
    show "take (nat (3 - 0)) (hr_out (fst (snd ?u)) @ replicate 13 7) = hr_out (fst (snd ?u))" using n by simp
  qed (simp_all add: fa_fread_def openf_def)
qed

section \<open>Shares and users\<close>

text \<open>
  \<^bold>\<open>Shares.\<close> The images of any sequence of shares, written by \<open>Share::serialize\<close> one after the other, are read by
  \<open>Share::unserialize\<close> as the shares with the same user, access level and time.
\<close>

theorem shares_roundtrip:
  assumes "list_all share_ok shs"
  shows "dec_n (share_unserialize d h key) (length shs) (concat (map share_serialize shs) @ rest) =
    Some (map (share_view d h key) shs, rest)"
  using assms by (rule sharec.dec_n_enc)

theorem shares_roundtrip_witness:
  "dec_n (share_unserialize 1 5 None) (length [Share (Some 9) 2 100, Share None 0 (-1)])
     (concat (map share_serialize [Share (Some 9) 2 100, Share None 0 (-1)]) @ [1]) =
   Some (map (share_view 1 5 None) [Share (Some 9) 2 100, Share None 0 (-1)], [1])"
  by (rule shares_roundtrip) (simp add: share_ok_def Share_def)

text \<open>
  \<^bold>\<open>The user tables.\<close> \<open>finduser\<close> by handle and by address, \<open>mapuser\<close> and \<open>User::unserialize\<close> keep the three tables consistent:
  every entry of the two indexes points at an existing user, and \<open>userid\<close> is at least every number in use.
\<close>

theorem user_tables_invariant:
  assumes "ut_ok t"
  shows "ut_ok (snd (finduser_handle uh add t)) \<and> ut_ok (snd (finduser_uid uid add t)) \<and>
    ut_ok (mapuser uh email t) \<and> ut_ok (snd (snd (user_unserialize B d me t)))"
  using finduser_handle_ok(1) [OF assms] finduser_uid_ok(1) [OF assms] mapuser_ok(1) [OF assms]
    user_unserialize_ok [OF assms] by simp

theorem user_tables_invariant_witness:
  "ut_ok (snd (finduser_handle 5 True no_users)) \<and> ut_ok (snd (finduser_uid (Some (str ''A'')) True no_users)) \<and>
   ut_ok (mapuser 5 (str ''a'') no_users) \<and> ut_ok (snd (snd (user_unserialize nat_bigint [] 0 no_users)))"
  by (rule user_tables_invariant [OF no_users_ok])

text \<open>
  C30. \<^bold>\<open>User cache round trip.\<close> A user written by \<open>User::serialize\<close> is restored by \<open>User::unserialize\<close> with handle, address, time,
  visibility, attributes and public key, is found under its handle, and becomes \<open>me\<close> when its visibility says so. The
  address has at most 255 bytes (its length is one byte), and the handle is not 0.
\<close>

theorem user_cache_roundtrip:
  assumes "bigint_ok B" "user_ok B u" "ut_ok t" "om_lookup (ut_uhindex t) (u_userhandle u) = None"
  shows "\<exists>i t'. user_unserialize B (user_serialize B u) me t =
      (Some i, if u_show u = 2 then u_userhandle u else me, t') \<and> ut_ok t' \<and>
    om_lookup (ut_uhindex t') (u_userhandle u) = Some i \<and>
    om_lookup (ut_users t') i = Some (u\<lparr>dbid := 0, notified := False, u_uid := take 11 (btoa (le_bytes 8 (u_userhandle u))),
      u_pubkrequested := False, u_sharing := []\<rparr>)"
  using assms by (rule user_roundtrip)

theorem user_cache_roundtrip_witness:
  "\<exists>i t'. user_unserialize nat_bigint (user_serialize nat_bigint sample_user) 0 no_users =
      (Some i, if u_show sample_user = 2 then u_userhandle sample_user else 0, t') \<and> ut_ok t' \<and>
    om_lookup (ut_uhindex t') (u_userhandle sample_user) = Some i \<and>
    om_lookup (ut_users t') i = Some (sample_user\<lparr>dbid := 0, notified := False,
      u_uid := take 11 (btoa (le_bytes 8 (u_userhandle sample_user))), u_pubkrequested := False, u_sharing := []\<rparr>)"
proof -
  have "user_ok nat_bigint sample_user"
    by (simp add: user_ok_def sample_user_def User_def str_def copystring_def om_invar_def attr_ok_def name_ok_def nameid2string_def
        nameid_of_def asymm_isvalid_def nat_bigint_def floorlog_def)
  then show ?thesis by (intro user_cache_roundtrip nat_bigint_ok no_users_ok) (simp_all add: no_users_def)
qed

section \<open>The node tree\<close>

text \<open>
  \<^bold>\<open>isbelow.\<close> In a well-formed node tree the loop of \<open>Node::isbelow\<close> ends, and answers whether the
  first node is the second one or lies somewhere below it.
\<close>

theorem isbelow_decides:
  assumes "tree_ok mc" "nodebyhandle mc h \<noteq> None"
  shows "isbelow mc (Some h) p = Some (under mc p h)"
  using assms isbelow_under [of mc _ _ h p] by (auto simp: tree_ok_def)

theorem isbelow_decides_witness: "isbelow sample_client (Some 3) 1 = Some (under sample_client 1 3)"
  by (rule isbelow_decides [OF sample_tree]) (simp add: sample_lookup)

text \<open>
  C9. \<^bold>\<open>Moving a node keeps the tree.\<close> \<open>Node::setparent\<close> under a folder that is not below the node itself returns, leaves
  parent pointers and child lists mirroring each other without cycles, hangs the node under its new parent,
  and reports whether the parent changed. Every fuel from some bound on is enough for the walk over the subtree that
  cancels pending downloads.
\<close>

theorem setparent_keeps_tree:
  assumes "tree_ok mc" "nodebyhandle mc h = Some n" "nodebyhandle mc p = Some mp" "n_type mp \<noteq> FILENODE" "\<not> under mc h p"
  shows "\<exists>K. \<forall>k \<ge> K. \<exists>b mc'. setparent k p h mc = Some (b, mc') \<and> tree_ok mc' \<and>
    map_option n_parent (nodebyhandle mc' h) = Some (Some p) \<and> (b \<longleftrightarrow> n_parent n \<noteq> Some p)"
proof -
  obtain rk d where "links_ok mc" "ranked rk d mc" using assms(1) by (auto simp: tree_ok_def)
  from setparent_tree [OF this assms(2-5)] show ?thesis by blast
qed

theorem setparent_keeps_tree_witness:
  "\<exists>K. \<forall>k \<ge> K. \<exists>b mc'. setparent k 1 3 sample_client = Some (b, mc') \<and> tree_ok mc' \<and>
    map_option n_parent (nodebyhandle mc' 3) = Some (Some 1) \<and>
    (b \<longleftrightarrow> n_parent (sample_node 3 0 (Some 2) []) \<noteq> Some 1)"
proof (rule setparent_keeps_tree [OF sample_tree])
  show "\<not> under sample_client 3 1"
    by (subst under_iff) (simp add: sample_lookup sample_node_def fresh_node_def)
  show "n_type ((sample_node 1 2 None [2])\<lparr>n_sharekey := Some symm_new\<rparr>) \<noteq> 0" by (simp add: sample_node_def fresh_node_def)
qed (simp_all add: sample_lookup)

text \<open>
  \<^bold>\<open>Counting a subtree.\<close> \<open>MegaClient::proctree\<close> with \<open>TreeProcDU\<close> returns, visits every node below the start exactly
  once, and adds up the sizes of the files and the numbers of files and folders.
\<close>

theorem proctree_du_totals:
  assumes "tree_ok (du_client s)" "nodebyhandle (du_client s) h \<noteq> None"
  shows "\<exists>K. \<forall>k \<ge> K. \<exists>s'. proctree k du_client treedu h s = Some s' \<and> du_client s' = du_client s \<and>
    du_numbytes s' = du_numbytes s +
      (\<Sum>x | under (du_client s) h x \<and> nodebyhandle (du_client s) x \<noteq> None. file_size (du_client s) x) \<and>
    du_numfiles s' = du_numfiles s +
      int (card {x. under (du_client s) h x \<and> nodebyhandle (du_client s) x \<noteq> None \<and> is_file (du_client s) x}) \<and>
    du_numfolders s' = du_numfolders s +
      int (card {x. under (du_client s) h x \<and> nodebyhandle (du_client s) x \<noteq> None \<and> \<not> is_file (du_client s) x})"
proof -
  obtain rk d where "links_ok (du_client s)" "ranked rk d (du_client s)" using assms(1) by (auto simp: tree_ok_def)
  from treedu_under [OF this assms(2)] show ?thesis by (auto simp: conj_assoc)
qed

theorem proctree_du_totals_witness:
  "\<exists>K. \<forall>k \<ge> K. \<exists>s'. proctree k du_client treedu 2 \<lparr>du_client = sample_client, du_numbytes = 0, du_numfiles = 0, du_numfolders = 0\<rparr> = Some s' \<and>
    du_client s' = sample_client"
  using proctree_du_totals [of "\<lparr>du_client = sample_client, du_numbytes = 0, du_numfiles = 0, du_numfolders = 0\<rparr>" 2] sample_tree
  by (simp add: sample_lookup) blast

text \<open>
  \<^bold>\<open>A new node.\<close> The constructor \<open>Node::Node\<close> registers the node and hangs it under its parent when that is known and is
  not a file, and otherwise queues it in \<open>dp\<close> for later; the tree stays well-formed.
\<close>

theorem node_constructor:
  assumes "tree_ok mc" "nodebyhandle mc h = None" "ph \<noteq> h" "\<forall>m. nodebyhandle mc ph = Some m \<longrightarrow> n_type m \<noteq> FILENODE"
  shows "\<exists>K. \<forall>k \<ge> K. \<exists>dp' mc'. Node k dp h ph t s u fa ts tm junk mc = Some (dp', mc') \<and> tree_ok mc' \<and>
    nodebyhandle mc' h \<noteq> None \<and>
    (if nodebyhandle mc ph = None then dp' = dp @ [h]
     else dp' = dp \<and> map_option n_parent (nodebyhandle mc' h) = Some (Some ph))"
proof -
  obtain rk d where "links_ok mc" "ranked rk d mc" using assms(1) by (auto simp: tree_ok_def)
  from Node_tree [OF this assms(2,3)] assms(4) show ?thesis by blast
qed

theorem node_constructor_witness:
  "\<exists>K. \<forall>k \<ge> K. \<exists>dp' mc'. Node k [] 9 2 0 55 5 None 1 2 [] sample_client = Some (dp', mc') \<and> tree_ok mc' \<and>
    nodebyhandle mc' 9 \<noteq> None \<and>
    (if nodebyhandle sample_client 2 = None then dp' = [] @ [9]
     else dp' = [] \<and> map_option n_parent (nodebyhandle mc' 9) = Some (Some 2))"
  by (rule node_constructor [OF sample_tree]) (simp_all add: sample_lookup sample_node_def fresh_node_def)

text \<open>
  C19. \<^bold>\<open>Node attributes, end to end.\<close> An attribute map printed by \<open>AttrMap::getjson\<close>, encrypted by \<open>MegaClient::makeattr\<close> and sent as base64 is
  decrypted, parsed and stored unchanged by \<open>Node::setattr\<close>; the encrypted string is dropped, and a file with a key gets
  its fingerprint and is in the set of fingerprints under it. The map is not empty, its names are plain ASCII and its values stay the same when they are normalized; the node has
  no attributes yet.
\<close>

theorem node_attributes_roundtrip:
  assumes "aes_ok (lib_aes K)" "om_invar (mc_nodes mc)" "nodebyhandle mc h = Some n"
    and "n_attrstring n = btoa (makeattr (lib_aes K) (n_key n) (getjson m))"
    and "m \<noteq> []" "list_all (attr_plain (lib_nfc K)) m" "om_invar m" "n_attrs n = []"
  shows "\<exists>n'. nodebyhandle (node_setattr K h mc) h = Some n' \<and> n_attrs n' = m \<and> n_attrstring n' = [] \<and>
    (n_type n = FILENODE \<and> length (n_nodekey n) \<ge> 16 \<longrightarrow> n_fp n' = node_fp (n\<lparr>n_attrs := m\<rparr>) \<and> n_infps n' \<and>
       (n_fp n', h) \<in> set (mc_fingerprints (node_setattr K h mc)))"
  using assms by (rule node_setattr_makeattr)

theorem node_attributes_roundtrip_witness:
  "\<exists>n'. nodebyhandle (node_setattr sample_libs 3 (sample_client\<lparr>mc_nodes := [(3, sample_attr_node)]\<rparr>)) 3 = Some n' \<and>
     n_attrs n' = [(110, str ''doc'')] \<and> n_attrstring n' = [] \<and>
     (n_type sample_attr_node = FILENODE \<and> length (n_nodekey sample_attr_node) \<ge> 16 \<longrightarrow>
        n_fp n' = node_fp (sample_attr_node\<lparr>n_attrs := [(110, str ''doc'')]\<rparr>) \<and> n_infps n' \<and>
        (n_fp n', 3) \<in> set (mc_fingerprints (node_setattr sample_libs 3 (sample_client\<lparr>mc_nodes := [(3, sample_attr_node)]\<rparr>))))"
  by (rule node_attributes_roundtrip)
    (simp_all add: sample_libs_def not_aes_ok nodebyhandle_def sample_attr_node_def sample_node_def fresh_node_def om_invar_def
      attr_plain_def name_ok_def nameid2string_def nameid_of_def normalize_def str_def)

text \<open>
  C7. \<^bold>\<open>Node cache round trip.\<close> A node that \<open>Node::serialize\<close> wrote to the cache is restored by \<open>Node::unserialize\<close>: type, size, owner, key,
  file attributes and attributes agree, the two times agree modulo \<open>2 ^ 32\<close> (they are written with 64 bits and read as \<open>uint32_t\<close>), its shares come back as new
  shares to be merged, and the tree stays well-formed. The node has no attributes left to be decrypted, its key fits its type, the string of its file attributes is shorter than 65535 bytes, it has
  fewer than 32768 shares (with a share key when there are any), and its parent is not a file.
\<close>

theorem node_cache_roundtrip:
  assumes "node_ok n" "tree_ok mc" "nodebyhandle mc (n_handle n) = None" "n_parent n \<noteq> Some (n_handle n)"
    and "\<forall>m. nodebyhandle mc (nh_ph (header_of n)) = Some m \<longrightarrow> n_type m \<noteq> FILENODE"
  shows "\<exists>F. \<forall>k \<ge> F. \<exists>img dp' mc' n'. node_serialize n = Some img \<and>
    node_unserialize K k junk img dp mc = Some (Some (n_handle n), dp', mc') \<and> tree_ok mc' \<and>
    nodebyhandle mc' (n_handle n) = Some n' \<and> same_record n n' \<and>
    mc_newshares mc' = mc_newshares mc @ share_views n"
proof -
  obtain rk d where "links_ok mc" "ranked rk d mc" using assms(2) by (auto simp: tree_ok_def)
  from node_roundtrip [OF assms(1) this assms(3)] assms(4,5) show ?thesis by blast
qed

theorem node_cache_roundtrip_witness:
  "\<exists>F. \<forall>k \<ge> F. \<exists>img dp' mc' n'. node_serialize sample_cached = Some img \<and>
    node_unserialize sample_libs k [] img [] sample_client = Some (Some (n_handle sample_cached), dp', mc') \<and> tree_ok mc' \<and>
    nodebyhandle mc' (n_handle sample_cached) = Some n' \<and> same_record sample_cached n' \<and>
    mc_newshares mc' = mc_newshares sample_client @ share_views sample_cached"
proof (rule node_cache_roundtrip [OF _ sample_tree])
  show "node_ok sample_cached"
    by (simp add: node_ok_def sample_cached_def sample_node_def fresh_node_def key_fits_def keylength_def copystring_def str_def
        shares_of_def numshares_def om_invar_def attr_ok_def name_ok_def nameid2string_def nameid_of_def)
qed (simp_all add: sample_cached_def sample_lookup sample_node_def fresh_node_def header_of_def)

text \<open>
  C31. \<^bold>\<open>Share keys of a node.\<close> \<open>ShareNodeKeys::add\<close> walks from a node to the root and ends; it adds exactly one link for each share at or above
  the node whose key is known (no share twice), made of the index of that share, the index of the node's handle, and the node key encrypted with the
  share key; the collected links stay consistent with the two tables. The node key fits into the buffer of the source, 32 bytes.
\<close>

theorem sharenodekeys_add:
  assumes "tree_ok mc" "nodebyhandle mc h = Some n" "length (n_nodekey n) \<le> 32" "snk_ok ls (length (snk_items s)) s"
  shows "\<exists>s' new hks. snk_add L mc h None False s = Some s' \<and>
    snk_ok (ls @ new) (length (snk_items s')) s' \<and> list_all2 (link_for L (n_nodekey n) s') hks new \<and> distinct (map fst hks) \<and>
    (\<forall>p k. (p, k) \<in> set hks \<longleftrightarrow> under mc p h \<and> (\<exists>m. nodebyhandle mc p = Some m \<and> n_sharekey m = Some k)) \<and>
    snk_items s' = snk_items s @ (if new = [] then [] else [le_bytes 6 (n_handle n)]) \<and>
    (\<forall>(i, j, e) \<in> set new. j = length (snk_items s))"
  by (rule snk_add_shares [OF assms(1,2,4), of L]) blast

theorem sharenodekeys_add_witness:
  "\<exists>s' new hks. snk_add not_aes sample_client 3 None False snk_empty = Some s' \<and>
    snk_ok ([] @ new) (length (snk_items s')) s' \<and> list_all2 (link_for not_aes (n_nodekey (sample_node 3 0 (Some 2) [])) s') hks new \<and> distinct (map fst hks) \<and>
    (\<forall>p k. (p, k) \<in> set hks \<longleftrightarrow> under sample_client p 3 \<and> (\<exists>m. nodebyhandle sample_client p = Some m \<and> n_sharekey m = Some k)) \<and>
    snk_items s' = snk_items snk_empty @ (if new = [] then [] else [le_bytes 6 (n_handle (sample_node 3 0 (Some 2) []))]) \<and>
    (\<forall>(i, j, e) \<in> set new. j = length (snk_items snk_empty))"
proof (rule sharenodekeys_add [OF sample_tree])
  show "snk_ok [] (length (snk_items snk_empty)) snk_empty" using snk_empty_ok by (simp add: snk_empty_def)
qed (simp_all add: sample_lookup sample_node_def fresh_node_def)

section \<open>Timers\<close>

text \<open>
  \<^bold>\<open>The delay stays in range.\<close> Under any sequence of \<open>reset\<close>, \<open>backoff\<close>, \<open>backoff(delta)\<close> with a delta of at most an hour, \<open>arm\<close> and \<open>update\<close>,
  the delay stays between a decisecond and an hour.
\<close>

theorem backoff_range:
  assumes "list_all (\<lambda>(ds, op). bt_op_ok op) ops"
  shows "delta_ok (fold bt_exec ops BackoffTimer)"
  using assms
proof (induction ops rule: rev_induct)
  case (snoc x xs)
  then show ?case using bt_exec_delta_ok [of "snd x" _ "fst x"] by (simp add: case_prod_beta)
qed (simp add: delta_ok_def BackoffTimer_def)

theorem backoff_range_witness: "delta_ok (fold bt_exec [(5, Backoff), (9, BackoffTo 600), (9, Arm)] BackoffTimer)"
  by (rule backoff_range) (simp add: word_le_nat_alt)

section \<open>Commands and their responses\<close>

text \<open>
  C2. \<^bold>\<open>Requests of the API.\<close> A batch of any of the 37 commands, built by their constructors, is sent as one well-formed
  JSON array, an object per command in the order of the queue: the operation code, then exactly the parameters of the call, then at
  most the member with the share keys. The strings that the caller supplies must be free of quotes and backslashes.
\<close>

theorem api_request_text:
  assumes "list_all2 (\<lambda>call c. construct L k mc call = Some (fst c)) calls cs" "list_all call_ok calls" "str_ok False (mc_sessionid mc)"
  shows "\<exists>crs. list_all cr_only crs \<and> length crs = length calls \<and>
    req_get \<lparr>req_cmds = cs\<rparr> = pr (JArr (map2 (call_json L mc) calls crs)) \<and> list_all wf_json (map2 (call_json L mc) calls crs)"
  by (rule batch_text [OF assms])

theorem api_request_text_witness:
  "\<exists>crs. list_all cr_only crs \<and> length crs = length [DelNode 3, UserRequest (str ''a@b'') 1] \<and>
    req_get \<lparr>req_cmds = [(CommandDelNode sample_client 3, Some), (CommandUserRequest sample_client (str ''a@b'') 1, Some)]\<rparr> =
      pr (JArr (map2 (call_json sample_libs sample_client) [DelNode 3, UserRequest (str ''a@b'') 1] crs)) \<and>
    list_all wf_json (map2 (call_json sample_libs sample_client) [DelNode 3, UserRequest (str ''a@b'') 1] crs)"
  by (rule api_request_text [where k = 0]) (simp_all add: call_ok_def sample_client_def str_def)

text \<open>
  C29. \<^bold>\<open>Error codes reach the application.\<close> The handlers of sixteen commands answer a response that is a number: the callback of the command
  gets the number, cut to 32 bits, and the handler stops behind it, so that the batch stays in step.
\<close>

theorem error_codes_reported:
  assumes "(hdl, er) \<in> set (error_reporters L key atof x i h t b d)" "- (2 ^ 63) \<le> n" "n < 2 ^ 63"
  shows "answers hdl (JNum (dec_int n)) [er (to_int n)]"
  by (rule error_reporters_answer [OF assms])

theorem error_codes_reported_witness:
  "answers (CommandSetAttr_procresult 7 :: bytes \<Rightarrow> int reply) (JNum (dec_int (-9))) [setattr_result 7 (-9)]"
  using error_codes_reported [of "CommandSetAttr_procresult 7 :: bytes \<Rightarrow> int reply" "setattr_result 7" sample_libs symm_new "\<lambda>_. 0" 0 0 7 0 "[]" d "-9" for d]
  by (simp add: error_reporters_def to_int_small)

text \<open>
  \<^bold>\<open>Account histories ignore error codes.\<close> The handlers for transactions, purchases and sessions do not look for a number: on an error response
  they clear the list, report success and leave the number unread, so that the next handler of the batch is given it.
\<close>

theorem histories_swallow_errors:
  "CommandGetUserTransactions_procresult atof d (dec_int n @ rest) =
    Some ([account_details (d\<lparr>ad_transactions := []\<rparr>) False False False False True False], dec_int n @ rest) \<and>
   CommandGetUserPurchases_procresult atof d (dec_int n @ rest) =
    Some ([account_details (d\<lparr>ad_purchases := []\<rparr>) False False False True False False], dec_int n @ rest) \<and>
   CommandGetUserSessions_procresult d (dec_int n @ rest) =
    Some ([account_details (d\<lparr>ad_sessions := []\<rparr>) False False False False False True], dec_int n @ rest)"
  using histories_ignore_errors by blast

text \<open>
  \<^bold>\<open>A canceled upload breaks the batch.\<close> The handler of an upload that was canceled does not read the URL of its response: it takes
  the URL for a name and the response of the next command for its value, and stops at the end of the batch.
\<close>

theorem canceled_upload_out_of_step:
  assumes "key_ok t" "getnameid_at t \<noteq> MAKENAMEID ''p''" "wf_json v"
  shows "CommandPutFile_procresult ds None (body (JObj [(str ''p'', JStr t)]) @ ch_comma # pr v @ ch_rbrack # rest) =
    Some ([], None, ch_rbrack # rest)"
  by (rule canceled_putfile [OF assms])

theorem canceled_upload_out_of_step_witness:
  "CommandPutFile_procresult 0 None (body (JObj [(str ''p'', JStr (str ''http''))]) @ ch_comma # pr (JNum (dec_int 0)) @ ch_rbrack # []) =
    Some ([], None, [ch_rbrack])"
proof (rule canceled_upload_out_of_step)
  have g: "getnameid_at (str ''http'') = MAKENAMEID ''http''" by (simp add: getnameid_at_str)
  then show "getnameid_at (str ''http'') \<noteq> MAKENAMEID ''p''" by (simp add: MAKENAMEID_def)
  show "key_ok (str ''http'')" using g by (simp add: key_ok_def MAKENAMEID_def str_def)
qed (simp add: num_ok_dec_int)

section \<open>Sessions\<close>

text \<open>
  \<^bold>\<open>Logging in.\<close> The client holds the password key. The response gives, in the order \<open>csid\<close>, \<open>privk\<close>, \<open>k\<close>, \<open>u\<close> and with any other members around them, the master key
  encrypted with the password key, the private key encrypted with the master key and a session id that this private key decrypts to \<open>sid\<close>. Then the
  login succeeds, and afterwards the client has the master key, the private key, the session id, the authentication string and the user handle.
\<close>

theorem login_succeeds:
  assumes "aes_ok (lib_aes L)" "length M = 16" "16 dvd length pk" "256 \<le> length pk" "length pk \<le> 2052"
    and "asymm_setkey (lib_big L) 4 pk (mc_asymkey mc) = (privk, True)"
    and "32 \<le> length csid" "length csid \<le> 1026" "asymm_decrypt (lib_big L) privk csid SIDLEN = Some (Some sid)" "\<not> ISUNDEF u"
    and "\<forall>m \<in> set ms. key_ok (fst m) \<and> wf_json (snd m)"
    and "members login_cases ms =
      [(str ''csid'', JStr (btoa csid)), (str ''privk'', JStr (btoa (ecb_encrypt (lib_aes L) (symm_setkey M 1 (mc_key mc)) pk))),
       (str ''k'', JStr (btoa (ecb_encrypt (lib_aes L) (mc_key mc) M))), (str ''u'', JStr (btoa (le_bytes 8 u)))]"
    and "length hashjunk = 16"
  shows "answers (CommandLogin_procresult L p q pad hashjunk sidjunk False mc) (JObj ms) ([login_result API_OK], [], logged_in M privk sid u mc)"
  by (rule login_answers [OF assms])

theorem login_succeeds_witness:
  "answers (CommandLogin_procresult sample_libs 7 3 [] (replicate 16 0) [] False sample_client)
     (JObj [(str ''csid'', JStr (btoa login_csid_text)), (str ''x'', JNum (dec_int 1)), (str ''privk'', JStr (btoa (map NOT login_pk))),
       (str ''k'', JStr (btoa (replicate 16 (-6)))), (str ''u'', JStr (btoa (le_bytes 8 (77 :: handle))))])
     ([login_result API_OK], [], logged_in (replicate 16 5) [257, 263, 256 ^ 44, 219] (replicate 42 0 @ [1]) 77 sample_client)"
proof (rule login_succeeds [where pk = login_pk and csid = login_csid_text])
  have names: "getnameid_at (str ''csid'') = MAKENAMEID ''csid''" "getnameid_at (str ''x'') = MAKENAMEID ''x''"
    "getnameid_at (str ''privk'') = MAKENAMEID ''privk''" "getnameid_at (str ''k'') = MAKENAMEID ''k''" "getnameid_at (str ''u'') = MAKENAMEID ''u''"
    by (simp_all add: getnameid_at_str)
  show "\<forall>m \<in> set [(str ''csid'', JStr (btoa login_csid_text)), (str ''x'', JNum (dec_int 1)), (str ''privk'', JStr (btoa (map NOT login_pk))),
       (str ''k'', JStr (btoa (replicate 16 (-6)))), (str ''u'', JStr (btoa (le_bytes 8 (77 :: handle))))]. key_ok (fst m) \<and> wf_json (snd m)"
    using names by (auto simp: key_ok_def MAKENAMEID_def str_ok_btoa num_ok_dec_int str_def)
  show "members login_cases [(str ''csid'', JStr (btoa login_csid_text)), (str ''x'', JNum (dec_int 1)), (str ''privk'', JStr (btoa (map NOT login_pk))),
       (str ''k'', JStr (btoa (replicate 16 (-6)))), (str ''u'', JStr (btoa (le_bytes 8 (77 :: handle))))] =
      [(str ''csid'', JStr (btoa login_csid_text)),
       (str ''privk'', JStr (btoa (ecb_encrypt (lib_aes sample_libs) (symm_setkey (replicate 16 5) 1 (mc_key sample_client)) login_pk))),
       (str ''k'', JStr (btoa (ecb_encrypt (lib_aes sample_libs) (mc_key sample_client) (replicate 16 5)))), (str ''u'', JStr (btoa (le_bytes 8 (77 :: handle))))]"
    by (simp add: members_def names reader_lookup ecb_encrypt_def sample_libs_def not_aes_def map_replicate)
qed (simp_all add: sample_libs_def not_aes_ok login_pk_key login_csid_opens [simplified] sample_client_def ISUNDEF_def, simp_all add: login_pk_def login_csid_text_def)

text \<open>
  C27. \<^bold>\<open>Ephemeral sessions.\<close> The key and the challenge that \<open>createephemeral\<close> uploads are what \<open>resumeephemeral\<close> needs: when the server sends them back (the session
  id is the challenge, eleven bytes of the server's, and the encrypted challenge), the handler restores the master key and reports
  success; the check of the challenge passes.
\<close>

theorem ephemeral_session_resumes:
  assumes "aes_ok (lib_aes L)" "length keybuf = 16" "length pw = 16" "length ssc = 16" "length mid = 11"
    and "length keyjunk = 16" "length sidjunk = SIDLEN"
    and "createephemeral L keybuf pw ssc mc = (mc1, CreateEphemeralSession k ts)"
    and "\<forall>m \<in> set ms. key_ok (fst m) \<and> wf_json (snd m)"
    and "members resume_cases ms = [(str ''k'', JStr (btoa k)), (str ''tsid'', JStr (btoa sid))]" "sid = take 16 ts @ mid @ drop 16 ts"
  shows "answers (CommandResumeEphemeralSession_procresult L uh pw keyjunk sidjunk mc2) (JObj ms)
    (ephemeral_result uh pw, (set_masterkey keybuf (set_masterkey pw (setsid sid mc2)))\<lparr>mc_me := uh\<rparr>)"
  by (rule ephemeral_answers [OF assms])

theorem ephemeral_session_resumes_witness:
  "answers (CommandResumeEphemeralSession_procresult sample_libs 77 (replicate 16 2) (replicate 16 0) (replicate SIDLEN 0) sample_client)
     (JObj [(str ''k'', JStr (btoa (replicate 16 (-2)))), (str ''tsid'', JStr (btoa (replicate 16 3 @ replicate 11 4 @ replicate 16 (-4))))])
     (ephemeral_result 77 (replicate 16 2),
      (set_masterkey (replicate 16 1) (set_masterkey (replicate 16 2) (setsid (replicate 16 3 @ replicate 11 4 @ replicate 16 (-4)) sample_client)))\<lparr>mc_me := 77\<rparr>)"
proof (rule ephemeral_session_resumes [where mid = "replicate 11 4" and ssc = "replicate 16 3" and mc = sample_client])
  have names: "getnameid_at (str ''k'') = MAKENAMEID ''k''" "getnameid_at (str ''tsid'') = MAKENAMEID ''tsid''"
    by (simp_all add: getnameid_at_str)
  show "\<forall>m \<in> set [(str ''k'', JStr (btoa (replicate 16 (-2)))), (str ''tsid'', JStr (btoa (replicate 16 3 @ replicate 11 4 @ replicate 16 (-4))))].
      key_ok (fst m) \<and> wf_json (snd m)"
    using names by (auto simp: key_ok_def MAKENAMEID_def str_ok_btoa str_def)
  show "members resume_cases [(str ''k'', JStr (btoa (replicate 16 (-2)))), (str ''tsid'', JStr (btoa (replicate 16 3 @ replicate 11 4 @ replicate 16 (-4))))] =
      [(str ''k'', JStr (btoa (replicate 16 (-2)))), (str ''tsid'', JStr (btoa (replicate 16 3 @ replicate 11 4 @ replicate 16 (-4))))]"
    by (simp add: members_def names reader_lookup)
  show "createephemeral sample_libs (replicate 16 1) (replicate 16 2) (replicate 16 3) sample_client =
      (fst (createephemeral sample_libs (replicate 16 1) (replicate 16 2) (replicate 16 3) sample_client),
       CreateEphemeralSession (replicate 16 (-2)) (replicate 16 3 @ replicate 16 (-4)))"
    by (simp add: createephemeral_def Let_def ecb_encrypt_def sample_libs_def not_aes_def map_replicate)
qed (simp_all add: sample_libs_def not_aes_ok)

text \<open>
  \<^bold>\<open>Dumped sessions.\<close> What \<open>dumpsession\<close> returns, entered into \<open>login\<close> on any client, restores the master key, the session id and
  the authentication string, and queues the login command that validates the session.
\<close>

theorem session_dump_roundtrip:
  assumes "dumpsession L mc n = Inr session" "length (mc_sid mc) = SIDLEN" "length (sk_key (mc_key mc)) = 16"
    and "login_session session cached mc0 = (mc1, evs, calls)"
  shows "sk_key (mc_key mc1) = sk_key (mc_key mc) \<and> mc_sid mc1 = mc_sid mc \<and> mc_auth mc1 = str ''&sid='' @ btoa (mc_sid mc) \<and>
    calls = [Login None UNDEF] \<and> evs = []"
  using session_restored [OF assms] by blast

theorem session_dump_roundtrip_witness:
  "sk_key (mc_key (fst (login_session (replicate 16 0 @ replicate SIDLEN 9) None sample_client))) = replicate 16 0"
proof -
  let ?mc = "sample_client\<lparr>mc_sid := replicate SIDLEN 9, mc_asymkey := [7, 3, 5, 1]\<rparr>"
  have "dumpsession sample_libs ?mc 100 = Inr (replicate 16 0 @ replicate SIDLEN 9)"
    by (simp add: dumpsession_def loggedin_def sample_client_def no_users_def finduser_handle_def symm_new_def ISUNDEF_def UNDEF_def)
  moreover obtain mc1 evs calls where r: "login_session (replicate 16 0 @ replicate SIDLEN 9) None sample_client = (mc1, evs, calls)"
    by (metis prod_cases3)
  ultimately show ?thesis
    using session_dump_roundtrip [of sample_libs ?mc 100 "replicate 16 0 @ replicate SIDLEN 9" None sample_client mc1 evs calls]
    by (simp add: sample_client_def symm_new_def)
qed

section \<open>Rights and shares\<close>

text \<open>
  C22. \<^bold>\<open>Permitted moves.\<close> In a proper tree without inbound shares below the moved node, \<open>checkmove\<close> permits exactly the moves of the specification: the user is logged in,
  the node has a parent with full access, the target is a folder with write access and not below the node, and either both nodes lie in own trees or the
  innermost inbound shares around them are of the same user. The specification is stated without the walks of the code: a node is in an own tree when no node at or
  above it is an inbound share; access is that of the innermost inbound share at or above the node, or full below a root of the account.
\<close>

theorem checkmove_refines:
  assumes "tree_ok mc" "\<not> inshares_below mc f"
  shows "checkmove L mc f t = Some API_OK \<longleftrightarrow> may_move L mc f t \<and> \<not> under mc f t"
  by (rule checkmove_spec [OF assms])

theorem checkmove_refines_witness:
  "checkmove sample_libs sample_client 3 1 = Some API_OK \<longleftrightarrow> may_move sample_libs sample_client 3 1 \<and> \<not> under sample_client 3 1"
  by (rule checkmove_refines [OF sample_tree]) (auto simp: inshares_below_def shared_by_def sample_lookup sample_node_def fresh_node_def split: if_splits)

text \<open>
  C10. \<^bold>\<open>Moving keeps the tree.\<close> In a proper tree whose own trees contain no inbound shares, \<open>rename\<close> of a node that has no inbound share below it returns (with any
  fuel from twice the height of the tree on; with an inbound share below the node it may hang, as shown below). A permitted move hangs the node below the target, queues the command unless the node was there
  already, and reports success; any other leaves the client as it is and reports an error. In both cases the nodes stay a proper tree, and no node of the
  account's own trees is an inbound share.
\<close>

theorem rename_keeps_tree:
  assumes "links_ok mc" "ranked rk d mc" "2 * d + 1 \<le> k" "own_clean mc"
    and "nodebyhandle mc h \<noteq> None" "nodebyhandle mc p \<noteq> None" "\<not> inshares_below mc h"
  shows "\<exists>e cs mc'. rename L k h p mc = Some (e, cs, mc') \<and> tree_ok mc' \<and> own_clean mc' \<and>
    (if may_move L mc h p \<and> \<not> under mc h p
     then e = API_OK \<and> cs = (if map_option n_parent (nodebyhandle mc h) = Some (Some p) then [] else [MoveNode h p]) \<and>
       map_option n_parent (nodebyhandle mc' h) = Some (Some p) else e \<noteq> API_OK \<and> cs = [] \<and> mc' = mc)"
  by (rule rename_spec [OF assms])

theorem rename_keeps_tree_witness:
  "\<exists>e cs mc'. rename sample_libs 9 3 1 sample_client = Some (e, cs, mc') \<and> tree_ok mc' \<and> own_clean mc' \<and>
    (if may_move sample_libs sample_client 3 1 \<and> \<not> under sample_client 3 1
     then e = API_OK \<and> cs = (if map_option n_parent (nodebyhandle sample_client 3) = Some (Some 1) then [] else [MoveNode 3 1]) \<and>
       map_option n_parent (nodebyhandle mc' 3) = Some (Some 1) else e \<noteq> API_OK \<and> cs = [] \<and> mc' = sample_client)"
  by (rule rename_keeps_tree [OF sample_links sample_ranked])
    (auto simp: own_clean_def inshares_below_def shared_by_def sample_lookup sample_node_def fresh_node_def split: if_splits)

text \<open>
  C23. \<^bold>\<open>A circular move that is not noticed.\<close> The search for circles stops at an inbound share. Take any move of a folder to a target below itself that the rights permit, with an inbound share
  below the folder and at or above the target. If no node between the two is synchronized, then \<open>checkmove\<close> permits the move, the search for a synchronized parent in \<open>setparent\<close>, on
  the links it has just changed, runs around the circle for ever, and \<open>rename\<close> does not return, whatever the fuel.
\<close>

theorem circular_move_hangs:
  assumes "tree_ok mc" "may_move L mc f p" "under mc f x" "x \<noteq> f" "shared_by mc x sh" "under mc x p"
    and "\<forall>y n. under mc f y \<longrightarrow> under mc y p \<longrightarrow> nodebyhandle mc y = Some n \<longrightarrow> n_local n = None"
  shows "checkmove L mc f p = Some API_OK \<and> (\<exists>n. nodebyhandle mc f = Some n \<and> synced_above (relink p f n mc) (Some p) = None) \<and>
    rename L k f p mc = None"
  using circular_move [OF assms(1-6)] assms(7) by blast

theorem circular_move_hangs_witness:
  "checkmove sample_libs nested_client 2 3 = Some API_OK \<and>
    (\<exists>n. nodebyhandle nested_client 2 = Some n \<and> synced_above (relink 3 2 n nested_client) (Some 3) = None) \<and>
    rename sample_libs 9 2 3 nested_client = None"
proof (rule circular_move_hangs [OF nested_tree nested_may_move])
  show "shared_by nested_client 3 (Share (Some 9) 2 0)" by (simp add: nested_shared)
  show "\<forall>y n. under nested_client 2 y \<longrightarrow> under nested_client y 3 \<longrightarrow> nodebyhandle nested_client y = Some n \<longrightarrow> n_local n = None"
    by (auto simp: nested_lookup sample_node_simps)
qed (simp_all add: nested_below)

text \<open>
  C28. \<^bold>\<open>Deleting.\<close> \<open>unlink\<close> always returns. Without full access it changes nothing; otherwise it queues the command and marks every
  node of the subtree as removed, and the nodes keep their places.
\<close>

theorem unlink_marks_subtree:
  assumes "links_ok mc" "ranked rk d mc" "d \<le> k" "own_clean mc" "nodebyhandle mc h \<noteq> None"
  shows "\<exists>b mc'. checkaccess L mc h FULL = Some b \<and>
    unlink L k junk h mc = Some (if b then (API_OK, [DelNode h], mc') else (API_EACCESS, [], mc)) \<and> same_tree mc mc' \<and>
    (\<forall>x n'. under mc h x \<longrightarrow> nodebyhandle mc' x = Some n' \<longrightarrow> n_removed n')"
  using unlink_spec [OF assms, of L junk] merge_to_tree by blast

theorem unlink_marks_subtree_witness:
  "\<exists>b mc'. checkaccess sample_libs sample_client 2 FULL = Some b \<and>
    unlink sample_libs 4 [] 2 sample_client = Some (if b then (API_OK, [DelNode 2], mc') else (API_EACCESS, [], sample_client)) \<and>
    same_tree sample_client mc' \<and> (\<forall>x n'. under sample_client 2 x \<longrightarrow> nodebyhandle mc' x = Some n' \<longrightarrow> n_removed n')"
  by (rule unlink_marks_subtree [OF sample_links sample_ranked])
    (auto simp: own_clean_def sample_lookup sample_node_def fresh_node_def split: if_splits)

text \<open>
  C8. \<^bold>\<open>New shares are merged safely.\<close> \<open>mergenewshares\<close> always returns, keeps the tree and empties the queue. A node has a share key afterwards only if it had it before
  or a queued share for this node brought it; for an outbound share from the server only with the authentication token that the master key
  gives for this node. Nodes of the account's own trees never become inbound shares.
\<close>

theorem mergenewshares_safe:
  assumes "links_ok mc" "ranked rk d mc" "d \<le> k" "own_clean mc"
  shows "\<exists>mc'. mergenewshares L k noti junk mc = Some mc' \<and> mc_newshares mc' = [] \<and> tree_ok mc' \<and> same_tree mc mc' \<and> own_clean mc' \<and>
    (\<forall>h n n' key. nodebyhandle mc h = Some n \<and> nodebyhandle mc' h = Some n' \<and> n_sharekey n' = Some key \<longrightarrow>
       n_sharekey n = Some key \<or> vouched L (mc_key mc) junk (mc_newshares mc) h key)"
  using mergenewshares_summary [OF assms] .

theorem mergenewshares_safe_witness:
  "\<exists>mc'. mergenewshares sample_libs 4 True [] (sample_client\<lparr>mc_newshares := [forged_share]\<rparr>) = Some mc' \<and> mc_newshares mc' = [] \<and>
    tree_ok mc' \<and> same_tree (sample_client\<lparr>mc_newshares := [forged_share]\<rparr>) mc' \<and> own_clean mc' \<and>
    (\<forall>h n n' key. nodebyhandle (sample_client\<lparr>mc_newshares := [forged_share]\<rparr>) h = Some n \<and> nodebyhandle mc' h = Some n' \<and> n_sharekey n' = Some key \<longrightarrow>
       n_sharekey n = Some key \<or>
       vouched sample_libs (mc_key (sample_client\<lparr>mc_newshares := [forged_share]\<rparr>)) [] (mc_newshares (sample_client\<lparr>mc_newshares := [forged_share]\<rparr>)) h key)"
proof (rule mergenewshares_safe)
  have nb: "nodebyhandle (sample_client\<lparr>mc_newshares := [forged_share]\<rparr>) = nodebyhandle sample_client" by (simp add: nodebyhandle_def fun_eq_iff)
  show "links_ok (sample_client\<lparr>mc_newshares := [forged_share]\<rparr>)" "ranked unat 4 (sample_client\<lparr>mc_newshares := [forged_share]\<rparr>)"
    using sample_links sample_ranked by (simp_all add: links_ok_def ranked_def nb)
  show "own_clean (sample_client\<lparr>mc_newshares := [forged_share]\<rparr>)"
    by (auto simp: own_clean_def nb sample_lookup sample_node_def fresh_node_def split: if_splits)
qed simp

section \<open>Nodes and packets of the server\<close>

text \<open>
  C3. \<^bold>\<open>Reading nodes in any order.\<close> The table of nodes refines two functions: the data of each handle and the parent of each handle. When the
  server sends a list of new nodes that form a forest together with the nodes that are there (in any order: children may come before their parents),
  \<open>readnodes\<close> returns, consumes exactly the list, keeps the links well-formed, stores the data of every node of the list (handle, type, parent, encrypted
  attributes and key, file attributes, size, owner and both times; \<open>tmd\<close> is the difference of the times), leaves the other nodes alone, and every new node whose parent is known after the list hangs below this parent.
\<close>

theorem readnodes_any_order:
  assumes "repr rk d (rn_mc s) D P" "forest rk d D xs" "d \<le> k"
  shows "\<exists>s' Q. readnodes L k now fpjunk skjunk noti None tag s (pr (JArr (map node_json xs)) @ rest) = Some (True, s', rest) \<and>
    repr rk d (rn_mc s') (entered D xs) Q \<and> (\<forall>h. h \<notin> nd_h ` set xs \<longrightarrow> Q h = P h) \<and>
    (\<forall>x \<in> set xs. Q (nd_h x) = (if entered D xs (nd_ph x) = None then None else Some (nd_ph x)))"
  by (rule readnodes_forest [OF assms])

theorem readnodes_any_order_witness:
  "\<exists>s' Q. readnodes sample_libs 8 0 [] [] True None 0 (reading_state sample_client) (pr (JArr (map node_json two_nodes)) @ []) = Some (True, s', []) \<and>
    repr unat 8 (rn_mc s') (entered (table_data sample_client) two_nodes) Q \<and> Q 6 = Some 5 \<and> Q 5 = Some 1"
proof -
  from readnodes_any_order [OF sample_repr two_nodes_forest, of 8 sample_libs 0 "[]" "[]" True 0 "[]"] obtain s' Q where
    s': "readnodes sample_libs 8 0 [] [] True None 0 (reading_state sample_client) (pr (JArr (map node_json two_nodes)) @ []) = Some (True, s', [])"
    "repr unat 8 (rn_mc s') (entered (table_data sample_client) two_nodes) Q"
    "\<forall>x \<in> set two_nodes. Q (nd_h x) = (if entered (table_data sample_client) two_nodes (nd_ph x) = None then None else Some (nd_ph x))"
    by (auto simp only: order_refl)
  then have "Q 6 = Some 5" "Q 5 = Some 1" using two_nodes_in by (force simp: two_nodes_entered)+
  then show ?thesis using s'(1,2) by blast
qed

text \<open>
  C4. \<^bold>\<open>Packets keep the tree.\<close> Whatever the text of a packet is, if it is not an addition of nodes (\<open>t\<close>) and its handler
  returns, then the table of nodes is still well-formed and every node has the type, the parent and the children that it had: a server (or someone who writes
  on its behalf) can mark, rename, share or rekey nodes with such packets, but the handler moves or loses none (nodes that it marks as deleted leave the table
  later, in \<open>notifypurge\<close>).
\<close>

theorem packets_keep_tree:
  assumes "sc_action E name s p = Some (s', p')" "name \<noteq> MAKENAMEID ''t''" "tree_ok (sc_mc s)"
  shows "tree_ok (sc_mc s') \<and> same_tree (sc_mc s) (sc_mc s')"
  using sc_action_keeps [OF assms] keeps_tree [OF _ assms(3)] by (simp add: keeps_def)

theorem packets_keep_tree_witness:
  "\<exists>s'. sc_action sample_env (MAKENAMEID ''s'') (packet_state full_client) (body (JObj (key_members 2 (replicate 16 7)))) = Some (s', str ''}'') \<and>
    tree_ok (sc_mc s') \<and> same_tree full_client (sc_mc s')"
proof -
  obtain s' where s': "sc_action sample_env (MAKENAMEID ''s'') (packet_state full_client) (body (JObj (key_members 2 (replicate 16 7)))) = Some (s', str ''}'')"
    using planted_runs by blast
  show ?thesis using packets_keep_tree [OF s'] s' full_tree by (simp add: MAKENAMEID_def)
qed

text \<open>
  C5. \<^bold>\<open>Keys are handed out for own shares only.\<close> Whatever shares, nodes and selector text a request of the server names, \<open>cr_response\<close>
  queues at most one command, and every key in it is encrypted with the key of an outbound share of this account, for a node that lies in that
  share; without a selector it is the key of that node, and the client is not changed. With a selector, keys of nodes may change, but shares, share keys and the shape of
  the tree do not.
\<close>

theorem keys_for_own_shares:
  assumes "cr_response L junk shares nodes sel s = Some (s', p)" "tree_ok (kr_mc s)"
  shows "same_shares (kr_mc s) (kr_mc s') \<and> (sel = None \<longrightarrow> kr_mc s' = kr_mc s) \<and>
    (kr_calls s' = kr_calls s \<or>
      (\<exists>rs rn ls. kr_calls s' = kr_calls s @ [KeyCR rs rn (concat (map link_json ls))] \<and> list_all (link_ok L (sel = None) (kr_mc s) rs rn) ls))"
  using cr_response_links [OF assms] by blast

theorem keys_for_own_shares_witness:
  "\<exists>s' rs rn ls. cr_response sample_libs [] [Some 1, Some 3] [Some 3, Some 2] None (requests sample_client) = Some (s', []) \<and> kr_calls s' \<noteq> [] \<and>
    kr_calls s' = [KeyCR rs rn (concat (map link_json ls))] \<and> list_all (link_ok sample_libs True sample_client rs rn) ls"
proof -
  obtain s' where s': "cr_response sample_libs [] [Some 1, Some 3] [Some 3, Some 2] None (requests sample_client) = Some (s', [])" "kr_calls s' \<noteq> []"
    using sample_response by blast
  show ?thesis using keys_for_own_shares [OF s'(1)] s' sample_tree by auto
qed

text \<open>
  C15. \<^bold>\<open>The first pair is never answered.\<close> A request of keys without a selector is meant to be answered for all pairs of a share and a node.
  \<open>cr_response\<close> advances the node index before it handles a pair: it handles all pairs in the order of the loops except the first. So the
  request of one key, the most common one, is not answered at all, and a request of two or more nodes without any valid share reads beyond the end of the vector of shares
  (no result).
\<close>

theorem keys_without_first_pair:
  "cr_response L junk (sh # shares) (h # nodes) None s =
     map_option (\<lambda>st. (cr_done st s, []))
       (cr_run L (tl (List.product (map (cr_own (kr_mc s)) (sh # shares)) (h # nodes))) (cr_start junk (kr_mc s))) \<and>
   cr_response L junk [sh] [h] None s = Some (s, []) \<and>
   cr_response L junk [] (h # h2 # nodes) None s = None"
  using cr_response_pairs [of "sh # shares" "h # nodes" L junk s] cr_response_single cr_response_no_share by simp

text \<open>
  C6. \<^bold>\<open>Deletion packets.\<close> The text of a server message that deletes a node (the action \<open>d\<close> and the next sequence number) is consumed exactly; the client takes
  the sequence number, marks precisely the nodes below the named one as removed, and keeps the tree.
\<close>

theorem deletion_packet:
  assumes "links_ok (sc_mc s)" "ranked rk d (sc_mc s)" "d \<le> env_k E" "take_bit 48 h = h" "nodebyhandle (sc_mc s) h \<noteq> None"
    and "mc_newshares (sc_mc s) = []" "length sn = 8"
  shows "\<exists>s'. procsc E s (pr (sc_json [delete_packet h] sn) @ rest) = Some (s', ch_rbrace # rest) \<and> sc_scsn s' = btoa sn \<and>
    same_tree (sc_mc s) (sc_mc s') \<and>
    (\<forall>x n. nodebyhandle (sc_mc s) x = Some n \<longrightarrow> (\<exists>n'. nodebyhandle (sc_mc s') x = Some n' \<and> n_removed n' = (n_removed n \<or> under (sc_mc s) h x)))"
  by (rule procsc_delete [OF assms])

theorem deletion_packet_witness:
  "\<exists>s' n'. procsc sample_env (packet_state sample_client) (pr (sc_json [delete_packet 2] [1, 2, 3, 4, 5, 6, 7, 8])) = Some (s', str ''}'') \<and>
    nodebyhandle (sc_mc s') 3 = Some n' \<and> n_removed n'"
proof -
  have "under sample_client 2 3" by (rule under.up [OF _ _ under.here]) (auto simp: sample_lookup sample_node_simps)
  moreover obtain s' where "procsc sample_env (packet_state sample_client) (pr (sc_json [delete_packet 2] [1, 2, 3, 4, 5, 6, 7, 8]) @ []) = Some (s', [ch_rbrace])"
    "\<forall>x n. nodebyhandle sample_client x = Some n \<longrightarrow> (\<exists>n'. nodebyhandle (sc_mc s') x = Some n' \<and> n_removed n' = (n_removed n \<or> under sample_client 2 x))"
    using deletion_packet [of "packet_state sample_client" unat 4 sample_env 2 "[1, 2, 3, 4, 5, 6, 7, 8]" "[]"] sample_links sample_ranked
    by (auto simp: sample_env_def sample_lookup sample_newshares)
  moreover have "nodebyhandle sample_client 3 \<noteq> None" by (simp add: sample_lookup)
  ultimately show ?thesis by (fastforce simp: str_def)
qed

text \<open>
  C13. \<^bold>\<open>Own changes are not applied twice.\<close> A list of packets, each of any known kind and with any members, that carry the identifier of this session is
  consumed exactly and changes nothing.
\<close>

theorem own_packets_skipped:
  assumes "list_all (\<lambda>(name, ms). name \<in> names \<and> list_all (\<lambda>(k, v). str_ok False k \<and> wf_json v) ms) xs" "str_ok False (mc_sessionid (sc_mc s))"
  shows "sc_packets E s (pr (JArr (map (own_packet (sc_mc s)) xs)) @ rest) = Some (s, rest)"
  by (rule own_packets_ignored [OF assms])

theorem own_packets_skipped_witness:
  "sc_packets sample_env (packet_state sample_client) (pr (JArr (map (own_packet sample_client) [(''d'', [(str ''n'', handle_json 6 2)]), (''u'', [])])) @ []) =
     Some (packet_state sample_client, [])"
  using own_packets_skipped [of "[(''d'', [(str ''n'', handle_json 6 2)]), (''u'', [])]" "packet_state sample_client" sample_env "[]"]
  by (simp add: names_def handle_json_def str_ok_btoa packet_state_def requests_def sample_client_def str_def del: pr.simps)

text \<open>
  \<^bold>\<open>Share keys without authentication.\<close> In a full account without queued shares, a share packet that names a node and a key, but neither owner nor user, is taken as a key of an inbound share
  without a check that the node belongs to one: any node without a share key gets the key of the packet.
\<close>

theorem share_key_unauthenticated:
  assumes "take_bit 48 h = h" "nodebyhandle (sc_mc s) h = Some n" "n_sharekey n = None" "length c = 16"
    and "loggedin (env_L E) (sc_mc s) = FULLACCOUNT" "mc_newshares (sc_mc s) = []"
  shows "sc_action E (MAKENAMEID ''s'') s (body (JObj (key_members h c)) @ rest) =
    Some (sc_put (upd_node h (\<lambda>n. n\<lparr>n_sharekey := Some (symm_setkey (take 16 (ecb_decrypt (lib_aes (env_L E)) (mc_key (sc_mc s)) c)) 1 symm_new)\<rparr>) (sc_mc s)) s, ch_rbrace # rest)"
  by (rule share_key_planted [OF assms])

theorem share_key_unauthenticated_witness:
  "\<exists>s'. sc_action sample_env (MAKENAMEID ''s'') (packet_state full_client) (body (JObj (key_members 2 (replicate 16 7))) @ []) = Some (s', str ''}'') \<and>
    (\<exists>n. nodebyhandle (sc_mc s') 2 = Some n \<and> n_sharekey n \<noteq> None \<and> n_inshare n = None)"
  using share_key_unauthenticated [of 2 "packet_state full_client" "sample_node 2 1 (Some 1) [3]" "replicate 16 7" sample_env "[]"] full_loggedin
  by (simp add: full_lookup sample_lookup sample_env_def str_def sample_node_def fresh_node_def sc_put_def upd_node_lookup full_newshares del: body.simps)

text \<open>
  C16. \<^bold>\<open>A key for an unknown node replaces another key.\<close> The selector of a request may deliver keys. A key that is
  delivered for a node that the client does not know stays in the buffer of \<open>cr_response\<close>: the node of the next pair, whose key the server asks for, gets
  it as its own key, and nothing is sent.
\<close>

theorem stray_key_replaces:
  assumes "tree_ok (kr_mc s)" "own_share (kr_mc s) sh k" "under (kr_mc s) sh h" "nodebyhandle (kr_mc s) h = Some n"
    and "length c = length (n_nodekey n)" "length c = keylength (n_type n)" "aes_ok (lib_aes L)" "cur rest \<noteq> ch_quote"
  shows "\<exists>s' n'. cr_response L junk [Some sh] [None, Some h] (Some (stray_selector c @ ch_rbrack # rest)) s = Some (s', ch_rbrack # rest) \<and>
    kr_calls s' = kr_calls s \<and> nodebyhandle (kr_mc s') h = Some n' \<and> n_nodekey n' = ecb_decrypt (lib_aes L) k c"
  by (rule stray_key_taken [OF assms])

theorem stray_key_replaces_witness:
  "\<exists>s' n'. cr_response sample_libs [] [Some 1] [None, Some 2] (Some (stray_selector (replicate 16 5) @ ch_rbrack # [])) (requests keyed_client) = Some (s', [ch_rbrack]) \<and>
    nodebyhandle (kr_mc s') 2 = Some n' \<and> n_nodekey n' = replicate 16 250"
proof -
  have "\<exists>s' n'. cr_response sample_libs [] [Some 1] [None, Some 2] (Some (stray_selector (replicate 16 5) @ ch_rbrack # [])) (requests keyed_client) = Some (s', [ch_rbrack]) \<and>
    kr_calls s' = kr_calls (requests keyed_client) \<and> nodebyhandle (kr_mc s') 2 = Some n' \<and> n_nodekey n' = ecb_decrypt (lib_aes sample_libs) symm_new (replicate 16 5)"
    by (rule stray_key_replaces [where n = keyed_node])
      (use keyed_tree keyed_under in \<open>simp_all add: own_share_def keyed_lookup sample_lookup keyed_node_simps sample_node_def fresh_node_def sample_libs_def not_aes_ok keylength_def\<close>)
  then show ?thesis by (auto simp: sample_libs_def not_aes_def ecb_decrypt_def)
qed

text \<open>
  C12. \<^bold>\<open>A share without the user's key becomes public.\<close> Actions that wait for the public key of a user are satisfied with no user when the key
  cannot be had (the API answers with an error code). For the creation of a share, no user means a public link: every share that was waiting for this
  user is requested as an export (\<open>EXP\<close>), with the access level that was meant for the user.
\<close>

theorem missing_key_exports:
  assumes "creates (kr_mc s) (kr_pkrs s i)" "\<not> is_num_tail (cur rest)"
  shows "\<exists>s' cs. CommandPubKeyRequest_procresult L rnd i tag s (dec_int e @ rest) = Some (s', dec_int e @ rest) \<and>
    kr_pkrs s' i = [] \<and> kr_calls s' = kr_calls s @ cs \<and>
    list_all2 (\<lambda>a c. \<exists>h acc t pad new. a = PkaCreateShare h acc t \<and> c = SetShare pad h None acc new) (kr_pkrs s i) cs"
  by (rule pubkey_missing [OF assms])

theorem missing_key_exports_witness:
  "\<exists>s' pad new. CommandPubKeyRequest_procresult sample_libs (\<lambda>_ _. []) 1 0 (waiting [PkaCreateShare 2 0 7]) (dec_int (-9) @ str '']'') = Some (s', dec_int (-9) @ str '']'') \<and>
    kr_calls s' = [SetShare pad 2 None 0 new]"
proof -
  have "kr_pkrs (waiting [PkaCreateShare 2 0 7]) 1 = [PkaCreateShare 2 0 7]" "kr_calls (waiting [PkaCreateShare 2 0 7]) = []" by (simp_all add: waiting_def)
  then show ?thesis
    using missing_key_exports [of "waiting [PkaCreateShare 2 0 7]" 1 "str '']''" sample_libs "\<lambda>_ _. []" 0 "-9"] waiting_creates
    by (auto simp: str_def is_num_tail_def is_digit_def list_all2_Cons1)
qed

text \<open>
  C11. \<^bold>\<open>A public key releases the actions.\<close> When the API answers the request of a public key with the encoding of a modulus and an exponent, these numbers are stored as the public key in the
  record of the user, and the user is notified. Every creation of a share that waited for the key is requested for this user, as it is now stored, in the order of the queue, and the queue is empty.
  The encoding fits the buffer of the handler, all waiting actions are creations of shares, and their nodes exist.
\<close>

theorem key_releases_actions:
  assumes "bigint_ok (lib_big L)" "bitCount (lib_big L) N < 65536" "bitCount (lib_big L) E < 65536"
    and "key = serializeintarray (lib_big L) [N, E] []" "length key \<le> 1026" "creates (kr_mc s) (kr_pkrs s i)"
  shows "\<exists>s' cs. CommandPubKeyRequest_procresult L rnd i tag s (body (pubk_json uh key) @ rest) = Some (s', ch_rbrace # rest) \<and>
    u_pubk (kr_user s' i) = [N, E] @ drop 2 (u_pubk (kr_user s i)) \<and> i \<in> set (mc_usernotify (kr_mc s')) \<and>
    kr_pkrs s' i = [] \<and> kr_calls s' = kr_calls s @ cs \<and>
    list_all2 (\<lambda>a c. \<exists>h acc t pad new. a = PkaCreateShare h acc t \<and> c = SetShare pad h (Some (kr_user s' i)) acc new) (kr_pkrs s i) cs"
  by (rule pubkey_release [OF assms])

theorem key_releases_actions_witness:
  "\<exists>s' pad u new. CommandPubKeyRequest_procresult sample_libs (\<lambda>_ _. []) 1 0 (waiting [PkaCreateShare 2 0 7]) (body (pubk_json 77 pubk_text)) = Some (s', str ''}'') \<and>
    take 2 (u_pubk (kr_user s' 1)) = [67591, 17] \<and> kr_pkrs s' 1 = [] \<and> kr_calls s' = [SetShare pad 2 (Some u) 0 new] \<and> take 2 (u_pubk u) = [67591, 17]"
proof -
  let ?s = "waiting [PkaCreateShare 2 0 7]"
  have s: "kr_pkrs ?s 1 = [PkaCreateShare 2 0 7]" "kr_calls ?s = []" by (simp_all add: waiting_def)
  have L: "bigint_ok (lib_big sample_libs)" "length pubk_text \<le> 1026" by (simp_all add: sample_libs_def nat_bigint_ok pubk_text_def)
  have c: "creates (kr_mc ?s) (kr_pkrs ?s 1)" using waiting_creates s(1) by simp
  from key_releases_actions [OF L(1) pubk_bits pubk_text_ints L(2) c, of "\<lambda>_ _. []" 0 77 "[]"] obtain s' cs where
    s': "CommandPubKeyRequest_procresult sample_libs (\<lambda>_ _. []) 1 0 ?s (body (pubk_json 77 pubk_text) @ []) = Some (s', ch_rbrace # [])"
      "u_pubk (kr_user s' 1) = [67591, 17] @ drop 2 (u_pubk (kr_user ?s 1))" "kr_pkrs s' 1 = []" "kr_calls s' = kr_calls ?s @ cs"
      "list_all2 (\<lambda>a c. \<exists>h acc t pad new. a = PkaCreateShare h acc t \<and> c = SetShare pad h (Some (kr_user s' 1)) acc new) (kr_pkrs ?s 1) cs" by blast
  from s'(5) obtain pad new where "cs = [SetShare pad 2 (Some (kr_user s' 1)) 0 new]" unfolding s(1) by (auto simp: list_all2_Cons1)
  then show ?thesis using s'(1-4) s(2) by (intro exI [of _ s'] exI [of _ pad] exI [of _ "kr_user s' 1"] exI [of _ new]) (simp add: str_def del: body.simps)
qed

text \<open>
  C17. \<^bold>\<open>Results behind the users of a share are lost.\<close> The reply to \<open>CommandSetShare\<close> lists users and their addresses (\<open>u\<close>) and then a result per
  user (\<open>r\<close>). The handler never leaves the array of users: it takes the closing bracket for the end of the reply, reports success
  and stops there. The results are not read, whatever they are.
\<close>

theorem share_results_lost:
  assumes "list_all (\<lambda>x. text_ok (snd x)) us"
  shows "\<exists>s'. CommandSetShare_procresult L junk pad tag sh user a s (body (JObj [(str ''u'', JArr (map usermail_json us)), (str ''r'', JArr rs)]) @ rest) =
      Some (s', ch_rbrack # ch_comma # pr_member (str ''r'', JArr rs) @ ch_rbrace # rest) \<and>
    kr_events s' = kr_events s @ [share_result API_OK] \<and> kr_calls s' = kr_calls s"
proof -
  define q where "q = ch_comma # pr_member (str ''r'', JArr rs) @ ch_rbrace # rest"
  have t: "body (JObj [(str ''u'', JArr (map usermail_json us)), (str ''r'', JArr rs)]) @ rest = pr_member (str ''u'', JArr (map usermail_json us)) @ q"
    by (simp add: q_def)
  obtain s1 where s1: "userresults s (sep (map pr (map usermail_json us)) @ ch_rbrack # q) = Some (s1, ch_rbrack # q)"
    "kr_events s1 = kr_events s" "kr_calls s1 = kr_calls s" using userresults_users [OF assms, of s q] by blast
  show ?thesis unfolding t using setshare_users [OF s1(1)] s1 by (simp add: kr_event_def q_def)
qed

theorem share_results_lost_witness:
  "\<exists>s'. CommandSetShare_procresult sample_libs [] [] 0 2 None 0 (requests sample_client)
      (body (JObj [(str ''u'', JArr (map usermail_json [(9, str ''a@b'')])), (str ''r'', JArr [JNum (str ''-9'')])]) @ []) =
    Some (s', ch_rbrack # ch_comma # pr_member (str ''r'', JArr [JNum (str ''-9'')]) @ [ch_rbrace]) \<and> kr_events s' = [share_result API_OK]"
  using share_results_lost [of "[(9, str ''a@b'')]" sample_libs "[]" "[]" 0 2 None 0 "requests sample_client" "[JNum (str ''-9'')]" "[]"]
  by (auto simp: text_ok_def str_def requests_def simp del: body.simps pr.simps)
section \<open>Transfers\<close>







text \<open>
  C33. \<^bold>\<open>Resumed downloads do not complete.\<close> When \<open>dispatch\<close> starts a download again that has kept the MAC of its first chunk, the position is set behind this chunk, but the new slot counts
  the completed bytes from 0. Even when every request is answered in full in the end (requests may fail and be repeated, the URL may change), no call of \<open>doio\<close> ever completes this transfer.
\<close>

theorem resumed_download_stuck:
  assumes "tf_type t = GET" "0 < fp_size (tf_fp t)" "tf_chunkmacs t \<noteq> []" "fst (hd (tf_chunkmacs t)) = 0" "start_get Q t = (t1, ev)"
    and "(net_step full_reply)\<^sup>*\<^sup>* (t1, (TransferSlot ds n fa junk t)\<lparr>ts_pendingcmd := True\<rparr>) (t', s')" "net_env E" "doio E t' s' nt = (res, st)"
  shows "res \<noteq> Complete"
proof -
  obtain c where "little.stuck c t1 ((TransferSlot ds n fa junk t)\<lparr>ts_pendingcmd := True\<rparr>)" using resumed_stuck [OF assms(1-5)] by blast
  then show ?thesis by (rule little.never_completes [OF assms(6) _ assms(7,8)])
qed

theorem resumed_download_stuck_witness:
  "fst (doio tiny_env (fst (start_get tiny_queue tiny_resumed)) ((TransferSlot 7 4 tiny_access [] tiny_resumed)\<lparr>ts_pendingcmd := False, ts_tempurl := str ''u'',
     ts_starttime := 7, ts_lastdata := 7\<rparr>) tiny_net) \<noteq> Complete"
proof -
  let ?s = "(TransferSlot 7 4 tiny_access [] tiny_resumed)\<lparr>ts_pendingcmd := True\<rparr>" and ?t = "fst (start_get tiny_queue tiny_resumed)"
  have "(net_step full_reply)\<^sup>*\<^sup>* (?t, ?s) (?t, ?s\<lparr>ts_pendingcmd := False, ts_tempurl := str ''u'', ts_starttime := 7, ts_lastdata := 7\<rparr>)"
    by (rule r_into_rtranclp) (rule net_url)
  from resumed_download_stuck [OF _ _ _ _ prod.collapse [symmetric] this tiny_env_ok(2) prod.collapse [symmetric]]
  show ?thesis by (simp add: tiny_resumed_simps)
qed



end
